(* ===== verification/Prelude.thy ===== *)
theory Prelude
  imports Main "HOL-Library.Word"
begin

text \<open>
  What the components share: the widths the C sources use as type synonyms, the packing of
  bytes into machine words and back, the shape of a C counting loop, and the generic lemmas
  on lists and words that carry the component proofs.  The collection \<open>packing\<close> holds the
  conversion laws between bytes and words.
\<close>

unbundle bit_operations_syntax

type_synonym u8 = "8 word"
type_synonym u16 = "16 word"
type_synonym u32 = "32 word"
type_synonym u64 = "64 word"

named_theorems packing \<open>conversions between bytes and words\<close>

section \<open>Bytes and words\<close>

text \<open>
  The expression the sources write for a 32-bit word laid low byte first,
  \<^verbatim>\<open>(uint32_t)b[0] | (uint32_t)b[1] << 8 | (uint32_t)b[2] << 16 | (uint32_t)b[3] << 24\<close>,
  and the bytes \<^verbatim>\<open>(uint8_t)(w >> (8 * j))\<close> of a word for \<^verbatim>\<open>j\<close> from 0 to 3.
\<close>

definition le32 :: "u8 \<Rightarrow> u8 \<Rightarrow> u8 \<Rightarrow> u8 \<Rightarrow> u32" where
  "le32 b0 b1 b2 b3 =
     ucast b0 OR push_bit 8 (ucast b1) OR push_bit 16 (ucast b2) OR push_bit 24 (ucast b3)"

definition byte_of :: "nat \<Rightarrow> u32 \<Rightarrow> u8" where
  "byte_of j w = ucast (drop_bit (8 * j) w)"

definition bytes_of_word :: "u32 \<Rightarrow> u8 list" where
  "bytes_of_word w = map (\<lambda>j. byte_of j w) [0..<4]"

definition bytes_of_words :: "u32 list \<Rightarrow> u8 list" where
  "bytes_of_words ws = concat (map bytes_of_word ws)"

text \<open>The loop \<^verbatim>\<open>for (i = 0; i < n; ++i) words[i] = ... bytes[4 * i] ...\<close>.\<close>

definition words_of_bytes :: "nat \<Rightarrow> u8 list \<Rightarrow> u32 list" where
  "words_of_bytes n bs =
     map (\<lambda>i. le32 (bs ! (4 * i)) (bs ! (4 * i + 1)) (bs ! (4 * i + 2)) (bs ! (4 * i + 3))) [0..<n]"

lemma bytes_of_word_expand:
  "bytes_of_word w = [byte_of 0 w, byte_of 1 w, byte_of 2 w, byte_of 3 w]"
  by (simp add: bytes_of_word_def upt_rec numeral_2_eq_2 numeral_3_eq_3)

lemma length_bytes_of_word [simp]: "length (bytes_of_word w) = 4"
  by (simp add: bytes_of_word_def)

lemma bit_byte_of: "bit (byte_of j w) n \<longleftrightarrow> n < 8 \<and> bit w (8 * j + n)"
  by (simp add: byte_of_def bit_simps)

lemma bit_le32:
  "bit (le32 b0 b1 b2 b3) n \<longleftrightarrow>
     (if n < 8 then bit b0 n
      else if n < 16 then bit b1 (n - 8)
      else if n < 24 then bit b2 (n - 16)
      else n < 32 \<and> bit b3 (n - 24))"
  by (auto simp: le32_def bit_simps not_less dest: bit_imp_le_length)

lemma le32_byte_of [simp, packing]:
  "le32 (byte_of 0 w) (byte_of (Suc 0) w) (byte_of 2 w) (byte_of 3 w) = w"
  by (rule bit_word_eqI) (simp add: bit_le32 bit_byte_of, linarith)

lemma byte_of_le32 [simp, packing]:
  "byte_of 0 (le32 b0 b1 b2 b3) = b0" "byte_of (Suc 0) (le32 b0 b1 b2 b3) = b1"
  "byte_of 2 (le32 b0 b1 b2 b3) = b2" "byte_of 3 (le32 b0 b1 b2 b3) = b3"
  by (rule bit_word_eqI; simp add: bit_le32 bit_byte_of)+

lemma length_bytes_of_words [simp]: "length (bytes_of_words ws) = 4 * length ws"
  by (induction ws) (simp_all add: bytes_of_words_def)

lemma length_words_of_bytes [simp]: "length (words_of_bytes n bs) = n"
  by (simp add: words_of_bytes_def)

lemma bytes_of_words_Cons [simp]:
  "bytes_of_words (w # ws) = bytes_of_word w @ bytes_of_words ws"
  "bytes_of_words [] = []"
  by (simp_all add: bytes_of_words_def)

lemma words_of_bytes_Suc:
  "words_of_bytes (Suc n) bs =
     le32 (bs ! 0) (bs ! 1) (bs ! 2) (bs ! 3) # words_of_bytes n (drop 4 bs)"
  if "4 * n + 4 \<le> length bs"
proof -
  have "[0..<Suc n] = 0 # map Suc [0..<n]"
    by (metis map_Suc_upt upt_conv_Cons zero_less_Suc)
  then show ?thesis
    using that by (auto simp: words_of_bytes_def add.commute numeral_eq_Suc)
qed

lemma words_of_bytes_of_words [simp, packing]:
  "words_of_bytes (length ws) (bytes_of_words ws @ bs) = ws"
proof (induction ws)
  case Nil
  then show ?case by (simp add: words_of_bytes_def)
next
  case (Cons w ws)
  then show ?case
    by (simp add: words_of_bytes_Suc bytes_of_word_expand)
qed

lemma words_of_bytes_of_words' [packing]:
  "length ws = n \<Longrightarrow> words_of_bytes n (bytes_of_words ws) = ws"
  using words_of_bytes_of_words [of ws "[]"] by simp

lemma bytes_of_words_of_bytes [packing]:
  "length bs = 4 * n \<Longrightarrow> bytes_of_words (words_of_bytes n bs) = bs"
proof (induction n arbitrary: bs)
  case 0
  then show ?case by (simp add: words_of_bytes_def bytes_of_words_def)
next
  case (Suc n)
  then have "bytes_of_words (words_of_bytes n (drop 4 bs)) = drop 4 bs"
    by simp
  moreover from Suc.prems obtain b0 b1 b2 b3 r where "bs = b0 # b1 # b2 # b3 # r"
    by (cases bs; cases "tl bs"; cases "tl (tl bs)"; cases "tl (tl (tl bs))") auto
  ultimately show ?case
    using Suc.prems by (simp add: words_of_bytes_Suc bytes_of_word_expand)
qed

text \<open>The bits of a small number.\<close>

lemma small_bits: "unat w < 2 ^ k \<Longrightarrow> k \<le> n \<Longrightarrow> \<not> bit w n" for w :: "'a::len word"
proof -
  assume "unat w < 2 ^ k" "k \<le> n"
  then have "unat w < 2 ^ n" using power_increasing [of k n "2 :: nat"] by (meson less_le_trans one_le_numeral)
  then have "\<not> bit (unat w) n" by (simp add: bit_iff_odd)
  then show ?thesis using bit_imp_le_length [of w n] by (auto simp: bit_unsigned_iff)
qed

text \<open>An epoch and an index in one word of a page.\<close>

lemma stamp_epoch: "ucast (drop_bit 16 (push_bit 16 (ucast e) :: u32)) = e" for e :: u16
  by (rule bit_word_eqI) (auto simp: bit_simps)

lemma stamped:
  "ucast (drop_bit 16 (push_bit 16 (ucast e) OR ucast i :: u32)) = e"
  "ucast (push_bit 16 (ucast e) OR ucast i :: u32) = i"
  "ucast (drop_bit 16 (push_bit 16 (ucast e) OR 1 :: u32)) = e"
  "bit (push_bit 16 (ucast e) OR 1 :: u32) 0"
  for e i :: u16
proof -
  show "ucast (drop_bit 16 (push_bit 16 (ucast e) OR ucast i :: u32)) = e"
    by (rule bit_word_eqI) (auto simp: bit_simps dest: bit_imp_le_length)
  show "ucast (push_bit 16 (ucast e) OR ucast i :: u32) = i"
    by (rule bit_word_eqI) (auto simp: bit_simps)
  show "ucast (drop_bit 16 (push_bit 16 (ucast e) OR 1 :: u32)) = e"
    by (rule bit_word_eqI) (auto simp: bit_simps)
  show "bit (push_bit 16 (ucast e) OR 1 :: u32) 0"
    by (simp add: bit_simps)
qed

lemma ucast_ucast_u16: "ucast (ucast x :: u32) = x" for x :: u16
  by (rule bit_word_eqI) (auto simp: bit_simps)

end
