(* ===== verification/Pack_Side.thy ===== *)
theory Pack_Side
  imports Prelude
begin

text \<open>
  \<^verbatim>\<open>pack_side.c\<close>: the driver of the pack side's register face.  The face itself is fabric,
  reached through the struct's function pointers: here a record of functions over a state of
  its own, a parameter of every operation, so that a theorem holds for whatever stands behind
  the pointers.  The memory the fabric shares with the program, where the records lie, is part
  of that state and is reached through \<open>fc_peek\<close> and \<open>fc_poke\<close>.  The tallies are natural
  numbers.
\<close>

unbundle bit_operations_syntax

section \<open>The face\<close>

datatype ps_reg =
  PS_ADDR | PS_TAG | PS_SLOT | PS_CTL | PS_DRIVE | PS_REQ | PS_DIRTY | PS_IDENT | PS_REF | PS_IRQ | PS_IRQEN

record 'h face =
  fc_read :: "'h \<Rightarrow> ps_reg \<Rightarrow> u32 \<times> 'h"
  fc_write :: "'h \<Rightarrow> ps_reg \<Rightarrow> u32 \<Rightarrow> 'h"
  fc_pause :: "'h \<Rightarrow> 'h"
  fc_peek :: "'h \<Rightarrow> nat \<Rightarrow> u32 \<times> 'h"
  fc_poke :: "'h \<Rightarrow> nat \<Rightarrow> u32 \<Rightarrow> 'h"

abbreviation (input) PS_IDENT_WORD :: u32 where "PS_IDENT_WORD \<equiv> 0x5041434B"
abbreviation (input) PS_SLOTS :: nat where "PS_SLOTS \<equiv> 24"
abbreviation (input) PS_RECORD_ALIGN :: u32 where "PS_RECORD_ALIGN \<equiv> 128"
abbreviation (input) PS_CTL_FETCH :: u32 where "PS_CTL_FETCH \<equiv> 1"
abbreviation (input) PS_CTL_WRITE :: u32 where "PS_CTL_WRITE \<equiv> 2"
abbreviation (input) PS_CTL_TAKE :: u32 where "PS_CTL_TAKE \<equiv> 4"
abbreviation (input) PS_CTL_DENY :: u32 where "PS_CTL_DENY \<equiv> 8"
abbreviation (input) PS_ST_BUSY :: u32 where "PS_ST_BUSY \<equiv> 1"
abbreviation (input) PS_ST_DONE :: u32 where "PS_ST_DONE \<equiv> 2"
abbreviation (input) PS_ST_ERROR :: u32 where "PS_ST_ERROR \<equiv> 4"
abbreviation (input) PS_ST_REFUSED :: u32 where "PS_ST_REFUSED \<equiv> 8"
abbreviation (input) PS_ST_CH_ACTIVE :: u32 where "PS_ST_CH_ACTIVE \<equiv> 16"
abbreviation (input) PS_REQ_VALID :: u32 where "PS_REQ_VALID \<equiv> 0x80000000"
abbreviation (input) PS_TAG_MASK :: u32 where "PS_TAG_MASK \<equiv> 0x7FFFFFFF"
abbreviation (input) PS_DRIVE_TIMED :: u32 where "PS_DRIVE_TIMED \<equiv> 0x10000"

record 'h pack_side =
  ps_ctx :: 'h
  poll_cap :: nat
  ps_fetches :: nat
  ps_writebacks :: nat
  ps_takes :: nat
  ps_denials :: nat
  ps_attentions :: nat
  ps_refused_walk :: nat
  ps_refused_other :: nat
  ps_errors :: nat
  ps_polls :: nat
  ps_stuck :: nat

datatype ps_why =
    PS_ident_stopped
  | PS_not_one u32
  | PS_unaligned u32
  | PS_past_store nat
  | PS_was_busy
  | PS_stayed_busy nat
  | PS_not_seen u32
  | PS_port_error

datatype ps_result = PS_OK | PS_WALK_SLOT | PS_FAIL ps_why

definition ps_init :: "'h \<Rightarrow> 'h pack_side" where
  "ps_init ctx =
     \<lparr>ps_ctx = ctx, poll_cap = 100000, ps_fetches = 0, ps_writebacks = 0, ps_takes = 0,
      ps_denials = 0, ps_attentions = 0, ps_refused_walk = 0, ps_refused_other = 0,
      ps_errors = 0, ps_polls = 0, ps_stuck = 0\<rparr>"

definition ps_read :: "'h face \<Rightarrow> ps_reg \<Rightarrow> 'h pack_side \<Rightarrow> u32 \<times> 'h pack_side" where
  "ps_read F r ps = (case fc_read F (ps_ctx ps) r of (v, h) \<Rightarrow> (v, ps\<lparr>ps_ctx := h\<rparr>))"

definition ps_write :: "'h face \<Rightarrow> ps_reg \<Rightarrow> u32 \<Rightarrow> 'h pack_side \<Rightarrow> 'h pack_side" where
  "ps_write F r v ps = ps\<lparr>ps_ctx := fc_write F (ps_ctx ps) r v\<rparr>"

definition ps_pause :: "'h face \<Rightarrow> 'h pack_side \<Rightarrow> 'h pack_side" where
  "ps_pause F ps = ps\<lparr>ps_ctx := fc_pause F (ps_ctx ps)\<rparr>"

definition ps_status :: "'h face \<Rightarrow> 'h pack_side \<Rightarrow> u32 \<times> 'h pack_side" where
  "ps_status F ps = ps_read F PS_CTL ps"

definition ps_req :: "'h face \<Rightarrow> 'h pack_side \<Rightarrow> u32 \<times> 'h pack_side" where
  "ps_req F ps = ps_read F PS_REQ ps"

definition ps_dirty :: "'h face \<Rightarrow> 'h pack_side \<Rightarrow> u32 \<times> 'h pack_side" where
  "ps_dirty F ps = ps_read F PS_DIRTY ps"

definition ps_ref :: "'h face \<Rightarrow> 'h pack_side \<Rightarrow> u32 \<times> 'h pack_side" where
  "ps_ref F ps = ps_read F PS_REF ps"

definition ps_irq :: "'h face \<Rightarrow> 'h pack_side \<Rightarrow> u32 \<times> 'h pack_side" where
  "ps_irq F ps = ps_read F PS_IRQ ps"

definition ps_ref_clear :: "'h face \<Rightarrow> u32 \<Rightarrow> 'h pack_side \<Rightarrow> 'h pack_side" where
  "ps_ref_clear F m ps = ps_write F PS_REF m ps"

definition ps_irq_clear :: "'h face \<Rightarrow> u32 \<Rightarrow> 'h pack_side \<Rightarrow> 'h pack_side" where
  "ps_irq_clear F m ps = ps_write F PS_IRQ m ps"

definition ps_irqen :: "'h face \<Rightarrow> u32 \<Rightarrow> 'h pack_side \<Rightarrow> 'h pack_side" where
  "ps_irqen F m ps = ps_write F PS_IRQEN m ps"

section \<open>Tags\<close>

definition ps_tag :: "u32 \<Rightarrow> u32 \<Rightarrow> u32 \<Rightarrow> u32 \<Rightarrow> u32" where
  "ps_tag unit c h b =
     push_bit 28 (unit AND 7) OR push_bit 16 (c AND 0xFFF) OR push_bit 8 (h AND 0xFF) OR (b AND 0xFF)"

definition ps_tag_split :: "u32 \<Rightarrow> u32 \<times> u32 \<times> u32 \<times> u32" where
  "ps_tag_split tag =
     (drop_bit 28 tag AND 7, drop_bit 16 tag AND 0xFFF, drop_bit 8 tag AND 0xFF, tag AND 0xFF)"

section \<open>The operations\<close>

definition ps_ident_ok :: "'h face \<Rightarrow> 'h pack_side \<Rightarrow> bool \<times> u32 \<times> 'h pack_side" where
  "ps_ident_ok F ps = (case ps_read F PS_IDENT ps of (got, ps) \<Rightarrow> (got = PS_IDENT_WORD, got, ps))"

definition ps_seam :: "u8 \<Rightarrow> u8 \<Rightarrow> bool \<Rightarrow> u32" where
  "ps_seam present read_only timed =
     ucast present OR push_bit 8 (ucast read_only) OR (if timed then PS_DRIVE_TIMED else 0)"

definition ps_drive ::
    "'h face \<Rightarrow> u8 \<Rightarrow> u8 \<Rightarrow> bool \<Rightarrow> u8 \<Rightarrow> 'h pack_side \<Rightarrow> 'h pack_side" where
  "ps_drive F present read_only timed attention ps =
     (let seam = ps_seam present read_only timed;
          ps = (if attention \<noteq> 0 then
                  let ps = ps_write F PS_DRIVE (seam OR push_bit 17 (ucast attention)) ps
                  in ps\<lparr>ps_attentions := ps_attentions ps + 1\<rparr>
                else ps)
      in ps_write F PS_DRIVE seam ps)"

definition ps_deny :: "'h face \<Rightarrow> 'h pack_side \<Rightarrow> 'h pack_side" where
  "ps_deny F ps =
     (let ps = ps_write F PS_CTL PS_CTL_DENY ps in ps\<lparr>ps_denials := ps_denials ps + 1\<rparr>)"

text \<open>
  The poll of an accepted move, with \<open>n\<close> polls left of the cap: the last status read and
  whether the face stayed busy to the end.
\<close>

fun ps_poll :: "'h face \<Rightarrow> nat \<Rightarrow> u32 \<Rightarrow> 'h pack_side \<Rightarrow> bool \<times> u32 \<times> 'h pack_side" where
  "ps_poll F 0 st ps =
     (if st AND PS_ST_BUSY = 0 then (False, st, ps)
      else (True, st, ps\<lparr>ps_stuck := ps_stuck ps + 1\<rparr>))"
| "ps_poll F (Suc n) st ps =
     (if st AND PS_ST_BUSY = 0 then (False, st, ps)
      else let ps = ps_pause F (ps\<lparr>ps_polls := ps_polls ps + 1\<rparr>)
           in case ps_read F PS_CTL ps of (st, ps) \<Rightarrow> ps_poll F n st ps)"

text \<open>What the driver says of a refusal: its own doing, or the walk on that slot.\<close>

definition ps_refusal :: "u32 \<Rightarrow> u32 \<Rightarrow> nat \<Rightarrow> u32 \<Rightarrow> ps_why option" where
  "ps_refusal ctl addr slot st =
     (if \<not> (ctl = PS_CTL_FETCH \<or> ctl = PS_CTL_WRITE \<or> ctl = PS_CTL_TAKE) then Some (PS_not_one ctl)
      else if addr AND (PS_RECORD_ALIGN - 1) \<noteq> 0 \<and> ctl \<noteq> PS_CTL_TAKE then Some (PS_unaligned addr)
      else if PS_SLOTS \<le> slot then Some (PS_past_store slot)
      else if st AND PS_ST_BUSY \<noteq> 0 then Some PS_was_busy
      else None)"

definition ps_request ::
    "'h face \<Rightarrow> u32 \<Rightarrow> u32 \<Rightarrow> u32 \<Rightarrow> nat \<Rightarrow> 'h pack_side \<Rightarrow> ps_result \<times> u32 \<times> 'h pack_side" where
  "ps_request F ctl addr tag slot ps =
     (let ps = ps_write F PS_ADDR addr ps;
          ps = ps_write F PS_TAG tag ps;
          ps = ps_write F PS_SLOT (of_nat slot) ps;
          ps = ps_write F PS_CTL ctl ps
      in case ps_read F PS_IDENT ps of (ident, ps) \<Rightarrow>
           if ident \<noteq> PS_IDENT_WORD then (PS_FAIL PS_ident_stopped, 0, ps)
           else case ps_read F PS_CTL ps of (st, ps) \<Rightarrow>
             if st AND PS_ST_REFUSED \<noteq> 0 then
               (case ps_refusal ctl addr slot st of
                  Some why \<Rightarrow> (PS_FAIL why, st, ps\<lparr>ps_refused_other := ps_refused_other ps + 1\<rparr>)
                | None \<Rightarrow> (PS_WALK_SLOT, st, ps\<lparr>ps_refused_walk := ps_refused_walk ps + 1\<rparr>))
             else case ps_poll F (poll_cap ps) st ps of (stuck, st, ps) \<Rightarrow>
               if stuck then (PS_FAIL (PS_stayed_busy (poll_cap ps)), st, ps)
               else if st AND PS_ST_DONE = 0 then (PS_FAIL (PS_not_seen st), st, ps)
               else if st AND PS_ST_ERROR \<noteq> 0 then
                 (PS_FAIL PS_port_error, st, ps\<lparr>ps_errors := ps_errors ps + 1\<rparr>)
               else (PS_OK, st,
                 if ctl = PS_CTL_FETCH then ps\<lparr>ps_fetches := ps_fetches ps + 1\<rparr>
                 else if ctl = PS_CTL_WRITE then ps\<lparr>ps_writebacks := ps_writebacks ps + 1\<rparr>
                 else ps\<lparr>ps_takes := ps_takes ps + 1\<rparr>))"

definition ps_fetch ::
    "'h face \<Rightarrow> u32 \<Rightarrow> u32 \<Rightarrow> nat \<Rightarrow> 'h pack_side \<Rightarrow> ps_result \<times> u32 \<times> 'h pack_side" where
  "ps_fetch F addr tag slot ps = ps_request F PS_CTL_FETCH addr tag slot ps"

definition ps_writeback ::
    "'h face \<Rightarrow> u32 \<Rightarrow> nat \<Rightarrow> 'h pack_side \<Rightarrow> ps_result \<times> u32 \<times> 'h pack_side" where
  "ps_writeback F addr slot ps = ps_request F PS_CTL_WRITE addr 0 slot ps"

definition ps_take :: "'h face \<Rightarrow> nat \<Rightarrow> 'h pack_side \<Rightarrow> ps_result \<times> u32 \<times> 'h pack_side" where
  "ps_take F slot ps = ps_request F PS_CTL_TAKE 0 0 slot ps"

end
