(* ===== verification/Burst_Code.thy ===== *)
theory Burst_Code
  imports Prelude
begin

text \<open>
  Shift registers with feedback, bit by bit: what makes the code in one detect a burst of errors.
  The register takes a bit and moves on, one to one; and as many bits as it has stages may as
  well be laid over it first and shifted through with nothing fed in.
\<close>

unbundle bit_operations_syntax

lemma xor_right_inj [simp]: "a XOR c = b XOR c \<longleftrightarrow> a = b" for a b c :: "'a::len word"
  by (metis xor.assoc xor.right_neutral xor_self_eq)

locale shift_code =
  fixes step :: "'r::len word \<Rightarrow> bool \<Rightarrow> 'r word" and lay :: "bool list \<Rightarrow> 'r word"
  assumes step_inj: "step r d = step s d \<Longrightarrow> r = s"
    and lay_Nil: "lay [] = 0"
    and lay_step: "length ds < LENGTH('r) \<Longrightarrow> step (r XOR lay (d # ds)) False = step r d XOR lay ds"
    and lay_inj: "length xs = length ys \<Longrightarrow> length xs \<le> LENGTH('r) \<Longrightarrow> lay xs = lay ys \<Longrightarrow> xs = ys"
begin

abbreviation "feed r bs \<equiv> fold (\<lambda>d r. step r d) bs r"

lemma feed_inj: "feed r bs = feed s bs \<Longrightarrow> r = s"
  by (induction bs arbitrary: r s) (auto dest: step_inj)

lemma feed_laid: "length bs \<le> LENGTH('r) \<Longrightarrow> feed r bs = feed (r XOR lay bs) (replicate (length bs) False)"
proof (induction bs arbitrary: r)
  case Nil
  then show ?case by (simp add: lay_Nil)
next
  case (Cons d ds)
  then have "feed r (d # ds) = feed (step r d XOR lay ds) (replicate (length ds) False)" by simp
  also have "\<dots> = feed (r XOR lay (d # ds)) (replicate (length (d # ds)) False)"
    using Cons.prems lay_step [of ds r d] by simp
  finally show ?case .
qed

lemma feed_burst:
  assumes "length xs = length ys" "length xs \<le> LENGTH('r)" "feed r xs = feed r ys"
  shows "xs = ys"
proof -
  have "feed (r XOR lay xs) (replicate (length xs) False) = feed (r XOR lay ys) (replicate (length xs) False)"
    by (metis assms feed_laid)
  then have "r XOR lay xs = r XOR lay ys" by (rule feed_inj)
  then have "r XOR (r XOR lay xs) = r XOR (r XOR lay ys)" by simp
  then have "lay xs = lay ys" by (simp flip: xor.assoc)
  then show ?thesis using assms(1, 2) by (simp add: lay_inj)
qed

lemma burst_detected:
  assumes "length a = length b" "length a \<le> LENGTH('r)" "a \<noteq> b"
  shows "feed r (p @ a @ s) \<noteq> feed r (p @ b @ s)"
proof
  assume "feed r (p @ a @ s) = feed r (p @ b @ s)"
  then have "feed (feed r p) a = feed (feed r p) b" by (auto dest: feed_inj)
  with assms show False by (blast dest: feed_burst)
qed

end

end
