(* ===== verification/Pack_Ecc.thy ===== *)
theory Pack_Ecc
  imports Burst_Code
begin

text \<open>
  \<^verbatim>\<open>pack_ecc.h\<close>: the disk controller's error-correcting code, a 32-stage shift register with
  feedback, over the bytes or over the 32-bit words of a block.  The lemmas reduce both loops
  to one bit stream, show that the register step is a bijection, and from that derive which
  corruptions the checkword always exposes.
\<close>

unbundle bit_operations_syntax

section \<open>The code\<close>

definition ecc_shift :: "u32 \<Rightarrow> u32 \<Rightarrow> u32" where
  "ecc_shift r data =
     (let input = (data XOR (r AND 1)) AND 1;
          r' = drop_bit 1 r
      in if input \<noteq> 0 then r' XOR 0xA0100500 else r')"

definition ecc_over_bytes :: "u8 list \<Rightarrow> u32" where
  "ecc_over_bytes b =
     fold (\<lambda>x r. fold (\<lambda>k r. ecc_shift r (drop_bit k (ucast x) AND 1)) [0..<8] r) b 0"

definition ecc_over_words :: "u32 list \<Rightarrow> u32" where
  "ecc_over_words w =
     fold (\<lambda>x r. fold (\<lambda>k r. ecc_shift r (drop_bit k x AND 1)) [0..<32] r) w 0"

section \<open>One bit stream\<close>

definition ecc_bits :: "u32 \<Rightarrow> bool list \<Rightarrow> u32" where
  "ecc_bits r bs = fold (\<lambda>d r. ecc_shift r (of_bool d)) bs r"

definition bits_of :: "'a::len word \<Rightarrow> bool list" where
  "bits_of w = map (bit w) [0..<LENGTH('a)]"

definition stream_of :: "'a::len word list \<Rightarrow> bool list" where
  "stream_of ws = concat (map bits_of ws)"

lemma ecc_bits_append [simp]: "ecc_bits r (xs @ ys) = ecc_bits (ecc_bits r xs) ys"
  by (simp add: ecc_bits_def)

lemma ecc_bits_Cons: "ecc_bits r (d # ds) = ecc_bits (ecc_shift r (of_bool d)) ds"
  by (simp add: ecc_bits_def)

lemma ecc_bits_Nil [simp]: "ecc_bits r [] = r"
  by (simp add: ecc_bits_def)

lemma length_bits_of [simp]: "length (bits_of (w :: 'a::len word)) = LENGTH('a)"
  by (simp add: bits_of_def)

lemma length_stream_of [simp]:
  "length (stream_of (ws :: 'a::len word list)) = LENGTH('a) * length ws"
  by (induction ws) (simp_all add: stream_of_def)

lemma drop_bit_and_1: "drop_bit k x AND 1 = of_bool (bit x k)" for x :: "'a::len word"
  by (simp add: bit_iff_odd_drop_bit and_one_eq mod_2_eq_odd)

lemma fold_bits_eq:
  "fold (\<lambda>k r. ecc_shift r (of_bool (bit x k))) ks r = ecc_bits r (map (bit x) ks)"
  by (induction ks arbitrary: r) (simp_all add: ecc_bits_Cons)

lemma ecc_words_stream:
  "fold (\<lambda>x r. fold (\<lambda>k r. ecc_shift r (drop_bit k x AND 1)) [0..<32] r) ws r =
     ecc_bits r (stream_of ws)" for ws :: "u32 list"
  by (induction ws arbitrary: r)
     (simp_all add: drop_bit_and_1 fold_bits_eq stream_of_def bits_of_def)

lemma ecc_over_words_stream: "ecc_over_words ws = ecc_bits 0 (stream_of ws)"
  by (simp add: ecc_over_words_def ecc_words_stream)

lemma bits_of_ucast_byte: "map (bit (ucast x :: u32)) [0..<8] = bits_of (x :: u8)"
  by (simp add: bits_of_def bit_simps)

lemma ecc_over_bytes_stream: "ecc_over_bytes bs = ecc_bits 0 (stream_of bs)"
proof -
  have "fold (\<lambda>x r. fold (\<lambda>k r. ecc_shift r (drop_bit k (ucast x) AND 1)) [0..<8] r) bs r =
    ecc_bits r (stream_of bs)" for r
    by (induction bs arbitrary: r)
       (simp_all add: drop_bit_and_1 fold_bits_eq stream_of_def bits_of_ucast_byte)
  then show ?thesis by (simp add: ecc_over_bytes_def)
qed

lemma bits_of_word_bytes: "bits_of w = stream_of (bytes_of_word w)" for w :: u32
proof (rule nth_equalityI)
  show "length (bits_of w) = length (stream_of (bytes_of_word w))" by simp
next
  fix i assume "i < length (bits_of w)"
  then have "i < 32" by simp
  then show "bits_of w ! i = stream_of (bytes_of_word w) ! i"
    by (auto simp: bits_of_def stream_of_def bytes_of_word_expand nth_append bit_byte_of)
qed

lemma stream_of_words: "stream_of ws = stream_of (bytes_of_words ws)" for ws :: "u32 list"
  by (induction ws) (simp_all add: stream_of_def bits_of_word_bytes)

section \<open>The register step is a bijection\<close>

lemma bit_ecc_poly_31: "bit (0xA0100500 :: u32) 31"
  by simp

lemma ecc_shift_bool:
  "ecc_shift r (of_bool d) =
     (if d \<noteq> bit r 0 then drop_bit 1 r XOR 0xA0100500 else drop_bit 1 r)"
  by (simp add: ecc_shift_def Let_def bit_0 and_one_eq mod_2_eq_odd)

lemma not_bit_above [simp]: "\<not> bit (r :: u32) 32"
  using bit_imp_le_length [of r 32] by auto

lemma bit_ecc_shift_31: "bit (ecc_shift r (of_bool d)) 31 \<longleftrightarrow> d \<noteq> bit r 0"
  by (simp add: ecc_shift_bool bit_simps)

lemma eq_by_low_bit_and_rest:
  fixes r s :: "'a::len word"
  assumes "bit r 0 = bit s 0" and "drop_bit 1 r = drop_bit 1 s"
  shows "r = s"
proof (rule bit_word_eqI)
  fix n
  from assms(2) have "bit (drop_bit 1 r) (n - 1) = bit (drop_bit 1 s) (n - 1)" by simp
  with assms(1) show "bit r n = bit s n" by (cases n) (simp_all add: bit_simps)
qed

lemma ecc_shift_inj:
  assumes "ecc_shift r (of_bool d) = ecc_shift s (of_bool d)"
  shows "r = s"
proof (rule eq_by_low_bit_and_rest)
  show *: "bit r 0 = bit s 0"
    using assms bit_ecc_shift_31 [of r d] bit_ecc_shift_31 [of s d] by auto
  show "drop_bit 1 r = drop_bit 1 s"
    using assms * by (simp add: ecc_shift_bool split: if_splits)
qed

section \<open>A burst of up to 32 bits\<close>

text \<open>
  Up to 32 bits fed in are the same as the bits laid over the register first and then as many
  shifts with no input: the identity behind every table-driven form of the code.
\<close>

definition laid :: "bool list \<Rightarrow> u32" where
  "laid bs = horner_sum of_bool 2 bs"

lemma bit_laid: "bit (laid bs) n \<longleftrightarrow> n < length bs \<and> n < 32 \<and> bs ! n"
  by (auto simp: laid_def bit_horner_sum_bit_word_iff)

lemma drop_bit_laid_Cons: "length ds < 32 \<Longrightarrow> drop_bit 1 (laid (d # ds)) = laid ds"
  by (rule bit_word_eqI) (auto simp: bit_simps bit_laid)

lemma ecc_shift_laid:
  "length ds < 32 \<Longrightarrow>
     ecc_shift (r XOR laid (d # ds)) (of_bool False) = ecc_shift r (of_bool d) XOR laid ds"
  unfolding ecc_shift_bool
  by (auto simp: drop_bit_xor drop_bit_laid_Cons bit_xor_iff bit_laid ac_simps
           simp del: of_bool_eq One_nat_def)

lemma laid_inj:
  assumes "length xs = length ys" and "length xs \<le> 32" and "laid xs = laid ys"
  shows "xs = ys"
proof (rule nth_equalityI)
  fix i assume "i < length xs"
  moreover have "bit (laid xs) i = bit (laid ys) i" by (simp only: assms(3))
  ultimately show "xs ! i = ys ! i" using assms(1,2) by (simp add: bit_laid)
qed (fact assms(1))

interpretation ecc: shift_code "\<lambda>r d. ecc_shift r (of_bool d)" laid
proof
  fix r s d assume "ecc_shift r (of_bool d) = ecc_shift s (of_bool d)"
  then show "r = s" by (rule ecc_shift_inj)
next
  fix ds :: "bool list" and r d assume "length ds < LENGTH(32)"
  then have "length ds < 32" by simp
  then show "ecc_shift (r XOR laid (d # ds)) (of_bool False) = ecc_shift r (of_bool d) XOR laid ds"
    by (rule ecc_shift_laid)
qed (simp add: laid_def, use laid_inj in simp)

section \<open>What the checkword promises\<close>

text \<open>
  The checkword over 32-bit words is the checkword over the bytes those words are laid as,
  low byte first: the pack file's bytes and the record's words carry one and the same code.
\<close>

theorem ecc_words_are_bytes: "ecc_over_words ws = ecc_over_bytes (bytes_of_words ws)"
  by (simp add: ecc_over_words_stream ecc_over_bytes_stream stream_of_words)

text \<open>
  C24. Two blocks whose bit streams, low-order bit first, differ only inside a window of at
  most 32 consecutive bits never have the same checkword: every error burst of up to 32 bits,
  wherever it lies and across word boundaries too, is exposed.
\<close>

theorem ecc_detects_burst:
  assumes "stream_of ws = p @ a @ s" and "stream_of ws' = p @ b @ s"
    and "length a = length b" and "length a \<le> 32" and "a \<noteq> b"
  shows "ecc_over_words ws \<noteq> ecc_over_words ws'"
  unfolding ecc_over_words_stream ecc_bits_def assms(1,2)
  by (rule ecc.burst_detected) (use assms in simp_all)

theorem ecc_detects_burst_witness: "ecc_over_words [0, 0x80000000, 5] \<noteq> ecc_over_words [0, 0, 4]"
proof (rule ecc_detects_burst)
  let ?p = "replicate 63 False" and ?s = "[False, True] @ replicate 29 False"
  show "stream_of [0, 0x80000000, 5 :: u32] = ?p @ [True, True] @ ?s"
    and "stream_of [0, 0, 4 :: u32] = ?p @ [False, False] @ ?s"
    by (simp_all add: stream_of_def bits_of_def upt_rec numeral_eq_Suc)
qed simp_all

end
