(* ===== verification/Posix.thy ===== *)
theory Posix
  imports Prelude
begin

text \<open>
  The part of the operating system the programs stand on: names, inodes and descriptors, and
  the calls \<^verbatim>\<open>open\<close>, \<^verbatim>\<open>close\<close>, \<^verbatim>\<open>stat\<close>, \<^verbatim>\<open>fstat\<close>, \<^verbatim>\<open>access\<close>, \<^verbatim>\<open>pread\<close>, \<^verbatim>\<open>pwrite\<close>,
  \<^verbatim>\<open>fdatasync\<close> and \<^verbatim>\<open>malloc\<close>/\<^verbatim>\<open>realloc\<close> as the sources use them.  Every call that may fail
  takes the next outcome of a script, so that a theorem over all scripts covers every sequence
  of errors, short reads and short writes; an exhausted script is a system where nothing
  fails.  The programs run as root, so permission bits never refuse an \<^verbatim>\<open>open\<close>.
\<close>

section \<open>Bytes of a file\<close>

definition read_bytes :: "nat \<Rightarrow> nat \<Rightarrow> u8 list \<Rightarrow> u8 list" where
  "read_bytes off n file = take n (drop off file)"

text \<open>A write past the end leaves a gap that reads as zeros; a write of nothing changes nothing.\<close>

definition write_bytes :: "nat \<Rightarrow> u8 list \<Rightarrow> u8 list \<Rightarrow> u8 list" where
  "write_bytes off bs file =
     (if bs = [] then file
      else let f = file @ replicate (off + length bs - length file) 0
           in take off f @ bs @ drop (off + length bs) f)"

named_theorems file_bytes \<open>reads of a file after writes to it\<close>

lemma length_write_bytes [simp]:
  "length (write_bytes off bs f) = (if bs = [] then length f else max (length f) (off + length bs))"
  by (auto simp: write_bytes_def Let_def)

lemma le_length_write_bytes: "n \<le> length f \<Longrightarrow> n \<le> length (write_bytes off bs f)"
  by (auto simp: max_def)

lemma length_read_bytes [simp]: "length (read_bytes off n f) = min n (length f - off)"
  by (simp add: read_bytes_def)

lemma read_write_same [simp, file_bytes]: "read_bytes off (length bs) (write_bytes off bs f) = bs"
  by (auto simp: read_bytes_def write_bytes_def Let_def)

lemma write_bytes_alt:
  "bs \<noteq> [] \<Longrightarrow> off \<le> length f \<Longrightarrow>
     write_bytes off bs f = take off f @ bs @ drop (off + length bs) f"
  by (auto simp: write_bytes_def Let_def)

lemma read_bytes_nth:
  "i < n \<Longrightarrow> off + i < length f \<Longrightarrow> read_bytes off n f ! i = f ! (off + i)"
  by (simp add: read_bytes_def)

lemma write_bytes_nth:
  assumes "i < length (write_bytes off bs f)"
  shows "write_bytes off bs f ! i =
     (if off \<le> i \<and> i < off + length bs then bs ! (i - off)
      else if i < length f then f ! i else 0)"
proof (cases "bs = []")
  case True
  with assms show ?thesis by (auto simp: write_bytes_def)
next
  case False
  let ?f = "f @ replicate (off + length bs - length f) 0"
  have len: "off + length bs \<le> length ?f" by simp
  have f: "?f ! j = (if j < length f then f ! j else 0)" if "j < length ?f" for j
    using that by (auto simp: nth_append)
  have w: "write_bytes off bs f = take off ?f @ bs @ drop (off + length bs) ?f"
    using False by (simp add: write_bytes_def)
  have i: "i < length ?f" using assms False by (auto split: if_splits)
  consider "i < off" | "off \<le> i" "i < off + length bs" | "off + length bs \<le> i" by linarith
  then show ?thesis
  proof cases
    case 1
    then have "write_bytes off bs f ! i = ?f ! i"
      unfolding w using len by (simp only: nth_append length_take nth_take) simp
    with 1 f i show ?thesis by simp
  next
    case 2
    then have "write_bytes off bs f ! i = bs ! (i - off)"
      unfolding w using len by (simp only: nth_append length_take) auto
    with 2 show ?thesis by simp
  next
    case 3
    then have "write_bytes off bs f ! i = ?f ! i"
      unfolding w using len i
      by (simp only: nth_append length_take nth_drop length_drop min_absorb2) auto
    with 3 f [OF i] i show ?thesis by auto
  qed
qed

lemma read_write_inside:
  assumes "off \<le> at" and "at + n \<le> off + length bs"
  shows "read_bytes at n (write_bytes off bs f) = take n (drop (at - off) bs)"
proof (cases "n = 0")
  case True
  then show ?thesis by (simp add: read_bytes_def)
next
  case False
  show ?thesis
  proof (rule nth_equalityI)
    show "length (read_bytes at n (write_bytes off bs f)) = length (take n (drop (at - off) bs))"
      using assms False by auto
  next
    fix i assume "i < length (read_bytes at n (write_bytes off bs f))"
    then show "read_bytes at n (write_bytes off bs f) ! i = take n (drop (at - off) bs) ! i"
      using assms False by (auto simp: read_bytes_nth write_bytes_nth)
  qed
qed

lemma read_write_apart [file_bytes]:
  assumes "at + n \<le> off \<or> off + length bs \<le> at" and "at + n \<le> length f"
  shows "read_bytes at n (write_bytes off bs f) = read_bytes at n f"
proof (rule nth_equalityI)
  show "length (read_bytes at n (write_bytes off bs f)) = length (read_bytes at n f)"
    using assms by auto
next
  fix i assume "i < length (read_bytes at n (write_bytes off bs f))"
  then show "read_bytes at n (write_bytes off bs f) ! i = read_bytes at n f ! i"
    using assms by (auto simp: read_bytes_nth write_bytes_nth)
qed

section \<open>The kernel's tables\<close>

datatype outcome = Fine | Fail nat | Short nat

abbreviation (input) EIO :: nat where "EIO \<equiv> 5"
abbreviation (input) ENOENT :: nat where "ENOENT \<equiv> 2"
abbreviation (input) EBADF :: nat where "EBADF \<equiv> 9"
abbreviation (input) EINVAL :: nat where "EINVAL \<equiv> 22"
abbreviation (input) ENOSPC :: nat where "ENOSPC \<equiv> 28"
abbreviation (input) ENOMEM :: nat where "ENOMEM \<equiv> 12"
abbreviation (input) EISDIR :: nat where "EISDIR \<equiv> 21"

type_synonym inode_id = "nat \<times> nat"

record inode =
  i_bytes :: "u8 list"
  i_nlink :: nat
  i_mode :: u32
  i_reg :: bool

record stat =
  st_dev :: nat
  st_ino :: nat
  st_size :: nat
  st_nlink :: nat
  st_mode :: u32
  st_isreg :: bool

record kernel =
  k_names :: "string \<Rightarrow> inode_id option"
  k_inodes :: "inode_id \<Rightarrow> inode option"
  k_fds :: "(inode_id \<times> bool) option list"
  k_script :: "outcome list"

definition next_outcome :: "kernel \<Rightarrow> outcome \<times> kernel" where
  "next_outcome k =
     (case k_script k of [] \<Rightarrow> (Fine, k) | x # xs \<Rightarrow> (x, k\<lparr>k_script := xs\<rparr>))"

definition stat_of :: "inode_id \<Rightarrow> inode \<Rightarrow> stat" where
  "stat_of i n =
     \<lparr>st_dev = fst i, st_ino = snd i, st_size = length (i_bytes n), st_nlink = i_nlink n,
      st_mode = i_mode n, st_isreg = i_reg n\<rparr>"

text \<open>The inode an open descriptor is on, and whether it is open for writing.\<close>

definition fd_inode :: "kernel \<Rightarrow> int \<Rightarrow> (inode_id \<times> bool) option" where
  "fd_inode k fd = (if 0 \<le> fd \<and> nat fd < length (k_fds k) then k_fds k ! nat fd else None)"

definition fd_bytes :: "kernel \<Rightarrow> int \<Rightarrow> u8 list option" where
  "fd_bytes k fd =
     (case fd_inode k fd of None \<Rightarrow> None
      | Some (i, w) \<Rightarrow> map_option i_bytes (k_inodes k i))"

fun free_slot :: "'a option list \<Rightarrow> nat" where
  "free_slot [] = 0"
| "free_slot (None # xs) = 0"
| "free_slot (Some x # xs) = Suc (free_slot xs)"

definition install_fd :: "kernel \<Rightarrow> inode_id \<times> bool \<Rightarrow> int \<times> kernel" where
  "install_fd k e =
     (let n = free_slot (k_fds k)
      in (int n, k\<lparr>k_fds := (if n < length (k_fds k) then (k_fds k)[n := Some e]
                             else k_fds k @ [Some e])\<rparr>))"

definition sys_open :: "string \<Rightarrow> bool \<Rightarrow> kernel \<Rightarrow> (nat + int) \<times> kernel" where
  "sys_open path writable k0 =
     (case next_outcome k0 of
        (Fail e, k) \<Rightarrow> (Inl e, k)
      | (_, k) \<Rightarrow>
          (case k_names k path of None \<Rightarrow> (Inl ENOENT, k)
           | Some i \<Rightarrow>
               (case k_inodes k i of None \<Rightarrow> (Inl ENOENT, k)
                | Some n \<Rightarrow>
                    if writable \<and> \<not> i_reg n then (Inl EISDIR, k)
                    else let (fd, k') = install_fd k (i, writable) in (Inr fd, k'))))"

definition sys_close :: "int \<Rightarrow> kernel \<Rightarrow> kernel" where
  "sys_close fd k =
     (if 0 \<le> fd \<and> nat fd < length (k_fds k) then k\<lparr>k_fds := (k_fds k)[nat fd := None]\<rparr> else k)"

definition sys_stat :: "string \<Rightarrow> kernel \<Rightarrow> (nat + stat) \<times> kernel" where
  "sys_stat path k0 =
     (case next_outcome k0 of
        (Fail e, k) \<Rightarrow> (Inl e, k)
      | (_, k) \<Rightarrow>
          (case k_names k path of None \<Rightarrow> (Inl ENOENT, k)
           | Some i \<Rightarrow>
               (case k_inodes k i of None \<Rightarrow> (Inl ENOENT, k)
                | Some n \<Rightarrow> (Inr (stat_of i n), k))))"

definition sys_fstat :: "int \<Rightarrow> kernel \<Rightarrow> (nat + stat) \<times> kernel" where
  "sys_fstat fd k0 =
     (case next_outcome k0 of
        (Fail e, k) \<Rightarrow> (Inl e, k)
      | (_, k) \<Rightarrow>
          (case fd_inode k fd of None \<Rightarrow> (Inl EBADF, k)
           | Some (i, w) \<Rightarrow>
               (case k_inodes k i of None \<Rightarrow> (Inl EBADF, k)
                | Some n \<Rightarrow> (Inr (stat_of i n), k))))"

text \<open>\<^verbatim>\<open>pread\<close>: the bytes there are, up to \<open>n\<close>, or fewer where the system gives fewer.\<close>

definition sys_pread :: "int \<Rightarrow> nat \<Rightarrow> nat \<Rightarrow> kernel \<Rightarrow> (nat + u8 list) \<times> kernel" where
  "sys_pread fd n off k0 =
     (case next_outcome k0 of
        (Fail e, k) \<Rightarrow> (Inl e, k)
      | (oc, k) \<Rightarrow>
          (case fd_bytes k fd of None \<Rightarrow> (Inl EBADF, k)
           | Some bs \<Rightarrow>
               (Inr (read_bytes off (case oc of Short m \<Rightarrow> min m n | _ \<Rightarrow> n) bs), k)))"

definition put_fd_bytes :: "int \<Rightarrow> u8 list \<Rightarrow> kernel \<Rightarrow> kernel" where
  "put_fd_bytes fd bs k =
     (case fd_inode k fd of None \<Rightarrow> k
      | Some (i, w) \<Rightarrow>
          k\<lparr>k_inodes := (k_inodes k)(i := map_option (\<lambda>n. n\<lparr>i_bytes := bs\<rparr>) (k_inodes k i))\<rparr>)"

text \<open>\<^verbatim>\<open>pwrite\<close>: how many of the bytes went out, all of them unless the system took fewer.\<close>

definition sys_pwrite :: "int \<Rightarrow> u8 list \<Rightarrow> nat \<Rightarrow> kernel \<Rightarrow> (nat + nat) \<times> kernel" where
  "sys_pwrite fd out off k0 =
     (case next_outcome k0 of
        (Fail e, k) \<Rightarrow> (Inl e, k)
      | (oc, k) \<Rightarrow>
          (case (fd_inode k fd, fd_bytes k fd) of
             (Some (i, True), Some bs) \<Rightarrow>
               (let sent = take (case oc of Short m \<Rightarrow> m | _ \<Rightarrow> length out) out
                in (Inr (length sent), put_fd_bytes fd (write_bytes off sent bs) k))
           | _ \<Rightarrow> (Inl EBADF, k)))"

definition sys_fdatasync :: "int \<Rightarrow> kernel \<Rightarrow> (nat + unit) \<times> kernel" where
  "sys_fdatasync fd k0 =
     (case next_outcome k0 of
        (Fail e, k) \<Rightarrow> (Inl e, k)
      | (_, k) \<Rightarrow> (case fd_inode k fd of None \<Rightarrow> (Inl EBADF, k) | Some _ \<Rightarrow> (Inr (), k)))"

text \<open>An allocation: whether there is memory.\<close>

definition sys_alloc :: "kernel \<Rightarrow> bool \<times> kernel" where
  "sys_alloc k0 = (case next_outcome k0 of (Fail e, k) \<Rightarrow> (False, k) | (_, k) \<Rightarrow> (True, k))"

definition sys_access :: "string \<Rightarrow> kernel \<Rightarrow> (nat + unit) \<times> kernel" where
  "sys_access path k0 =
     (case next_outcome k0 of
        (Fail e, k) \<Rightarrow> (Inl e, k)
      | (_, k) \<Rightarrow> (case k_names k path of None \<Rightarrow> (Inl ENOENT, k) | Some _ \<Rightarrow> (Inr (), k)))"

section \<open>What a call leaves alone\<close>

text \<open>Two kernels with the same names, inodes and descriptors: only the script has moved on.\<close>

definition same_files :: "kernel \<Rightarrow> kernel \<Rightarrow> bool" where
  "same_files k k' \<longleftrightarrow>
     k_names k' = k_names k \<and> k_inodes k' = k_inodes k \<and> k_fds k' = k_fds k"

lemma same_files_refl [simp]: "same_files k k"
  by (simp add: same_files_def)

lemma same_files_trans [trans]: "same_files a b \<Longrightarrow> same_files b c \<Longrightarrow> same_files a c"
  by (simp add: same_files_def)

lemma same_files_script [simp]: "same_files k (k\<lparr>k_script := s\<rparr>)"
  by (simp add: same_files_def)

lemma same_files_fd_inode: "same_files k k' \<Longrightarrow> fd_inode k' fd = fd_inode k fd"
  by (simp add: same_files_def fd_inode_def)

lemma same_files_fd_bytes: "same_files k k' \<Longrightarrow> fd_bytes k' fd = fd_bytes k fd"
  by (simp add: same_files_def fd_bytes_def fd_inode_def split: option.splits prod.splits)

lemma next_outcome_same: "next_outcome k = (oc, k') \<Longrightarrow> same_files k k'"
  by (auto simp: next_outcome_def split: list.splits)

lemma next_outcome_quiet: "k_script k = [] \<Longrightarrow> next_outcome k = (Fine, k)"
  by (simp add: next_outcome_def)

lemmas sys_defs =
  sys_open_def sys_stat_def sys_fstat_def sys_pread_def sys_pwrite_def sys_fdatasync_def
  sys_alloc_def sys_access_def

lemma sys_pread_same: "sys_pread fd n off k = (r, k') \<Longrightarrow> same_files k k'"
  by (auto simp: sys_pread_def dest: next_outcome_same split: prod.splits outcome.splits option.splits)

lemma sys_fstat_same: "sys_fstat fd k = (r, k') \<Longrightarrow> same_files k k'"
  by (auto simp: sys_fstat_def dest: next_outcome_same split: prod.splits outcome.splits option.splits)

lemma sys_stat_same: "sys_stat path k = (r, k') \<Longrightarrow> same_files k k'"
  by (auto simp: sys_stat_def dest: next_outcome_same split: prod.splits outcome.splits option.splits)

lemma sys_fdatasync_same: "sys_fdatasync fd k = (r, k') \<Longrightarrow> same_files k k'"
  by (auto simp: sys_fdatasync_def dest: next_outcome_same split: prod.splits outcome.splits option.splits)

lemma sys_alloc_same: "sys_alloc k = (r, k') \<Longrightarrow> same_files k k'"
  by (auto simp: sys_alloc_def dest: next_outcome_same split: prod.splits outcome.splits)

lemma sys_access_same: "sys_access path k = (r, k') \<Longrightarrow> same_files k k'"
  by (auto simp: sys_access_def dest: next_outcome_same split: prod.splits outcome.splits option.splits)

text \<open>A read that gave every byte asked for gave the file's bytes.\<close>

lemma sys_pread_full:
  assumes "sys_pread fd n off k = (Inr bs, k')" and "length bs = n"
  obtains content where "fd_bytes k fd = Some content" and "bs = read_bytes off n content"
proof -
  obtain oc k1 where n: "next_outcome k = (oc, k1)" by (cases "next_outcome k")
  have same: "fd_bytes k1 fd = fd_bytes k fd"
    using next_outcome_same [OF n] by (rule same_files_fd_bytes)
  from assms(1) n same obtain content m where
    "fd_bytes k fd = Some content" "bs = read_bytes off m content" "m \<le> n"
    by (auto simp: sys_pread_def split: outcome.splits option.splits)
  moreover from this assms(2) have "read_bytes off m content = read_bytes off n content"
    by (auto simp: read_bytes_def)
  ultimately show ?thesis using that by metis
qed

lemma sys_pread_quiet:
  "k_script k = [] \<Longrightarrow> fd_bytes k fd = Some content \<Longrightarrow>
     sys_pread fd n off k = (Inr (read_bytes off n content), k)"
  by (simp add: sys_pread_def next_outcome_quiet)

lemma fd_inode_put [simp]: "fd_inode (put_fd_bytes fd bs k) fd' = fd_inode k fd'"
  by (cases "fd_inode k fd") (auto simp: put_fd_bytes_def fd_inode_def)

lemma fd_bytes_put:
  "fd_bytes k fd = Some content \<Longrightarrow> fd_bytes (put_fd_bytes fd bs k) fd = Some bs"
  by (auto simp: fd_bytes_def put_fd_bytes_def fd_inode_def split: option.splits if_splits)

lemma fd_bytes_put_other:
  assumes "fd_inode k fd = Some (i, w)" and "fd_inode k fd' = Some (i', w')" and "i \<noteq> i'"
  shows "fd_bytes (put_fd_bytes fd bs k) fd' = fd_bytes k fd'"
  using assms by (auto simp: fd_bytes_def put_fd_bytes_def fd_inode_def split: option.splits if_splits)

text \<open>A write that took every byte put them in the file; any write leaves the descriptors alone.\<close>

lemma sys_pwrite_full:
  assumes "sys_pwrite fd out off k = (Inr n, k')" and "n = length out"
  obtains content where "fd_bytes k fd = Some content"
    and "fd_bytes k' fd = Some (write_bytes off out content)"
proof -
  obtain oc k1 where n: "next_outcome k = (oc, k1)" by (cases "next_outcome k")
  have same: "fd_bytes k1 fd = fd_bytes k fd"
    using next_outcome_same [OF n] by (rule same_files_fd_bytes)
  let ?m = "case oc of Short m \<Rightarrow> m | _ \<Rightarrow> length out"
  from assms(1) n same obtain content where
    f: "fd_bytes k fd = Some content" and len: "length (take ?m out) = n"
    and k': "k' = put_fd_bytes fd (write_bytes off (take ?m out) content) k1"
    by (auto simp: sys_pwrite_def Let_def split: outcome.splits option.splits bool.splits prod.splits)
  from len assms(2) have "take ?m out = out" by simp
  with k' f same have "fd_bytes k' fd = Some (write_bytes off out content)"
    by (simp add: fd_bytes_put)
  with f that show ?thesis by blast
qed

lemma sys_pwrite_fds: "sys_pwrite fd out off k = (r, k') \<Longrightarrow> fd_inode k' fd' = fd_inode k fd'"
  by (auto simp: sys_pwrite_def Let_def dest!: next_outcome_same same_files_fd_inode
           split: prod.splits outcome.splits option.splits bool.splits)

lemma sys_pwrite_quiet:
  "k_script k = [] \<Longrightarrow> fd_bytes k fd = Some content \<Longrightarrow> fd_inode k fd = Some (i, True) \<Longrightarrow>
     sys_pwrite fd out off k = (Inr (length out), put_fd_bytes fd (write_bytes off out content) k)"
  by (simp add: sys_pwrite_def next_outcome_quiet)

end
