(* ===== verification/Quux_Disk.thy ===== *)
theory Quux_Disk
  imports Posix
begin

text \<open>
  \<^verbatim>\<open>quux_disk.c\<close>: QUUX's disk file, raw, a fixed VHD or a dynamic VHD, read and written as
  blocks of 1,024 bytes.  The footer and header checks, the block allocation table, the
  translation of a read and of a write, and the allocation of a block are modelled whole,
  every error return included.  The 64-bit offsets of the C are natural numbers: each is
  compared or subtracted under its guard before it is added to, so none wraps.
\<close>

unbundle bit_operations_syntax

section \<open>The formats\<close>

abbreviation (input) QUUX_SECTOR :: nat where "QUUX_SECTOR \<equiv> 512"
abbreviation (input) QUUX_BLOCK_BYTES :: nat where "QUUX_BLOCK_BYTES \<equiv> 1024"
abbreviation (input) QUUX_MAX_BLOCKS :: nat where "QUUX_MAX_BLOCKS \<equiv> 2 ^ 28"
abbreviation (input) HEADER_BYTES :: nat where "HEADER_BYTES \<equiv> 1024"
abbreviation (input) FOOTER_CHECKSUM :: nat where "FOOTER_CHECKSUM \<equiv> 64"
abbreviation (input) HEADER_CHECKSUM :: nat where "HEADER_CHECKSUM \<equiv> 36"
abbreviation (input) UNALLOCATED :: u32 where "UNALLOCATED \<equiv> 0xFFFFFFFF"

datatype quux_format = QUUX_RAW | QUUX_FIXED_VHD | QUUX_DYNAMIC_VHD

record quux_disk =
  q_format :: quux_format
  q_size :: nat
  q_blocks :: u32
  q_table :: "u32 list"
  q_entries :: nat
  q_table_offset :: nat
  q_block_bytes :: nat
  q_bitmap_bytes :: nat
  q_end :: nat
  q_footer :: "u8 list"

definition quux_disk_zero :: quux_disk where
  "quux_disk_zero =
     \<lparr>q_format = QUUX_RAW, q_size = 0, q_blocks = 0, q_table = [], q_entries = 0,
      q_table_offset = 0, q_block_bytes = 0, q_bitmap_bytes = 0, q_end = 0,
      q_footer = replicate 512 0\<rparr>"

datatype quux_err =
    Quux_fstat nat
  | Quux_read_start nat
  | Quux_vhdx
  | Quux_read_end nat
  | Quux_footer_checksum u32 u32
  | Quux_fixed_short nat nat
  | Quux_differencing
  | Quux_disk_type u32
  | Quux_too_many_blocks nat
  | Quux_no_header nat
  | Quux_header_checksum u32 u32
  | Quux_block_size nat
  | Quux_table_short nat nat nat
  | Quux_table_past nat nat
  | Quux_no_memory nat
  | Quux_read_table nat
  | Quux_entry_past nat u32 nat
  | Quux_past_end u32 u32
  | Quux_read u32 nat
  | Quux_write u32 nat
  | Quux_entry_range nat
  | Quux_allocate nat nat
  | Quux_bitmap nat nat

definition quux_format_name :: "quux_format \<Rightarrow> string" where
  "quux_format_name f =
     (case f of QUUX_RAW \<Rightarrow> ''raw'' | QUUX_FIXED_VHD \<Rightarrow> ''a fixed VHD''
      | QUUX_DYNAMIC_VHD \<Rightarrow> ''a dynamic VHD'')"

section \<open>Fields and checksums\<close>

definition ascii :: "string \<Rightarrow> u8 list" where
  "ascii s = map of_char s"

definition be :: "u8 list \<Rightarrow> nat \<Rightarrow> u64" where
  "be b n = fold (\<lambda>i v. push_bit 8 v OR ucast (b ! i)) [0..<n] 0"

definition put_be32 :: "u32 \<Rightarrow> u8 list" where
  "put_be32 v = [ucast (drop_bit 24 v), ucast (drop_bit 16 v), ucast (drop_bit 8 v), ucast v]"

definition checksum :: "u8 list \<Rightarrow> nat \<Rightarrow> nat \<Rightarrow> u32" where
  "checksum b n at =
     NOT (fold (\<lambda>i sum. if i < at \<or> at + 4 \<le> i then sum + ucast (b ! i) else sum) [0..<n] 0)"

definition read_at :: "int \<Rightarrow> nat \<Rightarrow> nat \<Rightarrow> kernel \<Rightarrow> (nat + u8 list) \<times> kernel" where
  "read_at fd at n k0 =
     (case sys_pread fd n at k0 of
        (Inl e, k) \<Rightarrow> (Inl e, k)
      | (Inr bs, k) \<Rightarrow> (if length bs = n then Inr bs else Inl EIO, k))"

definition write_at :: "int \<Rightarrow> nat \<Rightarrow> u8 list \<Rightarrow> kernel \<Rightarrow> (nat + unit) \<times> kernel" where
  "write_at fd at bs k0 =
     (case sys_pwrite fd bs at k0 of
        (Inl e, k) \<Rightarrow> (Inl e, k)
      | (Inr r, k) \<Rightarrow> (if r = length bs then Inr () else Inl ENOSPC, k))"

text \<open>
  512 bytes as a footer: \<open>Inr None\<close> without the cookie, the type and the size with it, an
  error where the cookie is there and the checksum does not check.
\<close>

definition footer :: "u8 list \<Rightarrow> quux_err + (u32 \<times> nat) option" where
  "footer b =
     (if take 8 b \<noteq> ascii ''conectix'' then Inr None
      else let want = ucast (be (drop FOOTER_CHECKSUM b) 4);
               got = checksum b QUUX_SECTOR FOOTER_CHECKSUM
           in if want \<noteq> got then Inl (Quux_footer_checksum want got)
              else Inr (Some (ucast (be (drop 60 b) 4), unat (be (drop 48 b) 8))))"

section \<open>Probe\<close>

text \<open>
  The first part of \<^verbatim>\<open>quux_disk_probe\<close>: the file's start and end read, and which footer, if
  any, speaks for it.  The result is the file's length and, for a VHD, the disk type, the
  size, the footer's bytes and where the footer is.
\<close>

definition quux_probe_footers ::
    "int \<Rightarrow> kernel \<Rightarrow> (quux_err + nat \<times> (u32 \<times> nat \<times> u8 list \<times> nat) option) \<times> kernel" where
  "quux_probe_footers fd k0 =
     (case sys_fstat fd k0 of
        (Inl e, k) \<Rightarrow> (Inl (Quux_fstat e), k)
      | (Inr st, k) \<Rightarrow>
          (let len = st_size st
           in case (if 8 \<le> len then read_at fd 0 (min len QUUX_SECTOR) k else (Inr [], k)) of
                (Inl e, k) \<Rightarrow> (Inl (Quux_read_start e), k)
              | (Inr got, k) \<Rightarrow>
                  (let first = got @ replicate (QUUX_SECTOR - length got) 0
                   in if 8 \<le> len \<and> take 8 first = ascii ''vhdxfile'' then (Inl Quux_vhdx, k)
                      else if len < QUUX_SECTOR then (Inr (len, None), k)
                      else case read_at fd (len - QUUX_SECTOR) QUUX_SECTOR k of
                             (Inl e, k) \<Rightarrow> (Inl (Quux_read_end e), k)
                           | (Inr lst, k) \<Rightarrow>
                               (case footer lst of
                                  Inl e \<Rightarrow> (Inl e, k)
                                | Inr (Some (type, sz)) \<Rightarrow>
                                    (Inr (len, Some (type, sz, lst, len - QUUX_SECTOR)), k)
                                | Inr None \<Rightarrow>
                                    (case footer first of
                                       Inl e \<Rightarrow> (Inl e, k)
                                     | Inr (Some (t0, s0)) \<Rightarrow>
                                         (Inr (len, if t0 = 3 then Some (t0, s0, first, len)
                                                    else None), k)
                                     | Inr None \<Rightarrow> (Inr (len, None), k))))))"

text \<open>The second part: the format, and the blocks the disk has.\<close>

definition quux_probe_format ::
    "nat \<times> (u32 \<times> nat \<times> u8 list \<times> nat) option \<Rightarrow> quux_err + quux_disk" where
  "quux_probe_format x =
     (let (len, vhd) = x;
          d0 = quux_disk_zero;
          sized = (\<lambda>d sz.
            if QUUX_MAX_BLOCKS < sz div QUUX_BLOCK_BYTES
            then Inl (Quux_too_many_blocks (sz div QUUX_BLOCK_BYTES))
            else Inr (d\<lparr>q_size := sz, q_blocks := of_nat (sz div QUUX_BLOCK_BYTES)\<rparr>))
      in case vhd of
           None \<Rightarrow> sized (d0\<lparr>q_format := QUUX_RAW\<rparr>) len
         | Some (type, sz, foot, end) \<Rightarrow>
             (let d1 = d0\<lparr>q_footer := foot, q_end := end\<rparr>
              in if type = 2 then
                   if end < sz then Inl (Quux_fixed_short sz len)
                   else sized (d1\<lparr>q_format := QUUX_FIXED_VHD\<rparr>) sz
                 else if type = 3 then sized (d1\<lparr>q_format := QUUX_DYNAMIC_VHD\<rparr>) sz
                 else if type = 4 then Inl Quux_differencing
                 else Inl (Quux_disk_type type)))"

text \<open>The third part: a dynamic VHD's header, and what follows from it.\<close>

definition round_sector :: "nat \<Rightarrow> nat" where
  "round_sector x = (x + QUUX_SECTOR - 1) div QUUX_SECTOR * QUUX_SECTOR"

definition quux_probe_dynamic :: "int \<Rightarrow> quux_disk \<Rightarrow> kernel \<Rightarrow> (quux_err + quux_disk) \<times> kernel" where
  "quux_probe_dynamic fd d k0 =
     (let at = unat (be (drop 16 (q_footer d)) 8)
      in if q_end d < at \<or> q_end d - at < HEADER_BYTES then (Inl (Quux_no_header at), k0)
         else case read_at fd at HEADER_BYTES k0 of
                (Inl e, k) \<Rightarrow> (Inl (Quux_no_header at), k)
              | (Inr h, k) \<Rightarrow>
                  (if take 8 h \<noteq> ascii ''cxsparse'' then (Inl (Quux_no_header at), k)
                   else let want = ucast (be (drop HEADER_CHECKSUM h) 4);
                            got = checksum h HEADER_BYTES HEADER_CHECKSUM
                        in if want \<noteq> got then (Inl (Quux_header_checksum want got), k)
                           else let toff = unat (be (drop 16 h) 8);
                                    entries = unat (be (drop 28 h) 4);
                                    bb = unat (be (drop 32 h) 4)
                                in if bb = 0 \<or> bb mod QUUX_SECTOR \<noteq> 0
                                   then (Inl (Quux_block_size bb), k)
                                   else if entries * bb < q_size d
                                   then (Inl (Quux_table_short entries bb (q_size d)), k)
                                   else if q_end d < toff \<or> (q_end d - toff) div 4 < entries
                                   then (Inl (Quux_table_past entries toff), k)
                                   else (Inr (d\<lparr>q_table_offset := toff, q_block_bytes := bb,
                                       q_entries := (q_size d + bb - 1) div bb,
                                       q_bitmap_bytes := round_sector ((bb div QUUX_SECTOR + 7) div 8),
                                       q_end := round_sector (q_end d)\<rparr>), k)))"

definition quux_disk_probe :: "int \<Rightarrow> kernel \<Rightarrow> (quux_err + quux_disk) \<times> kernel" where
  "quux_disk_probe fd k0 =
     (case quux_probe_footers fd k0 of
        (Inl e, k) \<Rightarrow> (Inl e, k)
      | (Inr x, k) \<Rightarrow>
          (case quux_probe_format x of
             Inl e \<Rightarrow> (Inl e, k)
           | Inr d \<Rightarrow> if q_format d \<noteq> QUUX_DYNAMIC_VHD then (Inr d, k)
                      else quux_probe_dynamic fd d k))"

section \<open>Open\<close>

text \<open>
  The loop over the table of \<^verbatim>\<open>quux_disk_open\<close>: each entry read and, where allocated, checked
  to lie wholly before the footer.
\<close>

fun quux_check_table :: "quux_disk \<Rightarrow> u8 list \<Rightarrow> nat list \<Rightarrow> quux_err + u32 list" where
  "quux_check_table d raw [] = Inr []"
| "quux_check_table d raw (i # is) =
     (let e = ucast (be (drop (4 * i) raw) 4) :: u32; at = unat e * QUUX_SECTOR
      in if e \<noteq> UNALLOCATED \<and>
            (q_end d < at \<or> q_end d - at < q_bitmap_bytes d + q_block_bytes d)
         then Inl (Quux_entry_past i e (q_end d))
         else case quux_check_table d raw is of Inl x \<Rightarrow> Inl x | Inr es \<Rightarrow> Inr (e # es))"

definition quux_disk_open :: "int \<Rightarrow> kernel \<Rightarrow> (quux_err + quux_disk) \<times> kernel" where
  "quux_disk_open fd k0 =
     (case quux_disk_probe fd k0 of
        (Inl e, k) \<Rightarrow> (Inl e, k)
      | (Inr d, k) \<Rightarrow>
          (if q_format d \<noteq> QUUX_DYNAMIC_VHD then (Inr d, k)
           else let (m1, k) = sys_alloc k; (m2, k) = sys_alloc k
                in if \<not> m1 \<or> \<not> m2 then (Inl (Quux_no_memory (q_entries d)), k)
                   else case read_at fd (q_table_offset d) (q_entries d * 4) k of
                          (Inl e, k) \<Rightarrow> (Inl (Quux_read_table e), k)
                        | (Inr raw, k) \<Rightarrow>
                            (case quux_check_table d raw [0..<q_entries d] of
                               Inl e \<Rightarrow> (Inl e, k)
                             | Inr t \<Rightarrow> (Inr (d\<lparr>q_table := t\<rparr>), k))))"

definition quux_disk_close :: "quux_disk \<Rightarrow> quux_disk" where
  "quux_disk_close d = d\<lparr>q_table := []\<rparr>"

section \<open>Read\<close>

text \<open>Where in the file the disk's byte \<open>at\<close> lies, 0 in a block not allocated, and its table index.\<close>

definition locate :: "quux_disk \<Rightarrow> nat \<Rightarrow> nat \<times> nat" where
  "locate d at =
     (let i = at div q_block_bytes d; entry = q_table d ! i
      in (if entry = UNALLOCATED then 0
          else unat entry * QUUX_SECTOR + q_bitmap_bytes d + at mod q_block_bytes d, i))"

fun quux_read_sectors ::
    "int \<Rightarrow> quux_disk \<Rightarrow> u32 \<Rightarrow> nat list \<Rightarrow> kernel \<Rightarrow> (quux_err + u8 list) \<times> kernel" where
  "quux_read_sectors fd d n [] k = (Inr [], k)"
| "quux_read_sectors fd d n (s # ss) k0 =
     (let at = unat n * QUUX_BLOCK_BYTES; off = fst (locate d (at + s * QUUX_SECTOR))
      in case (if off = 0 then (Inr (replicate QUUX_SECTOR 0), k0)
               else read_at fd off QUUX_SECTOR k0) of
           (Inl e, k) \<Rightarrow> (Inl (Quux_read n e), k)
         | (Inr into, k) \<Rightarrow>
             (case quux_read_sectors fd d n ss k of
                (Inl e, k) \<Rightarrow> (Inl e, k)
              | (Inr rest, k) \<Rightarrow> (Inr (into @ rest), k)))"

definition quux_disk_read :: "int \<Rightarrow> quux_disk \<Rightarrow> u32 \<Rightarrow> kernel \<Rightarrow> (quux_err + u8 list) \<times> kernel" where
  "quux_disk_read fd d n k0 =
     (if q_blocks d \<le> n then (Inl (Quux_past_end n (q_blocks d)), k0)
      else if q_format d \<noteq> QUUX_DYNAMIC_VHD then
        (case read_at fd (unat n * QUUX_BLOCK_BYTES) QUUX_BLOCK_BYTES k0 of
           (Inl e, k) \<Rightarrow> (Inl (Quux_read n e), k)
         | (Inr bs, k) \<Rightarrow> (Inr bs, k))
      else quux_read_sectors fd d n [0..<2] k0)"

section \<open>Write\<close>

text \<open>
  \<^verbatim>\<open>fdatasync(fd) < 0 && errno != EINVAL\<close>: a file that cannot be synced at all is let pass.
\<close>

definition sync_failed :: "nat + unit \<Rightarrow> nat option" where
  "sync_failed r = (case r of Inl e \<Rightarrow> if e \<noteq> EINVAL then Some e else None | Inr _ \<Rightarrow> None)"

definition allocate ::
    "int \<Rightarrow> quux_disk \<Rightarrow> nat \<Rightarrow> nat \<Rightarrow> u8 list \<Rightarrow> kernel \<Rightarrow> (quux_err + quux_disk) \<times> kernel" where
  "allocate fd d i in_block sector k0 =
     (if 0xFFFFFFFF \<le> q_end d div QUUX_SECTOR then (Inl (Quux_entry_range (q_end d)), k0)
      else let entry = of_nat (q_end d div QUUX_SECTOR) :: u32;
               n = q_bitmap_bytes d + q_block_bytes d;
               (mem, k) = sys_alloc k0
           in if \<not> mem then (Inl (Quux_no_memory n), k)
              else let block = write_bytes (q_bitmap_bytes d + in_block) sector
                                 (replicate (q_bitmap_bytes d) 0xFF @ replicate (q_block_bytes d) 0);
                       end = q_end d + n
                   in case write_at fd (q_end d) block k of
                        (Inl e, k) \<Rightarrow> (Inl (Quux_allocate i e), k)
                      | (Inr _, k) \<Rightarrow>
                          (case write_at fd end (q_footer d) k of
                             (Inl e, k) \<Rightarrow> (Inl (Quux_allocate i e), k)
                           | (Inr _, k) \<Rightarrow>
                               (case sys_fdatasync fd k of
                                  (r, k) \<Rightarrow>
                                    (case sync_failed r of
                                       Some e \<Rightarrow> (Inl (Quux_allocate i e), k)
                                     | None \<Rightarrow>
                                         (case write_at fd (q_table_offset d + 4 * i) (put_be32 entry) k of
                                            (Inl e, k) \<Rightarrow> (Inl (Quux_allocate i e), k)
                                          | (Inr _, k) \<Rightarrow>
                                              (Inr (d\<lparr>q_table := (q_table d)[i := entry], q_end := end\<rparr>), k))))))"

text \<open>The bitmap's bit of a sector, set if it is not.\<close>

definition mark_sector ::
    "int \<Rightarrow> quux_disk \<Rightarrow> nat \<Rightarrow> nat \<Rightarrow> kernel \<Rightarrow> (quux_err + unit) \<times> kernel" where
  "mark_sector fd d i sat k0 =
     (let sector = sat mod q_block_bytes d div QUUX_SECTOR;
          bit_at = unat (q_table d ! i) * QUUX_SECTOR + sector div 8;
          b = drop_bit (sector mod 8) 0x80 :: u8
      in case read_at fd bit_at 1 k0 of
           (Inl e, k) \<Rightarrow> (Inl (Quux_bitmap i e), k)
         | (Inr byte, k) \<Rightarrow>
             (if byte ! 0 AND b \<noteq> 0 then (Inr (), k)
              else case write_at fd bit_at [byte ! 0 OR b] k of
                     (Inl e, k) \<Rightarrow> (Inl (Quux_bitmap i e), k)
                   | (Inr _, k) \<Rightarrow> (Inr (), k)))"

fun quux_write_sectors ::
    "int \<Rightarrow> quux_disk \<Rightarrow> u32 \<Rightarrow> u8 list \<Rightarrow> nat list \<Rightarrow> kernel \<Rightarrow>
       (quux_err + unit) \<times> quux_disk \<times> kernel" where
  "quux_write_sectors fd d n buf [] k = (Inr (), d, k)"
| "quux_write_sectors fd d n buf (s # ss) k0 =
     (let sat = unat n * QUUX_BLOCK_BYTES + s * QUUX_SECTOR;
          from = take QUUX_SECTOR (drop (s * QUUX_SECTOR) buf);
          (off, i) = locate d sat
      in if off = 0 then
           (case allocate fd d i (sat mod q_block_bytes d) from k0 of
              (Inl e, k) \<Rightarrow> (Inl e, d, k)
            | (Inr d', k) \<Rightarrow> quux_write_sectors fd d' n buf ss k)
         else
           (case write_at fd off from k0 of
              (Inl e, k) \<Rightarrow> (Inl (Quux_write n e), d, k)
            | (Inr _, k) \<Rightarrow>
                (case mark_sector fd d i sat k of
                   (Inl e, k) \<Rightarrow> (Inl e, d, k)
                 | (Inr _, k) \<Rightarrow> quux_write_sectors fd d n buf ss k)))"

definition quux_disk_write ::
    "int \<Rightarrow> quux_disk \<Rightarrow> u32 \<Rightarrow> u8 list \<Rightarrow> kernel \<Rightarrow> (quux_err + unit) \<times> quux_disk \<times> kernel" where
  "quux_disk_write fd d n buf k0 =
     (if q_blocks d \<le> n then (Inl (Quux_past_end n (q_blocks d)), d, k0)
      else if q_format d \<noteq> QUUX_DYNAMIC_VHD then
        (case write_at fd (unat n * QUUX_BLOCK_BYTES) buf k0 of
           (Inl e, k) \<Rightarrow> (Inl (Quux_write n e), d, k)
         | (Inr _, k) \<Rightarrow> (Inr (), d, k))
      else quux_write_sectors fd d n buf [0..<2] k0)"

end
