(* ===== verification/Quux_Disk_Layout.thy ===== *)
theory Quux_Disk_Layout
  imports Quux_Disk
begin

text \<open>
  The disk behind a dynamic VHD as a sequence of 512-byte sectors (\<open>disk_sector\<close>), and
  \<open>vhd_shape\<close> and \<open>vhd_layout\<close>, which say when the file and the table in memory agree on it.
  The lemmas follow one sector through a write: into a block that is there, with its bit in the
  bitmap, or into a block allocated for it where the footer was.
\<close>

unbundle bit_operations_syntax

section \<open>The disk as a sequence of sectors\<close>

definition disk_sector :: "quux_disk \<Rightarrow> u8 list \<Rightarrow> nat \<Rightarrow> u8 list" where
  "disk_sector d f j =
     (if q_format d \<noteq> QUUX_DYNAMIC_VHD then read_bytes (j * QUUX_SECTOR) QUUX_SECTOR f
      else let off = fst (locate d (j * QUUX_SECTOR))
           in if off = 0 then replicate QUUX_SECTOR 0 else read_bytes off QUUX_SECTOR f)"

definition apart :: "nat \<Rightarrow> nat \<Rightarrow> nat \<Rightarrow> nat \<Rightarrow> bool" where
  "apart a n b m \<longleftrightarrow> a + n \<le> b \<or> b + m \<le> a"

abbreviation region_start :: "quux_disk \<Rightarrow> nat \<Rightarrow> nat" where
  "region_start d i \<equiv> unat (q_table d ! i) * QUUX_SECTOR"

abbreviation region_bytes :: "quux_disk \<Rightarrow> nat" where
  "region_bytes d \<equiv> q_bitmap_bytes d + q_block_bytes d"

definition allocated :: "quux_disk \<Rightarrow> nat \<Rightarrow> bool" where
  "allocated d i \<longleftrightarrow> i < q_entries d \<and> q_table d ! i \<noteq> UNALLOCATED"

text \<open>The shape of a dynamic VHD: block and bitmap sizes, and a table that reaches the disk's size.\<close>

definition vhd_shape :: "quux_disk \<Rightarrow> bool" where
  "vhd_shape d \<longleftrightarrow>
     0 < q_block_bytes d \<and> QUUX_SECTOR dvd q_block_bytes d \<and>
     0 < q_bitmap_bytes d \<and> QUUX_SECTOR dvd q_bitmap_bytes d \<and>
     q_block_bytes d div QUUX_SECTOR \<le> 8 * q_bitmap_bytes d \<and>
     QUUX_SECTOR dvd q_end d \<and>
     length (q_table d) = q_entries d \<and>
     q_size d \<le> q_entries d * q_block_bytes d \<and>
     unat (q_blocks d) * QUUX_BLOCK_BYTES \<le> q_size d"

text \<open>
  The layout of its file: every allocated block before the footer and inside the file, apart
  from the table and from every other block, and the table in the file the table in memory.
\<close>

definition vhd_layout :: "quux_disk \<Rightarrow> u8 list \<Rightarrow> bool" where
  "vhd_layout d f \<longleftrightarrow>
     q_table_offset d + 4 * q_entries d \<le> q_end d \<and>
     q_table_offset d + 4 * q_entries d \<le> length f \<and>
     (\<forall>i. allocated d i \<longrightarrow>
        region_start d i + region_bytes d \<le> q_end d \<and>
        region_start d i + region_bytes d \<le> length f \<and>
        apart (region_start d i) (region_bytes d) (q_table_offset d) (4 * q_entries d)) \<and>
     (\<forall>i i'. allocated d i \<longrightarrow> allocated d i' \<longrightarrow> i \<noteq> i' \<longrightarrow>
        apart (region_start d i) (region_bytes d) (region_start d i') (region_bytes d)) \<and>
     (\<forall>i < q_entries d. read_bytes (q_table_offset d + 4 * i) 4 f = put_be32 (q_table d ! i))"

definition vhd_ok :: "quux_disk \<Rightarrow> u8 list \<Rightarrow> bool" where
  "vhd_ok d f \<longleftrightarrow>
     (q_format d = QUUX_DYNAMIC_VHD \<longrightarrow> vhd_shape d \<and> vhd_layout d f) \<and>
     (q_format d \<noteq> QUUX_DYNAMIC_VHD \<longrightarrow> unat (q_blocks d) * QUUX_BLOCK_BYTES \<le> length f)"

abbreviation sectors_per_block :: "quux_disk \<Rightarrow> nat" where
  "sectors_per_block d \<equiv> q_block_bytes d div QUUX_SECTOR"

lemma locate_sector:
  assumes "vhd_shape d"
  shows "locate d (j * QUUX_SECTOR) =
     (let i = j div sectors_per_block d
      in (if q_table d ! i = UNALLOCATED then 0
          else region_start d i + q_bitmap_bytes d + QUUX_SECTOR * (j mod sectors_per_block d), i))"
proof -
  from assms obtain c where c: "q_block_bytes d = QUUX_SECTOR * c" and "0 < c"
    by (auto simp: vhd_shape_def dvd_def)
  have "j * QUUX_SECTOR div q_block_bytes d = j div c"
    using div_mult_mult1 [of QUUX_SECTOR j c] by (simp add: c mult.commute)
  moreover have "j * QUUX_SECTOR mod q_block_bytes d = QUUX_SECTOR * (j mod c)"
    using mult_mod_right [of QUUX_SECTOR j c] by (simp add: c mult.commute)
  ultimately show ?thesis
    by (simp add: locate_def Let_def c)
qed

lemma vhd_sector_shape:
  assumes "vhd_shape d"
  shows "0 < sectors_per_block d"
    and "QUUX_SECTOR * (j mod sectors_per_block d) + QUUX_SECTOR \<le> q_block_bytes d"
proof -
  from assms obtain c where c: "q_block_bytes d = QUUX_SECTOR * c" and "0 < c"
    by (auto simp: vhd_shape_def dvd_def)
  then show "0 < sectors_per_block d" by simp
  have "j mod c < c" using \<open>0 < c\<close> by simp
  then have "QUUX_SECTOR * Suc (j mod c) \<le> QUUX_SECTOR * c" by (intro mult_le_mono2) simp
  then show "QUUX_SECTOR * (j mod sectors_per_block d) + QUUX_SECTOR \<le> q_block_bytes d"
    by (simp add: c)
qed

lemma sector_in_table:
  assumes "vhd_shape d" and "j < 2 * unat (q_blocks d)"
  shows "j div sectors_per_block d < q_entries d"
proof -
  from assms(1) obtain c where c: "q_block_bytes d = QUUX_SECTOR * c" and "0 < c"
    by (auto simp: vhd_shape_def dvd_def)
  have "j * QUUX_SECTOR < unat (q_blocks d) * QUUX_BLOCK_BYTES" using assms(2) by simp
  also have "\<dots> \<le> q_entries d * q_block_bytes d"
    using assms(1) by (auto simp: vhd_shape_def)
  finally have "j < q_entries d * c" by (simp add: c)
  then show ?thesis by (simp add: c less_mult_imp_div_less)
qed

text \<open>The file bytes of an allocated sector lie in its block, apart from every other sector's.\<close>

definition sector_pos :: "quux_disk \<Rightarrow> nat \<Rightarrow> nat" where
  "sector_pos d j = region_start d (j div sectors_per_block d) + q_bitmap_bytes d +
     QUUX_SECTOR * (j mod sectors_per_block d)"

lemma disk_sector_vhd:
  assumes "vhd_shape d" and "q_format d = QUUX_DYNAMIC_VHD"
  shows "disk_sector d f j =
     (if q_table d ! (j div sectors_per_block d) = UNALLOCATED then replicate QUUX_SECTOR 0
      else read_bytes (sector_pos d j) QUUX_SECTOR f)"
proof -
  have "0 < q_bitmap_bytes d" using assms(1) by (simp add: vhd_shape_def)
  then show ?thesis
    using assms by (simp add: disk_sector_def locate_sector Let_def sector_pos_def)
qed

lemma sector_pos_bounds:
  assumes "vhd_shape d"
  shows "region_start d (j div sectors_per_block d) + q_bitmap_bytes d \<le> sector_pos d j"
    and "sector_pos d j + QUUX_SECTOR \<le>
      region_start d (j div sectors_per_block d) + region_bytes d"
  using vhd_sector_shape(2) [OF assms, of j] by (simp_all add: sector_pos_def)

lemma sector_pos_apart:
  assumes "vhd_shape d" and "vhd_layout d f" and "j \<noteq> j'"
    and "allocated d (j div sectors_per_block d)" and "allocated d (j' div sectors_per_block d)"
  shows "apart (sector_pos d j) QUUX_SECTOR (sector_pos d j') QUUX_SECTOR"
proof (cases "j div sectors_per_block d = j' div sectors_per_block d")
  case True
  then have "j mod sectors_per_block d \<noteq> j' mod sectors_per_block d"
    using assms(3) by (metis div_mult_mod_eq)
  then show ?thesis
    using True by (auto simp: apart_def sector_pos_def)
next
  case False
  then have "apart (region_start d (j div sectors_per_block d)) (region_bytes d)
      (region_start d (j' div sectors_per_block d)) (region_bytes d)"
    using assms(2,4,5) by (auto simp: vhd_layout_def)
  then show ?thesis
    using sector_pos_bounds [OF assms(1), of j] sector_pos_bounds [OF assms(1), of j']
    by (auto simp: apart_def)
qed

lemma vhd_layout_poke:
  assumes "vhd_layout d f" and "allocated d i"
    and "region_start d i \<le> at" and "at + length bs \<le> region_start d i + region_bytes d"
  shows "vhd_layout d (write_bytes at bs f)"
proof -
  have t: "apart (region_start d i) (region_bytes d) (q_table_offset d) (4 * q_entries d)"
    and l: "q_table_offset d + 4 * q_entries d \<le> length f"
    using assms(1,2) by (auto simp: vhd_layout_def)
  have "read_bytes (q_table_offset d + 4 * i') 4 (write_bytes at bs f) =
      read_bytes (q_table_offset d + 4 * i') 4 f" if "i' < q_entries d" for i'
    using that t l assms(3,4) by (intro read_write_apart) (auto simp: apart_def)
  then show ?thesis
    using assms(1) unfolding vhd_layout_def by (auto simp: max_def)
qed

lemma disk_sector_poke:
  assumes "vhd_shape d" and "vhd_layout d f" and "q_format d = QUUX_DYNAMIC_VHD"
    and "j' < 2 * unat (q_blocks d)"
    and "allocated d (j' div sectors_per_block d) \<Longrightarrow>
      apart (sector_pos d j') QUUX_SECTOR at (length bs)"
  shows "disk_sector d (write_bytes at bs f) j' = disk_sector d f j'"
proof (cases "allocated d (j' div sectors_per_block d)")
  case True
  then have "sector_pos d j' + QUUX_SECTOR \<le> length f"
    using sector_pos_bounds(2) [OF assms(1), of j'] assms(2) by (fastforce simp: vhd_layout_def)
  with assms(5) [OF True] have
    "read_bytes (sector_pos d j') QUUX_SECTOR (write_bytes at bs f) =
     read_bytes (sector_pos d j') QUUX_SECTOR f"
    by (intro read_write_apart) (auto simp: apart_def)
  then show ?thesis by (simp add: disk_sector_vhd assms(1,3))
next
  case False
  then show ?thesis
    using sector_in_table [OF assms(1,4)] by (simp add: disk_sector_vhd assms(1,3) allocated_def)
qed

text \<open>A sector written where its block is allocated.\<close>

lemma disk_sector_write:
  assumes "vhd_shape d" and "vhd_layout d f" and "q_format d = QUUX_DYNAMIC_VHD"
    and "allocated d (j div sectors_per_block d)" and "length bs = QUUX_SECTOR"
    and "j' < 2 * unat (q_blocks d)"
  shows "disk_sector d (write_bytes (sector_pos d j) bs f) j' =
      (if j' = j then bs else disk_sector d f j')"
proof (cases "j' = j")
  case True
  have "disk_sector d (write_bytes (sector_pos d j) bs f) j = bs"
    using assms(4,5) read_write_same [of "sector_pos d j" bs f]
    by (simp add: disk_sector_vhd assms(1,3) allocated_def)
  with True show ?thesis by simp
next
  case False
  then show ?thesis
    using disk_sector_poke [OF assms(1-3,6)] sector_pos_apart [OF assms(1,2) _ _ assms(4)]
      assms(5) by simp
qed

lemma vhd_layout_write:
  assumes "vhd_shape d" and "vhd_layout d f"
    and "allocated d (j div sectors_per_block d)" and "length bs = QUUX_SECTOR"
  shows "vhd_layout d (write_bytes (sector_pos d j) bs f)"
  using assms(2,3) sector_pos_bounds [OF assms(1), of j] assms(4)
  by (intro vhd_layout_poke) auto

section \<open>What the system calls leave in the file\<close>

lemma write_at_bytes:
  assumes "write_at fd at bs k = (Inr (), k')" and "fd_bytes k fd = Some f"
  shows "fd_bytes k' fd = Some (write_bytes at bs f)"
  using assms
  by (auto simp: write_at_def split: prod.splits sum.splits if_splits elim: sys_pwrite_full)

lemma read_at_bytes:
  assumes "read_at fd at n k = (Inr bs, k')" and "fd_bytes k fd = Some f"
  shows "bs = read_bytes at n f" and "length bs = n" and "fd_bytes k' fd = Some f"
proof -
  from assms(1) have p: "sys_pread fd n at k = (Inr bs, k')" and len: "length bs = n"
    by (auto simp: read_at_def split: prod.splits sum.splits if_splits)
  show "length bs = n" by (fact len)
  show "bs = read_bytes at n f"
    using sys_pread_full [OF p len] assms(2) by (metis option.inject)
  show "fd_bytes k' fd = Some f"
    using sys_pread_same [OF p] assms(2) by (simp add: same_files_fd_bytes)
qed

lemma read_at_quiet:
  "k_script k = [] \<Longrightarrow> fd_bytes k fd = Some f \<Longrightarrow> at + n \<le> length f \<Longrightarrow>
     read_at fd at n k = (Inr (read_bytes at n f), k)"
  by (simp add: read_at_def sys_pread_quiet)

lemma sync_failed_None: "sync_failed r = None \<longleftrightarrow> r = Inr () \<or> r = Inl EINVAL"
  by (auto simp: sync_failed_def split: sum.splits if_splits)

section \<open>The bitmap\<close>

lemma mark_sector_bytes:
  assumes "mark_sector fd d i sat k = (Inr (), k')" and "fd_bytes k fd = Some f"
  shows "\<exists>bs. fd_bytes k' fd = Some (write_bytes
    (region_start d i + sat mod q_block_bytes d div QUUX_SECTOR div 8) bs f) \<and> length bs \<le> 1"
proof -
  let ?at = "region_start d i + sat mod q_block_bytes d div QUUX_SECTOR div 8"
  obtain r k1 where r: "read_at fd ?at 1 k = (r, k1)" by (cases "read_at fd ?at 1 k")
  with assms(1) obtain byte where "r = Inr byte"
    by (cases r) (auto simp: mark_sector_def Let_def)
  with r assms(2) have k1: "fd_bytes k1 fd = Some f" by (simp add: read_at_bytes)
  from assms(1) r \<open>r = Inr byte\<close> have "k' = k1 \<or> (\<exists>b. write_at fd ?at [b] k1 = (Inr (), k'))"
    by (auto simp: mark_sector_def Let_def split: prod.splits sum.splits if_splits)
  then show ?thesis
  proof
    assume "k' = k1"
    with k1 show ?thesis by (intro exI [of _ "[]"]) (simp add: write_bytes_def)
  next
    assume "\<exists>b. write_at fd ?at [b] k1 = (Inr (), k')"
    then obtain b where "write_at fd ?at [b] k1 = (Inr (), k')" by blast
    then have "fd_bytes k' fd = Some (write_bytes ?at [b] f)" using k1 by (rule write_at_bytes)
    then show ?thesis by (intro exI [of _ "[b]"]) simp
  qed
qed

lemma bitmap_index:
  assumes "vhd_shape d"
  shows "j * QUUX_SECTOR mod q_block_bytes d div QUUX_SECTOR div 8 < q_bitmap_bytes d"
proof -
  have "j * QUUX_SECTOR mod q_block_bytes d < q_block_bytes d"
    using assms by (simp add: vhd_shape_def)
  then have "j * QUUX_SECTOR mod q_block_bytes d div QUUX_SECTOR < q_block_bytes d div QUUX_SECTOR"
    using assms by (auto simp: vhd_shape_def dvd_def less_mult_imp_div_less mult.commute)
  also have "\<dots> \<le> 8 * q_bitmap_bytes d" using assms by (simp add: vhd_shape_def)
  finally show ?thesis by (simp add: less_mult_imp_div_less mult.commute)
qed

lemma bitmap_apart:
  assumes "vhd_shape d" "vhd_layout d f" "allocated d i" "allocated d (j' div sectors_per_block d)"
    and "n \<le> 1"
  shows "apart (sector_pos d j') QUUX_SECTOR
    (region_start d i + j * QUUX_SECTOR mod q_block_bytes d div QUUX_SECTOR div 8) n"
proof -
  let ?at = "region_start d i + j * QUUX_SECTOR mod q_block_bytes d div QUUX_SECTOR div 8"
  have at: "?at + n \<le> region_start d i + q_bitmap_bytes d"
    using bitmap_index [OF assms(1), of j] assms(5) by simp
  show ?thesis
  proof (cases "j' div sectors_per_block d = i")
    case True
    then show ?thesis using at sector_pos_bounds(1) [OF assms(1), of j'] by (simp add: apart_def)
  next
    case False
    then have "apart (region_start d (j' div sectors_per_block d)) (region_bytes d)
        (region_start d i) (region_bytes d)"
      using assms(2-4) by (auto simp: vhd_layout_def)
    then show ?thesis
      using at sector_pos_bounds [OF assms(1), of j'] by (auto simp: apart_def)
  qed
qed

text \<open>Marking a sector moves no sector's bytes: the bitmap lies before the data of its block.\<close>

lemma mark_sector_keeps:
  assumes "vhd_shape d" and "vhd_layout d f" and "q_format d = QUUX_DYNAMIC_VHD"
    and "allocated d i"
    and "mark_sector fd d i (j * QUUX_SECTOR) k = (Inr (), k')" and "fd_bytes k fd = Some f"
  shows "\<exists>f'. fd_bytes k' fd = Some f' \<and> vhd_layout d f' \<and>
    (\<forall>j' < 2 * unat (q_blocks d). disk_sector d f' j' = disk_sector d f j')"
proof -
  let ?at = "region_start d i + j * QUUX_SECTOR mod q_block_bytes d div QUUX_SECTOR div 8"
  obtain bs where k': "fd_bytes k' fd = Some (write_bytes ?at bs f)" and bs: "length bs \<le> 1"
    using mark_sector_bytes [OF assms(5,6)] by blast
  have "?at + length bs \<le> region_start d i + region_bytes d"
    using bitmap_index [OF assms(1), of j] bs by simp
  then have "vhd_layout d (write_bytes ?at bs f)"
    using assms(2,4) by (intro vhd_layout_poke) auto
  moreover have "disk_sector d (write_bytes ?at bs f) j' = disk_sector d f j'"
    if j': "j' < 2 * unat (q_blocks d)" for j'
    using bitmap_apart [OF assms(1,2,4) _ bs] by (intro disk_sector_poke [OF assms(1-3) j'])
  ultimately show ?thesis using k' by blast
qed

section \<open>Allocation\<close>

lemma length_put_be32 [simp]: "length (put_be32 v) = 4"
  by (simp add: put_be32_def)

lemma allocate_success:
  assumes "allocate fd d i in_block sector k = (Inr d', k')" and "fd_bytes k fd = Some f"
  shows "d' = d\<lparr>q_table := (q_table d)[i := of_nat (q_end d div QUUX_SECTOR)],
               q_end := q_end d + region_bytes d\<rparr>"
    and "q_end d div QUUX_SECTOR < 0xFFFFFFFF"
    and "fd_bytes k' fd = Some
      (write_bytes (q_table_offset d + 4 * i) (put_be32 (of_nat (q_end d div QUUX_SECTOR)))
        (write_bytes (q_end d + region_bytes d) (q_footer d)
          (write_bytes (q_end d) (write_bytes (q_bitmap_bytes d + in_block) sector
             (replicate (q_bitmap_bytes d) 0xFF @ replicate (q_block_bytes d) 0)) f)))"
proof -
  let ?block = "write_bytes (q_bitmap_bytes d + in_block) sector
    (replicate (q_bitmap_bytes d) 0xFF @ replicate (q_block_bytes d) 0)"
  let ?entry = "of_nat (q_end d div QUUX_SECTOR) :: u32"
  from assms(1) obtain k1 k2 k3 k4 r where
    a: "sys_alloc k = (True, k1)"
    and w1: "write_at fd (q_end d) ?block k1 = (Inr (), k2)"
    and w2: "write_at fd (q_end d + region_bytes d) (q_footer d) k2 = (Inr (), k3)"
    and s: "sys_fdatasync fd k3 = (r, k4)"
    and w3: "write_at fd (q_table_offset d + 4 * i) (put_be32 ?entry) k4 = (Inr (), k')"
    and d': "d' = d\<lparr>q_table := (q_table d)[i := ?entry], q_end := q_end d + region_bytes d\<rparr>"
    and lim: "q_end d div QUUX_SECTOR < 0xFFFFFFFF"
    by (auto simp: allocate_def Let_def split: prod.splits sum.splits if_splits option.splits)
  show "d' = d\<lparr>q_table := (q_table d)[i := ?entry], q_end := q_end d + region_bytes d\<rparr>"
    by (fact d')
  show "q_end d div QUUX_SECTOR < 0xFFFFFFFF" by (fact lim)
  have "fd_bytes k1 fd = Some f"
    using sys_alloc_same [OF a] assms(2) by (simp add: same_files_fd_bytes)
  note f2 = write_at_bytes [OF w2 write_at_bytes [OF w1 this]]
  have "fd_bytes k4 fd = fd_bytes k3 fd"
    using sys_fdatasync_same [OF s] by (rule same_files_fd_bytes)
  with f2 show "fd_bytes k' fd = Some (write_bytes (q_table_offset d + 4 * i) (put_be32 ?entry)
        (write_bytes (q_end d + region_bytes d) (q_footer d) (write_bytes (q_end d) ?block f)))"
    by (intro write_at_bytes [OF w3]) simp
qed


text \<open>
  The file after an allocation: what lay before the old end is untouched but for the table
  entry, and the new block is the bitmap of ones and the zeros around the sector written.
\<close>

definition grown_block :: "quux_disk \<Rightarrow> nat \<Rightarrow> u8 list \<Rightarrow> u8 list" where
  "grown_block d in_block sector = write_bytes (q_bitmap_bytes d + in_block) sector
     (replicate (q_bitmap_bytes d) 0xFF @ replicate (q_block_bytes d) 0)"

definition grown_disk :: "quux_disk \<Rightarrow> nat \<Rightarrow> quux_disk" where
  "grown_disk d i = d\<lparr>q_table := (q_table d)[i := of_nat (q_end d div QUUX_SECTOR)],
     q_end := q_end d + region_bytes d\<rparr>"

definition grown_file :: "quux_disk \<Rightarrow> nat \<Rightarrow> u8 list \<Rightarrow> u8 list \<Rightarrow> u8 list" where
  "grown_file d i block f =
     write_bytes (q_table_offset d + 4 * i) (put_be32 (of_nat (q_end d div QUUX_SECTOR)))
       (write_bytes (q_end d + region_bytes d) (q_footer d) (write_bytes (q_end d) block f))"

definition may_grow :: "quux_disk \<Rightarrow> u8 list \<Rightarrow> nat \<Rightarrow> u8 list \<Rightarrow> bool" where
  "may_grow d f i block \<longleftrightarrow>
     vhd_shape d \<and> vhd_layout d f \<and> q_format d = QUUX_DYNAMIC_VHD \<and>
     i < q_entries d \<and> q_table d ! i = UNALLOCATED \<and>
     length block = region_bytes d \<and> q_end d div QUUX_SECTOR < 0xFFFFFFFF"

lemma grown_entry:
  assumes "may_grow d f i block"
  shows "unat (of_nat (q_end d div QUUX_SECTOR) :: u32) * QUUX_SECTOR = q_end d"
    and "of_nat (q_end d div QUUX_SECTOR) \<noteq> UNALLOCATED"
proof -
  have lim: "q_end d div QUUX_SECTOR < 0xFFFFFFFF" and "QUUX_SECTOR dvd q_end d"
    using assms by (simp_all add: may_grow_def vhd_shape_def)
  have u: "unat (of_nat (q_end d div QUUX_SECTOR) :: u32) = q_end d div QUUX_SECTOR"
    using lim by (simp add: unat_of_nat)
  then show "unat (of_nat (q_end d div QUUX_SECTOR) :: u32) * QUUX_SECTOR = q_end d"
    using \<open>QUUX_SECTOR dvd q_end d\<close> by simp
  show "of_nat (q_end d div QUUX_SECTOR) \<noteq> UNALLOCATED"
  proof
    assume "of_nat (q_end d div QUUX_SECTOR) = UNALLOCATED"
    then have "unat (of_nat (q_end d div QUUX_SECTOR) :: u32) = 0xFFFFFFFF" by simp
    with u lim show False by simp
  qed
qed

lemma grown_length:
  assumes "may_grow d f i block"
  shows "length (write_bytes (q_end d) block f) = max (length f) (q_end d + region_bytes d)"
    and "q_end d + region_bytes d \<le> length (grown_file d i block f)"
    and "length f \<le> length (grown_file d i block f)"
proof -
  have "block \<noteq> []" using assms by (auto simp: may_grow_def vhd_shape_def)
  then show l: "length (write_bytes (q_end d) block f) = max (length f) (q_end d + region_bytes d)"
    using assms by (simp add: may_grow_def)
  show "q_end d + region_bytes d \<le> length (grown_file d i block f)"
    "length f \<le> length (grown_file d i block f)"
    unfolding grown_file_def length_write_bytes [of "q_table_offset d + 4 * i"]
      length_write_bytes [of "q_end d + region_bytes d"] l by auto
qed

lemma grown_read_new:
  assumes g: "may_grow d f i block"
    and "q_end d \<le> at" and "at + n \<le> q_end d + region_bytes d"
  shows "read_bytes at n (grown_file d i block f) = take n (drop (at - q_end d) block)"
proof -
  let ?f1 = "write_bytes (q_end d) block f"
  let ?f2 = "write_bytes (q_end d + region_bytes d) (q_footer d) ?f1"
  have l1: "at + n \<le> length ?f1" using assms grown_length(1) [OF g] by simp
  then have l2: "at + n \<le> length ?f2" by (rule le_length_write_bytes)
  have t: "q_table_offset d + 4 * i + 4 \<le> q_end d"
    using g by (auto simp: may_grow_def vhd_layout_def)
  have "read_bytes at n (grown_file d i block f) = read_bytes at n ?f2"
    unfolding grown_file_def using t assms(2) l2 by (intro read_write_apart) auto
  also have "\<dots> = read_bytes at n ?f1"
    using assms l1 by (intro read_write_apart) auto
  also have "\<dots> = take n (drop (at - q_end d) block)"
    using assms by (intro read_write_inside) (auto simp: may_grow_def)
  finally show ?thesis .
qed

lemma grown_read_old:
  assumes g: "may_grow d f i block"
    and "at + n \<le> q_end d" and "at + n \<le> length f"
    and "apart at n (q_table_offset d + 4 * i) 4"
  shows "read_bytes at n (grown_file d i block f) = read_bytes at n f"
proof -
  let ?f1 = "write_bytes (q_end d) block f"
  let ?f2 = "write_bytes (q_end d + region_bytes d) (q_footer d) ?f1"
  have l1: "at + n \<le> length ?f1" using assms grown_length(1) [OF g] by simp
  then have l2: "at + n \<le> length ?f2" by (rule le_length_write_bytes)
  have "read_bytes at n (grown_file d i block f) = read_bytes at n ?f2"
    unfolding grown_file_def using assms(4) l2 by (intro read_write_apart) (auto simp: apart_def)
  also have "\<dots> = read_bytes at n ?f1"
    using assms l1 by (intro read_write_apart) auto
  also have "\<dots> = read_bytes at n f"
    using assms by (intro read_write_apart) auto
  finally show ?thesis .
qed

lemma grown_allocated:
  "may_grow d f i block \<Longrightarrow> allocated (grown_disk d i) i' \<longleftrightarrow> allocated d i' \<or> i' = i"
  using grown_entry(2) [of d f i block]
  by (auto simp: allocated_def grown_disk_def nth_list_update may_grow_def vhd_shape_def)

lemma grown_start:
  assumes "may_grow d f i block" and "i' < q_entries d"
  shows "region_start (grown_disk d i) i' = (if i' = i then q_end d else region_start d i')"
  using assms grown_entry(1) [of d f i block]
  by (auto simp: grown_disk_def nth_list_update may_grow_def vhd_shape_def)

lemma grown_shape: "may_grow d f i block \<Longrightarrow> vhd_shape (grown_disk d i)"
  by (auto simp: may_grow_def vhd_shape_def grown_disk_def)

lemma grown_table:
  assumes g: "may_grow d f i block" and "i' < q_entries d"
  shows "read_bytes (q_table_offset d + 4 * i') 4 (grown_file d i block f) =
    put_be32 (q_table (grown_disk d i) ! i')"
proof (cases "i' = i")
  case True
  have "read_bytes (q_table_offset d + 4 * i) 4 (grown_file d i block f) =
      put_be32 (of_nat (q_end d div QUUX_SECTOR))"
    unfolding grown_file_def by (metis length_put_be32 read_write_same)
  with True g show ?thesis by (simp add: grown_disk_def may_grow_def vhd_shape_def)
next
  case False
  have *: "q_table_offset d + 4 * q_entries d \<le> q_end d" "q_table_offset d + 4 * q_entries d \<le> length f"
    "read_bytes (q_table_offset d + 4 * i') 4 f = put_be32 (q_table d ! i')"
    using g assms(2) by (auto simp: may_grow_def vhd_layout_def)
  with False assms(2) have "read_bytes (q_table_offset d + 4 * i') 4 (grown_file d i block f) =
      read_bytes (q_table_offset d + 4 * i') 4 f"
    by (intro grown_read_old [OF g]) (auto simp: apart_def)
  with * False show ?thesis by (simp add: grown_disk_def)
qed

lemma grown_layout:
  assumes g: "may_grow d f i block"
  shows "vhd_layout (grown_disk d i) (grown_file d i block f)"
proof -
  let ?d = "grown_disk d i" and ?f = "grown_file d i block f"
  have same [simp]: "q_table_offset ?d = q_table_offset d" "q_entries ?d = q_entries d"
    "region_bytes ?d = region_bytes d" "q_end ?d = q_end d + region_bytes d"
    by (simp_all add: grown_disk_def)
  have L: "vhd_layout d f" and i: "i < q_entries d" using g by (simp_all add: may_grow_def)
  have old: "region_start d i' + region_bytes d \<le> q_end d"
    "region_start d i' + region_bytes d \<le> length f" if "allocated d i'" for i'
    using L that by (auto simp: vhd_layout_def)
  have idx: "i' < q_entries d" if "allocated ?d i'" for i'
    using that by (simp add: allocated_def)
  have start: "region_start ?d i' = (if i' = i then q_end d else region_start d i')"
    if "allocated ?d i'" for i'
    using grown_start [OF g idx [OF that]] .
  have was: "allocated d i'" if "allocated ?d i'" "i' \<noteq> i" for i'
    using that grown_allocated [OF g] by blast
  show ?thesis
    unfolding vhd_layout_def same
  proof (intro conjI allI impI)
    show "q_table_offset d + 4 * q_entries d \<le> q_end d + region_bytes d"
      "q_table_offset d + 4 * q_entries d \<le> length ?f"
      using L grown_length(3) [OF g] by (auto simp: vhd_layout_def)
  next
    fix i' assume a: "allocated ?d i'"
    show "region_start ?d i' + region_bytes d \<le> q_end d + region_bytes d"
      using start [OF a] old(1) [OF was [OF a]] by auto
    show "region_start ?d i' + region_bytes d \<le> length ?f"
      using start [OF a] old(2) [OF was [OF a]] grown_length(2,3) [OF g] by (auto split: if_splits)
    show "apart (region_start ?d i') (region_bytes d) (q_table_offset d) (4 * q_entries d)"
    proof (cases "i' = i")
      case True
      with start [OF a] L show ?thesis by (auto simp: apart_def vhd_layout_def)
    next
      case False
      with start [OF a] was [OF a False] L show ?thesis by (auto simp: vhd_layout_def)
    qed
  next
    fix i1 i2 assume a: "allocated ?d i1" "allocated ?d i2" "i1 \<noteq> i2"
    show "apart (region_start ?d i1) (region_bytes d) (region_start ?d i2) (region_bytes d)"
    proof (cases "i1 = i \<or> i2 = i")
      case True
      then show ?thesis
        using a start [OF a(1)] start [OF a(2)] old(1) [OF was [OF a(1)]] old(1) [OF was [OF a(2)]]
        by (auto simp: apart_def)
    next
      case False
      then show ?thesis
        using a start [OF a(1)] start [OF a(2)] was [OF a(1)] was [OF a(2)] L
        by (auto simp: vhd_layout_def)
    qed
  next
    fix i' assume "i' < q_entries d"
    then show "read_bytes (q_table_offset d + 4 * i') 4 ?f = put_be32 (q_table ?d ! i')"
      by (rule grown_table [OF g])
  qed
qed


lemma length_grown_block:
  "in_block + length sector \<le> q_block_bytes d \<Longrightarrow> length (grown_block d in_block sector) = region_bytes d"
  by (auto simp: grown_block_def)

lemma grown_block_sector:
  assumes "QUUX_SECTOR * m' + QUUX_SECTOR \<le> q_block_bytes d"
    and "QUUX_SECTOR * m + QUUX_SECTOR \<le> q_block_bytes d" and "length sector = QUUX_SECTOR"
  shows "take QUUX_SECTOR (drop (q_bitmap_bytes d + QUUX_SECTOR * m')
      (grown_block d (QUUX_SECTOR * m) sector)) =
    (if m' = m then sector else replicate QUUX_SECTOR 0)"
proof -
  let ?z = "replicate (q_bitmap_bytes d) (0xFF :: u8) @ replicate (q_block_bytes d) 0"
  let ?at = "q_bitmap_bytes d + QUUX_SECTOR * m'"
  have "read_bytes ?at QUUX_SECTOR (grown_block d (QUUX_SECTOR * m) sector) =
      (if m' = m then sector else read_bytes ?at QUUX_SECTOR ?z)"
  proof (cases "m' = m")
    case True
    then show ?thesis
      using read_write_same [of ?at sector ?z] assms(3) by (simp add: grown_block_def)
  next
    case False
    then show ?thesis
      unfolding grown_block_def using assms by (auto intro!: read_write_apart)
  qed
  moreover have "read_bytes ?at QUUX_SECTOR ?z = replicate QUUX_SECTOR 0"
    using assms(1) by (simp add: read_bytes_def)
  ultimately show ?thesis by (simp add: read_bytes_def)
qed

text \<open>A sector written where its block was not allocated.\<close>

lemma grown_sector:
  assumes g: "may_grow d f (j div sectors_per_block d) block"
    and block: "block = grown_block d (QUUX_SECTOR * (j mod sectors_per_block d)) sector"
    and len: "length sector = QUUX_SECTOR" and j': "j' < 2 * unat (q_blocks d)"
  shows "disk_sector (grown_disk d (j div sectors_per_block d))
      (grown_file d (j div sectors_per_block d) block f) j' =
    (if j' = j then sector else disk_sector d f j')"
proof -
  let ?c = "sectors_per_block d"
  let ?i = "j div ?c" and ?i' = "j' div ?c"
  let ?d = "grown_disk d ?i" and ?f = "grown_file d ?i block f"
  have shape: "vhd_shape d" and layout: "vhd_layout d f" and dyn: "q_format d = QUUX_DYNAMIC_VHD"
    and fresh: "q_table d ! ?i = UNALLOCATED"
    using g by (simp_all add: may_grow_def)
  have i': "?i' < q_entries d" using sector_in_table [OF shape j'] .
  have same: "sectors_per_block ?d = ?c" "q_bitmap_bytes ?d = q_bitmap_bytes d" "q_format ?d = q_format d"
    by (simp_all add: grown_disk_def)
  have pos: "sector_pos ?d j' = (if ?i' = ?i then q_end d else region_start d ?i') +
      q_bitmap_bytes d + QUUX_SECTOR * (j' mod ?c)"
    unfolding sector_pos_def same using grown_start [OF g i'] by simp
  have ds: "disk_sector ?d ?f j' = (if q_table ?d ! ?i' = UNALLOCATED then replicate QUUX_SECTOR 0
      else read_bytes (sector_pos ?d j') QUUX_SECTOR ?f)"
    using disk_sector_vhd [OF grown_shape [OF g]] dyn by (simp add: same)
  note m' = vhd_sector_shape(2) [OF shape, of j'] and m = vhd_sector_shape(2) [OF shape, of j]
  show ?thesis
  proof (cases "?i' = ?i")
    case True
    have alloc: "q_table ?d ! ?i' \<noteq> UNALLOCATED"
      using grown_allocated [OF g, of ?i'] True by (simp add: allocated_def)
    have "read_bytes (sector_pos ?d j') QUUX_SECTOR ?f =
        take QUUX_SECTOR (drop (q_bitmap_bytes d + QUUX_SECTOR * (j' mod ?c)) block)"
      using grown_read_new [OF g, of "sector_pos ?d j'" QUUX_SECTOR] m' True pos by simp
    also have "\<dots> = (if j' mod ?c = j mod ?c then sector else replicate QUUX_SECTOR 0)"
      unfolding block by (rule grown_block_sector [OF m' m len])
    also have "j' mod ?c = j mod ?c \<longleftrightarrow> j' = j" using True by (metis div_mult_mod_eq)
    finally show ?thesis
      using ds alloc fresh True by (simp add: disk_sector_vhd [OF shape dyn])
  next
    case False
    then have tab: "q_table ?d ! ?i' = q_table d ! ?i'" by (simp add: grown_disk_def)
    have "read_bytes (sector_pos d j') QUUX_SECTOR ?f = read_bytes (sector_pos d j') QUUX_SECTOR f"
      if "q_table d ! ?i' \<noteq> UNALLOCATED"
    proof (rule grown_read_old [OF g])
      have "allocated d ?i'" using that i' by (simp add: allocated_def)
      then have r: "region_start d ?i' + region_bytes d \<le> q_end d"
        "region_start d ?i' + region_bytes d \<le> length f"
        "apart (region_start d ?i') (region_bytes d) (q_table_offset d) (4 * q_entries d)"
        using layout by (auto simp: vhd_layout_def)
      note b = sector_pos_bounds [OF shape, of j']
      show "sector_pos d j' + QUUX_SECTOR \<le> q_end d" "sector_pos d j' + QUUX_SECTOR \<le> length f"
        using r b by auto
      show "apart (sector_pos d j') QUUX_SECTOR (q_table_offset d + 4 * ?i) 4"
        using r(3) b g by (auto simp: apart_def may_grow_def)
    qed
    moreover have "sector_pos ?d j' = sector_pos d j'" using pos False by (simp add: sector_pos_def)
    ultimately show ?thesis
      using False ds tab by (auto simp: disk_sector_vhd [OF shape dyn])
  qed
qed

section \<open>A write changes the sectors written and no other\<close>

text \<open>One sector of the loop: either the block is there, or it is allocated for it.\<close>

definition sector_written ::
    "quux_disk \<Rightarrow> u8 list \<Rightarrow> nat \<Rightarrow> u8 list \<Rightarrow> quux_disk \<Rightarrow> u8 list \<Rightarrow> bool" where
  "sector_written d f j bs d' f' \<longleftrightarrow>
     vhd_shape d' \<and> vhd_layout d' f' \<and>
     q_format d' = q_format d \<and> q_blocks d' = q_blocks d \<and>
     (\<forall>j' < 2 * unat (q_blocks d). disk_sector d' f' j' = (if j' = j then bs else disk_sector d f j'))"

lemma write_existing_sector:
  assumes ok: "vhd_shape d" "vhd_layout d f" "q_format d = QUUX_DYNAMIC_VHD"
    and j: "j < 2 * unat (q_blocks d)" and len: "length bs = QUUX_SECTOR"
    and f: "fd_bytes k fd = Some f"
    and off: "locate d (j * QUUX_SECTOR) = (off, i)" "off \<noteq> 0"
    and w: "write_at fd off bs k = (Inr (), k1)"
    and m: "mark_sector fd d i (j * QUUX_SECTOR) k1 = (Inr (), k')"
  shows "\<exists>f'. fd_bytes k' fd = Some f' \<and> sector_written d f j bs d f'"
proof -
  have i: "i = j div sectors_per_block d" and pos: "off = sector_pos d j"
    and a: "allocated d (j div sectors_per_block d)"
    using off locate_sector [OF ok(1), of j] sector_in_table [OF ok(1) j]
    by (auto simp: Let_def sector_pos_def allocated_def split: if_splits)
  let ?f1 = "write_bytes (sector_pos d j) bs f"
  have f1: "fd_bytes k1 fd = Some ?f1" using write_at_bytes [OF w f] by (simp add: pos)
  have l1: "vhd_layout d ?f1" using vhd_layout_write [OF ok(1,2) a len] .
  obtain f' where "fd_bytes k' fd = Some f'" "vhd_layout d f'"
    "\<forall>j' < 2 * unat (q_blocks d). disk_sector d f' j' = disk_sector d ?f1 j'"
    using mark_sector_keeps [OF ok(1) l1 ok(3) _ m f1] a i by blast
  then show ?thesis
    using ok(1) disk_sector_write [OF ok a len] by (auto simp: sector_written_def)
qed

lemma write_fresh_sector:
  assumes ok: "vhd_shape d" "vhd_layout d f" "q_format d = QUUX_DYNAMIC_VHD"
    and j: "j < 2 * unat (q_blocks d)" and len: "length bs = QUUX_SECTOR"
    and f: "fd_bytes k fd = Some f"
    and off: "locate d (j * QUUX_SECTOR) = (0, i)"
    and w: "allocate fd d i (j * QUUX_SECTOR mod q_block_bytes d) bs k = (Inr d', k')"
  shows "\<exists>f'. fd_bytes k' fd = Some f' \<and> sector_written d f j bs d' f'"
proof -
  let ?i = "j div sectors_per_block d"
  let ?block = "grown_block d (QUUX_SECTOR * (j mod sectors_per_block d)) bs"
  from ok(1) obtain c where c: "q_block_bytes d = QUUX_SECTOR * c" "0 < q_bitmap_bytes d"
    by (auto simp: vhd_shape_def dvd_def)
  have i: "i = ?i" and fresh: "q_table d ! ?i = UNALLOCATED"
    using off c locate_sector [OF ok(1), of j] by (auto simp: Let_def split: if_splits)
  have in_block: "j * QUUX_SECTOR mod q_block_bytes d = QUUX_SECTOR * (j mod sectors_per_block d)"
    using mult_mod_right [of QUUX_SECTOR j c] c by (simp add: mult.commute)
  note al = allocate_success [OF w f]
  have d': "d' = grown_disk d ?i" using al(1) by (simp add: grown_disk_def i)
  have f': "fd_bytes k' fd = Some (grown_file d ?i ?block f)"
    using al(3) unfolding grown_file_def grown_block_def by (simp add: i in_block)
  have "length ?block = region_bytes d"
    using vhd_sector_shape(2) [OF ok(1), of j] len by (intro length_grown_block) simp
  then have g: "may_grow d f ?i ?block"
    using ok fresh sector_in_table [OF ok(1) j] al(2) by (simp add: may_grow_def)
  have "sector_written d f j bs d' (grown_file d ?i ?block f)"
    unfolding sector_written_def d'
    using grown_shape [OF g] grown_layout [OF g] grown_sector [OF g refl len]
    by (simp add: grown_disk_def)
  with f' show ?thesis by blast
qed

lemma quux_write_sectors_ok:
  assumes "quux_write_sectors fd d n buf ss k = (Inr (), d', k')"
    and "fd_bytes k fd = Some f" and "vhd_shape d" "vhd_layout d f" "q_format d = QUUX_DYNAMIC_VHD"
    and "n < q_blocks d" and "length buf = QUUX_BLOCK_BYTES" and "set ss \<subseteq> {0, 1}" "distinct ss"
  shows "\<exists>f'. fd_bytes k' fd = Some f' \<and> vhd_shape d' \<and> vhd_layout d' f' \<and>
    q_format d' = q_format d \<and> q_blocks d' = q_blocks d \<and>
    (\<forall>j < 2 * unat (q_blocks d). disk_sector d' f' j =
      (if j - 2 * unat n \<in> set ss \<and> 2 * unat n \<le> j
       then take QUUX_SECTOR (drop ((j - 2 * unat n) * QUUX_SECTOR) buf) else disk_sector d f j))"
  using assms
proof (induction ss arbitrary: d k f)
  case Nil
  then show ?case by auto
next
  case (Cons s ss)
  let ?j = "2 * unat n + s" and ?bs = "take QUUX_SECTOR (drop (s * QUUX_SECTOR) buf)"
  have s: "s < 2" and ss: "set ss \<subseteq> {0, 1}" "distinct ss" "s \<notin> set ss" using Cons.prems(8,9) by auto
  have sat: "unat n * QUUX_BLOCK_BYTES + s * QUUX_SECTOR = ?j * QUUX_SECTOR" by simp
  have j: "?j < 2 * unat (q_blocks d)"
    using Cons.prems(6) s by (simp add: word_less_nat_alt)
  have len: "length ?bs = QUUX_SECTOR" using s Cons.prems(7) by auto
  obtain off i where loc: "locate d (?j * QUUX_SECTOR) = (off, i)" by (cases "locate d (?j * QUUX_SECTOR)")
  have "\<exists>d1 k1 f1. fd_bytes k1 fd = Some f1 \<and> sector_written d f ?j ?bs d1 f1 \<and>
      quux_write_sectors fd d1 n buf ss k1 = (Inr (), d', k')"
  proof (cases "off = 0")
    case True
    with Cons.prems(1) loc obtain d1 k1 where
      "allocate fd d i (?j * QUUX_SECTOR mod q_block_bytes d) ?bs k = (Inr d1, k1)"
      "quux_write_sectors fd d1 n buf ss k1 = (Inr (), d', k')"
      by (auto simp: Let_def sat split: prod.splits sum.splits)
    with write_fresh_sector [OF Cons.prems(3-5) j len Cons.prems(2)] loc True show ?thesis by blast
  next
    case False
    with Cons.prems(1) loc obtain k1 k2 where
      "write_at fd off ?bs k = (Inr (), k1)" "mark_sector fd d i (?j * QUUX_SECTOR) k1 = (Inr (), k2)"
      "quux_write_sectors fd d n buf ss k2 = (Inr (), d', k')"
      by (auto simp: Let_def sat split: prod.splits sum.splits)
    with write_existing_sector [OF Cons.prems(3-5) j len Cons.prems(2) loc False] show ?thesis by blast
  qed
  then obtain d1 k1 f1 where f1: "fd_bytes k1 fd = Some f1" and w: "sector_written d f ?j ?bs d1 f1"
    and rest: "quux_write_sectors fd d1 n buf ss k1 = (Inr (), d', k')" by blast
  have d1: "vhd_shape d1" "vhd_layout d1 f1" "q_format d1 = QUUX_DYNAMIC_VHD" "n < q_blocks d1"
    "q_blocks d1 = q_blocks d" "q_format d1 = q_format d"
    using w Cons.prems(5,6) by (auto simp: sector_written_def)
  from Cons.IH [OF rest f1 d1(1-4) Cons.prems(7) ss(1,2)] obtain f' where
    f': "fd_bytes k' fd = Some f'" "vhd_shape d'" "vhd_layout d' f'" "q_format d' = q_format d1"
      "q_blocks d' = q_blocks d1"
    and view: "\<forall>j < 2 * unat (q_blocks d1). disk_sector d' f' j =
      (if j - 2 * unat n \<in> set ss \<and> 2 * unat n \<le> j
       then take QUUX_SECTOR (drop ((j - 2 * unat n) * QUUX_SECTOR) buf) else disk_sector d1 f1 j)"
    by blast
  have "disk_sector d' f' j = (if j - 2 * unat n \<in> set (s # ss) \<and> 2 * unat n \<le> j
       then take QUUX_SECTOR (drop ((j - 2 * unat n) * QUUX_SECTOR) buf) else disk_sector d f j)"
    if "j < 2 * unat (q_blocks d)" for j
    using view w that ss(3) d1(5) by (auto simp: sector_written_def)
  with f' d1 show ?case by auto
qed

end
