(* ===== verification/Block_Store.thy ===== *)
theory Block_Store
  imports Main
begin

text \<open>
  The contract between whoever serves blocks and whoever keeps them: a read after a write of
  the same block gives what was written, a write leaves every other block alone, and what the
  store relies on survives.  QUUX's disk file and the CADR's pack both provide it; the feeder
  and the properties that span a run rest on it.
\<close>

text \<open>A run of writes, stopping at the first that fails.\<close>

fun write_all :: "('s \<Rightarrow> 'n \<Rightarrow> 'b \<Rightarrow> 's option) \<Rightarrow> 's \<Rightarrow> ('n \<times> 'b) list \<Rightarrow> 's option" where
  "write_all wr s [] = Some s"
| "write_all wr s ((n, b) # ws) =
     (case wr s n b of None \<Rightarrow> None | Some s' \<Rightarrow> write_all wr s' ws)"

locale block_store =
  fixes rd :: "'s \<Rightarrow> 'n \<Rightarrow> 'b option"
    and wr :: "'s \<Rightarrow> 'n \<Rightarrow> 'b \<Rightarrow> 's option"
    and inv :: "'s \<Rightarrow> bool"
    and fit :: "'b \<Rightarrow> bool"
  assumes wr_inv: "inv s \<Longrightarrow> fit b \<Longrightarrow> wr s n b = Some s' \<Longrightarrow> inv s'"
    and wr_same: "inv s \<Longrightarrow> fit b \<Longrightarrow> wr s n b = Some s' \<Longrightarrow> rd s' n = Some b"
    and wr_other: "inv s \<Longrightarrow> fit b \<Longrightarrow> wr s n b = Some s' \<Longrightarrow> m \<noteq> n \<Longrightarrow> rd s' m = rd s m"
begin

lemma write_all_inv:
  "write_all wr s ws = Some s' \<Longrightarrow> inv s \<Longrightarrow> \<forall>(n, b) \<in> set ws. fit b \<Longrightarrow> inv s'"
proof (induction ws arbitrary: s)
  case (Cons w ws)
  then show ?case by (cases w) (auto split: option.splits dest: wr_inv)
qed simp

lemma write_all_read:
  "write_all wr s ws = Some s' \<Longrightarrow> inv s \<Longrightarrow> \<forall>(n, b) \<in> set ws. fit b \<Longrightarrow>
     rd s' m = (case map_of (rev ws) m of Some b \<Rightarrow> Some b | None \<Rightarrow> rd s m)"
proof (induction ws arbitrary: s)
  case Nil
  then show ?case by simp
next
  case (Cons w ws)
  obtain n b where w: "w = (n, b)" by (cases w)
  with Cons.prems obtain s1 where s1: "wr s n b = Some s1" and rest: "write_all wr s1 ws = Some s'"
    by (auto split: option.splits)
  have fits: "fit b" "\<forall>(n, b) \<in> set ws. fit b" using Cons.prems(3) w by auto
  have "inv s1" using wr_inv Cons.prems(2) fits(1) s1 by blast
  note IH = Cons.IH [OF rest this fits(2)]
  have "rd s1 m = (if m = n then Some b else rd s m)"
    using wr_same [OF Cons.prems(2) fits(1) s1] wr_other [OF Cons.prems(2) fits(1) s1] by auto
  with IH show ?case by (auto simp: w map_add_def split: option.splits)
qed

lemma write_all_keeps:
  assumes "\<And>s n b s'. inv s \<Longrightarrow> fit b \<Longrightarrow> P s \<Longrightarrow> wr s n b = Some s' \<Longrightarrow> P s'"
  shows "write_all wr s ws = Some s' \<Longrightarrow> inv s \<Longrightarrow> \<forall>(n, b) \<in> set ws. fit b \<Longrightarrow> P s \<Longrightarrow> P s'"
proof (induction ws arbitrary: s)
  case (Cons w ws)
  then show ?case by (cases w) (auto split: option.splits dest: wr_inv assms)
qed simp

end

end
