(* ===== verification/Quux_Disk_Props.thy ===== *)
theory Quux_Disk_Props
  imports Quux_Disk_Layout Block_Store
begin

text \<open>
  What QUUX's disk file promises.  A write changes exactly the sectors written, whatever it had to allocate; a write that
  fails harms no other block; a write on a system where nothing fails goes through; and what
  an open accepts has the shape the reads and writes rely on.
\<close>

unbundle bit_operations_syntax

section \<open>Blocks\<close>

definition quux_block :: "quux_disk \<Rightarrow> u8 list \<Rightarrow> nat \<Rightarrow> u8 list" where
  "quux_block d f n = disk_sector d f (2 * n) @ disk_sector d f (2 * n + 1)"

lemma disk_sector_locate:
  assumes "q_format d = QUUX_DYNAMIC_VHD"
  shows "disk_sector d f j =
    (if fst (locate d (j * QUUX_SECTOR)) = 0 then replicate QUUX_SECTOR 0
     else read_bytes (fst (locate d (j * QUUX_SECTOR))) QUUX_SECTOR f)"
  using assms by (simp add: disk_sector_def Let_def)

definition read_sector :: "int \<Rightarrow> quux_disk \<Rightarrow> nat \<Rightarrow> kernel \<Rightarrow> (nat + u8 list) \<times> kernel" where
  "read_sector fd d j k =
     (if fst (locate d (j * QUUX_SECTOR)) = 0 then (Inr (replicate QUUX_SECTOR 0), k)
      else read_at fd (fst (locate d (j * QUUX_SECTOR))) QUUX_SECTOR k)"

lemma quux_read_sectors_Cons:
  "quux_read_sectors fd d n (s # ss) k0 =
     (case read_sector fd d (2 * unat n + s) k0 of
        (Inl e, k) \<Rightarrow> (Inl (Quux_read n e), k)
      | (Inr into, k) \<Rightarrow>
          (case quux_read_sectors fd d n ss k of
             (Inl e, k) \<Rightarrow> (Inl e, k)
           | (Inr rest, k) \<Rightarrow> (Inr (into @ rest), k)))"
proof -
  have "unat n * QUUX_BLOCK_BYTES + s * QUUX_SECTOR = (2 * unat n + s) * QUUX_SECTOR" by simp
  then show ?thesis by (simp only: quux_read_sectors.simps Let_def read_sector_def)
qed

lemma read_sector_bytes:
  assumes "read_sector fd d j k = (Inr bs, k')" and "fd_bytes k fd = Some f"
    and "q_format d = QUUX_DYNAMIC_VHD"
  shows "bs = disk_sector d f j" and "fd_bytes k' fd = Some f"
  using assms read_at_bytes(1,3) [OF _ assms(2)]
  by (auto simp: read_sector_def disk_sector_locate split: if_splits)

lemma quux_read_sectors_bytes:
  assumes "quux_read_sectors fd d n ss k = (Inr bs, k')" and "fd_bytes k fd = Some f"
    and "q_format d = QUUX_DYNAMIC_VHD"
  shows "bs = concat (map (\<lambda>s. disk_sector d f (2 * unat n + s)) ss) \<and> fd_bytes k' fd = Some f"
  using assms
proof (induction ss arbitrary: k bs)
  case Nil
  then show ?case by simp
next
  case (Cons s ss)
  from Cons.prems(1) obtain into k1 rest where
    one: "read_sector fd d (2 * unat n + s) k = (Inr into, k1)"
    and more: "quux_read_sectors fd d n ss k1 = (Inr rest, k')" and bs: "bs = into @ rest"
    by (auto simp: quux_read_sectors_Cons simp del: quux_read_sectors.simps(2) split: prod.splits sum.splits)
  note read_sector_bytes [OF one Cons.prems(2,3)]
  with Cons.IH [OF more _ Cons.prems(3)] bs show ?case by simp
qed

lemma quux_disk_read_bytes:
  assumes "quux_disk_read fd d n k = (Inr bs, k')" and "fd_bytes k fd = Some f"
  shows "bs = quux_block d f (unat n)" and "fd_bytes k' fd = Some f" and "n < q_blocks d"
proof -
  show "n < q_blocks d" using assms(1) by (auto simp: quux_disk_read_def not_le split: if_splits)
  have "bs = quux_block d f (unat n) \<and> fd_bytes k' fd = Some f"
  proof (cases "q_format d = QUUX_DYNAMIC_VHD")
    case True
    then have "quux_read_sectors fd d n [0..<2] k = (Inr bs, k')"
      using assms(1) by (auto simp: quux_disk_read_def split: if_splits)
    from quux_read_sectors_bytes [OF this assms(2) True] show ?thesis
      by (simp add: quux_block_def upt_rec)
  next
    case False
    then have "read_at fd (unat n * QUUX_BLOCK_BYTES) QUUX_BLOCK_BYTES k = (Inr bs, k')"
      using assms(1) by (auto simp: quux_disk_read_def split: if_splits sum.splits prod.splits)
    from read_at_bytes [OF this assms(2)] False show ?thesis
      by (auto simp: quux_block_def disk_sector_def read_bytes_def mult.commute
               simp flip: take_add drop_drop)
  qed
  then show "bs = quux_block d f (unat n)" "fd_bytes k' fd = Some f" by auto
qed

text \<open>
  A disk whose sectors can all be read: less than the full layout, since a table entry half
  written is outside it.  Where nothing fails every block of such a disk is read.
\<close>

definition readable :: "quux_disk \<Rightarrow> u8 list \<Rightarrow> bool" where
  "readable d f \<longleftrightarrow> (\<forall>j < 2 * unat (q_blocks d).
     allocated d (j div sectors_per_block d) \<longrightarrow> sector_pos d j + QUUX_SECTOR \<le> length f)"

lemma vhd_readable:
  assumes "vhd_shape d" and "vhd_layout d f"
  shows "readable d f"
  unfolding readable_def
proof (intro allI impI)
  fix j assume "allocated d (j div sectors_per_block d)"
  then have "region_start d (j div sectors_per_block d) + region_bytes d \<le> length f"
    using assms(2) by (simp add: vhd_layout_def)
  with sector_pos_bounds(2) [OF assms(1), of j] show "sector_pos d j + QUUX_SECTOR \<le> length f"
    by (rule order_trans)
qed

lemma quux_block_readable:
  assumes "k_script k = []" and "fd_bytes k fd = Some f" and "n < q_blocks d"
    and "q_format d = QUUX_DYNAMIC_VHD" "vhd_shape d" "readable d f"
  shows "quux_disk_read fd d n k = (Inr (quux_block d f (unat n)), k)"
proof -
  have sec: "read_sector fd d (2 * unat n + s) k = (Inr (disk_sector d f (2 * unat n + s)), k)"
    if "s < 2" for s
  proof -
    let ?j = "2 * unat n + s"
    have j: "?j < 2 * unat (q_blocks d)" using assms(3) that by (simp add: word_less_nat_alt)
    have "fst (locate d (?j * QUUX_SECTOR)) + QUUX_SECTOR \<le> length f"
      if "fst (locate d (?j * QUUX_SECTOR)) \<noteq> 0"
      using that assms(6) j locate_sector [OF assms(5), of ?j] sector_in_table [OF assms(5) j]
      by (auto simp: readable_def Let_def sector_pos_def allocated_def split: if_splits)
    then show ?thesis
      using assms(1,2) by (simp add: read_sector_def disk_sector_locate [OF assms(4)] read_at_quiet)
  qed
  have "quux_read_sectors fd d n [0..<2] k = (Inr (quux_block d f (unat n)), k)"
    using sec [of 0] sec [of 1]
    by (simp add: upt_rec quux_read_sectors_Cons quux_block_def del: quux_read_sectors.simps(2))
  with assms(3,4) show ?thesis by (simp add: quux_disk_read_def not_le)
qed

lemma quux_disk_read_quiet:
  assumes "k_script k = []" and "fd_bytes k fd = Some f" and "vhd_ok d f" and "n < q_blocks d"
  shows "quux_disk_read fd d n k = (Inr (quux_block d f (unat n)), k)"
proof (cases "q_format d = QUUX_DYNAMIC_VHD")
  case True
  then have "vhd_shape d" "vhd_layout d f" using assms(3) by (auto simp: vhd_ok_def)
  then show ?thesis using assms(1,2,4) True by (intro quux_block_readable vhd_readable)
next
  case False
  then have "unat n * QUUX_BLOCK_BYTES + QUUX_BLOCK_BYTES \<le> length f"
    using assms(3,4) by (auto simp: vhd_ok_def word_less_nat_alt)
  from read_at_quiet [OF assms(1,2) this] False assms(4) show ?thesis
    by (auto simp: quux_disk_read_def not_le quux_block_def disk_sector_def read_bytes_def mult.commute
             simp flip: take_add drop_drop)
qed

lemma quux_disk_write_blocks:
  assumes w: "quux_disk_write fd d n buf k = (Inr (), d', k')"
    and f: "fd_bytes k fd = Some f" and ok: "vhd_ok d f" and len: "length buf = QUUX_BLOCK_BYTES"
  shows "\<exists>f'. fd_bytes k' fd = Some f' \<and> vhd_ok d' f' \<and> q_blocks d' = q_blocks d \<and> n < q_blocks d \<and>
    (\<forall>m < q_blocks d. quux_block d' f' (unat m) = (if m = n then buf else quux_block d f (unat m)))"
proof -
  have n: "n < q_blocks d" using w by (auto simp: quux_disk_write_def not_le split: if_splits)
  show ?thesis
  proof (cases "q_format d = QUUX_DYNAMIC_VHD")
    case True
    then have "quux_write_sectors fd d n buf [0..<2] k = (Inr (), d', k')" and ok': "vhd_shape d" "vhd_layout d f"
      using w n ok by (auto simp: quux_disk_write_def vhd_ok_def split: if_splits)
    have two: "set [0..<2] \<subseteq> {0, 1 :: nat}" "distinct [0..<2]" by auto
    from quux_write_sectors_ok [OF \<open>quux_write_sectors fd d n buf [0..<2] k = (Inr (), d', k')\<close>
        f ok' True n len two] obtain f' where
      f': "fd_bytes k' fd = Some f'" "vhd_shape d'" "vhd_layout d' f'" "q_format d' = q_format d"
        "q_blocks d' = q_blocks d"
      and view: "\<And>j. j < 2 * unat (q_blocks d) \<Longrightarrow> disk_sector d' f' j =
        (if j - 2 * unat n \<in> set [0..<2] \<and> 2 * unat n \<le> j
         then take QUUX_SECTOR (drop ((j - 2 * unat n) * QUUX_SECTOR) buf) else disk_sector d f j)"
      by blast
    have "quux_block d' f' (unat m) = (if m = n then buf else quux_block d f (unat m))"
      if "m < q_blocks d" for m
    proof -
      have ne: "unat m \<noteq> unat n" if "m \<noteq> n" using that by (simp add: word_unat_eq_iff)
      have "2 * unat m < 2 * unat (q_blocks d)" "2 * unat m + 1 < 2 * unat (q_blocks d)"
        using that by (simp_all add: word_less_nat_alt)
      then show ?thesis
        using view ne len by (auto simp: quux_block_def simp flip: take_add)
    qed
    with f' n True show ?thesis by (auto simp: vhd_ok_def)
  next
    case False
    then have "write_at fd (unat n * QUUX_BLOCK_BYTES) buf k = (Inr (), k')" and d': "d' = d"
      using w n by (auto simp: quux_disk_write_def split: if_splits prod.splits sum.splits)
    from write_at_bytes [OF this(1) f] have f': "fd_bytes k' fd = Some (write_bytes (unat n * QUUX_BLOCK_BYTES) buf f)" .
    have lf: "unat (q_blocks d) * QUUX_BLOCK_BYTES \<le> length f" using ok False by (simp add: vhd_ok_def)
    have raw: "quux_block d g m = read_bytes (m * QUUX_BLOCK_BYTES) QUUX_BLOCK_BYTES g" for g m
      using False by (simp add: quux_block_def disk_sector_def read_bytes_def mult.commute
             flip: take_add drop_drop)
    have "quux_block d (write_bytes (unat n * QUUX_BLOCK_BYTES) buf f) (unat m) =
        (if m = n then buf else quux_block d f (unat m))" if "m < q_blocks d" for m
    proof (cases "m = n")
      case True
      then show ?thesis using len read_write_same [of "unat n * QUUX_BLOCK_BYTES" buf f] by (simp add: raw)
    next
      case False
      then have "unat m \<noteq> unat n" by (simp add: word_unat_eq_iff)
      moreover have "unat m * QUUX_BLOCK_BYTES + QUUX_BLOCK_BYTES \<le> length f"
        using that lf by (auto simp: word_less_nat_alt)
      ultimately show ?thesis
        using False len by (auto simp: raw intro!: read_write_apart)
    qed
    with f' n d' False lf show ?thesis by (auto simp: vhd_ok_def max_def)
  qed
qed


section \<open>The disk keeps its contract\<close>

definition quux_rd :: "int \<Rightarrow> quux_disk \<times> kernel \<Rightarrow> u32 \<Rightarrow> u8 list option" where
  "quux_rd fd s n =
     (case quux_disk_read fd (fst s) n ((snd s)\<lparr>k_script := []\<rparr>) of
        (Inr bs, _) \<Rightarrow> Some bs | (Inl _, _) \<Rightarrow> None)"

definition quux_wr :: "int \<Rightarrow> quux_disk \<times> kernel \<Rightarrow> u32 \<Rightarrow> u8 list \<Rightarrow> (quux_disk \<times> kernel) option" where
  "quux_wr fd s n b =
     (case quux_disk_write fd (fst s) n b (snd s) of
        (Inr _, s') \<Rightarrow> Some s' | (Inl _, _) \<Rightarrow> None)"

definition quux_inv :: "int \<Rightarrow> quux_disk \<times> kernel \<Rightarrow> bool" where
  "quux_inv fd s \<longleftrightarrow> (\<exists>f. fd_bytes (snd s) fd = Some f \<and> vhd_ok (fst s) f)"

lemma quux_rd_block:
  assumes "fd_bytes k fd = Some f" and "vhd_ok d f"
  shows "quux_rd fd (d, k) n = (if n < q_blocks d then Some (quux_block d f (unat n)) else None)"
proof -
  have "fd_bytes (k\<lparr>k_script := []\<rparr>) fd = Some f"
    using assms(1) same_files_fd_bytes [OF same_files_script] by metis
  from quux_disk_read_quiet [OF _ this assms(2)] show ?thesis
    by (auto simp: quux_rd_def quux_disk_read_def not_le)
qed

lemma quux_wr_block:
  assumes "quux_wr fd (d, k) n b = Some (d', k')" and "fd_bytes k fd = Some f" and "vhd_ok d f"
    and "length b = QUUX_BLOCK_BYTES"
  shows "\<exists>f'. fd_bytes k' fd = Some f' \<and> vhd_ok d' f' \<and> q_blocks d' = q_blocks d \<and> n < q_blocks d \<and>
    (\<forall>m < q_blocks d. quux_block d' f' (unat m) = (if m = n then b else quux_block d f (unat m)))"
proof -
  have "quux_disk_write fd d n b k = (Inr (), d', k')"
    using assms(1) by (auto simp: quux_wr_def split: prod.splits sum.splits)
  then show ?thesis using assms(2-4) by (rule quux_disk_write_blocks)
qed

interpretation quux: block_store "quux_rd fd" "quux_wr fd" "quux_inv fd"
  "\<lambda>b. length b = QUUX_BLOCK_BYTES" for fd
proof
  fix s n b s'
  assume inv: "quux_inv fd s" and len: "length b = QUUX_BLOCK_BYTES" and w: "quux_wr fd s n b = Some s'"
  obtain d k d' k' where s: "s = (d, k)" "s' = (d', k')" by (cases s, cases s')
  obtain f where f: "fd_bytes k fd = Some f" "vhd_ok d f" using inv by (auto simp: quux_inv_def s)
  from quux_wr_block [OF w [unfolded s] f len] obtain f' where
    f': "fd_bytes k' fd = Some f'" "vhd_ok d' f'" "q_blocks d' = q_blocks d" "n < q_blocks d"
    and view: "\<forall>m < q_blocks d. quux_block d' f' (unat m) = (if m = n then b else quux_block d f (unat m))"
    by blast
  show "quux_inv fd s'" using f' by (auto simp: quux_inv_def s)
  show "quux_rd fd s' n = Some b" using f' view by (simp add: s quux_rd_block)
  show "quux_rd fd s' m = quux_rd fd s m" if "m \<noteq> n" for m
    using that f f' view by (simp add: s quux_rd_block)
qed

section \<open>A write goes through\<close>

text \<open>A descriptor open for writing on \<open>f\<close> in a system where nothing fails.\<close>

definition quiet :: "kernel \<Rightarrow> int \<Rightarrow> u8 list \<Rightarrow> bool" where
  "quiet k fd f \<longleftrightarrow>
     k_script k = [] \<and> fd_bytes k fd = Some f \<and> (\<exists>i. fd_inode k fd = Some (i, True))"

lemma k_script_put [simp]: "k_script (put_fd_bytes fd bs k) = k_script k"
  by (simp add: put_fd_bytes_def split: option.splits prod.splits)

lemma write_at_quiet:
  assumes "quiet k fd f"
  shows "\<exists>k'. write_at fd at bs k = (Inr (), k') \<and> quiet k' fd (write_bytes at bs f)"
proof -
  from assms obtain i where q: "k_script k = []" "fd_bytes k fd = Some f" "fd_inode k fd = Some (i, True)"
    by (auto simp: quiet_def)
  then show ?thesis
    by (auto simp: write_at_def sys_pwrite_quiet [OF q] quiet_def fd_bytes_put [OF q(2)])
qed

lemma mark_sector_quiet:
  assumes "quiet k fd f" and "region_start d i + sat mod q_block_bytes d div QUUX_SECTOR div 8 < length f"
  shows "\<exists>k' f'. mark_sector fd d i sat k = (Inr (), k') \<and> quiet k' fd f'"
proof -
  let ?at = "region_start d i + sat mod q_block_bytes d div QUUX_SECTOR div 8"
  have q: "k_script k = []" "fd_bytes k fd = Some f" using assms(1) by (auto simp: quiet_def)
  have r: "read_at fd ?at 1 k = (Inr (read_bytes ?at 1 f), k)"
    using assms(2) by (intro read_at_quiet [OF q]) simp
  from write_at_quiet [OF assms(1), of ?at "[read_bytes ?at 1 f ! 0 OR
      drop_bit (sat mod q_block_bytes d div QUUX_SECTOR mod 8) 0x80]"] assms(1)
  show ?thesis by (auto simp: mark_sector_def Let_def r simp del: One_nat_def)
qed

lemma allocate_quiet:
  assumes "quiet k fd f" and "q_end d div QUUX_SECTOR < 0xFFFFFFFF"
  shows "\<exists>d' k' f'. allocate fd d i in_block sector k = (Inr d', k') \<and> quiet k' fd f'"
proof -
  let ?block = "write_bytes (q_bitmap_bytes d + in_block) sector
    (replicate (q_bitmap_bytes d) 0xFF @ replicate (q_block_bytes d) 0)"
  have a: "sys_alloc k = (True, k)" using assms(1) by (simp add: quiet_def sys_alloc_def next_outcome_quiet)
  from write_at_quiet [OF assms(1)] obtain k1 where
    w1: "write_at fd (q_end d) ?block k = (Inr (), k1)" and q1: "quiet k1 fd (write_bytes (q_end d) ?block f)"
    by blast
  from write_at_quiet [OF q1] obtain k2 f2 where
    w2: "write_at fd (q_end d + region_bytes d) (q_footer d) k1 = (Inr (), k2)" and q2: "quiet k2 fd f2"
    by blast
  have s: "sys_fdatasync fd k2 = (Inr (), k2)"
    using q2 by (auto simp: quiet_def sys_fdatasync_def next_outcome_quiet)
  from write_at_quiet [OF q2] obtain k3 f3 where
    w3: "write_at fd (q_table_offset d + 4 * i) (put_be32 (of_nat (q_end d div QUUX_SECTOR))) k2 = (Inr (), k3)"
    and q3: "quiet k3 fd f3" by blast
  show ?thesis
    using assms(2) q3 by (auto simp: allocate_def Let_def a w1 w2 w3 s sync_failed_def not_le)
qed

lemma write_sector_progress:
  assumes q: "quiet k fd f" and ok: "vhd_shape d" "vhd_layout d f" "q_format d = QUUX_DYNAMIC_VHD"
    and j: "j < 2 * unat (q_blocks d)" and len: "length bs = QUUX_SECTOR"
    and room: "q_end d div QUUX_SECTOR < 0xFFFFFFFF"
    and loc: "locate d (j * QUUX_SECTOR) = (off, i)"
  shows "off = 0 \<Longrightarrow> \<exists>d' k' f'. allocate fd d i (j * QUUX_SECTOR mod q_block_bytes d) bs k = (Inr d', k') \<and>
      quiet k' fd f' \<and> sector_written d f j bs d' f' \<and> q_end d' = q_end d + region_bytes d \<and>
      region_bytes d' = region_bytes d"
    and "off \<noteq> 0 \<Longrightarrow> \<exists>k1 k' f'. write_at fd off bs k = (Inr (), k1) \<and>
      mark_sector fd d i (j * QUUX_SECTOR) k1 = (Inr (), k') \<and> quiet k' fd f' \<and> sector_written d f j bs d f'"
proof -
  have f: "fd_bytes k fd = Some f" using q by (simp add: quiet_def)
  assume off: "off = 0"
  from allocate_quiet [OF q room] obtain d' k' f' where
    a: "allocate fd d i (j * QUUX_SECTOR mod q_block_bytes d) bs k = (Inr d', k')" and q': "quiet k' fd f'"
    by blast
  from write_fresh_sector [OF ok j len f _ a] loc off q' allocate_success(1) [OF a f] a
  show "\<exists>d' k' f'. allocate fd d i (j * QUUX_SECTOR mod q_block_bytes d) bs k = (Inr d', k') \<and>
      quiet k' fd f' \<and> sector_written d f j bs d' f' \<and> q_end d' = q_end d + region_bytes d \<and>
      region_bytes d' = region_bytes d"
    by (auto simp: quiet_def)
next
  have f: "fd_bytes k fd = Some f" using q by (simp add: quiet_def)
  assume off: "off \<noteq> 0"
  from write_at_quiet [OF q] obtain k1 where
    w: "write_at fd off bs k = (Inr (), k1)" and q1: "quiet k1 fd (write_bytes off bs f)" by blast
  have i: "i = j div sectors_per_block d" and a: "allocated d (j div sectors_per_block d)"
    using off loc locate_sector [OF ok(1), of j] sector_in_table [OF ok(1) j]
    by (auto simp: Let_def allocated_def split: if_splits)
  have "region_start d i + region_bytes d \<le> length f" using a ok(2) i by (auto simp: vhd_layout_def)
  then have "region_start d i + j * QUUX_SECTOR mod q_block_bytes d div QUUX_SECTOR div 8 < length f"
    using bitmap_index [OF ok(1), of j] by linarith
  then have "region_start d i + j * QUUX_SECTOR mod q_block_bytes d div QUUX_SECTOR div 8
      < length (write_bytes off bs f)"
    by (meson Suc_leI Suc_le_lessD le_length_write_bytes)
  from mark_sector_quiet [OF q1 this] obtain k' f' where
    m: "mark_sector fd d i (j * QUUX_SECTOR) k1 = (Inr (), k')" and q': "quiet k' fd f'" by blast
  from write_existing_sector [OF ok j len f loc off w m] w m q'
  show "\<exists>k1 k' f'. write_at fd off bs k = (Inr (), k1) \<and>
      mark_sector fd d i (j * QUUX_SECTOR) k1 = (Inr (), k') \<and> quiet k' fd f' \<and> sector_written d f j bs d f'"
    by (auto simp: quiet_def)
qed

lemma quux_write_sectors_progress:
  assumes "quiet k fd f" and "vhd_shape d" "vhd_layout d f" "q_format d = QUUX_DYNAMIC_VHD"
    and "n < q_blocks d" and "length buf = QUUX_BLOCK_BYTES" and "set ss \<subseteq> {0, 1}"
    and "q_end d + length ss * region_bytes d < 0xFFFFFFFF * QUUX_SECTOR"
  shows "\<exists>d' k'. quux_write_sectors fd d n buf ss k = (Inr (), d', k')"
  using assms
proof (induction ss arbitrary: d k f)
  case Nil
  then show ?case by simp
next
  case (Cons s ss)
  let ?j = "2 * unat n + s" and ?bs = "take QUUX_SECTOR (drop (s * QUUX_SECTOR) buf)"
  have s: "s < 2" and ss: "set ss \<subseteq> {0, 1}" using Cons.prems(7) by auto
  have sat: "unat n * QUUX_BLOCK_BYTES + s * QUUX_SECTOR = ?j * QUUX_SECTOR" by simp
  have j: "?j < 2 * unat (q_blocks d)" using Cons.prems(5) s by (simp add: word_less_nat_alt)
  have len: "length ?bs = QUUX_SECTOR" using s Cons.prems(6) by auto
  have room: "q_end d div QUUX_SECTOR < 0xFFFFFFFF"
    using Cons.prems(8) by (intro less_mult_imp_div_less) simp
  obtain off i where loc: "locate d (?j * QUUX_SECTOR) = (off, i)" by (cases "locate d (?j * QUUX_SECTOR)")
  note step = write_sector_progress [OF Cons.prems(1-4) j len room loc]
  show ?case
  proof (cases "off = 0")
    case True
    from step(1) [OF this] obtain d1 k1 f1 where
      a: "allocate fd d i (?j * QUUX_SECTOR mod q_block_bytes d) ?bs k = (Inr d1, k1)"
      and q: "quiet k1 fd f1" and w: "sector_written d f ?j ?bs d1 f1"
      and e: "q_end d1 = q_end d + region_bytes d" "region_bytes d1 = region_bytes d" by blast
    have "\<exists>d' k'. quux_write_sectors fd d1 n buf ss k1 = (Inr (), d', k')"
      using w q Cons.prems(4-6,8) ss e
      by (intro Cons.IH [of k1 f1 d1]) (auto simp: sector_written_def)
    with a True loc show ?thesis by (auto simp: Let_def sat)
  next
    case False
    from step(2) [OF this] obtain k1 k2 f2 where
      a: "write_at fd off ?bs k = (Inr (), k1)" "mark_sector fd d i (?j * QUUX_SECTOR) k1 = (Inr (), k2)"
      and q: "quiet k2 fd f2" and w: "sector_written d f ?j ?bs d f2" by blast
    have "\<exists>d' k'. quux_write_sectors fd d n buf ss k2 = (Inr (), d', k')"
      using w q Cons.prems(4-6,8) ss
      by (intro Cons.IH [of k2 f2 d]) (auto simp: sector_written_def)
    with a False loc show ?thesis by (auto simp: Let_def sat)
  qed
qed

lemma quux_disk_write_quiet:
  assumes "quiet k fd f" and "vhd_ok d f" and "n < q_blocks d" and "length buf = QUUX_BLOCK_BYTES"
    and "q_end d + 2 * region_bytes d < 0xFFFFFFFF * QUUX_SECTOR"
  shows "\<exists>d' k'. quux_disk_write fd d n buf k = (Inr (), d', k')"
proof (cases "q_format d = QUUX_DYNAMIC_VHD")
  case True
  then have ok: "vhd_shape d" "vhd_layout d f" using assms(2) by (auto simp: vhd_ok_def)
  have "\<exists>d' k'. quux_write_sectors fd d n buf [0..<2] k = (Inr (), d', k')"
    using assms(5) by (intro quux_write_sectors_progress [OF assms(1) ok True assms(3,4)]) auto
  with True assms(3) show ?thesis by (auto simp: quux_disk_write_def not_le)
next
  case False
  with assms(3) write_at_quiet [OF assms(1), of "unat n * QUUX_BLOCK_BYTES" buf] show ?thesis
    by (auto simp: quux_disk_write_def not_le)
qed

section \<open>A write that fails\<close>

text \<open>Whatever a write reports, some prefix of its bytes is what went out.\<close>

lemma sys_pwrite_prefix:
  assumes "sys_pwrite fd out off k = (r, k')" and "fd_bytes k fd = Some f"
  shows "\<exists>m. fd_bytes k' fd = Some (write_bytes off (take m out) f)"
proof -
  obtain oc k1 where n: "next_outcome k = (oc, k1)" by (cases "next_outcome k")
  have same: "fd_bytes k1 fd = Some f"
    using same_files_fd_bytes [OF next_outcome_same [OF n]] assms(2) by simp
  have "k' = k1 \<or> (\<exists>m. k' = put_fd_bytes fd (write_bytes off (take m out) f) k1)"
    using assms(1) n same
    by (auto simp: sys_pwrite_def Let_def split: outcome.splits option.splits bool.splits)
       (metis take_all_iff order_refl)
  then show ?thesis
  proof
    assume "k' = k1"
    with same have "fd_bytes k' fd = Some (write_bytes off (take 0 out) f)"
      by (simp add: write_bytes_def)
    then show ?thesis by blast
  next
    assume "\<exists>m. k' = put_fd_bytes fd (write_bytes off (take m out) f) k1"
    then show ?thesis using fd_bytes_put [OF same] by blast
  qed
qed

lemma write_at_prefix:
  assumes "write_at fd at bs k = (r, k')" and "fd_bytes k fd = Some f"
  shows "\<exists>m. fd_bytes k' fd = Some (write_bytes at (take m bs) f)"
  using assms sys_pwrite_prefix [of fd bs at k _ _ f]
  by (fastforce simp: write_at_def split: prod.splits sum.splits)

text \<open>What a write outside the sectors \<open>J\<close> leaves of the disk.\<close>

definition view_kept :: "quux_disk \<Rightarrow> u8 list \<Rightarrow> nat set \<Rightarrow> u8 list \<Rightarrow> bool" where
  "view_kept d f J f' \<longleftrightarrow> length f \<le> length f' \<and>
     (\<forall>j < 2 * unat (q_blocks d). j \<notin> J \<longrightarrow> disk_sector d f' j = disk_sector d f j)"

lemma view_kept_refl [simp]: "view_kept d f J f"
  by (simp add: view_kept_def)

lemma view_kept_trans: "view_kept d f J f1 \<Longrightarrow> view_kept d f1 J f2 \<Longrightarrow> view_kept d f J f2"
  by (auto simp: view_kept_def)

lemma readable_longer: "readable d f \<Longrightarrow> length f \<le> length f' \<Longrightarrow> readable d f'"
  by (fastforce simp: readable_def)

lemma view_kept_poke:
  assumes "vhd_shape d" "q_format d = QUUX_DYNAMIC_VHD" "readable d f"
    and "\<And>j. j < 2 * unat (q_blocks d) \<Longrightarrow> j \<notin> J \<Longrightarrow> allocated d (j div sectors_per_block d) \<Longrightarrow>
      apart (sector_pos d j) QUUX_SECTOR at (length bs)"
  shows "view_kept d f J (write_bytes at bs f)"
proof -
  have "disk_sector d (write_bytes at bs f) j = disk_sector d f j"
    if j: "j < 2 * unat (q_blocks d)" "j \<notin> J" for j
  proof (cases "allocated d (j div sectors_per_block d)")
    case True
    then have "sector_pos d j + QUUX_SECTOR \<le> length f" using assms(3) j by (simp add: readable_def)
    with assms(4) [OF j True] have
      "read_bytes (sector_pos d j) QUUX_SECTOR (write_bytes at bs f) =
       read_bytes (sector_pos d j) QUUX_SECTOR f"
      by (intro read_write_apart) (auto simp: apart_def)
    then show ?thesis by (simp add: disk_sector_vhd assms(1,2))
  next
    case False
    then show ?thesis
      using sector_in_table [OF assms(1) j(1)] by (simp add: disk_sector_vhd assms(1,2) allocated_def)
  qed
  then show ?thesis by (simp add: view_kept_def le_length_write_bytes)
qed

lemma sector_before_end:
  assumes "vhd_shape d" "vhd_layout d f" "allocated d (j div sectors_per_block d)"
  shows "sector_pos d j + QUUX_SECTOR \<le> q_end d"
    and "apart (sector_pos d j) QUUX_SECTOR (q_table_offset d) (4 * q_entries d)"
  using sector_pos_bounds [OF assms(1), of j] assms(2,3)
  by (fastforce simp: vhd_layout_def, fastforce simp: vhd_layout_def apart_def)

text \<open>A failed allocation may leave bytes past the old end and in its own table entry only.\<close>

lemma allocate_failure:
  assumes ok: "vhd_shape d" "vhd_layout d f" "q_format d = QUUX_DYNAMIC_VHD"
    and i: "i < q_entries d" and f: "fd_bytes k fd = Some f"
    and a: "allocate fd d i in_block sector k = (Inl e, k')"
  shows "\<exists>f'. fd_bytes k' fd = Some f' \<and> view_kept d f {} f'"
proof -
  let ?block = "write_bytes (q_bitmap_bytes d + in_block) sector
    (replicate (q_bitmap_bytes d) 0xFF @ replicate (q_block_bytes d) 0)"
  have poke: "view_kept d f {} (write_bytes at bs f')"
    if v: "view_kept d f {} f'" and at: "q_end d \<le> at \<or>
      q_table_offset d \<le> at \<and> at + length bs \<le> q_table_offset d + 4 * q_entries d" for f' at bs
  proof (rule view_kept_trans [OF v view_kept_poke [OF ok(1,3)]])
    show "readable d f'" using readable_longer [OF vhd_readable [OF ok(1,2)]] v by (simp add: view_kept_def)
    show "apart (sector_pos d j) QUUX_SECTOR at (length bs)"
      if "allocated d (j div sectors_per_block d)" for j
      using sector_before_end [OF ok(1,2) that] at by (auto simp: apart_def)
  qed
  obtain mem k1 where al: "sys_alloc k = (mem, k1)" by (cases "sys_alloc k")
  have f1: "fd_bytes k1 fd = Some f"
    using same_files_fd_bytes [OF sys_alloc_same [OF al]] f by simp
  obtain r1 k2 where w1: "write_at fd (q_end d) ?block k1 = (r1, k2)"
    by (cases "write_at fd (q_end d) ?block k1")
  from write_at_prefix [OF w1 f1] obtain f2 where f2: "fd_bytes k2 fd = Some f2" "view_kept d f {} f2"
    using poke [OF view_kept_refl] by blast
  obtain r2 k3 where w2: "write_at fd (q_end d + region_bytes d) (q_footer d) k2 = (r2, k3)"
    by (cases "write_at fd (q_end d + region_bytes d) (q_footer d) k2")
  from write_at_prefix [OF w2 f2(1)] obtain f3 where f3: "fd_bytes k3 fd = Some f3" "view_kept d f {} f3"
    using poke [OF f2(2), of "q_end d + region_bytes d"] by auto
  obtain r3 k4 where s: "sys_fdatasync fd k3 = (r3, k4)" by (cases "sys_fdatasync fd k3")
  have f4: "fd_bytes k4 fd = Some f3" using same_files_fd_bytes [OF sys_fdatasync_same [OF s]] f3 by simp
  let ?entry = "put_be32 (of_nat (q_end d div QUUX_SECTOR))"
  obtain r4 k5 where w3: "write_at fd (q_table_offset d + 4 * i) ?entry k4 = (r4, k5)"
    by (cases "write_at fd (q_table_offset d + 4 * i) ?entry k4")
  from write_at_prefix [OF w3 f4] obtain f5 where f5: "fd_bytes k5 fd = Some f5" "view_kept d f {} f5"
    using poke [OF f3(2), of "q_table_offset d + 4 * i"] i by fastforce
  from a have "k' \<in> {k, k1, k2, k3, k4, k5}"
    by (auto simp: allocate_def Let_def al w1 w2 s w3 split: if_splits sum.splits option.splits)
  with f f1 f2 f3 f4 f5 show ?thesis by (auto intro: view_kept_refl)
qed

lemma mark_sector_any:
  assumes ok: "vhd_shape d" "vhd_layout d f" "q_format d = QUUX_DYNAMIC_VHD" and a: "allocated d i"
    and rd: "readable d f'" and f: "fd_bytes k fd = Some f'"
    and m: "mark_sector fd d i (j * QUUX_SECTOR) k = (r, k')"
  shows "\<exists>f''. fd_bytes k' fd = Some f'' \<and> view_kept d f' {} f''"
proof -
  let ?at = "region_start d i + j * QUUX_SECTOR mod q_block_bytes d div QUUX_SECTOR div 8"
  obtain r1 k1 where r: "read_at fd ?at 1 k = (r1, k1)" by (cases "read_at fd ?at 1 k")
  have "same_files k k1"
    using r sys_pread_same [of fd 1 ?at k] by (auto simp: read_at_def split: prod.splits sum.splits)
  then have f1: "fd_bytes k1 fd = Some f'" using f by (simp add: same_files_fd_bytes)
  from m r consider "k' = k1" | b r2 where "write_at fd ?at [b] k1 = (r2, k')"
    by (auto simp: mark_sector_def Let_def split: prod.splits sum.splits if_splits)
  then show ?thesis
  proof cases
    case 1
    with f1 show ?thesis by auto
  next
    case 2
    from write_at_prefix [OF this f1] obtain n where
      k': "fd_bytes k' fd = Some (write_bytes ?at (take n [b]) f')" by blast
    have "view_kept d f' {} (write_bytes ?at (take n [b]) f')"
      using bitmap_apart [OF ok(1,2) a] by (intro view_kept_poke [OF ok(1,3) rd]) simp
    with k' show ?thesis by blast
  qed
qed


lemma existing_sector_any:
  assumes ok: "vhd_shape d" "vhd_layout d f" "q_format d = QUUX_DYNAMIC_VHD"
    and len: "length bs = QUUX_SECTOR" and f: "fd_bytes k fd = Some f" and al: "allocated d i"
    and i: "i = j div sectors_per_block d"
    and w: "write_at fd (sector_pos d j) bs k = (r1, k1)"
    and mk: "mark_sector fd d i (j * QUUX_SECTOR) k1 = (r2, k2)"
  shows "\<exists>f1 f2. fd_bytes k1 fd = Some f1 \<and> view_kept d f {j} f1 \<and>
    fd_bytes k2 fd = Some f2 \<and> view_kept d f {j} f2"
proof -
  have rd: "readable d f" using vhd_readable [OF ok(1,2)] .
  from write_at_prefix [OF w f] obtain m where
    f1: "fd_bytes k1 fd = Some (write_bytes (sector_pos d j) (take m bs) f)" (is "_ = Some ?f1") by blast
  have v1: "view_kept d f {j} ?f1"
  proof (rule view_kept_poke [OF ok(1,3) rd])
    fix j' assume "j' \<notin> {j}" and a': "allocated d (j' div sectors_per_block d)"
    then have "j' \<noteq> j" by simp
    from sector_pos_apart [OF ok(1,2) this a'] al i
    show "apart (sector_pos d j') QUUX_SECTOR (sector_pos d j) (length (take m bs))"
      using len by (auto simp: apart_def)
  qed
  have "readable d ?f1" using readable_longer [OF rd] v1 by (simp add: view_kept_def)
  from mark_sector_any [OF ok al this f1 mk] obtain f2 where
    f2: "fd_bytes k2 fd = Some f2" "view_kept d ?f1 {} f2" by blast
  have "view_kept d f {j} f2" using v1 f2(2) by (auto simp: view_kept_def)
  with f1 v1 f2(1) show ?thesis by blast
qed

lemma quux_write_sectors_failure:
  assumes "quux_write_sectors fd d n buf ss k = (Inl e, d', k')"
    and "fd_bytes k fd = Some f" and "vhd_shape d" "vhd_layout d f" "q_format d = QUUX_DYNAMIC_VHD"
    and "n < q_blocks d" and "length buf = QUUX_BLOCK_BYTES" and "set ss \<subseteq> {0, 1}"
  shows "\<exists>f'. fd_bytes k' fd = Some f' \<and> vhd_shape d' \<and> readable d' f' \<and>
    q_format d' = q_format d \<and> q_blocks d' = q_blocks d \<and>
    (\<forall>j < 2 * unat (q_blocks d). j \<notin> {2 * unat n, 2 * unat n + 1} \<longrightarrow>
       disk_sector d' f' j = disk_sector d f j)"
  using assms
proof (induction ss arbitrary: d k f)
  case Nil
  then show ?case by simp
next
  case (Cons s ss)
  let ?j = "2 * unat n + s" and ?bs = "take QUUX_SECTOR (drop (s * QUUX_SECTOR) buf)"
  let ?J = "{2 * unat n, 2 * unat n + 1}"
  have s: "s < 2" and ss: "set ss \<subseteq> {0, 1}" and jJ: "?j \<in> ?J" using Cons.prems(8) by auto
  have sat: "unat n * QUUX_BLOCK_BYTES + s * QUUX_SECTOR = ?j * QUUX_SECTOR" by simp
  have j: "?j < 2 * unat (q_blocks d)" using Cons.prems(6) s by (simp add: word_less_nat_alt)
  have len: "length ?bs = QUUX_SECTOR" using s Cons.prems(7) by auto
  note ok = Cons.prems(3-5) and f = Cons.prems(2)
  have rd: "readable d f" using vhd_readable [OF ok(1,2)] .
  have stop: ?case if d': "d' = d" and f': "fd_bytes k' fd = Some f'" "view_kept d f ?J f'" for f'
    using that ok(1) readable_longer [OF rd] by (auto simp: view_kept_def)
  have go: ?case
    if w: "sector_written d f ?j ?bs d1 f1" and f1: "fd_bytes k1 fd = Some f1"
      and rest: "quux_write_sectors fd d1 n buf ss k1 = (Inl e, d', k')" for d1 k1 f1
  proof -
    have d1: "vhd_shape d1" "vhd_layout d1 f1" "q_format d1 = QUUX_DYNAMIC_VHD" "n < q_blocks d1"
      "q_blocks d1 = q_blocks d" "q_format d1 = q_format d"
      using w Cons.prems(5,6) by (auto simp: sector_written_def)
    from Cons.IH [OF rest f1 d1(1-4) Cons.prems(7) ss] w jJ d1 show ?thesis
      by (fastforce simp: sector_written_def)
  qed
  obtain off i where loc: "locate d (?j * QUUX_SECTOR) = (off, i)" by (cases "locate d (?j * QUUX_SECTOR)")
  have i: "i = ?j div sectors_per_block d" "i < q_entries d"
    using loc locate_sector [OF ok(1), of ?j] sector_in_table [OF ok(1) j] by (auto simp: Let_def)
  show ?case
  proof (cases "off = 0")
    case True
    obtain r k1 where a: "allocate fd d i (?j * QUUX_SECTOR mod q_block_bytes d) ?bs k = (r, k1)"
      by (cases "allocate fd d i (?j * QUUX_SECTOR mod q_block_bytes d) ?bs k")
    show ?thesis
    proof (cases r)
      case (Inl x)
      with Cons.prems(1) a loc True have "d' = d" "k' = k1" by (auto simp: Let_def sat)
      moreover obtain f' where "fd_bytes k1 fd = Some f'" "view_kept d f {} f'"
        using allocate_failure [OF ok i(2) f] a Inl by blast
      ultimately show ?thesis by (intro stop [of f']) (auto simp: view_kept_def)
    next
      case (Inr d1)
      with Cons.prems(1) a loc True have "quux_write_sectors fd d1 n buf ss k1 = (Inl e, d', k')"
        by (auto simp: Let_def sat)
      moreover obtain f1 where "fd_bytes k1 fd = Some f1" "sector_written d f ?j ?bs d1 f1"
        using write_fresh_sector [OF ok j len f] loc True a Inr by blast
      ultimately show ?thesis by (intro go)
    qed
  next
    case False
    have al: "allocated d i" and pos: "off = sector_pos d ?j"
      using False loc locate_sector [OF ok(1), of ?j] i
      by (auto simp: Let_def allocated_def sector_pos_def split: if_splits)
    obtain r1 k1 where w: "write_at fd off ?bs k = (r1, k1)" by (cases "write_at fd off ?bs k")
    obtain r2 k2 where mk: "mark_sector fd d i (?j * QUUX_SECTOR) k1 = (r2, k2)"
      by (cases "mark_sector fd d i (?j * QUUX_SECTOR) k1")
    from existing_sector_any [OF ok len f _ i(1) w [unfolded pos] mk] al obtain f1 f2 where
      f1: "fd_bytes k1 fd = Some f1" and v1: "view_kept d f {?j} f1"
      and f2: "fd_bytes k2 fd = Some f2" and v2: "view_kept d f {?j} f2" by blast
    have up: "view_kept d f ?J g" if "view_kept d f {?j} g" for g
      using that jJ by (auto simp: view_kept_def)
    from Cons.prems(1) loc False w mk consider "d' = d" "k' = k1" | "d' = d" "k' = k2"
      | "r1 = Inr ()" "r2 = Inr ()" "quux_write_sectors fd d n buf ss k2 = (Inl e, d', k')"
      by (cases r1; cases r2) (auto simp: Let_def sat)
    then show ?thesis
    proof cases
      case 1
      then show ?thesis using f1 up [OF v1] by (intro stop) auto
    next
      case 2
      then show ?thesis using f2 up [OF v2] by (intro stop) auto
    next
      case 3
      from write_existing_sector [OF ok j len f loc False] w mk 3 obtain f' where
        "fd_bytes k2 fd = Some f'" "sector_written d f ?j ?bs d f'" by blast
      then show ?thesis using 3(3) by (intro go)
    qed
  qed
qed


lemma quux_failed_write_blocks:
  assumes w: "quux_disk_write fd d n buf k = (Inl e, d', k')"
    and f: "fd_bytes k fd = Some f" and ok: "vhd_ok d f" and len: "length buf = QUUX_BLOCK_BYTES"
    and m: "m \<noteq> n" "m < q_blocks d"
  shows "q_blocks d' = q_blocks d \<and> quux_rd fd (d', k') m = Some (quux_block d f (unat m))"
proof (cases "q_blocks d \<le> n")
  case True
  with w have "d' = d" "k' = k" by (auto simp: quux_disk_write_def)
  then show ?thesis using quux_rd_block [OF f ok] m by simp
next
  case n: False
  have ne: "unat m \<noteq> unat n" using m(1) by (simp add: word_unat_eq_iff)
  show ?thesis
  proof (cases "q_format d = QUUX_DYNAMIC_VHD")
    case True
    have two: "set [0..<2] \<subseteq> {0, 1 :: nat}" by auto
    from w n True have "quux_write_sectors fd d n buf [0..<2] k = (Inl e, d', k')"
      by (simp add: quux_disk_write_def)
    from quux_write_sectors_failure [OF this f _ _ True _ len two] ok n True obtain f' where
      f': "fd_bytes k' fd = Some f'" "vhd_shape d'" "readable d' f'" "q_format d' = q_format d"
        "q_blocks d' = q_blocks d"
      and view: "\<forall>j < 2 * unat (q_blocks d). j \<notin> {2 * unat n, 2 * unat n + 1} \<longrightarrow>
        disk_sector d' f' j = disk_sector d f j"
      by (auto simp: vhd_ok_def not_le)
    have "2 * unat m + 1 < 2 * unat (q_blocks d)" using m(2) by (simp add: word_less_nat_alt)
    moreover have "2 * unat m + s \<notin> {2 * unat n, 2 * unat n + 1}" if "s < 2" for s
      using ne that by simp
    from this [of 0] this [of 1] have "quux_block d' f' (unat m) = quux_block d f (unat m)"
      using view calculation by (simp add: quux_block_def)
    moreover have "fd_bytes (k'\<lparr>k_script := []\<rparr>) fd = Some f'"
      using f'(1) same_files_fd_bytes [OF same_files_script] by metis
    ultimately show ?thesis
      using quux_block_readable [of "k'\<lparr>k_script := []\<rparr>" fd f' m d'] f' True m(2)
      by (simp add: quux_rd_def)
  next
    case False
    then obtain r where "write_at fd (unat n * QUUX_BLOCK_BYTES) buf k = (r, k')" and d': "d' = d"
      using w n by (cases "write_at fd (unat n * QUUX_BLOCK_BYTES) buf k")
        (auto simp: quux_disk_write_def split: sum.splits)
    from write_at_prefix [OF this(1) f] obtain c where
      f': "fd_bytes k' fd = Some (write_bytes (unat n * QUUX_BLOCK_BYTES) (take c buf) f)"
      (is "_ = Some ?f'") by blast
    have lf: "unat (q_blocks d) * QUUX_BLOCK_BYTES \<le> length f" using ok False by (simp add: vhd_ok_def)
    then have "vhd_ok d ?f'" using False le_length_write_bytes [OF lf] by (simp only: vhd_ok_def) simp
    moreover have "unat m * QUUX_BLOCK_BYTES + QUUX_BLOCK_BYTES \<le> length f"
      using m(2) lf by (auto simp: word_less_nat_alt)
    then have "read_bytes (unat m * QUUX_BLOCK_BYTES) QUUX_BLOCK_BYTES ?f' =
        read_bytes (unat m * QUUX_BLOCK_BYTES) QUUX_BLOCK_BYTES f"
      using ne len by (intro read_write_apart) auto
    then have "quux_block d ?f' (unat m) = quux_block d f (unat m)"
      using False by (simp add: quux_block_def disk_sector_def read_bytes_def mult.commute
             flip: take_add drop_drop)
    ultimately show ?thesis using quux_rd_block [OF f'] m(2) d' by simp
  qed
qed

end
