(* ===== verification/Quux_Disk_Open.thy ===== *)
theory Quux_Disk_Open
  imports Quux_Disk_Props
begin

text \<open>
  What opening a disk file establishes: whatever bytes the file holds, a disk that
  \<^verbatim>\<open>quux_disk_open\<close> accepts has its table inside the file, every allocated block before the
  point the file grows at, and the table in memory equal to the table in the file.
\<close>

unbundle bit_operations_syntax
section \<open>What an open accepts\<close>

lemma sys_fstat_size:
  "sys_fstat fd k = (Inr st, k') \<Longrightarrow> fd_bytes k fd = Some f \<Longrightarrow> st_size st = length f"
  using same_files_fd_bytes [OF next_outcome_same, of k _ "snd (next_outcome k)" fd]
  by (auto simp: sys_fstat_def stat_of_def fd_bytes_def split: prod.splits outcome.splits option.splits)

lemma read_at_same: "read_at fd at n k = (r, k') \<Longrightarrow> same_files k k'"
  by (auto simp: read_at_def dest: sys_pread_same split: prod.splits sum.splits)

text \<open>Four bytes read big-endian and written back are the same four bytes.\<close>

lemma be_4: "be b 4 = push_bit 24 (ucast (b ! 0)) OR push_bit 16 (ucast (b ! 1)) OR
    push_bit 8 (ucast (b ! 2)) OR ucast (b ! 3)"
  by (simp add: be_def upt_rec numeral_2_eq_2 numeral_3_eq_3 push_bit_or push_bit_push_bit ac_simps)

lemma put_be32_be: "4 \<le> length b \<Longrightarrow> put_be32 (ucast (be b 4)) = take 4 b"
proof -
  assume "4 \<le> length b"
  then obtain b0 b1 b2 b3 r where b: "b = b0 # b1 # b2 # b3 # r"
    by (cases b; cases "tl b"; cases "tl (tl b)"; cases "tl (tl (tl b))") auto
  define x :: u32 where "x = ucast (be b 4)"
  have v: "bit x n \<longleftrightarrow> n < 32 \<and> (if n < 8 then bit b3 n else if n < 16 then bit b2 (n - 8)
      else if n < 24 then bit b1 (n - 16) else bit b0 (n - 24))" for n
    unfolding x_def b be_4 by (auto simp: bit_simps not_less dest: bit_imp_le_length)
  have "ucast (drop_bit 24 x) = b0"
    by (rule bit_word_eqI) (simp add: bit_ucast_iff bit_drop_bit_eq v)
  moreover have "ucast (drop_bit 16 x) = b1"
    by (rule bit_word_eqI) (simp add: bit_ucast_iff bit_drop_bit_eq v)
  moreover have "ucast (drop_bit 8 x) = b2"
    by (rule bit_word_eqI) (simp add: bit_ucast_iff bit_drop_bit_eq v)
  moreover have "ucast x = b3"
    by (rule bit_word_eqI) (simp add: bit_ucast_iff v)
  ultimately show ?thesis by (simp add: put_be32_def b flip: x_def [unfolded b])
qed

lemma quux_probe_footers_len:
  assumes "quux_probe_footers fd k = (Inr (len, vhd), k')" and "fd_bytes k fd = Some f"
  shows "len = length f" and "fd_bytes k' fd = Some f"
    and "vhd = Some (type, sz, foot, end) \<Longrightarrow> end \<le> len \<and> (type \<noteq> 3 \<longrightarrow> end + QUUX_SECTOR = len)"
proof -
  from assms(1) obtain st k1 where st: "sys_fstat fd k = (Inr st, k1)" and len: "len = st_size st"
    and rest: "same_files k1 k'"
    by (auto simp: quux_probe_footers_def Let_def dest!: read_at_same
             split: prod.splits sum.splits if_splits option.splits intro: same_files_trans)
  show "len = length f" using sys_fstat_size [OF st assms(2)] len by simp
  have "same_files k k'" using sys_fstat_same [OF st] rest by (rule same_files_trans)
  then show "fd_bytes k' fd = Some f" using assms(2) by (simp add: same_files_fd_bytes)
next
  assume "vhd = Some (type, sz, foot, end)"
  with assms(1) show "end \<le> len \<and> (type \<noteq> 3 \<longrightarrow> end + QUUX_SECTOR = len)"
    by (auto simp: quux_probe_footers_def Let_def
             split: prod.splits sum.splits if_splits option.splits)
qed

lemma quux_probe_format_ok:
  assumes "quux_probe_format (len, vhd) = Inr d"
  shows "unat (q_blocks d) * QUUX_BLOCK_BYTES \<le> q_size d"
    and "unat (q_blocks d) = q_size d div QUUX_BLOCK_BYTES"
    and "vhd = None \<Longrightarrow> q_format d = QUUX_RAW \<and> q_size d = len"
    and "vhd = Some (type, sz, foot, end) \<Longrightarrow>
      (q_format d = QUUX_FIXED_VHD \<and> type = 2 \<and> sz \<le> end \<or> q_format d = QUUX_DYNAMIC_VHD \<and> type = 3) \<and>
      q_size d = sz \<and> q_end d = end \<and> q_footer d = foot"
proof -
  have "q_blocks d = of_nat (q_size d div QUUX_BLOCK_BYTES)"
    "q_size d div QUUX_BLOCK_BYTES \<le> QUUX_MAX_BLOCKS"
    using assms by (auto simp: quux_probe_format_def Let_def split: option.splits prod.splits if_splits)
  then show u: "unat (q_blocks d) = q_size d div QUUX_BLOCK_BYTES"
    by (auto simp: unat_of_nat)
  show "unat (q_blocks d) * QUUX_BLOCK_BYTES \<le> q_size d" by (simp add: u)
  show "vhd = None \<Longrightarrow> q_format d = QUUX_RAW \<and> q_size d = len"
    and "vhd = Some (type, sz, foot, end) \<Longrightarrow>
      (q_format d = QUUX_FIXED_VHD \<and> type = 2 \<and> sz \<le> end \<or> q_format d = QUUX_DYNAMIC_VHD \<and> type = 3) \<and>
      q_size d = sz \<and> q_end d = end \<and> q_footer d = foot"
    using assms by (auto simp: quux_probe_format_def Let_def split: if_splits)
qed

lemma round_sector: "x \<le> round_sector x" "round_sector x < x + QUUX_SECTOR" "QUUX_SECTOR dvd round_sector x"
proof -
  have "x + 511 = (x + 511) div 512 * 512 + (x + 511) mod 512" by simp
  moreover have "(x + 511) mod 512 < 512" by simp
  ultimately show "x \<le> round_sector x" "round_sector x < x + QUUX_SECTOR"
    by (simp_all add: round_sector_def)
  show "QUUX_SECTOR dvd round_sector x" by (simp add: round_sector_def)
qed

lemma quux_probe_dynamic_shape:
  assumes "quux_probe_dynamic fd d0 k = (Inr d, k')" and "unat (q_blocks d0) * QUUX_BLOCK_BYTES \<le> q_size d0"
    and "length t = q_entries d"
  shows "vhd_shape (d\<lparr>q_table := t\<rparr>)" and "same_files k k'"
    and "q_format d = q_format d0" "q_end d = round_sector (q_end d0)"
    and "q_table_offset d + 4 * q_entries d \<le> q_end d0"
proof -
  from assms(1) obtain toff entries bb where
    bb: "bb \<noteq> 0" "bb mod QUUX_SECTOR = 0" and e: "q_size d0 \<le> entries * bb"
    and toff: "toff \<le> q_end d0" "entries \<le> (q_end d0 - toff) div 4"
    and d: "d = d0\<lparr>q_table_offset := toff, q_block_bytes := bb, q_entries := (q_size d0 + bb - 1) div bb,
        q_bitmap_bytes := round_sector ((bb div QUUX_SECTOR + 7) div 8), q_end := round_sector (q_end d0)\<rparr>"
    by (auto simp: quux_probe_dynamic_def Let_def not_less split: if_splits prod.splits sum.splits)
  let ?n = "(bb div QUUX_SECTOR + 7) div 8"
  have "0 < bb div QUUX_SECTOR" using bb by (auto simp: div_greater_zero_iff dest: mod_eq_self_iff_div_eq_0 [THEN iffD2])
  then have "0 < ?n" by simp
  moreover have "bb div QUUX_SECTOR \<le> 8 * ?n" by simp
  moreover have "?n \<le> round_sector ?n" by (rule round_sector)
  ultimately have bm: "0 < round_sector ?n" "bb div QUUX_SECTOR \<le> 8 * round_sector ?n" by linarith+
  have sz: "q_size d0 \<le> (q_size d0 + bb - 1) div bb * bb"
  proof -
    have "q_size d0 + bb - 1 = (q_size d0 + bb - 1) div bb * bb + (q_size d0 + bb - 1) mod bb" by simp
    moreover have "(q_size d0 + bb - 1) mod bb < bb" using bb by simp
    ultimately show ?thesis by linarith
  qed
  show "vhd_shape (d\<lparr>q_table := t\<rparr>)"
    using bb bm sz assms(2,3) round_sector(3)
    by (auto simp: vhd_shape_def d dvd_eq_mod_eq_0 [symmetric])
  have "(q_size d0 + bb - 1) div bb \<le> entries"
  proof -
    have "q_size d0 + bb - 1 < Suc entries * bb" using e bb by (simp add: less_eq_Suc_le)
    then show ?thesis using less_mult_imp_div_less less_Suc_eq_le by blast
  qed
  then show "q_table_offset d + 4 * q_entries d \<le> q_end d0" using toff by (simp add: d)
  show "q_format d = q_format d0" "q_end d = round_sector (q_end d0)" by (simp_all add: d)
  show "same_files k k'"
    using assms(1) by (auto simp: quux_probe_dynamic_def Let_def dest: read_at_same
        split: if_splits prod.splits sum.splits)
qed


lemma quux_check_table_ok:
  assumes "quux_check_table d raw is = Inr t"
  shows "t = map (\<lambda>i. ucast (be (drop (4 * i) raw) 4)) is"
    and "\<forall>e \<in> set t. e = UNALLOCATED \<or> unat e * QUUX_SECTOR + region_bytes d \<le> q_end d"
  using assms
  by (induction "is" arbitrary: t) (auto simp: Let_def not_less split: if_splits sum.splits)

text \<open>The bytes a table was read from are its entries, big-endian.\<close>

lemma table_mirror:
  assumes "i < n" and "off + 4 * n \<le> length f"
  shows "read_bytes (off + 4 * i) 4 f = put_be32 (ucast (be (drop (4 * i) (read_bytes off (4 * n) f)) 4))"
proof -
  let ?b = "drop (4 * i) (read_bytes off (4 * n) f)"
  have "4 \<le> length ?b" using assms by simp
  then have "put_be32 (ucast (be ?b 4)) = take 4 ?b" by (rule put_be32_be)
  also have "\<dots> = read_bytes (off + 4 * i) 4 f"
    using assms(1) by (simp add: read_bytes_def drop_take min_def add.commute)
  finally show ?thesis by simp
qed

definition vhd_opened :: "quux_disk \<Rightarrow> u8 list \<Rightarrow> bool" where
  "vhd_opened d f \<longleftrightarrow>
     vhd_shape d \<and>
     q_table_offset d + 4 * q_entries d \<le> q_end d \<and>
     q_table_offset d + 4 * q_entries d \<le> length f \<and>
     q_end d < length f + QUUX_SECTOR \<and>
     (\<forall>i. allocated d i \<longrightarrow> region_start d i + region_bytes d \<le> q_end d) \<and>
     (\<forall>i < q_entries d. read_bytes (q_table_offset d + 4 * i) 4 f = put_be32 (q_table d ! i))"

lemma quux_disk_open_dynamic:
  assumes p: "quux_probe_dynamic fd d0 k = (Inr d, k1)"
    and bl: "unat (q_blocks d0) * QUUX_BLOCK_BYTES \<le> q_size d0" and e: "q_end d0 \<le> length f"
    and same: "same_files k1 k2" and f: "fd_bytes k fd = Some f"
    and r: "read_at fd (q_table_offset d) (q_entries d * 4) k2 = (Inr raw, k3)"
    and t: "quux_check_table d raw [0..<q_entries d] = Inr t"
  shows "vhd_opened (d\<lparr>q_table := t\<rparr>) f"
proof -
  have len: "length t = q_entries d" using quux_check_table_ok(1) [OF t] by simp
  note pd = quux_probe_dynamic_shape [OF p bl len]
  have "fd_bytes k2 fd = Some f"
    using same_files_fd_bytes [OF same_files_trans [OF pd(2) same]] f by simp
  then have raw: "raw = read_bytes (q_table_offset d) (4 * q_entries d) f"
    using read_at_bytes(1) [OF r] by (simp add: mult.commute)
  have room: "q_table_offset d + 4 * q_entries d \<le> length f" using pd(5) e by simp
  have mirror: "read_bytes (q_table_offset d + 4 * i) 4 f = put_be32 (t ! i)" if "i < q_entries d" for i
    using table_mirror [OF that room] that by (simp add: quux_check_table_ok(1) [OF t] raw)
  have past: "region_start (d\<lparr>q_table := t\<rparr>) i + region_bytes d \<le> q_end d"
    if "allocated (d\<lparr>q_table := t\<rparr>) i" for i
    using that quux_check_table_ok(2) [OF t] len by (auto simp: allocated_def)
  show ?thesis
    unfolding vhd_opened_def
    using pd(1,4,5) e round_sector [of "q_end d0"] room mirror past by auto
qed

lemma quux_probe_dynamic_format:
  "quux_probe_dynamic fd d0 k = (Inr d, k') \<Longrightarrow> q_format d = q_format d0"
  by (auto simp: quux_probe_dynamic_def Let_def split: if_splits prod.splits sum.splits)

lemma quux_disk_open_ok:
  assumes o: "quux_disk_open fd k = (Inr d, k')" and f: "fd_bytes k fd = Some f"
  shows "if q_format d = QUUX_DYNAMIC_VHD then vhd_opened d f else vhd_ok d f"
proof -
  from o obtain len vhd k1 d0 where
    ft: "quux_probe_footers fd k = (Inr (len, vhd), k1)" and pf: "quux_probe_format (len, vhd) = Inr d0"
    by (auto simp: quux_disk_open_def quux_disk_probe_def split: prod.splits sum.splits if_splits)
  note fl = quux_probe_footers_len [OF ft f]
  have "end": "q_end d0 \<le> length f" if "q_format d0 = QUUX_DYNAMIC_VHD"
    using that quux_probe_format_ok(3,4) [OF pf] fl(1,3) by (cases vhd) auto
  show ?thesis
  proof (cases "q_format d0 = QUUX_DYNAMIC_VHD")
    case True
    from o ft pf True obtain d1 k2 m1 k3 k4 raw t where
      p: "quux_probe_dynamic fd d0 k1 = (Inr d1, k2)" and m: "sys_alloc k2 = (m1, k3)" "sys_alloc k3 = (True, k4)"
      and r: "read_at fd (q_table_offset d1) (q_entries d1 * 4) k4 = (Inr raw, k')"
      and t: "quux_check_table d1 raw [0..<q_entries d1] = Inr t"
      and d: "d = d1\<lparr>q_table := t\<rparr>" and dyn: "q_format d1 = QUUX_DYNAMIC_VHD"
      using quux_probe_dynamic_format [of fd d0 k1]
      by (auto simp: quux_disk_open_def quux_disk_probe_def Let_def
          split: prod.splits sum.splits if_splits)
    have "same_files k2 k4" using sys_alloc_same [OF m(1)] sys_alloc_same [OF m(2)] by (rule same_files_trans)
    from quux_disk_open_dynamic [OF p quux_probe_format_ok(1) [OF pf] "end" [OF True] this fl(2) r t] d dyn
    show ?thesis by simp
  next
    case False
    then have d: "d = d0" using o ft pf
      by (auto simp: quux_disk_open_def quux_disk_probe_def split: prod.splits sum.splits if_splits)
    have "q_size d0 \<le> length f"
      using False quux_probe_format_ok(3,4) [OF pf] fl(1,3) by (cases vhd) auto
    with quux_probe_format_ok(1) [OF pf] False d show ?thesis by (simp add: vhd_ok_def)
  qed
qed

lemma quux_write_sectors_keeps_blocks:
  "quux_write_sectors fd d n buf ss k = (r, d', k') \<Longrightarrow> q_blocks d' = q_blocks d"
  by (induction ss arbitrary: d k)
    (fastforce simp: Let_def allocate_def split: prod.splits sum.splits if_splits option.splits)+

lemma quux_disk_write_keeps_blocks:
  "quux_disk_write fd d n buf k = (r, d', k') \<Longrightarrow> q_blocks d' = q_blocks d"
  by (auto simp: quux_disk_write_def dest: quux_write_sectors_keeps_blocks
           split: prod.splits sum.splits if_splits)

section \<open>A small disk\<close>

text \<open>
  A dynamic VHD of two 1,024-byte blocks in four blocks of one sector each, none allocated:
  the table at the start of the file, the footer's place at 512.
\<close>

definition small_disk :: quux_disk where
  "small_disk =
     \<lparr>q_format = QUUX_DYNAMIC_VHD, q_size = 2048, q_blocks = 2,
      q_table = replicate 4 UNALLOCATED, q_entries = 4, q_table_offset = 0,
      q_block_bytes = 512, q_bitmap_bytes = 512, q_end = 512, q_footer = replicate 512 0\<rparr>"

definition small_file :: "u8 list" where
  "small_file = replicate 16 0xFF @ replicate 496 0"

definition one_file :: "u8 list \<Rightarrow> outcome list \<Rightarrow> kernel" where
  "one_file bs script =
     \<lparr>k_names = (\<lambda>_. None),
      k_inodes = (\<lambda>i. if i = (0, 0) then Some \<lparr>i_bytes = bs, i_nlink = 1, i_mode = 0, i_reg = True\<rparr> else None),
      k_fds = [Some ((0, 0), True)], k_script = script\<rparr>"

lemma one_file_bytes [simp]: "fd_bytes (one_file bs script) 0 = Some bs"
  by (simp add: one_file_def fd_bytes_def fd_inode_def)

lemma one_file_inode [simp]: "k_inodes (one_file bs script) (0, 0) =
    Some \<lparr>i_bytes = bs, i_nlink = 1, i_mode = 0, i_reg = True\<rparr>"
  by (simp add: one_file_def)

lemma one_file_quiet [simp]: "quiet (one_file bs []) 0 bs"
  by (simp add: quiet_def one_file_def fd_bytes_def fd_inode_def)

lemma small_disk_ok [simp]: "vhd_ok small_disk small_file"
proof -
  have "read_bytes (4 * i) 4 small_file = put_be32 0xFFFFFFFF" if "i < 4" for i
  proof -
    have "min (16 - 4 * i) 4 = 4" using that by simp
    moreover have "put_be32 0xFFFFFFFF = replicate 4 0xFF" by code_simp
    ultimately show ?thesis using that by (simp add: read_bytes_def small_file_def)
  qed
  moreover have "vhd_shape small_disk" by (simp add: vhd_shape_def small_disk_def)
  moreover have "\<not> allocated small_disk i" for i by (auto simp: allocated_def small_disk_def)
  ultimately show ?thesis
    by (auto simp: vhd_ok_def vhd_layout_def small_disk_def small_file_def)
qed

lemma small_disk_inv [simp]: "quux_inv 0 (small_disk, one_file small_file script)"
  by (auto simp: quux_inv_def)

section \<open>The contract\<close>





text \<open>
  In a system where no call fails, a write of a block of the disk succeeds, as long as the
  file has not grown to where a table entry can no longer name a sector.
\<close>

theorem quux_write_completes:
  assumes "quiet k fd f" and "vhd_ok d f" and "n < q_blocks d" and "length buf = QUUX_BLOCK_BYTES"
    and "q_end d + 2 * (q_bitmap_bytes d + q_block_bytes d) < 0xFFFFFFFF * QUUX_SECTOR"
  shows "\<exists>d' k'. quux_disk_write fd d n buf k = (Inr (), d', k')"
  using quux_disk_write_quiet [OF assms] .

theorem quux_write_completes_witness:
  "\<exists>d' k'. quux_disk_write 0 small_disk 0 (replicate 1024 7) (one_file small_file []) = (Inr (), d', k')"
  using quux_write_completes [OF one_file_quiet small_disk_ok, of 0 "replicate 1024 7"]
  by (simp add: small_disk_def)

text \<open>
  C6. Whatever bytes a file holds, and whichever calls fail, a disk that \<^verbatim>\<open>quux_disk_open\<close>
  accepts is sound: raw and fixed, its blocks are all inside the file; dynamic, the sizes are
  whole sectors, the table reaches the disk's size and lies inside the file, every allocated
  block ends before the point the file grows at, and the table in memory is the file's.
\<close>

theorem quux_open_sound:
  assumes "quux_disk_open fd k = (Inr d, k')" and "fd_bytes k fd = Some f"
  shows "if q_format d = QUUX_DYNAMIC_VHD then vhd_opened d f else vhd_ok d f"
  using quux_disk_open_ok [OF assms] .

theorem quux_open_sound_witness:
  "\<exists>d k'. quux_disk_open 0 (one_file (replicate 2048 0) []) = (Inr d, k') \<and> q_blocks d = 2 \<and>
     vhd_ok d (replicate 2048 0)"
proof -
  let ?k = "one_file (replicate 2048 0) []"
  have ne: "replicate 8 (0 :: u8) \<noteq> ascii ''vhdxfile''" "replicate 8 (0 :: u8) \<noteq> ascii ''conectix''"
    by (code_simp)+
  have "k_script ?k = []" "fd_inode ?k 0 = Some ((0, 0), True)"
    by (simp_all add: one_file_def fd_inode_def)
  then have "quux_disk_open 0 ?k = (Inr (quux_disk_zero\<lparr>q_size := 2048, q_blocks := 2\<rparr>), ?k)"
    using ne by (simp add: quux_disk_open_def quux_disk_probe_def quux_probe_footers_def sys_fstat_def
        next_outcome_quiet read_at_quiet read_bytes_def footer_def quux_probe_format_def quux_disk_zero_def Let_def
        stat_of_def one_file_inode)
  with quux_open_sound [OF this one_file_bytes] show ?thesis by (auto simp: quux_disk_zero_def)
qed

end
