(* ===== verification/Pack_File.thy ===== *)
theory Pack_File
  imports Pack_Ecc Quux_Disk_Open
begin

text \<open>
  \<^verbatim>\<open>pack_file.c\<close>: the pack, a file of 1,024-byte blocks whose geometry is told by its size, and
  the two tables of sectors whose header or data checkword is not the format's own.  The file
  and the tables together are what \<^verbatim>\<open>pack_record\<close> reads and \<^verbatim>\<open>pack_writeback\<close> writes; QUUX's disk
  goes through the same operations with no geometry and no tables.
\<close>

unbundle bit_operations_syntax

section \<open>Geometry\<close>

abbreviation (input) PACK_BLOCK_WORDS :: nat where "PACK_BLOCK_WORDS \<equiv> 256"
abbreviation (input) PACK_BLOCK_BYTES :: nat where "PACK_BLOCK_BYTES \<equiv> 1024"
abbreviation (input) PACK_RECORD_WORDS :: nat where "PACK_RECORD_WORDS \<equiv> 259"

record pack_geometry =
  cylinders :: u32
  heads :: u32
  blocks_per_track :: u32

definition PACK_T80 :: pack_geometry where
  "PACK_T80 = \<lparr>cylinders = 815, heads = 5, blocks_per_track = 17\<rparr>"

definition PACK_T300 :: pack_geometry where
  "PACK_T300 = \<lparr>cylinders = 815, heads = 19, blocks_per_track = 17\<rparr>"

definition pack_size_of :: "pack_geometry \<Rightarrow> u64" where
  "pack_size_of g = ucast (cylinders g) * ucast (heads g) * ucast (blocks_per_track g) * 1024"

definition pack_geometry_of_size :: "u64 \<Rightarrow> pack_geometry option" where
  "pack_geometry_of_size bytes =
     (if bytes = pack_size_of PACK_T300 then Some PACK_T300
      else if bytes = pack_size_of PACK_T80 then Some PACK_T80
      else None)"

definition pack_lba :: "pack_geometry \<Rightarrow> u32 \<Rightarrow> u32 \<Rightarrow> u32 \<Rightarrow> u32 option" where
  "pack_lba g c h b =
     (if cylinders g \<le> c \<or> heads g \<le> h \<or> blocks_per_track g \<le> b then None
      else Some (c * heads g * blocks_per_track g + h * blocks_per_track g + b))"

definition pack_chb :: "pack_geometry \<Rightarrow> u32 \<Rightarrow> u32 \<times> u32 \<times> u32" where
  "pack_chb g lba =
     (let per_cyl = heads g * blocks_per_track g
      in (lba div per_cyl, lba mod per_cyl div blocks_per_track g, lba mod blocks_per_track g))"

definition next_block_code :: "pack_geometry \<Rightarrow> u32 \<Rightarrow> u32 \<Rightarrow> u32 \<Rightarrow> u32" where
  "next_block_code g c h b =
     (if b + 1 < blocks_per_track g then 0
      else if h + 1 < heads g then 1
      else if c + 1 < cylinders g then 2
      else 3)"

definition pack_header_of :: "pack_geometry \<Rightarrow> u32 \<Rightarrow> u32 \<Rightarrow> u32 \<Rightarrow> u32" where
  "pack_header_of g c h b =
     push_bit 30 (next_block_code g c h b) OR push_bit 16 (c AND 0xFFF) OR
     push_bit 8 (h AND 0xFF) OR (b AND 0xFF)"

section \<open>The pack\<close>

record pack_header_entry =
  he_lba :: u32
  he_word :: u32
  he_checkword :: u32

record pack_dck_entry =
  de_lba :: u32
  de_checkword :: u32

text \<open>
  \<^verbatim>\<open>struct pack\<close>.  A table is the list of its first \<^verbatim>\<open>n_headers\<close> entries, and \<open>p_cap_headers\<close> how
  many it has room for; likewise \<open>p_dcks\<close>.
\<close>

record pack =
  p_fd :: int
  p_writable :: bool
  p_g :: pack_geometry
  p_blocks :: u32
  p_dev :: nat
  p_ino :: nat
  p_size :: nat
  p_headers :: "pack_header_entry list"
  p_cap_headers :: nat
  p_dcks :: "pack_dck_entry list"
  p_cap_dcks :: nat
  p_quux :: bool
  p_q :: quux_disk

datatype pack_err =
    Pack_os string nat
  | Pack_bytes string nat
  | Pack_quux string quux_err
  | Pack_unsaid string
  | Pack_replaced string
  | Pack_off u32 u32
  | Pack_disk quux_err
  | Pack_read u32 "nat option"
  | Pack_write u32 "nat option"
  | Pack_read_only
  | Pack_no_headers
  | Pack_no_checkwords
  | Pack_after u32 nat
  | Pack_sync nat

definition pack_zero :: pack where
  "pack_zero =
     \<lparr>p_fd = 0, p_writable = False,
      p_g = \<lparr>cylinders = 0, heads = 0, blocks_per_track = 0\<rparr>, p_blocks = 0,
      p_dev = 0, p_ino = 0, p_size = 0, p_headers = [], p_cap_headers = 0,
      p_dcks = [], p_cap_dcks = 0, p_quux = False, p_q = quux_disk_zero\<rparr>"

text \<open>
  An open that fails after the descriptor was there leaves its number in the struct, closed
  (\<^verbatim>\<open>pack_open\<close>), or -1 (\<^verbatim>\<open>pack_open_quux\<close>).  \<open>Pack_unsaid\<close> is the message of a failing
  \<^verbatim>\<open>fstat\<close>, which prints a buffer nothing has written.
\<close>

definition pack_open :: "string \<Rightarrow> bool \<Rightarrow> kernel \<Rightarrow> (pack_err + unit) \<times> pack \<times> kernel" where
  "pack_open path writable k0 =
     (case sys_open path writable k0 of
        (Inl e, k) \<Rightarrow> (Inl (Pack_os path e), pack_zero\<lparr>p_fd := -1\<rparr>, k)
      | (Inr fd, k) \<Rightarrow>
          (let p = pack_zero\<lparr>p_fd := fd\<rparr>
           in case sys_fstat fd k of
                (Inl e, k) \<Rightarrow> (Inl (Pack_os path e), p, sys_close fd k)
              | (Inr st, k) \<Rightarrow>
                  (case pack_geometry_of_size (of_nat (st_size st)) of
                     None \<Rightarrow> (Inl (Pack_bytes path (st_size st)), p, sys_close fd k)
                   | Some g \<Rightarrow>
                       (Inr (), p\<lparr>p_g := g, p_writable := writable,
                          p_blocks := cylinders g * heads g * blocks_per_track g,
                          p_dev := st_dev st, p_ino := st_ino st, p_size := st_size st\<rparr>, k))))"

definition pack_open_quux :: "string \<Rightarrow> bool \<Rightarrow> kernel \<Rightarrow> (pack_err + unit) \<times> pack \<times> kernel" where
  "pack_open_quux path writable k0 =
     (case sys_open path writable k0 of
        (Inl e, k) \<Rightarrow> (Inl (Pack_os path e), pack_zero\<lparr>p_fd := -1\<rparr>, k)
      | (Inr fd, k) \<Rightarrow>
          (case sys_fstat fd k of
             (Inl e, k) \<Rightarrow> (Inl (Pack_unsaid path), pack_zero\<lparr>p_fd := -1\<rparr>, sys_close fd k)
           | (Inr st, k) \<Rightarrow>
               (case quux_disk_open fd k of
                  (Inl e, k) \<Rightarrow> (Inl (Pack_quux path e), pack_zero\<lparr>p_fd := -1\<rparr>, sys_close fd k)
                | (Inr q, k) \<Rightarrow>
                    (Inr (), pack_zero\<lparr>p_fd := fd, p_q := q, p_quux := True, p_writable := writable,
                       p_blocks := q_blocks q, p_dev := st_dev st, p_ino := st_ino st,
                       p_size := st_size st\<rparr>, k))))"

definition pack_alive :: "pack \<Rightarrow> kernel \<Rightarrow> bool \<times> kernel" where
  "pack_alive p k0 =
     (if p_fd p < 0 then (False, k0)
      else case sys_fstat (p_fd p) k0 of
             (Inl e, k) \<Rightarrow> (False, k)
           | (Inr st, k) \<Rightarrow> (0 < st_nlink st, k))"

definition pack_reopen :: "pack \<Rightarrow> string \<Rightarrow> bool \<Rightarrow> kernel \<Rightarrow> (pack_err + unit) \<times> pack \<times> kernel" where
  "pack_reopen p path writable k0 =
     (case sys_open path writable k0 of
        (Inl e, k) \<Rightarrow> (Inl (Pack_os path e), p, k)
      | (Inr fd, k) \<Rightarrow>
          (case sys_fstat fd k of
             (Inl e, k) \<Rightarrow> (Inl (Pack_os path e), p, sys_close fd k)
           | (Inr st, k) \<Rightarrow>
               (if st_dev st \<noteq> p_dev p \<or> st_ino st \<noteq> p_ino p \<or> st_size st \<noteq> p_size p
                then (Inl (Pack_replaced path), p, sys_close fd k)
                else (Inr (), p\<lparr>p_fd := fd, p_writable := writable\<rparr>, sys_close (p_fd p) k))))"

definition pack_close :: "pack \<Rightarrow> kernel \<Rightarrow> pack \<times> kernel" where
  "pack_close p k =
     (pack_zero\<lparr>p_fd := -1\<rparr>, if 0 \<le> p_fd p then sys_close (p_fd p) k else k)"

section \<open>The tables\<close>

text \<open>The place of the entry for a block, as the C returns a pointer to it.\<close>

fun entry_index :: "('a \<Rightarrow> u32) \<Rightarrow> u32 \<Rightarrow> 'a list \<Rightarrow> nat option" where
  "entry_index lba_of lba [] = None"
| "entry_index lba_of lba (e # es) =
     (if lba_of e = lba then Some 0 else map_option Suc (entry_index lba_of lba es))"

definition header_find :: "pack \<Rightarrow> u32 \<Rightarrow> nat option" where
  "header_find p lba = entry_index he_lba lba (p_headers p)"

definition dck_find :: "pack \<Rightarrow> u32 \<Rightarrow> nat option" where
  "dck_find p lba = entry_index de_lba lba (p_dcks p)"

text \<open>Removal puts the last entry in the place of the one that goes.\<close>

definition header_remove :: "pack \<Rightarrow> u32 \<Rightarrow> pack" where
  "header_remove p lba =
     (case header_find p lba of None \<Rightarrow> p
      | Some i \<Rightarrow> p\<lparr>p_headers := butlast ((p_headers p)[i := last (p_headers p)])\<rparr>)"

definition dck_remove :: "pack \<Rightarrow> u32 \<Rightarrow> pack" where
  "dck_remove p lba =
     (case dck_find p lba of None \<Rightarrow> p
      | Some i \<Rightarrow> p\<lparr>p_dcks := butlast ((p_dcks p)[i := last (p_dcks p)])\<rparr>)"

definition table_cap :: "nat \<Rightarrow> nat" where
  "table_cap cap = (if cap \<noteq> 0 then 2 * cap else 16)"

text \<open>An insertion says whether there was room for it.\<close>

definition header_insert :: "pack \<Rightarrow> u32 \<Rightarrow> u32 \<Rightarrow> u32 \<Rightarrow> kernel \<Rightarrow> bool \<times> pack \<times> kernel" where
  "header_insert p lba word checkword k0 =
     (let e = \<lparr>he_lba = lba, he_word = word, he_checkword = checkword\<rparr>
      in case header_find p lba of
           Some i \<Rightarrow> (True, p\<lparr>p_headers := (p_headers p)[i := e]\<rparr>, k0)
         | None \<Rightarrow>
             if length (p_headers p) = p_cap_headers p then
               (case sys_alloc k0 of
                  (False, k) \<Rightarrow> (False, p, k)
                | (True, k) \<Rightarrow>
                    (True, p\<lparr>p_headers := p_headers p @ [e],
                             p_cap_headers := table_cap (p_cap_headers p)\<rparr>, k))
             else (True, p\<lparr>p_headers := p_headers p @ [e]\<rparr>, k0))"

definition dck_insert :: "pack \<Rightarrow> u32 \<Rightarrow> u32 \<Rightarrow> kernel \<Rightarrow> bool \<times> pack \<times> kernel" where
  "dck_insert p lba checkword k0 =
     (let e = \<lparr>de_lba = lba, de_checkword = checkword\<rparr>
      in case dck_find p lba of
           Some i \<Rightarrow> (True, p\<lparr>p_dcks := (p_dcks p)[i := e]\<rparr>, k0)
         | None \<Rightarrow>
             if length (p_dcks p) = p_cap_dcks p then
               (case sys_alloc k0 of
                  (False, k) \<Rightarrow> (False, p, k)
                | (True, k) \<Rightarrow>
                    (True, p\<lparr>p_dcks := p_dcks p @ [e], p_cap_dcks := table_cap (p_cap_dcks p)\<rparr>, k))
             else (True, p\<lparr>p_dcks := p_dcks p @ [e]\<rparr>, k0))"

section \<open>Record and write-back\<close>

definition pack_record :: "pack \<Rightarrow> u32 \<Rightarrow> kernel \<Rightarrow> (pack_err + u32 list) \<times> kernel" where
  "pack_record p lba k0 =
     (if p_blocks p \<le> lba then (Inl (Pack_off lba (p_blocks p)), k0)
      else if p_quux p then
        (case quux_disk_read (p_fd p) (p_q p) lba k0 of
           (Inl e, k) \<Rightarrow> (Inl (Pack_disk e), k)
         | (Inr bytes, k) \<Rightarrow> (Inr (words_of_bytes PACK_BLOCK_WORDS bytes @ [0, 0, 0]), k))
      else
        (case sys_pread (p_fd p) PACK_BLOCK_BYTES (unat lba * PACK_BLOCK_BYTES) k0 of
           (Inl e, k) \<Rightarrow> (Inl (Pack_read lba (Some e)), k)
         | (Inr bytes, k) \<Rightarrow>
             (if length bytes \<noteq> PACK_BLOCK_BYTES then (Inl (Pack_read lba None), k)
              else let words = words_of_bytes PACK_BLOCK_WORDS bytes;
                       (w, cw) =
                         (case header_find p lba of
                            Some i \<Rightarrow> (he_word (p_headers p ! i), he_checkword (p_headers p ! i))
                          | None \<Rightarrow>
                              (let (c, h, b) = pack_chb (p_g p) lba;
                                   own = pack_header_of (p_g p) c h b
                               in (own, ecc_over_words [own])));
                       dck = (case dck_find p lba of
                                Some i \<Rightarrow> de_checkword (p_dcks p ! i)
                              | None \<Rightarrow> ecc_over_words words)
                   in (Inr (words @ [w, cw, dck]), k))))"

text \<open>The write-back of QUUX's disk: the block, the file's size again, and the sync.\<close>

definition pack_writeback_quux ::
    "pack \<Rightarrow> u32 \<Rightarrow> u32 list \<Rightarrow> kernel \<Rightarrow> (pack_err + unit) \<times> pack \<times> kernel" where
  "pack_writeback_quux p lba words k0 =
     (case quux_disk_write (p_fd p) (p_q p) lba (bytes_of_words (take PACK_BLOCK_WORDS words)) k0 of
        (Inl e, q, k) \<Rightarrow> (Inl (Pack_disk e), p\<lparr>p_q := q\<rparr>, k)
      | (Inr _, q, k) \<Rightarrow>
          (case sys_fstat (p_fd p) k of
             (Inl e, k) \<Rightarrow> (Inl (Pack_after lba e), p\<lparr>p_q := q\<rparr>, k)
           | (Inr st, k) \<Rightarrow>
               (case sys_fdatasync (p_fd p) k of
                  (r, k) \<Rightarrow>
                    (case sync_failed r of
                       Some e \<Rightarrow> (Inl (Pack_sync e), p\<lparr>p_q := q, p_size := st_size st\<rparr>, k)
                     | None \<Rightarrow> (Inr (), p\<lparr>p_q := q, p_size := st_size st\<rparr>, k)))))"

text \<open>The header into its table or out of it, then the data checkword likewise.\<close>

definition pack_lay_header ::
    "pack \<Rightarrow> u32 \<Rightarrow> u32 list \<Rightarrow> kernel \<Rightarrow> bool \<times> pack \<times> kernel" where
  "pack_lay_header p lba words k =
     (let (c, h, b) = pack_chb (p_g p) lba; own = pack_header_of (p_g p) c h b
      in if words ! 256 = own \<and> words ! 257 = ecc_over_words [own] then (True, header_remove p lba, k)
         else header_insert p lba (words ! 256) (words ! 257) k)"

definition pack_lay_checkword ::
    "pack \<Rightarrow> u32 \<Rightarrow> u32 list \<Rightarrow> kernel \<Rightarrow> bool \<times> pack \<times> kernel" where
  "pack_lay_checkword p lba words k =
     (if words ! 258 = ecc_over_words (take PACK_BLOCK_WORDS words) then (True, dck_remove p lba, k)
      else dck_insert p lba (words ! 258) k)"

definition pack_writeback ::
    "pack \<Rightarrow> u32 \<Rightarrow> u32 list \<Rightarrow> kernel \<Rightarrow> (pack_err + unit) \<times> pack \<times> kernel" where
  "pack_writeback p lba words k0 =
     (if p_blocks p \<le> lba then (Inl (Pack_off lba (p_blocks p)), p, k0)
      else if \<not> p_writable p then (Inl Pack_read_only, p, k0)
      else if p_quux p then pack_writeback_quux p lba words k0
      else
        (case sys_pwrite (p_fd p) (bytes_of_words (take PACK_BLOCK_WORDS words))
                (unat lba * PACK_BLOCK_BYTES) k0 of
           (Inl e, k) \<Rightarrow> (Inl (Pack_write lba (Some e)), p, k)
         | (Inr n, k) \<Rightarrow>
             (if n \<noteq> PACK_BLOCK_BYTES then (Inl (Pack_write lba None), p, k)
              else case pack_lay_header p lba words k of
                     (False, p, k) \<Rightarrow> (Inl Pack_no_headers, p, k)
                   | (True, p, k) \<Rightarrow>
                       (case pack_lay_checkword p lba words k of
                          (False, p, k) \<Rightarrow> (Inl Pack_no_checkwords, p, k)
                        | (True, p, k) \<Rightarrow>
                            (case sys_fdatasync (p_fd p) k of
                               (r, k) \<Rightarrow>
                                 (case sync_failed r of
                                    Some e \<Rightarrow> (Inl (Pack_sync e), p, k)
                                  | None \<Rightarrow> (Inr (), p, k)))))))"

end
