(* ===== verification/Pack_File_Props.thy ===== *)
theory Pack_File_Props
  imports Pack_File Block_Store
begin

text \<open>
  The pack against its contract: the two tables as instances of one interface, a table of
  exceptions to the format's own values; the record a block shows through file and tables;
  and the pack, of a CADR or of QUUX, as a block store.
\<close>

unbundle bit_operations_syntax

section \<open>A table of exceptions\<close>

text \<open>
  What the pack asks of its two tables: a lookup after an insertion or a removal.  A table
  laid this way holds only what differs from the format's own value, and reading through it
  gives back what was laid.
\<close>

locale exceptions =
  fixes get :: "'t \<Rightarrow> 'n \<Rightarrow> 'v option"
    and put :: "'t \<Rightarrow> 'n \<Rightarrow> 'v \<Rightarrow> 't"
    and del :: "'t \<Rightarrow> 'n \<Rightarrow> 't"
    and ok :: "'t \<Rightarrow> bool"
  assumes ok_put: "ok t \<Longrightarrow> ok (put t n v)"
    and ok_del: "ok t \<Longrightarrow> ok (del t n)"
    and get_put: "ok t \<Longrightarrow> get (put t n v) m = (if m = n then Some v else get t m)"
    and get_del: "ok t \<Longrightarrow> get (del t n) m = (if m = n then None else get t m)"
begin

lemma laid_ok: "ok t \<Longrightarrow> ok (if v = own then del t n else put t n v)"
  by (simp add: ok_put ok_del)

lemma laid_shown:
  "ok t \<Longrightarrow> case_option d (\<lambda>x. x) (get (if v = own then del t n else put t n v) m) =
     (if m = n then (if v = own then d else v) else case_option d (\<lambda>x. x) (get t m))"
  by (simp add: get_put get_del)

end

definition tab_get :: "('a \<Rightarrow> u32) \<Rightarrow> ('a \<Rightarrow> 'v) \<Rightarrow> 'a list \<Rightarrow> u32 \<Rightarrow> 'v option" where
  "tab_get lba_of val t n = map_option (\<lambda>i. val (t ! i)) (entry_index lba_of n t)"

definition tab_put :: "('a \<Rightarrow> u32) \<Rightarrow> (u32 \<Rightarrow> 'v \<Rightarrow> 'a) \<Rightarrow> 'a list \<Rightarrow> u32 \<Rightarrow> 'v \<Rightarrow> 'a list" where
  "tab_put lba_of mk t n v =
     (case entry_index lba_of n t of None \<Rightarrow> t @ [mk n v] | Some i \<Rightarrow> t[i := mk n v])"

definition tab_del :: "('a \<Rightarrow> u32) \<Rightarrow> 'a list \<Rightarrow> u32 \<Rightarrow> 'a list" where
  "tab_del lba_of t n =
     (case entry_index lba_of n t of None \<Rightarrow> t | Some i \<Rightarrow> butlast (t[i := last t]))"

abbreviation tab_ok :: "('a \<Rightarrow> u32) \<Rightarrow> 'a list \<Rightarrow> bool" where
  "tab_ok lba_of t \<equiv> distinct (map lba_of t)"

lemma entry_index_None: "entry_index lba_of n t = None \<longleftrightarrow> n \<notin> lba_of ` set t"
  by (induction t) auto

lemma entry_index_Some:
  "tab_ok lba_of t \<Longrightarrow> entry_index lba_of n t = Some i \<longleftrightarrow> i < length t \<and> lba_of (t ! i) = n"
proof (induction t arbitrary: i)
  case (Cons e t)
  then show ?case
    by (cases i) (auto simp: image_iff, metis nth_mem)
qed simp

lemma tab_get_Some:
  "tab_ok lba_of t \<Longrightarrow>
     tab_get lba_of val t n = Some v \<longleftrightarrow> (\<exists>e \<in> set t. lba_of e = n \<and> val e = v)"
  by (simp add: tab_get_def entry_index_Some) (metis in_set_conv_nth)

lemma tab_get_eqI:
  assumes "tab_ok lba_of t" "tab_ok lba_of t'"
    and "\<And>e. lba_of e = m \<Longrightarrow> e \<in> set t \<longleftrightarrow> e \<in> set t'"
  shows "tab_get lba_of val t m = tab_get lba_of val t' m"
proof -
  have "tab_get lba_of val t m = Some v \<longleftrightarrow> tab_get lba_of val t' m = Some v" for v
    using assms by (auto simp: tab_get_Some)
  then show ?thesis by (metis option.exhaust)
qed

text \<open>The entries after an insertion and after a removal.\<close>

lemma tab_put_entries:
  assumes "tab_ok lba_of t" and "\<And>n v. lba_of (mk n v) = n"
  shows "tab_ok lba_of (tab_put lba_of mk t n v)"
    and "set (tab_put lba_of mk t n v) = insert (mk n v) {e \<in> set t. lba_of e \<noteq> n}"
proof -
  have *: "tab_ok lba_of (tab_put lba_of mk t n v) \<and>
      set (tab_put lba_of mk t n v) = insert (mk n v) {e \<in> set t. lba_of e \<noteq> n}"
  proof (cases "entry_index lba_of n t")
    case None
    then have "n \<notin> lba_of ` set t" by (simp add: entry_index_None)
    with None assms show ?thesis by (auto simp: tab_put_def)
  next
    case (Some i)
    then have i: "i < length t" "lba_of (t ! i) = n" using assms(1) by (auto simp: entry_index_Some)
    have "map lba_of (t[i := mk n v]) = map lba_of t"
      using i assms(2) by (metis list_update_id map_update)
    moreover have "set (t[i := mk n v]) = insert (mk n v) (set t - {t ! i})"
      using i assms(1) by (simp add: set_update_distinct distinct_map)
    moreover have "set t - {t ! i} = {e \<in> set t. lba_of e \<noteq> n}"
      using i assms(1) by (auto simp: distinct_map inj_on_def)
    ultimately show ?thesis using Some assms(1) by (simp add: tab_put_def)
  qed
  show "tab_ok lba_of (tab_put lba_of mk t n v)"
    and "set (tab_put lba_of mk t n v) = insert (mk n v) {e \<in> set t. lba_of e \<noteq> n}"
    using * by auto
qed

lemma swap_remove:
  assumes "distinct (xs @ [y])" and "i < length (xs @ [y])"
  shows "distinct (butlast ((xs @ [y])[i := y]))"
    and "set (butlast ((xs @ [y])[i := y])) = set (xs @ [y]) - {(xs @ [y]) ! i}"
proof -
  have "butlast ((xs @ [y])[i := y]) = (if i < length xs then xs[i := y] else xs)"
    using assms(2) by (auto simp: list_update_append less_Suc_eq)
  then show "distinct (butlast ((xs @ [y])[i := y]))"
    and "set (butlast ((xs @ [y])[i := y])) = set (xs @ [y]) - {(xs @ [y]) ! i}"
    using assms by (auto simp: nth_append set_update_distinct less_Suc_eq distinct_list_update dest: nth_mem)
qed

lemma tab_del_entries:
  assumes "tab_ok lba_of t"
  shows "tab_ok lba_of (tab_del lba_of t n)"
    and "set (tab_del lba_of t n) = {e \<in> set t. lba_of e \<noteq> n}"
proof -
  have *: "tab_ok lba_of (tab_del lba_of t n) \<and> set (tab_del lba_of t n) = {e \<in> set t. lba_of e \<noteq> n}"
  proof (cases "entry_index lba_of n t")
    case None
    then have "n \<notin> lba_of ` set t" by (simp add: entry_index_None)
    with None assms show ?thesis by (auto simp: tab_del_def)
  next
    case (Some i)
    then have i: "i < length t" "lba_of (t ! i) = n" using assms by (auto simp: entry_index_Some)
    then obtain xs y where t: "t = xs @ [y]" by (cases t rule: rev_cases) auto
    have d: "distinct t" and inj: "inj_on lba_of (set t)" using assms by (auto simp: distinct_map)
    have s: "set (tab_del lba_of t n) = set t - {t ! i}" "distinct (tab_del lba_of t n)"
      using swap_remove [of xs y i] d i Some by (simp_all add: tab_del_def t)
    then have "inj_on lba_of (set (tab_del lba_of t n))" using inj by (auto simp: inj_on_def)
    moreover have "set t - {t ! i} = {e \<in> set t. lba_of e \<noteq> n}" using i inj by (auto simp: inj_on_def)
    ultimately show ?thesis using s by (simp add: distinct_map)
  qed
  then show "tab_ok lba_of (tab_del lba_of t n)"
    and "set (tab_del lba_of t n) = {e \<in> set t. lba_of e \<noteq> n}" by auto
qed

lemma tab_get_put:
  assumes "tab_ok lba_of t" and mk: "\<And>n v. lba_of (mk n v) = n" "\<And>n v. val (mk n v) = v"
  shows "tab_get lba_of val (tab_put lba_of mk t n v) m =
    (if m = n then Some v else tab_get lba_of val t m)"
proof (cases "m = n")
  case True
  then show ?thesis
    using tab_put_entries [where mk = mk and n = n and v = v, OF assms(1) mk(1)] mk by (auto simp: tab_get_Some)
next
  case False
  then show ?thesis
    using tab_put_entries [where mk = mk and n = n and v = v, OF assms(1) mk(1)] assms(1) mk
    by (auto intro!: tab_get_eqI)
qed

lemma tab_get_del:
  assumes "tab_ok lba_of t"
  shows "tab_get lba_of val (tab_del lba_of t n) m =
    (if m = n then None else tab_get lba_of val t m)"
proof (cases "m = n")
  case True
  then show ?thesis using tab_del_entries [OF assms, of n]
    by (auto simp: tab_get_def entry_index_None)
next
  case False
  then show ?thesis using tab_del_entries [OF assms] assms by (auto intro!: tab_get_eqI)
qed

abbreviation he_val :: "pack_header_entry \<Rightarrow> u32 \<times> u32" where
  "he_val e \<equiv> (he_word e, he_checkword e)"

abbreviation he_mk :: "u32 \<Rightarrow> u32 \<times> u32 \<Rightarrow> pack_header_entry" where
  "he_mk n v \<equiv> \<lparr>he_lba = n, he_word = fst v, he_checkword = snd v\<rparr>"

abbreviation de_mk :: "u32 \<Rightarrow> u32 \<Rightarrow> pack_dck_entry" where
  "de_mk n v \<equiv> \<lparr>de_lba = n, de_checkword = v\<rparr>"

interpretation headers: exceptions "tab_get he_lba he_val" "tab_put he_lba he_mk" "tab_del he_lba"
  "tab_ok he_lba"
  by unfold_locales (simp_all add: tab_put_entries tab_del_entries tab_get_put tab_get_del)

interpretation dcks: exceptions "tab_get de_lba de_checkword" "tab_put de_lba de_mk" "tab_del de_lba"
  "tab_ok de_lba"
  by unfold_locales (simp_all add: tab_put_entries tab_del_entries tab_get_put tab_get_del)


section \<open>What the pack holds\<close>

definition own_header :: "pack_geometry \<Rightarrow> u32 \<Rightarrow> u32" where
  "own_header g lba = (case pack_chb g lba of (c, h, b) \<Rightarrow> pack_header_of g c h b)"

definition own_pair :: "pack_geometry \<Rightarrow> u32 \<Rightarrow> u32 \<times> u32" where
  "own_pair g lba = (own_header g lba, ecc_over_words [own_header g lba])"

definition block_words :: "u8 list \<Rightarrow> u32 \<Rightarrow> u32 list" where
  "block_words f lba = words_of_bytes 256 (read_bytes (unat lba * 1024) 1024 f)"

definition shown_header :: "pack \<Rightarrow> u32 \<Rightarrow> u32 \<times> u32" where
  "shown_header p lba =
     case_option (own_pair (p_g p) lba) (\<lambda>x. x) (tab_get he_lba he_val (p_headers p) lba)"

definition shown_dck :: "pack \<Rightarrow> u8 list \<Rightarrow> u32 \<Rightarrow> u32" where
  "shown_dck p f lba =
     case_option (ecc_over_words (block_words f lba)) (\<lambda>x. x) (tab_get de_lba de_checkword (p_dcks p) lba)"

definition shown_record :: "pack \<Rightarrow> u8 list \<Rightarrow> u32 \<Rightarrow> u32 list" where
  "shown_record p f lba =
     block_words f lba @ [fst (shown_header p lba), snd (shown_header p lba), shown_dck p f lba]"

lemma length_shown_record [simp]: "length (shown_record p f lba) = 259"
  by (simp add: shown_record_def block_words_def)

lemma pack_record_shown:
  assumes "\<not> p_quux p" and "lba < p_blocks p" and "fd_bytes k (p_fd p) = Some f"
    and "unat (p_blocks p) * 1024 \<le> length f" and "k_script k = []"
  shows "pack_record p lba k = (Inr (shown_record p f lba), k)"
proof -
  have "unat lba * 1024 + 1024 \<le> length f"
    using assms(2,4) by (auto simp: word_less_nat_alt)
  then have "length (read_bytes (unat lba * 1024) 1024 f) = 1024" by simp
  moreover have "words_of_bytes 256 (read_bytes (unat lba * 1024) 1024 f) = block_words f lba"
    by (simp add: block_words_def)
  ultimately show ?thesis
    using assms
    by (auto simp: pack_record_def not_le sys_pread_quiet shown_record_def shown_header_def shown_dck_def
        tab_get_def header_find_def dck_find_def own_pair_def own_header_def Let_def
        split: option.splits prod.splits)
qed

section \<open>What a write-back leaves\<close>

text \<open>The parts of a pack no write-back changes.\<close>

definition same_drive :: "pack \<Rightarrow> pack \<Rightarrow> bool" where
  "same_drive p p' \<longleftrightarrow>
     p_fd p' = p_fd p \<and> p_writable p' = p_writable p \<and> p_g p' = p_g p \<and> p_blocks p' = p_blocks p \<and>
     p_dev p' = p_dev p \<and> p_ino p' = p_ino p \<and> p_quux p' = p_quux p"

definition laid_headers :: "pack \<Rightarrow> u32 \<Rightarrow> u32 list \<Rightarrow> pack_header_entry list" where
  "laid_headers p lba words =
     (if (words ! 256, words ! 257) = own_pair (p_g p) lba then tab_del he_lba (p_headers p) lba
      else tab_put he_lba he_mk (p_headers p) lba (words ! 256, words ! 257))"

definition laid_dcks :: "pack \<Rightarrow> u32 \<Rightarrow> u32 list \<Rightarrow> pack_dck_entry list" where
  "laid_dcks p lba words =
     (if words ! 258 = ecc_over_words (take 256 words) then tab_del de_lba (p_dcks p) lba
      else tab_put de_lba de_mk (p_dcks p) lba (words ! 258))"

text \<open>Each half of a write-back: its table laid or, out of memory, left as it was.\<close>

lemma pack_lay_header_any:
  assumes "pack_lay_header p lba words k = (r, p', k')"
  shows "same_files k k'" and "same_drive p p'" and "p_dcks p' = p_dcks p" and "p_size p' = p_size p"
    and "p_headers p' = (if r then laid_headers p lba words else p_headers p)"
  using assms
  by (auto simp: pack_lay_header_def own_pair_def own_header_def header_remove_def header_insert_def
      header_find_def tab_del_def tab_put_def laid_headers_def same_drive_def Let_def sys_alloc_same
      split: prod.splits if_splits option.splits bool.splits)

lemma pack_lay_checkword_any:
  assumes "pack_lay_checkword p lba words k = (r, p', k')"
  shows "same_files k k'" and "same_drive p p'" and "p_headers p' = p_headers p" and "p_size p' = p_size p"
    and "p_dcks p' = (if r then laid_dcks p lba words else p_dcks p)"
  using assms
  by (auto simp: pack_lay_checkword_def dck_remove_def dck_insert_def laid_dcks_def same_drive_def
      dck_find_def tab_del_def tab_put_def Let_def sys_alloc_same
      split: prod.splits if_splits option.splits bool.splits)

lemma pack_writeback_ok:
  assumes "pack_writeback p lba words k = (Inr (), p', k')" and "\<not> p_quux p"
    and "fd_bytes k (p_fd p) = Some f" and "length words = 259"
  shows "lba < p_blocks p" and "p_writable p" and "same_drive p p'"
    and "fd_bytes k' (p_fd p) = Some (write_bytes (unat lba * 1024) (bytes_of_words (take 256 words)) f)"
    and "p_headers p' = laid_headers p lba words" and "p_dcks p' = laid_dcks p lba words"
proof -
  let ?bs = "bytes_of_words (take 256 words)"
  from assms(1,2) show "lba < p_blocks p" "p_writable p"
    by (auto simp: pack_writeback_def not_le split: if_splits)
  from assms(1,2) obtain k1 p1 k2 k3 r where
    w: "sys_pwrite (p_fd p) ?bs (unat lba * 1024) k = (Inr 1024, k1)"
    and h: "pack_lay_header p lba words k1 = (True, p1, k2)"
    and c: "pack_lay_checkword p1 lba words k2 = (True, p', k3)"
    and s: "sys_fdatasync (p_fd p') k3 = (r, k')"
    by (auto simp: pack_writeback_def split: if_splits prod.splits sum.splits bool.splits option.splits)
  note h = pack_lay_header_any [OF h] and c = pack_lay_checkword_any [OF c]
  have len: "1024 = length ?bs" using assms(4) by simp
  from sys_pwrite_full [OF w len] assms(3)
  have f1: "fd_bytes k1 (p_fd p) = Some (write_bytes (unat lba * 1024) ?bs f)"
    by (metis option.inject)
  have "same_files k1 k'"
    using h(1) c(1) sys_fdatasync_same [OF s] by (blast intro: same_files_trans)
  then show "fd_bytes k' (p_fd p) = Some (write_bytes (unat lba * 1024) ?bs f)"
    using f1 by (simp add: same_files_fd_bytes)
  show "same_drive p p'" "p_headers p' = laid_headers p lba words" "p_dcks p' = laid_dcks p lba words"
    using h c by (auto simp: same_drive_def laid_dcks_def)
qed

lemma block_words_write:
  assumes "length ws = 256" and "lba < n" and "m < n" and "unat n * 1024 \<le> length f"
  shows "block_words (write_bytes (unat lba * 1024) (bytes_of_words ws) f) m =
    (if m = lba then ws else block_words f m)"
proof (cases "m = lba")
  case True
  then show ?thesis
    using assms(1) read_write_same [of "unat lba * 1024" "bytes_of_words ws" f]
    by (simp add: block_words_def words_of_bytes_of_words')
next
  case False
  then have "unat m \<noteq> unat lba" by (simp add: word_unat_eq_iff)
  moreover have "unat m * 1024 + 1024 \<le> length f" using assms(3,4) by (auto simp: word_less_nat_alt)
  ultimately have "read_bytes (unat m * 1024) 1024 (write_bytes (unat lba * 1024) (bytes_of_words ws) f) =
      read_bytes (unat m * 1024) 1024 f"
    using assms(1) by (intro read_write_apart) auto
  with False show ?thesis by (simp add: block_words_def)
qed

text \<open>The sector written reads as it was laid, header and checkwords included; no other changed.\<close>

lemma split_record:
  assumes "length ws = 259"
  shows "take 256 ws @ [ws ! 256, ws ! 257, ws ! 258] = ws"
proof -
  have "drop 256 ws = [ws ! 256, ws ! 257, ws ! 258]"
    using assms Cons_nth_drop_Suc [of 256 ws] Cons_nth_drop_Suc [of 257 ws] Cons_nth_drop_Suc [of 258 ws]
    by simp
  then show ?thesis by (metis append_take_drop_id)
qed

lemma shown_record_laid:
  assumes ok: "tab_ok he_lba (p_headers p)" "tab_ok de_lba (p_dcks p)"
    and len: "length words = 259" "unat (p_blocks p) * 1024 \<le> length f"
    and n: "lba < p_blocks p" "m < p_blocks p" and d: "same_drive p p'"
    and t: "p_headers p' = laid_headers p lba words" "p_dcks p' = laid_dcks p lba words"
    and f': "f' = write_bytes (unat lba * 1024) (bytes_of_words (take 256 words)) f"
  shows "shown_record p' f' m = (if m = lba then words else shown_record p f m)"
proof -
  have b: "block_words f' m = (if m = lba then take 256 words else block_words f m)"
    unfolding f' using len n by (intro block_words_write) auto
  have "shown_header p' m = (if m = lba then (words ! 256, words ! 257) else shown_header p m)"
    using d by (auto simp: shown_header_def t laid_headers_def headers.laid_shown [OF ok(1)] same_drive_def
        cong: option.case_cong)
  moreover have "shown_dck p' f' m = (if m = lba then words ! 258 else shown_dck p f m)"
    using b by (auto simp: shown_dck_def t laid_dcks_def dcks.laid_shown [OF ok(2)] cong: option.case_cong)
  ultimately show ?thesis using split_record [OF len(1)] by (simp add: shown_record_def b)
qed


section \<open>The contract of a CADR pack\<close>

definition pack_rd :: "pack \<times> kernel \<Rightarrow> u32 \<Rightarrow> u32 list option" where
  "pack_rd s lba =
     (case pack_record (fst s) lba ((snd s)\<lparr>k_script := []\<rparr>) of
        (Inr ws, _) \<Rightarrow> Some ws | (Inl _, _) \<Rightarrow> None)"

definition pack_wr :: "pack \<times> kernel \<Rightarrow> u32 \<Rightarrow> u32 list \<Rightarrow> (pack \<times> kernel) option" where
  "pack_wr s lba words =
     (case pack_writeback (fst s) lba words (snd s) of
        (Inr _, s') \<Rightarrow> Some s' | (Inl _, _) \<Rightarrow> None)"

definition cadr_pack_ok :: "pack \<Rightarrow> u8 list \<Rightarrow> bool" where
  "cadr_pack_ok p f \<longleftrightarrow>
     \<not> p_quux p \<and> unat (p_blocks p) * 1024 \<le> length f \<and>
     tab_ok he_lba (p_headers p) \<and> tab_ok de_lba (p_dcks p)"

definition cadr_pack_inv :: "pack \<times> kernel \<Rightarrow> bool" where
  "cadr_pack_inv s \<longleftrightarrow> (\<exists>f. fd_bytes (snd s) (p_fd (fst s)) = Some f \<and> cadr_pack_ok (fst s) f)"

lemma fd_bytes_script [simp]: "fd_bytes (k\<lparr>k_script := s\<rparr>) fd = fd_bytes k fd"
  using same_files_fd_bytes [OF same_files_script] .

lemma pack_rd_shown:
  assumes "fd_bytes k (p_fd p) = Some f" and "cadr_pack_ok p f"
  shows "pack_rd (p, k) lba = (if lba < p_blocks p then Some (shown_record p f lba) else None)"
  using pack_record_shown [of p lba "k\<lparr>k_script := []\<rparr>" f] assms
  by (auto simp: pack_rd_def cadr_pack_ok_def pack_record_def not_less)

lemma pack_wr_shown:
  assumes "pack_wr (p, k) lba words = Some (p', k')" and "fd_bytes k (p_fd p) = Some f"
    and "cadr_pack_ok p f" and "length words = 259"
  shows "\<exists>f'. fd_bytes k' (p_fd p') = Some f' \<and> cadr_pack_ok p' f' \<and> p_blocks p' = p_blocks p \<and> lba < p_blocks p \<and>
    (\<forall>m < p_blocks p. shown_record p' f' m = (if m = lba then words else shown_record p f m))"
proof -
  have w: "pack_writeback p lba words k = (Inr (), p', k')"
    using assms(1) by (auto simp: pack_wr_def split: prod.splits sum.splits)
  note ok = assms(3) [unfolded cadr_pack_ok_def]
  note r = pack_writeback_ok [OF w _ assms(2,4)]
  let ?f = "write_bytes (unat lba * 1024) (bytes_of_words (take 256 words)) f"
  have "unat (p_blocks p) * 1024 \<le> length ?f" using ok by (intro le_length_write_bytes) simp
  then have "cadr_pack_ok p' ?f"
    using r ok by (simp add: cadr_pack_ok_def same_drive_def laid_headers_def laid_dcks_def
        headers.laid_ok dcks.laid_ok)
  moreover have "shown_record p' ?f m = (if m = lba then words else shown_record p f m)"
    if "m < p_blocks p" for m
    using shown_record_laid [OF _ _ assms(4) _ _ that] r ok by simp
  ultimately show ?thesis using r ok by (auto simp: same_drive_def)
qed

interpretation cadr_pack: block_store pack_rd pack_wr cadr_pack_inv "\<lambda>ws. length ws = 259"
proof
  fix s n b s'
  assume inv: "cadr_pack_inv s" and len: "length b = 259" and w: "pack_wr s n b = Some s'"
  obtain p k p' k' where s: "s = (p, k)" "s' = (p', k')" by (cases s, cases s')
  obtain f where f: "fd_bytes k (p_fd p) = Some f" "cadr_pack_ok p f"
    using inv by (auto simp: cadr_pack_inv_def s)
  from pack_wr_shown [OF w [unfolded s] f len] obtain f' where
    f': "fd_bytes k' (p_fd p') = Some f'" "cadr_pack_ok p' f'" "p_blocks p' = p_blocks p" "n < p_blocks p"
    and view: "\<forall>m < p_blocks p. shown_record p' f' m = (if m = n then b else shown_record p f m)"
    by blast
  show "cadr_pack_inv s'" using f' by (auto simp: cadr_pack_inv_def s)
  show "pack_rd s' n = Some b" using f' view by (simp add: s pack_rd_shown)
  show "pack_rd s' m = pack_rd s m" if "m \<noteq> n" for m
    using that f f' view by (simp add: s pack_rd_shown)
qed

section \<open>The contract of a QUUX pack\<close>

definition quux_pack_inv :: "pack \<times> kernel \<Rightarrow> bool" where
  "quux_pack_inv s \<longleftrightarrow>
     p_quux (fst s) \<and> p_blocks (fst s) = q_blocks (p_q (fst s)) \<and>
     quux_inv (p_fd (fst s)) (p_q (fst s), snd s)"

lemma same_files_quiet: "same_files k k' \<Longrightarrow> k'\<lparr>k_script := s\<rparr> = k\<lparr>k_script := s\<rparr>"
  by (simp add: same_files_def)

lemma quux_rd_same: "same_files k k' \<Longrightarrow> quux_rd fd (d, k') n = quux_rd fd (d, k) n"
  using same_files_quiet [of k k' "[]"] by (simp add: quux_rd_def)

lemma quux_inv_same: "same_files k k' \<Longrightarrow> quux_inv fd (d, k') = quux_inv fd (d, k)"
  by (simp add: quux_inv_def same_files_fd_bytes)

lemma pack_rd_quux:
  "p_quux p \<Longrightarrow> p_blocks p = q_blocks (p_q p) \<Longrightarrow>
     pack_rd (p, k) lba =
       map_option (\<lambda>bs. words_of_bytes 256 bs @ [0, 0, 0]) (quux_rd (p_fd p) (p_q p, k) lba)"
  by (auto simp: pack_rd_def pack_record_def quux_rd_def quux_disk_read_def
      split: prod.splits sum.splits)

lemma pack_wr_quux:
  assumes "pack_wr (p, k) lba words = Some (p', k')" and "p_quux p"
  shows "\<exists>q k1. quux_wr (p_fd p) (p_q p, k) lba (bytes_of_words (take 256 words)) = Some (q, k1) \<and>
    same_files k1 k' \<and> p' = p\<lparr>p_q := q, p_size := p_size p'\<rparr>"
  using assms
  by (auto simp: pack_wr_def pack_writeback_def pack_writeback_quux_def quux_wr_def
      dest!: sys_fstat_same sys_fdatasync_same split: prod.splits sum.splits if_splits option.splits
      intro: same_files_trans)

lemma quux_wr_keeps_blocks: "quux_wr fd (d, k) n b = Some (d', k') \<Longrightarrow> q_blocks d' = q_blocks d"
  by (auto simp: quux_wr_def dest: quux_disk_write_keeps_blocks split: prod.splits sum.splits)

interpretation quux_pack: block_store pack_rd pack_wr quux_pack_inv
  "\<lambda>ws. length ws = 259 \<and> drop 256 ws = [0, 0, 0]"
proof
  fix s n b s'
  assume inv: "quux_pack_inv s" and fit: "length b = 259 \<and> drop 256 b = [0, 0, 0]"
    and w: "pack_wr s n b = Some s'"
  obtain p k p' k' where s: "s = (p, k)" "s' = (p', k')" by (cases s, cases s')
  let ?bs = "bytes_of_words (take 256 b)"
  have q: "p_quux p" "p_blocks p = q_blocks (p_q p)" "quux_inv (p_fd p) (p_q p, k)"
    using inv by (auto simp: quux_pack_inv_def s)
  from pack_wr_quux [OF w [unfolded s] q(1)] obtain d k1 where
    d: "quux_wr (p_fd p) (p_q p, k) n ?bs = Some (d, k1)" and same: "same_files k1 k'"
    and p': "p' = p\<lparr>p_q := d, p_size := p_size p'\<rparr>" by blast
  have len: "length ?bs = QUUX_BLOCK_BYTES" using fit by simp
  have f': "p_fd p' = p_fd p" "p_q p' = d" "p_quux p'" "p_blocks p' = q_blocks (p_q p')"
    using quux_wr_keeps_blocks [OF d] q by (subst p', simp)+
  show "quux_pack_inv s'"
    using quux.wr_inv [OF q(3) len d] f' by (simp add: quux_pack_inv_def s quux_inv_same [OF same])
  have "take 256 b @ [0, 0, 0] = b" using fit by (metis append_take_drop_id)
  then show "pack_rd s' n = Some b"
    using quux.wr_same [OF q(3) len d] fit f'
    by (simp add: s pack_rd_quux quux_rd_same [OF same] words_of_bytes_of_words')
  show "pack_rd s' m = pack_rd s m" if "m \<noteq> n" for m
    using quux.wr_other [OF q(3) len d that] f' q
    by (simp add: s pack_rd_quux quux_rd_same [OF same])
qed

end
