(* ===== verification/Pack_Contract.thy ===== *)
theory Pack_Contract
  imports Pack_File_Props
begin

text \<open>
  The properties of the pack file: the geometry's arithmetic, headers that tell sectors apart,
  what an open finds, write-backs that read back, that fail without harm, that go through when
  the system does, and tables that hold only what disagrees with the format.
\<close>

unbundle bit_operations_syntax

section \<open>Block numbers and headers\<close>

definition drive_type :: "pack_geometry \<Rightarrow> bool" where
  "drive_type g \<longleftrightarrow> g = PACK_T80 \<or> g = PACK_T300"

lemma drive_type_bounds:
  assumes "drive_type g"
  shows "unat (cylinders g) = 815" and "unat (blocks_per_track g) = 17"
    and "unat (heads g) = 5 \<or> unat (heads g) = 19"
    and "unat (cylinders g * heads g * blocks_per_track g) = 815 * unat (heads g) * 17"
    and "unat (heads g * blocks_per_track g) = unat (heads g) * 17"
  using assms by (auto simp: drive_type_def PACK_T80_def PACK_T300_def)

lemma pack_lba_nat:
  assumes "drive_type g" and "c < cylinders g" and "h < heads g" and "b < blocks_per_track g"
  shows "unat (c * heads g * blocks_per_track g + h * blocks_per_track g + b) =
    (unat c * unat (heads g) + unat h) * 17 + unat b"
proof -
  note g = drive_type_bounds [OF assms(1)]
  have l: "unat c < 815" "unat h < unat (heads g)" "unat b < 17"
    using assms g by (auto simp: word_less_nat_alt)
  have n: "unat (heads g) \<le> 19" using g(3) by auto
  have ch: "unat c * unat (heads g) \<le> 814 * 19" using l(1) n by (intro mult_mono) auto
  have e1: "unat (c * heads g) = unat c * unat (heads g)" using ch by (subst unat_mult_lem [symmetric]) simp
  have e2: "unat (c * heads g * blocks_per_track g) = unat c * unat (heads g) * 17"
    using ch e1 g(2) by (subst unat_mult_lem [THEN iffD1]) auto
  have e3: "unat (h * blocks_per_track g) = unat h * 17"
    using l(2) n g(2) by (subst unat_mult_lem [THEN iffD1]) auto
  have e4: "unat (c * heads g * blocks_per_track g + h * blocks_per_track g) =
      unat c * unat (heads g) * 17 + unat h * 17"
    using ch l(2) n e2 e3 by (subst unat_add_lem [THEN iffD1]) auto
  have "unat (c * heads g * blocks_per_track g + h * blocks_per_track g + b) =
      unat c * unat (heads g) * 17 + unat h * 17 + unat b"
    using ch l(2,3) n e4 by (subst unat_add_lem [THEN iffD1]) auto
  then show ?thesis by (simp add: algebra_simps)
qed

lemma chb_of_lba:
  assumes "drive_type g" and "pack_lba g c h b = Some lba"
  shows "pack_chb g lba = (c, h, b)" and "lba < cylinders g * heads g * blocks_per_track g"
proof -
  note g = drive_type_bounds [OF assms(1)]
  have l: "c < cylinders g" "h < heads g" "b < blocks_per_track g"
    and lba: "unat lba = (unat c * unat (heads g) + unat h) * 17 + unat b"
    using assms pack_lba_nat [OF assms(1), of c h b] by (auto simp: pack_lba_def not_le split: if_splits)
  have l': "unat h < unat (heads g)" "unat b < 17" "unat c < 815"
    using l g by (auto simp: word_less_nat_alt)
  have pc: "unat lba = unat c * (unat (heads g) * 17) + (unat h * 17 + unat b)" using lba by (simp add: algebra_simps)
  have lt: "unat h * 17 + unat b < unat (heads g) * 17" using l' by linarith
  have "unat (lba div (heads g * blocks_per_track g)) = unat c"
    unfolding unat_div g(5) pc using lt by (subst div_mult_self3) auto
  moreover have "unat (lba mod (heads g * blocks_per_track g)) = unat h * 17 + unat b"
    unfolding unat_mod g(5) pc using lt by simp
  then have "unat (lba mod (heads g * blocks_per_track g) div blocks_per_track g) = unat h"
    using l' g(2) by (simp add: unat_div)
  moreover have "unat (lba mod blocks_per_track g) = unat b"
    unfolding unat_mod g(2) lba using l'(2) by (subst mod_mult_self3) simp
  ultimately show "pack_chb g lba = (c, h, b)" by (simp add: pack_chb_def Let_def word_unat_eq_iff)
  have "unat c * unat (heads g) + unat h < 815 * unat (heads g)"
  proof -
    have "unat c * unat (heads g) + unat h < Suc (unat c) * unat (heads g)" using l' by simp
    also have "\<dots> \<le> 815 * unat (heads g)" using l'(3) by (intro mult_le_mono1) simp
    finally show ?thesis .
  qed
  then have "(unat c * unat (heads g) + unat h + 1) * 17 \<le> 815 * unat (heads g) * 17"
    by (intro mult_le_mono1) simp
  then have "unat lba < 815 * unat (heads g) * 17" using lba l'(2) by simp
  then show "lba < cylinders g * heads g * blocks_per_track g" by (simp add: word_less_nat_alt g(4))
qed

lemma lba_of_chb:
  assumes "drive_type g" and "lba < cylinders g * heads g * blocks_per_track g" and "pack_chb g lba = (c, h, b)"
  shows "pack_lba g c h b = Some lba"
proof -
  note g = drive_type_bounds [OF assms(1)]
  let ?H = "unat (heads g)"
  have H: "0 < ?H" using g(3) by auto
  have lt: "unat lba < 815 * ?H * 17" using assms(2) by (simp add: word_less_nat_alt g(4))
  have u: "unat c = unat lba div (?H * 17)" "unat h = unat lba mod (?H * 17) div 17" "unat b = unat lba mod 17"
    using assms(3) g by (auto simp: pack_chb_def Let_def unat_div unat_mod)
  have "unat c < 815" using lt H by (simp add: u(1) less_mult_imp_div_less algebra_simps)
  moreover have "unat h < ?H" using H by (simp add: u(2) less_mult_imp_div_less)
  moreover have "unat b < 17" by (simp add: u(3))
  ultimately have l: "c < cylinders g" "h < heads g" "b < blocks_per_track g"
    using g by (auto simp: word_less_nat_alt)
  have "(unat c * ?H + unat h) * 17 + unat b = unat lba"
  proof -
    have "unat lba = unat lba div (?H * 17) * (?H * 17) + unat lba mod (?H * 17)"
      by (rule div_mult_mod_eq [symmetric])
    moreover have "unat lba mod (?H * 17) = unat h * 17 + unat lba mod (?H * 17) mod 17"
      unfolding u(2) by simp
    moreover have "unat lba mod (?H * 17) mod 17 = unat b" by (simp add: u(3) mod_mod_cancel)
    ultimately show ?thesis by (simp add: u(1) algebra_simps)
  qed
  then have "c * heads g * blocks_per_track g + h * blocks_per_track g + b = lba"
    using pack_lba_nat [OF assms(1) l] by (simp add: word_unat_eq_iff)
  with l show ?thesis by (simp add: pack_lba_def not_le [symmetric])
qed

text \<open>
  The header's three address fields, read back.
\<close>

lemma pack_header_fields:
  "drop_bit 16 (pack_header_of g c h b) AND 0xFFF = c AND 0xFFF"
  "drop_bit 8 (pack_header_of g c h b) AND 0xFF = h AND 0xFF"
  "pack_header_of g c h b AND 0xFF = b AND 0xFF"
proof -
  have m: "(0xFFF :: u32) = mask 12" "(0xFF :: u32) = mask 8" by (simp_all add: mask_eq_exp_minus_1)
  show "drop_bit 16 (pack_header_of g c h b) AND 0xFFF = c AND 0xFFF"
    unfolding pack_header_of_def m by (rule bit_word_eqI) (auto simp: bit_simps)
  show "drop_bit 8 (pack_header_of g c h b) AND 0xFF = h AND 0xFF"
    unfolding pack_header_of_def m by (rule bit_word_eqI) (auto simp: bit_simps)
  show "pack_header_of g c h b AND 0xFF = b AND 0xFF"
    unfolding pack_header_of_def m by (rule bit_word_eqI) (auto simp: bit_simps)
qed

lemma small_and_mask: "unat (x :: u32) < 2 ^ n \<Longrightarrow> x AND mask n = x"
  by (simp add: word_unat_eq_iff unsigned_take_bit_eq take_bit_nat_eq_self flip: take_bit_eq_mask)


lemma own_header_inj:
  assumes g: "drive_type g" and l: "lba < cylinders g * heads g * blocks_per_track g"
      "lba' < cylinders g * heads g * blocks_per_track g"
    and h: "own_header g lba = own_header g lba'"
  shows "lba = lba'"
proof -
  obtain c hd b c' hd' b' where x: "pack_chb g lba = (c, hd, b)" "pack_chb g lba' = (c', hd', b')"
    by (cases "pack_chb g lba", cases "pack_chb g lba'")
  note r = lba_of_chb [OF g l(1) x(1)] lba_of_chb [OF g l(2) x(2)]
  have small: "c AND 0xFFF = c \<and> hd AND 0xFF = hd \<and> b AND 0xFF = b" if "pack_lba g c hd b = Some n" for c hd b n
    using that drive_type_bounds [OF g] small_and_mask [of c 12] small_and_mask [of hd 8] small_and_mask [of b 8]
    by (auto simp: pack_lba_def not_le word_less_nat_alt mask_eq_exp_minus_1 split: if_splits)
  have "pack_header_of g c hd b = pack_header_of g c' hd' b'" using h x by (simp add: own_header_def)
  then have "(c, hd, b) = (c', hd', b')"
    using small [OF r(1)] small [OF r(2)] pack_header_fields [of g c hd b] pack_header_fields [of g c' hd' b']
    by simp
  with r show ?thesis by simp
qed

lemma unat_suc: "unat (x :: u32) < 0xFFFFFFFF \<Longrightarrow> unat (x + 1) = unat x + 1"
  by (subst unat_add_lem [THEN iffD1]) auto

lemma pack_lba_eqI:
  assumes "drive_type g" and "c < cylinders g" "h < heads g" "b < blocks_per_track g"
    and "(unat c * unat (heads g) + unat h) * 17 + unat b = unat lba"
  shows "pack_lba g c h b = Some lba"
  using pack_lba_nat [OF assms(1-4)] assms(2-5) by (simp add: pack_lba_def word_unat_eq_iff not_le [symmetric])

lemma next_block_code_lba:
  assumes g: "drive_type g" and r: "pack_lba g c h b = Some lba"
  shows "next_block_code g c h b = 0 \<Longrightarrow> pack_lba g c h (b + 1) = Some (lba + 1)"
    and "next_block_code g c h b = 1 \<Longrightarrow> pack_lba g c (h + 1) 0 = Some (lba + 1)"
    and "next_block_code g c h b = 2 \<Longrightarrow> pack_lba g (c + 1) 0 0 = Some (lba + 1)"
    and "next_block_code g c h b = 3 \<Longrightarrow> lba + 1 = cylinders g * heads g * blocks_per_track g"
proof -
  note d = drive_type_bounds [OF g]
  have l: "c < cylinders g" "h < heads g" "b < blocks_per_track g"
    and lba: "unat lba = (unat c * unat (heads g) + unat h) * 17 + unat b"
    using r pack_lba_nat [OF g, of c h b] by (auto simp: pack_lba_def not_le split: if_splits)
  have l': "unat h < unat (heads g)" "unat b < 17" "unat c < 815" using l d by (auto simp: word_less_nat_alt)
  have "unat lba < unat (cylinders g * heads g * blocks_per_track g)"
    using chb_of_lba(2) [OF g r] by (simp add: word_less_nat_alt)
  then have s: "unat (lba + 1) = unat lba + 1" using d(3,4) by (intro unat_suc) auto
  have sc: "unat (c + 1) = unat c + 1" "unat (h + 1) = unat h + 1" "unat (b + 1) = unat b + 1"
    using l' d(3) unat_suc [of c] unat_suc [of h] unat_suc [of b] by auto
  have big: "b + 1 < blocks_per_track g \<longleftrightarrow> unat b + 1 < 17" "h + 1 < heads g \<longleftrightarrow> unat h + 1 < unat (heads g)"
    "c + 1 < cylinders g \<longleftrightarrow> unat c + 1 < 815"
    using sc d by (auto simp: word_less_nat_alt)
  note code = next_block_code_def big
  show "pack_lba g c h (b + 1) = Some (lba + 1)" if "next_block_code g c h b = 0"
    using that l lba s sc big by (intro pack_lba_eqI [OF g]) (auto simp: code split: if_splits)
  have top: "unat b = 16" if "next_block_code g c h b \<noteq> 0" using that l'(2) by (auto simp: code split: if_splits)
  have "end": "unat b = 16" if "next_block_code g c h b \<in> {2, 3}"
    using that l'(2) by (auto simp: code split: if_splits)
  have last: "Suc (unat h) = unat (heads g)" if "next_block_code g c h b \<in> {2, 3}"
    using that l'(1) by (auto simp: code split: if_splits)
  have pos: "0 < blocks_per_track g" "0 < heads g" using l by (auto simp: word_gt_0)
  show "pack_lba g c (h + 1) 0 = Some (lba + 1)" if n: "next_block_code g c h b = 1"
    using n top l pos lba s sc big by (intro pack_lba_eqI [OF g]) (auto simp: code algebra_simps split: if_splits)
  have turn: "unat lba + 1 = (unat c + 1) * unat (heads g) * 17" if "next_block_code g c h b \<in> {2, 3}"
    using "end" [OF that] by (simp add: lba algebra_simps flip: last [OF that])
  show "pack_lba g (c + 1) 0 0 = Some (lba + 1)" if n: "next_block_code g c h b = 2"
    using n turn l pos s sc big by (intro pack_lba_eqI [OF g]) (auto simp: code split: if_splits)
  show "lba + 1 = cylinders g * heads g * blocks_per_track g" if n: "next_block_code g c h b = 3"
  proof -
    have "unat c + 1 = 815" using n l'(3) by (auto simp: code split: if_splits)
    then show ?thesis using turn n s d(4) by (simp add: word_unat_eq_iff)
  qed
qed


section \<open>What an open finds\<close>

lemma fd_bytes_install:
  assumes "install_fd k (i, w) = (fd, k')" and "k_inodes k i = Some n"
  shows "fd_bytes k' fd = Some (i_bytes n)" and "fd_inode k' fd = Some (i, w)"
proof -
  have le: "free_slot xs \<le> length xs" for xs :: "'a option list"
    by (induction xs rule: free_slot.induct) auto
  show "fd_inode k' fd = Some (i, w)"
    using assms(1) le [of "k_fds k"] by (auto simp: install_fd_def fd_inode_def Let_def nth_append)
  then show "fd_bytes k' fd = Some (i_bytes n)"
    using assms by (auto simp: install_fd_def fd_bytes_def Let_def split: if_splits)
qed

lemma sys_open_bytes:
  assumes "sys_open path w k = (Inr fd, k')"
  shows "\<exists>f. fd_bytes k' fd = Some f"
  using assms by (auto simp: sys_open_def dest!: fd_bytes_install(1)
      split: prod.splits outcome.splits option.splits if_splits)

lemma pack_geometry_of_size_drive:
  assumes "pack_geometry_of_size (of_nat n) = Some g" and "n < 2 ^ 63"
  shows "drive_type g" and "n = unat (cylinders g * heads g * blocks_per_track g) * 1024"
proof -
  have "unat (of_nat n :: u64) = n" using assms(2) by (simp add: unat_of_nat)
  moreover have "of_nat n = pack_size_of g" "drive_type g"
    using assms(1) by (auto simp: pack_geometry_of_size_def drive_type_def split: if_splits)
  moreover have "unat (pack_size_of g) = unat (cylinders g * heads g * blocks_per_track g) * 1024"
    using calculation(3) by (auto simp: drive_type_def PACK_T80_def PACK_T300_def pack_size_of_def)
  ultimately show "drive_type g" "n = unat (cylinders g * heads g * blocks_per_track g) * 1024" by auto
qed

text \<open>A file's size is an \<^verbatim>\<open>off_t\<close>: below two to the sixty-third.\<close>

definition off_t_files :: "kernel \<Rightarrow> bool" where
  "off_t_files k \<longleftrightarrow> (\<forall>i n. k_inodes k i = Some n \<longrightarrow> length (i_bytes n) < 2 ^ 63)"

lemma sys_open_inodes: "sys_open path w k = (r, k') \<Longrightarrow> k_inodes k' = k_inodes k"
  using next_outcome_same [of k]
  by (auto simp: sys_open_def install_fd_def same_files_def Let_def
      split: prod.splits outcome.splits option.splits if_splits)

lemma off_t_fd: "off_t_files k \<Longrightarrow> fd_bytes k fd = Some f \<Longrightarrow> length f < 2 ^ 63"
  by (auto simp: off_t_files_def fd_bytes_def split: option.splits)

lemma pack_open_ok:
  assumes "pack_open path w k = (Inr (), p, k')" and "off_t_files k"
  shows "\<exists>f. fd_bytes k' (p_fd p) = Some f \<and> cadr_pack_ok p f \<and> length f = unat (p_blocks p) * 1024 \<and>
    drive_type (p_g p) \<and> p_blocks p = cylinders (p_g p) * heads (p_g p) * blocks_per_track (p_g p) \<and>
    p_headers p = [] \<and> p_dcks p = [] \<and> p_writable p = w \<and> p_size p = length f"
proof -
  from assms(1) obtain fd k1 st g where o: "sys_open path w k = (Inr fd, k1)"
    and st: "sys_fstat fd k1 = (Inr st, k')" and g: "pack_geometry_of_size (of_nat (st_size st)) = Some g"
    and p: "p = pack_zero\<lparr>p_fd := fd, p_g := g, p_writable := w,
        p_blocks := cylinders g * heads g * blocks_per_track g,
        p_dev := st_dev st, p_ino := st_ino st, p_size := st_size st\<rparr>"
    by (auto simp: pack_open_def Let_def split: prod.splits sum.splits option.splits)
  obtain f where f: "fd_bytes k1 fd = Some f" using sys_open_bytes [OF o] by blast
  have len: "st_size st = length f" using sys_fstat_size [OF st f] .
  have "length f < 2 ^ 63" using off_t_fd [of k1 fd f] f assms(2) sys_open_inodes [OF o] by (simp add: off_t_files_def)
  with pack_geometry_of_size_drive [OF g] len
  have "drive_type g" "length f = unat (cylinders g * heads g * blocks_per_track g) * 1024" by auto
  moreover have "fd_bytes k' fd = Some f" using same_files_fd_bytes [OF sys_fstat_same [OF st]] f by simp
  ultimately show ?thesis using len by (auto simp: p pack_zero_def cadr_pack_ok_def)
qed

section \<open>A write-back goes through\<close>

lemma sys_alloc_quiet: "k_script k = [] \<Longrightarrow> sys_alloc k = (True, k)"
  by (simp add: sys_alloc_def next_outcome_quiet)

lemma pack_lay_quiet:
  assumes "k_script k = []"
  shows "\<exists>p'. pack_lay_header p lba words k = (True, p', k)"
    and "\<exists>p'. pack_lay_checkword p lba words k = (True, p', k)"
  using assms
  by (auto simp: pack_lay_header_def pack_lay_checkword_def header_insert_def dck_insert_def sys_alloc_quiet Let_def
      split: prod.splits option.splits)

lemma pack_writeback_quiet:
  assumes "quiet k (p_fd p) f" and "lba < p_blocks p" and "p_writable p" and "\<not> p_quux p"
    and "length words = 259"
  shows "\<exists>p' k'. pack_writeback p lba words k = (Inr (), p', k')"
proof -
  let ?bs = "bytes_of_words (take 256 words)"
  let ?k = "put_fd_bytes (p_fd p) (write_bytes (unat lba * 1024) ?bs f) k"
  from assms(1) obtain i where q: "k_script k = []" "fd_bytes k (p_fd p) = Some f" "fd_inode k (p_fd p) = Some (i, True)"
    by (auto simp: quiet_def)
  have k: "k_script ?k = []" "fd_inode ?k (p_fd p) = Some (i, True)" using q by simp_all
  from pack_lay_quiet(1) [OF k(1)] obtain p1 where h: "pack_lay_header p lba words ?k = (True, p1, ?k)" by blast
  from pack_lay_quiet(2) [OF k(1)] obtain p2 where c: "pack_lay_checkword p1 lba words ?k = (True, p2, ?k)" by blast
  have "p_fd p2 = p_fd p"
    using pack_lay_header_any(2) [OF h] pack_lay_checkword_any(2) [OF c] by (simp add: same_drive_def)
  then have "sys_fdatasync (p_fd p2) ?k = (Inr (), ?k)"
    using k by (simp add: sys_fdatasync_def next_outcome_quiet)
  with assms(2-5) h c sys_pwrite_quiet [OF q, of ?bs "unat lba * 1024"] show ?thesis
    by (simp add: pack_writeback_def not_le sync_failed_def)
qed

section \<open>The tables stay lean\<close>

definition tables_lean :: "pack \<Rightarrow> u8 list \<Rightarrow> bool" where
  "tables_lean p f \<longleftrightarrow>
     (\<forall>lba v. tab_get he_lba he_val (p_headers p) lba = Some v \<longrightarrow>
        lba < p_blocks p \<and> v \<noteq> own_pair (p_g p) lba) \<and>
     (\<forall>lba v. tab_get de_lba de_checkword (p_dcks p) lba = Some v \<longrightarrow>
        lba < p_blocks p \<and> v \<noteq> ecc_over_words (block_words f lba))"

lemma writeback_lean:
  assumes lean: "tables_lean p f" and ok: "cadr_pack_ok p f" and len: "length words = 259"
    and n: "lba < p_blocks p" and d: "same_drive p p'"
    and t: "p_headers p' = laid_headers p lba words" "p_dcks p' = laid_dcks p lba words"
  shows "tables_lean p' (write_bytes (unat lba * 1024) (bytes_of_words (take 256 words)) f)"
proof -
  let ?f = "write_bytes (unat lba * 1024) (bytes_of_words (take 256 words)) f"
  have b: "block_words ?f m = (if m = lba then take 256 words else block_words f m)" if "m < p_blocks p" for m
    using len n that ok by (intro block_words_write) (auto simp: cadr_pack_ok_def)
  have d': "p_g p' = p_g p" "p_blocks p' = p_blocks p" using d by (auto simp: same_drive_def)
  have tk: "tab_ok he_lba (p_headers p)" "tab_ok de_lba (p_dcks p)" using ok by (auto simp: cadr_pack_ok_def)
  have before: "m < p_blocks p" "v \<noteq> own_pair (p_g p) m"
    if "tab_get he_lba he_val (p_headers p) m = Some v" for m v
    using that lean unfolding tables_lean_def by blast+
  have "m < p_blocks p \<and> v \<noteq> own_pair (p_g p) m"
    if "tab_get he_lba he_val (laid_headers p lba words) m = Some v" for m v
    using that n before unfolding laid_headers_def
    by (auto simp: headers.get_put [OF tk(1)] headers.get_del [OF tk(1)] split: if_splits)
  moreover have "m < p_blocks p \<and> v \<noteq> ecc_over_words (block_words ?f m)"
    if "tab_get de_lba de_checkword (laid_dcks p lba words) m = Some v" for m v
    using that lean n b [of m] unfolding laid_dcks_def tables_lean_def
    by (auto simp: dcks.get_put [OF tk(2)] dcks.get_del [OF tk(2)] split: if_splits)
  ultimately show ?thesis unfolding tables_lean_def t d' by blast
qed


section \<open>A write-back that fails\<close>

lemma shown_record_other:
  assumes "same_drive p p'" and "m \<noteq> lba" and "m < p_blocks p" and "cadr_pack_ok p f" and "length words = 259"
    and "p_headers p' \<in> {p_headers p, laid_headers p lba words}"
    and "p_dcks p' \<in> {p_dcks p, laid_dcks p lba words}"
    and "f' = write_bytes (unat lba * 1024) (take c (bytes_of_words (take 256 words))) f"
  shows "shown_record p' f' m = shown_record p f m"
proof -
  have ok: "tab_ok he_lba (p_headers p)" "tab_ok de_lba (p_dcks p)" "unat (p_blocks p) * 1024 \<le> length f"
    using assms(4) by (auto simp: cadr_pack_ok_def)
  have "unat m \<noteq> unat lba" using assms(2) by (simp add: word_unat_eq_iff)
  moreover have "unat m * 1024 + 1024 \<le> length f" using assms(3) ok(3) by (auto simp: word_less_nat_alt)
  ultimately have "read_bytes (unat m * 1024) 1024 f' = read_bytes (unat m * 1024) 1024 f"
    unfolding assms(8) using assms(5) by (intro read_write_apart) auto
  then have b: "block_words f' m = block_words f m" by (simp add: block_words_def)
  have "tab_get he_lba he_val (p_headers p') m = tab_get he_lba he_val (p_headers p) m"
    using assms(2,6) by (auto simp: laid_headers_def headers.get_put [OF ok(1)] headers.get_del [OF ok(1)])
  moreover have "tab_get de_lba de_checkword (p_dcks p') m = tab_get de_lba de_checkword (p_dcks p) m"
    using assms(2,7) by (auto simp: laid_dcks_def dcks.get_put [OF ok(2)] dcks.get_del [OF ok(2)])
  ultimately show ?thesis
    using assms(1) b by (simp add: shown_record_def shown_header_def shown_dck_def same_drive_def
        cong: option.case_cong)
qed

text \<open>Whatever step a CADR pack's write-back stopped at, the struct and the file after it.\<close>

lemma pack_writeback_any:
  assumes w: "pack_writeback p lba words k = (r, p', k')" and q: "\<not> p_quux p"
    and f: "fd_bytes k (p_fd p) = Some f"
  shows "\<exists>c. same_drive p p' \<and> p_headers p' \<in> {p_headers p, laid_headers p lba words} \<and>
    p_dcks p' \<in> {p_dcks p, laid_dcks p lba words} \<and>
    fd_bytes k' (p_fd p) = Some (write_bytes (unat lba * 1024) (take c (bytes_of_words (take 256 words))) f)"
proof (cases "p_blocks p \<le> lba \<or> \<not> p_writable p")
  case True
  with w q f show ?thesis
    by (intro exI [of _ 0]) (auto simp: pack_writeback_def same_drive_def write_bytes_def split: if_splits)
next
  case False
  let ?bs = "bytes_of_words (take 256 words)"
  obtain rw k1 where pw: "sys_pwrite (p_fd p) ?bs (unat lba * 1024) k = (rw, k1)"
    by (cases "sys_pwrite (p_fd p) ?bs (unat lba * 1024) k")
  from sys_pwrite_prefix [OF pw f] obtain c where
    f1: "fd_bytes k1 (p_fd p) = Some (write_bytes (unat lba * 1024) (take c ?bs) f)" by blast
  obtain b1 p1 k2 where h: "pack_lay_header p lba words k1 = (b1, p1, k2)"
    by (cases "pack_lay_header p lba words k1")
  obtain b2 p2 k3 where c: "pack_lay_checkword p1 lba words k2 = (b2, p2, k3)"
    by (cases "pack_lay_checkword p1 lba words k2")
  obtain rs k4 where s: "sys_fdatasync (p_fd p2) k3 = (rs, k4)" by (cases "sys_fdatasync (p_fd p2) k3")
  note h' = pack_lay_header_any [OF h] and c' = pack_lay_checkword_any [OF c]
  have same: "same_files k1 k2" "same_files k1 k3" "same_files k1 k4"
    using h'(1) c'(1) sys_fdatasync_same [OF s] by (blast intro: same_files_trans)+
  from w False q pw h c s consider "p' = p" "k' = k1" | "p' = p1" "k' = k2" | "p' = p2" "k' = k3" | "p' = p2" "k' = k4"
    by (auto simp: pack_writeback_def split: sum.splits if_splits bool.splits option.splits)
  then have "same_drive p p' \<and> p_headers p' \<in> {p_headers p, laid_headers p lba words} \<and>
      p_dcks p' \<in> {p_dcks p, laid_dcks p lba words} \<and> same_files k1 k'"
    using h'(2-) c'(2-) same by cases (auto simp: same_drive_def laid_dcks_def split: if_splits)
  with f1 show ?thesis by (auto simp: same_files_fd_bytes)
qed


section \<open>A small pack\<close>

text \<open>A pack of two blocks on an otherwise empty file, and a record whose header is foreign to it.\<close>

definition small_pack :: pack where
  "small_pack = pack_zero\<lparr>p_writable := True, p_g := PACK_T80, p_blocks := 2, p_size := 2048\<rparr>"

definition small_quux :: pack where
  "small_quux = pack_zero\<lparr>p_writable := True, p_quux := True, p_blocks := 2, p_size := 2048,
     p_q := quux_disk_zero\<lparr>q_size := 2048, q_blocks := 2\<rparr>\<rparr>"

definition small_kernel :: kernel where
  "small_kernel = one_file (replicate 2048 0) []"

definition t80_kernel :: kernel where
  "t80_kernel = (one_file (replicate 70937600 0) [])\<lparr>k_names := [''pack0'' \<mapsto> (0, 0)], k_fds := []\<rparr>"

definition small_record :: "u32 list" where
  "small_record = replicate 256 7 @ [1, 2, 3]"

lemma small_pack_simps [simp]:
  "p_blocks small_pack = 2" "p_fd small_pack = 0" "p_writable small_pack" "\<not> p_quux small_pack"
  "length small_record = 259"
  by (simp_all add: small_pack_def pack_zero_def small_record_def)

lemma small_quux_fields:
  "p_blocks small_quux = 2" "p_fd small_quux = 0" "p_writable small_quux" "p_quux small_quux"
  by (simp_all add: small_quux_def pack_zero_def)

lemma small_pack_inv [simp]: "cadr_pack_inv (small_pack, small_kernel)"
  by (simp add: cadr_pack_inv_def cadr_pack_ok_def small_pack_def pack_zero_def small_kernel_def)

lemma small_pack_lean [simp]: "tables_lean small_pack (replicate 2048 0)"
  by (simp add: tables_lean_def small_pack_def pack_zero_def tab_get_def)

lemma small_pack_write:
  obtains s' where "write_all pack_wr (small_pack, small_kernel) [(1, small_record)] = Some s'"
proof -
  have "quiet small_kernel (p_fd small_pack) (replicate 2048 0)" by (simp add: small_kernel_def)
  then obtain p' k' where "pack_writeback small_pack 1 small_record small_kernel = (Inr (), p', k')"
    using pack_writeback_quiet [of small_kernel small_pack "replicate 2048 0" 1 small_record]
    by (auto simp: word_less_nat_alt)
  then show ?thesis using that by (simp add: pack_wr_def)
qed

section \<open>The pack's properties\<close>

text \<open>
  C9. After any sequence of successful write-backs to a CADR pack, the record of a block is the
  259 words last laid there, data, header and both checkwords, whether they are the format's
  own or not, and a block never written shows the record it had.
\<close>

theorem pack_writes_read_back:
  assumes "cadr_pack_inv s" and "write_all pack_wr s ws = Some s'"
    and "\<forall>(n, b) \<in> set ws. length b = PACK_RECORD_WORDS"
  shows "pack_rd s' m = (case map_of (rev ws) m of Some b \<Rightarrow> Some b | None \<Rightarrow> pack_rd s m)"
  using assms(2,1,3) by (rule cadr_pack.write_all_read)

theorem pack_writes_read_back_witness:
  "\<exists>s'. write_all pack_wr (small_pack, small_kernel) [(1, small_record)] = Some s' \<and>
     pack_rd s' 1 = Some small_record"
proof -
  obtain s' where "write_all pack_wr (small_pack, small_kernel) [(1, small_record)] = Some s'"
    by (rule small_pack_write)
  with pack_writes_read_back [OF small_pack_inv this, of 1] show ?thesis by auto
qed

text \<open>
  The same of QUUX's disk through the pack's operations: the 256 words of a block read back
  as written, with three zeros after them.
\<close>

theorem pack_quux_writes_read_back:
  assumes "quux_pack_inv s" and "write_all pack_wr s ws = Some s'"
    and "\<forall>(n, b) \<in> set ws. length b = PACK_RECORD_WORDS \<and> drop PACK_BLOCK_WORDS b = [0, 0, 0]"
  shows "pack_rd s' m = (case map_of (rev ws) m of Some b \<Rightarrow> Some b | None \<Rightarrow> pack_rd s m)"
  using assms(2,1,3) by (rule quux_pack.write_all_read)

theorem pack_quux_writes_read_back_witness:
  "\<exists>s'. write_all pack_wr (small_quux, small_kernel) [(1, replicate 256 7 @ [0, 0, 0])] = Some s' \<and>
     pack_rd s' 1 = Some (replicate 256 7 @ [0, 0, 0])"
proof -
  let ?ws = "replicate 256 7 @ [0, 0, 0] :: u32 list"
  let ?bs = "bytes_of_words (replicate 256 7)"
  have q: "k_script small_kernel = []" "fd_bytes small_kernel 0 = Some (replicate 2048 0)"
    "fd_inode small_kernel 0 = Some ((0, 0), True)"
    by (simp_all add: small_kernel_def one_file_def fd_bytes_def fd_inode_def)
  let ?k = "put_fd_bytes 0 (write_bytes 1024 ?bs (replicate 2048 0)) small_kernel"
  have "quux_disk_write 0 (p_q small_quux) 1 ?bs small_kernel = (Inr (), p_q small_quux, ?k)"
    using sys_pwrite_quiet [OF q, of ?bs 1024]
    by (simp add: quux_disk_write_def small_quux_def quux_disk_zero_def write_at_def word_le_nat_alt)
  moreover have "sys_fstat 0 ?k = (Inr (stat_of (0, 0) (the (k_inodes ?k (0, 0)))), ?k)"
    using q fd_bytes_put [OF q(2)] by (auto simp: sys_fstat_def next_outcome_quiet fd_bytes_def split: option.splits)
  moreover have "sys_fdatasync 0 ?k = (Inr (), ?k)"
    using q by (simp add: sys_fdatasync_def next_outcome_quiet)
  ultimately have "\<exists>s'. write_all pack_wr (small_quux, small_kernel) [(1, ?ws)] = Some s'"
    by (simp add: pack_wr_def pack_writeback_def pack_writeback_quux_def word_le_nat_alt sync_failed_def
        small_quux_fields)
  then obtain s' where w: "write_all pack_wr (small_quux, small_kernel) [(1, ?ws)] = Some s'" by blast
  have "quux_pack_inv (small_quux, small_kernel)"
    using q by (simp add: quux_pack_inv_def quux_inv_def vhd_ok_def small_quux_def pack_zero_def quux_disk_zero_def)
  from pack_quux_writes_read_back [OF this w, of 1] w show ?thesis by auto
qed

text \<open>
  C21. A write-back to a CADR pack that fails, at the data, at either table or at the sync, and
  with any prefix of the data already out, changes the record of no other block.
\<close>

theorem pack_failed_writeback_harmless:
  assumes "cadr_pack_inv (p, k)" and "length words = PACK_RECORD_WORDS"
    and "pack_writeback p lba words k = (Inl e, p', k')" and "m \<noteq> lba"
  shows "pack_rd (p', k') m = pack_rd (p, k) m"
proof -
  obtain f where f: "fd_bytes k (p_fd p) = Some f" and ok: "cadr_pack_ok p f"
    using assms(1) by (auto simp: cadr_pack_inv_def)
  from pack_writeback_any [OF assms(3) _ f] ok obtain c where
    d: "same_drive p p'" and t: "p_headers p' \<in> {p_headers p, laid_headers p lba words}"
      "p_dcks p' \<in> {p_dcks p, laid_dcks p lba words}"
    and f': "fd_bytes k' (p_fd p) = Some (write_bytes (unat lba * 1024) (take c (bytes_of_words (take 256 words))) f)"
      (is "_ = Some ?f'")
    by (auto simp: cadr_pack_ok_def)
  have "unat (p_blocks p) * 1024 \<le> length ?f'" using ok by (intro le_length_write_bytes) (simp add: cadr_pack_ok_def)
  then have "cadr_pack_ok p' ?f'"
    using ok d t by (auto simp: cadr_pack_ok_def same_drive_def laid_headers_def laid_dcks_def
        headers.ok_put headers.ok_del dcks.ok_put dcks.ok_del)
  then have r: "pack_rd (p', k') m = (if m < p_blocks p then Some (shown_record p' ?f' m) else None)"
    using pack_rd_shown [of k' p' ?f' m] f' d by (simp add: same_drive_def)
  show ?thesis
    using r pack_rd_shown [OF f ok] shown_record_other [OF d assms(4) _ ok assms(2) t refl] by simp
qed

theorem pack_failed_writeback_harmless_witness:
  "\<exists>p' k'. pack_writeback small_pack 1 small_record (small_kernel\<lparr>k_script := [Fine, Fail ENOMEM]\<rparr>) =
     (Inl Pack_no_headers, p', k') \<and> pack_rd (p', k') 0 = pack_rd (small_pack, small_kernel) 0"
proof -
  let ?k = "small_kernel\<lparr>k_script := [Fine, Fail ENOMEM]\<rparr>"
  have c: "pack_chb PACK_T80 1 = (0, 0, 1)" by code_simp
  have "pack_header_of PACK_T80 0 0 1 \<noteq> 1 \<or> ecc_over_words [1] \<noteq> 2" by code_simp
  then have n: "\<not> (small_record ! 256 = pack_header_of PACK_T80 0 0 1 \<and>
      small_record ! 257 = ecc_over_words [pack_header_of PACK_T80 0 0 1])"
    by (auto simp: small_record_def nth_append)
  have i: "fd_inode ?k 0 = Some ((0, 0), True)" by (simp add: small_kernel_def one_file_def fd_inode_def)
  let ?bs = "bytes_of_words (take 256 small_record)"
  obtain k1 where pw: "sys_pwrite 0 ?bs 1024 ?k = (Inr 1024, k1)" and s1: "k_script k1 = [Fail ENOMEM]"
    using i by (auto simp: sys_pwrite_def next_outcome_def small_kernel_def fd_inode_def Let_def one_file_def
        fd_bytes_def small_record_def)
  have "pack_lay_header small_pack 1 small_record k1 = (False, small_pack, k1\<lparr>k_script := []\<rparr>)"
    using n c s1 by (auto simp: pack_lay_header_def header_insert_def header_find_def small_pack_def pack_zero_def
        sys_alloc_def next_outcome_def Let_def)
  with pw have "pack_writeback small_pack 1 small_record ?k = (Inl Pack_no_headers, small_pack, k1\<lparr>k_script := []\<rparr>)"
    by (simp add: pack_writeback_def word_le_nat_alt)
  moreover have "cadr_pack_inv (small_pack, ?k)" using small_pack_inv by (simp add: cadr_pack_inv_def)
  moreover have "pack_rd (small_pack, ?k) 0 = pack_rd (small_pack, small_kernel) 0" by (simp add: pack_rd_def)
  ultimately show ?thesis using pack_failed_writeback_harmless [of small_pack ?k small_record 1 _ _ _ 0] by auto
qed

text \<open>
  In a system where no call fails, a write-back to a block of a writable pack succeeds.
\<close>

theorem pack_writeback_completes:
  assumes "quiet k (p_fd p) f" and "lba < p_blocks p" and "p_writable p" and "\<not> p_quux p"
    and "length words = PACK_RECORD_WORDS"
  shows "\<exists>p' k'. pack_writeback p lba words k = (Inr (), p', k')"
  using assms by (rule pack_writeback_quiet)

theorem pack_writeback_completes_witness:
  "\<exists>p' k'. pack_writeback small_pack 1 small_record small_kernel = (Inr (), p', k')"
  using pack_writeback_completes [of small_kernel small_pack "replicate 2048 0" 1 small_record]
  by (simp add: small_kernel_def word_less_nat_alt)

text \<open>
  The tables hold exactly the sectors that disagree with the format: through any sequence
  of write-backs, no entry's header is its sector's own and no entry's checkword is the one
  over its sector's data.
\<close>

theorem pack_tables_stay_lean:
  assumes "cadr_pack_inv (p, k)" and "fd_bytes k (p_fd p) = Some f" and "tables_lean p f"
    and "write_all pack_wr (p, k) ws = Some (p', k')"
    and "\<forall>(n, b) \<in> set ws. length b = PACK_RECORD_WORDS"
  shows "\<exists>f'. fd_bytes k' (p_fd p') = Some f' \<and> tables_lean p' f'"
proof -
  let ?P = "\<lambda>s. \<exists>f. fd_bytes (snd s) (p_fd (fst s)) = Some f \<and> tables_lean (fst s) f"
  have "?P s'" if i: "cadr_pack_inv s" and b: "length b = 259" and P: "?P s" and wr: "pack_wr s n b = Some s'"
    for s n b s'
  proof -
    obtain p k p' k' where s: "s = (p, k)" "s' = (p', k')" by (cases s, cases s')
    obtain f where f: "fd_bytes k (p_fd p) = Some f" "tables_lean p f" "cadr_pack_ok p f"
      using i P by (auto simp: s cadr_pack_inv_def)
    have w: "pack_writeback p n b k = (Inr (), p', k')"
      using wr by (auto simp: s pack_wr_def split: prod.splits sum.splits)
    have q: "\<not> p_quux p" using f(3) by (simp add: cadr_pack_ok_def)
    note r = pack_writeback_ok [OF w q f(1) b]
    from writeback_lean [OF f(2,3) b r(1,3,5,6)] r show ?thesis by (auto simp: s same_drive_def)
  qed
  from cadr_pack.write_all_keeps [of ?P, OF this assms(4,1,5)] assms(2,3) show ?thesis by auto
qed

theorem pack_tables_stay_lean_witness:
  "\<exists>p' k' f'. write_all pack_wr (small_pack, small_kernel) [(1, small_record)] = Some (p', k') \<and>
     fd_bytes k' (p_fd p') = Some f' \<and> tables_lean p' f'"
proof -
  obtain p' k' where w: "write_all pack_wr (small_pack, small_kernel) [(1, small_record)] = Some (p', k')"
    using small_pack_write by (metis surj_pair)
  have "fd_bytes small_kernel (p_fd small_pack) = Some (replicate 2048 0)" by (simp add: small_kernel_def)
  from pack_tables_stay_lean [OF small_pack_inv this small_pack_lean w] w show ?thesis by auto
qed


text \<open>
  C23. A file that opens as a pack is a T-80 or a T-300, exactly as many blocks as the drive
  has, with empty tables; so the pack keeps its contract from the open on.
\<close>

theorem pack_open_sound:
  assumes "pack_open path w k = (Inr (), p, k')" and "off_t_files k"
  shows "cadr_pack_inv (p, k') \<and> drive_type (p_g p) \<and> p_writable p = w \<and>
    (\<exists>f. fd_bytes k' (p_fd p) = Some f \<and> length f = p_size p \<and> tables_lean p f \<and>
       length f = unat (p_blocks p) * PACK_BLOCK_BYTES) \<and>
    p_blocks p = cylinders (p_g p) * heads (p_g p) * blocks_per_track (p_g p)"
  using pack_open_ok [OF assms] by (auto simp: cadr_pack_inv_def tables_lean_def tab_get_def)

theorem pack_open_sound_witness:
  "\<exists>p k'. pack_open ''pack0'' True t80_kernel = (Inr (), p, k') \<and> p_blocks p = 69275 \<and> cadr_pack_inv (p, k')"
proof -
  have g: "pack_geometry_of_size 70937600 = Some PACK_T80" by code_simp
  have b: "cylinders PACK_T80 * heads PACK_T80 * blocks_per_track PACK_T80 = 69275" by code_simp
  have "\<exists>p k'. pack_open ''pack0'' True t80_kernel = (Inr (), p, k') \<and> p_blocks p = 69275"
    using g b by (simp add: pack_open_def sys_open_def sys_fstat_def t80_kernel_def next_outcome_def install_fd_def
        fd_inode_def stat_of_def one_file_def)
  moreover have "off_t_files t80_kernel" by (simp add: off_t_files_def t80_kernel_def one_file_def)
  ultimately show ?thesis using pack_open_sound by blast
qed

text \<open>
  C13. On either drive, block numbers and addresses of cylinder, head and block are one to one:
  \<^verbatim>\<open>pack_lba\<close> and \<^verbatim>\<open>pack_chb\<close> are inverse to each other, and no 32-bit product wraps.
\<close>

theorem pack_lba_chb_inverse:
  assumes "drive_type g"
  shows "pack_lba g c h b = Some lba \<longleftrightarrow>
    lba < cylinders g * heads g * blocks_per_track g \<and> pack_chb g lba = (c, h, b)"
  using chb_of_lba [OF assms] lba_of_chb [OF assms] by blast

theorem pack_lba_chb_inverse_witness: "pack_lba PACK_T300 814 18 16 = Some 263244"
proof -
  have "(263244 :: u32) < cylinders PACK_T300 * heads PACK_T300 * blocks_per_track PACK_T300" by code_simp
  moreover have "pack_chb PACK_T300 263244 = (814, 18, 16)" by code_simp
  ultimately show ?thesis using pack_lba_chb_inverse [of PACK_T300] by (simp add: drive_type_def)
qed

text \<open>
  The next-block code of a header tells where the next block number is: the next block of
  the track, block 0 under the next head, block 0 under head 0 of the next cylinder, or nowhere,
  the pack ending here.
\<close>

theorem next_block_code_follows:
  assumes "drive_type g" and "pack_lba g c h b = Some lba"
  shows "(next_block_code g c h b = 0 \<and> pack_lba g c h (b + 1) = Some (lba + 1)) \<or>
    (next_block_code g c h b = 1 \<and> pack_lba g c (h + 1) 0 = Some (lba + 1)) \<or>
    (next_block_code g c h b = 2 \<and> pack_lba g (c + 1) 0 0 = Some (lba + 1)) \<or>
    (next_block_code g c h b = 3 \<and> lba + 1 = cylinders g * heads g * blocks_per_track g)"
proof -
  have "next_block_code g c h b \<in> {0, 1, 2, 3}" by (simp add: next_block_code_def)
  then show ?thesis using next_block_code_lba [OF assms] by auto
qed

theorem next_block_code_follows_witness:
  "next_block_code PACK_T80 814 4 16 = 3 \<and> pack_lba PACK_T80 814 4 16 = Some 69274"
proof -
  have "pack_lba PACK_T80 814 4 16 = Some 69274" by code_simp
  moreover have "next_block_code PACK_T80 814 4 16 \<notin> {0, 1, 2}" by code_simp
  ultimately show ?thesis using next_block_code_follows [of PACK_T80 814 4 16 69274] by (auto simp: drive_type_def)
qed

text \<open>
  No two sectors of a pack have the same header, so a header read off the surface says
  which sector it is.
\<close>

theorem own_headers_differ:
  assumes "drive_type g" and "lba < cylinders g * heads g * blocks_per_track g"
    and "lba' < cylinders g * heads g * blocks_per_track g" and "lba \<noteq> lba'"
  shows "own_header g lba \<noteq> own_header g lba'"
  using own_header_inj assms by blast

theorem own_headers_differ_witness: "own_header PACK_T80 0 \<noteq> own_header PACK_T80 69274"
proof -
  have "(0 :: u32) < cylinders PACK_T80 * heads PACK_T80 * blocks_per_track PACK_T80"
    "(69274 :: u32) < cylinders PACK_T80 * heads PACK_T80 * blocks_per_track PACK_T80"
    by code_simp+
  then show ?thesis using own_headers_differ [of PACK_T80 0 69274] by (simp add: drive_type_def)
qed

end
