(* ===== verification/Pack_Bay.thy ===== *)
theory Pack_Bay
  imports Pack_Contract
begin

text \<open>
  \<^verbatim>\<open>pack_bay.c\<close>: the drive bay's filesystem side, the eight names, what a name says at this
  instant, and the eight open packs.  A path shorter than the 4,096 bytes the C gives it is
  the string itself.
\<close>

unbundle bit_operations_syntax

abbreviation (input) BAY_UNITS :: nat where "BAY_UNITS \<equiv> 8"

record bay_drive =
  d_pack :: pack
  d_present :: bool
  d_read_only :: bool

record bay =
  b_dir :: string
  b_quux :: bool
  b_d :: "bay_drive list"

record bay_look =
  l_there :: bool
  l_is_pack :: bool
  l_read_only :: bool
  l_dev :: nat
  l_ino :: nat
  l_size :: nat
  l_g :: "pack_geometry option"

datatype bay_err =
    Bay_pack pack_err
  | Bay_changed string
  | Bay_no_pack nat

definition no_look :: bay_look where
  "no_look = \<lparr>l_there = False, l_is_pack = False, l_read_only = False, l_dev = 0, l_ino = 0,
     l_size = 0, l_g = None\<rparr>"

definition bay_init :: "string \<Rightarrow> bay" where
  "bay_init dir =
     \<lparr>b_dir = dir, b_quux = False,
      b_d = replicate BAY_UNITS \<lparr>d_pack = pack_zero\<lparr>p_fd := -1\<rparr>, d_present = False, d_read_only = False\<rparr>\<rparr>"

text \<open>\<^verbatim>\<open>BAY_NAME_FMT\<close> with \<^verbatim>\<open>unit & 7\<close>, one digit.\<close>

definition bay_path :: "bay \<Rightarrow> nat \<Rightarrow> string" where
  "bay_path b unit =
     b_dir b @ ''/disk-pack-'' @ [char_of (48 + unit mod 8)] @ ''.img''"

definition quux_is_disk :: "string \<Rightarrow> kernel \<Rightarrow> bool \<times> kernel" where
  "quux_is_disk path k0 =
     (case sys_open path False k0 of
        (Inl e, k) \<Rightarrow> (False, k)
      | (Inr fd, k) \<Rightarrow>
          (case quux_disk_probe fd k of
             (r, k) \<Rightarrow> ((case r of Inl _ \<Rightarrow> False | Inr _ \<Rightarrow> True), sys_close fd k)))"

definition bay_look_at :: "bay \<Rightarrow> nat \<Rightarrow> kernel \<Rightarrow> bay_look \<times> kernel" where
  "bay_look_at b unit k0 =
     (let path = bay_path b unit
      in case sys_stat path k0 of
           (Inl e, k) \<Rightarrow> (no_look, k)
         | (Inr st, k) \<Rightarrow>
             (let l = no_look\<lparr>l_there := True, l_dev := st_dev st, l_ino := st_ino st, l_size := st_size st\<rparr>;
                  good = (\<lambda>l. l\<lparr>l_is_pack := True, l_read_only := (st_mode st AND 0x92 = 0)\<rparr>)
              in if \<not> st_isreg st then (l, k)
                 else if b_quux b then
                   (case quux_is_disk path k of
                      (False, k) \<Rightarrow> (l, k)
                    | (True, k) \<Rightarrow> (good l, k))
                 else case pack_geometry_of_size (of_nat (st_size st)) of
                        None \<Rightarrow> (l, k)
                      | Some g \<Rightarrow> (good (l\<lparr>l_g := Some g\<rparr>), k)))"

definition set_drive :: "bay \<Rightarrow> nat \<Rightarrow> bay_drive \<Rightarrow> bay" where
  "set_drive b unit d = b\<lparr>b_d := (b_d b)[unit := d]\<rparr>"

definition bay_open :: "bay \<Rightarrow> nat \<Rightarrow> bay_look \<Rightarrow> kernel \<Rightarrow> (bay_err + unit) \<times> bay \<times> kernel" where
  "bay_open b unit l k0 =
     (let d = b_d b ! unit; path = bay_path b unit
      in case (if b_quux b then pack_open_quux else pack_open) path (\<not> l_read_only l) k0 of
           (Inl e, p, k) \<Rightarrow> (Inl (Bay_pack e), set_drive b unit (d\<lparr>d_pack := p\<rparr>), k)
         | (Inr _, p, k) \<Rightarrow>
             (if p_dev p \<noteq> l_dev l \<or> p_ino p \<noteq> l_ino l \<or> p_size p \<noteq> l_size l then
                (case pack_close p k of
                   (p, k) \<Rightarrow> (Inl (Bay_changed path), set_drive b unit (d\<lparr>d_pack := p\<rparr>), k))
              else (Inr (), set_drive b unit (d\<lparr>d_pack := p, d_present := True, d_read_only := l_read_only l\<rparr>), k)))"

definition bay_close :: "bay \<Rightarrow> nat \<Rightarrow> kernel \<Rightarrow> bay \<times> kernel" where
  "bay_close b unit k0 =
     (let d = b_d b ! unit;
          (p, k) = (if d_present d then pack_close (d_pack d) k0 else (d_pack d, k0))
      in (set_drive b unit (d\<lparr>d_pack := p\<lparr>p_fd := -1\<rparr>, d_present := False, d_read_only := False\<rparr>), k))"

definition bay_reopen :: "bay \<Rightarrow> nat \<Rightarrow> bool \<Rightarrow> kernel \<Rightarrow> (bay_err + unit) \<times> bay \<times> kernel" where
  "bay_reopen b unit writable k0 =
     (let d = b_d b ! unit
      in if \<not> d_present d then (Inl (Bay_no_pack unit), b, k0)
         else case pack_reopen (d_pack d) (bay_path b unit) writable k0 of
                (Inl e, p, k) \<Rightarrow> (Inl (Bay_pack e), set_drive b unit (d\<lparr>d_pack := p\<rparr>), k)
              | (Inr _, p, k) \<Rightarrow>
                  (Inr (), set_drive b unit (d\<lparr>d_pack := p, d_read_only := \<not> writable\<rparr>), k))"

definition bay_present_mask :: "bay \<Rightarrow> u8" where
  "bay_present_mask b =
     fold (\<lambda>u m. if d_present (b_d b ! u) then m OR push_bit u 1 else m) [0..<BAY_UNITS] 0"

definition bay_read_only_mask :: "bay \<Rightarrow> u8" where
  "bay_read_only_mask b =
     fold (\<lambda>u m. if d_present (b_d b ! u) \<and> d_read_only (b_d b ! u) then m OR push_bit u 1 else m)
       [0..<BAY_UNITS] 0"

definition bay_pack :: "bay \<Rightarrow> nat \<Rightarrow> pack option" where
  "bay_pack b unit =
     (if BAY_UNITS \<le> unit \<or> \<not> d_present (b_d b ! unit) then None else Some (d_pack (b_d b ! unit)))"

end
