(* ===== verification/Pack_Feeder.thy ===== *)
theory Pack_Feeder
  imports Pack_Side Pack_Bay
begin

text \<open>
  \<^verbatim>\<open>pack_feeder.c\<close>: the disk pack program's core.  Twenty-four slots of the fabric's block store
  are filled from the packs in the bay on the controller's requests, written back when the
  machine has written them, and taken away when a pack leaves.  Every operation takes the face
  it drives and returns the feeder and the kernel after it; a console line is a value appended
  to \<open>f_log\<close>, and the text the C leaves in \<^verbatim>\<open>err\<close> is the error value of the result.
  \<open>f_base\<close> is the board's \<^verbatim>\<open>CADR_BOARD_SPARE_BASE\<close>, and the end of the mapped spare is below
  4 GB, so that the sum \<^verbatim>\<open>feeder_init\<close> forms of it is the number it stands for.
\<close>

unbundle bit_operations_syntax

section \<open>State\<close>

abbreviation (input) FEEDER_RECORD_STRIDE :: u32 where "FEEDER_RECORD_STRIDE \<equiv> 0x800"
abbreviation (input) FEEDER_FETCH_OFF :: u32 where "FEEDER_FETCH_OFF \<equiv> 0"
abbreviation (input) FEEDER_WB_OFF :: u32 where "FEEDER_WB_OFF \<equiv> 0x10000"
abbreviation (input) FEEDER_MAP_BYTES :: nat where "FEEDER_MAP_BYTES \<equiv> 0x20000"
abbreviation (input) FEEDER_NAMED_REQUESTS :: nat where "FEEDER_NAMED_REQUESTS \<equiv> 3"
abbreviation (input) FEEDER_NAMED_DENIALS :: nat where "FEEDER_NAMED_DENIALS \<equiv> 16"
abbreviation (input) FEEDER_NAMED_LOSSES :: nat where "FEEDER_NAMED_LOSSES \<equiv> 16"
abbreviation (input) FEEDER_FLUSH_PASSES :: nat where "FEEDER_FLUSH_PASSES \<equiv> 8"
abbreviation (input) FEEDER_DEFERRAL_CAP :: nat where "FEEDER_DEFERRAL_CAP \<equiv> 100"

datatype board = Zynq | De25_Nano | Kr260

definition SPARE_BASE :: "board \<Rightarrow> u32" where
  "SPARE_BASE b = (case b of Zynq \<Rightarrow> 0x1C100000 | De25_Nano \<Rightarrow> 0xB4100000 | Kr260 \<Rightarrow> 0x64100000)"

datatype feeder_err =
    Feed_past_store nat
  | Feed_no_pack nat
  | Feed_off u32 u32 u32 nat
  | Feed_past_end u32 u32
  | Feed_pack pack_err
  | Feed_fetch u32 nat ps_why
  | Feed_no_block nat
  | Feed_left nat int nat
  | Feed_write nat u32 u32 ps_why
  | Feed_nothing_moved nat u32 u32
  | Feed_pad_written nat u32 u32
  | Feed_take nat ps_why
  | Feed_walk_at_start nat
  | Feed_take_at_start nat ps_why
  | Feed_unknown_dirty nat
  | Feed_no_slot u32
  | Feed_still_dirty nat nat u32
  | Feed_bay bay_err

datatype deny_why = Deny_names_unit | Deny_no_pack_0 | Deny_past_end | Deny_no_pack | Deny_off
  | Deny_not_taken | Deny_unreadable

datatype remove_why = Rm_overwritten | Rm_other_file | Rm_gone

datatype said =
    Say_lost_at_start nat
  | Say_started bool
  | Say_walking
  | Say_denied u32 deny_why
  | Say_repeated u32 nat
  | Say_failed feeder_err
  | Say_request nat u32 nat
  | Say_deferred nat int
  | Say_unit nat feeder_err
  | Say_lost nat nat remove_why "int list" nat
  | Say_flushed nat nat remove_why
  | Say_absent nat remove_why
  | Say_refused nat bay_err
  | Say_drive nat u32 bool
  | Say_bay_unreadable nat
  | Say_bay_readable
  | Say_protect nat bool bool

record 'h feeder =
  f_bay :: bay
  f_ps :: "'h pack_side"
  f_base :: u32
  f_mem_phys :: u32
  f_mem_bytes :: nat
  slot_lba :: "int list"
  slot_unit :: "int list"
  f_timed :: bool
  f_linear :: bool
  f_hand :: nat
  f_log :: "said list"
  t_polls :: nat
  t_requests :: nat
  t_served :: nat
  t_denied :: nat
  t_written_back :: nat
  t_takes :: nat
  t_refused_walk :: nat
  t_deferred_dirty :: nat
  t_nothing_moved :: nat
  t_pad_written :: nat
  t_failures :: nat
  t_lost_at_start :: nat
  t_scans :: nat
  t_scans_deferred :: nat
  t_appeared :: nat
  t_went_away :: nat
  t_protects :: nat
  t_unprotects :: nat
  t_replaced :: nat
  t_flushed :: nat
  t_lost_blocks :: nat
  t_lost_events :: nat
  t_bay_failures :: nat
  worst_scan_deferral :: nat
  scan_deferrals_in_a_row :: nat
  drive_present :: u8
  drive_read_only :: u8
  bay_missing_said :: bool
  refused_ino :: "nat list"
  refused_size :: "nat list"
  last_failure :: "feeder_err option"
  deferred_runs :: "nat list"
  longest_deferral :: nat
  named_requests :: nat
  named_denials :: "u32 list"
  last_answered :: u32
  have_last :: bool
  repeat_serves :: nat

text \<open>What a move came to: 0, \<^verbatim>\<open>PS_WALK_SLOT\<close>, or -1 with the reason.\<close>

datatype moved = Moved | Walk_slot | Broke feeder_err

definition feeder_init ::
    "bay \<Rightarrow> 'h pack_side \<Rightarrow> u32 \<Rightarrow> u32 \<Rightarrow> nat \<Rightarrow> bool \<times> 'h feeder" where
  "feeder_init bay ps base mem_phys mem_bytes =
     (\<not> (base < mem_phys \<or> unat mem_phys + mem_bytes < unat base + FEEDER_MAP_BYTES),
      \<lparr>f_bay = bay, f_ps = ps, f_base = base, f_mem_phys = mem_phys, f_mem_bytes = mem_bytes,
       slot_lba = replicate PS_SLOTS (-1), slot_unit = replicate PS_SLOTS (-1),
       f_timed = False, f_linear = False, f_hand = 0, f_log = [],
       t_polls = 0, t_requests = 0, t_served = 0, t_denied = 0, t_written_back = 0, t_takes = 0,
       t_refused_walk = 0, t_deferred_dirty = 0, t_nothing_moved = 0, t_pad_written = 0,
       t_failures = 0, t_lost_at_start = 0, t_scans = 0, t_scans_deferred = 0, t_appeared = 0,
       t_went_away = 0, t_protects = 0, t_unprotects = 0, t_replaced = 0, t_flushed = 0,
       t_lost_blocks = 0, t_lost_events = 0, t_bay_failures = 0, worst_scan_deferral = 0,
       scan_deferrals_in_a_row = 0, drive_present = 0, drive_read_only = 0,
       bay_missing_said = False, refused_ino = replicate BAY_UNITS 0,
       refused_size = replicate BAY_UNITS 0, last_failure = None,
       deferred_runs = replicate PS_SLOTS 0, longest_deferral = 0, named_requests = 0,
       named_denials = [], last_answered = 0, have_last = False, repeat_serves = 0\<rparr>)"

section \<open>Small parts\<close>

definition feeder_fetch_addr :: "u32 \<Rightarrow> nat \<Rightarrow> u32" where
  "feeder_fetch_addr base slot = base + FEEDER_FETCH_OFF + of_nat slot * FEEDER_RECORD_STRIDE"

definition feeder_wb_addr :: "u32 \<Rightarrow> nat \<Rightarrow> u32" where
  "feeder_wb_addr base slot = base + FEEDER_WB_OFF + of_nat slot * FEEDER_RECORD_STRIDE"

definition feeder_poison :: "u32 \<Rightarrow> nat \<Rightarrow> u32" where
  "feeder_poison addr i =
     (let a = drop_bit 7 addr; n = of_nat i :: u32;
          v = (a * 0x9E3779B1) XOR (n * 0x85EBCA6B) XOR ((a XOR n) * 0xC2B2AE35) XOR 0x5A5AA5A5;
          v = (if v = 0 then 1 else v)
      in if v = 0xFFFFFFFF then 0xFFFFFFFE else v)"

text \<open>The index of an address in the mapped spare.\<close>

definition word_at :: "'h feeder \<Rightarrow> u32 \<Rightarrow> nat" where
  "word_at f addr = unat (addr - f_mem_phys f) div 4"

definition say :: "said \<Rightarrow> 'h feeder \<Rightarrow> 'h feeder" where
  "say m f = f\<lparr>f_log := f_log f @ [m]\<rparr>"

text \<open>An operation of the face on the feeder's \<^verbatim>\<open>ps\<close>, with and without a value.\<close>

definition ask :: "('h pack_side \<Rightarrow> 'a \<times> 'h pack_side) \<Rightarrow> 'h feeder \<Rightarrow> 'a \<times> 'h feeder" where
  "ask g f = (case g (f_ps f) of (x, ps) \<Rightarrow> (x, f\<lparr>f_ps := ps\<rparr>))"

definition tell :: "('h pack_side \<Rightarrow> 'h pack_side) \<Rightarrow> 'h feeder \<Rightarrow> 'h feeder" where
  "tell g f = f\<lparr>f_ps := g (f_ps f)\<rparr>"

definition request ::
    "('h pack_side \<Rightarrow> ps_result \<times> u32 \<times> 'h pack_side) \<Rightarrow> 'h feeder \<Rightarrow> ps_result \<times> u32 \<times> 'h feeder" where
  "request g f = (case g (f_ps f) of (r, st, ps) \<Rightarrow> (r, st, f\<lparr>f_ps := ps\<rparr>))"

text \<open>The words of a record put into the shared memory from an index on, and read from it.\<close>

fun poke_words :: "'h face \<Rightarrow> nat \<Rightarrow> u32 list \<Rightarrow> 'h pack_side \<Rightarrow> 'h pack_side" where
  "poke_words F i [] ps = ps"
| "poke_words F i (w # ws) ps = poke_words F (Suc i) ws (ps\<lparr>ps_ctx := fc_poke F (ps_ctx ps) i w\<rparr>)"

fun peek_words :: "'h face \<Rightarrow> nat \<Rightarrow> nat \<Rightarrow> 'h pack_side \<Rightarrow> u32 list \<times> 'h pack_side" where
  "peek_words F i 0 ps = ([], ps)"
| "peek_words F i (Suc n) ps =
     (case fc_peek F (ps_ctx ps) i of (w, h) \<Rightarrow>
        case peek_words F (Suc i) n (ps\<lparr>ps_ctx := h\<rparr>) of (ws, ps) \<Rightarrow> (w # ws, ps))"

definition up :: "u32 \<Rightarrow> nat \<Rightarrow> bool" where
  "up w s \<longleftrightarrow> w AND push_bit s 1 \<noteq> 0"

text \<open>The C's conversions to \<^verbatim>\<open>int8_t\<close>.\<close>

definition int8 :: "nat \<Rightarrow> int" where
  "int8 unit = sint (of_nat unit :: u8)"

definition forget_slot :: "nat \<Rightarrow> 'h feeder \<Rightarrow> 'h feeder" where
  "forget_slot s f = f\<lparr>slot_lba := (slot_lba f)[s := -1], slot_unit := (slot_unit f)[s := -1]\<rparr>"

definition put_pack :: "nat \<Rightarrow> pack \<Rightarrow> 'h feeder \<Rightarrow> 'h feeder" where
  "put_pack unit p f =
     f\<lparr>f_bay := set_drive (f_bay f) unit ((b_d (f_bay f) ! unit)\<lparr>d_pack := p\<rparr>)\<rparr>"

abbreviation fail :: "'h feeder \<Rightarrow> 'h feeder" where
  "fail f \<equiv> f\<lparr>t_failures := t_failures f + 1\<rparr>"

section \<open>Serve, write back, take away\<close>

definition drop_stale :: "nat \<Rightarrow> int \<Rightarrow> int \<Rightarrow> 'h feeder \<Rightarrow> 'h feeder" where
  "drop_stale slot lba unit f =
     fold (\<lambda>s f. if s \<noteq> slot \<and> slot_lba f ! s = lba \<and> slot_unit f ! s = unit then forget_slot s f else f)
       [0..<PS_SLOTS] f"

definition serve_record ::
    "'h face \<Rightarrow> nat \<Rightarrow> pack \<Rightarrow> u32 \<Rightarrow> u32 \<Rightarrow> nat \<Rightarrow> 'h feeder \<Rightarrow> kernel \<Rightarrow> moved \<times> 'h feeder \<times> kernel" where
  "serve_record F unit pk lba tag slot f k0 =
     (case pack_record pk lba k0 of
        (Inl e, k) \<Rightarrow> (Broke (Feed_pack e), fail f, k)
      | (Inr words, k) \<Rightarrow>
          (let addr = feeder_fetch_addr (f_base f) slot;
               f = tell (poke_words F (word_at f addr) words) f
           in case request (ps_fetch F addr tag slot) f of
                (PS_WALK_SLOT, st, f) \<Rightarrow> (Walk_slot, f\<lparr>t_refused_walk := t_refused_walk f + 1\<rparr>, k)
              | (PS_FAIL why, st, f) \<Rightarrow>
                  (Broke (Feed_fetch lba slot why),
                   if st AND PS_ST_REFUSED = 0 then forget_slot slot (fail f) else fail f, k)
              | (PS_OK, st, f) \<Rightarrow>
                  (let f = drop_stale slot (sint lba) (int8 unit) f
                   in (Moved, f\<lparr>slot_lba := (slot_lba f)[slot := sint lba],
                                slot_unit := (slot_unit f)[slot := int8 unit],
                                t_served := t_served f + 1\<rparr>, k))))"

definition feeder_serve ::
    "'h face \<Rightarrow> nat \<Rightarrow> u32 \<Rightarrow> u32 \<Rightarrow> u32 \<Rightarrow> nat \<Rightarrow> 'h feeder \<Rightarrow> kernel \<Rightarrow> moved \<times> 'h feeder \<times> kernel" where
  "feeder_serve F unit c h b slot f k =
     (if PS_SLOTS \<le> slot then (Broke (Feed_past_store slot), fail f, k)
      else case bay_pack (f_bay f) unit of
             None \<Rightarrow> (Broke (Feed_no_pack unit), fail f, k)
           | Some pk \<Rightarrow>
               (case pack_lba (p_g pk) c h b of
                  None \<Rightarrow> (Broke (Feed_off c h b unit), fail f, k)
                | Some lba \<Rightarrow> serve_record F unit pk lba (ps_tag (of_nat unit) c h b) slot f k))"

definition feeder_serve_lba ::
    "'h face \<Rightarrow> u32 \<Rightarrow> nat \<Rightarrow> 'h feeder \<Rightarrow> kernel \<Rightarrow> moved \<times> 'h feeder \<times> kernel" where
  "feeder_serve_lba F lba slot f k =
     (if PS_SLOTS \<le> slot then (Broke (Feed_past_store slot), fail f, k)
      else case bay_pack (f_bay f) 0 of
             None \<Rightarrow> (Broke (Feed_no_pack 0), fail f, k)
           | Some pk \<Rightarrow>
               (if p_blocks pk \<le> lba then (Broke (Feed_past_end lba (p_blocks pk)), fail f, k)
                else serve_record F 0 pk lba lba slot f k))"

text \<open>The poison a write-back area holds before a move: the record and the pad after it.\<close>

definition poison_words :: "u32 \<Rightarrow> u32 list" where
  "poison_words addr = map (feeder_poison addr) [0..<PACK_RECORD_WORDS + 1]"

text \<open>The record as the move left it, against the poison, and onto the pack.\<close>

definition commit_record ::
    "'h face \<Rightarrow> nat \<Rightarrow> nat \<Rightarrow> pack \<Rightarrow> u32 \<Rightarrow> u32 \<Rightarrow> nat \<Rightarrow> 'h feeder \<Rightarrow> kernel \<Rightarrow> moved \<times> 'h feeder \<times> kernel" where
  "commit_record F slot unit pk lba addr i f k0 =
     (case ask (peek_words F i PACK_RECORD_WORDS) f of (words, f) \<Rightarrow>
        if words = map (feeder_poison addr) [0..<PACK_RECORD_WORDS] then
          (Broke (Feed_nothing_moved slot lba addr), fail (f\<lparr>t_nothing_moved := t_nothing_moved f + 1\<rparr>), k0)
        else case ask (peek_words F (i + PACK_RECORD_WORDS) 1) f of (pad, f) \<Rightarrow>
          if pad \<noteq> [feeder_poison addr PACK_RECORD_WORDS] then
            (Broke (Feed_pad_written slot lba addr), fail (f\<lparr>t_pad_written := t_pad_written f + 1\<rparr>), k0)
          else case pack_writeback pk lba words k0 of
                 (Inl e, pk, k) \<Rightarrow> (Broke (Feed_pack e), fail (put_pack unit pk f), k)
               | (Inr _, pk, k) \<Rightarrow>
                   (Moved, (put_pack unit pk f)\<lparr>t_written_back := t_written_back f + 1\<rparr>, k))"

definition feeder_writeback ::
    "'h face \<Rightarrow> nat \<Rightarrow> 'h feeder \<Rightarrow> kernel \<Rightarrow> moved \<times> 'h feeder \<times> kernel" where
  "feeder_writeback F slot f k =
     (if PS_SLOTS \<le> slot \<or> slot_lba f ! slot < 0 \<or> slot_unit f ! slot < 0
      then (Broke (Feed_no_block slot), fail f, k)
      else let unit = nat (slot_unit f ! slot)
           in case bay_pack (f_bay f) unit of
                None \<Rightarrow> (Broke (Feed_left slot (slot_lba f ! slot) unit), fail f, k)
              | Some pk \<Rightarrow>
                  (let lba = word_of_int (slot_lba f ! slot);
                       addr = feeder_wb_addr (f_base f) slot;
                       i = word_at f addr;
                       f = tell (poke_words F i (poison_words addr)) f
                   in case request (ps_writeback F addr slot) f of
                        (PS_WALK_SLOT, st, f) \<Rightarrow> (Walk_slot, f\<lparr>t_refused_walk := t_refused_walk f + 1\<rparr>, k)
                      | (PS_FAIL why, st, f) \<Rightarrow> (Broke (Feed_write slot lba addr why), fail f, k)
                      | (PS_OK, st, f) \<Rightarrow> commit_record F slot unit pk lba addr i f k))"

definition feeder_take :: "'h face \<Rightarrow> nat \<Rightarrow> 'h feeder \<Rightarrow> moved \<times> 'h feeder" where
  "feeder_take F slot f =
     (if PS_SLOTS \<le> slot then (Broke (Feed_past_store slot), f)
      else case request (ps_take F slot) f of
             (PS_WALK_SLOT, st, f) \<Rightarrow> (Walk_slot, f\<lparr>t_refused_walk := t_refused_walk f + 1\<rparr>)
           | (PS_FAIL why, st, f) \<Rightarrow> (Broke (Feed_take slot why), fail f)
           | (PS_OK, st, f) \<Rightarrow> (Moved, (forget_slot slot f)\<lparr>t_takes := t_takes f + 1\<rparr>))"


section \<open>Second chance\<close>

text \<open>From the hand, with \<open>n\<close> slots left to look at and \<open>ref\<close> the REF bits as this turn has them.\<close>

fun victim_turn :: "'h face \<Rightarrow> nat \<Rightarrow> u32 \<Rightarrow> u32 \<Rightarrow> 'h feeder \<Rightarrow> nat option \<times> 'h feeder" where
  "victim_turn F 0 skip ref f = (None, f)"
| "victim_turn F (Suc n) skip ref f =
     (let s = f_hand f; f = f\<lparr>f_hand := (f_hand f + 1) mod PS_SLOTS\<rparr>
      in if up skip s then victim_turn F n skip ref f
         else if up ref s then
           victim_turn F n skip (ref AND NOT (push_bit s 1)) (tell (ps_ref_clear F (push_bit s 1)) f)
         else (Some s, f))"

definition next_victim :: "'h face \<Rightarrow> u32 \<Rightarrow> 'h feeder \<Rightarrow> nat option \<times> 'h feeder" where
  "next_victim F skip f =
     (case ask (ps_ref F) f of (ref, f) \<Rightarrow> victim_turn F (2 * PS_SLOTS + 1) skip ref f)"

section \<open>Requests\<close>

definition deny :: "'h face \<Rightarrow> u32 \<Rightarrow> deny_why \<Rightarrow> 'h feeder \<Rightarrow> 'h feeder" where
  "deny F tag why f =
     (let f = tell (ps_deny F) f; f = f\<lparr>t_denied := t_denied f + 1\<rparr>
      in if tag \<in> set (named_denials f) then f
         else say (Say_denied tag why)
                (if length (named_denials f) < FEEDER_NAMED_DENIALS
                 then f\<lparr>named_denials := named_denials f @ [tag]\<rparr> else f))"

text \<open>The block asked for, as \<^verbatim>\<open>answer\<close> reads the tag: a unit's address, or QUUX's block number.\<close>

datatype wanted = Want_chb nat u32 u32 u32 | Want_lba u32

definition answer_tag :: "'h feeder \<Rightarrow> u32 \<Rightarrow> deny_why + u32 \<times> wanted" where
  "answer_tag f tag =
     (case ps_tag_split tag of (u, c, h, b) \<Rightarrow>
        if f_linear f then
          (let lba = tag AND 0x0FFFFFFF
           in if drop_bit 28 tag \<noteq> 0 then Inl Deny_names_unit
              else case bay_pack (f_bay f) 0 of
                     None \<Rightarrow> Inl Deny_no_pack_0
                   | Some pk \<Rightarrow> if p_blocks pk \<le> lba then Inl Deny_past_end else Inr (lba, Want_lba lba))
        else
          (case bay_pack (f_bay f) (unat u) of
             None \<Rightarrow> Inl Deny_no_pack
           | Some pk \<Rightarrow>
               (case pack_lba (p_g pk) c h b of
                  None \<Rightarrow> Inl Deny_off
                | Some lba \<Rightarrow> Inr (lba, Want_chb (unat u) c h b))))"

definition serve_wanted ::
    "'h face \<Rightarrow> wanted \<Rightarrow> nat \<Rightarrow> 'h feeder \<Rightarrow> kernel \<Rightarrow> moved \<times> 'h feeder \<times> kernel" where
  "serve_wanted F w slot f k =
     (case w of Want_lba lba \<Rightarrow> feeder_serve_lba F lba slot f k
      | Want_chb unit c h b \<Rightarrow> feeder_serve F unit c h b slot f k)"

definition answered :: "u32 \<Rightarrow> u32 \<Rightarrow> nat \<Rightarrow> 'h feeder \<Rightarrow> 'h feeder" where
  "answered tag lba v f =
     (let f = f\<lparr>repeat_serves := (if have_last f \<and> last_answered f = tag then repeat_serves f + 1 else 1),
                have_last := True, last_answered := tag\<rparr>
      in if named_requests f < FEEDER_NAMED_REQUESTS
         then say (Say_request (t_requests f) lba v) (f\<lparr>named_requests := named_requests f + 1\<rparr>)
         else f)"

text \<open>
  The loop over victims, \<open>n\<close> tries left.  The result is how many moves or denials it made, or
  the failure.
\<close>

fun answer_tries ::
    "'h face \<Rightarrow> nat \<Rightarrow> u32 \<Rightarrow> u32 \<Rightarrow> u32 \<Rightarrow> wanted \<Rightarrow> 'h feeder \<Rightarrow> kernel \<Rightarrow> (feeder_err + nat) \<times> 'h feeder \<times> kernel" where
  "answer_tries F 0 skip tag lba w f k = (Inl (Feed_no_slot lba), fail f, k)"
| "answer_tries F (Suc n) skip tag lba w f k =
     (case next_victim F skip f of
        (None, f) \<Rightarrow> (Inl (Feed_no_slot lba), fail f, k)
      | (Some v, f) \<Rightarrow>
          (case ask (ps_dirty F) f of (dirty, f) \<Rightarrow>
             (case (if up dirty v then feeder_writeback F v f k else (Moved, f, k)) of
                (Walk_slot, f, k) \<Rightarrow> answer_tries F n (skip OR push_bit v 1) tag lba w f k
              | (Broke e, f, k) \<Rightarrow> (Inl e, f, k)
              | (Moved, f, k) \<Rightarrow>
                  (case serve_wanted F w v f k of
                     (Walk_slot, f, k) \<Rightarrow> answer_tries F n (skip OR push_bit v 1) tag lba w f k
                   | (Broke e, f, k) \<Rightarrow>
                       (Inl e, deny F tag Deny_unreadable (say (Say_failed e) f), k)
                   | (Moved, f, k) \<Rightarrow> (Inr 1, answered tag lba v f, k)))))"

definition answer ::
    "'h face \<Rightarrow> u32 \<Rightarrow> 'h feeder \<Rightarrow> kernel \<Rightarrow> (feeder_err + nat) \<times> 'h feeder \<times> kernel" where
  "answer F tag f k =
     (let f = f\<lparr>t_requests := t_requests f + 1\<rparr>
      in case answer_tag f tag of
           Inl why \<Rightarrow> (Inr 1, deny F tag why f, k)
         | Inr (lba, w) \<Rightarrow>
             (let again = have_last f \<and> last_answered f = tag;
                  f = (if again then f\<lparr>repeat_serves := repeat_serves f + 1\<rparr> else f)
              in if again \<and> 3 \<le> repeat_serves f then
                   (Inr 1, fail (deny F tag Deny_not_taken
                      ((say (Say_repeated tag (repeat_serves f)) f)\<lparr>repeat_serves := 0\<rparr>)), k)
                 else answer_tries F PS_SLOTS 0 tag lba w f k))"

section \<open>A pass\<close>

fun pass_slots ::
    "'h face \<Rightarrow> u32 \<Rightarrow> nat \<Rightarrow> nat list \<Rightarrow> 'h feeder \<Rightarrow> kernel \<Rightarrow> (feeder_err + nat) \<times> 'h feeder \<times> kernel" where
  "pass_slots F dirty actions [] f k = (Inr actions, f, k)"
| "pass_slots F dirty actions (s # ss) f k =
     (if \<not> up dirty s then pass_slots F dirty actions ss f k
      else if slot_lba f ! s < 0 then pass_slots F dirty actions ss (fail f) k
      else case feeder_writeback F s f k of
             (Walk_slot, f, k) \<Rightarrow>
               (let run = deferred_runs f ! s + 1;
                    f = f\<lparr>t_deferred_dirty := t_deferred_dirty f + 1, deferred_runs := (deferred_runs f)[s := run],
                          longest_deferral := max (longest_deferral f) run\<rparr>;
                    f = (if run = FEEDER_DEFERRAL_CAP then say (Say_deferred s (slot_lba f ! s)) f else f)
                in pass_slots F dirty actions ss f k)
           | (Broke e, f, k) \<Rightarrow> (Inl e, f\<lparr>deferred_runs := (deferred_runs f)[s := 0]\<rparr>, k)
           | (Moved, f, k) \<Rightarrow>
               pass_slots F dirty (actions + 1) ss (f\<lparr>deferred_runs := (deferred_runs f)[s := 0]\<rparr>) k)"

definition feeder_pass ::
    "'h face \<Rightarrow> 'h feeder \<Rightarrow> kernel \<Rightarrow> (feeder_err + nat) \<times> 'h feeder \<times> kernel" where
  "feeder_pass F f k =
     (let f = f\<lparr>t_polls := t_polls f + 1\<rparr>
      in case ask (ps_irq F) f of (irq, f) \<Rightarrow>
           let f = (if irq \<noteq> 0 then tell (ps_irq_clear F irq) f else f)
           in case ask (ps_req F) f of (req, f) \<Rightarrow>
                case (if req AND PS_REQ_VALID \<noteq> 0 then answer F (req AND PS_TAG_MASK) f k else (Inr 0, f, k)) of
                  (Inl e, f, k) \<Rightarrow> (Inl e, f, k)
                | (Inr actions, f, k) \<Rightarrow>
                    (case ask (ps_dirty F) f of (dirty, f) \<Rightarrow>
                       pass_slots F dirty actions [0..<PS_SLOTS] f k))"

definition feeder_poll ::
    "'h face \<Rightarrow> 'h feeder \<Rightarrow> kernel \<Rightarrow> (feeder_err + nat) \<times> 'h feeder \<times> kernel" where
  "feeder_poll F f k =
     (case feeder_pass F f k of
        (Inl e, f, k) \<Rightarrow> (Inl e, f\<lparr>last_failure := Some e\<rparr>, k)
      | (Inr n, f, k) \<Rightarrow> (Inr n, f, k))"

definition count_up :: "u32 \<Rightarrow> nat" where
  "count_up dirty = length (filter (up dirty) [0..<PS_SLOTS])"

fun feeder_flush :: "'h face \<Rightarrow> nat \<Rightarrow> 'h feeder \<Rightarrow> kernel \<Rightarrow> nat \<times> 'h feeder \<times> kernel" where
  "feeder_flush F 0 f k =
     (case ask (ps_dirty F) f of (dirty, f) \<Rightarrow> (count_up dirty, f, k))"
| "feeder_flush F (Suc n) f k =
     (case ask (ps_dirty F) f of (dirty, f) \<Rightarrow>
        if dirty = 0 then (0, f, k)
        else case feeder_poll F f k of
               (Inl e, f, k) \<Rightarrow> (PS_SLOTS, f, k)
             | (Inr _, f, k) \<Rightarrow> feeder_flush F n (tell (ps_pause F) f) k)"


section \<open>The drive bay\<close>

text \<open>One pass of a unit's flush: how many landed, how many are still owed, whether one was put off.\<close>

fun flush_unit_slots ::
    "'h face \<Rightarrow> nat \<Rightarrow> u32 \<Rightarrow> nat list \<Rightarrow> nat \<times> nat \<times> bool \<Rightarrow> 'h feeder \<Rightarrow> kernel \<Rightarrow>
       (nat \<times> nat \<times> bool) \<times> 'h feeder \<times> kernel" where
  "flush_unit_slots F unit dirty [] t f k = (t, f, k)"
| "flush_unit_slots F unit dirty (s # ss) t f k =
     (if \<not> up dirty s \<or> slot_unit f ! s \<noteq> int8 unit then flush_unit_slots F unit dirty ss t f k
      else case t of (done, still, deferred) \<Rightarrow>
        (case feeder_writeback F s f k of
           (Walk_slot, f, k) \<Rightarrow> flush_unit_slots F unit dirty ss (done, still + 1, True) f k
         | (Moved, f, k) \<Rightarrow> flush_unit_slots F unit dirty ss (done + 1, still, deferred) f k
         | (Broke e, f, k) \<Rightarrow>
             flush_unit_slots F unit dirty ss (done, still + 1, deferred) (say (Say_unit unit e) f) k))"

fun flush_unit_passes ::
    "'h face \<Rightarrow> nat \<Rightarrow> nat \<Rightarrow> nat \<Rightarrow> nat \<Rightarrow> 'h feeder \<Rightarrow> kernel \<Rightarrow> (nat \<times> nat) \<times> 'h feeder \<times> kernel" where
  "flush_unit_passes F unit 0 done still f k = ((still, done), f, k)"
| "flush_unit_passes F unit (Suc n) done still f k =
     (case ask (ps_dirty F) f of (dirty, f) \<Rightarrow>
        case flush_unit_slots F unit dirty [0..<PS_SLOTS] (done, 0, False) f k of
          ((done, still, deferred), f, k) \<Rightarrow>
            if still = 0 \<or> \<not> deferred then ((still, done), f, k)
            else flush_unit_passes F unit n done still (tell (ps_pause F) f) k)"

text \<open>How many slots are still owed, and how many landed.\<close>

definition feeder_flush_unit ::
    "'h face \<Rightarrow> nat \<Rightarrow> nat \<Rightarrow> 'h feeder \<Rightarrow> kernel \<Rightarrow> (nat \<times> nat) \<times> 'h feeder \<times> kernel" where
  "feeder_flush_unit F unit passes f k = flush_unit_passes F unit passes 0 0 f k"

fun take_unit_slots :: "'h face \<Rightarrow> nat \<Rightarrow> nat list \<Rightarrow> nat \<times> bool \<Rightarrow> 'h feeder \<Rightarrow> (nat \<times> bool) \<times> 'h feeder" where
  "take_unit_slots F unit [] t f = (t, f)"
| "take_unit_slots F unit (s # ss) t f =
     (if slot_unit f ! s \<noteq> int8 unit then take_unit_slots F unit ss t f
      else case feeder_take F s f of
             (Walk_slot, f) \<Rightarrow> take_unit_slots F unit ss (fst t, True) f
           | (Moved, f) \<Rightarrow> take_unit_slots F unit ss (fst t + 1, snd t) f
           | (Broke e, f) \<Rightarrow> take_unit_slots F unit ss t f)"

fun take_unit_passes :: "'h face \<Rightarrow> nat \<Rightarrow> nat \<Rightarrow> nat \<Rightarrow> 'h feeder \<Rightarrow> nat \<times> 'h feeder" where
  "take_unit_passes F unit 0 n f = (n, f)"
| "take_unit_passes F unit (Suc p) n f =
     (case take_unit_slots F unit [0..<PS_SLOTS] (n, False) f of
        ((n, deferred), f) \<Rightarrow>
          if \<not> deferred then (n, f) else take_unit_passes F unit p n (tell (ps_pause F) f))"

definition forget_unit :: "nat \<Rightarrow> 'h feeder \<Rightarrow> 'h feeder" where
  "forget_unit unit f =
     fold (\<lambda>s f. if slot_unit f ! s = int8 unit then forget_slot s f else f) [0..<PS_SLOTS] f"

definition feeder_take_unit :: "'h face \<Rightarrow> nat \<Rightarrow> 'h feeder \<Rightarrow> nat \<times> 'h feeder" where
  "feeder_take_unit F unit f =
     (case take_unit_passes F unit FEEDER_FLUSH_PASSES 0 f of (n, f) \<Rightarrow> (n, forget_unit unit f))"

text \<open>
  The blocks owed: how many, and the block numbers named.  Sixteen names of at most twelve
  characters fit the 512 the caller gives.
\<close>

definition owed_blocks :: "'h face \<Rightarrow> nat \<Rightarrow> 'h feeder \<Rightarrow> (nat \<times> int list) \<times> 'h feeder" where
  "owed_blocks F unit f =
     (case ask (ps_dirty F) f of (dirty, f) \<Rightarrow>
        let owed = filter (\<lambda>s. up dirty s \<and> slot_unit f ! s = int8 unit) [0..<PS_SLOTS]
        in ((length owed, map (\<lambda>s. slot_lba f ! s) (take FEEDER_NAMED_LOSSES owed)), f))"

definition bay_remove ::
    "'h face \<Rightarrow> nat \<Rightarrow> bool \<Rightarrow> remove_why \<Rightarrow> u8 \<Rightarrow> 'h feeder \<Rightarrow> kernel \<Rightarrow> u8 \<times> 'h feeder \<times> kernel" where
  "bay_remove F unit may_flush why attention f k0 =
     (let (alive, k) = (case bay_pack (f_bay f) unit of
                          Some pk \<Rightarrow> if may_flush then pack_alive pk k0 else (False, k0)
                        | None \<Rightarrow> (False, k0));
          ((still, wrote), f, k) = (if alive then feeder_flush_unit F unit FEEDER_FLUSH_PASSES f k
                                    else ((0, 0), f, k));
          f = f\<lparr>t_flushed := t_flushed f + wrote\<rparr>;
          ((lost, blocks), f) = owed_blocks F unit f;
          f = (if lost \<noteq> 0 then
                 say (Say_lost unit lost why blocks (lost - length blocks))
                   (f\<lparr>t_lost_events := t_lost_events f + 1, t_lost_blocks := t_lost_blocks f + lost\<rparr>)
               else if wrote \<noteq> 0 then say (Say_flushed unit wrote why) f else f);
          (n, f) = feeder_take_unit F unit f;
          (bay, k) = bay_close (f_bay f) unit k;
          f = f\<lparr>f_bay := bay, t_went_away := t_went_away f + 1\<rparr>;
          f = (if lost = 0 \<and> wrote = 0 then say (Say_absent unit why) f else f)
      in (attention OR push_bit unit 1, f, k))"

definition bay_add ::
    "nat \<Rightarrow> bay_look \<Rightarrow> u8 \<Rightarrow> 'h feeder \<Rightarrow> kernel \<Rightarrow> u8 \<times> 'h feeder \<times> kernel" where
  "bay_add unit l attention f k0 =
     (case bay_open (f_bay f) unit l k0 of
        (Inl e, bay, k) \<Rightarrow>
          (let f = f\<lparr>f_bay := bay, t_bay_failures := t_bay_failures f + 1\<rparr>
           in (attention,
               if refused_ino f ! unit \<noteq> l_ino l \<or> refused_size f ! unit \<noteq> l_size l then
                 say (Say_refused unit e)
                   (f\<lparr>refused_ino := (refused_ino f)[unit := l_ino l],
                      refused_size := (refused_size f)[unit := l_size l]\<rparr>)
               else f, k))
      | (Inr _, bay, k) \<Rightarrow>
          (let f = f\<lparr>f_bay := bay, refused_ino := (refused_ino f)[unit := 0],
                     refused_size := (refused_size f)[unit := 0], t_appeared := t_appeared f + 1\<rparr>
           in (attention OR push_bit unit 1,
               say (Say_drive unit (p_blocks (d_pack (b_d bay ! unit))) (l_read_only l)) f, k)))"

text \<open>The pack's read-only mark changed: the flush comes before the switch.\<close>

definition scan_protect ::
    "'h face \<Rightarrow> nat \<Rightarrow> bool \<Rightarrow> bool \<Rightarrow> 'h feeder \<Rightarrow> kernel \<Rightarrow> bool \<times> 'h feeder \<times> kernel" where
  "scan_protect F u read_only failed f k0 =
     (let ((still, wrote), f, k) = (if read_only then feeder_flush_unit F u FEEDER_FLUSH_PASSES f k0
                                    else ((0, 0), f, k0));
          f = (if read_only then f\<lparr>t_flushed := t_flushed f + wrote\<rparr> else f)
      in case bay_reopen (f_bay f) u (\<not> read_only) k of
           (Inl e, bay, k) \<Rightarrow>
             (True, say (Say_unit u (Feed_bay e))
                (f\<lparr>f_bay := bay, t_bay_failures := t_bay_failures f + 1\<rparr>), k)
         | (Inr _, bay, k) \<Rightarrow>
             (let f = f\<lparr>f_bay := bay\<rparr>;
                  f = (if read_only then f\<lparr>t_protects := t_protects f + 1\<rparr>
                       else f\<lparr>t_unprotects := t_unprotects f + 1\<rparr>)
              in (failed, say (Say_protect u read_only (wrote \<noteq> 0)) f, k)))"

definition scan_unit ::
    "'h face \<Rightarrow> nat \<Rightarrow> u8 \<times> bool \<Rightarrow> 'h feeder \<Rightarrow> kernel \<Rightarrow> (u8 \<times> bool) \<times> 'h feeder \<times> kernel" where
  "scan_unit F u t f k0 =
     (case bay_look_at (f_bay f) u k0 of (l, k) \<Rightarrow>
        let (attention, failed) = t; d = b_d (f_bay f) ! u
        in if d_present d then
             let pk = d_pack d;
                 same_file = (l_there l \<and> l_dev l = p_dev pk \<and> l_ino l = p_ino pk);
                 unchanged = (same_file \<and> l_is_pack l \<and> l_size l = p_size pk)
             in if \<not> unchanged then
                  let why = (if same_file then Rm_overwritten else if l_there l then Rm_other_file else Rm_gone);
                      (attention, f, k) = bay_remove F u (\<not> same_file) why attention f k;
                      f = (if l_there l then f\<lparr>t_replaced := t_replaced f + 1\<rparr> else f)
                  in if l_there l \<and> l_is_pack l then
                       case bay_add u l attention f k of (attention, f, k) \<Rightarrow> ((attention, failed), f, k)
                     else ((attention, failed), f, k)
                else if l_read_only l \<noteq> d_read_only d then
                  case scan_protect F u (l_read_only l) failed f k of
                    (failed, f, k) \<Rightarrow> ((attention, failed), f, k)
                else ((attention, failed), f, k)
           else if l_there l \<and> l_is_pack l then
             case bay_add u l attention f k of (attention, f, k) \<Rightarrow> ((attention, failed), f, k)
           else ((attention, failed), f, k))"

fun scan_units ::
    "'h face \<Rightarrow> nat list \<Rightarrow> u8 \<times> bool \<Rightarrow> 'h feeder \<Rightarrow> kernel \<Rightarrow> (u8 \<times> bool) \<times> 'h feeder \<times> kernel" where
  "scan_units F [] t f k = (t, f, k)"
| "scan_units F (u # us) t f k =
     (case scan_unit F u t f k of (t, f, k) \<Rightarrow> scan_units F us t f k)"

text \<open>The seam, written once and only where something moved.\<close>

definition scan_seam :: "'h face \<Rightarrow> u8 \<Rightarrow> 'h feeder \<Rightarrow> 'h feeder" where
  "scan_seam F attention f =
     (let present = bay_present_mask (f_bay f); read_only = bay_read_only_mask (f_bay f)
      in if attention \<noteq> 0 \<or> present \<noteq> drive_present f \<or> read_only \<noteq> drive_read_only f then
           (tell (ps_drive F present read_only (f_timed f) attention) f)
             \<lparr>drive_present := present, drive_read_only := read_only\<rparr>
         else f)"

datatype scanned = Scan_ran | Scan_walking | Scan_failed

definition feeder_bay_scan ::
    "'h face \<Rightarrow> 'h feeder \<Rightarrow> kernel \<Rightarrow> scanned \<times> 'h feeder \<times> kernel" where
  "feeder_bay_scan F f k0 =
     (case ask (ps_status F) f of (st, f) \<Rightarrow>
        if st AND PS_ST_CH_ACTIVE \<noteq> 0 then
          let run = scan_deferrals_in_a_row f + 1
          in (Scan_walking, f\<lparr>t_scans_deferred := t_scans_deferred f + 1, scan_deferrals_in_a_row := run,
                worst_scan_deferral := max (worst_scan_deferral f) run\<rparr>, k0)
        else let f = f\<lparr>scan_deferrals_in_a_row := 0\<rparr>
             in case sys_access (b_dir (f_bay f)) k0 of
                  (Inl e, k) \<Rightarrow>
                    (Scan_ran, if bay_missing_said f then f
                               else say (Say_bay_unreadable e) (f\<lparr>bay_missing_said := True\<rparr>), k)
                | (Inr _, k) \<Rightarrow>
                    (let f = (if bay_missing_said f then say Say_bay_readable (f\<lparr>bay_missing_said := False\<rparr>) else f);
                         f = f\<lparr>t_scans := t_scans f + 1\<rparr>
                     in case scan_units F [0..<BAY_UNITS] (0, False) f k of
                          ((attention, failed), f, k) \<Rightarrow>
                            (if failed then Scan_failed else Scan_ran, scan_seam F attention f, k)))"

section \<open>The start\<close>

fun start_slots :: "'h face \<Rightarrow> u32 \<Rightarrow> nat list \<Rightarrow> 'h feeder \<Rightarrow> feeder_err option \<times> 'h feeder" where
  "start_slots F dirty [] f = (None, f)"
| "start_slots F dirty (s # ss) f =
     (let f = (if up dirty s then f\<lparr>t_lost_at_start := t_lost_at_start f + 1\<rparr> else f)
      in case request (ps_take F s) f of
           (PS_WALK_SLOT, st, f) \<Rightarrow> (Some (Feed_walk_at_start s), f)
         | (PS_FAIL why, st, f) \<Rightarrow> (Some (Feed_take_at_start s why), f)
         | (PS_OK, st, f) \<Rightarrow> start_slots F dirty ss (forget_slot s f))"

text \<open>The first look at the bay, \<open>n\<close> tries left: whether it ran without a failure.\<close>

fun start_scans :: "'h face \<Rightarrow> nat \<Rightarrow> 'h feeder \<Rightarrow> kernel \<Rightarrow> bool \<times> 'h feeder \<times> kernel" where
  "start_scans F 0 f k = (True, say Say_walking f, k)"
| "start_scans F (Suc n) f k =
     (case feeder_bay_scan F f k of
        (Scan_failed, f, k) \<Rightarrow> (False, f, k)
      | (Scan_ran, f, k) \<Rightarrow> (True, f, k)
      | (Scan_walking, f, k) \<Rightarrow> start_scans F n (tell (ps_pause F) f) k)"

definition feeder_start ::
    "'h face \<Rightarrow> bool \<Rightarrow> 'h feeder \<Rightarrow> kernel \<Rightarrow> (feeder_err option + unit) \<times> 'h feeder \<times> kernel" where
  "feeder_start F timed f k =
     (let f = f\<lparr>f_timed := timed, f_hand := 0\<rparr>
      in case ask (ps_dirty F) f of (dirty, f) \<Rightarrow>
           case start_slots F dirty [0..<PS_SLOTS] f of
             (Some e, f) \<Rightarrow> (Inl (Some e), f, k)
           | (None, f) \<Rightarrow>
               (let f = (if t_lost_at_start f \<noteq> 0 then say (Say_lost_at_start (t_lost_at_start f)) f else f);
                    f = tell (ps_irq_clear F 7) f;
                    f = tell (ps_ref_clear F (push_bit PS_SLOTS 1 - 1)) f;
                    f = tell (ps_drive F 0 0 (f_timed f) 0) f;
                    f = say (Say_started (f_timed f)) f
                in case start_scans F 64 f k of
                     (good, f, k) \<Rightarrow> (if good then Inr () else Inl None, f, k)))"

end
