(* ===== verification/Pack_Feeder_Table.thy ===== *)
theory Pack_Feeder_Table
  imports Pack_Feeder
begin

text \<open>
  The invariant of the feeder's table of slots, \<open>feeder_inv\<close>: every slot claims nothing or a
  block of a pack that is in the bay, no two slots claim the same block, and each drive's
  read-only mark is its pack's.  Every operation keeps it, whatever the face answers and
  whatever the system does.
\<close>

unbundle bit_operations_syntax

section \<open>The table of slots\<close>

text \<open>A pack as the bay holds it: few enough blocks for an \<^verbatim>\<open>int32_t\<close>, and a drive's geometry unless QUUX's.\<close>

definition pack_sane :: "pack \<Rightarrow> bool" where
  "pack_sane p \<longleftrightarrow>
     unat (p_blocks p) \<le> 2 ^ 28 \<and>
     (\<not> p_quux p \<longrightarrow> drive_type (p_g p) \<and>
        p_blocks p = cylinders (p_g p) * heads (p_g p) * blocks_per_track (p_g p))"

text \<open>A drive that is present: its pack, refusing writes exactly when the drive is read-only.\<close>

definition drive_sane :: "bay_drive \<Rightarrow> bool" where
  "drive_sane d \<longleftrightarrow> pack_sane (d_pack d) \<and> (d_read_only d \<longleftrightarrow> \<not> p_writable (d_pack d))"

definition bay_sane :: "bay \<Rightarrow> bool" where
  "bay_sane b \<longleftrightarrow> length (b_d b) = BAY_UNITS \<and>
     (\<forall>u < BAY_UNITS. d_present (b_d b ! u) \<longrightarrow> drive_sane (b_d b ! u))"

text \<open>
  A slot claims nothing, or a block of a pack that is in the bay; and no two slots claim the
  same block of the same unit.
\<close>

definition claim_ok :: "bay \<Rightarrow> int \<Rightarrow> int \<Rightarrow> bool" where
  "claim_ok b l u \<longleftrightarrow>
     l = -1 \<and> u = -1 \<or>
     (\<exists>n < BAY_UNITS. \<exists>pk. u = int n \<and> bay_pack b n = Some pk \<and> 0 \<le> l \<and> l < int (unat (p_blocks pk)))"

definition table_ok :: "int list \<Rightarrow> int list \<Rightarrow> bay \<Rightarrow> bool" where
  "table_ok ls us b \<longleftrightarrow>
     length ls = PS_SLOTS \<and> length us = PS_SLOTS \<and> bay_sane b \<and>
     (\<forall>s < PS_SLOTS. claim_ok b (ls ! s) (us ! s)) \<and>
     (\<forall>s < PS_SLOTS. \<forall>t < PS_SLOTS. s \<noteq> t \<longrightarrow> us ! s \<noteq> -1 \<longrightarrow> (ls ! s, us ! s) \<noteq> (ls ! t, us ! t))"

abbreviation feeder_inv :: "'h feeder \<Rightarrow> bool" where
  "feeder_inv f \<equiv> table_ok (slot_lba f) (slot_unit f) (f_bay f)"

lemma nth_upd: "j < length xs \<Longrightarrow> xs[i := x] ! j = (if i = j then x else xs ! j)"
  by (cases "i < length xs") auto

lemma claim_none [simp]: "claim_ok b (-1) (-1)"
  by (simp add: claim_ok_def)

definition same_table :: "'h feeder \<Rightarrow> 'h feeder \<Rightarrow> bool" where
  "same_table f f' \<longleftrightarrow>
     slot_lba f' = slot_lba f \<and> slot_unit f' = slot_unit f \<and> f_bay f' = f_bay f \<and>
     f_base f' = f_base f \<and> f_mem_phys f' = f_mem_phys f \<and> f_linear f' = f_linear f \<and> f_timed f' = f_timed f"

lemma same_table_refl [simp]: "same_table f f"
  by (simp add: same_table_def)

lemma same_table_trans: "same_table f g \<Longrightarrow> same_table g h \<Longrightarrow> same_table f h"
  by (simp add: same_table_def)

lemma same_table_inv: "same_table f f' \<Longrightarrow> feeder_inv f' \<longleftrightarrow> feeder_inv f"
  by (simp add: same_table_def)

lemma table_say [simp]:
  "slot_lba (say m f) = slot_lba f" "slot_unit (say m f) = slot_unit f" "f_bay (say m f) = f_bay f"
  "f_base (say m f) = f_base f" "f_mem_phys (say m f) = f_mem_phys f" "f_linear (say m f) = f_linear f"
  "f_timed (say m f) = f_timed f" "f_ps (say m f) = f_ps f"
  by (simp_all add: say_def)

lemma table_tell [simp]:
  "slot_lba (tell g f) = slot_lba f" "slot_unit (tell g f) = slot_unit f" "f_bay (tell g f) = f_bay f"
  "f_base (tell g f) = f_base f" "f_mem_phys (tell g f) = f_mem_phys f" "f_linear (tell g f) = f_linear f"
  "f_timed (tell g f) = f_timed f"
  by (simp_all add: tell_def)

lemma ask_same: "ask g f = (x, f') \<Longrightarrow> same_table f f'"
  by (auto simp: ask_def same_table_def split: prod.splits)

lemma request_same: "request g f = (r, st, f') \<Longrightarrow> same_table f f'"
  by (auto simp: request_def same_table_def split: prod.splits)

lemma table_forget [simp]:
  "slot_lba (forget_slot s f) = (slot_lba f)[s := -1]" "slot_unit (forget_slot s f) = (slot_unit f)[s := -1]"
  "f_bay (forget_slot s f) = f_bay f" "f_ps (forget_slot s f) = f_ps f"
  by (simp_all add: forget_slot_def)

lemma table_ok_forget:
  "table_ok ls us b \<Longrightarrow> table_ok (ls[s := -1]) (us[s := -1]) b"
  by (auto simp: table_ok_def nth_upd)

lemma mask_Suc:
  "map (\<lambda>s. if s < Suc n \<and> P s then c else xs ! s) [0..<m] =
     (if P n then (map (\<lambda>s. if s < n \<and> P s then c else xs ! s) [0..<m])[n := c]
      else map (\<lambda>s. if s < n \<and> P s then c else xs ! s) [0..<m])"
  by (rule nth_equalityI) (auto simp: nth_upd less_Suc_eq)

text \<open>The two loops that forget slots, as one equation each.\<close>

lemma fold_forget:
  assumes "n \<le> length (slot_lba f)" and "n \<le> length (slot_unit f)"
  shows "fold (\<lambda>s f. if Q s (slot_lba f ! s) (slot_unit f ! s) then forget_slot s f else f) [0..<n] f =
    f\<lparr>slot_lba := map (\<lambda>s. if s < n \<and> Q s (slot_lba f ! s) (slot_unit f ! s) then -1 else slot_lba f ! s)
        [0..<length (slot_lba f)],
      slot_unit := map (\<lambda>s. if s < n \<and> Q s (slot_lba f ! s) (slot_unit f ! s) then -1 else slot_unit f ! s)
        [0..<length (slot_unit f)]\<rparr>"
  using assms
proof (induction n)
  case 0
  then show ?case by (simp add: map_nth)
next
  case (Suc n)
  then show ?case
    by (simp add: forget_slot_def mask_Suc [where P = "\<lambda>s. Q s (slot_lba f ! s) (slot_unit f ! s)"])
qed

lemma drop_stale_eq:
  assumes "length (slot_lba f) = PS_SLOTS" and "length (slot_unit f) = PS_SLOTS"
  shows "drop_stale slot l u f =
    f\<lparr>slot_lba := map (\<lambda>s. if s \<noteq> slot \<and> slot_lba f ! s = l \<and> slot_unit f ! s = u then -1 else slot_lba f ! s) [0..<PS_SLOTS],
      slot_unit := map (\<lambda>s. if s \<noteq> slot \<and> slot_lba f ! s = l \<and> slot_unit f ! s = u then -1 else slot_unit f ! s) [0..<PS_SLOTS]\<rparr>"
  using fold_forget [of PS_SLOTS f "\<lambda>s x y. s \<noteq> slot \<and> x = l \<and> y = u"] assms
  by (simp add: drop_stale_def cong: map_cong)

lemma forget_unit_eq:
  assumes "length (slot_lba f) = PS_SLOTS" and "length (slot_unit f) = PS_SLOTS"
  shows "forget_unit unit f =
    f\<lparr>slot_lba := map (\<lambda>s. if slot_unit f ! s = int8 unit then -1 else slot_lba f ! s) [0..<PS_SLOTS],
      slot_unit := map (\<lambda>s. if slot_unit f ! s = int8 unit then -1 else slot_unit f ! s) [0..<PS_SLOTS]\<rparr>"
  using fold_forget [of PS_SLOTS f "\<lambda>s x y. y = int8 unit"] assms
  by (simp add: forget_unit_def cong: map_cong)

lemma table_ok_masked:
  assumes "table_ok ls us b"
  shows "table_ok (map (\<lambda>s. if Q s then -1 else ls ! s) [0..<PS_SLOTS])
    (map (\<lambda>s. if Q s then -1 else us ! s) [0..<PS_SLOTS]) b"
  using assms by (auto simp: table_ok_def)

lemma table_ok_claim:
  assumes "table_ok ls us b" and "s < PS_SLOTS" and "claim_ok b l u"
    and "\<forall>t < PS_SLOTS. t \<noteq> s \<longrightarrow> (ls ! t, us ! t) \<noteq> (l, u)"
  shows "table_ok (ls[s := l]) (us[s := u]) b"
  using assms by (auto simp: table_ok_def nth_upd)

text \<open>A drive changed under no claim, and a pack changed without losing blocks.\<close>

lemma bay_pack_set:
  "length (b_d b) = BAY_UNITS \<Longrightarrow> u < BAY_UNITS \<Longrightarrow>
     bay_pack (set_drive b u d) n = (if n = u then (if d_present d then Some (d_pack d) else None) else bay_pack b n)"
  by (auto simp: bay_pack_def set_drive_def)

lemma bay_sane_set:
  "bay_sane b \<Longrightarrow> (d_present d \<Longrightarrow> drive_sane d) \<Longrightarrow> bay_sane (set_drive b u d)"
  by (auto simp: bay_sane_def set_drive_def nth_upd)

lemma table_ok_set_drive:
  assumes "table_ok ls us b" and "u < BAY_UNITS" and "d_present d \<Longrightarrow> drive_sane d"
    and "\<forall>s < PS_SLOTS. us ! s \<noteq> int u \<or> (d_present d \<and> p_blocks (d_pack d) = p_blocks (d_pack (b_d b ! u)))"
  shows "table_ok ls us (set_drive b u d)"
proof -
  have len: "length (b_d b) = BAY_UNITS" using assms(1) by (simp add: table_ok_def bay_sane_def)
  have "claim_ok (set_drive b u d) (ls ! s) (us ! s)" if s: "s < PS_SLOTS" for s
  proof -
    have "claim_ok b (ls ! s) (us ! s)" using assms(1) s by (simp add: table_ok_def)
    then consider "ls ! s = -1" "us ! s = -1"
      | n pk where "n < BAY_UNITS" "us ! s = int n" "bay_pack b n = Some pk" "0 \<le> ls ! s" "ls ! s < int (unat (p_blocks pk))"
      by (auto simp: claim_ok_def)
    then show ?thesis
    proof cases
      case 2
      have "\<exists>pk'. bay_pack (set_drive b u d) n = Some pk' \<and> p_blocks pk' = p_blocks pk"
        using 2 assms(4) s by (auto simp: bay_pack_set [OF len assms(2)]) (auto simp: bay_pack_def split: if_splits)
      with 2 show ?thesis by (auto simp: claim_ok_def)
    qed (simp add: claim_ok_def)
  qed
  then show ?thesis using assms bay_sane_set [OF _ assms(3)] by (auto simp: table_ok_def)
qed

lemma int8_small: "u < BAY_UNITS \<Longrightarrow> int8 u = int u"
proof -
  assume "u < BAY_UNITS"
  then have "u \<in> {0, 1, 2, 3, 4, 5, 6, 7}" by auto
  then show ?thesis by (auto simp: int8_def)
qed

lemma sint_small:
  assumes "unat (x :: u32) < 2 ^ 31"
  shows "sint x = int (unat x)"
proof -
  have "x < 2 ^ 31" using assms by (simp add: word_less_nat_alt)
  then have "uint x < 2 ^ 31" by (simp add: word_less_def)
  moreover have "0 \<le> uint x" by simp
  ultimately have "signed_take_bit 31 (uint x) = uint x" by (intro signed_take_bit_int_eq_self) linarith+
  then show ?thesis by (simp add: sint_uint)
qed


section \<open>Every operation keeps the table\<close>

lemma pack_record_lba: "pack_record p lba k = (Inr ws, k') \<Longrightarrow> lba < p_blocks p"
  by (auto simp: pack_record_def not_le split: if_splits)

lemma bay_pack_sane: "bay_sane b \<Longrightarrow> bay_pack b u = Some pk \<Longrightarrow> pack_sane pk \<and> u < BAY_UNITS"
  by (auto simp: bay_sane_def drive_sane_def bay_pack_def split: if_splits)

lemma serve_record_inv:
  assumes "serve_record F unit pk lba tag slot f k = (r, f', k')" and "feeder_inv f"
    and "bay_pack (f_bay f) unit = Some pk" and "slot < PS_SLOTS"
  shows "feeder_inv f'"
proof -
  have sane: "unat (p_blocks pk) \<le> 2 ^ 28" "unit < BAY_UNITS" "bay_sane (f_bay f)"
    using assms(2,3) bay_pack_sane [of "f_bay f"] by (auto simp: table_ok_def pack_sane_def)
  show ?thesis
  proof (cases "pack_record pk lba k")
    case (Pair x k1)
    show ?thesis
    proof (cases x)
      case (Inl e)
      with assms(1,2) Pair show ?thesis by (auto simp: serve_record_def)
    next
      case (Inr words)
      let ?addr = "feeder_fetch_addr (f_base f) slot"
      let ?f = "tell (poke_words F (word_at f ?addr) words) f"
      obtain rr st f1 where rq: "request (ps_fetch F ?addr tag slot) ?f = (rr, st, f1)"
        by (cases "request (ps_fetch F ?addr tag slot) ?f")
      have t1: "slot_lba f1 = slot_lba f" "slot_unit f1 = slot_unit f" "f_bay f1 = f_bay f"
        using request_same [OF rq] by (auto simp: same_table_def)
      then have inv1: "feeder_inv f1" using assms(2) by simp
      have lba: "unat lba < unat (p_blocks pk)"
        using pack_record_lba Pair Inr by (auto simp: word_less_nat_alt)
      have claim: "claim_ok (f_bay f) (sint lba) (int8 unit)"
        using lba sane assms(3) by (auto simp: claim_ok_def sint_small int8_small word_less_nat_alt
            simp flip: word_less_def)
      show ?thesis
      proof (cases rr)
        case PS_OK
        let ?Q = "\<lambda>s. s \<noteq> slot \<and> slot_lba f1 ! s = sint lba \<and> slot_unit f1 ! s = int8 unit"
        have len: "length (slot_lba f1) = PS_SLOTS" "length (slot_unit f1) = PS_SLOTS"
          using inv1 by (auto simp: table_ok_def)
        have "table_ok (map (\<lambda>s. if ?Q s then -1 else slot_lba f1 ! s) [0..<PS_SLOTS])
            (map (\<lambda>s. if ?Q s then -1 else slot_unit f1 ! s) [0..<PS_SLOTS]) (f_bay f)"
          using table_ok_masked [OF inv1, of ?Q] t1(3) by simp
        then have "table_ok ((map (\<lambda>s. if ?Q s then -1 else slot_lba f1 ! s) [0..<PS_SLOTS])[slot := sint lba])
            ((map (\<lambda>s. if ?Q s then -1 else slot_unit f1 ! s) [0..<PS_SLOTS])[slot := int8 unit]) (f_bay f)"
          using assms(4) claim lba sane by (intro table_ok_claim) (auto simp: sint_small int8_small)
        then show ?thesis
          using assms(1) Pair Inr rq PS_OK drop_stale_eq [OF len] t1
          by (auto simp: serve_record_def Let_def)
      next
        case PS_WALK_SLOT
        then show ?thesis using assms(1) Pair Inr rq inv1 by (auto simp: serve_record_def Let_def)
      next
        case (PS_FAIL why)
        then show ?thesis using assms(1) Pair Inr rq inv1 table_ok_forget [OF inv1]
          by (auto simp: serve_record_def Let_def split: if_splits)
      qed
    qed
  qed
qed

lemma feeder_serve_inv: "feeder_serve F unit c h b slot f k = (r, f', k') \<Longrightarrow> feeder_inv f \<Longrightarrow> feeder_inv f'"
  by (auto simp: feeder_serve_def not_le dest: serve_record_inv split: if_splits option.splits)

lemma feeder_serve_lba_inv: "feeder_serve_lba F lba slot f k = (r, f', k') \<Longrightarrow> feeder_inv f \<Longrightarrow> feeder_inv f'"
  by (auto simp: feeder_serve_lba_def not_le dest: serve_record_inv split: if_splits option.splits)

lemma serve_wanted_inv: "serve_wanted F w slot f k = (r, f', k') \<Longrightarrow> feeder_inv f \<Longrightarrow> feeder_inv f'"
  by (auto simp: serve_wanted_def dest: feeder_serve_inv feeder_serve_lba_inv split: wanted.splits)

text \<open>A write-back may change the pack of its unit, never how many blocks it has.\<close>

lemma pack_writeback_blocks:
  assumes "pack_writeback p lba words k = (r, p', k')"
  shows "p_blocks p' = p_blocks p" and "p_g p' = p_g p" and "p_quux p' = p_quux p"
    and "p_writable p' = p_writable p"
  using assms
  by (auto simp: pack_writeback_def pack_writeback_quux_def same_drive_def
      dest!: pack_lay_header_any(2) pack_lay_checkword_any(2)
      split: if_splits prod.splits sum.splits option.splits bool.splits)

lemma put_pack_inv:
  assumes "feeder_inv f" and "bay_pack (f_bay f) unit = Some pk" and "pack_writeback pk lba words k = (r, pk', k')"
  shows "feeder_inv (put_pack unit pk' f)"
proof -
  have sane: "pack_sane pk" "unit < BAY_UNITS"
    using assms(1,2) bay_pack_sane [of "f_bay f"] by (auto simp: table_ok_def)
  have pk: "d_pack (b_d (f_bay f) ! unit) = pk" "d_present (b_d (f_bay f) ! unit)"
    using assms(2) by (auto simp: bay_pack_def split: if_splits)
  have ds: "drive_sane (b_d (f_bay f) ! unit)"
    using assms(1) sane(2) pk(2) by (simp add: table_ok_def bay_sane_def)
  note w = pack_writeback_blocks [OF assms(3)]
  have "pack_sane pk'" using sane(1) w by (simp add: pack_sane_def)
  then have "table_ok (slot_lba f) (slot_unit f)
      (set_drive (f_bay f) unit ((b_d (f_bay f) ! unit)\<lparr>d_pack := pk'\<rparr>))"
    using assms(1) sane(2) w pk ds by (intro table_ok_set_drive) (auto simp: drive_sane_def)
  then show ?thesis by (simp add: put_pack_def)
qed

lemma commit_record_inv:
  assumes "commit_record F slot unit pk lba addr i f k = (r, f', k')" and "feeder_inv f"
    and "bay_pack (f_bay f) unit = Some pk"
  shows "feeder_inv f'"
proof -
  obtain words f1 where a1: "ask (peek_words F i 259) f = (words, f1)" by (cases "ask (peek_words F i 259) f")
  obtain pad f2 where a2: "ask (peek_words F (i + 259) 1) f1 = (pad, f2)" by (cases "ask (peek_words F (i + 259) 1) f1")
  have t: "same_table f f1" "same_table f f2"
    using ask_same [OF a1] ask_same [OF a2] by (auto intro: same_table_trans)
  have inv: "feeder_inv f1" "feeder_inv f2" using t assms(2) by (simp_all add: same_table_inv)
  have pk: "bay_pack (f_bay f2) unit = Some pk" using t(2) assms(3) by (simp add: same_table_def)
  show ?thesis
    using assms(1) a1 a2 inv put_pack_inv [OF inv(2) pk]
    by (auto simp: commit_record_def split: if_splits prod.splits sum.splits)
qed

lemma feeder_writeback_inv:
  assumes "feeder_writeback F slot f k = (r, f', k')" and "feeder_inv f"
  shows "feeder_inv f'"
proof -
  let ?addr = "feeder_wb_addr (f_base f) slot" and ?unit = "nat (slot_unit f ! slot)"
  let ?f = "tell (poke_words F (word_at f ?addr) (poison_words ?addr)) f"
  obtain rr st f1 where rq: "request (ps_writeback F ?addr slot) ?f = (rr, st, f1)"
    by (cases "request (ps_writeback F ?addr slot) ?f")
  have t: "slot_lba f1 = slot_lba f" "slot_unit f1 = slot_unit f" "f_bay f1 = f_bay f"
    using request_same [OF rq] by (auto simp: same_table_def)
  show ?thesis
    using assms rq t commit_record_inv [of F slot ?unit _ _ ?addr "word_at f ?addr" f1 k r f' k']
    by (auto simp: feeder_writeback_def Let_def split: if_splits option.splits ps_result.splits)
qed

lemma feeder_take_inv: "feeder_take F slot f = (r, f') \<Longrightarrow> feeder_inv f \<Longrightarrow> feeder_inv f'"
  by (auto simp: feeder_take_def dest!: request_same simp: same_table_def
      intro: table_ok_forget split: if_splits prod.splits ps_result.splits)


lemma victim_turn_same: "victim_turn F n skip ref f = (v, f') \<Longrightarrow> same_table f f'"
proof (induction n arbitrary: skip ref f)
  case (Suc n)
  from Suc.prems show ?case
    by (auto simp: Let_def split: if_splits dest!: Suc.IH) (simp_all add: same_table_def)
qed simp

lemma next_victim_same: "next_victim F skip f = (v, f') \<Longrightarrow> same_table f f'"
  by (auto simp: next_victim_def dest!: ask_same victim_turn_same intro: same_table_trans split: prod.splits)

lemma deny_same [simp]: "same_table f (deny F tag why f)"
  by (simp add: deny_def Let_def same_table_def)

lemma deny_inv [simp]: "feeder_inv (deny F tag why f) \<longleftrightarrow> feeder_inv f"
  using same_table_inv [OF deny_same] .

lemma answered_inv [simp]: "feeder_inv (answered tag lba v f) \<longleftrightarrow> feeder_inv f"
  by (simp add: answered_def Let_def)

lemma answer_tries_inv:
  "answer_tries F n skip tag lba w f k = (r, f', k') \<Longrightarrow> feeder_inv f \<Longrightarrow> feeder_inv f'"
proof (induction n arbitrary: skip f k)
  case (Suc n)
  obtain v f1 where v: "next_victim F skip f = (v, f1)" by (cases "next_victim F skip f")
  obtain dirty f2 where d: "ask (ps_dirty F) f1 = (dirty, f2)" by (cases "ask (ps_dirty F) f1")
  have inv: "feeder_inv f1" "feeder_inv f2"
    using same_table_inv [OF next_victim_same [OF v]] same_table_inv [OF ask_same [OF d]] Suc.prems(2) by auto
  show ?case
  proof (cases v)
    case None
    with Suc.prems v inv show ?thesis by auto
  next
    case (Some s)
    obtain w1 f3 k3 where w: "(if up dirty s then feeder_writeback F s f2 k else (Moved, f2, k)) = (w1, f3, k3)"
      by (cases "if up dirty s then feeder_writeback F s f2 k else (Moved, f2, k)")
    have inv3: "feeder_inv f3" using w inv(2) by (auto dest: feeder_writeback_inv split: if_splits)
    obtain r4 f4 k4 where sv: "serve_wanted F w s f3 k3 = (r4, f4, k4)" by (cases "serve_wanted F w s f3 k3")
    have inv4: "feeder_inv f4" using serve_wanted_inv [OF sv inv3] .
    show ?thesis
      using Suc.prems(1) v Some d w sv inv3 inv4 Suc.IH
      by (auto split: moved.splits)
  qed
qed auto

lemma answer_inv: "answer F tag f k = (r, f', k') \<Longrightarrow> feeder_inv f \<Longrightarrow> feeder_inv f'"
  by (auto simp: answer_def Let_def dest!: answer_tries_inv split: sum.splits prod.splits if_splits)

lemma pass_slots_inv:
  "pass_slots F dirty a ss f k = (r, f', k') \<Longrightarrow> feeder_inv f \<Longrightarrow> feeder_inv f'"
proof (induction ss arbitrary: a f k)
  case (Cons s ss)
  obtain w f1 k1 where w: "feeder_writeback F s f k = (w, f1, k1)" by (cases "feeder_writeback F s f k")
  have "feeder_inv f1" using feeder_writeback_inv [OF w Cons.prems(2)] .
  with Cons w show ?case by (auto simp: Let_def split: if_splits moved.splits)
qed simp

lemma feeder_pass_inv: "feeder_pass F f k = (r, f', k') \<Longrightarrow> feeder_inv f \<Longrightarrow> feeder_inv f'"
proof -
  assume p: "feeder_pass F f k = (r, f', k')" and inv: "feeder_inv f"
  obtain irq f1 where i: "ask (ps_irq F) (f\<lparr>t_polls := t_polls f + 1\<rparr>) = (irq, f1)"
    by (cases "ask (ps_irq F) (f\<lparr>t_polls := t_polls f + 1\<rparr>)")
  let ?f = "if irq \<noteq> 0 then tell (ps_irq_clear F irq) f1 else f1"
  obtain req f2 where q: "ask (ps_req F) ?f = (req, f2)" by (cases "ask (ps_req F) ?f")
  obtain ra f3 k3 where a: "(if req AND PS_REQ_VALID \<noteq> 0 then answer F (req AND PS_TAG_MASK) f2 k else (Inr 0, f2, k)) = (ra, f3, k3)"
    by (cases "if req AND PS_REQ_VALID \<noteq> 0 then answer F (req AND PS_TAG_MASK) f2 k else (Inr 0, f2, k)")
  obtain dirty f4 where d: "ask (ps_dirty F) f3 = (dirty, f4)" by (cases "ask (ps_dirty F) f3")
  have "feeder_inv f2" using ask_same [OF i] ask_same [OF q] inv by (auto simp: same_table_def split: if_splits)
  then have inv3: "feeder_inv f3" using a by (auto dest: answer_inv split: if_splits)
  then have "feeder_inv f4" using same_table_inv [OF ask_same [OF d]] by simp
  with p i q a d inv3 show "feeder_inv f'"
    by (auto simp: feeder_pass_def Let_def dest: pass_slots_inv split: sum.splits)
qed

lemma feeder_poll_inv: "feeder_poll F f k = (r, f', k') \<Longrightarrow> feeder_inv f \<Longrightarrow> feeder_inv f'"
  by (auto simp: feeder_poll_def dest!: feeder_pass_inv split: prod.splits sum.splits)

lemma feeder_flush_inv: "feeder_flush F n f k = (r, f', k') \<Longrightarrow> feeder_inv f \<Longrightarrow> feeder_inv f'"
proof (induction n arbitrary: f k)
  case 0
  then show ?case by (auto dest!: ask_same simp: same_table_inv split: prod.splits)
next
  case (Suc n)
  obtain dirty f1 where d: "ask (ps_dirty F) f = (dirty, f1)" by (cases "ask (ps_dirty F) f")
  obtain x f2 k2 where p: "feeder_poll F f1 k = (x, f2, k2)" by (cases "feeder_poll F f1 k")
  have "feeder_inv f1" using same_table_inv [OF ask_same [OF d]] Suc.prems(2) by simp
  moreover have "feeder_inv f2" using feeder_poll_inv [OF p calculation] .
  ultimately show ?case using Suc.prems(1) Suc.IH [of "tell (ps_pause F) f2" k2] d p
    by (auto split: if_splits sum.splits)
qed


section \<open>The drive bay keeps the table\<close>

lemma flush_unit_slots_inv:
  "flush_unit_slots F unit dirty ss t f k = (t', f', k') \<Longrightarrow> feeder_inv f \<Longrightarrow> feeder_inv f'"
proof (induction ss arbitrary: t f k)
  case (Cons s ss)
  obtain w f1 k1 where w: "feeder_writeback F s f k = (w, f1, k1)" by (cases "feeder_writeback F s f k")
  have "feeder_inv f1" using feeder_writeback_inv [OF w Cons.prems(2)] .
  with Cons w show ?case by (cases t) (auto split: if_splits moved.splits)
qed simp

lemma flush_unit_passes_inv:
  "flush_unit_passes F unit n done still f k = (t', f', k') \<Longrightarrow> feeder_inv f \<Longrightarrow> feeder_inv f'"
proof (induction n arbitrary: "done" still f k)
  case (Suc n)
  obtain dirty f1 where d: "ask (ps_dirty F) f = (dirty, f1)" by (cases "ask (ps_dirty F) f")
  obtain t f2 k2 where p: "flush_unit_slots F unit dirty [0..<PS_SLOTS] (done, 0, False) f1 k = (t, f2, k2)"
    by (cases "flush_unit_slots F unit dirty [0..<PS_SLOTS] (done, 0, False) f1 k")
  have "feeder_inv f1" using same_table_inv [OF ask_same [OF d]] Suc.prems(2) by simp
  then have "feeder_inv f2" using flush_unit_slots_inv [OF p] by simp
  with Suc.prems(1) Suc.IH d p show ?case by (cases t) (auto split: if_splits)
qed auto

lemma feeder_flush_unit_inv:
  "feeder_flush_unit F unit n f k = (t, f', k') \<Longrightarrow> feeder_inv f \<Longrightarrow> feeder_inv f'"
  by (auto simp: feeder_flush_unit_def dest: flush_unit_passes_inv)

lemma take_unit_slots_inv:
  "take_unit_slots F unit ss t f = (t', f') \<Longrightarrow> feeder_inv f \<Longrightarrow> feeder_inv f'"
proof (induction ss arbitrary: t f)
  case (Cons s ss)
  obtain w f1 where w: "feeder_take F s f = (w, f1)" by (cases "feeder_take F s f")
  have "feeder_inv f1" using feeder_take_inv [OF w Cons.prems(2)] .
  with Cons w show ?case by (auto split: if_splits moved.splits)
qed simp

lemma take_unit_passes_inv:
  "take_unit_passes F unit p n f = (m, f') \<Longrightarrow> feeder_inv f \<Longrightarrow> feeder_inv f'"
proof (induction p arbitrary: n f)
  case (Suc p)
  obtain t f1 where t: "take_unit_slots F unit [0..<PS_SLOTS] (n, False) f = (t, f1)"
    by (cases "take_unit_slots F unit [0..<PS_SLOTS] (n, False) f")
  have "feeder_inv f1" using take_unit_slots_inv [OF t Suc.prems(2)] .
  with Suc.prems(1) Suc.IH t show ?case by (cases t) (auto split: if_splits)
qed auto

text \<open>After a unit's slots are taken away no slot claims it, whether the face took them or not.\<close>

lemma feeder_take_unit_inv:
  assumes "feeder_take_unit F unit f = (n, f')" and "feeder_inv f"
  shows "feeder_inv f'" and "\<forall>s < PS_SLOTS. slot_unit f' ! s \<noteq> int8 unit \<or> int8 unit = -1"
proof -
  obtain f1 where p: "take_unit_passes F unit 8 0 f = (n, f1)" and f': "f' = forget_unit unit f1"
    using assms(1) by (auto simp: feeder_take_unit_def split: prod.splits)
  have inv: "feeder_inv f1" using take_unit_passes_inv [OF p assms(2)] .
  then have len: "length (slot_lba f1) = PS_SLOTS" "length (slot_unit f1) = PS_SLOTS" by (auto simp: table_ok_def)
  show "feeder_inv f'"
    using table_ok_masked [OF inv, of "\<lambda>s. slot_unit f1 ! s = int8 unit"] by (simp add: f' forget_unit_eq [OF len])
  show "\<forall>s < PS_SLOTS. slot_unit f' ! s \<noteq> int8 unit \<or> int8 unit = -1"
    by (simp add: f' forget_unit_eq [OF len])
qed

lemma absent_unclaimed:
  "table_ok ls us b \<Longrightarrow> \<not> d_present (b_d b ! u) \<Longrightarrow> s < PS_SLOTS \<Longrightarrow> us ! s \<noteq> int u"
  by (auto simp: table_ok_def claim_ok_def bay_pack_def dest!: spec [of _ s] split: if_splits)

lemma pack_open_sane: "pack_open path w k = (Inr (), p, k') \<Longrightarrow> pack_sane p \<and> p_writable p = w"
  by (auto simp: pack_open_def pack_sane_def pack_zero_def Let_def pack_geometry_of_size_def drive_type_def
      PACK_T80_def PACK_T300_def split: prod.splits sum.splits option.splits if_splits)

lemma quux_probe_format_max: "quux_probe_format x = Inr d \<Longrightarrow> unat (q_blocks d) \<le> QUUX_MAX_BLOCKS"
  by (auto simp: quux_probe_format_def Let_def unat_of_nat not_less
      split: option.splits prod.splits if_splits)

lemma quux_probe_dynamic_blocks: "quux_probe_dynamic fd d0 k = (Inr d, k') \<Longrightarrow> q_blocks d = q_blocks d0"
  by (auto simp: quux_probe_dynamic_def Let_def split: if_splits prod.splits sum.splits)

lemma quux_disk_open_max: "quux_disk_open fd k = (Inr d, k') \<Longrightarrow> unat (q_blocks d) \<le> QUUX_MAX_BLOCKS"
  by (auto simp: quux_disk_open_def quux_disk_probe_def Let_def
      dest!: quux_probe_format_max quux_probe_dynamic_blocks split: prod.splits sum.splits if_splits)

lemma pack_open_quux_sane: "pack_open_quux path w k = (Inr (), p, k') \<Longrightarrow> pack_sane p \<and> p_writable p = w"
  by (auto simp: pack_open_quux_def pack_sane_def pack_zero_def dest!: quux_disk_open_max
      split: prod.splits sum.splits)

lemma bay_open_inv:
  assumes "bay_open b u l k = (r, b', k')" and "table_ok ls us b" and "\<not> d_present (b_d b ! u)" and "u < BAY_UNITS"
  shows "table_ok ls us b'"
proof -
  have "\<exists>d. b' = set_drive b u d \<and> (d_present d \<longrightarrow> drive_sane d)"
    using assms(1,3)
    by (auto simp: bay_open_def drive_sane_def Let_def dest: pack_open_sane pack_open_quux_sane
        split: prod.splits sum.splits if_splits intro!: exI conjI [OF refl])
  then obtain d where b': "b' = set_drive b u d" "d_present d \<Longrightarrow> drive_sane d" by blast
  show ?thesis
    unfolding b'(1) using assms(2-4) b'(2) absent_unclaimed [OF assms(2,3)]
    by (intro table_ok_set_drive) auto
qed

lemma bay_reopen_inv:
  assumes "bay_reopen b u w k = (r, b', k')" and "table_ok ls us b" and "u < BAY_UNITS"
  shows "table_ok ls us b'"
proof -
  have sane: "d_present (b_d b ! u) \<Longrightarrow> drive_sane (b_d b ! u)"
    using assms(2,3) by (simp add: table_ok_def bay_sane_def)
  have "b' = b \<or> (\<exists>d. b' = set_drive b u d \<and> d_present d \<and> drive_sane d \<and>
      p_blocks (d_pack d) = p_blocks (d_pack (b_d b ! u)))"
    using assms(1) sane
    by (auto simp: bay_reopen_def Let_def pack_reopen_def drive_sane_def pack_sane_def
        split: prod.splits sum.splits if_splits intro!: exI conjI [OF refl])
  then show ?thesis using assms(2,3) by (auto intro!: table_ok_set_drive)
qed

lemma bay_close_inv:
  assumes "bay_close b u k = (b', k')" and "table_ok ls us b" and "u < BAY_UNITS"
    and "\<forall>s < PS_SLOTS. us ! s \<noteq> int u"
  shows "table_ok ls us b'" and "\<not> d_present (b_d b' ! u)"
proof -
  obtain d where b': "b' = set_drive b u d" "\<not> d_present d"
    using assms(1) by (auto simp: bay_close_def Let_def split: prod.splits)
  show "table_ok ls us b'" unfolding b'(1) using assms(2-4) b'(2) by (intro table_ok_set_drive) auto
  show "\<not> d_present (b_d b' ! u)" using assms(2,3) b' by (simp add: set_drive_def table_ok_def bay_sane_def)
qed

lemma owed_blocks_same: "owed_blocks F unit f = (t, f') \<Longrightarrow> same_table f f'"
  by (auto simp: owed_blocks_def Let_def dest!: ask_same split: prod.splits)


text \<open>A removal in the order the code has it: flush, count what is owed, take away, close.\<close>

lemma bay_remove_steps:
  assumes "bay_remove F u may why att f k = (att', f', k')"
  obtains alive k1 still wrote f1 k2 lost blocks f2 f3 n f4 b where
    "(case bay_pack (f_bay f) u of Some pk \<Rightarrow> if may then pack_alive pk k else (False, k) | None \<Rightarrow> (False, k)) = (alive, k1)"
    and "(if alive then feeder_flush_unit F u 8 f k1 else ((0, 0), f, k1)) = ((still, wrote), f1, k2)"
    and "owed_blocks F u (f1\<lparr>t_flushed := t_flushed f1 + wrote\<rparr>) = ((lost, blocks), f2)"
    and "same_table f2 f3" and "feeder_take_unit F u f3 = (n, f4)" and "bay_close (f_bay f4) u k2 = (b, k')"
    and "slot_lba f' = slot_lba f4" "slot_unit f' = slot_unit f4" "f_bay f' = b" "att' = att OR push_bit u 1"
    and "t_lost_blocks f3 = t_lost_blocks f2 + lost"
    and "lost \<noteq> 0 \<Longrightarrow> Say_lost u lost why blocks (lost - length blocks) \<in> set (f_log f3)"
proof -
  obtain alive k1 where a: "(case bay_pack (f_bay f) u of Some pk \<Rightarrow> if may then pack_alive pk k else (False, k) | None \<Rightarrow> (False, k)) = (alive, k1)"
    by (cases "case bay_pack (f_bay f) u of Some pk \<Rightarrow> if may then pack_alive pk k else (False, k) | None \<Rightarrow> (False, k)")
  obtain still wrote f1 k2 where fl: "(if alive then feeder_flush_unit F u 8 f k1 else ((0, 0), f, k1)) = ((still, wrote), f1, k2)"
    by (metis surj_pair)
  obtain lost blocks f2 where o: "owed_blocks F u (f1\<lparr>t_flushed := t_flushed f1 + wrote\<rparr>) = ((lost, blocks), f2)"
    by (metis surj_pair)
  let ?f3 = "if lost \<noteq> 0 then
                 say (Say_lost u lost why blocks (lost - length blocks))
                   (f2\<lparr>t_lost_events := t_lost_events f2 + 1, t_lost_blocks := t_lost_blocks f2 + lost\<rparr>)
               else if wrote \<noteq> 0 then say (Say_flushed u wrote why) f2 else f2"
  obtain n f4 where t: "feeder_take_unit F u ?f3 = (n, f4)" by (cases "feeder_take_unit F u ?f3")
  obtain b kk where c: "bay_close (f_bay f4) u k2 = (b, kk)" by (cases "bay_close (f_bay f4) u k2")
  from assms a fl o t c have r: "att' = att OR push_bit u 1" "k' = kk"
    "f' = (let f = f4\<lparr>f_bay := b, t_went_away := t_went_away f4 + 1\<rparr>
           in if lost = 0 \<and> wrote = 0 then say (Say_absent u why) f else f)"
    unfolding bay_remove_def Let_def by (simp_all only: prod.case split: prod.splits) auto
  show thesis
  proof (rule that [OF a fl o _ t])
    show "same_table f2 ?f3" by (simp add: same_table_def)
    show "bay_close (f_bay f4) u k2 = (b, k')" using c r(2) by simp
    show "slot_lba f' = slot_lba f4" "slot_unit f' = slot_unit f4" "f_bay f' = b" using r(3) by (auto simp: Let_def)
    show "att' = att OR push_bit u 1" by (rule r(1))
    show "t_lost_blocks ?f3 = t_lost_blocks f2 + lost" by (simp add: say_def)
    show "Say_lost u lost why blocks (lost - length blocks) \<in> set (f_log ?f3)" if "lost \<noteq> 0"
      using that by (simp add: say_def)
  qed
qed

lemma bay_remove_inv:
  assumes r: "bay_remove F u may why att f k = (att', f', k')" and inv: "feeder_inv f" and u: "u < BAY_UNITS"
  shows "feeder_inv f'" and "\<not> d_present (b_d (f_bay f') ! u)"
proof -
  from r have "feeder_inv f' \<and> \<not> d_present (b_d (f_bay f') ! u)"
  proof (rule bay_remove_steps)
    fix alive k1 still wrote f1 k2 lost blocks f2 f3 n f4 b
    assume fl: "(if alive then feeder_flush_unit F u 8 f k1 else ((0, 0), f, k1)) = ((still, wrote), f1, k2)"
      and o: "owed_blocks F u (f1\<lparr>t_flushed := t_flushed f1 + wrote\<rparr>) = ((lost, blocks), f2)"
      and s: "same_table f2 f3" and t: "feeder_take_unit F u f3 = (n, f4)"
      and c: "bay_close (f_bay f4) u k2 = (b, k')"
      and f': "slot_lba f' = slot_lba f4" "slot_unit f' = slot_unit f4" "f_bay f' = b"
    have "feeder_inv f1" using fl inv by (auto dest: feeder_flush_unit_inv split: if_splits)
    then have "feeder_inv f3" using same_table_inv [OF owed_blocks_same [OF o]] same_table_inv [OF s] by simp
    note t = feeder_take_unit_inv [OF t this]
    have "\<forall>s < PS_SLOTS. slot_unit f4 ! s \<noteq> int u" using t(2) u by (auto simp: int8_small)
    from bay_close_inv [OF c t(1) u this] f'
    show "feeder_inv f' \<and> \<not> d_present (b_d (f_bay f') ! u)" by auto
  qed
  then show "feeder_inv f'" and "\<not> d_present (b_d (f_bay f') ! u)" by auto
qed

lemma bay_add_inv:
  assumes "bay_add u l att f k = (att', f', k')" and "feeder_inv f" and "\<not> d_present (b_d (f_bay f) ! u)"
    and "u < BAY_UNITS"
  shows "feeder_inv f'"
proof -
  obtain r b k1 where o: "bay_open (f_bay f) u l k = (r, b, k1)" by (cases "bay_open (f_bay f) u l k")
  have "table_ok (slot_lba f) (slot_unit f) b" using bay_open_inv [OF o assms(2-4)] .
  with assms(1) o show ?thesis by (auto simp: bay_add_def Let_def split: sum.splits)
qed

lemma scan_protect_inv:
  assumes "scan_protect F u ro failed f k = (failed', f', k')" and "feeder_inv f" and "u < BAY_UNITS"
  shows "feeder_inv f'"
proof -
  obtain still wrote f1 k1 where fl: "(if ro then feeder_flush_unit F u 8 f k else ((0, 0), f, k)) = ((still, wrote), f1, k1)"
    by (metis surj_pair)
  let ?f = "if ro then f1\<lparr>t_flushed := t_flushed f1 + wrote\<rparr> else f1"
  obtain r b k2 where o: "bay_reopen (f_bay ?f) u (\<not> ro) k1 = (r, b, k2)"
    by (cases "bay_reopen (f_bay ?f) u (\<not> ro) k1")
  have "feeder_inv f1" using fl assms(2) by (auto dest: feeder_flush_unit_inv split: if_splits)
  then have "table_ok (slot_lba f1) (slot_unit f1) b" using bay_reopen_inv [OF o _ assms(3)] by simp
  with assms(1) fl o show ?thesis
    unfolding scan_protect_def Let_def by (auto split: sum.splits prod.splits if_splits)
qed


lemma bay_look_table: "bay_look_at b u k = (l, k') \<Longrightarrow> l_is_pack l \<Longrightarrow> l_there l"
  by (auto simp: bay_look_at_def no_look_def Let_def split: prod.splits sum.splits if_splits bool.splits option.splits)

text \<open>One unit of a scan: what the look implies, as the four cases of the code.\<close>

lemma scan_unit_cases:
  assumes "scan_unit F u (att, failed) f k = (t, f', k')"
  obtains (same) l where "bay_look_at (f_bay f) u k = (l, k')" "f' = f" "t = (att, failed)"
  | (removed) l k1 may why att1 f1 f2 where "bay_look_at (f_bay f) u k = (l, k1)" "d_present (b_d (f_bay f) ! u)"
      "bay_remove F u may why att f k1 = (att1, f1, k')" "same_table f1 f2" "f' = f2" "t = (att1, failed)"
  | (replaced) l k1 may why att1 f1 k2 f2 att2 where "bay_look_at (f_bay f) u k = (l, k1)" "d_present (b_d (f_bay f) ! u)"
      "bay_remove F u may why att f k1 = (att1, f1, k2)" "same_table f1 f2"
      "bay_add u l att1 f2 k2 = (att2, f', k')" "t = (att2, failed)"
  | (marked) l k1 failed' where "bay_look_at (f_bay f) u k = (l, k1)" "d_present (b_d (f_bay f) ! u)"
      "scan_protect F u (l_read_only l) failed f k1 = (failed', f', k')" "t = (att, failed')"
  | (added) l k1 att1 where "bay_look_at (f_bay f) u k = (l, k1)" "\<not> d_present (b_d (f_bay f) ! u)"
      "bay_add u l att f k1 = (att1, f', k')" "t = (att1, failed)"
proof -
  obtain l k1 where l: "bay_look_at (f_bay f) u k = (l, k1)" by (cases "bay_look_at (f_bay f) u k")
  let ?d = "b_d (f_bay f) ! u"
  let ?same = "l_there l \<and> l_dev l = p_dev (d_pack ?d) \<and> l_ino l = p_ino (d_pack ?d)"
  let ?un = "?same \<and> l_is_pack l \<and> l_size l = p_size (d_pack ?d)"
  let ?why = "if ?same then Rm_overwritten else if l_there l then Rm_other_file else Rm_gone"
  show thesis
  proof (cases "d_present ?d")
    case False
    with assms l show thesis
      by (auto simp: scan_unit_def Let_def split: if_splits prod.splits intro: same added)
  next
    case pres: True
    show thesis
    proof (cases ?un)
      case True
      with assms l pres show thesis
        by (auto simp: scan_unit_def Let_def split: if_splits prod.splits intro: same marked)
    next
      case False
      obtain att1 f1 k2 where r: "bay_remove F u (\<not> ?same) ?why att f k1 = (att1, f1, k2)"
        by (cases "bay_remove F u (\<not> ?same) ?why att f k1")
      let ?f2 = "if l_there l then f1\<lparr>t_replaced := t_replaced f1 + 1\<rparr> else f1"
      have st: "same_table f1 ?f2" by (simp add: same_table_def)
      have e: "scan_unit F u (att, failed) f k = (if l_there l \<and> l_is_pack l then
           (case bay_add u l att1 ?f2 k2 of (attention, f, k) \<Rightarrow> ((attention, failed), f, k))
         else ((att1, failed), ?f2, k2))"
        using l pres False r unfolding scan_unit_def Let_def by (simp only: prod.case if_False if_True simp_thms)
      show thesis
      proof (cases "l_there l \<and> l_is_pack l")
        case True
        obtain att2 f3 k3 where a: "bay_add u l att1 ?f2 k2 = (att2, f3, k3)" by (cases "bay_add u l att1 ?f2 k2")
        with e True assms have "f3 = f'" "k3 = k'" "t = (att2, failed)" by auto
        with a show thesis using replaced [OF l pres r st] by blast
      next
        case False
        with e assms have "f' = ?f2" "k2 = k'" "t = (att1, failed)" by auto
        with r show thesis using removed [OF l pres _ st] by blast
      qed
    qed
  qed
qed

lemma scan_unit_inv:
  assumes "scan_unit F u t f k = (t', f', k')" and "feeder_inv f" and "u < BAY_UNITS"
  shows "feeder_inv f'"
proof -
  obtain att failed where t: "t = (att, failed)" by (cases t)
  from assms(1) [unfolded t] show ?thesis
  proof (cases rule: scan_unit_cases)
    case same
    then show ?thesis using assms(2) by simp
  next
    case removed
    then show ?thesis using bay_remove_inv(1) [OF removed(3) assms(2,3)] by (simp add: same_table_inv)
  next
    case (replaced l k1 may why att1 f1 k2 f2 att2)
    have "feeder_inv f2" "\<not> d_present (b_d (f_bay f2) ! u)"
      using bay_remove_inv [OF replaced(3) assms(2,3)] replaced(4) by (auto simp: same_table_def)
    then show ?thesis using bay_add_inv [OF replaced(5) _ _ assms(3)] by simp
  next
    case marked
    then show ?thesis using scan_protect_inv [OF marked(3) assms(2,3)] by simp
  next
    case added
    then show ?thesis using bay_add_inv [OF added(3) assms(2) added(2) assms(3)] by simp
  qed
qed

lemma scan_units_inv:
  "scan_units F us t f k = (t', f', k') \<Longrightarrow> feeder_inv f \<Longrightarrow> set us \<subseteq> {..<BAY_UNITS} \<Longrightarrow> feeder_inv f'"
  by (induction us arbitrary: t f k) (auto dest: scan_unit_inv split: prod.splits)

lemma scan_seam_inv [simp]: "feeder_inv (scan_seam F att f) \<longleftrightarrow> feeder_inv f"
  by (simp add: scan_seam_def Let_def)

lemma feeder_bay_scan_inv:
  assumes "feeder_bay_scan F f k = (r, f', k')" and "feeder_inv f"
  shows "feeder_inv f'"
proof -
  obtain st f1 where a: "ask (ps_status F) f = (st, f1)" by (cases "ask (ps_status F) f")
  have t: "slot_lba f1 = slot_lba f" "slot_unit f1 = slot_unit f" "f_bay f1 = f_bay f"
    using ask_same [OF a] by (auto simp: same_table_def)
  have units: "set [0..<BAY_UNITS] \<subseteq> {..<BAY_UNITS}" by auto
  show ?thesis
    using assms a t
    by (auto simp: feeder_bay_scan_def Let_def dest!: scan_units_inv [OF _ _ units]
        split: prod.splits sum.splits if_splits)
qed

lemma start_slots_inv: "start_slots F dirty ss f = (r, f') \<Longrightarrow> feeder_inv f \<Longrightarrow> feeder_inv f'"
proof (induction ss arbitrary: f)
  case (Cons s ss)
  let ?f = "if up dirty s then f\<lparr>t_lost_at_start := t_lost_at_start f + 1\<rparr> else f"
  obtain rr st f1 where rq: "request (ps_take F s) ?f = (rr, st, f1)" by (cases "request (ps_take F s) ?f")
  have "feeder_inv f1" using request_same [OF rq] Cons.prems(2) by (auto simp: same_table_def split: if_splits)
  moreover from this have "feeder_inv (forget_slot s f1)" by (simp add: table_ok_forget)
  ultimately show ?case using Cons rq by (auto simp: Let_def split: ps_result.splits)
qed simp

lemma start_scans_inv: "start_scans F n f k = (r, f', k') \<Longrightarrow> feeder_inv f \<Longrightarrow> feeder_inv f'"
  by (induction n arbitrary: f k) (auto dest: feeder_bay_scan_inv split: prod.splits scanned.splits)

lemma feeder_start_inv:
  assumes "feeder_start F timed f k = (r, f', k')" and "feeder_inv f"
  shows "feeder_inv f'"
proof -
  obtain dirty f1 where d: "ask (ps_dirty F) (f\<lparr>f_timed := timed, f_hand := 0\<rparr>) = (dirty, f1)"
    by (cases "ask (ps_dirty F) (f\<lparr>f_timed := timed, f_hand := 0\<rparr>)")
  obtain e f2 where s: "start_slots F dirty [0..<PS_SLOTS] f1 = (e, f2)" by (cases "start_slots F dirty [0..<PS_SLOTS] f1")
  have "feeder_inv f1" using ask_same [OF d] assms(2) by (simp add: same_table_def)
  then have inv: "feeder_inv f2" using start_slots_inv [OF s] by simp
  show ?thesis
    using assms(1) d s inv
    by (auto simp: feeder_start_def Let_def dest!: start_scans_inv split: option.splits prod.splits if_splits)
qed

end
