(* ===== verification/Pack_Feeder_Props.thy ===== *)
theory Pack_Feeder_Props
  imports Pack_Feeder_Table
begin

text \<open>
  What the feeder's parts do, for any face: where the records lie, that the choice of a slot is
  second chance, that a write-back touches the one block its slot claims and only when
  something moved, and that a deleted or overwritten pack is left alone.
\<close>

unbundle bit_operations_syntax

section \<open>Addresses\<close>

lemma spare_addr:
  assumes "s < PS_SLOTS"
  shows "unat (feeder_fetch_addr (SPARE_BASE b) s) = unat (SPARE_BASE b) + s * 0x800"
    and "unat (feeder_wb_addr (SPARE_BASE b) s) = unat (SPARE_BASE b) + 0x10000 + s * 0x800"
proof -
  have s: "unat (of_nat s :: u32) = s" using assms by (simp add: unat_of_nat)
  have m: "unat (of_nat s * (0x800 :: u32)) = s * 0x800"
    using assms s by (subst unat_mult_lem [THEN iffD1]) auto
  have b: "unat (SPARE_BASE b) \<le> 0xB4100000" by (cases b) (simp_all add: SPARE_BASE_def)
  show "unat (feeder_fetch_addr (SPARE_BASE b) s) = unat (SPARE_BASE b) + s * 0x800"
    using m b assms unfolding feeder_fetch_addr_def by (subst unat_add_lem [THEN iffD1]) auto
  have w: "unat (SPARE_BASE b + 0x10000) = unat (SPARE_BASE b) + 0x10000"
    using b by (subst unat_add_lem [THEN iffD1]) auto
  show "unat (feeder_wb_addr (SPARE_BASE b) s) = unat (SPARE_BASE b) + 0x10000 + s * 0x800"
    using m b assms w unfolding feeder_wb_addr_def by (subst unat_add_lem [THEN iffD1]) auto
qed

lemma SPARE_BASE_aligned: "unat (SPARE_BASE b) mod 128 = 0"
  by (cases b) (simp_all add: SPARE_BASE_def)

section \<open>Second chance\<close>

lemma up_bit: "up w s \<longleftrightarrow> bit w s"
  by (simp add: up_def bit_iff_and_push_bit_not_eq_0)

lemma up_clear:
  "s < 32 \<Longrightarrow> t < 32 \<Longrightarrow> up (w AND NOT (push_bit s 1)) t \<longleftrightarrow> up w t \<and> s \<noteq> t"
  "s < 32 \<Longrightarrow> t < 32 \<Longrightarrow> up (w AND NOT (2 ^ s)) t \<longleftrightarrow> up w t \<and> s \<noteq> t"
  by (auto simp: up_bit bit_simps)

text \<open>The slots in the order the hand meets them.\<close>

definition from_hand :: "nat \<Rightarrow> nat list" where
  "from_hand h = map (\<lambda>i. (h + i) mod PS_SLOTS) [0..<PS_SLOTS]"

text \<open>
  The rule: the first slot from the hand that is not skipped and was not used since it was
  last passed, or, where every such slot was used, the first not skipped.
\<close>

definition second_chance :: "nat \<Rightarrow> u32 \<Rightarrow> u32 \<Rightarrow> nat option" where
  "second_chance h skip ref =
     (case find (\<lambda>s. \<not> up skip s \<and> \<not> up ref s) (from_hand h) of
        Some s \<Rightarrow> Some s
      | None \<Rightarrow> find (\<lambda>s. \<not> up skip s) (from_hand h))"

fun turn_list :: "u32 \<Rightarrow> u32 \<Rightarrow> nat list \<Rightarrow> nat option" where
  "turn_list skip ref [] = None"
| "turn_list skip ref (s # ss) =
     (if up skip s then turn_list skip ref ss
      else if up ref s then turn_list skip (ref AND NOT (push_bit s 1)) ss
      else Some s)"

lemma victim_turn_list:
  "f_hand f < PS_SLOTS \<Longrightarrow>
     fst (victim_turn F n skip ref f) = turn_list skip ref (map (\<lambda>i. (f_hand f + i) mod PS_SLOTS) [0..<n])"
proof (induction n arbitrary: ref f)
  case (Suc n)
  have u: "map (\<lambda>i. (f_hand f + i) mod PS_SLOTS) [0..<Suc n] =
      f_hand f # map (\<lambda>i. ((f_hand f + 1) mod PS_SLOTS + i) mod PS_SLOTS) [0..<n]"
    using Suc.prems by (simp add: upt_conv_Cons map_Suc_upt [symmetric] mod_simps del: upt_Suc)
  have "(f_hand f + 1) mod PS_SLOTS < PS_SLOTS" by simp
  then show ?case unfolding u
    using Suc.IH [of "f\<lparr>f_hand := (f_hand f + 1) mod PS_SLOTS\<rparr>" ref]
      Suc.IH [of "tell (ps_ref_clear F (push_bit (f_hand f) 1)) (f\<lparr>f_hand := (f_hand f + 1) mod PS_SLOTS\<rparr>)"
        "ref AND NOT (push_bit (f_hand f) 1)"]
    by (simp add: Let_def tell_def)
qed simp

text \<open>A run over distinct slots clears only what it has passed.\<close>

lemma turn_list_run:
  assumes "distinct xs" and "set xs \<subseteq> {..<PS_SLOTS}"
  shows "turn_list skip ref (xs @ ys) =
    (case find (\<lambda>s. \<not> up skip s \<and> \<not> up ref s) xs of
       Some s \<Rightarrow> Some s
     | None \<Rightarrow> turn_list skip (fold (\<lambda>s r. if up skip s then r else r AND NOT (push_bit s 1)) xs ref) ys)"
  using assms
proof (induction xs arbitrary: ref)
  case (Cons x xs)
  let ?r = "ref AND NOT (push_bit x 1)"
  have "find (\<lambda>s. \<not> up skip s \<and> \<not> up ?r s) xs = find (\<lambda>s. \<not> up skip s \<and> \<not> up ref s) xs"
    using Cons.prems by (intro find_cong refl) (auto simp: up_clear)
  with Cons show ?case by (auto split: option.splits)
qed simp

lemma cleared:
  assumes "set xs \<subseteq> {..<PS_SLOTS}" and "t \<in> set xs" and "\<not> up skip t"
  shows "\<not> up (fold (\<lambda>s r. if up skip s then r else r AND NOT (push_bit s 1)) xs ref) t"
proof -
  let ?g = "\<lambda>xs ref. fold (\<lambda>s r. if up skip s then r else r AND NOT (push_bit s 1)) xs ref"
  have down: "\<not> up ref t \<Longrightarrow> set xs \<subseteq> {..<PS_SLOTS} \<Longrightarrow> t < PS_SLOTS \<Longrightarrow> \<not> up (?g xs ref) t" for xs ref
    by (induction xs arbitrary: ref) (auto simp: up_clear)
  show ?thesis
    using assms(1,2)
  proof (induction xs arbitrary: ref)
    case (Cons x xs)
    show ?case
    proof (cases "x = t")
      case True
      with Cons.prems assms(3) show ?thesis
        using down [of "ref AND NOT (push_bit t 1)" xs] by (simp add: up_clear)
    next
      case False
      with Cons show ?thesis by auto
    qed
  qed simp
qed

lemma from_hand_rotate: "from_hand h = rotate h [0..<PS_SLOTS]"
  by (rule nth_equalityI) (simp_all add: from_hand_def nth_rotate)

lemma from_hand_slots: "distinct (from_hand h)" "set (from_hand h) = {..<PS_SLOTS}"
  by (auto simp: from_hand_rotate)

lemma next_victim_second_chance:
  assumes "f_hand f < PS_SLOTS" and "fst (fc_read F (ps_ctx (f_ps f)) PS_REF) = ref"
  shows "fst (next_victim F skip f) = second_chance (f_hand f) skip ref"
proof -
  obtain f1 where a: "ask (ps_ref F) f = (ref, f1)" and h: "f_hand f1 = f_hand f"
    using assms(2) by (cases "fc_read F (ps_ctx (f_ps f)) PS_REF") (auto simp: ask_def ps_ref_def ps_read_def)
  let ?o = "from_hand (f_hand f)"
  let ?c = "fold (\<lambda>s r. if up skip s then r else r AND NOT (push_bit s 1)) ?o ref"
  have m: "map (\<lambda>i. (f_hand f + i) mod PS_SLOTS) [0..<2 * PS_SLOTS + 1] =
      ?o @ (?o @ [f_hand f mod PS_SLOTS])"
  proof -
    have "[0..<2 * PS_SLOTS + 1] = [0..<PS_SLOTS] @ map (\<lambda>i. i + PS_SLOTS) [0..<PS_SLOTS] @ [2 * PS_SLOTS]"
      by (simp add: map_add_upt upt_add_eq_append [of 0 24 24, simplified, symmetric]
          upt_add_eq_append [of 0 24 25, simplified] upt_Suc_append)
    moreover have "(f_hand f + 48) mod 24 = f_hand f mod 24" using mod_mult_self1 [of "f_hand f" 2 24] by simp
    ultimately show ?thesis unfolding from_hand_def
      by (simp add: comp_def add.assoc [symmetric] del: upt_rec_numeral)
  qed
  have "find (\<lambda>s. \<not> up skip s \<and> \<not> up ?c s) ?o = find (\<lambda>s. \<not> up skip s) ?o"
  proof (rule find_cong)
    fix s assume "s \<in> set ?o"
    then have "\<not> up skip s \<Longrightarrow> \<not> up ?c s" using from_hand_slots(2) [of "f_hand f"] by (intro cleared) auto
    then show "(\<not> up skip s \<and> \<not> up ?c s) = (\<not> up skip s)" by blast
  qed simp
  moreover have "find (\<lambda>s. \<not> up skip s) ?o = None \<Longrightarrow> up skip (f_hand f mod PS_SLOTS)"
    using from_hand_slots(2) [of "f_hand f"] by (auto simp: find_None_iff)
  ultimately have "turn_list skip ?c (?o @ [f_hand f mod PS_SLOTS]) = find (\<lambda>s. \<not> up skip s) ?o"
    using turn_list_run [of ?o skip ?c "[f_hand f mod PS_SLOTS]"] from_hand_slots [of "f_hand f"]
    by (auto split: option.splits)
  then show ?thesis
    using victim_turn_list [of f1 F "2 * PS_SLOTS + 1" skip ref] assms(1) h a m
      turn_list_run [of ?o skip ref "?o @ [f_hand f mod PS_SLOTS]"] from_hand_slots [of "f_hand f"]
    by (simp add: next_victim_def second_chance_def split: option.splits del: upt_rec_numeral)
qed


section \<open>What a write-back commits\<close>

lemma length_peek_words: "peek_words F i n ps = (ws, ps') \<Longrightarrow> length ws = n"
  by (induction n arbitrary: i ps ws) (auto split: prod.splits)

lemma length_ask_peek: "ask (peek_words F i n) f = (ws, f') \<Longrightarrow> length ws = n"
  by (auto simp: ask_def dest: length_peek_words split: prod.splits)

lemma commit_record_cases:
  assumes "commit_record F slot unit pk lba addr i f k = (r, f', k')"
  shows "r \<noteq> Moved \<and> k' = k \<and> f_bay f' = f_bay f \<or>
    (\<exists>words e pk'. length words = 259 \<and> words \<noteq> map (feeder_poison addr) [0..<259] \<and>
       pack_writeback pk lba words k = (e, pk', k') \<and> (r = Moved \<longleftrightarrow> e = Inr ()) \<and>
       f_bay f' = set_drive (f_bay f) unit ((b_d (f_bay f) ! unit)\<lparr>d_pack := pk'\<rparr>))"
proof -
  obtain words f1 where a1: "ask (peek_words F i 259) f = (words, f1)" by (cases "ask (peek_words F i 259) f")
  obtain pad f2 where a2: "ask (peek_words F (i + 259) 1) f1 = (pad, f2)" by (cases "ask (peek_words F (i + 259) 1) f1")
  obtain e pk' k1 where w: "pack_writeback pk lba words k = (e, pk', k1)" by (cases "pack_writeback pk lba words k")
  have b: "f_bay f1 = f_bay f" "f_bay f2 = f_bay f"
    using ask_same [OF a1] ask_same [OF a2] by (auto simp: same_table_def)
  show ?thesis
  proof (cases "words = map (feeder_poison addr) [0..<259] \<or> pad \<noteq> [feeder_poison addr 259]")
    case True
    with assms a1 a2 b show ?thesis unfolding commit_record_def by (auto simp del: upt_rec_numeral split: if_splits)
  next
    case False
    from False assms a1 a2 w have "f_bay f' = f_bay (put_pack unit pk' f2) \<and> k' = k1 \<and> (r = Moved \<longleftrightarrow> e = Inr ())"
      unfolding commit_record_def by (cases e) (auto simp del: upt_rec_numeral)
    with False w b length_ask_peek [OF a1] show ?thesis by (auto simp: put_pack_def simp del: upt_rec_numeral)
  qed
qed

lemma feeder_writeback_cases:
  assumes "feeder_writeback F slot f k = (r, f', k')"
  shows "r \<noteq> Moved \<and> k' = k \<and> f_bay f' = f_bay f \<or>
    (\<exists>pk words e pk'. slot < 24 \<and> 0 \<le> slot_lba f ! slot \<and> 0 \<le> slot_unit f ! slot \<and>
       bay_pack (f_bay f) (nat (slot_unit f ! slot)) = Some pk \<and> length words = 259 \<and>
       words \<noteq> map (feeder_poison (feeder_wb_addr (f_base f) slot)) [0..<259] \<and>
       pack_writeback pk (word_of_int (slot_lba f ! slot)) words k = (e, pk', k') \<and> (r = Moved \<longleftrightarrow> e = Inr ()) \<and>
       f_bay f' = set_drive (f_bay f) (nat (slot_unit f ! slot))
         ((b_d (f_bay f) ! nat (slot_unit f ! slot))\<lparr>d_pack := pk'\<rparr>))"
proof (cases "24 \<le> slot \<or> slot_lba f ! slot < 0 \<or> slot_unit f ! slot < 0 \<or>
    bay_pack (f_bay f) (nat (slot_unit f ! slot)) = None")
  case True
  with assms show ?thesis by (auto simp: feeder_writeback_def Let_def split: if_splits option.splits)
next
  case False
  then obtain pk where pk: "bay_pack (f_bay f) (nat (slot_unit f ! slot)) = Some pk" by auto
  let ?addr = "feeder_wb_addr (f_base f) slot" and ?unit = "nat (slot_unit f ! slot)"
  let ?lba = "word_of_int (slot_lba f ! slot)"
  let ?f = "tell (poke_words F (word_at f ?addr) (poison_words ?addr)) f"
  obtain rr st f1 where rq: "request (ps_writeback F ?addr slot) ?f = (rr, st, f1)"
    by (cases "request (ps_writeback F ?addr slot) ?f")
  have b: "f_bay f1 = f_bay f" using request_same [OF rq] by (simp add: same_table_def)
  show ?thesis
  proof (cases rr)
    case PS_OK
    with assms False pk rq have "commit_record F slot ?unit pk ?lba ?addr (word_at f ?addr) f1 k = (r, f', k')"
      by (simp add: feeder_writeback_def Let_def)
    from commit_record_cases [OF this] False pk b show ?thesis by (auto simp del: upt_rec_numeral)
  qed (use assms False pk rq b in \<open>auto simp: feeder_writeback_def Let_def\<close>)
qed

section \<open>A pack that must not be written\<close>

lemma sys_close_inodes [simp]: "k_inodes (sys_close fd k) = k_inodes k"
  by (simp add: sys_close_def)

lemma bay_close_inodes: "bay_close b u k = (b', k') \<Longrightarrow> k_inodes k' = k_inodes k"
  by (auto simp: bay_close_def pack_close_def Let_def split: prod.splits if_splits)

lemma pack_alive_dead:
  assumes "pack_alive pk k = (alive, k')"
    and "\<And>i w n. fd_inode k (p_fd pk) = Some (i, w) \<Longrightarrow> k_inodes k i = Some n \<Longrightarrow> i_nlink n = 0"
  shows "\<not> alive" and "k_inodes k' = k_inodes k"
proof -
  obtain oc k1 where n: "next_outcome k = (oc, k1)" by (cases "next_outcome k")
  have same: "k_inodes k1 = k_inodes k" "fd_inode k1 fd = fd_inode k fd" for fd
    using next_outcome_same [OF n] same_files_fd_inode [OF next_outcome_same [OF n]]
    by (auto simp: same_files_def)
  show "\<not> alive" "k_inodes k' = k_inodes k"
    using assms n same
    by (auto simp: pack_alive_def sys_fstat_def stat_of_def split: if_splits outcome.splits option.splits)
qed

end
