(* ===== verification/Pack_Fabric.thy ===== *)
theory Pack_Fabric
  imports Pack_Feeder_Props
begin

text \<open>
  The interface between the feeder and the fabric behind the register face, as a locale: what
  the program relies on of the shared memory and of a move that is done.  Its lemmas follow a
  block from the pack into a slot and from a slot onto the pack.
\<close>

unbundle bit_operations_syntax

lemma drop_stale_ps: "f_ps (drop_stale slot l u f) = f_ps f"
proof -
  have "f_ps (fold (\<lambda>s f. if s \<noteq> slot \<and> slot_lba f ! s = l \<and> slot_unit f ! s = u then forget_slot s f else f) ss f) = f_ps f" for ss
    by (induction ss arbitrary: f) auto
  then show ?thesis by (simp add: drop_stale_def)
qed

lemma pack_record_length: "pack_record p lba k = (Inr ws, k') \<Longrightarrow> length ws = PACK_RECORD_WORDS"
  by (auto simp: pack_record_def Let_def split: if_splits prod.splits sum.splits)

section \<open>What the feeder relies on\<close>

text \<open>
  The fabric's part of the contract: the shared memory is memory, a fetch that is done has put
  the record there into the slot, and a write-back that is done has put the slot there and
  left the pad alone.
\<close>

locale fabric =
  fixes F :: "'h face" and phys :: u32 and ddr :: "'h \<Rightarrow> nat \<Rightarrow> u32"
    and store :: "'h \<Rightarrow> nat \<Rightarrow> u32 list" and steady :: "'h \<Rightarrow> bool"
  assumes peek: "fc_peek F h i = (ddr h i, h)"
    and poke_ddr: "ddr (fc_poke F h i w) = (ddr h)(i := w)"
    and poke_store: "store (fc_poke F h i w) = store h"
    and poke_steady: "steady h \<Longrightarrow> steady (fc_poke F h i w)"
    and fetched: "steady (ps_ctx ps) \<Longrightarrow> s < PS_SLOTS \<Longrightarrow> ps_fetch F addr tag s ps = (PS_OK, st, ps') \<Longrightarrow>
      store (ps_ctx ps') s = map (\<lambda>i. ddr (ps_ctx ps) (unat (addr - phys) div 4 + i)) [0..<PACK_RECORD_WORDS]"
    and written: "steady (ps_ctx ps) \<Longrightarrow> s < PS_SLOTS \<Longrightarrow> ps_writeback F addr s ps = (PS_OK, st, ps') \<Longrightarrow>
      ddr (ps_ctx ps') (unat (addr - phys) div 4 + i) =
        (if i < PACK_RECORD_WORDS then store (ps_ctx ps) s ! i else ddr (ps_ctx ps) (unat (addr - phys) div 4 + i))"
begin

lemma peek_words_eq: "peek_words F i n ps = (map (\<lambda>j. ddr (ps_ctx ps) (i + j)) [0..<n], ps)"
proof (induction n arbitrary: i)
  case (Suc n)
  have "[0..<Suc n] = 0 # map Suc [0..<n]" by (metis map_Suc_upt upt_conv_Cons zero_less_Suc)
  then show ?case using Suc by (simp add: peek comp_def del: upt_Suc)
qed simp

lemma poke_words_ctx:
  "store (ps_ctx (poke_words F i ws ps)) = store (ps_ctx ps)"
  "steady (ps_ctx ps) \<Longrightarrow> steady (ps_ctx (poke_words F i ws ps))"
  "ddr (ps_ctx (poke_words F i ws ps)) j =
     (if i \<le> j \<and> j < i + length ws then ws ! (j - i) else ddr (ps_ctx ps) j)"
  by (induction ws arbitrary: i ps) (auto simp: poke_store poke_steady poke_ddr nth_Cons' Suc_diff_Suc)

text \<open>A block served is in its slot.\<close>

lemma serve_stores:
  assumes "serve_record F unit pk lba tag slot f k = (Moved, f', k')" and "f_mem_phys f = phys"
    and "steady (ps_ctx (f_ps f))" and "slot < PS_SLOTS"
  shows "pack_record pk lba k = (Inr (store (ps_ctx (f_ps f')) slot), k')"
proof -
  let ?addr = "feeder_fetch_addr (f_base f) slot"
  obtain words where w: "pack_record pk lba k = (Inr words, k')"
    using assms(1) by (auto simp: serve_record_def Let_def split: prod.splits sum.splits ps_result.splits)
  let ?f = "tell (poke_words F (word_at f ?addr) words) f"
  obtain st f1 where rq: "request (ps_fetch F ?addr tag slot) ?f = (PS_OK, st, f1)"
    and f': "f_ps f' = f_ps f1"
    using assms(1) w by (auto simp: serve_record_def drop_stale_ps Let_def split: prod.splits ps_result.splits)
  have ps: "ps_fetch F ?addr tag slot (f_ps ?f) = (PS_OK, st, f_ps f1)"
    using rq by (auto simp: request_def split: prod.splits)
  have len: "length words = PACK_RECORD_WORDS" using pack_record_length [OF w] .
  have st: "steady (ps_ctx (f_ps ?f))" using assms(3) by (simp add: tell_def poke_words_ctx)
  show ?thesis
    using w f' fetched [OF st assms(4) ps] len
    by (simp add: tell_def poke_words_ctx word_at_def assms(2) list_eq_iff_nth_eq)
qed

text \<open>A write-back that is done has put the slot on the pack.\<close>

lemma commit_stores:
  assumes "commit_record F slot unit pk lba addr i f k = (Moved, f', k')"
    and "\<forall>j < PACK_RECORD_WORDS. ddr (ps_ctx (f_ps f)) (i + j) = ws ! j" and "length ws = PACK_RECORD_WORDS"
  shows "\<exists>pk'. pack_writeback pk lba ws k = (Inr (), pk', k') \<and>
    f_bay f' = set_drive (f_bay f) unit ((b_d (f_bay f) ! unit)\<lparr>d_pack := pk'\<rparr>)"
proof -
  have ws: "map (\<lambda>j. ddr (ps_ctx (f_ps f)) (i + j)) [0..<PACK_RECORD_WORDS] = ws"
    using assms(2,3) by (simp add: list_eq_iff_nth_eq)
  have a: "ask (peek_words F i PACK_RECORD_WORDS) f = (ws, f)" "ask (peek_words F j n) f = (fst (peek_words F j n (f_ps f)), f)" for j n
    using ws by (simp_all add: ask_def peek_words_eq)
  show ?thesis
    using assms(1) a unfolding commit_record_def
    by (auto simp: put_pack_def simp del: upt_rec_numeral split: if_splits prod.splits sum.splits)
qed

lemma writeback_stores:
  assumes "feeder_writeback F slot f k = (Moved, f', k')" and "f_mem_phys f = phys"
    and "steady (ps_ctx (f_ps f))" and "length (store (ps_ctx (f_ps f)) slot) = PACK_RECORD_WORDS"
  shows "\<exists>pk pk'. bay_pack (f_bay f) (nat (slot_unit f ! slot)) = Some pk \<and>
    pack_writeback pk (word_of_int (slot_lba f ! slot)) (store (ps_ctx (f_ps f)) slot) k = (Inr (), pk', k') \<and>
    f_bay f' = set_drive (f_bay f) (nat (slot_unit f ! slot))
      ((b_d (f_bay f) ! nat (slot_unit f ! slot))\<lparr>d_pack := pk'\<rparr>)"
proof -
  let ?addr = "feeder_wb_addr (f_base f) slot" and ?unit = "nat (slot_unit f ! slot)"
  let ?f = "tell (poke_words F (word_at f ?addr) (poison_words ?addr)) f"
  from assms(1) have c: "slot < PS_SLOTS" "\<not> slot_lba f ! slot < 0" "\<not> slot_unit f ! slot < 0"
    and pk: "bay_pack (f_bay f) ?unit \<noteq> None"
    by (auto simp: feeder_writeback_def Let_def split: if_splits option.splits)
  then obtain pk where pk: "bay_pack (f_bay f) ?unit = Some pk" by auto
  obtain st f1 where rq: "request (ps_writeback F ?addr slot) ?f = (PS_OK, st, f1)"
    and cr: "commit_record F slot ?unit pk (word_of_int (slot_lba f ! slot)) ?addr (word_at f ?addr) f1 k = (Moved, f', k')"
    using assms(1) c pk by (auto simp: feeder_writeback_def Let_def split: prod.splits ps_result.splits)
  have ps: "ps_writeback F ?addr slot (f_ps ?f) = (PS_OK, st, f_ps f1)"
    using rq by (auto simp: request_def split: prod.splits)
  have sy: "steady (ps_ctx (f_ps ?f))" using assms(3) by (simp add: tell_def poke_words_ctx)
  have "\<forall>j < PACK_RECORD_WORDS. ddr (ps_ctx (f_ps f1)) (word_at f ?addr + j) = store (ps_ctx (f_ps f)) slot ! j"
    using written [OF sy c(1) ps] by (simp add: word_at_def assms(2) tell_def poke_words_ctx(1))
  from commit_stores [OF cr this assms(4)] pk request_same [OF rq] show ?thesis
    by (auto simp: same_table_def)
qed

text \<open>So the pack shows, at the block the slot claims, the words the slot holds.\<close>

lemma writeback_shows:
  assumes "feeder_writeback F slot f k = (Moved, f', k')" and "f_mem_phys f = phys"
    and "steady (ps_ctx (f_ps f))" and "length (store (ps_ctx (f_ps f)) slot) = PACK_RECORD_WORDS"
    and "bay_pack (f_bay f) (nat (slot_unit f ! slot)) = Some pk" and "cadr_pack_inv (pk, k)"
    and "feeder_inv f"
  shows "\<exists>pk'. bay_pack (f_bay f') (nat (slot_unit f ! slot)) = Some pk' \<and> cadr_pack_inv (pk', k') \<and>
    pack_rd (pk', k') (word_of_int (slot_lba f ! slot)) = Some (store (ps_ctx (f_ps f)) slot) \<and>
    (\<forall>m. m \<noteq> word_of_int (slot_lba f ! slot) \<longrightarrow> pack_rd (pk', k') m = pack_rd (pk, k) m)"
proof -
  let ?unit = "nat (slot_unit f ! slot)" and ?lba = "word_of_int (slot_lba f ! slot) :: u32"
  from writeback_stores [OF assms(1-4)] assms(5) obtain pk' where
    w: "pack_writeback pk ?lba (store (ps_ctx (f_ps f)) slot) k = (Inr (), pk', k')"
    and b: "f_bay f' = set_drive (f_bay f) ?unit ((b_d (f_bay f) ! ?unit)\<lparr>d_pack := pk'\<rparr>)" by auto
  have u: "?unit < BAY_UNITS" "d_present (b_d (f_bay f) ! ?unit)"
    using assms(5) by (auto simp: bay_pack_def split: if_splits)
  have "length (b_d (f_bay f)) = BAY_UNITS" using assms(7) by (simp add: table_ok_def bay_sane_def)
  then have "bay_pack (f_bay f') ?unit = Some pk'" using u by (simp add: b bay_pack_set)
  moreover have "pack_wr (pk, k) ?lba (store (ps_ctx (f_ps f)) slot) = Some (pk', k')" using w by (simp add: pack_wr_def)
  ultimately show ?thesis
    using cadr_pack.wr_inv [OF assms(6)] cadr_pack.wr_same [OF assms(6)] cadr_pack.wr_other [OF assms(6)] assms(4)
    by blast
qed

end

end
