(* ===== verification/Fake_Face.thy ===== *)
theory Fake_Face
  imports Pack_Fabric
begin

text \<open>
  The register face as \<^verbatim>\<open>feeder_test.c\<close> models it after the RTL: the registers, the block store
  with its tags, DIRTY and REF, the four reasons a move is refused, and the moves themselves
  between the store and the shared memory.  The test's own bookkeeping, its checks and its
  scripted controller are left out; the walk stands still while the program makes a move.
\<close>

unbundle bit_operations_syntax

section \<open>The face\<close>

record fake =
  fk_addr :: u32
  fk_tag_reg :: u32
  fk_slot_reg :: u32
  fk_drive :: u32
  fk_store :: "nat \<Rightarrow> u32 list"
  fk_tag :: "nat \<Rightarrow> u32"
  fk_valid :: "nat \<Rightarrow> bool"
  fk_dirty :: u32
  fk_ref :: u32
  fk_irq :: u32
  fk_irqen :: u32
  fk_req_valid :: bool
  fk_req_tag :: u32
  fk_ch_active :: bool
  fk_waiting :: bool
  fk_ch_slot :: u32
  fk_miss :: bool
  fk_ddr :: "nat \<Rightarrow> u32"
  fk_ddr_phys :: u32
  fk_ddr_bytes :: u32
  fk_busy_left :: nat
  fk_busy_polls :: nat
  fk_done :: bool
  fk_error :: bool
  fk_refused :: bool
  fk_drop_next_write :: bool

definition fake_in_ddr :: "fake \<Rightarrow> u32 \<Rightarrow> u32 \<Rightarrow> bool" where
  "fake_in_ddr k addr bytes \<longleftrightarrow>
     fk_ddr_phys k \<le> addr \<and> addr - fk_ddr_phys k + bytes \<le> fk_ddr_bytes k"

definition fake_status :: "fake \<Rightarrow> u32" where
  "fake_status k =
     (let busy = 0 < fk_busy_left k
      in (if fk_waiting k then 64 else 0) OR (if fk_miss k then 32 else 0) OR
         (if fk_ch_active k then PS_ST_CH_ACTIVE else 0) OR (if fk_refused k then PS_ST_REFUSED else 0) OR
         (if fk_error k then PS_ST_ERROR else 0) OR (if fk_done k \<and> \<not> busy then PS_ST_DONE else 0) OR
         (if busy then PS_ST_BUSY else 0))"

definition fake_read :: "fake \<Rightarrow> ps_reg \<Rightarrow> u32 \<times> fake" where
  "fake_read k reg =
     (case reg of
        PS_ADDR \<Rightarrow> (fk_addr k, k) | PS_TAG \<Rightarrow> (fk_tag_reg k, k) | PS_SLOT \<Rightarrow> (fk_slot_reg k, k)
      | PS_DRIVE \<Rightarrow> (fk_drive k, k)
      | PS_CTL \<Rightarrow> (fake_status k, k\<lparr>fk_busy_left := fk_busy_left k - 1\<rparr>)
      | PS_REQ \<Rightarrow> ((if fk_req_valid k then PS_REQ_VALID else 0) OR fk_req_tag k, k)
      | PS_DIRTY \<Rightarrow> (fk_dirty k, k)
      | PS_IDENT \<Rightarrow> (PS_IDENT_WORD, k)
      | PS_REF \<Rightarrow> (fk_ref k, k)
      | PS_IRQ \<Rightarrow> (fk_irq k, k)
      | PS_IRQEN \<Rightarrow> (fk_irqen k, k))"

text \<open>The record at a shared address, and the slot written there.\<close>

definition fake_index :: "fake \<Rightarrow> u32 \<Rightarrow> nat" where
  "fake_index k addr = unat (addr - fk_ddr_phys k) div 4"

definition fake_take :: "nat \<Rightarrow> fake \<Rightarrow> fake" where
  "fake_take slot k = k\<lparr>fk_valid := (fk_valid k)(slot := False), fk_dirty := fk_dirty k AND NOT (push_bit slot 1)\<rparr>"

definition fake_fetch :: "nat \<Rightarrow> fake \<Rightarrow> fake" where
  "fake_fetch slot k =
     (let k = (fake_take slot k)\<lparr>fk_ref := fk_ref k AND NOT (push_bit slot 1)\<rparr>
      in if \<not> fake_in_ddr k (fk_addr k) (of_nat (PACK_RECORD_WORDS * 4)) then k\<lparr>fk_error := True\<rparr>
         else let k = k\<lparr>fk_store := (fk_store k)(slot :=
                          map (\<lambda>i. fk_ddr k (fake_index k (fk_addr k) + i)) [0..<PACK_RECORD_WORDS]),
                        fk_tag := (fk_tag k)(slot := fk_tag_reg k), fk_valid := (fk_valid k)(slot := True)\<rparr>
              in if fk_req_valid k \<and> fk_tag k slot = fk_req_tag k then k\<lparr>fk_req_valid := False\<rparr> else k)"

definition fake_put :: "nat \<Rightarrow> fake \<Rightarrow> fake" where
  "fake_put slot k =
     (let clean = (\<lambda>k. k\<lparr>fk_dirty := fk_dirty k AND NOT (push_bit slot 1)\<rparr>)
      in if \<not> fake_in_ddr k (fk_addr k) (of_nat (PACK_RECORD_WORDS * 4)) then clean (k\<lparr>fk_error := True\<rparr>)
         else if fk_drop_next_write k then clean (k\<lparr>fk_drop_next_write := False\<rparr>)
         else clean (k\<lparr>fk_ddr := (\<lambda>j. if fake_index k (fk_addr k) \<le> j \<and> j < fake_index k (fk_addr k) + PACK_RECORD_WORDS
                then fk_store k slot ! (j - fake_index k (fk_addr k)) else fk_ddr k j)\<rparr>))"

text \<open>A beat on CTL: a denial beside the move bits, then the move or its refusal.\<close>

definition fake_ctl :: "u32 \<Rightarrow> fake \<Rightarrow> fake" where
  "fake_ctl v k0 =
     (let k = (if v AND PS_CTL_DENY \<noteq> 0 \<and> fk_req_valid k0
               then k0\<lparr>fk_req_valid := False, fk_miss := True\<rparr> else k0);
          go = v AND 7
      in if go = 0 then k
         else let one = (go = 1 \<or> go = 2 \<or> go = 4);
                  slot = fk_slot_reg k;
                  bad_align = (fk_addr k AND 0x7F \<noteq> 0 \<and> go \<noteq> PS_CTL_TAKE);
                  bad_slot = (of_nat PS_SLOTS \<le> slot);
                  busy = (0 < fk_busy_left k);
                  bad_ch = (fk_ch_active k \<and> \<not> fk_waiting k \<and> slot = fk_ch_slot k);
                  k = k\<lparr>fk_refused := (\<not> one \<or> bad_align \<or> bad_slot \<or> busy \<or> bad_ch)\<rparr>
              in if fk_refused k then k
                 else let k = k\<lparr>fk_done := False, fk_error := False, fk_busy_left := fk_busy_polls k\<rparr>;
                          k = (if go = PS_CTL_TAKE then fake_take (unat slot) k
                               else if go = PS_CTL_FETCH then fake_fetch (unat slot) k
                               else fake_put (unat slot) k)
                      in k\<lparr>fk_done := True\<rparr>)"

definition fake_write :: "fake \<Rightarrow> ps_reg \<Rightarrow> u32 \<Rightarrow> fake" where
  "fake_write k reg v =
     (case reg of
        PS_ADDR \<Rightarrow> k\<lparr>fk_addr := v\<rparr>
      | PS_TAG \<Rightarrow> k\<lparr>fk_tag_reg := v AND PS_TAG_MASK\<rparr>
      | PS_SLOT \<Rightarrow> k\<lparr>fk_slot_reg := v AND 0x1F\<rparr>
      | PS_DRIVE \<Rightarrow> k\<lparr>fk_drive := v AND 0x1FFFF\<rparr>
      | PS_REF \<Rightarrow> k\<lparr>fk_ref := fk_ref k AND NOT (v AND 0xFFFFFF)\<rparr>
      | PS_IRQ \<Rightarrow> k\<lparr>fk_irq := fk_irq k AND NOT (v AND 7)\<rparr>
      | PS_IRQEN \<Rightarrow> k\<lparr>fk_irqen := v AND 7\<rparr>
      | PS_CTL \<Rightarrow> fake_ctl v k
      | _ \<Rightarrow> k)"

definition fake_pause :: "fake \<Rightarrow> fake" where
  "fake_pause k = k"

definition fake_face :: "fake face" where
  "fake_face = \<lparr>fc_read = fake_read, fc_write = fake_write, fc_pause = fake_pause,
     fc_peek = (\<lambda>k i. (fk_ddr k i, k)), fc_poke = (\<lambda>k i w. k\<lparr>fk_ddr := (fk_ddr k)(i := w)\<rparr>)\<rparr>"


section \<open>The modelled face keeps the contract\<close>

lemma fake_status_bits:
  "fake_status k AND PS_ST_REFUSED = 0 \<longleftrightarrow> \<not> fk_refused k"
  "fake_status k AND PS_ST_ERROR = 0 \<longleftrightarrow> \<not> fk_error k"
proof -
  have b: "x AND 8 = 0 \<longleftrightarrow> \<not> bit x 3" "x AND 4 = 0 \<longleftrightarrow> \<not> bit x 2" for x :: u32
    using and_exp_eq_0_iff_not_bit [of x 3] and_exp_eq_0_iff_not_bit [of x 2] by simp_all
  show "fake_status k AND PS_ST_REFUSED = 0 \<longleftrightarrow> \<not> fk_refused k"
    unfolding b by (simp add: fake_status_def Let_def bit_or_iff)
  show "fake_status k AND PS_ST_ERROR = 0 \<longleftrightarrow> \<not> fk_error k"
    unfolding b by (simp add: fake_status_def Let_def bit_or_iff)
qed

lemma fake_poll:
  "ps_poll fake_face n st ps = (stuck, st', ps') \<Longrightarrow>
     \<exists>b. ps_ctx ps' = (ps_ctx ps)\<lparr>fk_busy_left := b\<rparr> \<and> (st' = st \<or> (\<exists>b. st' = fake_status ((ps_ctx ps)\<lparr>fk_busy_left := b\<rparr>)))"
proof (induction n arbitrary: st ps)
  case 0
  then show ?case by (auto simp: split: if_splits intro: exI [of _ "fk_busy_left (ps_ctx ps)"])
next
  case (Suc n)
  show ?case
  proof (cases "st AND PS_ST_BUSY = 0")
    case True
    with Suc.prems show ?thesis by (auto intro: exI [of _ "fk_busy_left (ps_ctx ps)"])
  next
    case False
    let ?c = "ps_ctx ps"
    let ?ps = "ps\<lparr>ps_polls := ps_polls ps + 1, ps_ctx := ?c\<lparr>fk_busy_left := fk_busy_left ?c - 1\<rparr>\<rparr>"
    have "ps_poll fake_face n (fake_status ?c) ?ps = (stuck, st', ps')"
      using Suc.prems False by (simp add: Let_def ps_read_def ps_pause_def fake_face_def fake_read_def fake_pause_def)
    from Suc.IH [OF this] obtain b where b: "ps_ctx ps' = ?c\<lparr>fk_busy_left := b\<rparr>"
      and st: "st' = fake_status ?c \<or> (\<exists>b. st' = fake_status (?c\<lparr>fk_busy_left := b\<rparr>))" by auto
    have "?c = ?c\<lparr>fk_busy_left := fk_busy_left ?c\<rparr>" by simp
    with b st show ?thesis by metis
  qed
qed

text \<open>A move that is done: accepted, without error, and nothing after the beat but the busy count.\<close>

lemma fake_request:
  assumes "ps_request fake_face ctl addr tag s ps = (PS_OK, st, ps')"
  defines "k \<equiv> fake_ctl ctl ((ps_ctx ps)\<lparr>fk_addr := addr, fk_tag_reg := tag AND PS_TAG_MASK, fk_slot_reg := of_nat s AND 0x1F\<rparr>)"
  shows "\<exists>b. ps_ctx ps' = k\<lparr>fk_busy_left := b\<rparr>" and "\<not> fk_refused k" and "\<not> fk_error k"
proof -
  let ?ps = "ps\<lparr>ps_ctx := k\<lparr>fk_busy_left := fk_busy_left k - 1\<rparr>\<rparr>"
  from assms(1) have ref: "fake_status k AND PS_ST_REFUSED = 0"
    by (auto simp: ps_request_def ps_write_def ps_read_def fake_face_def fake_write_def fake_read_def Let_def k_def
        split: if_splits option.splits)
  obtain stuck st1 ps1 where p: "ps_poll fake_face (poll_cap ps) (fake_status k) ?ps = (stuck, st1, ps1)"
    by (cases "ps_poll fake_face (poll_cap ps) (fake_status k) ?ps")
  have e: "\<not> stuck" "st1 AND PS_ST_ERROR = 0" "ps_ctx ps' = ps_ctx ps1"
    using assms(1) ref p
    by (auto simp: ps_request_def ps_write_def ps_read_def fake_face_def fake_write_def fake_read_def Let_def k_def
        split: if_splits)
  from fake_poll [OF p] obtain b where b: "ps_ctx ps1 = k\<lparr>fk_busy_left := b\<rparr>"
    and st: "st1 = fake_status k \<or> (\<exists>b. st1 = fake_status (k\<lparr>fk_busy_left := b\<rparr>))" by auto
  show "\<exists>b. ps_ctx ps' = k\<lparr>fk_busy_left := b\<rparr>" using b e(3) by auto
  show "\<not> fk_refused k" using ref by (simp add: fake_status_bits)
  show "\<not> fk_error k" using e(2) st by (auto simp: fake_status_bits)
qed

definition fake_steady :: "u32 \<Rightarrow> fake \<Rightarrow> bool" where
  "fake_steady phys k \<longleftrightarrow> \<not> fk_drop_next_write k \<and> fk_ddr_phys k = phys"

lemma slot_reg: "s < PS_SLOTS \<Longrightarrow> unat (of_nat s AND 0x1F :: u32) = s"
proof -
  assume "s < PS_SLOTS"
  then have "unat (of_nat s :: u32) = s" by (simp add: unat_of_nat)
  moreover from this \<open>s < PS_SLOTS\<close> have "(of_nat s :: u32) AND mask 5 = of_nat s" by (intro small_and_mask) simp
  ultimately show ?thesis by (simp add: mask_eq_exp_minus_1)
qed

interpretation fakes: fabric fake_face phys fk_ddr fk_store "fake_steady phys" for phys
proof
  fix h :: fake and i w
  show "fc_peek fake_face h i = (fk_ddr h i, h)"
    and "fk_ddr (fc_poke fake_face h i w) = (fk_ddr h)(i := w)"
    and "fk_store (fc_poke fake_face h i w) = fk_store h"
    by (simp_all add: fake_face_def)
  show "fake_steady phys h \<Longrightarrow> fake_steady phys (fc_poke fake_face h i w)"
    by (simp add: fake_face_def fake_steady_def)
next
  fix ps :: "fake pack_side" and s addr tag st ps'
  assume sy: "fake_steady phys (ps_ctx ps)" and s: "s < PS_SLOTS"
    and r: "ps_fetch fake_face addr tag s ps = (PS_OK, st, ps')"
  note q = fake_request [OF r [unfolded ps_fetch_def]]
  from q sy show "fk_store (ps_ctx ps') s =
      map (\<lambda>i. fk_ddr (ps_ctx ps) (unat (addr - phys) div 4 + i)) [0..<PACK_RECORD_WORDS]"
    using slot_reg [OF s]
    by (auto simp: fake_ctl_def fake_fetch_def fake_take_def fake_index_def fake_steady_def Let_def
        simp del: upt_rec_numeral split: if_splits)
next
  fix ps :: "fake pack_side" and s addr st ps' i
  assume sy: "fake_steady phys (ps_ctx ps)" and s: "s < PS_SLOTS"
    and r: "ps_writeback fake_face addr s ps = (PS_OK, st, ps')"
  note q = fake_request [OF r [unfolded ps_writeback_def]]
  from q sy show "fk_ddr (ps_ctx ps') (unat (addr - phys) div 4 + i) =
        (if i < PACK_RECORD_WORDS then fk_store (ps_ctx ps) s ! i else fk_ddr (ps_ctx ps) (unat (addr - phys) div 4 + i))"
    using slot_reg [OF s]
    by (auto simp: fake_ctl_def fake_put_def fake_index_def fake_steady_def Let_def split: if_splits)
qed

end
