(* ===== verification/Fake_Writeback.thy ===== *)
theory Fake_Writeback
  imports Fake_Face
begin

text \<open>
  A write-back on the modelled face, all the way: that an idle face carries it out within the
  poll cap, that the feeder then commits it, and a bay with one drive and one written slot on
  which the feeder's properties are applied.
\<close>

unbundle bit_operations_syntax

section \<open>A move is done within the cap\<close>

lemma fake_status_done:
  "fake_status k AND PS_ST_BUSY = 0 \<longleftrightarrow> fk_busy_left k = 0"
  "fake_status k AND PS_ST_DONE = 0 \<longleftrightarrow> \<not> (fk_done k \<and> fk_busy_left k = 0)"
proof -
  have b: "x AND 1 = 0 \<longleftrightarrow> \<not> bit x 0" "x AND 2 = 0 \<longleftrightarrow> \<not> bit x 1" for x :: u32
    using and_exp_eq_0_iff_not_bit [of x 0] and_exp_eq_0_iff_not_bit [of x 1] by simp_all
  show "fake_status k AND PS_ST_BUSY = 0 \<longleftrightarrow> fk_busy_left k = 0"
    unfolding b by (simp add: fake_status_def Let_def bit_or_iff)
  show "fake_status k AND PS_ST_DONE = 0 \<longleftrightarrow> \<not> (fk_done k \<and> fk_busy_left k = 0)"
    unfolding b by (simp add: fake_status_def Let_def bit_or_iff)
qed

lemma fake_poll_ends:
  "fk_busy_left c \<le> n \<Longrightarrow> ps_ctx ps = c\<lparr>fk_busy_left := fk_busy_left c - 1\<rparr> \<Longrightarrow>
     \<exists>ps'. ps_poll fake_face n (fake_status c) ps = (False, fake_status (c\<lparr>fk_busy_left := 0\<rparr>), ps')"
proof (induction n arbitrary: c ps)
  case 0
  then have "fake_status (c\<lparr>fk_busy_left := 0\<rparr>) = fake_status c" by (simp add: fake_status_def)
  with 0 show ?case by (simp add: fake_status_done)
next
  case (Suc n)
  show ?case
  proof (cases "fk_busy_left c = 0")
    case True
    then have "fake_status (c\<lparr>fk_busy_left := 0\<rparr>) = fake_status c" by (simp add: fake_status_def)
    with True show ?thesis by (simp add: fake_status_done)
  next
    case False
    let ?c = "c\<lparr>fk_busy_left := fk_busy_left c - 1\<rparr>"
    let ?ps = "ps\<lparr>ps_polls := ps_polls ps + 1, ps_ctx := ?c\<lparr>fk_busy_left := fk_busy_left ?c - 1\<rparr>\<rparr>"
    have "\<exists>ps'. ps_poll fake_face n (fake_status ?c) ?ps = (False, fake_status (?c\<lparr>fk_busy_left := 0\<rparr>), ps')"
      using Suc.prems(1) by (intro Suc.IH) auto
    with False Suc.prems(2) show ?thesis
      by (simp add: fake_status_done Let_def ps_read_def ps_pause_def fake_face_def fake_read_def fake_pause_def)
  qed
qed

text \<open>A move the face accepts and carries out is done within the cap.\<close>

lemma fake_request_ok:
  assumes "\<not> fk_refused k" and "\<not> fk_error k" and "fk_done k" and "fk_busy_left k \<le> poll_cap ps"
    and "k = fake_ctl ctl ((ps_ctx ps)\<lparr>fk_addr := addr, fk_tag_reg := tag AND PS_TAG_MASK, fk_slot_reg := of_nat s AND 0x1F\<rparr>)"
  shows "\<exists>st ps'. ps_request fake_face ctl addr tag s ps = (PS_OK, st, ps')"
proof -
  let ?ps = "ps\<lparr>ps_ctx := k\<lparr>fk_busy_left := fk_busy_left k - 1\<rparr>\<rparr>"
  obtain ps1 where p: "ps_poll fake_face (poll_cap ps) (fake_status k) ?ps = (False, fake_status (k\<lparr>fk_busy_left := 0\<rparr>), ps1)"
    using fake_poll_ends [of k "poll_cap ps" ?ps] assms(4) by auto
  have st: "fake_status (k\<lparr>fk_busy_left := 0\<rparr>) AND PS_ST_DONE \<noteq> 0" "fake_status (k\<lparr>fk_busy_left := 0\<rparr>) AND PS_ST_ERROR = 0"
    "fake_status k AND PS_ST_REFUSED = 0"
    using assms(1-3) by (simp_all add: fake_status_done fake_status_bits)
  show ?thesis
    using p st
    by (simp add: ps_request_def ps_write_def ps_read_def fake_face_def fake_write_def fake_read_def Let_def
        flip: assms(5))
qed

text \<open>The face ready for a write-back of a slot: idle, the walk elsewhere, the address in its memory.\<close>

definition fake_ready :: "nat \<Rightarrow> u32 \<Rightarrow> fake pack_side \<Rightarrow> bool" where
  "fake_ready slot addr ps \<longleftrightarrow>
     (let k = ps_ctx ps
      in fk_busy_left k = 0 \<and> fk_busy_polls k \<le> poll_cap ps \<and>
         \<not> (fk_ch_active k \<and> \<not> fk_waiting k \<and> fk_ch_slot k = of_nat slot) \<and>
         addr AND 0x7F = 0 \<and> fake_in_ddr k addr (of_nat (PACK_RECORD_WORDS * 4)))"

lemma slot_word: "s < PS_SLOTS \<Longrightarrow> (of_nat s AND 0x1F :: u32) = of_nat s"
proof -
  assume "s < PS_SLOTS"
  then have "(of_nat s :: u32) AND mask 5 = of_nat s" by (intro small_and_mask) (simp add: unat_of_nat)
  then show ?thesis by (simp add: mask_eq_exp_minus_1)
qed

lemma fake_writeback_ok:
  assumes "fake_ready slot addr ps" and "slot < PS_SLOTS"
  shows "\<exists>st ps'. ps_writeback fake_face addr slot ps = (PS_OK, st, ps')"
proof -
  have s: "(of_nat slot AND 0x1F :: u32) = of_nat slot" "\<not> (24 \<le> (of_nat slot :: u32))"
    using slot_word [OF assms(2)] assms(2) by (auto simp: word_le_nat_alt unat_of_nat)
  show ?thesis
    unfolding ps_writeback_def
    by (rule fake_request_ok [OF _ _ _ _ refl])
      (use assms s in \<open>auto simp: fake_ready_def fake_ctl_def fake_put_def fake_in_ddr_def Let_def\<close>)
qed


lemma fake_ready_poke: "fake_ready slot addr (poke_words fake_face i ws ps) \<longleftrightarrow> fake_ready slot addr ps"
  by (induction ws arbitrary: i ps) (auto simp: fake_ready_def fake_face_def fake_in_ddr_def Let_def)

lemma length_poison_words [simp]: "length (poison_words addr) = 260"
  by (simp add: poison_words_def)

lemma poison_words_last: "poison_words addr ! 259 = feeder_poison addr 259"
  by (simp add: poison_words_def del: upt_Suc upt_rec_numeral)

lemma fake_feeder_writeback:
  assumes "slot < PS_SLOTS" and "0 \<le> slot_lba f ! slot" and "0 \<le> slot_unit f ! slot"
    and pk: "bay_pack (f_bay f) (nat (slot_unit f ! slot)) = Some pk"
    and sy: "fake_steady (f_mem_phys f) (ps_ctx (f_ps f))"
    and rdy: "fake_ready slot (feeder_wb_addr (f_base f) slot) (f_ps f)"
    and len: "length (fk_store (ps_ctx (f_ps f)) slot) = PACK_RECORD_WORDS"
    and ne: "fk_store (ps_ctx (f_ps f)) slot \<noteq> map (feeder_poison (feeder_wb_addr (f_base f) slot)) [0..<PACK_RECORD_WORDS]"
    and w: "pack_writeback pk (word_of_int (slot_lba f ! slot)) (fk_store (ps_ctx (f_ps f)) slot) k = (Inr (), pk', k')"
  shows "\<exists>f'. feeder_writeback fake_face slot f k = (Moved, f', k')"
proof -
  let ?addr = "feeder_wb_addr (f_base f) slot" and ?unit = "nat (slot_unit f ! slot)"
  let ?lba = "word_of_int (slot_lba f ! slot) :: u32" and ?ws = "fk_store (ps_ctx (f_ps f)) slot"
  let ?i = "word_at f ?addr"
  let ?ps = "poke_words fake_face ?i (poison_words ?addr) (f_ps f)"
  obtain st ps' where r: "ps_writeback fake_face ?addr slot ?ps = (PS_OK, st, ps')"
    using fake_writeback_ok [of slot ?addr ?ps] rdy assms(1) by (auto simp: fake_ready_poke)
  let ?f1 = "(tell (poke_words fake_face ?i (poison_words ?addr)) f)\<lparr>f_ps := ps'\<rparr>"
  have rq: "request (ps_writeback fake_face ?addr slot) (tell (poke_words fake_face ?i (poison_words ?addr)) f) = (PS_OK, st, ?f1)"
    using r by (simp add: request_def tell_def)
  have sy': "fake_steady (f_mem_phys f) (ps_ctx ?ps)" using sy by (rule fakes.poke_words_ctx(2))
  have ddr: "fk_ddr (ps_ctx ps') (?i + j) = (if j < PACK_RECORD_WORDS then ?ws ! j else fk_ddr (ps_ctx ?ps) (?i + j))" for j
    using fakes.written [OF sy' assms(1) r, of j] by (simp add: word_at_def fakes.poke_words_ctx(1))
  have words: "ask (peek_words fake_face ?i PACK_RECORD_WORDS) ?f1 = (?ws, ?f1)"
    using len by (simp add: ask_def fakes.peek_words_eq ddr list_eq_iff_nth_eq)
  have pad: "ask (peek_words fake_face (?i + PACK_RECORD_WORDS) 1) ?f1 = ([feeder_poison ?addr PACK_RECORD_WORDS], ?f1)"
    using ddr [of PACK_RECORD_WORDS] by (simp add: ask_def fakes.peek fakes.poke_words_ctx(3) poison_words_last)
  have "\<exists>f'. commit_record fake_face slot ?unit pk ?lba ?addr ?i ?f1 k = (Moved, f', k')"
    unfolding commit_record_def using words pad ne w by (simp del: upt_rec_numeral)
  then show ?thesis using assms(1-3) pk rq by (simp add: feeder_writeback_def Let_def)
qed

section \<open>A bay with one drive\<close>

definition t80_pack :: pack where
  "t80_pack = pack_zero\<lparr>p_writable := True, p_g := PACK_T80, p_blocks := 69275, p_size := 70937600\<rparr>"

definition one_bay :: bay where
  "one_bay = set_drive (bay_init ''b'') 0 \<lparr>d_pack = t80_pack, d_present = True, d_read_only = False\<rparr>"

definition one_fake :: fake where
  "one_fake =
     \<lparr>fk_addr = 0, fk_tag_reg = 0, fk_slot_reg = 0, fk_drive = 0, fk_store = (\<lambda>s. replicate 259 7),
      fk_tag = (\<lambda>s. 0), fk_valid = (\<lambda>s. True), fk_dirty = 1, fk_ref = 0, fk_irq = 0, fk_irqen = 0,
      fk_req_valid = False, fk_req_tag = 0, fk_ch_active = False, fk_waiting = False, fk_ch_slot = 0,
      fk_miss = False, fk_ddr = (\<lambda>i. 0), fk_ddr_phys = 0x1C100000, fk_ddr_bytes = 0x20000,
      fk_busy_left = 0, fk_busy_polls = 2, fk_done = False, fk_error = False, fk_refused = False,
      fk_drop_next_write = False\<rparr>"

text \<open>Slot 0 holds block 3 of unit 0, and the machine has written it.\<close>

definition one_feeder :: "fake feeder" where
  "one_feeder = (snd (feeder_init one_bay (ps_init one_fake) (SPARE_BASE Zynq) 0x1C100000 0x20000))
     \<lparr>slot_lba := (replicate 24 (-1))[0 := 3], slot_unit := (replicate 24 (-1))[0 := 0]\<rparr>"

definition one_kernel :: kernel where
  "one_kernel = one_file (replicate 70937600 0) []"

lemma one_feeder_fields [simp]:
  "slot_lba one_feeder ! 0 = 3" "slot_unit one_feeder ! 0 = 0" "f_bay one_feeder = one_bay"
  "f_ps one_feeder = ps_init one_fake" "f_base one_feeder = SPARE_BASE Zynq" "f_mem_phys one_feeder = 0x1C100000"
  by (simp_all add: one_feeder_def feeder_init_def)

lemma bay_pack_one [simp]: "bay_pack one_bay 0 = Some t80_pack"
  by (simp add: one_bay_def bay_pack_def set_drive_def bay_init_def)

lemma t80_pack_fields [simp]:
  "p_blocks t80_pack = 69275" "p_fd t80_pack = 0" "p_writable t80_pack" "\<not> p_quux t80_pack"
  by (simp_all add: t80_pack_def pack_zero_def)

lemma one_feeder_inv [simp]: "feeder_inv one_feeder"
proof -
  have len: "length (b_d (bay_init ''b'')) = 8" by (simp add: bay_init_def)
  have sane: "pack_sane t80_pack"
    by (simp add: pack_sane_def t80_pack_def pack_zero_def drive_type_def PACK_T80_def)
  have "bay_sane one_bay" unfolding one_bay_def
    using sane by (intro bay_sane_set) (auto simp: bay_sane_def bay_init_def drive_sane_def)
  moreover have "claim_ok one_bay 3 0" by (auto simp: claim_ok_def intro!: exI [of _ 0] exI [of _ t80_pack])
  ultimately show ?thesis
    by (auto simp: table_ok_def one_feeder_def feeder_init_def nth_list_update)
qed

lemma one_pack_inv [simp]: "cadr_pack_inv (t80_pack, one_kernel)"
  by (simp add: cadr_pack_inv_def cadr_pack_ok_def one_kernel_def t80_pack_def pack_zero_def)

lemma one_feeder_ready [simp]:
  "fake_steady 0x1C100000 one_fake" "fake_ready 0 (feeder_wb_addr (SPARE_BASE Zynq) 0) (ps_init one_fake)"
  by (simp_all add: fake_steady_def one_fake_def fake_ready_def ps_init_def fake_in_ddr_def feeder_wb_addr_def
      SPARE_BASE_def Let_def word_le_nat_alt)

lemma one_not_poison: "replicate 259 7 \<noteq> map (feeder_poison (feeder_wb_addr (SPARE_BASE Zynq) 0)) [0..<259]"
proof
  assume "replicate 259 7 = map (feeder_poison (feeder_wb_addr (SPARE_BASE Zynq) 0)) [0..<259]"
  then have "replicate 259 7 ! 0 = map (feeder_poison (feeder_wb_addr (SPARE_BASE Zynq) 0)) [0..<259] ! 0" by simp
  then have "7 = feeder_poison (feeder_wb_addr (SPARE_BASE Zynq) 0) 0" by (simp del: upt_rec_numeral)
  moreover have "7 \<noteq> feeder_poison (feeder_wb_addr (SPARE_BASE Zynq) 0) 0" by code_simp
  ultimately show False by contradiction
qed

lemma one_written:
  obtains pk' k' f' where "pack_writeback t80_pack 3 (replicate 259 7) one_kernel = (Inr (), pk', k')"
    and "feeder_writeback fake_face 0 one_feeder one_kernel = (Moved, f', k')"
proof -
  obtain pk' k' where w: "pack_writeback t80_pack 3 (replicate 259 7) one_kernel = (Inr (), pk', k')"
    using pack_writeback_quiet [of one_kernel t80_pack "replicate 70937600 0" 3 "replicate 259 7"]
    by (auto simp: one_kernel_def word_less_nat_alt)
  have store: "fk_store one_fake 0 = replicate 259 7" by (simp add: one_fake_def)
  have ctx: "ps_ctx (ps_init one_fake) = one_fake" by (simp add: ps_init_def)
  have "\<exists>f'. feeder_writeback fake_face 0 one_feeder one_kernel = (Moved, f', k')"
    using fake_feeder_writeback [of 0 one_feeder t80_pack one_kernel pk' k'] w one_not_poison
    by (simp add: store ctx del: upt_rec_numeral)
  with w that show thesis by blast
qed

end
