(* ===== verification/Run.thy ===== *)
theory Run
  imports Prelude
begin

text \<open>
  Runs of a program: the states reached from an initial one by the steps of the program and of
  what is around it, and the interface every invariant of such a run is an instance of.
\<close>

inductive reach :: "('s \<Rightarrow> bool) \<Rightarrow> ('s \<Rightarrow> 's \<Rightarrow> bool) \<Rightarrow> 's \<Rightarrow> bool" for init step where
  reach_init: "init s \<Longrightarrow> reach init step s"
| reach_step: "reach init step s \<Longrightarrow> step s s' \<Longrightarrow> reach init step s'"

locale kept =
  fixes init :: "'s \<Rightarrow> bool" and step :: "'s \<Rightarrow> 's \<Rightarrow> bool" and inv :: "'s \<Rightarrow> bool"
  assumes init_inv: "init s \<Longrightarrow> inv s"
    and step_inv: "step s s' \<Longrightarrow> inv s \<Longrightarrow> inv s'"
begin

lemma reach_inv: "reach init step s \<Longrightarrow> inv s"
  by (induction rule: reach.induct) (auto intro: init_inv step_inv)

end

text \<open>A run from fewer states.\<close>

lemma reach_from: "reach i1 st s \<Longrightarrow> (\<And>s. i1 s \<Longrightarrow> i2 s) \<Longrightarrow> reach i2 st s"
  by (induction rule: reach.induct) (auto intro: reach.intros)

text \<open>A number of steps in a row.\<close>

lemma reach_steps:
  "reach init step s \<Longrightarrow> (\<And>i. i < n \<Longrightarrow> step (t i) (t (Suc i))) \<Longrightarrow> t 0 = s \<Longrightarrow> reach init step (t n)"
  by (induction n) (auto intro: reach_step)

end
