(* ===== verification/Pack_Daemon.thy ===== *)
theory Pack_Daemon
  imports Fake_Writeback Run
begin

text \<open>
  \<^verbatim>\<open>cadr-disk-packs.c\<close>: the daemon around the feeder.  The start up to the first look at the
  bay, one pass of the loop with the bay's own clock, the stop, and the self-test; and the run
  of the daemon, its passes interleaved with whatever the machine does to the face and the
  rest of the system to the files.  The options, the mappings, the sleep between passes and
  the lines of the log are left out.
\<close>

unbundle bit_operations_syntax

section \<open>The daemon\<close>

record 'h packs =
  pd_feeder :: "'h feeder"
  pd_since_scan :: nat
  pd_scan_due :: bool

datatype packs_err = No_pack_side u32 | Not_covered | Start_failed "feeder_err option"

text \<open>What the log says of block 0 of the drives that are present costs a read of each.\<close>

definition read_labels :: "bay \<Rightarrow> kernel \<Rightarrow> kernel" where
  "read_labels bay k0 =
     fold (\<lambda>u k. case bay_pack bay u of None \<Rightarrow> k | Some pk \<Rightarrow> snd (pack_record pk 0 k)) [0..<BAY_UNITS] k0"

text \<open>The probe, the seam at rest, the bay, the feeder, and its start.\<close>

definition packs_start ::
    "'h face \<Rightarrow> board \<Rightarrow> string \<Rightarrow> bool \<Rightarrow> bool \<Rightarrow> 'h \<Rightarrow> kernel \<Rightarrow> (packs_err + 'h packs) \<times> kernel" where
  "packs_start F board packs_dir quux timed m k0 =
     (case ps_ident_ok F (ps_init m) of (good, ident, ps) \<Rightarrow>
        if \<not> good then (Inl (No_pack_side ident), k0)
        else let ps = ps_drive F 0 0 False 0 ps;
                 bay = (bay_init packs_dir)\<lparr>b_quux := quux\<rparr>;
                 (covers, f) = feeder_init bay ps (SPARE_BASE board) (SPARE_BASE board) FEEDER_MAP_BYTES
             in if \<not> covers then (Inl Not_covered, k0)
                else case feeder_start F timed (f\<lparr>f_linear := quux\<rparr>) k0 of
                       (Inl e, f, k) \<Rightarrow> (Inl (Start_failed e), k)
                     | (Inr _, f, k) \<Rightarrow>
                         (Inr \<lparr>pd_feeder = f, pd_since_scan = 0, pd_scan_due = False\<rparr>, read_labels (f_bay f) k))"

text \<open>The bay's clock in polls: the options give microseconds and milliseconds.\<close>

definition polls_per_scan :: "nat \<Rightarrow> nat \<Rightarrow> nat" where
  "polls_per_scan scan_ms poll_us =
     (let n = (if scan_ms \<noteq> 0 then scan_ms * 1000 div poll_us else 0)
      in if scan_ms \<noteq> 0 \<and> n = 0 then 1 else n)"

definition scan_clock :: "nat \<Rightarrow> 'h packs \<Rightarrow> 'h packs" where
  "scan_clock per d =
     (if per = 0 then d
      else let n = pd_since_scan d + 1
           in if per \<le> n then d\<lparr>pd_since_scan := 0, pd_scan_due := True\<rparr> else d\<lparr>pd_since_scan := n\<rparr>)"

definition packs_scan :: "'h face \<Rightarrow> 'h packs \<Rightarrow> kernel \<Rightarrow> 'h packs \<times> kernel" where
  "packs_scan F d k0 =
     (if \<not> pd_scan_due d then (d, k0)
      else case feeder_bay_scan F (pd_feeder d) k0 of
             (r, f, k) \<Rightarrow> (d\<lparr>pd_feeder := f, pd_scan_due := (r = Scan_walking)\<rparr>, k))"

definition packs_pass :: "'h face \<Rightarrow> nat \<Rightarrow> 'h packs \<Rightarrow> kernel \<Rightarrow> 'h packs \<times> kernel" where
  "packs_pass F per d k0 =
     (case feeder_poll F (pd_feeder d) k0 of
        (r, f, k) \<Rightarrow> packs_scan F (scan_clock per (d\<lparr>pd_feeder := f\<rparr>)) k)"

definition close_units :: "nat list \<Rightarrow> 'h feeder \<Rightarrow> kernel \<Rightarrow> 'h feeder \<times> kernel" where
  "close_units us f k =
     fold (\<lambda>u (f, k). case bay_close (f_bay f) u k of (b, k) \<Rightarrow> (f\<lparr>f_bay := b\<rparr>, k)) us (f, k)"

text \<open>The stop: how many blocks the machine wrote are not on their packs.\<close>

definition packs_stop :: "'h face \<Rightarrow> 'h packs \<Rightarrow> kernel \<Rightarrow> nat \<times> 'h feeder \<times> kernel" where
  "packs_stop F d k0 =
     (case feeder_flush F 50 (pd_feeder d) k0 of (still, f, k) \<Rightarrow>
        let f = tell (ps_drive F 0 0 (f_timed f) (bay_present_mask (f_bay f))) f;
            (f, k) = close_units [0..<BAY_UNITS] f k
        in (still, f, k))"

datatype tested = Test_pass | Test_no_pack | Test_record pack_err | Test_serve moved | Test_writeback moved | Test_differ nat

definition selftest :: "'h face \<Rightarrow> nat \<Rightarrow> 'h feeder \<Rightarrow> kernel \<Rightarrow> tested \<times> 'h feeder \<times> kernel" where
  "selftest F unit f k0 =
     (case bay_pack (f_bay f) unit of
        None \<Rightarrow> (Test_no_pack, f, k0)
      | Some pk \<Rightarrow>
          (case pack_record pk 0 k0 of
             (Inl e, k) \<Rightarrow> (Test_record e, f, k)
           | (Inr want, k) \<Rightarrow>
               (case feeder_serve F unit 0 0 0 0 f k of (r, f, k) \<Rightarrow>
                  if r \<noteq> Moved then (Test_serve r, f, k)
                  else case feeder_writeback F 0 f k of (r, f, k) \<Rightarrow>
                    if r \<noteq> Moved then (Test_writeback r, f, k)
                    else case ask (peek_words F (word_at f (feeder_wb_addr (f_base f) 0)) PACK_RECORD_WORDS) f of
                      (rec, f) \<Rightarrow>
                        let differ = length (filter (\<lambda>i. rec ! i \<noteq> want ! i) [0..<PACK_RECORD_WORDS]);
                            (r, f) = feeder_take F 0 f
                        in (if differ \<noteq> 0 then Test_differ differ else Test_pass, f, k))))"

section \<open>Runs of the daemon\<close>

text \<open>
  Between two passes the machine may leave the face in any state and the rest of the system
  the files in any.
\<close>

inductive packs_step ::
    "'h face \<Rightarrow> nat \<Rightarrow> 'h packs \<times> kernel \<Rightarrow> 'h packs \<times> kernel \<Rightarrow> bool" for F per where
  pass: "packs_pass F per d k = (d', k') \<Longrightarrow> packs_step F per (d, k) (d', k')"
| machine: "packs_step F per (d, k) (d\<lparr>pd_feeder := (pd_feeder d)\<lparr>f_ps := (f_ps (pd_feeder d))\<lparr>ps_ctx := h\<rparr>\<rparr>\<rparr>, k)"
| system: "packs_step F per (d, k) (d, k')"

inductive packs_begin :: "'h face \<Rightarrow> 'h packs \<times> kernel \<Rightarrow> bool" for F where
  "packs_start F board dir quux timed m k = (Inr d, k') \<Longrightarrow> packs_begin F (d, k')"

inductive_cases packs_stepE: "packs_step F per (d, k) (d', k')"

abbreviation packs_inv :: "'h packs \<times> kernel \<Rightarrow> bool" where
  "packs_inv s \<equiv> feeder_inv (pd_feeder (fst s))"

lemma feeder_init_inv:
  "feeder_inv ((snd (feeder_init ((bay_init dir)\<lparr>b_quux := q\<rparr>) ps base phys n))\<lparr>f_linear := l\<rparr>)"
  by (auto simp: feeder_init_def table_ok_def bay_sane_def bay_init_def claim_ok_def)

lemma packs_begin_inv: "packs_begin F s \<Longrightarrow> packs_inv s"
proof (induction rule: packs_begin.induct)
  case (1 board dir quux timed m k d k')
  obtain good ident ps where i: "ps_ident_ok F (ps_init m) = (good, ident, ps)" by (cases "ps_ident_ok F (ps_init m)")
  let ?f = "(snd (feeder_init ((bay_init dir)\<lparr>b_quux := quux\<rparr>) (ps_drive F 0 0 False 0 ps)
    (SPARE_BASE board) (SPARE_BASE board) FEEDER_MAP_BYTES))\<lparr>f_linear := quux\<rparr>"
  obtain r f k1 where s: "feeder_start F timed ?f k = (r, f, k1)" by (cases "feeder_start F timed ?f k")
  have "feeder_inv f" using feeder_start_inv [OF s feeder_init_inv] .
  moreover have "f = pd_feeder d"
    using 1 i s by (auto simp: packs_start_def Let_def split: if_splits sum.splits prod.splits)
  ultimately show ?case by simp
qed

lemma packs_pass_inv:
  assumes "packs_pass F per d k = (d', k')" and "feeder_inv (pd_feeder d)"
  shows "feeder_inv (pd_feeder d')"
proof -
  obtain r f k1 where p: "feeder_poll F (pd_feeder d) k = (r, f, k1)" by (cases "feeder_poll F (pd_feeder d) k")
  have c: "pd_feeder (scan_clock per (d\<lparr>pd_feeder := f\<rparr>)) = f" by (simp add: scan_clock_def Let_def)
  from feeder_poll_inv [OF p assms(2)] show ?thesis
    using assms(1) p c by (auto simp: packs_pass_def packs_scan_def dest: feeder_bay_scan_inv split: if_splits prod.splits)
qed

lemma packs_step_inv: "packs_step F per s s' \<Longrightarrow> packs_inv s \<Longrightarrow> packs_inv s'"
  by (induction rule: packs_step.induct) (auto dest: packs_pass_inv)

interpretation daemon: kept "packs_begin F" "packs_step F per" packs_inv for F per
  by unfold_locales (auto intro: packs_begin_inv packs_step_inv)

end
