(* ===== verification/Daemon_Run.thy ===== *)
theory Daemon_Run
  imports Pack_Daemon
begin

text \<open>
  The invariant of the daemon's runs, and a run to apply it to: a bay whose unit 0 holds a T-80
  pack, a face that accepts every move and asks for block 0, and the daemon started on them
  and taken through one pass.
\<close>

unbundle bit_operations_syntax

section \<open>A run\<close>

text \<open>A face with nothing in it but a standing request for block 0 of unit 0.\<close>

definition idle_face :: "unit face" where
  "idle_face = \<lparr>fc_read = (\<lambda>h r. (case r of PS_IDENT \<Rightarrow> PS_IDENT_WORD | PS_CTL \<Rightarrow> PS_ST_DONE | PS_REQ \<Rightarrow> PS_REQ_VALID | _ \<Rightarrow> 0, h)),
     fc_write = (\<lambda>h r v. h), fc_pause = (\<lambda>h. h), fc_peek = (\<lambda>h i. (0, h)), fc_poke = (\<lambda>h i w. h)\<rparr>"
text \<open>A directory with one pack, every byte of it zero.\<close>

definition bay_kernel :: kernel where
  "bay_kernel = \<lparr>k_names = (\<lambda>p. if p = ''b'' then Some (0, 0) else if p = ''b/disk-pack-0.img'' then Some (0, 1) else None),
     k_inodes = (\<lambda>i. if i = (0, 0) then Some \<lparr>i_bytes = [], i_nlink = 1, i_mode = 0x1ED, i_reg = False\<rparr>
        else if i = (0, 1) then Some \<lparr>i_bytes = replicate 70937600 0, i_nlink = 1, i_mode = 0x1A4, i_reg = True\<rparr> else None),
     k_fds = [], k_script = []\<rparr>"



lemma ps_poll_idle: "st AND PS_ST_BUSY = 0 \<Longrightarrow> ps_poll F n st ps = (False, st, ps)"
  by (cases n) simp_all

lemma idle_ps [simp]:
  "ps_take idle_face s ps = (PS_OK, 2, ps\<lparr>ps_takes := ps_takes ps + 1\<rparr>)"
  "ps_fetch idle_face a t s ps = (PS_OK, 2, ps\<lparr>ps_fetches := ps_fetches ps + 1\<rparr>)"
  "ps_read idle_face r ps = (case r of PS_IDENT \<Rightarrow> PS_IDENT_WORD | PS_CTL \<Rightarrow> PS_ST_DONE | PS_REQ \<Rightarrow> PS_REQ_VALID | _ \<Rightarrow> 0, ps)"
  "ps_write idle_face r v ps = ps"
  "poke_words idle_face i ws ps = ps"
proof -
  have r: "ps_read idle_face r ps = (case r of PS_IDENT \<Rightarrow> PS_IDENT_WORD | PS_CTL \<Rightarrow> PS_ST_DONE | PS_REQ \<Rightarrow> PS_REQ_VALID | _ \<Rightarrow> 0, ps)"
    and w: "ps_write idle_face r v ps = ps" for r v ps
    by (simp_all add: ps_read_def ps_write_def idle_face_def)
  show "ps_take idle_face s ps = (PS_OK, 2, ps\<lparr>ps_takes := ps_takes ps + 1\<rparr>)"
    "ps_fetch idle_face a t s ps = (PS_OK, 2, ps\<lparr>ps_fetches := ps_fetches ps + 1\<rparr>)"
    "ps_read idle_face r ps = (case r of PS_IDENT \<Rightarrow> PS_IDENT_WORD | PS_CTL \<Rightarrow> PS_ST_DONE | PS_REQ \<Rightarrow> PS_REQ_VALID | _ \<Rightarrow> 0, ps)"
    "ps_write idle_face r v ps = ps"
    by (simp_all add: ps_take_def ps_fetch_def ps_request_def r w ps_poll_idle Let_def)
  show "poke_words idle_face i ws ps = ps" by (induction ws arbitrary: i ps) (simp_all add: idle_face_def)
qed

lemma replicate_update: "(replicate n x)[i := x] = replicate n x"
  by (cases "i < n") (simp_all add: list_eq_iff_nth_eq nth_list_update)

lemma idle_start_slots:
  "slot_lba f = replicate 24 (-1) \<Longrightarrow> slot_unit f = replicate 24 (-1) \<Longrightarrow>
     \<exists>ps. start_slots idle_face 0 ss f = (None, f\<lparr>f_ps := ps\<rparr>)"
proof (induction ss arbitrary: f)
  case (Cons s ss)
  let ?f = "f\<lparr>f_ps := (f_ps f)\<lparr>ps_takes := ps_takes (f_ps f) + 1\<rparr>\<rparr>"
  have "forget_slot s ?f = ?f"
    using Cons.prems by (cases f) (simp add: forget_slot_def replicate_update)
  then show ?case using Cons.IH [of ?f] Cons.prems by (simp add: up_def request_def)
next
  case (Nil f)
  have "f = f\<lparr>f_ps := f_ps f\<rparr>" by simp
  then show ?case by (metis start_slots.simps(1))
qed


lemma bay_names:
  "bay_path ((bay_init ''b'')\<lparr>b_quux := q\<rparr>) 0 = ''b/disk-pack-0.img''"
  "\<forall>u \<in> {1..<8}. bay_path ((bay_init ''b'')\<lparr>b_quux := q\<rparr>) u \<noteq> ''b/disk-pack-0.img''"
proof -
  have c: "char_of (48 + u :: nat) = CHR ''0'' \<longleftrightarrow> u = 0" if "u < 8" for u :: nat
  proof -
    have "CHR ''0'' = char_of (48 :: nat)" by code_simp
    then show ?thesis using that char_of_eq_iff [of "48 + u" "CHR ''0''"] by (simp add: take_bit_nat_eq_self)
  qed
  show "bay_path ((bay_init ''b'')\<lparr>b_quux := q\<rparr>) 0 = ''b/disk-pack-0.img''"
    using c [of 0] by (simp add: bay_path_def bay_init_def)
  show "\<forall>u \<in> {1..<8}. bay_path ((bay_init ''b'')\<lparr>b_quux := q\<rparr>) u \<noteq> ''b/disk-pack-0.img''"
    using c by (auto simp: bay_path_def bay_init_def)
qed

lemma scan_nothing:
  "\<forall>u \<in> set us. \<exists>e. sys_stat (bay_path (f_bay f) u) k = (Inl e, k) \<and> \<not> d_present (b_d (f_bay f) ! u) \<Longrightarrow>
     scan_units F us t f k = (t, f, k)"
  by (induction us) (auto simp: scan_unit_def bay_look_at_def no_look_def Let_def split: prod.splits)

definition bay_look_0 :: bay_look where
  "bay_look_0 = \<lparr>l_there = True, l_is_pack = True, l_read_only = False, l_dev = 0, l_ino = 1, l_size = 70937600, l_g = Some PACK_T80\<rparr>"

definition pack_0 :: pack where
  "pack_0 = pack_zero\<lparr>p_g := PACK_T80, p_writable := True, p_blocks := 69275, p_ino := 1, p_size := 70937600\<rparr>"

lemma geometry_t80: "pack_geometry_of_size 70937600 = Some PACK_T80" by code_simp

lemma look_0: "b = (bay_init ''b'')\<lparr>b_quux := False\<rparr> \<Longrightarrow> bay_look_at b 0 bay_kernel = (bay_look_0, bay_kernel)"
  using bay_names(1)
  by (simp add: bay_look_at_def sys_stat_def next_outcome_def bay_kernel_def stat_of_def no_look_def geometry_t80 bay_look_0_def bay_init_def)

definition kernel_1 :: kernel where "kernel_1 = bay_kernel\<lparr>k_fds := [Some ((0, 1), True)]\<rparr>"

lemma open_0: "pack_open ''b/disk-pack-0.img'' True bay_kernel = (Inr (), pack_0, kernel_1)"
  by (simp add: pack_open_def sys_open_def sys_fstat_def next_outcome_def bay_kernel_def kernel_1_def pack_0_def pack_zero_def
     install_fd_def fd_inode_def stat_of_def geometry_t80 PACK_T80_def)


definition bay_1 :: bay where
  "bay_1 = set_drive (bay_init ''b'') 0 \<lparr>d_pack = pack_0, d_present = True, d_read_only = False\<rparr>"

lemma bay_open_0: "bay_open ((bay_init ''b'')\<lparr>b_quux := False\<rparr>) 0 bay_look_0 bay_kernel = (Inr (), bay_1, kernel_1)"
  unfolding bay_open_def Let_def bay_names open_0
  by (simp add: open_0 bay_init_def bay_look_0_def pack_0_def pack_zero_def bay_1_def set_drive_def)

lemma access_0: "sys_access ''b'' bay_kernel = (Inr (), bay_kernel)"
  by (simp add: sys_access_def next_outcome_def bay_kernel_def)

lemma scan_0:
  assumes "f_bay f = (bay_init ''b'')\<lparr>b_quux := False\<rparr>" and "\<not> bay_missing_said f"
  shows "\<exists>f'. feeder_bay_scan idle_face f bay_kernel = (Scan_ran, f', kernel_1) \<and> f_bay f' = bay_1 \<and>
    slot_lba f' = slot_lba f \<and> slot_unit f' = slot_unit f \<and> f_linear f' = f_linear f \<and> have_last f' = have_last f \<and> f_hand f' = f_hand f"
proof -
  let ?f = "f\<lparr>scan_deferrals_in_a_row := 0, t_scans := t_scans f + 1\<rparr>"
  have u: "[0..<8] = 0 # [1..<8]" by (simp add: upt_rec)
  have abs: "\<not> d_present (b_d (bay_init ''b'') ! 0)" by (simp add: bay_init_def)
  obtain f1 where a: "bay_add 0 bay_look_0 0 ?f bay_kernel = (1, f1, kernel_1)"
    and f1: "f_bay f1 = bay_1" "slot_lba f1 = slot_lba f" "slot_unit f1 = slot_unit f" "f_linear f1 = f_linear f" "have_last f1 = have_last f" "f_hand f1 = f_hand f"
    using assms(1) by (simp add: bay_add_def bay_open_0 say_def)
  have p: "bay_path bay_1 v = bay_path ((bay_init ''b'')\<lparr>b_quux := False\<rparr>) v" for v
    by (simp add: bay_1_def bay_path_def set_drive_def)
  have s1: "scan_units idle_face [1..<8] (1, False) f1 kernel_1 = ((1, False), f1, kernel_1)"
  proof (rule scan_nothing, rule ballI)
    fix v assume "v \<in> set [1..<8]"
    then have v: "1 \<le> v" "v < 8" by auto
    then have "sys_stat (bay_path bay_1 v) kernel_1 = (Inl 2, kernel_1)" unfolding p
      using bay_names(2) [of False] by (simp add: sys_stat_def next_outcome_def kernel_1_def bay_kernel_def) (simp add: bay_path_def bay_init_def)
    then show "\<exists>e. sys_stat (bay_path (f_bay f1) v) kernel_1 = (Inl e, kernel_1) \<and> \<not> d_present (b_d (f_bay f1) ! v)"
      using v by (simp add: f1(1) bay_1_def set_drive_def bay_init_def)
  qed
  have s0: "scan_unit idle_face 0 (0, False) ?f bay_kernel = ((1, False), f1, kernel_1)"
    using assms(1) abs a by (simp add: scan_unit_def look_0 bay_look_0_def)
  show ?thesis
    using assms s0 s1 f1
    by (simp add: feeder_bay_scan_def ask_def ps_status_def access_0 u scan_seam_def Let_def bay_init_def tell_def)
qed

lemma start_scans_first: "feeder_bay_scan F f k = (Scan_ran, f', k') \<Longrightarrow> start_scans F 64 f k = (True, f', k')"
proof -
  have "64 = Suc 63" by simp
  then show "feeder_bay_scan F f k = (Scan_ran, f', k') \<Longrightarrow> ?thesis" by (simp only: start_scans.simps) simp
qed

lemma record_0: "\<exists>ws. pack_record pack_0 0 kernel_1 = (Inr ws, kernel_1)"
proof -
  have "fd_bytes kernel_1 0 = Some (replicate 70937600 0)"
    by (simp add: kernel_1_def bay_kernel_def fd_bytes_def fd_inode_def)
  then have r: "sys_pread 0 1024 0 kernel_1 = (Inr (read_bytes 0 1024 (replicate 70937600 0)), kernel_1)"
    by (intro sys_pread_quiet) (auto simp: kernel_1_def bay_kernel_def)
  have p: "p_fd pack_0 = 0" "\<not> p_quux pack_0" "p_blocks pack_0 = 69275" by (simp_all add: pack_0_def pack_zero_def)
  show ?thesis unfolding pack_record_def p by (auto simp: r p Let_def split: prod.splits)
qed

lemma labels_1: "read_labels bay_1 kernel_1 = kernel_1"
proof -
  have u: "[0..<8] = 0 # [1..<8]" by (simp add: upt_rec)
  have "bay_pack bay_1 0 = Some pack_0" by (simp add: bay_1_def bay_pack_def set_drive_def bay_init_def)
  moreover have "bay_pack bay_1 v = None" if "v \<in> set [1..<8]" for v
    using that by (simp add: bay_1_def bay_pack_def set_drive_def bay_init_def)
  then have "fold (\<lambda>u k. case bay_pack bay_1 u of None \<Rightarrow> k | Some pk \<Rightarrow> snd (pack_record pk 0 k)) [1..<8] = id"
    by (intro fold_id) (simp add: fun_eq_iff)
  moreover obtain ws where "pack_record pack_0 0 kernel_1 = (Inr ws, kernel_1)" using record_0 by blast
  ultimately show ?thesis by (simp add: read_labels_def u)
qed

lemma started:
  "\<exists>d. packs_start idle_face Zynq ''b'' False False () bay_kernel = (Inr d, kernel_1) \<and> f_bay (pd_feeder d) = bay_1 \<and>
    slot_lba (pd_feeder d) = replicate 24 (-1) \<and> slot_unit (pd_feeder d) = replicate 24 (-1) \<and>
    \<not> f_linear (pd_feeder d) \<and> \<not> have_last (pd_feeder d) \<and> f_hand (pd_feeder d) = 0"
proof -
  let ?f = "(snd (feeder_init ((bay_init ''b'')\<lparr>b_quux := False\<rparr>) (ps_drive idle_face 0 0 False 0 (ps_init ()))
      (SPARE_BASE Zynq) (SPARE_BASE Zynq) FEEDER_MAP_BYTES))\<lparr>f_linear := False, f_timed := False, f_hand := 0\<rparr>"
  obtain ps where s: "start_slots idle_face 0 [0..<24] ?f = (None, ?f\<lparr>f_ps := ps\<rparr>)"
    using idle_start_slots [of ?f "[0..<24]"] by (auto simp: feeder_init_def)
  let ?g = "say (Say_started False) (tell (ps_drive idle_face 0 0 False 0) (tell (ps_ref_clear idle_face (2 ^ 24 - 1)) (tell (ps_irq_clear idle_face 7) (?f\<lparr>f_ps := ps\<rparr>))))"
  have "f_bay ?g = (bay_init ''b'')\<lparr>b_quux := False\<rparr>" "\<not> bay_missing_said ?g" "slot_lba ?g = replicate 24 (-1)"
    "slot_unit ?g = replicate 24 (-1)" "\<not> f_linear ?g" "\<not> have_last ?g" "f_hand ?g = 0" "t_lost_at_start ?f = 0"
    by (simp_all add: say_def tell_def feeder_init_def)
  moreover from scan_0 [OF this(1,2)] obtain f' where "feeder_bay_scan idle_face ?g bay_kernel = (Scan_ran, f', kernel_1)" "f_bay f' = bay_1"
    "slot_lba f' = slot_lba ?g" "slot_unit f' = slot_unit ?g" "f_linear f' = f_linear ?g" "have_last f' = have_last ?g" "f_hand f' = f_hand ?g" by blast
  ultimately show ?thesis using s
    by (simp add: packs_start_def feeder_start_def ps_ident_ok_def ask_def ps_dirty_def Let_def feeder_init_def
        start_scans_first labels_1 split: prod.splits)
qed

lemma serve_0:
  assumes "f_bay f = bay_1" and "length (slot_unit f) = 24" and "length (slot_lba f) = 24"
  shows "\<exists>f'. feeder_serve idle_face 0 0 0 0 0 f kernel_1 = (Moved, f', kernel_1) \<and> slot_unit f' ! 0 = 0"
proof -
  obtain ws where w: "pack_record pack_0 0 kernel_1 = (Inr ws, kernel_1)" using record_0 by blast
  have b: "bay_pack bay_1 0 = Some pack_0" by (simp add: bay_1_def bay_pack_def set_drive_def bay_init_def)
  have l: "pack_lba (p_g pack_0) 0 0 0 = Some 0" by (simp add: pack_0_def pack_lba_def PACK_T80_def pack_zero_def)
  let ?f = "f\<lparr>f_ps := (f_ps f)\<lparr>ps_fetches := Suc (ps_fetches (f_ps f))\<rparr>\<rparr>"
  have len: "length (slot_unit (drop_stale 0 0 0 ?f)) = 24"
    using drop_stale_eq [of ?f 0 0 0] assms by simp
  show ?thesis
    using assms by (simp add: feeder_serve_def b l serve_record_def w request_def tell_def int8_def Let_def len)
qed

lemma victim_0:
  assumes "f_hand f = 0"
  shows "\<exists>h. next_victim idle_face 0 f = (Some 0, f\<lparr>f_hand := h\<rparr>)"
proof -
  have "\<exists>h. victim_turn idle_face (Suc n) 0 0 f = (Some 0, f\<lparr>f_hand := h\<rparr>)" for n
    using assms by (auto simp: up_def)
  from this [of 48] show ?thesis by (simp add: next_victim_def ask_def ps_ref_def)
qed

lemma no_dirty: "pass_slots F 0 a ss f k = (Inr a, f, k)"
  by (induction ss) (simp_all add: up_def)

lemma served:
  assumes "f_bay f = bay_1" "slot_lba f = replicate 24 (-1)" "slot_unit f = replicate 24 (-1)" "\<not> f_linear f" "\<not> have_last f" "f_hand f = 0"
  shows "\<exists>f' r. feeder_poll idle_face f kernel_1 = (r, f', kernel_1) \<and> slot_unit f' ! 0 = 0"
proof -
  have b: "bay_pack bay_1 0 = Some pack_0" by (simp add: bay_1_def bay_pack_def set_drive_def bay_init_def)
  have l: "pack_lba (p_g pack_0) 0 0 0 = Some 0" by (simp add: pack_0_def pack_lba_def PACK_T80_def pack_zero_def)
  let ?f = "f\<lparr>t_polls := t_polls f + 1, t_requests := t_requests f + 1\<rparr>"
  obtain h where v: "next_victim idle_face 0 ?f = (Some 0, ?f\<lparr>f_hand := h\<rparr>)"
    using victim_0 [of ?f] assms by auto
  obtain f' where s: "feeder_serve idle_face 0 0 0 0 0 (?f\<lparr>f_hand := h\<rparr>) kernel_1 = (Moved, f', kernel_1)" and u: "slot_unit f' ! 0 = 0"
    using serve_0 [of "?f\<lparr>f_hand := h\<rparr>"] assms by auto
  have t: "answer_tag ?f 0 = Inr (0, Want_chb 0 0 0 0)"
    using assms b l by (simp add: answer_tag_def ps_tag_split_def)
  have "answer_tries idle_face (Suc n) 0 0 0 (Want_chb 0 0 0 0) ?f kernel_1 = (Inr 1, answered 0 0 0 f', kernel_1)" for n
    using v s by (simp add: ask_def ps_dirty_def up_def serve_wanted_def)
  from this [of 23] have "answer idle_face 0 (f\<lparr>t_polls := t_polls f + 1\<rparr>) kernel_1 = (Inr 1, answered 0 0 0 f', kernel_1)"
    using t assms by (simp add: answer_def)
  then show ?thesis
    using u by (simp add: feeder_poll_def feeder_pass_def ask_def ps_irq_def ps_req_def ps_dirty_def no_dirty answered_def say_def Let_def)
qed


lemma one_reached:
  "\<exists>d k. reach (packs_begin idle_face) (packs_step idle_face 1000) (d, k) \<and> slot_unit (pd_feeder d) ! 0 = 0"
proof -
  obtain d where s: "packs_start idle_face Zynq ''b'' False False () bay_kernel = (Inr d, kernel_1)"
    and d: "f_bay (pd_feeder d) = bay_1" "slot_lba (pd_feeder d) = replicate 24 (-1)" "slot_unit (pd_feeder d) = replicate 24 (-1)"
      "\<not> f_linear (pd_feeder d)" "\<not> have_last (pd_feeder d)" "f_hand (pd_feeder d) = 0"
    using started by blast
  obtain r f' where p: "feeder_poll idle_face (pd_feeder d) kernel_1 = (r, f', kernel_1)" and u: "slot_unit f' ! 0 = 0"
    using served [OF d] by blast
  have "reach (packs_begin idle_face) (packs_step idle_face 1000) (d, kernel_1)"
    using s by (intro reach_init packs_begin.intros)
  moreover have z: "pd_since_scan d = 0" "\<not> pd_scan_due d"
    using s by (auto simp: packs_start_def Let_def split: prod.splits sum.splits if_splits)
  moreover from z p have "packs_step idle_face 1000 (d, kernel_1) (d\<lparr>pd_feeder := f', pd_since_scan := 1\<rparr>, kernel_1)"
    by (intro packs_step.pass) (simp add: packs_pass_def scan_clock_def packs_scan_def)
  ultimately have "reach (packs_begin idle_face) (packs_step idle_face 1000) (d\<lparr>pd_feeder := f', pd_since_scan := 1\<rparr>, kernel_1)"
    by (blast intro: reach_step)
  with u show ?thesis by fastforce
qed

section \<open>The slots are sound\<close>

text \<open>
  C5. In every state the disk-pack daemon reaches, whatever the machine does to the register
  face between passes and whatever happens to the files of the bay: a slot of the cache that
  claims a block claims one of a pack that is in the bay and inside that pack, no other slot
  claims the same block of the same unit, and the drive refuses writes exactly when its pack
  was opened read-only.\<close>

theorem packs_slots_sound:
  assumes "reach (packs_begin F) (packs_step F per) (d, k)" and "s < PS_SLOTS" and "slot_unit (pd_feeder d) ! s \<noteq> -1"
  shows "(\<exists>u < BAY_UNITS. \<exists>pk. slot_unit (pd_feeder d) ! s = int u \<and> bay_pack (f_bay (pd_feeder d)) u = Some pk \<and>
      0 \<le> slot_lba (pd_feeder d) ! s \<and> slot_lba (pd_feeder d) ! s < int (unat (p_blocks pk)) \<and>
      (d_read_only (b_d (f_bay (pd_feeder d)) ! u) \<longleftrightarrow> \<not> p_writable pk)) \<and>
    (\<forall>t < PS_SLOTS. t \<noteq> s \<longrightarrow>
      (slot_lba (pd_feeder d) ! t, slot_unit (pd_feeder d) ! t) \<noteq> (slot_lba (pd_feeder d) ! s, slot_unit (pd_feeder d) ! s))"
proof
  have inv: "feeder_inv (pd_feeder d)" using daemon.reach_inv [OF assms(1)] by simp
  then have c: "claim_ok (f_bay (pd_feeder d)) (slot_lba (pd_feeder d) ! s) (slot_unit (pd_feeder d) ! s)"
    and b: "bay_sane (f_bay (pd_feeder d))" using assms(2) by (auto simp: table_ok_def)
  from c assms(3) obtain u pk where u: "u < BAY_UNITS" "slot_unit (pd_feeder d) ! s = int u"
    "bay_pack (f_bay (pd_feeder d)) u = Some pk" "0 \<le> slot_lba (pd_feeder d) ! s"
    "slot_lba (pd_feeder d) ! s < int (unat (p_blocks pk))" by (auto simp: claim_ok_def)
  then have "d_read_only (b_d (f_bay (pd_feeder d)) ! u) \<longleftrightarrow> \<not> p_writable pk"
    using b by (auto simp: bay_sane_def drive_sane_def bay_pack_def split: if_splits)
  with u show "\<exists>u < BAY_UNITS. \<exists>pk. slot_unit (pd_feeder d) ! s = int u \<and> bay_pack (f_bay (pd_feeder d)) u = Some pk \<and>
      0 \<le> slot_lba (pd_feeder d) ! s \<and> slot_lba (pd_feeder d) ! s < int (unat (p_blocks pk)) \<and>
      (d_read_only (b_d (f_bay (pd_feeder d)) ! u) \<longleftrightarrow> \<not> p_writable pk)" by blast
  show "\<forall>t < PS_SLOTS. t \<noteq> s \<longrightarrow>
      (slot_lba (pd_feeder d) ! t, slot_unit (pd_feeder d) ! t) \<noteq> (slot_lba (pd_feeder d) ! s, slot_unit (pd_feeder d) ! s)"
    using inv assms(2,3) by (metis table_ok_def)
qed

theorem packs_slots_sound_witness:
  "\<exists>d k. reach (packs_begin idle_face) (packs_step idle_face 1000) (d, k) \<and> slot_unit (pd_feeder d) ! 0 = 0 \<and>
     (\<exists>pk. bay_pack (f_bay (pd_feeder d)) 0 = Some pk)"
proof -
  obtain d k where r: "reach (packs_begin idle_face) (packs_step idle_face 1000) (d, k)"
    and u: "slot_unit (pd_feeder d) ! 0 = 0" using one_reached by blast
  from packs_slots_sound [OF r, of 0] u have "\<exists>pk. bay_pack (f_bay (pd_feeder d)) 0 = Some pk" by auto
  with r u show ?thesis by blast
qed

end
