(* ===== verification/Feeder_Contract.thy ===== *)
theory Feeder_Contract
  imports Daemon_Run
begin

text \<open>
  What the feeder promises: that a block the machine wrote reaches its pack, that a block
  served is the pack's, that a write-back touches one block and only when something moved,
  that read-only, deleted and overwritten packs are left alone, which slot is chosen, and
  where the records lie.
\<close>

unbundle bit_operations_syntax

section \<open>Helpers\<close>

lemma claimed_block:
  assumes "feeder_inv f" and "s < PS_SLOTS" and "0 \<le> slot_lba f ! s"
  obtains u pk where "u < BAY_UNITS" and "slot_unit f ! s = int u" and "bay_pack (f_bay f) u = Some pk"
    and "word_of_int (slot_lba f ! s) < p_blocks pk"
proof -
  have "claim_ok (f_bay f) (slot_lba f ! s) (slot_unit f ! s)" using assms(1,2) by (simp add: table_ok_def)
  with assms(3) obtain u pk where u: "u < BAY_UNITS" "slot_unit f ! s = int u" "bay_pack (f_bay f) u = Some pk"
    and l: "slot_lba f ! s < int (unat (p_blocks pk))" by (auto simp: claim_ok_def)
  moreover have "int (unat (p_blocks pk)) < 2 ^ 32" using uint_bounded [of "p_blocks pk"] by simp
  then have "unat (word_of_int (slot_lba f ! s) :: u32) = nat (slot_lba f ! s)"
    using assms(3) l by (simp add: unsigned_of_int take_bit_int_eq_self)
  then have "word_of_int (slot_lba f ! s) < p_blocks pk" using assms(3) l by (simp add: word_less_nat_alt nat_less_iff)
  ultimately show thesis using that by blast
qed

lemma fake_fetch_ok:
  assumes "fake_ready slot addr ps" and "slot < PS_SLOTS"
  shows "\<exists>st ps'. ps_fetch fake_face addr tag slot ps = (PS_OK, st, ps')"
proof -
  have s: "(of_nat slot AND 0x1F :: u32) = of_nat slot" "\<not> (24 \<le> (of_nat slot :: u32))"
    using slot_word [OF assms(2)] assms(2) by (auto simp: word_le_nat_alt unat_of_nat)
  show ?thesis
    unfolding ps_fetch_def
    by (rule fake_request_ok [OF _ _ _ _ refl])
      (use assms s in \<open>auto simp: fake_ready_def fake_ctl_def fake_fetch_def fake_take_def fake_in_ddr_def Let_def\<close>)
qed

lemma fake_serve_record:
  assumes "feeder_inv f" and "slot < PS_SLOTS" and "pack_record pk lba k = (Inr words, k')"
    and "fake_ready slot (feeder_fetch_addr (f_base f) slot) (f_ps f)"
  shows "\<exists>f'. serve_record fake_face unit pk lba tag slot f k = (Moved, f', k') \<and>
    slot_lba f' ! slot = sint lba \<and> slot_unit f' ! slot = int8 unit"
proof -
  let ?addr = "feeder_fetch_addr (f_base f) slot"
  let ?f = "tell (poke_words fake_face (word_at f ?addr) words) f"
  have "fake_ready slot ?addr (f_ps ?f)" using assms(4) by (simp add: tell_def fake_ready_poke)
  from fake_fetch_ok [OF this assms(2)] obtain st ps' where
    p: "ps_fetch fake_face ?addr tag slot (f_ps ?f) = (PS_OK, st, ps')" by blast
  let ?g = "?f\<lparr>f_ps := ps'\<rparr>"
  have len: "length (slot_lba ?g) = PS_SLOTS" "length (slot_unit ?g) = PS_SLOTS"
    using assms(1) by (auto simp: table_ok_def tell_def)
  then have "length (slot_lba (drop_stale slot (sint lba) (int8 unit) ?g)) = PS_SLOTS"
    "length (slot_unit (drop_stale slot (sint lba) (int8 unit) ?g)) = PS_SLOTS"
    by (simp_all add: drop_stale_eq [OF len])
  then show ?thesis
    using p assms(2,3) by (simp add: serve_record_def request_def Let_def)
qed

lemma bay_remove_untouched:
  assumes "bay_remove F u may why att f k = (att', f', k')"
    and "\<not> may \<or> (\<forall>pk. bay_pack (f_bay f) u = Some pk \<longrightarrow>
      (\<forall>i w n. fd_inode k (p_fd pk) = Some (i, w) \<longrightarrow> k_inodes k i = Some n \<longrightarrow> i_nlink n = 0))"
  shows "k_inodes k' = k_inodes k"
  using assms(1)
proof (rule bay_remove_steps)
  fix alive k1 still wrote f1 k2 lost blocks f2 f3 n f4 b
  assume a: "(case bay_pack (f_bay f) u of Some pk \<Rightarrow> if may then pack_alive pk k else (False, k) | None \<Rightarrow> (False, k)) = (alive, k1)"
    and fl: "(if alive then feeder_flush_unit F u 8 f k1 else ((0, 0), f, k1)) = ((still, wrote), f1, k2)"
    and c: "bay_close (f_bay f4) u k2 = (b, k')"
  have "\<not> alive \<and> k_inodes k1 = k_inodes k"
  proof (cases "bay_pack (f_bay f) u")
    case (Some pk)
    show ?thesis
    proof (cases may)
      case True
      then have p: "pack_alive pk k = (alive, k1)" using a Some by simp
      have "fd_inode k (p_fd pk) = Some (i, w) \<Longrightarrow> k_inodes k i = Some n \<Longrightarrow> i_nlink n = 0" for i w n
        using assms(2) True Some by blast
      with pack_alive_dead [OF p] show ?thesis by blast
    qed (use a Some in simp)
  qed (use a in simp)
  with fl bay_close_inodes [OF c] show ?thesis by auto
qed

section \<open>Blocks between the machine and the pack\<close>

text \<open>
  C1. A block the machine wrote reaches its pack.  On an idle face, for a slot that claims a
  block of a writable CADR pack, and a system that does not fail: the write-back is made, the
  pack then shows at that block the 259 words the slot held, data, header and checkwords, and
  every other block reads as before.  (A slot that holds exactly the poison of its own area
  could not be told from one that did not move; this is the one content excluded.)\<close>

theorem written_block_reaches_pack:
  assumes "feeder_inv f" and "slot < PS_SLOTS" and "0 \<le> slot_lba f ! slot"
    and "bay_pack (f_bay f) (nat (slot_unit f ! slot)) = Some pk" and "cadr_pack_inv (pk, k)"
    and "p_writable pk" and "quiet k (p_fd pk) bytes"
    and "fake_steady (f_mem_phys f) (ps_ctx (f_ps f))" and "fake_ready slot (feeder_wb_addr (f_base f) slot) (f_ps f)"
    and "length (fk_store (ps_ctx (f_ps f)) slot) = PACK_RECORD_WORDS"
    and "fk_store (ps_ctx (f_ps f)) slot \<noteq> map (feeder_poison (feeder_wb_addr (f_base f) slot)) [0..<PACK_RECORD_WORDS]"
  shows "\<exists>f' k' pk'. feeder_writeback fake_face slot f k = (Moved, f', k') \<and>
    bay_pack (f_bay f') (nat (slot_unit f ! slot)) = Some pk' \<and> cadr_pack_inv (pk', k') \<and>
    pack_rd (pk', k') (word_of_int (slot_lba f ! slot)) = Some (fk_store (ps_ctx (f_ps f)) slot) \<and>
    (\<forall>m. m \<noteq> word_of_int (slot_lba f ! slot) \<longrightarrow> pack_rd (pk', k') m = pack_rd (pk, k) m)"
proof -
  obtain u where u: "slot_unit f ! slot = int u" "word_of_int (slot_lba f ! slot) < p_blocks pk"
    using claimed_block [OF assms(1-3)] assms(4) by (metis nat_int option.inject)
  have "\<not> p_quux pk" using assms(5) by (auto simp: cadr_pack_inv_def cadr_pack_ok_def)
  with pack_writeback_quiet [OF assms(7) u(2) assms(6) _ assms(10)] obtain pk' k' where
    w: "pack_writeback pk (word_of_int (slot_lba f ! slot)) (fk_store (ps_ctx (f_ps f)) slot) k = (Inr (), pk', k')"
    by blast
  obtain f' where "feeder_writeback fake_face slot f k = (Moved, f', k')"
    using fake_feeder_writeback [OF assms(2,3) _ assms(4,8-11) w] u(1) by auto
  with fakes.writeback_shows [OF this refl assms(8,10,4,5,1)] show ?thesis by blast
qed

theorem written_block_reaches_pack_witness:
  "\<exists>f' k' pk'. feeder_writeback fake_face 0 one_feeder one_kernel = (Moved, f', k') \<and>
     pack_rd (pk', k') 3 = Some (replicate 259 7)"
proof -
  have store: "fk_store one_fake 0 = replicate 259 7" by (simp add: one_fake_def)
  have ctx: "ps_ctx (ps_init one_fake) = one_fake" by (simp add: ps_init_def)
  have "table_ok (slot_lba one_feeder) (slot_unit one_feeder) one_bay" using one_feeder_inv by simp
  moreover have "quiet one_kernel 0 (replicate 70937600 0)" by (simp add: one_kernel_def)
  ultimately show ?thesis
    using written_block_reaches_pack [of one_feeder 0 t80_pack one_kernel "replicate 70937600 0"] one_not_poison
    by (simp add: store ctx del: upt_rec_numeral) blast
qed

text \<open>
  C25. A block served is the pack's.  On an idle face, where the pack gives 259 words for the
  block at a cylinder, head and block of a unit, the serve is made: the slot then holds those
  words and claims that block of that unit.\<close>

theorem served_block_is_the_packs:
  assumes "feeder_inv f" and "slot < PS_SLOTS" and "bay_pack (f_bay f) unit = Some pk"
    and "pack_lba (p_g pk) c h b = Some lba" and "pack_record pk lba k = (Inr words, k')"
    and "fake_steady (f_mem_phys f) (ps_ctx (f_ps f))"
    and "fake_ready slot (feeder_fetch_addr (f_base f) slot) (f_ps f)"
  shows "\<exists>f'. feeder_serve fake_face unit c h b slot f k = (Moved, f', k') \<and>
    fk_store (ps_ctx (f_ps f')) slot = words \<and> slot_lba f' ! slot = int (unat lba) \<and> slot_unit f' ! slot = int unit"
proof -
  have u: "unit < BAY_UNITS" using assms(3) by (auto simp: bay_pack_def split: if_splits)
  have "unat (p_blocks pk) \<le> 2 ^ 28" using assms(1,3) bay_pack_sane [of "f_bay f"] by (auto simp: table_ok_def pack_sane_def)
  then have l: "sint lba = int (unat lba)"
    using pack_record_lba [OF assms(5)] by (intro sint_small) (simp add: word_less_nat_alt)
  obtain f' where r: "serve_record fake_face unit pk lba (ps_tag (of_nat unit) c h b) slot f k = (Moved, f', k')"
    and c: "slot_lba f' ! slot = sint lba" "slot_unit f' ! slot = int8 unit"
    using fake_serve_record [OF assms(1,2,5,7)] by blast
  from fakes.serve_stores [OF r refl assms(6,2)] assms(5) have "fk_store (ps_ctx (f_ps f')) slot = words" by simp
  with r c l u assms(2-4) show ?thesis by (simp add: feeder_serve_def int8_small)
qed

text \<open>Block 3 of the one drive, into slot 1.\<close>

lemma one_record: "\<exists>words. pack_record t80_pack 3 one_kernel = (Inr words, one_kernel)"
proof -
  have r: "sys_pread 0 1024 3072 one_kernel = (Inr (read_bytes 3072 1024 (replicate 70937600 0)), one_kernel)"
    by (intro sys_pread_quiet) (simp_all add: one_kernel_def one_file_def fd_bytes_def fd_inode_def)
  show ?thesis unfolding pack_record_def by (auto simp: r word_le_nat_alt Let_def split: prod.splits)
qed

lemma one_fetch_ready: "fake_ready 1 (feeder_fetch_addr (SPARE_BASE Zynq) 1) (ps_init one_fake)"
  by (simp add: one_fake_def fake_ready_def ps_init_def fake_in_ddr_def feeder_fetch_addr_def
      SPARE_BASE_def Let_def word_le_nat_alt)

theorem served_block_is_the_packs_witness:
  "\<exists>f'. feeder_serve fake_face 0 0 0 3 1 one_feeder one_kernel = (Moved, f', one_kernel) \<and>
     slot_lba f' ! 1 = 3 \<and> slot_unit f' ! 1 = 0"
proof -
  obtain words where r: "pack_record t80_pack 3 one_kernel = (Inr words, one_kernel)" using one_record by blast
  have "table_ok (slot_lba one_feeder) (slot_unit one_feeder) one_bay" using one_feeder_inv by simp
  moreover have "pack_lba (p_g t80_pack) 0 0 3 = Some 3" by (simp add: t80_pack_def pack_zero_def pack_lba_def PACK_T80_def)
  moreover have "ps_ctx (ps_init one_fake) = one_fake" by (simp add: ps_init_def)
  ultimately have "\<exists>f'. feeder_serve fake_face 0 0 0 3 1 one_feeder one_kernel = (Moved, f', one_kernel) \<and>
     fk_store (ps_ctx (f_ps f')) 1 = words \<and> slot_lba f' ! 1 = 3 \<and> slot_unit f' ! 1 = 0"
    using served_block_is_the_packs [of one_feeder 1 0 t80_pack 0 0 3 3 one_kernel words one_kernel] r one_fetch_ready
    by simp
  then show ?thesis by blast
qed

text \<open>
  C26. A write-back touches one block, and only when something moved.  For any register face: a
  write-back leaves every file and every drive as they were, or it is one write to the block
  its slot claims, of the pack on the unit the slot claims, with 259 words that are not the
  poison put there before the move; and it reports success exactly when that write did.\<close>

theorem writeback_touches_its_block:
  assumes "feeder_writeback F slot f k = (r, f', k')"
  shows "r \<noteq> Moved \<and> k' = k \<and> f_bay f' = f_bay f \<or>
    (\<exists>pk words e pk'. slot < PS_SLOTS \<and> 0 \<le> slot_lba f ! slot \<and> 0 \<le> slot_unit f ! slot \<and>
       bay_pack (f_bay f) (nat (slot_unit f ! slot)) = Some pk \<and> length words = PACK_RECORD_WORDS \<and>
       words \<noteq> map (feeder_poison (feeder_wb_addr (f_base f) slot)) [0..<PACK_RECORD_WORDS] \<and>
       pack_writeback pk (word_of_int (slot_lba f ! slot)) words k = (e, pk', k') \<and> (r = Moved \<longleftrightarrow> e = Inr ()) \<and>
       f_bay f' = set_drive (f_bay f) (nat (slot_unit f ! slot))
         ((b_d (f_bay f) ! nat (slot_unit f ! slot))\<lparr>d_pack := pk'\<rparr>))"
  by (rule feeder_writeback_cases [OF assms])

theorem writeback_touches_its_block_witness:
  "\<exists>f' k' words pk'. feeder_writeback fake_face 0 one_feeder one_kernel = (Moved, f', k') \<and>
     pack_writeback t80_pack 3 words one_kernel = (Inr (), pk', k')"
proof -
  obtain f' k' where w: "feeder_writeback fake_face 0 one_feeder one_kernel = (Moved, f', k')"
    using one_written by metis
  from writeback_touches_its_block [OF w] have "\<exists>words pk'. pack_writeback t80_pack 3 words one_kernel = (Inr (), pk', k')"
    by (auto simp del: upt_rec_numeral)
  with w show ?thesis by blast
qed

section \<open>Packs that are left alone\<close>

text \<open>
  C27. A read-only drive's pack is never written: a write-back of a slot that claims one of its
  blocks is refused and leaves every file as it was.\<close>

theorem read_only_pack_unwritten:
  assumes "feeder_inv f" and "d_read_only (b_d (f_bay f) ! nat (slot_unit f ! slot))"
    and "feeder_writeback F slot f k = (r, f', k')"
  shows "r \<noteq> Moved \<and> k' = k"
proof -
  have ro: "\<not> p_writable pk" if "bay_pack (f_bay f) (nat (slot_unit f ! slot)) = Some pk" for pk
    using assms(1,2) that by (auto simp: table_ok_def bay_sane_def drive_sane_def bay_pack_def split: if_splits)
  from feeder_writeback_cases [OF assms(3)] ro show ?thesis
    by (auto simp: pack_writeback_def simp del: upt_rec_numeral split: if_splits)
qed

definition locked_feeder :: "fake feeder" where
  "locked_feeder = one_feeder\<lparr>f_bay := set_drive one_bay 0
     \<lparr>d_pack = t80_pack\<lparr>p_writable := False\<rparr>, d_present = True, d_read_only = True\<rparr>\<rparr>"

lemma locked_feeder_inv: "feeder_inv locked_feeder"
proof -
  let ?pk = "t80_pack\<lparr>p_writable := False\<rparr>"
  have sane: "pack_sane ?pk"
    by (simp add: pack_sane_def t80_pack_def pack_zero_def drive_type_def PACK_T80_def)
  have one: "table_ok (slot_lba one_feeder) (slot_unit one_feeder) one_bay" using one_feeder_inv by simp
  have "bay_sane (f_bay locked_feeder)" unfolding locked_feeder_def
    using sane one by (auto simp: drive_sane_def table_ok_def intro!: bay_sane_set)
  moreover have "claim_ok (f_bay locked_feeder) 3 0"
    by (auto simp: claim_ok_def locked_feeder_def bay_pack_def one_bay_def set_drive_def bay_init_def intro!: exI [of _ 0])
  ultimately show ?thesis
    by (auto simp: table_ok_def locked_feeder_def one_feeder_def feeder_init_def nth_list_update)
qed

theorem read_only_pack_unwritten_witness:
  "\<exists>r f'. feeder_writeback fake_face 0 locked_feeder one_kernel = (r, f', one_kernel) \<and> r \<noteq> Moved"
proof -
  obtain r f' k' where w: "feeder_writeback fake_face 0 locked_feeder one_kernel = (r, f', k')"
    by (cases "feeder_writeback fake_face 0 locked_feeder one_kernel")
  have "d_read_only (b_d (f_bay locked_feeder) ! nat (slot_unit locked_feeder ! 0))"
    by (simp add: locked_feeder_def set_drive_def one_bay_def bay_init_def)
  from read_only_pack_unwritten [OF locked_feeder_inv this w] w show ?thesis by simp
qed

text \<open>
  A pack that was overwritten in place, or whose file is deleted and gone from every name,
  is not written on its way out: taking its drive away changes no file, whatever the machine
  had still written to it, and the drive is absent afterwards.\<close>

theorem removed_pack_unwritten:
  assumes "bay_remove F unit may_flush why attention f k = (attention', f', k')" and "feeder_inv f" and "unit < BAY_UNITS"
    and "\<not> may_flush \<or> (\<forall>pk. bay_pack (f_bay f) unit = Some pk \<longrightarrow>
      (\<forall>i w n. fd_inode k (p_fd pk) = Some (i, w) \<longrightarrow> k_inodes k i = Some n \<longrightarrow> i_nlink n = 0))"
  shows "k_inodes k' = k_inodes k \<and> bay_pack (f_bay f') unit = None"
  using bay_remove_untouched [OF assms(1,4)] bay_remove_inv(2) [OF assms(1-3)] by (simp add: bay_pack_def)

theorem removed_pack_unwritten_witness:
  "\<exists>att f' k'. bay_remove fake_face 0 False Rm_overwritten 0 one_feeder one_kernel = (att, f', k') \<and>
     bay_pack (f_bay one_feeder) 0 = Some t80_pack \<and> k_inodes k' = k_inodes one_kernel \<and> bay_pack (f_bay f') 0 = None"
proof -
  obtain att f' k' where r: "bay_remove fake_face 0 False Rm_overwritten 0 one_feeder one_kernel = (att, f', k')"
    by (cases "bay_remove fake_face 0 False Rm_overwritten 0 one_feeder one_kernel")
  from removed_pack_unwritten [OF r one_feeder_inv] r show ?thesis by simp
qed

section \<open>Which slot, and where the records lie\<close>

text \<open>
  C28. The slot chosen is the second-chance one: from the hand on, the first slot that is not
  refused and not used since it was last passed, or, when every such slot was used, the first
  that is not refused; so the choice fails exactly when all 24 slots are refused.\<close>

theorem victim_is_second_chance:
  assumes "f_hand f < PS_SLOTS" and "fst (fc_read F (ps_ctx (f_ps f)) PS_REF) = ref"
  shows "fst (next_victim F skip f) = second_chance (f_hand f) skip ref \<and>
    (fst (next_victim F skip f) = None \<longleftrightarrow> (\<forall>s < PS_SLOTS. up skip s))"
proof -
  have "second_chance (f_hand f) skip ref = None \<longleftrightarrow> (\<forall>s < PS_SLOTS. up skip s)"
  proof -
    have n: "find P (from_hand (f_hand f)) = None \<longleftrightarrow> (\<forall>s < PS_SLOTS. \<not> P s)" for P
      unfolding find_None_iff from_hand_slots(2) by blast
    show ?thesis
    proof (cases "find (\<lambda>s. \<not> up skip s \<and> \<not> up ref s) (from_hand (f_hand f))")
      case (Some s)
      then have "\<exists>s < PS_SLOTS. \<not> up skip s" using n [of "\<lambda>s. \<not> up skip s \<and> \<not> up ref s"] by auto
      with Some show ?thesis by (simp add: second_chance_def)
    next
      case None
      then show ?thesis using n [of "\<lambda>s. \<not> up skip s"] by (simp add: second_chance_def)
    qed
  qed
  then show ?thesis using next_victim_second_chance [OF assms] by simp
qed

theorem victim_is_second_chance_witness: "fst (next_victim fake_face 0 one_feeder) = Some 0"
proof -
  have "fst (fc_read fake_face (ps_ctx (f_ps one_feeder)) PS_REF) = 0" "f_hand one_feeder = 0"
    by (simp_all add: fake_face_def fake_read_def ps_init_def one_fake_def one_feeder_def feeder_init_def)
  moreover have "second_chance 0 0 0 = Some 0" by code_simp
  ultimately show ?thesis using victim_is_second_chance [of one_feeder fake_face 0 0] by simp
qed

text \<open>
  On every board the records of two slots, each its 259 words and the pad after them, are
  aligned as the fabric wants, do not overlap, fetches and write-backs included, and lie inside
  the mapped spare.\<close>

theorem records_apart:
  assumes "s < PS_SLOTS" and "t < PS_SLOTS"
  shows "feeder_fetch_addr (SPARE_BASE board) s AND (PS_RECORD_ALIGN - 1) = 0 \<and>
    feeder_wb_addr (SPARE_BASE board) s AND (PS_RECORD_ALIGN - 1) = 0 \<and>
    (s < t \<longrightarrow> unat (feeder_fetch_addr (SPARE_BASE board) s) + 1040 \<le> unat (feeder_fetch_addr (SPARE_BASE board) t) \<and>
      unat (feeder_wb_addr (SPARE_BASE board) s) + 1040 \<le> unat (feeder_wb_addr (SPARE_BASE board) t)) \<and>
    unat (feeder_fetch_addr (SPARE_BASE board) s) + 1040 \<le> unat (feeder_wb_addr (SPARE_BASE board) t) \<and>
    unat (SPARE_BASE board) \<le> unat (feeder_fetch_addr (SPARE_BASE board) s) \<and>
    unat (feeder_wb_addr (SPARE_BASE board) s) + 1040 \<le> unat (SPARE_BASE board) + FEEDER_MAP_BYTES"
proof -
  have m: "x AND (PS_RECORD_ALIGN - 1) = 0 \<longleftrightarrow> unat x mod 128 = 0" for x :: u32
  proof -
    have "x AND (PS_RECORD_ALIGN - 1) = take_bit 7 x" by (simp add: take_bit_eq_mask mask_eq_exp_minus_1)
    moreover have "unat (take_bit 7 x) = unat x mod 128" unfolding unsigned_take_bit_eq by (simp add: take_bit_eq_mod)
    ultimately show ?thesis by (metis unat_0 unat_eq_zero)
  qed
  have "(unat (SPARE_BASE board) + s * 0x800) mod 128 = 0" "(unat (SPARE_BASE board) + 0x10000 + s * 0x800) mod 128 = 0"
    using SPARE_BASE_aligned [of board] by presburger+
  then show ?thesis
    unfolding m spare_addr [OF assms(1)] spare_addr [OF assms(2)] using assms by auto
qed

theorem records_apart_witness:
  "unat (feeder_wb_addr (SPARE_BASE Kr260) 0) + 1040 \<le> unat (feeder_wb_addr (SPARE_BASE Kr260) 23)"
  using records_apart [of 0 23 Kr260] by simp

text \<open>
  The request tag: unit, cylinder, head and block inside their fields come back out of the
  tag they are put into, and a tag never has the bit that says a request is standing.\<close>

theorem tag_round_trip:
  assumes "unit < 8" and "c < 0x1000" and "h < 0x100" and "b < 0x100"
  shows "ps_tag_split (ps_tag unit c h b) = (unit, c, h, b) \<and> ps_tag unit c h b AND PS_REQ_VALID = 0"
proof -
  have f: "unit AND mask 3 = unit" "c AND mask 12 = c" "h AND mask 8 = h" "b AND mask 8 = b"
    using assms by (auto intro!: small_and_mask simp: word_less_nat_alt)
  have m: "7 = (mask 3 :: u32)" "0xFFF = (mask 12 :: u32)" "0xFF = (mask 8 :: u32)" by (simp_all add: mask_eq_exp_minus_1)
  have z: "bit w i \<Longrightarrow> i < n" if "w AND mask n = w" for w :: u32 and n i
    using that by (metis bit_and_iff bit_mask_iff)
  note z = z [OF f(1)] z [OF f(2)] z [OF f(3)] z [OF f(4)]
  have "ps_tag unit c h b = push_bit 28 unit OR push_bit 16 c OR push_bit 8 h OR b"
    unfolding ps_tag_def m f ..
  then have tag: "bit (ps_tag unit c h b) i \<longleftrightarrow> 28 \<le> i \<and> i < 32 \<and> bit unit (i - 28) \<or> 16 \<le> i \<and> i < 32 \<and> bit c (i - 16) \<or>
      8 \<le> i \<and> i < 32 \<and> bit h (i - 8) \<or> bit b i" for i
    by (auto simp: bit_or_iff bit_push_bit_iff)
  have "drop_bit 28 (ps_tag unit c h b) AND mask 3 = unit" "drop_bit 16 (ps_tag unit c h b) AND mask 12 = c"
    "drop_bit 8 (ps_tag unit c h b) AND mask 8 = h" "ps_tag unit c h b AND mask 8 = b"
    by (rule bit_word_eqI; use z in \<open>force simp: bit_and_iff bit_drop_bit_eq bit_mask_iff tag\<close>)+
  then have "ps_tag_split (ps_tag unit c h b) = (unit, c, h, b)" unfolding ps_tag_split_def m by simp
  moreover have "\<not> bit (ps_tag unit c h b) 31" using z by (force simp: tag)
  then have "ps_tag unit c h b AND PS_REQ_VALID = 0"
    using and_exp_eq_0_iff_not_bit [of "ps_tag unit c h b" 31] by simp
  ultimately show ?thesis by simp
qed

theorem tag_round_trip_witness: "ps_tag_split (ps_tag 7 814 18 16) = (7, 814, 18, 16)"
  using tag_round_trip [of 7 814 18 16] by simp

end
