(* ===== verification/Qed_Host.thy ===== *)
theory Qed_Host
  imports Prelude
begin

text \<open>
  \<^verbatim>\<open>qed_host.c\<close>: what the host gives the machine in words 253 to 257, the three flags that say it
  and their refusals, a refusal as a value with what its sentence names.  A C string is the list
  of its characters before the 0 that ends it.
\<close>

unbundle bit_operations_syntax

record qed_host =
  h_mac :: "u8 list"
  h_address :: u32
  h_netmask :: u32
  h_gateway :: u32

definition qed_host_default :: qed_host where
  "qed_host_default =
     \<lparr>h_mac = [0x02, 0, 0, 0, 0, 0x01],
      h_address = push_bit 24 169 OR push_bit 16 254 OR push_bit 8 100 OR 2,
      h_netmask = push_bit 2 0xFFFFFFFF,
      h_gateway = push_bit 24 169 OR push_bit 16 254 OR push_bit 8 100 OR 1\<rparr>"

section \<open>Text\<close>

definition code :: "char \<Rightarrow> nat" where
  "code c = of_char c"

definition digit :: "nat \<Rightarrow> char" where
  "digit d = (if d < 10 then char_of (48 + d) else char_of (87 + d))"

text \<open>\<^verbatim>\<open>%x\<close> and \<^verbatim>\<open>%u\<close> of what is below 256, and \<^verbatim>\<open>%02x\<close>.\<close>

definition hex_text :: "nat \<Rightarrow> string" where
  "hex_text n = (if n < 16 then [digit n] else [digit (n div 16), digit (n mod 16)])"

definition hex2_text :: "nat \<Rightarrow> string" where
  "hex2_text n = [digit (n div 16), digit (n mod 16)]"

definition dec_text :: "nat \<Rightarrow> string" where
  "dec_text n =
     (if n < 10 then [digit n]
      else if n < 100 then [digit (n div 10), digit (n mod 10)]
      else [digit (n div 100), digit (n div 10 mod 10), digit (n mod 10)])"

text \<open>\<^verbatim>\<open>PUT\<close>: one more character, where one less than \<open>len\<close> has room for it.\<close>

definition put :: "nat \<Rightarrow> char \<Rightarrow> string \<Rightarrow> string" where
  "put len c out = (if length out + 1 < len then out @ [c] else out)"

definition put_quoted :: "nat \<Rightarrow> char \<Rightarrow> string \<Rightarrow> string" where
  "put_quoted len ch out =
     (let c = code ch in
       if c = 0x22 \<or> c = 0x5C then put len ch (put len (CHR 0x5C) out)
       else if c = 9 \<or> c = 13 \<or> c = 10 then
         put len (if c = 9 then CHR ''t'' else if c = 13 then CHR ''r'' else CHR ''n'') (put len (CHR 0x5C) out)
       else if c < 0x20 \<or> c = 0x7F then fold (put len) ([CHR 0x5C, CHR ''u'', CHR 0x7B] @ hex_text c @ [CHR 0x7D]) out
       else put len ch out)"

definition debug_quoted :: "string \<Rightarrow> nat \<Rightarrow> string" where
  "debug_quoted arg len = put len (CHR 0x22) (fold (put_quoted len) arg (put len (CHR 0x22) []))"

section \<open>The flags\<close>

datatype not_a_host = This_network | Loopback | Multicast | Reserved | Network_address | Broadcast_address

datatype host_err =
    Mac_wanted string | Mac_group string
  | Address_wanted string | Prefix_bad string nat | Not_a_host string not_a_host
  | Gateway_wanted string
  | Gateway_none bool | Gateway_own bool | Gateway_off_subnet bool | Gateway_network bool | Gateway_broadcast bool

definition hexdigit :: "char \<Rightarrow> nat option" where
  "hexdigit ch =
     (let c = code ch in
       if 48 \<le> c \<and> c \<le> 57 then Some (c - 48)
       else if 97 \<le> c \<and> c \<le> 102 then Some (c - 97 + 10)
       else if 65 \<le> c \<and> c \<le> 70 then Some (c - 65 + 10)
       else None)"

text \<open>The loop over the pairs, \<open>k\<close> left after this one.\<close>

fun mac_loop :: "nat \<Rightarrow> string \<Rightarrow> u8 list option" where
  "mac_loop k (a # b # p) =
     (case (hexdigit a, hexdigit b) of
        (Some x, Some y) \<Rightarrow>
          (let m = of_nat (16 * x + y) in
            case (k, p) of
              (Suc j, c # p) \<Rightarrow> if c = CHR '':'' then map_option ((#) m) (mac_loop j p) else None
            | (0, []) \<Rightarrow> Some [m]
            | _ \<Rightarrow> None)
      | _ \<Rightarrow> None)"
| "mac_loop k p = None"

definition qed_parse_mac :: "string \<Rightarrow> host_err + u8 list" where
  "qed_parse_mac arg =
     (case mac_loop 5 arg of
        None \<Rightarrow> Inl (Mac_wanted (debug_quoted arg 256))
      | Some m \<Rightarrow> if bit (m ! 0) 0 then Inl (Mac_group arg) else Inr m)"

text \<open>At most \<open>room\<close> digits: the number, how many, and what is left.\<close>

fun dec_loop :: "nat \<Rightarrow> nat \<Rightarrow> string \<Rightarrow> nat \<times> nat \<times> string" where
  "dec_loop (Suc room) x (c # s) =
     (if 48 \<le> code c \<and> code c \<le> 57
      then (case dec_loop room (10 * x + (code c - 48)) s of (x, n, s) \<Rightarrow> (x, Suc n, s))
      else (x, 0, c # s))"
| "dec_loop room x s = (x, 0, s)"

definition dec_part :: "string \<Rightarrow> (nat \<times> string) option" where
  "dec_part s =
     (case dec_loop 3 0 s of (x, digits, rest) \<Rightarrow>
        if digits = 0 \<or> 255 < x \<or> 1 < digits \<and> hd s = CHR ''0'' then None else Some (x, rest))"

text \<open>The parts after the first, \<open>k\<close> of them, each past its dot.\<close>

fun parts_loop :: "nat \<Rightarrow> u32 \<Rightarrow> string \<Rightarrow> (u32 \<times> string) option" where
  "parts_loop 0 v s = Some (v, s)"
| "parts_loop (Suc k) v s =
     (case s of
        [] \<Rightarrow> None
      | c # s \<Rightarrow>
          if c \<noteq> CHR ''.'' then None
          else case dec_part s of None \<Rightarrow> None | Some (x, s) \<Rightarrow> parts_loop k (push_bit 8 v OR of_nat x) s)"

definition parse_ipv4 :: "string \<Rightarrow> u32 option" where
  "parse_ipv4 s =
     (case dec_part s of
        None \<Rightarrow> None
      | Some (x, s) \<Rightarrow>
          (case parts_loop 3 (of_nat x) s of Some (v, []) \<Rightarrow> Some v | _ \<Rightarrow> None))"

abbreviation (input) MAX_PREFIX :: nat where "MAX_PREFIX \<equiv> 30"

definition is_digit :: "char \<Rightarrow> bool" where
  "is_digit c \<longleftrightarrow> 48 \<le> code c \<and> code c \<le> 57"

definition not_a_host :: "u32 \<Rightarrow> u32 \<Rightarrow> not_a_host option" where
  "not_a_host a nm =
     (let top = drop_bit 24 a in
       if top = 0 then Some This_network
       else if top = 127 then Some Loopback
       else if 224 \<le> top \<and> top \<le> 239 then Some Multicast
       else if 240 \<le> top then Some Reserved
       else if a AND NOT nm = 0 then Some Network_address
       else if a AND NOT nm = NOT nm then Some Broadcast_address
       else None)"

definition qed_parse_ip_address :: "string \<Rightarrow> host_err + u32 \<times> u32" where
  "qed_parse_ip_address arg =
     (let head = takeWhile (\<lambda>c. c \<noteq> CHR ''/'') arg; slash = dropWhile (\<lambda>c. c \<noteq> CHR ''/'') arg; prefix = tl slash in
       case (if slash = [] then None else parse_ipv4 head) of
         None \<Rightarrow> Inl (Address_wanted (debug_quoted arg 256))
       | Some a \<Rightarrow>
           if prefix = [] \<or> 2 < length prefix \<or> \<not> list_all is_digit prefix
           then Inl (Address_wanted (debug_quoted arg 256))
           else let n = foldl (\<lambda>n c. 10 * n + (code c - 48)) 0 prefix in
             if n < 1 \<or> MAX_PREFIX < n then Inl (Prefix_bad arg n)
             else let nm = push_bit (32 - n) 0xFFFFFFFF in
               case not_a_host a nm of Some w \<Rightarrow> Inl (Not_a_host arg w) | None \<Rightarrow> Inr (a, nm))"

definition qed_parse_ip_gateway :: "string \<Rightarrow> host_err + u32" where
  "qed_parse_ip_gateway arg =
     (case parse_ipv4 arg of None \<Rightarrow> Inl (Gateway_wanted (debug_quoted arg 256)) | Some g \<Rightarrow> Inr g)"

definition octet :: "nat \<Rightarrow> u32 \<Rightarrow> nat" where
  "octet k a = unat (drop_bit (8 * k) a AND 255)"

definition qed_ipv4_text :: "u32 \<Rightarrow> string" where
  "qed_ipv4_text a =
     dec_text (unat (drop_bit 24 a)) @ ''.'' @ dec_text (octet 2 a) @ ''.'' @ dec_text (octet 1 a) @ ''.'' @ dec_text (octet 0 a)"

definition qed_mac_text :: "u8 list \<Rightarrow> string" where
  "qed_mac_text m =
     hex2_text (unat (m ! 0)) @ '':'' @ hex2_text (unat (m ! 1)) @ '':'' @ hex2_text (unat (m ! 2)) @ '':'' @
     hex2_text (unat (m ! 3)) @ '':'' @ hex2_text (unat (m ! 4)) @ '':'' @ hex2_text (unat (m ! 5))"

function prefix_loop :: "nat \<Rightarrow> u32 \<Rightarrow> nat" where
  "prefix_loop n netmask = (if n < 32 \<and> netmask AND drop_bit n 0x80000000 \<noteq> 0 then prefix_loop (n + 1) netmask else n)"
  by auto
termination by (relation "measure (\<lambda>(n, _). 32 - n)") auto

definition qed_prefix_length :: "u32 \<Rightarrow> nat" where
  "qed_prefix_length netmask = prefix_loop 0 netmask"

definition qed_check_gateway :: "u32 \<Rightarrow> u32 \<Rightarrow> u32 \<Rightarrow> bool \<Rightarrow> host_err option" where
  "qed_check_gateway address netmask gateway is_default =
     (if gateway = 0 then Some (Gateway_none is_default)
      else if gateway = address then Some (Gateway_own is_default)
      else if gateway AND netmask \<noteq> address AND netmask then Some (Gateway_off_subnet is_default)
      else if gateway AND NOT netmask = 0 then Some (Gateway_network is_default)
      else if gateway AND NOT netmask = NOT netmask then Some (Gateway_broadcast is_default)
      else None)"

section \<open>The three flags and their defaults\<close>

text \<open>The part of \<^verbatim>\<open>main\<close> that makes the host of the flags, each given or not.\<close>

definition host_of_flags :: "string option \<Rightarrow> string option \<Rightarrow> string option \<Rightarrow> host_err + qed_host" where
  "host_of_flags mac address gateway =
     (let h = qed_host_default in
       case (case mac of None \<Rightarrow> Inr (h_mac h) | Some s \<Rightarrow> qed_parse_mac s) of
         Inl e \<Rightarrow> Inl e
       | Inr m \<Rightarrow>
           (case (case address of None \<Rightarrow> Inr (h_address h, h_netmask h) | Some s \<Rightarrow> qed_parse_ip_address s) of
              Inl e \<Rightarrow> Inl e
            | Inr (a, nm) \<Rightarrow>
                (case (case gateway of None \<Rightarrow> Inr (h_gateway h) | Some s \<Rightarrow> qed_parse_ip_gateway s) of
                   Inl e \<Rightarrow> Inl e
                 | Inr g \<Rightarrow>
                     (case qed_check_gateway a nm g (gateway = None) of
                        Some e \<Rightarrow> Inl e
                      | None \<Rightarrow> Inr \<lparr>h_mac = m, h_address = a, h_netmask = nm, h_gateway = g\<rparr>))))"

declare prefix_loop.simps [simp del]

end
