(* ===== verification/Qed_Host_Props.thy ===== *)
theory Qed_Host_Props
  imports Qed_Host
begin

text \<open>
  The flags' parsers against the texts the program prints, and what a host they accept is.
\<close>

unbundle bit_operations_syntax

section \<open>Digits\<close>

lemma code_digit: "d < 10 \<Longrightarrow> code (digit d) = 48 + d" "10 \<le> d \<Longrightarrow> d < 16 \<Longrightarrow> code (digit d) = 87 + d"
  by (simp_all add: code_def digit_def)

lemma code_inj: "code a = code b \<longleftrightarrow> a = b"
  by (simp add: code_def)

lemma digit_code: "is_digit c \<Longrightarrow> digit (code c - 48) = c"
  using code_digit(1) [of "code c - 48"] by (auto simp: is_digit_def code_inj [symmetric])

lemma is_digit_digit [simp]: "d < 10 \<Longrightarrow> is_digit (digit d)"
  by (simp add: is_digit_def code_digit)

lemma dec_loop_Cons:
  "dec_loop (Suc n) x (c # s) =
     (if is_digit c then (case dec_loop n (10 * x + (code c - 48)) s of (x, k, s) \<Rightarrow> (x, Suc k, s)) else (x, 0, c # s))"
  by (simp add: is_digit_def)

lemma dec_text_dec_loop:
  assumes "x < 256" "\<And>c s'. s = c # s' \<Longrightarrow> \<not> is_digit c"
  shows "dec_part (dec_text x @ s) = Some (x, s)"
proof -
  have stop: "dec_loop n y s = (y, 0, s)" for n y
    using assms(2) by (cases n; cases s) (auto simp: is_digit_def)
  have nz: "digit d \<noteq> CHR ''0''" if "0 < d" "d < 10" for d
    using that code_digit(1) [of d] code_def [of "CHR ''0''"] by auto
  consider "x < 10" | "10 \<le> x" "x < 100" | "100 \<le> x" by linarith
  then show ?thesis
  proof cases
    case 1
    then show ?thesis by (simp add: dec_part_def dec_text_def numeral_3_eq_3 dec_loop_Cons stop code_digit del: dec_loop.simps)
  next
    case 2
    then have "x div 10 < 10" "0 < x div 10" "x = 10 * (x div 10) + x mod 10" by auto
    then show ?thesis using 2 assms(1) nz [of "x div 10"]
      by (simp add: dec_part_def dec_text_def numeral_3_eq_3 dec_loop_Cons stop code_digit del: dec_loop.simps)
  next
    case 3
    have "x div 100 = x div 10 div 10" by (simp add: div_mult2_eq [symmetric])
    then have "100 * (x div 100) + (10 * (x div 10 mod 10) + x mod 10) = x"
      using mult_div_mod_eq [of 10 x] mult_div_mod_eq [of 10 "x div 10"] by linarith
    moreover have "x div 100 < 10" "0 < x div 100" using 3 assms(1) by (auto simp: less_mult_imp_div_less div_greater_zero_iff)
    ultimately show ?thesis using 3 assms(1) nz [of "x div 100"]
      by (simp add: dec_part_def dec_text_def numeral_3_eq_3 dec_loop_Cons stop code_digit del: dec_loop.simps)
  qed
qed


lemma digits3:
  assumes "j < 10" "k < 10" "x = 100 * i + (10 * j + k)"
  shows "x div 100 = i" "x div 10 mod 10 = j" "x mod 10 = (k :: nat)"
proof -
  have x: "x = k + 10 * (10 * i + j)" using assms(3) by simp
  have d: "x div 10 = j + 10 * i" unfolding x using assms(2) by simp
  then show "x div 10 mod 10 = j" using assms(1) by simp
  show "x mod 10 = k" unfolding x using assms(2) by (simp del: distrib_left_numeral)
  have "x div 100 = x div 10 div 10" by (simp add: div_mult2_eq [symmetric])
  then show "x div 100 = i" using d assms(1) by simp
qed

lemma dec_part_text: "dec_part s = Some (x, r) \<Longrightarrow> s = dec_text x @ r \<and> x < 256"
proof -
  assume a: "dec_part s = Some (x, r)"
  have num: "code c - 48 < 10" if "is_digit c" for c using that by (auto simp: is_digit_def)
  have lead: "0 < code c - 48" if "is_digit c" "c \<noteq> CHR ''0''" for c
    using that code_inj [of c "CHR ''0''"] by (auto simp: is_digit_def code_def [of "CHR ''0''"])
  consider c where "s = c # r" "is_digit c" "x = code c - 48"
    | c d where "s = c # d # r" "is_digit c" "is_digit d" "c \<noteq> CHR ''0''" "x = 10 * (code c - 48) + (code d - 48)"
    | c d e where "s = c # d # e # r" "is_digit c" "is_digit d" "is_digit e" "c \<noteq> CHR ''0''" "x < 256"
        "x = 100 * (code c - 48) + (10 * (code d - 48) + (code e - 48))"
    using a unfolding dec_part_def numeral_3_eq_3
    by (cases s; cases "tl s"; cases "tl (tl s)") (auto simp: dec_loop_Cons not_less simp del: dec_loop.simps(1) split: if_splits)
  then show ?thesis
  proof cases
    case 1
    then show ?thesis using num [of c] digit_code by (simp add: dec_text_def)
  next
    case 2
    then have "x div 10 = code c - 48" "x mod 10 = code d - 48" "10 \<le> x" "x < 100"
      using num [of c] num [of d] lead [of c] by auto
    then show ?thesis using 2(1-3) digit_code by (simp add: dec_text_def)
  next
    case 3
    note n = digits3 [OF num [OF 3(3)] num [OF 3(4)] 3(7)]
    have "100 \<le> x" using lead [OF 3(2, 5)] 3(7) by linarith
    then show ?thesis using 3(1-4, 6) digit_code by (simp add: dec_text_def n)
  qed
qed


section \<open>Addresses\<close>

lemma unat_u8: "unat x < 256" for x :: u8
proof -
  have "unat x < 2 ^ LENGTH(8)" by (rule unsigned_less)
  then show ?thesis by simp
qed

definition dotted :: "u8 \<Rightarrow> u8 \<Rightarrow> u8 \<Rightarrow> u8 \<Rightarrow> u32" where
  "dotted a b c d = push_bit 8 (push_bit 8 (push_bit 8 (ucast a) OR ucast b) OR ucast c) OR ucast d"

lemma and_255: "x AND 255 = ucast (ucast x :: u8)" for x :: u32
proof -
  have "x AND mask 8 = ucast (ucast x :: u8)"
    by (rule bit_word_eqI) (auto simp: bit_simps)
  then show ?thesis by (simp add: mask_eq_exp_minus_1)
qed

lemma dotted_octets:
  "ucast (drop_bit 24 (dotted a b c d)) = a" "ucast (drop_bit 16 (dotted a b c d)) = b"
  "ucast (drop_bit 8 (dotted a b c d)) = c" "ucast (dotted a b c d) = d"
  by (rule bit_word_eqI; auto simp: dotted_def bit_simps dest: bit_imp_le_length)+

lemma dotted_top: "drop_bit 24 (dotted a b c d) = ucast a"
  by (rule bit_word_eqI) (auto simp: dotted_def bit_simps dest: bit_imp_le_length)

lemma dotted_of: "dotted (ucast (drop_bit 24 v)) (ucast (drop_bit 16 v)) (ucast (drop_bit 8 v)) (ucast v) = v"
proof (rule bit_word_eqI)
  fix n assume "n < LENGTH(32)"
  then consider "n < 8" | "8 \<le> n" "n < 16" | "16 \<le> n" "n < 24" | "24 \<le> n" "n < 32" by fastforce
  then show "bit (dotted (ucast (drop_bit 24 v)) (ucast (drop_bit 16 v)) (ucast (drop_bit 8 v)) (ucast v)) n = bit v n"
    by cases (auto simp: dotted_def bit_simps)
qed

lemma text_dotted:
  "qed_ipv4_text (dotted a b c d) =
     dec_text (unat a) @ ''.'' @ dec_text (unat b) @ ''.'' @ dec_text (unat c) @ ''.'' @ dec_text (unat d)"
proof -
  have u: "unat (ucast x :: u32) = unat x" for x :: u8 using unat_u8 [of x] by (simp add: unsigned_ucast_eq take_bit_nat_eq_self)
  show ?thesis
    by (simp add: qed_ipv4_text_def octet_def and_255 dotted_octets dotted_top u)
qed

lemma not_digit: "\<not> is_digit (CHR ''.'')" "\<not> is_digit (CHR ''/'')"
  by (simp_all add: is_digit_def code_def)


lemma of_nat_unat_u8: "of_nat (unat b) = (ucast b :: u32)" for b :: u8
  by (rule unsigned_word_eqI) (simp add: unsigned_of_nat unsigned_ucast_eq)

lemma part_byte:
  assumes "dec_part s = Some (x, r)"
  obtains b :: u8 where "s = dec_text (unat b) @ r" "of_nat x = (ucast b :: u32)"
proof
  have x: "s = dec_text x @ r" "x < 256" using dec_part_text [OF assms] by auto
  have u: "unat (of_nat x :: u8) = x" using x(2) by (simp add: unsigned_of_nat take_bit_nat_eq_self)
  then show "s = dec_text (unat (of_nat x :: u8)) @ r" using x(1) by simp
  show "of_nat x = (ucast (of_nat x :: u8) :: u32)"
    using u of_nat_unat_u8 [of "of_nat x"] by simp
qed

lemma part_of_text: "(\<And>c s'. s = c # s' \<Longrightarrow> \<not> is_digit c) \<Longrightarrow> dec_part (dec_text (unat b) @ s) = Some (unat b, s)" for b :: u8
  by (rule dec_text_dec_loop [OF unat_u8])

lemma parse_dotted: "parse_ipv4 (qed_ipv4_text (dotted a b c d)) = Some (dotted a b c d)"
proof -
  have dot: "dec_part (dec_text (unat b) @ CHR ''.'' # s) = Some (unat b, CHR ''.'' # s)" for b :: u8 and s
    using part_of_text [of "CHR ''.'' # s" b] not_digit by simp
  have "parts_loop 3 v (CHR ''.'' # dec_text (unat b) @ CHR ''.'' # dec_text (unat c) @ CHR ''.'' # dec_text (unat d)) =
      Some (push_bit 8 (push_bit 8 (push_bit 8 v OR ucast b) OR ucast c) OR ucast d, [])" for v
    using part_of_text [of "[]" d] by (simp add: eval_nat_numeral dot of_nat_unat_u8 del: push_bit_of_Suc_0)
  then show ?thesis
    unfolding text_dotted by (simp add: parse_ipv4_def dot of_nat_unat_u8 dotted_def)
qed

lemma parse_only_text:
  assumes "parse_ipv4 s = Some v"
  shows "s = qed_ipv4_text v"
proof -
  obtain x0 s0 where 0: "dec_part s = Some (x0, s0)" "parts_loop 3 (of_nat x0) s0 = Some (v, [])"
    using assms by (auto simp: parse_ipv4_def split: option.splits list.splits)
  obtain t0 x1 s1 where 1: "s0 = CHR ''.'' # t0" "dec_part t0 = Some (x1, s1)"
      "parts_loop 2 (push_bit 8 (of_nat x0) OR of_nat x1) s1 = Some (v, [])"
    using 0(2) by (auto simp: eval_nat_numeral split: option.splits list.splits if_splits)
  obtain t1 x2 s2 where 2: "s1 = CHR ''.'' # t1" "dec_part t1 = Some (x2, s2)"
      "parts_loop 1 (push_bit 8 (push_bit 8 (of_nat x0) OR of_nat x1) OR of_nat x2) s2 = Some (v, [])"
    using 1(3) by (auto simp: eval_nat_numeral split: option.splits list.splits if_splits)
  obtain t2 x3 where 3: "s2 = CHR ''.'' # t2" "dec_part t2 = Some (x3, [])"
      "v = push_bit 8 (push_bit 8 (push_bit 8 (of_nat x0) OR of_nat x1) OR of_nat x2) OR of_nat x3"
    using 2(3) by (auto split: option.splits list.splits if_splits)
  obtain a :: u8 where a: "s = dec_text (unat a) @ s0" "of_nat x0 = (ucast a :: u32)" by (rule part_byte [OF 0(1)])
  obtain b :: u8 where b: "t0 = dec_text (unat b) @ s1" "of_nat x1 = (ucast b :: u32)" by (rule part_byte [OF 1(2)])
  obtain c :: u8 where c: "t1 = dec_text (unat c) @ s2" "of_nat x2 = (ucast c :: u32)" by (rule part_byte [OF 2(2)])
  obtain d :: u8 where d: "t2 = dec_text (unat d) @ []" "of_nat x3 = (ucast d :: u32)" by (rule part_byte [OF 3(2)])
  have "v = dotted a b c d" using 3(3) a(2) b(2) c(2) d(2) by (simp add: dotted_def)
  then show ?thesis using a(1) b(1) c(1) d(1) 1(1) 2(1) 3(1) by (simp add: text_dotted)
qed

section \<open>MAC addresses\<close>

lemma hexdigit_digit: "d < 16 \<Longrightarrow> hexdigit (digit d) = Some d"
  by (cases "d < 10") (simp_all add: hexdigit_def code_digit Let_def)

lemma hexdigit_less: "hexdigit c = Some d \<Longrightarrow> d < 16"
  by (auto simp: hexdigit_def Let_def split: if_splits)

lemma byte_text: "hexdigit (digit (unat b div 16)) = Some (unat b div 16)" "hexdigit (digit (unat b mod 16)) = Some (unat b mod 16)"
    "of_nat (16 * (unat b div 16) + unat b mod 16) = b" for b :: u8
  using unat_u8 [of b] by (auto intro!: hexdigit_digit)

lemma mac_loop_text: "mac_loop 5 (qed_mac_text [a, b, c, d, e, f]) = Some [a, b, c, d, e, f]"
proof -
  have five: "(5 :: nat) = Suc (Suc (Suc (Suc (Suc 0))))" by simp
  have pair: "mac_loop (Suc k) (digit (unat x div 16) # digit (unat x mod 16) # CHR '':'' # p) = map_option ((#) x) (mac_loop k p)"
    "mac_loop 0 [digit (unat x div 16), digit (unat x mod 16)] = Some [x]" for k p and x :: u8
    using byte_text [of x] by (simp_all add: Let_def del: of_nat_add of_nat_mult)
  show ?thesis unfolding five qed_mac_text_def hex2_text_def by (simp add: pair del: mac_loop.simps)
qed

lemma mac_loop_length: "mac_loop k p = Some m \<Longrightarrow> length m = Suc k"
  by (induction k p arbitrary: m rule: mac_loop.induct)
    (auto simp: Let_def split: option.splits nat.splits list.splits if_splits)

lemma mac_roundtrip:
  assumes "length m = 6"
  shows "mac_loop 5 (qed_mac_text m) = Some m"
proof -
  obtain a b c d e f where "m = [a, b, c, d, e, f]"
    using assms by (auto simp: eval_nat_numeral length_Suc_conv)
  then show ?thesis using mac_loop_text by simp
qed

section \<open>Prefixes\<close>

definition netmask :: "nat \<Rightarrow> u32" where
  "netmask n = push_bit (32 - n) 0xFFFFFFFF"

lemma bit_netmask: "n \<le> 32 \<Longrightarrow> k < 32 \<Longrightarrow> bit (netmask n) k \<longleftrightarrow> 32 - n \<le> k"
proof -
  assume "n \<le> 32" "k < 32"
  moreover have "(0xFFFFFFFF :: u32) = mask 32" by (simp add: mask_eq_exp_minus_1)
  ultimately show ?thesis
    by (simp only: netmask_def bit_push_bit_iff bit_mask_iff) (auto simp: possible_bit_def)
qed

lemma drop_one: "k < 32 \<Longrightarrow> drop_bit k (push_bit 31 1) = (push_bit (31 - k) 1 :: u32)"
  by (rule bit_word_eqI) (auto simp only: bit_drop_bit_eq bit_push_bit_iff bit_1_iff o_apply possible_bit_word, simp)

lemma top_bit: "k < 32 \<Longrightarrow> m AND drop_bit k 0x80000000 \<noteq> 0 \<longleftrightarrow> bit m (31 - k)" for m :: u32
proof -
  assume k: "k < 32"
  have "(0x80000000 :: u32) = push_bit 31 1" by simp
  then have "m AND drop_bit k 0x80000000 = m AND push_bit (31 - k) 1"
    by (simp only: drop_one [OF k])
  also have "\<dots> = (if bit m (31 - k) then push_bit (31 - k) 1 else 0)"
    by (rule bit_word_eqI) (auto simp: bit_simps)
  finally have "m AND drop_bit k 0x80000000 = (if bit m (31 - k) then push_bit (31 - k) 1 else 0)" .
  moreover have "push_bit (31 - k) (1 :: u32) \<noteq> 0" using bit_push_bit_iff [of "31 - k" "1 :: u32" "31 - k"] by (auto simp: bit_1_iff)
  ultimately show ?thesis by (simp only: split: if_split) simp
qed

lemma prefix_netmask: "n \<le> 32 \<Longrightarrow> qed_prefix_length (netmask n) = n"
proof -
  assume n: "n \<le> 32"
  have "k \<le> n \<Longrightarrow> prefix_loop k (netmask n) = n" for k
  proof (induction k "netmask n" rule: prefix_loop.induct)
    case (1 k)
    show ?case
    proof (cases "k = n")
      case True
      then have stop: "\<not> (k < 32 \<and> netmask n AND drop_bit k 0x80000000 \<noteq> 0)" using top_bit [of k "netmask n"] bit_netmask [OF n, of "31 - k"] by auto
      show ?thesis unfolding prefix_loop.simps [of k] if_not_P [OF stop] by (rule True)
    next
      case False
      then have more: "k < 32 \<and> netmask n AND drop_bit k 0x80000000 \<noteq> 0"
        using "1.prems" n top_bit [of k "netmask n"] bit_netmask [OF n, of "31 - k"] by auto
      show ?thesis unfolding prefix_loop.simps [of k] if_P [OF more] using 1 more False by simp
    qed
  qed
  then show ?thesis by (simp add: qed_prefix_length_def)
qed

section \<open>Quoting\<close>

definition quoted_char :: "char \<Rightarrow> string" where
  "quoted_char ch =
     (let c = code ch in
       if c = 0x22 \<or> c = 0x5C then [CHR 0x5C, ch]
       else if c = 9 \<or> c = 13 \<or> c = 10 then [CHR 0x5C, if c = 9 then CHR ''t'' else if c = 13 then CHR ''r'' else CHR ''n'']
       else if c < 0x20 \<or> c = 0x7F then [CHR 0x5C, CHR ''u'', CHR 0x7B] @ hex_text c @ [CHR 0x7D]
       else [ch])"

definition quoted :: "string \<Rightarrow> string" where
  "quoted s = CHR 0x22 # concat (map quoted_char s) @ [CHR 0x22]"

lemma put_take: "fold (put len) cs (take (len - 1) out) = take (len - 1) (out @ cs)"
proof (induction cs arbitrary: out)
  case (Cons c cs)
  have "put len c (take (len - 1) out) = take (len - 1) (out @ [c])" by (auto simp: put_def)
  then show ?case using Cons [of "out @ [c]"] by simp
qed simp

lemma put_quoted_fold: "put_quoted len c out = fold (put len) (quoted_char c) out"
  by (simp add: put_quoted_def quoted_char_def Let_def)

lemma fold_quoted: "fold (put_quoted len) s (take (len - 1) out) = take (len - 1) (out @ concat (map quoted_char s))"
proof (induction s arbitrary: out)
  case (Cons c s)
  have "put_quoted len c (take (len - 1) out) = take (len - 1) (out @ quoted_char c)"
    unfolding put_quoted_fold by (rule put_take)
  then show ?case using Cons [of "out @ quoted_char c"] by (simp only: fold_simps list.map concat.simps append_assoc)
qed simp

lemma debug_quoted_take: "debug_quoted s len = take (len - 1) (quoted s)"
proof -
  have 1: "put len (CHR 0x22) [] = take (len - 1) [CHR 0x22]" using put_take [of len "[CHR 0x22]" "[]"] by simp
  have 2: "put len c (take (len - 1) out) = take (len - 1) (out @ [c])" for c out using put_take [of len "[c]" out] by simp
  show ?thesis unfolding debug_quoted_def 1 fold_quoted 2 by (simp add: quoted_def)
qed

section \<open>The address flag\<close>

lemma is_digit_code: "is_digit c \<Longrightarrow> code c - 48 < 10"
  by (auto simp: is_digit_def)

text \<open>What makes a host's words: the flags accept exactly these.\<close>

definition host_address :: "u32 \<Rightarrow> nat \<Rightarrow> bool" where
  "host_address a n \<longleftrightarrow> 1 \<le> n \<and> n \<le> 30 \<and> not_a_host a (netmask n) = None"

lemma no_slash_dec: "x < 256 \<Longrightarrow> CHR ''/'' \<notin> set (dec_text x)"
proof -
  assume "x < 256"
  then have "\<forall>c \<in> set (dec_text x). is_digit c" by (auto simp: dec_text_def less_mult_imp_div_less)
  then show ?thesis using not_digit by blast
qed

lemma no_slash: "CHR ''/'' \<notin> set (qed_ipv4_text a)"
  using no_slash_dec unat_u8 by (subst dotted_of [of a, symmetric], subst text_dotted) auto

lemma parse_text: "parse_ipv4 (qed_ipv4_text a) = Some a"
  using parse_dotted [of "ucast (drop_bit 24 a)" "ucast (drop_bit 16 a)" "ucast (drop_bit 8 a)" "ucast a"] by (simp only: dotted_of)

lemma prefix_text:
  assumes "n < 100"
  shows "dec_text n \<noteq> []" "length (dec_text n) \<le> 2" "list_all is_digit (dec_text n)"
    "foldl (\<lambda>n c. 10 * n + (code c - 48)) 0 (dec_text n) = n"
  using assms by (auto simp: dec_text_def code_digit less_mult_imp_div_less)

lemma address_text:
  assumes "host_address a n"
  shows "qed_parse_ip_address (qed_ipv4_text a @ ''/'' @ dec_text n) = Inr (a, netmask n)"
proof -
  have n: "n < 100" "1 \<le> n" "n \<le> 30" "not_a_host a (netmask n) = None" using assms by (auto simp: host_address_def)
  have "takeWhile (\<lambda>c. c \<noteq> CHR ''/'') (qed_ipv4_text a @ ''/'' @ dec_text n) = qed_ipv4_text a"
    "dropWhile (\<lambda>c. c \<noteq> CHR ''/'') (qed_ipv4_text a @ ''/'' @ dec_text n) = CHR ''/'' # dec_text n"
    using no_slash [of a] by (auto simp: takeWhile_append dropWhile_append)
  then show ?thesis
    using prefix_text [OF n(1)] n(2-4) unfolding qed_parse_ip_address_def Let_def netmask_def by (simp add: parse_text)
qed

lemma address_accepted:
  assumes "qed_parse_ip_address arg = Inr (a, m)"
  shows "\<exists>n. host_address a n \<and> m = netmask n"
proof -
  define n where "n = foldl (\<lambda>n c. 10 * n + (code c - 48)) 0 (tl (dropWhile (\<lambda>c. c \<noteq> CHR ''/'') arg))"
  have "host_address a n \<and> m = netmask n"
    using assms unfolding qed_parse_ip_address_def Let_def n_def [symmetric] netmask_def [symmetric] host_address_def
    by (auto split: option.splits if_splits)
  then show ?thesis by blast
qed

section \<open>The three flags and their defaults\<close>

definition sound_host :: "qed_host \<Rightarrow> bool" where
  "sound_host h \<longleftrightarrow>
     length (h_mac h) = 6 \<and> \<not> bit (h_mac h ! 0) 0 \<and>
     host_address (h_address h) (qed_prefix_length (h_netmask h)) \<and>
     h_netmask h = netmask (qed_prefix_length (h_netmask h)) \<and>
     h_gateway h \<noteq> 0 \<and> h_gateway h \<noteq> h_address h \<and>
     h_gateway h AND h_netmask h = h_address h AND h_netmask h \<and>
     h_gateway h AND NOT (h_netmask h) \<noteq> 0 \<and> h_gateway h AND NOT (h_netmask h) \<noteq> NOT (h_netmask h)"

lemma default_sound: "sound_host qed_host_default"
proof -
  have "h_netmask qed_host_default = netmask 30" by (simp add: qed_host_default_def netmask_def)
  then show ?thesis
    using prefix_netmask [of 30]
    by (simp add: sound_host_def) (simp add: qed_host_default_def host_address_def not_a_host_def netmask_def Let_def)
qed

lemma mac_accepted: "qed_parse_mac arg = Inr m \<Longrightarrow> length m = 6 \<and> \<not> bit (m ! 0) 0"
  using mac_loop_length [of 5 arg] by (auto simp: qed_parse_mac_def split: option.splits if_splits)

lemma flags_sound:
  assumes "host_of_flags mac address gateway = Inr h"
  shows "sound_host h"
proof -
  have d: "length (h_mac qed_host_default) = 6 \<and> \<not> bit (h_mac qed_host_default ! 0) 0"
    "\<exists>n. host_address (h_address qed_host_default) n \<and> h_netmask qed_host_default = netmask n"
    using default_sound by (auto simp: sound_host_def)
  have m: "length (h_mac h) = 6 \<and> \<not> bit (h_mac h ! 0) 0"
    using assms d(1) unfolding host_of_flags_def Let_def
    by (auto dest: mac_accepted split: sum.splits option.splits prod.splits)
  obtain n where n: "host_address (h_address h) n" "h_netmask h = netmask n"
    using assms d(2) unfolding host_of_flags_def Let_def
    by (auto dest!: address_accepted split: sum.splits option.splits prod.splits)
  have g: "qed_check_gateway (h_address h) (h_netmask h) (h_gateway h) (gateway = None) = None"
    using assms unfolding host_of_flags_def Let_def by (auto split: sum.splits option.splits prod.splits)
  have "qed_prefix_length (netmask n) = n" using n(1) by (intro prefix_netmask) (simp add: host_address_def)
  then show ?thesis
    using m n g by (auto simp: sound_host_def qed_check_gateway_def split: if_splits)
qed

lemma sound_flags:
  assumes "sound_host h"
  shows "host_of_flags (Some (qed_mac_text (h_mac h)))
    (Some (qed_ipv4_text (h_address h) @ ''/'' @ dec_text (qed_prefix_length (h_netmask h)))) (Some (qed_ipv4_text (h_gateway h))) = Inr h"
proof -
  have "qed_parse_mac (qed_mac_text (h_mac h)) = Inr (h_mac h)"
    using assms by (simp add: sound_host_def qed_parse_mac_def mac_roundtrip)
  moreover have "qed_parse_ip_address (qed_ipv4_text (h_address h) @ ''/'' @ dec_text (qed_prefix_length (h_netmask h))) =
      Inr (h_address h, h_netmask h)"
    using assms address_text by (simp add: sound_host_def)
  moreover have "qed_parse_ip_gateway (qed_ipv4_text (h_gateway h)) = Inr (h_gateway h)"
    by (simp add: qed_parse_ip_gateway_def parse_text)
  moreover have "qed_check_gateway (h_address h) (h_netmask h) (h_gateway h) False = None"
    using assms by (auto simp: sound_host_def qed_check_gateway_def)
  ultimately show ?thesis by (simp add: host_of_flags_def)
qed

section \<open>Properties\<close>

text \<open>
  An IPv4 address is parsed of exactly one text, the one it is printed as: four decimal parts
  of at most three digits with no leading zero, by dots, and nothing else.\<close>

theorem parse_ipv4_exact: "parse_ipv4 s = Some a \<longleftrightarrow> s = qed_ipv4_text a"
  using parse_text parse_only_text by auto



text \<open>
  C29. The texts the program says its host in are its flags: given back as flags, they are
  accepted and make the same host.\<close>

theorem host_flags_roundtrip:
  assumes "host_of_flags mac address gateway = Inr h"
  shows "host_of_flags (Some (qed_mac_text (h_mac h)))
    (Some (qed_ipv4_text (h_address h) @ ''/'' @ dec_text (qed_prefix_length (h_netmask h)))) (Some (qed_ipv4_text (h_gateway h))) = Inr h"
  by (rule sound_flags [OF flags_sound [OF assms]])

theorem host_flags_roundtrip_witness:
  "\<exists>h. host_of_flags None (Some ''10.0.7.200/16'') (Some ''10.0.0.9'') = Inr h \<and>
    host_of_flags (Some (qed_mac_text (h_mac h)))
      (Some (qed_ipv4_text (h_address h) @ ''/'' @ dec_text (qed_prefix_length (h_netmask h)))) (Some (qed_ipv4_text (h_gateway h))) = Inr h"
proof -
  have "\<not> isl (host_of_flags None (Some ''10.0.7.200/16'') (Some ''10.0.0.9''))" by code_simp
  then obtain h where "host_of_flags None (Some ''10.0.7.200/16'') (Some ''10.0.0.9'') = Inr h"
    by (auto simp: isl_def) (metis sum.exhaust)
  from host_flags_roundtrip [OF this] this show ?thesis by blast
qed

text \<open>
  A refusal quotes its argument in bounds: the characters put are those of the argument
  quoted in full, cut to one less than the buffer, so the 0 that ends them is inside it.\<close>

theorem debug_quoted_bounded: "debug_quoted s len = take (len - 1) (quoted s) \<and> length (debug_quoted s len) \<le> len - 1"
  using debug_quoted_take by simp

end
