(* ===== verification/Qed_Mem.thy ===== *)
theory Qed_Mem
  imports Prelude
begin

text \<open>
  \<^verbatim>\<open>qed_mem.c\<close>: QUUX's main memory as the Ethernet device reaches it, packed five bytes to a
  word in an uncached mapping where every access must be naturally aligned.  The memory is its
  list of bytes.  The three loops that \<^verbatim>\<open>packed_load\<close> and \<^verbatim>\<open>packed_store\<close> share are one
  definition, the run of accesses they make, each an offset and a width; the hook the tests
  set is left out.
\<close>

unbundle bit_operations_syntax

abbreviation (input) PACK_RUN :: nat where "PACK_RUN \<equiv> 64"
abbreviation (input) QED_TAG_FIXNUM :: u8 where "QED_TAG_FIXNUM \<equiv> 5"

section \<open>The accesses\<close>

function run_head :: "nat \<Rightarrow> nat \<Rightarrow> (nat \<times> nat) list \<times> nat" where
  "run_head i hi =
     (if i < hi \<and> i mod 4 \<noteq> 0 then (case run_head (i + 1) hi of (r, j) \<Rightarrow> ((i, 1) # r, j)) else ([], i))"
  by auto
termination by (relation "measure (\<lambda>(i, hi). hi - i)") auto

function run_words :: "nat \<Rightarrow> nat \<Rightarrow> (nat \<times> nat) list \<times> nat" where
  "run_words i hi =
     (if i + 4 \<le> hi then (case run_words (i + 4) hi of (r, j) \<Rightarrow> ((i, 4) # r, j)) else ([], i))"
  by auto
termination by (relation "measure (\<lambda>(i, hi). hi - i)") auto

function run_tail :: "nat \<Rightarrow> nat \<Rightarrow> (nat \<times> nat) list" where
  "run_tail i hi = (if i < hi then (i, 1) # run_tail (i + 1) hi else [])"
  by auto
termination by (relation "measure (\<lambda>(i, hi). hi - i)") auto

declare run_head.simps [simp del] run_words.simps [simp del] run_tail.simps [simp del]

definition packed_run :: "nat \<Rightarrow> nat \<Rightarrow> (nat \<times> nat) list" where
  "packed_run lo hi =
     (let (x, i) = run_head lo hi; (y, i) = run_words i hi in x @ y @ run_tail i hi)"

text \<open>An access of a width, as bytes: a 32-bit word is read and taken apart, or put together and written.\<close>

definition load_access :: "u8 list \<Rightarrow> nat \<times> nat \<Rightarrow> u8 list" where
  "load_access b a =
     (case a of (i, w) \<Rightarrow>
        if w = 1 then [b ! i]
        else bytes_of_word (le32 (b ! i) (b ! (i + 1)) (b ! (i + 2)) (b ! (i + 3))))"

definition store_access :: "u8 list \<Rightarrow> nat \<times> nat \<Rightarrow> u8 list \<Rightarrow> u8 list" where
  "store_access b a img =
     (case a of (i, w) \<Rightarrow>
        if w = 1 then b[i := img ! 0]
        else let v = le32 (img ! 0) (img ! 1) (img ! 2) (img ! 3)
             in b[i := byte_of 0 v, i + 1 := byte_of 1 v, i + 2 := byte_of 2 v, i + 3 := byte_of 3 v])"

definition packed_load :: "u8 list \<Rightarrow> nat \<Rightarrow> nat \<Rightarrow> u8 list" where
  "packed_load b lo hi = concat (map (load_access b) (packed_run lo hi))"

fun store_run :: "u8 list \<Rightarrow> (nat \<times> nat) list \<Rightarrow> u8 list \<Rightarrow> u8 list" where
  "store_run b [] img = b"
| "store_run b (a # r) img = store_run (store_access b a img) r (drop (snd a) img)"

definition packed_store :: "u8 list \<Rightarrow> nat \<Rightarrow> nat \<Rightarrow> u8 list \<Rightarrow> u8 list" where
  "packed_store b lo hi img = store_run b (packed_run lo hi) img"

section \<open>Words\<close>

definition unpack_words :: "nat \<Rightarrow> u8 list \<Rightarrow> u32 list" where
  "unpack_words c img =
     map (\<lambda>i. le32 (img ! (5 * i)) (img ! (5 * i + 1)) (img ! (5 * i + 2)) (img ! (5 * i + 3))) [0..<c]"

definition pack_words :: "u32 list \<Rightarrow> u8 list" where
  "pack_words ws = concat (map (\<lambda>w. bytes_of_word w @ [QED_TAG_FIXNUM]) ws)"

function qed_mem_read :: "u8 list \<Rightarrow> nat \<Rightarrow> nat \<Rightarrow> u32 list" where
  "qed_mem_read b k n =
     (if n = 0 then []
      else let c = (if n < PACK_RUN then n else PACK_RUN)
           in unpack_words c (packed_load b (5 * k) (5 * (k + c))) @ qed_mem_read b (k + c) (n - c))"
  by auto
termination by (relation "measure (\<lambda>(b, k, n). n)") auto

function qed_mem_write :: "u8 list \<Rightarrow> nat \<Rightarrow> u32 list \<Rightarrow> u8 list" where
  "qed_mem_write b k ws =
     (if ws = [] then b
      else let c = (if length ws < PACK_RUN then length ws else PACK_RUN)
           in qed_mem_write (packed_store b (5 * k) (5 * (k + c)) (pack_words (take c ws))) (k + c) (drop c ws))"
  by auto
termination by (relation "measure (\<lambda>(b, k, ws). length ws)") auto

declare qed_mem_read.simps [simp del] qed_mem_write.simps [simp del]

section \<open>The accesses tile the run\<close>

text \<open>A run from \<open>i\<close> to \<open>j\<close>: one access after the other, each aligned to its own width.\<close>

fun tiles :: "nat \<Rightarrow> (nat \<times> nat) list \<Rightarrow> nat \<Rightarrow> bool" where
  "tiles i [] j \<longleftrightarrow> i = j"
| "tiles i ((o', w) # r) j \<longleftrightarrow> o' = i \<and> (w = 1 \<or> w = 4) \<and> i mod w = 0 \<and> tiles (i + w) r j"

lemma tiles_append: "tiles i (r @ s) j \<longleftrightarrow> (\<exists>m. tiles i r m \<and> tiles m s j)"
  by (induction i r j rule: tiles.induct) auto

lemma tiles_le: "tiles i r j \<Longrightarrow> i \<le> j"
  by (induction i r j rule: tiles.induct) auto

lemma run_head_tiles: "run_head i hi = (r, j) \<Longrightarrow> i \<le> hi \<Longrightarrow> tiles i r j \<and> j \<le> hi \<and> (j = hi \<or> j mod 4 = 0)"
proof (induction i hi arbitrary: r rule: run_head.induct)
  case (1 i hi)
  show ?case
  proof (cases "i < hi \<and> i mod 4 \<noteq> 0")
    case True
    then obtain r' where "run_head (i + 1) hi = (r', j)" "r = (i, 1) # r'"
      using 1(2) by (subst (asm) run_head.simps) (auto split: prod.splits)
    with True 1(1) show ?thesis by auto
  next
    case False
    with 1(2,3) show ?thesis by (subst (asm) run_head.simps) auto
  qed
qed

lemma run_words_tiles: "run_words i hi = (r, j) \<Longrightarrow> i mod 4 = 0 \<or> i = hi \<Longrightarrow> i \<le> hi \<Longrightarrow> tiles i r j \<and> j \<le> hi"
proof (induction i hi arbitrary: r rule: run_words.induct)
  case (1 i hi)
  show ?case
  proof (cases "i + 4 \<le> hi")
    case True
    then obtain r' where r: "run_words (i + 4) hi = (r', j)" "r = (i, 4) # r'"
      using 1(2) by (subst (asm) run_words.simps) (auto split: prod.splits)
    moreover have "i mod 4 = 0" using True 1(3) by auto
    ultimately show ?thesis using True 1(1) [OF True r(1)] by auto
  next
    case False
    with 1(2,4) show ?thesis by (subst (asm) run_words.simps) auto
  qed
qed

lemma run_tail_tiles: "i \<le> hi \<Longrightarrow> tiles i (run_tail i hi) hi"
  by (induction i hi rule: run_tail.induct) (subst run_tail.simps, auto)

lemma packed_run_tiles: "lo \<le> hi \<Longrightarrow> tiles lo (packed_run lo hi) hi"
proof -
  assume "lo \<le> hi"
  obtain x i where h: "run_head lo hi = (x, i)" by (cases "run_head lo hi")
  obtain y j where w: "run_words i hi = (y, j)" by (cases "run_words i hi")
  from run_head_tiles [OF h \<open>lo \<le> hi\<close>] have "tiles lo x i" "i \<le> hi" "i = hi \<or> i mod 4 = 0" by auto
  moreover from run_words_tiles [OF w] calculation have "tiles i y j" "j \<le> hi" by auto
  ultimately show ?thesis
    using run_tail_tiles [of j hi] by (auto simp: packed_run_def h w tiles_append)
qed

lemma bytes_of_le32: "bytes_of_word (le32 a b c d) = [a, b, c, d]"
  by (simp add: bytes_of_word_expand)

lemma tiles_load:
  "tiles i r j \<Longrightarrow> j \<le> length b \<Longrightarrow> concat (map (load_access b) r) = take (j - i) (drop i b)"
proof (induction i r j rule: tiles.induct)
  case (2 i o' w r j)
  then have t: "o' = i" "w = 1 \<or> w = 4" "tiles (i + w) r j" by auto
  have le: "i + w \<le> j" using tiles_le [OF t(3)] .
  have a: "load_access b (i, w) = take w (drop i b)"
    using t(2) le 2(3)
    by (auto simp: load_access_def bytes_of_le32 take_Suc_conv_app_nth numeral_eq_Suc list_eq_iff_nth_eq less_Suc_eq)
  have "take (j - i) (drop i b) = take w (drop i b) @ take (j - (i + w)) (drop (i + w) b)"
  proof -
    have "j - i = w + (j - (i + w))" using le by simp
    then have "take (j - i) (drop i b) = take w (drop i b) @ take (j - (i + w)) (drop w (drop i b))"
      by (metis take_add)
    then show ?thesis by (simp add: add.commute)
  qed
  with 2 t a show ?case by simp
qed simp

lemma packed_load_eq: "lo \<le> hi \<Longrightarrow> hi \<le> length b \<Longrightarrow> packed_load b lo hi = take (hi - lo) (drop lo b)"
  using tiles_load [OF packed_run_tiles] by (simp add: packed_load_def)

lemma store_access_nth:
  assumes "w = 1 \<or> w = 4" and "i + w \<le> length b" and "m < length b"
  shows "store_access b (i, w) img ! m = (if i \<le> m \<and> m < i + w then img ! (m - i) else b ! m)"
proof (cases "w = 1")
  case False
  then have w: "w = 4" using assms(1) by simp
  consider "m = i" | "m = i + 1" | "m = i + 2" | "m = i + 3" | "m < i \<or> i + 4 \<le> m" by linarith
  then show ?thesis
    using assms(2,3) by cases (auto simp: store_access_def w nth_list_update)
qed (use assms in \<open>auto simp: store_access_def nth_list_update\<close>)

lemma length_store_run [simp]: "length (store_run b r img) = length b"
proof (induction b r img rule: store_run.induct)
  case (2 b a r img)
  then show ?case by (cases a) (simp add: store_access_def Let_def)
qed simp

lemma tiles_store:
  "tiles i r j \<Longrightarrow> j \<le> length b \<Longrightarrow> j - i \<le> length img \<Longrightarrow> m < length b \<Longrightarrow>
     store_run b r img ! m = (if i \<le> m \<and> m < j then img ! (m - i) else b ! m)"
proof (induction i r j arbitrary: b img rule: tiles.induct)
  case (2 i o' w r j)
  then have t: "o' = i" "w = 1 \<or> w = 4" "tiles (i + w) r j" by auto
  have le: "i + w \<le> j" using tiles_le [OF t(3)] .
  let ?b = "store_access b (i, w) img"
  have len: "length ?b = length b" by (simp add: store_access_def Let_def)
  have ih: "store_run ?b r (drop w img) ! m = (if i + w \<le> m \<and> m < j then drop w img ! (m - (i + w)) else ?b ! m)"
    using 2(3-5) t le len by (intro 2(1)) auto
  have "?b ! m = (if i \<le> m \<and> m < i + w then img ! (m - i) else b ! m)"
    using t(2) le 2(3,5) by (intro store_access_nth) auto
  then show ?case using ih le t 2(4) by auto
qed auto

lemma packed_store_nth:
  "lo \<le> hi \<Longrightarrow> hi \<le> length b \<Longrightarrow> hi - lo \<le> length img \<Longrightarrow> m < length b \<Longrightarrow>
     packed_store b lo hi img ! m = (if lo \<le> m \<and> m < hi then img ! (m - lo) else b ! m)"
  unfolding packed_store_def by (rule tiles_store [OF packed_run_tiles])

lemma length_packed_store [simp]: "length (packed_store b lo hi img) = length b"
  by (simp add: packed_store_def)

section \<open>Words of packed storage\<close>

text \<open>The reference: word \<open>k\<close> is the five bytes at \<open>5 k\<close>, the field low byte first and the tag last.\<close>

definition fld :: "u8 list \<Rightarrow> nat \<Rightarrow> u32" where
  "fld b k = le32 (b ! (5 * k)) (b ! (5 * k + 1)) (b ! (5 * k + 2)) (b ! (5 * k + 3))"

definition tag_of :: "u8 list \<Rightarrow> nat \<Rightarrow> u8" where
  "tag_of b k = b ! (5 * k + 4)"

lemma length_pack_words [simp]: "length (pack_words ws) = 5 * length ws"
  by (induction ws) (simp_all add: pack_words_def)

lemma pack_words_append: "pack_words (xs @ ys) = pack_words xs @ pack_words ys"
  by (simp add: pack_words_def)

lemma pack_words_nth:
  "i < length ws \<Longrightarrow> j < 5 \<Longrightarrow> pack_words ws ! (5 * i + j) = (bytes_of_word (ws ! i) @ [QED_TAG_FIXNUM]) ! j"
proof (induction ws arbitrary: i)
  case (Cons w ws)
  have c: "pack_words (w # ws) = (bytes_of_word w @ [QED_TAG_FIXNUM]) @ pack_words ws" by (simp add: pack_words_def)
  show ?case
  proof (cases i)
    case 0
    then show ?thesis using Cons.prems unfolding c by (simp add: nth_append)
  next
    case (Suc i')
    have "pack_words (w # ws) ! (5 * i + j) = pack_words ws ! (5 * i' + j)"
      unfolding c Suc by (subst nth_append) simp
    then show ?thesis using Cons Suc by simp
  qed
qed simp

lemma qed_mem_read_eq: "5 * (k + n) \<le> length b \<Longrightarrow> qed_mem_read b k n = map (fld b) [k..<k + n]"
proof (induction b k n rule: qed_mem_read.induct)
  case (1 b k n)
  show ?case
  proof (cases "n = 0")
    case False
    define c where "c = (if n < 64 then n else 64)"
    have c: "0 < c" "c \<le> n" using False by (auto simp: c_def)
    have "unpack_words c (packed_load b (5 * k) (5 * (k + c))) = map (fld b) [k..<k + c]"
      using 1(2) c by (simp add: packed_load_eq unpack_words_def fld_def list_eq_iff_nth_eq add.assoc)
    moreover have "qed_mem_read b (k + c) (n - c) = map (fld b) [k + c..<k + n]"
      using 1(1) [OF False c_def] 1(2) c by simp
    moreover have "[k..<k + n] = [k..<k + c] @ [k + c..<k + n]"
      using c upt_add_eq_append [of k "k + c" "n - c"] by simp
    ultimately show ?thesis
      using False by (subst qed_mem_read.simps) (simp add: Let_def flip: c_def)
  qed (simp add: qed_mem_read.simps)
qed

lemma length_qed_mem_write [simp]: "length (qed_mem_write b k ws) = length b"
proof (induction b k ws rule: qed_mem_write.induct)
  case (1 b k ws)
  then show ?case by (subst qed_mem_write.simps) (simp add: Let_def)
qed

lemma qed_mem_write_nth:
  "5 * (k + length ws) \<le> length b \<Longrightarrow> m < length b \<Longrightarrow>
     qed_mem_write b k ws ! m = (if 5 * k \<le> m \<and> m < 5 * (k + length ws) then pack_words ws ! (m - 5 * k) else b ! m)"
proof (induction b k ws rule: qed_mem_write.induct)
  case (1 b k ws)
  show ?case
  proof (cases "ws = []")
    case False
    define c where "c = (if length ws < 64 then length ws else 64)"
    have c: "0 < c" "c \<le> length ws" using False by (auto simp: c_def)
    let ?b = "packed_store b (5 * k) (5 * (k + c)) (pack_words (take c ws))"
    have p: "pack_words ws = pack_words (take c ws) @ pack_words (drop c ws)"
      using pack_words_append [of "take c ws" "drop c ws"] by simp
    have b: "?b ! m = (if 5 * k \<le> m \<and> m < 5 * (k + c) then pack_words (take c ws) ! (m - 5 * k) else b ! m)"
      using 1(2,3) c by (intro packed_store_nth) auto
    have "qed_mem_write ?b (k + c) (drop c ws) ! m =
        (if 5 * (k + c) \<le> m \<and> m < 5 * (k + length ws) then pack_words (drop c ws) ! (m - 5 * (k + c)) else ?b ! m)"
      using 1(1) [OF False c_def] 1(2,3) c by simp
    moreover have "qed_mem_write b k ws = qed_mem_write ?b (k + c) (drop c ws)"
      using False by (subst qed_mem_write.simps) (simp add: Let_def flip: c_def)
    moreover have "pack_words ws ! (m - 5 * k) =
        (if m < 5 * (k + c) then pack_words (take c ws) ! (m - 5 * k) else pack_words (drop c ws) ! (m - 5 * (k + c)))"
      if "5 * k \<le> m"
      unfolding p nth_append using c that by (simp add: min_absorb2 less_diff_conv2 diff_diff_left algebra_simps)
    moreover have "5 * (k + c) \<le> 5 * (k + length ws)" using c by simp
    ultimately show ?thesis using b by (simp split: if_splits)
  qed (use 1(3) in \<open>auto simp: qed_mem_write.simps\<close>)
qed

lemma fld_write:
  assumes "5 * (k + length ws) \<le> length b" and "5 * j + 5 \<le> length b"
  shows "fld (qed_mem_write b k ws) j = (if k \<le> j \<and> j < k + length ws then ws ! (j - k) else fld b j)"
    and "tag_of (qed_mem_write b k ws) j = (if k \<le> j \<and> j < k + length ws then QED_TAG_FIXNUM else tag_of b j)"
proof -
  have n: "qed_mem_write b k ws ! (5 * j + i) =
      (if k \<le> j \<and> j < k + length ws then (bytes_of_word (ws ! (j - k)) @ [QED_TAG_FIXNUM]) ! i else b ! (5 * j + i))"
    if "i < 5" for i
  proof -
    have c: "5 * k \<le> 5 * j + i \<and> 5 * j + i < 5 * (k + length ws) \<longleftrightarrow> k \<le> j \<and> j < k + length ws"
      using that by presburger
    have "5 * j + i - 5 * k = 5 * (j - k) + i" if "k \<le> j" using that by simp
    then show ?thesis
      using qed_mem_write_nth [OF assms(1), of "5 * j + i"] assms(2) that c pack_words_nth [of "j - k" ws i] by auto
  qed
  note n [of 0, simplified] n [of 1, simplified] n [of 2, simplified] n [of 3, simplified] n [of 4, simplified]
  then show "fld (qed_mem_write b k ws) j = (if k \<le> j \<and> j < k + length ws then ws ! (j - k) else fld b j)"
    "tag_of (qed_mem_write b k ws) j = (if k \<le> j \<and> j < k + length ws then QED_TAG_FIXNUM else tag_of b j)"
    by (simp_all add: fld_def tag_of_def bytes_of_word_expand)
qed

section \<open>The memory as its clients see it\<close>

locale word_memory =
  fixes size :: "'m \<Rightarrow> nat" and val :: "'m \<Rightarrow> nat \<Rightarrow> u32" and rd :: "'m \<Rightarrow> nat \<Rightarrow> nat \<Rightarrow> u32 list"
    and wr :: "'m \<Rightarrow> nat \<Rightarrow> u32 list \<Rightarrow> 'm"
  assumes rd_val: "k + n \<le> size m \<Longrightarrow> rd m k n = map (val m) [k..<k + n]"
    and wr_size: "size (wr m k ws) = size m"
    and wr_val: "k + length ws \<le> size m \<Longrightarrow> j < size m \<Longrightarrow>
      val (wr m k ws) j = (if k \<le> j \<and> j < k + length ws then ws ! (j - k) else val m j)"
begin

lemma rd_wr_same: "k + length ws \<le> size m \<Longrightarrow> rd (wr m k ws) k (length ws) = ws"
proof -
  assume a: "k + length ws \<le> size m"
  have "rd (wr m k ws) k (length ws) = map (val (wr m k ws)) [k..<k + length ws]"
    using a by (intro rd_val) (simp add: wr_size)
  also have "\<dots> = ws"
  proof (rule nth_equalityI)
    fix i assume "i < length (map (val (wr m k ws)) [k..<k + length ws])"
    then have i: "i < length ws" by simp
    then have "val (wr m k ws) (k + i) = ws ! i" using a wr_val [of k ws m "k + i"] by simp
    with i show "map (val (wr m k ws)) [k..<k + length ws] ! i = ws ! i" by simp
  qed simp
  finally show ?thesis .
qed

lemma rd_wr_apart:
  "k + length ws \<le> size m \<Longrightarrow> j + n \<le> size m \<Longrightarrow> j + n \<le> k \<or> k + length ws \<le> j \<Longrightarrow> rd (wr m k ws) j n = rd m j n"
proof -
  assume a: "k + length ws \<le> size m" "j + n \<le> size m" "j + n \<le> k \<or> k + length ws \<le> j"
  have "val (wr m k ws) i = val m i" if "i \<in> set [j..<j + n]" for i
    using a that by (subst wr_val) auto
  then have "map (val (wr m k ws)) [j..<j + n] = map (val m) [j..<j + n]" by (rule map_cong [OF refl])
  then show ?thesis using a by (simp add: rd_val wr_size)
qed

end

definition mem_words :: "u8 list \<Rightarrow> nat" where
  "mem_words b = length b div 5"

interpretation packed: word_memory mem_words fld qed_mem_read qed_mem_write
proof
  fix b :: "u8 list" and k n assume "k + n \<le> mem_words b"
  then have "5 * (k + n) \<le> length b" by (simp add: mem_words_def less_eq_div_iff_mult_less_eq)
  then show "qed_mem_read b k n = map (fld b) [k..<k + n]" by (rule qed_mem_read_eq)
next
  fix b :: "u8 list" and k j and ws :: "u32 list" assume "k + length ws \<le> mem_words b" "j < mem_words b"
  then have "5 * (k + length ws) \<le> length b" "5 * j + 5 \<le> length b"
    by (auto simp: mem_words_def less_eq_div_iff_mult_less_eq)
  from fld_write(1) [OF this]
  show "fld (qed_mem_write b k ws) j = (if k \<le> j \<and> j < k + length ws then ws ! (j - k) else fld b j)" .
qed (simp add: mem_words_def)

section \<open>Properties\<close>

text \<open>
  C14. Packed storage is word storage: writing words, in runs of 64, byte and 32-bit accesses
  mixed, changes exactly the five bytes of each word written, its field to what was written and
  its tag to a fixnum's, and reading them back gives what was written.\<close>

theorem packed_write_read:
  assumes "5 * (k + length ws) \<le> length b"
  shows "qed_mem_read (qed_mem_write b k ws) k (length ws) = ws \<and>
    length (qed_mem_write b k ws) = length b \<and>
    (\<forall>j. k \<le> j \<and> j < k + length ws \<longrightarrow> tag_of (qed_mem_write b k ws) j = QED_TAG_FIXNUM) \<and>
    take (5 * k) (qed_mem_write b k ws) = take (5 * k) b \<and>
    drop (5 * (k + length ws)) (qed_mem_write b k ws) = drop (5 * (k + length ws)) b"
proof -
  have "k + length ws \<le> mem_words b" using assms by (simp add: mem_words_def less_eq_div_iff_mult_less_eq)
  note r = packed.rd_wr_same [OF this]
  have t: "tag_of (qed_mem_write b k ws) j = QED_TAG_FIXNUM" if "k \<le> j" "j < k + length ws" for j
    using fld_write(2) [OF assms, of j] that assms by simp
  have "take (5 * k) (qed_mem_write b k ws) = take (5 * k) b"
    "drop (5 * (k + length ws)) (qed_mem_write b k ws) = drop (5 * (k + length ws)) b"
    using assms by (auto simp: list_eq_iff_nth_eq qed_mem_write_nth)
  with r t show ?thesis by simp
qed

theorem packed_write_read_witness: "qed_mem_read (qed_mem_write (replicate 100 0) 3 [7, 8, 9]) 3 (length [7, 8, 9 :: u32]) = [7, 8, 9]"
  using packed_write_read [of 3 "[7, 8, 9]" "replicate 100 0"] by simp

text \<open>
  Every access to the mapping is naturally aligned, is of one byte or four, stays inside
  the run, and the run is covered byte by byte in order, none twice.\<close>

theorem packed_accesses_aligned:
  assumes "lo \<le> hi"
  shows "concat (map (\<lambda>(i, w). [i..<i + w]) (packed_run lo hi)) = [lo..<hi] \<and>
    (\<forall>(i, w) \<in> set (packed_run lo hi). (w = 1 \<or> w = 4) \<and> i mod w = 0 \<and> lo \<le> i \<and> i + w \<le> hi)"
proof -
  have "tiles i r j \<Longrightarrow> concat (map (\<lambda>(i, w). [i..<i + w]) r) = [i..<j] \<and>
      (\<forall>(o', w) \<in> set r. (w = 1 \<or> w = 4) \<and> o' mod w = 0 \<and> i \<le> o' \<and> o' + w \<le> j)" for i r j
  proof (induction i r j rule: tiles.induct)
    case (2 i o' w r j)
    then have t: "o' = i" "w = 1 \<or> w = 4" "i mod w = 0" "tiles (i + w) r j" by auto
    have "i + w \<le> j" using tiles_le [OF t(4)] .
    then have "[i..<j] = [i..<i + w] @ [i + w..<j]" using upt_add_eq_append [of i "i + w" "j - (i + w)"] by simp
    with 2(1) [OF t(4)] t \<open>i + w \<le> j\<close> show ?case by fastforce
  qed simp
  from this [OF packed_run_tiles [OF assms]] show ?thesis .
qed

theorem packed_accesses_aligned_witness: "concat (map (\<lambda>(i, w). [i..<i + w]) (packed_run 5 15)) = [5..<15]"
  using packed_accesses_aligned [of 5 15] by simp

end
