(* ===== verification/Qed_Face.thy ===== *)
theory Qed_Face
  imports Qed_Mem Qed_Host
begin

text \<open>
  \<^verbatim>\<open>qed_face.h\<close> and \<^verbatim>\<open>qed_face_fabric.c\<close>: the Ethernet device's page and the face over it.  What
  is behind the page is a record of functions over a state of its own: the registers by byte
  offset, the barrier, and main memory by words, so that the fabric, the machine that shares
  the memory and the order of everything are in that state.
\<close>

unbundle bit_operations_syntax

section \<open>The page\<close>

record 'h page =
  pg_rd :: "'h \<Rightarrow> nat \<Rightarrow> u32 \<times> 'h"
  pg_wr :: "'h \<Rightarrow> nat \<Rightarrow> u32 \<Rightarrow> 'h"
  pg_barrier :: "'h \<Rightarrow> 'h"
  pg_load :: "'h \<Rightarrow> nat \<Rightarrow> nat \<Rightarrow> u32 list \<times> 'h"
  pg_store :: "'h \<Rightarrow> nat \<Rightarrow> u32 list \<Rightarrow> 'h"

abbreviation (input) QED_IDENT_16 :: u32 where "QED_IDENT_16 \<equiv> 0x51453136"
abbreviation (input) QED_MAX_MEM_WORDS :: u32 where "QED_MAX_MEM_WORDS \<equiv> 67108864"
abbreviation (input) QED_ADDRESS :: u32 where "QED_ADDRESS \<equiv> 0x0FFFFFFF"
abbreviation (input) QED_LINE :: u32 where "QED_LINE \<equiv> 7"
abbreviation (input) QED_COUNTS_MASK :: u32 where "QED_COUNTS_MASK \<equiv> 0xFFFFFEF0"
abbreviation (input) OFF_IDENT :: nat where "OFF_IDENT \<equiv> 0x000"
abbreviation (input) OFF_MEM_WORDS :: nat where "OFF_MEM_WORDS \<equiv> 0x004"
abbreviation (input) OFF_STATE :: nat where "OFF_STATE \<equiv> 0x100"
abbreviation (input) OFF_CLAIM :: nat where "OFF_CLAIM \<equiv> 0x104"
abbreviation (input) OFF_TX_BASE :: nat where "OFF_TX_BASE \<equiv> 0x108"
abbreviation (input) OFF_TX_LOG2 :: nat where "OFF_TX_LOG2 \<equiv> 0x10C"
abbreviation (input) OFF_RX_BASE :: nat where "OFF_RX_BASE \<equiv> 0x110"
abbreviation (input) OFF_RX_LOG2 :: nat where "OFF_RX_LOG2 \<equiv> 0x114"
abbreviation (input) OFF_TX_PROD :: nat where "OFF_TX_PROD \<equiv> 0x118"
abbreviation (input) OFF_TX_CONS :: nat where "OFF_TX_CONS \<equiv> 0x11C"
abbreviation (input) OFF_RX_PROD :: nat where "OFF_RX_PROD \<equiv> 0x120"
abbreviation (input) OFF_RX_CONS :: nat where "OFF_RX_CONS \<equiv> 0x124"
abbreviation (input) OFF_RX_TAKEN :: nat where "OFF_RX_TAKEN \<equiv> 0x128"
abbreviation (input) OFF_COUNTS :: nat where "OFF_COUNTS \<equiv> 0x12C"
abbreviation (input) OFF_MAC_HIGH :: nat where "OFF_MAC_HIGH \<equiv> 0x130"
abbreviation (input) OFF_MAC_LOW :: nat where "OFF_MAC_LOW \<equiv> 0x134"
abbreviation (input) OFF_IP_ADDRESS :: nat where "OFF_IP_ADDRESS \<equiv> 0x138"
abbreviation (input) OFF_NETMASK :: nat where "OFF_NETMASK \<equiv> 0x13C"
abbreviation (input) OFF_GATEWAY :: nat where "OFF_GATEWAY \<equiv> 0x140"

section \<open>The face\<close>

record qed_state =
  qs_enabled :: bool
  qs_ie :: bool
  qs_busy :: bool
  qs_epoch :: u16
  qs_tx_base :: u32
  qs_tx_log2 :: u32
  qs_rx_base :: u32
  qs_rx_log2 :: u32
  qs_tx_prod :: u16
  qs_tx_cons :: u16
  qs_rx_prod :: u16
  qs_rx_cons :: u16
  qs_rx_taken :: u16
  qs_counts :: u32

definition counts_type :: "u32 \<Rightarrow> u32" where "counts_type c = drop_bit 4 c AND 0xF"
definition counts_ipv4 :: "u32 \<Rightarrow> u32" where "counts_ipv4 c = drop_bit 9 c AND 0x7F"
definition counts_rx :: "u32 \<Rightarrow> u32" where "counts_rx c = drop_bit 16 c AND 0xFF"
definition counts_tx :: "u32 \<Rightarrow> u32" where "counts_tx c = drop_bit 24 c AND 0xFF"

definition qed_counts :: "u32 \<Rightarrow> u32 \<Rightarrow> u32 \<Rightarrow> u32 \<Rightarrow> u32" where
  "qed_counts type ipv4 rx tx =
     push_bit 4 (type AND 0xF) OR push_bit 9 (ipv4 AND 0x7F) OR push_bit 16 (rx AND 0xFF) OR push_bit 24 (tx AND 0xFF)"

record 'h qed_face =
  qf_words :: nat
  qf_load :: "'h \<Rightarrow> nat \<Rightarrow> nat \<Rightarrow> u32 list \<times> 'h"
  qf_store :: "'h \<Rightarrow> nat \<Rightarrow> u32 list \<Rightarrow> 'h"
  qf_state :: "'h \<Rightarrow> qed_state \<times> 'h"
  qf_claim :: "'h \<Rightarrow> u16 \<Rightarrow> bool \<times> 'h"
  qf_release :: "'h \<Rightarrow> 'h"
  qf_sent :: "'h \<Rightarrow> u16 \<Rightarrow> u16 \<Rightarrow> 'h"
  qf_delivered :: "'h \<Rightarrow> u16 \<Rightarrow> u16 \<Rightarrow> 'h"
  qf_counts :: "'h \<Rightarrow> u32 \<Rightarrow> 'h"
  qf_host :: "'h \<Rightarrow> qed_host \<Rightarrow> 'h"

section \<open>The face over the page\<close>

datatype attach_err = Not_the_device u32 | Memory_size u32

definition qed_fabric_attach :: "'h page \<Rightarrow> 'h \<Rightarrow> (attach_err + u32) \<times> 'h" where
  "qed_fabric_attach P h =
     (case pg_rd P h OFF_IDENT of (ident, h) \<Rightarrow>
        if ident \<noteq> QED_IDENT_16 then (Inl (Not_the_device ident), h)
        else case pg_rd P h OFF_MEM_WORDS of (words, h) \<Rightarrow>
          if words = 0 \<or> QED_MAX_MEM_WORDS < words then (Inl (Memory_size words), h)
          else (Inr words, pg_wr P h OFF_CLAIM 0))"

definition f_state :: "'h page \<Rightarrow> 'h \<Rightarrow> qed_state \<times> 'h" where
  "f_state P h =
     (case pg_rd P h OFF_STATE of (st, h) \<Rightarrow>
      case pg_rd P h OFF_TX_BASE of (tx_base, h) \<Rightarrow>
      case pg_rd P h OFF_TX_LOG2 of (tx_log2, h) \<Rightarrow>
      case pg_rd P h OFF_RX_BASE of (rx_base, h) \<Rightarrow>
      case pg_rd P h OFF_RX_LOG2 of (rx_log2, h) \<Rightarrow>
      case pg_rd P h OFF_TX_PROD of (tx_prod, h) \<Rightarrow>
      case pg_rd P h OFF_TX_CONS of (tx_cons, h) \<Rightarrow>
      case pg_rd P h OFF_RX_PROD of (rx_prod, h) \<Rightarrow>
      case pg_rd P h OFF_RX_CONS of (rx_cons, h) \<Rightarrow>
      case pg_rd P h OFF_RX_TAKEN of (rx_taken, h) \<Rightarrow>
      case pg_rd P h OFF_COUNTS of (counts, h) \<Rightarrow>
        (\<lparr>qs_enabled = bit st 0, qs_ie = bit st 1, qs_busy = bit st 2, qs_epoch = ucast (drop_bit 16 st),
          qs_tx_base = tx_base AND QED_ADDRESS, qs_tx_log2 = tx_log2 AND 0xF,
          qs_rx_base = rx_base AND QED_ADDRESS, qs_rx_log2 = rx_log2 AND 0xF,
          qs_tx_prod = ucast tx_prod, qs_tx_cons = ucast tx_cons, qs_rx_prod = ucast rx_prod,
          qs_rx_cons = ucast rx_cons, qs_rx_taken = ucast rx_taken, qs_counts = counts AND QED_COUNTS_MASK\<rparr>, h))"

definition f_claim :: "'h page \<Rightarrow> 'h \<Rightarrow> u16 \<Rightarrow> bool \<times> 'h" where
  "f_claim P h epoch =
     (case pg_rd P (pg_wr P h OFF_CLAIM (push_bit 16 (ucast epoch) OR 1)) OFF_CLAIM of (v, h) \<Rightarrow> (bit v 0, h))"

definition f_release :: "'h page \<Rightarrow> 'h \<Rightarrow> 'h" where
  "f_release P h = pg_wr P h OFF_CLAIM 0"

definition f_sent :: "'h page \<Rightarrow> 'h \<Rightarrow> u16 \<Rightarrow> u16 \<Rightarrow> 'h" where
  "f_sent P h epoch index = pg_wr P h OFF_TX_CONS (push_bit 16 (ucast epoch) OR ucast index)"

definition f_delivered :: "'h page \<Rightarrow> 'h \<Rightarrow> u16 \<Rightarrow> u16 \<Rightarrow> 'h" where
  "f_delivered P h epoch index = pg_wr P (pg_barrier P h) OFF_RX_CONS (push_bit 16 (ucast epoch) OR ucast index)"

definition f_counts :: "'h page \<Rightarrow> 'h \<Rightarrow> u32 \<Rightarrow> 'h" where
  "f_counts P h counts = pg_wr P h OFF_COUNTS (counts AND QED_COUNTS_MASK)"

definition mac_high :: "u8 list \<Rightarrow> u32" where
  "mac_high m = push_bit 8 (ucast (m ! 0)) OR ucast (m ! 1)"

definition mac_low :: "u8 list \<Rightarrow> u32" where
  "mac_low m = push_bit 24 (ucast (m ! 2)) OR push_bit 16 (ucast (m ! 3)) OR push_bit 8 (ucast (m ! 4)) OR ucast (m ! 5)"

definition f_host :: "'h page \<Rightarrow> 'h \<Rightarrow> qed_host \<Rightarrow> 'h" where
  "f_host P h host =
     (let h = pg_wr P h OFF_MAC_HIGH (mac_high (h_mac host));
          h = pg_wr P h OFF_MAC_LOW (mac_low (h_mac host));
          h = pg_wr P h OFF_IP_ADDRESS (h_address host);
          h = pg_wr P h OFF_NETMASK (h_netmask host)
      in pg_wr P h OFF_GATEWAY (h_gateway host))"

definition qed_fabric_face :: "'h page \<Rightarrow> nat \<Rightarrow> 'h qed_face" where
  "qed_fabric_face P words =
     \<lparr>qf_words = words, qf_load = pg_load P, qf_store = pg_store P, qf_state = f_state P, qf_claim = f_claim P,
      qf_release = f_release P, qf_sent = f_sent P, qf_delivered = f_delivered P, qf_counts = f_counts P,
      qf_host = f_host P\<rparr>"

end
