(* ===== verification/Qed_Offload.thy ===== *)
theory Qed_Offload
  imports Prelude
begin

text \<open>
  \<^verbatim>\<open>qed_offload.c\<close>: what QUUX's Ethernet device does to a frame's bytes.  A frame is the list of
  its bytes, so its length is the list's.  The 64-bit running sums are natural numbers: a sum
  over \<open>n\<close> bytes is at most \<open>65535 * (n + 1) div 2\<close> (\<open>ones_add_bound\<close>), which no frame takes
  near the width.
\<close>

unbundle bit_operations_syntax

abbreviation (input) TCP :: nat where "TCP \<equiv> 6"
abbreviation (input) UDP :: nat where "UDP \<equiv> 17"
abbreviation (input) ICMP :: nat where "ICMP \<equiv> 1"
abbreviation (input) QED_TYPE_IPV4 :: nat where "QED_TYPE_IPV4 \<equiv> 0x0800"
abbreviation (input) QED_TYPE_ARP :: nat where "QED_TYPE_ARP \<equiv> 0x0806"

section \<open>Sums\<close>

definition be16 :: "u8 list \<Rightarrow> nat \<Rightarrow> nat" where
  "be16 f i = unat (f ! i) * 256 + unat (f ! (i + 1))"

fun ones_add :: "nat \<Rightarrow> u8 list \<Rightarrow> nat" where
  "ones_add s (a # b # r) = ones_add (s + (unat a * 256 + unat b)) r"
| "ones_add s [a] = s + unat a * 256"
| "ones_add s [] = s"

function ones_fold :: "nat \<Rightarrow> nat" where
  "ones_fold s = (if 0xFFFF < s then ones_fold (s mod 0x10000 + s div 0x10000) else s)"
  by auto
termination
proof (relation "measure id")
  fix s :: nat assume "0xFFFF < s"
  then have "0 < s div 0x10000" by (simp add: div_greater_zero_iff)
  with div_mult_mod_eq [of s 65536] have "s mod 0x10000 + s div 0x10000 < s" by linarith
  then show "(s mod 0x10000 + s div 0x10000, s) \<in> measure id" by simp
qed simp

declare ones_fold.simps [simp del]

definition qed_ones_sum :: "u8 list \<Rightarrow> u16" where
  "qed_ones_sum data = of_nat (ones_fold (ones_add 0 data))"

section \<open>The datagram\<close>

record datagram =
  dg_h :: nat
  dg_p :: nat
  dg_start :: nat
  dg_end :: nat
  dg_field :: "nat option"

datatype offload_why =
    Frame_short | Type_other
  | Ip_short | Ip_version | Ip_ihl | Ip_under_header | Ip_past_frame
  | Tcp_short | Udp_short | Udp_length | Icmp_short
  | Ip_checksum | Tcp_checksum | Udp_checksum | Icmp_checksum

text \<open>The bytes \<^verbatim>\<open>f + at\<close> of length \<open>n\<close>.\<close>

definition piece :: "u8 list \<Rightarrow> nat \<Rightarrow> nat \<Rightarrow> u8 list" where
  "piece f i n = take n (drop i f)"

definition pseudo :: "datagram \<Rightarrow> u8 list \<Rightarrow> nat" where
  "pseudo d f =
     (if dg_p d \<noteq> TCP \<and> dg_p d \<noteq> UDP then 0
      else ones_add (ones_add 0 (piece f 26 8)) [0, of_nat (dg_p d)] + (dg_end d - dg_start d))"

definition payload_sum :: "datagram \<Rightarrow> u8 list \<Rightarrow> u16" where
  "payload_sum d f = of_nat (ones_fold (ones_add (pseudo d f) (piece f (dg_start d) (dg_end d - dg_start d))))"

definition datagram_of :: "u8 list \<Rightarrow> offload_why + datagram" where
  "datagram_of f =
     (let n = length f
      in if n < 34 then Inl Ip_short
         else if drop_bit 4 (f ! 14) \<noteq> 4 then Inl Ip_version
         else let ihl = unat (f ! 14 AND 0x0F)
              in if ihl < 5 then Inl Ip_ihl
                 else let h = 4 * ihl; tl = be16 f 16
                      in if tl < h then Inl Ip_under_header
                         else if n < 14 + tl then Inl Ip_past_frame
                         else let d = \<lparr>dg_h = h, dg_p = unat (f ! 23), dg_start = 14 + h, dg_end = 14 + tl, dg_field = None\<rparr>;
                                  l = dg_end d - dg_start d;
                                  fragment = (f ! 20 AND 0x20 \<noteq> 0 \<or> be16 f 20 mod 0x2000 \<noteq> 0)
                              in if fragment then Inr d
                                 else if dg_p d = TCP then
                                   (if l < 20 then Inl Tcp_short else Inr (d\<lparr>dg_field := Some 16\<rparr>))
                                 else if dg_p d = UDP then
                                   (if l < 8 then Inl Udp_short
                                    else if be16 f (dg_start d + 4) \<noteq> l then Inl Udp_length
                                    else Inr (d\<lparr>dg_field := Some 6\<rparr>))
                                 else if dg_p d = ICMP then
                                   (if l < 8 then Inl Icmp_short else Inr (d\<lparr>dg_field := Some 2\<rparr>))
                                 else Inr d)"

datatype frame_kind = NO_TYPE | OTHER_TYPE | ARP | IPV4

definition kind_of :: "u8 list \<Rightarrow> frame_kind" where
  "kind_of f =
     (if length f < 14 then NO_TYPE
      else if be16 f 12 = QED_TYPE_ARP then ARP
      else if be16 f 12 = QED_TYPE_IPV4 then IPV4
      else OTHER_TYPE)"

section \<open>Transmit and receive\<close>

text \<open>A 16-bit word laid high byte first.\<close>

definition put_be16 :: "u8 list \<Rightarrow> nat \<Rightarrow> u16 \<Rightarrow> u8 list" where
  "put_be16 f i c = f[i := ucast (drop_bit 8 c), i + 1 := ucast c]"

definition fill_header :: "datagram \<Rightarrow> u8 list \<Rightarrow> u8 list" where
  "fill_header d f0 =
     (let f = f0[24 := 0, 25 := 0]
      in put_be16 f 24 (NOT (qed_ones_sum (piece f 14 (dg_h d)))))"

definition fill_payload :: "datagram \<Rightarrow> u8 list \<Rightarrow> u8 list" where
  "fill_payload d f0 =
     (case dg_field d of
        None \<Rightarrow> f0
      | Some fld \<Rightarrow>
          (let i = dg_start d + fld;
               f = f0[i := 0, i + 1 := 0];
               c = NOT (payload_sum d f);
               c = (if dg_p d = UDP \<and> c = 0 then 0xFFFF else c)
           in put_be16 f i c))"

definition qed_transmit :: "u8 list \<Rightarrow> offload_why option \<times> u8 list" where
  "qed_transmit f =
     (case kind_of f of
        NO_TYPE \<Rightarrow> (Some Frame_short, f)
      | OTHER_TYPE \<Rightarrow> (Some Type_other, f)
      | ARP \<Rightarrow> (None, f)
      | IPV4 \<Rightarrow>
          (case datagram_of f of
             Inl bad \<Rightarrow> (Some bad, f)
           | Inr d \<Rightarrow> (None, fill_payload d (fill_header d f))))"

datatype qed_counter = QED_COUNT_TYPE | QED_COUNT_IPV4

text \<open>A frame that may take a buffer is \<open>None\<close>, \<^verbatim>\<open>QED_COUNT_NONE\<close>; a drop is its counter and its reason.\<close>

definition qed_receive :: "u8 list \<Rightarrow> (qed_counter \<times> offload_why) option" where
  "qed_receive f =
     (case kind_of f of
        NO_TYPE \<Rightarrow> Some (QED_COUNT_TYPE, Frame_short)
      | OTHER_TYPE \<Rightarrow> Some (QED_COUNT_TYPE, Type_other)
      | ARP \<Rightarrow> None
      | IPV4 \<Rightarrow>
          (case datagram_of f of
             Inl bad \<Rightarrow> Some (QED_COUNT_IPV4, bad)
           | Inr d \<Rightarrow>
               (if qed_ones_sum (piece f 14 (dg_h d)) \<noteq> 0xFFFF then Some (QED_COUNT_IPV4, Ip_checksum)
                else case dg_field d of
                       None \<Rightarrow> None
                     | Some fld \<Rightarrow>
                         (if dg_p d = UDP \<and> be16 f (dg_start d + fld) = 0 then None
                          else if payload_sum d f \<noteq> 0xFFFF then
                            Some (QED_COUNT_IPV4, if dg_p d = TCP then Tcp_checksum
                                                  else if dg_p d = UDP then Udp_checksum else Icmp_checksum)
                          else None))))"

section \<open>The sum is addition modulo 65535\<close>

lemma unat_byte: "unat (a :: u8) < 256"
proof -
  have "unat a < 2 ^ LENGTH(8)" by (rule unsigned_less)
  then show ?thesis by simp
qed

lemma u16_bound: "unat (a :: u16) < 65536"
proof -
  have "unat a < 2 ^ LENGTH(16)" by (rule unsigned_less)
  then show ?thesis by simp
qed

lemma ones_add_acc: "ones_add s xs = s + ones_add 0 xs"
proof (induction xs arbitrary: s rule: induct_list012)
  case (3 a b r)
  have "ones_add s (a # b # r) = s + (unat a * 256 + unat b) + ones_add 0 r"
    using 3(1) [of "s + (unat a * 256 + unat b)"] by simp
  moreover have "ones_add 0 (a # b # r) = unat a * 256 + unat b + ones_add 0 r"
    using 3(1) [of "unat a * 256 + unat b"] by simp
  ultimately show ?case by simp
qed simp_all

lemma ones_add_bound: "ones_add s xs \<le> s + 65535 * ((length xs + 1) div 2)"
proof (induction s xs rule: ones_add.induct)
  case (1 s a b r)
  have "unat a < 256" "unat b < 256" by (rule unat_byte)+
  with 1 show ?case by simp
next
  case (2 s a)
  have "unat a < 256" by (rule unat_byte)
  then show ?case by simp
qed simp

text \<open>What the loop of \<^verbatim>\<open>fold\<close> comes to.\<close>

lemma ones_fold_eq: "ones_fold s = (if s = 0 then 0 else if s mod 65535 = 0 then 65535 else s mod 65535)"
proof (induction s rule: ones_fold.induct)
  case (1 s)
  show ?case
  proof (cases "0xFFFF < s")
    case True
    define t where "t = s mod 0x10000 + s div 0x10000"
    have "s = 65535 * (s div 0x10000) + t" unfolding t_def using div_mult_mod_eq [of s 65536] by linarith
    then have m: "t mod 65535 = s mod 65535" by (metis mod_mult_self4)
    have "0 < s div 0x10000" using True by (simp add: div_greater_zero_iff)
    then have "t \<noteq> 0" by (simp add: t_def)
    moreover have "ones_fold s = ones_fold t" using True by (subst ones_fold.simps) (simp add: t_def)
    ultimately show ?thesis using 1 [OF True, folded t_def] True m by simp
  next
    case False
    then show ?thesis by (subst ones_fold.simps) (cases "s = 65535"; simp)
  qed
qed

lemma ones_fold_le: "ones_fold s \<le> 65535"
  by (simp add: ones_fold_eq less_imp_le)

lemma unat_ones_sum: "unat (of_nat (ones_fold s) :: u16) = ones_fold s"
  using ones_fold_le [of s] by (simp add: unat_of_nat)

lemma unat_not16: "unat (NOT w :: u16) = 65535 - unat w"
proof -
  have "NOT w = - 1 - w" by (simp add: not_eq_complement)
  moreover have "unat (- 1 - w :: u16) = 65535 - unat w"
  proof (subst unat_sub)
    show "w \<le> - 1" by (rule word_order.extremum)
    have "unat (- 1 :: u16) = 65535" by (simp add: unsigned_minus_1_eq_mask mask_eq_exp_minus_1)
    then show "unat (- 1 :: u16) - unat w = 65535 - unat w" by simp
  qed
  ultimately show ?thesis by simp
qed

text \<open>The complement of a sum, added to it, sums to all ones.\<close>

lemma ones_fold_complement: "ones_fold (s + (65535 - ones_fold s)) = 65535"
proof -
  have "s + (65535 - ones_fold s) \<noteq> 0"
  proof (cases "s = 0")
    case True
    then show ?thesis by (simp add: ones_fold_eq)
  qed simp
  moreover have "(s + (65535 - ones_fold s)) mod 65535 = 0"
  proof (cases "s mod 65535 = 0")
    case True
    then show ?thesis by (simp add: ones_fold_eq mod_add_left_eq [symmetric])
  next
    case False
    then have "ones_fold s = s mod 65535" by (auto simp: ones_fold_eq)
    moreover have "s mod 65535 < 65535" by simp
    ultimately show ?thesis by (metis add_diff_inverse_nat less_imp_le not_le mod_add_left_eq mod_self)
  qed
  ultimately show ?thesis by (simp add: ones_fold_eq)
qed

section \<open>A field inside a piece\<close>

lemma ones_add_field:
  "even k \<Longrightarrow> k + 1 < length xs \<Longrightarrow>
     ones_add 0 (xs[k := a, k + 1 := b]) = ones_add 0 (xs[k := 0, k + 1 := 0]) + (unat a * 256 + unat b)"
proof (induction xs arbitrary: k rule: induct_list012)
  case (3 x y r)
  show ?case
  proof (cases k)
    case 0
    then show ?thesis by (simp add: ones_add_acc [of "unat a * 256 + unat b"])
  next
    case (Suc j)
    then obtain i where k: "k = i + 2" using 3(3) by (cases j) auto
    then have "even i" "i + 1 < length r" using 3 by auto
    then show ?thesis
      using 3(1) [of i] k by (simp add: ones_add_acc [of "unat x * 256 + unat y"])
  qed
qed simp_all

lemma put_be16_bytes: "unat (ucast (drop_bit 8 c) :: u8) * 256 + unat (ucast c :: u8) = unat (c :: u16)"
proof -
  have "unat (ucast (drop_bit 8 c) :: u8) = unat c div 256"
    using u16_bound [of c]
    by (simp add: unsigned_ucast_eq drop_bit_eq_div unat_div take_bit_eq_mod)
  moreover have "unat (ucast c :: u8) = unat c mod 256"
    by (simp add: unsigned_ucast_eq take_bit_eq_mod)
  ultimately show ?thesis by simp
qed

lemma be16_put: "i + 1 < length f \<Longrightarrow> be16 (put_be16 f i c) i = unat c"
  by (simp add: be16_def put_be16_def nth_list_update put_be16_bytes)

lemma be16_other: "j + 1 < i \<or> i + 1 < j \<Longrightarrow> be16 (put_be16 f i c) j = be16 f j"
  by (auto simp: be16_def put_be16_def nth_list_update)

section \<open>What a well-formed datagram is\<close>

lemma datagram_facts:
  assumes "datagram_of f = Inr d"
  shows "34 \<le> length f" and "dg_start d = 14 + dg_h d" and "20 \<le> dg_h d" and "even (dg_h d)"
    and "dg_start d \<le> dg_end d" and "dg_end d \<le> length f"
    and "dg_field d = Some fld \<Longrightarrow>
      (dg_p d = TCP \<and> fld = 16 \<or> dg_p d = UDP \<and> fld = 6 \<or> dg_p d = ICMP \<and> fld = 2) \<and> dg_start d + fld + 2 \<le> dg_end d"
  using assms by (auto simp: datagram_of_def Let_def not_less split: if_splits)

lemma datagram_cong:
  assumes "datagram_of f = Inr d" and "length g = length f"
    and "\<And>i. i \<in> {14, 16, 17, 20, 21, 23, dg_start d + 4, dg_start d + 5} \<Longrightarrow> g ! i = f ! i"
  shows "datagram_of g = Inr d"
proof -
  have b: "g ! 14 = f ! 14" "g ! 20 = f ! 20" "g ! 23 = f ! 23" "be16 g 16 = be16 f 16" "be16 g 20 = be16 f 20"
    "be16 g (dg_start d + 4) = be16 f (dg_start d + 4)"
    using assms(3) by (auto simp: be16_def)
  have st: "dg_start d = 14 + 4 * unat (f ! 14 AND 0x0F)"
    using assms(1) by (auto simp: datagram_of_def Let_def split: if_splits)
  show ?thesis
    using assms(1,2) b [unfolded st] unfolding datagram_of_def Let_def by (simp cong: if_cong)
qed

lemma piece_update:
  "piece (f[k := x]) i n = (if i \<le> k then (piece f i n)[k - i := x] else piece f i n)"
  by (simp add: piece_def drop_update_swap take_update_swap)

lemma length_put_be16 [simp]: "length (put_be16 f i c) = length f"
  by (simp add: put_be16_def)

lemma length_piece: "i + n \<le> length f \<Longrightarrow> length (piece f i n) = n"
  by (simp add: piece_def)

lemma put_be16_other: "j \<noteq> i \<Longrightarrow> j \<noteq> i + 1 \<Longrightarrow> put_be16 f i c ! j = f ! j"
  by (simp add: put_be16_def)

lemma update_again: "xs[k := a, Suc k := b, k := c, Suc k := e] = xs[k := c, Suc k := e]"
  by (metis list_update_overwrite list_update_swap n_not_Suc_n)

text \<open>Filling a field of a piece with the complement of its sum.\<close>

lemma filled_sum:
  assumes "i + k + 2 \<le> i + n" and "i + n \<le> length f" and "even k"
    and "unat c = 65535 - ones_fold (s + ones_add 0 (piece (f[i + k := 0, i + k + 1 := 0]) i n)) \<or>
      ones_fold (s + ones_add 0 (piece (f[i + k := 0, i + k + 1 := 0]) i n)) = 65535 \<and> unat c = 65535"
  shows "ones_fold (s + ones_add 0 (piece (put_be16 (f[i + k := 0, i + k + 1 := 0]) (i + k) c) i n)) = 65535"
proof -
  let ?p = "piece f i n"
  let ?z = "ones_add 0 (?p[k := 0, k + 1 := 0])"
  have len: "k + 1 < length ?p" using assms(1,2) by (simp add: length_piece)
  have "piece (put_be16 (f[i + k := 0, i + k + 1 := 0]) (i + k) c) i n = ?p[k := ucast (drop_bit 8 c), k + 1 := ucast c]"
    by (simp add: put_be16_def piece_update update_again)
  then have "s + ones_add 0 (piece (put_be16 (f[i + k := 0, i + k + 1 := 0]) (i + k) c) i n) = s + ?z + unat c"
    using ones_add_field [OF assms(3) len, of "ucast (drop_bit 8 c)" "ucast c"] by (simp add: put_be16_bytes)
  moreover have "piece (f[i + k := 0, i + k + 1 := 0]) i n = ?p[k := 0, k + 1 := 0]"
    by (simp add: piece_update)
  moreover have "ones_fold (x + 65535) = 65535" if "ones_fold x = 65535" for x
    using that mod_less_divisor [of 65535 x] by (simp add: ones_fold_eq split: if_splits)
  ultimately show ?thesis
    using assms(4) ones_fold_complement [of "s + ?z"] by (elim disjE conjE) (simp_all only:)
qed

lemma fill_header_bytes:
  "length (fill_header d f) = length f" "j \<noteq> 24 \<Longrightarrow> j \<noteq> 25 \<Longrightarrow> fill_header d f ! j = f ! j"
  by (simp_all add: fill_header_def Let_def put_be16_other)

lemma fill_payload_bytes:
  "length (fill_payload d f) = length f"
  "(\<And>fld. dg_field d = Some fld \<Longrightarrow> j \<noteq> dg_start d + fld \<and> j \<noteq> dg_start d + fld + 1) \<Longrightarrow> fill_payload d f ! j = f ! j"
  by (auto simp: fill_payload_def Let_def put_be16_other split: option.splits)

lemma piece_cong: "length g = length f \<Longrightarrow> (\<And>j. i \<le> j \<Longrightarrow> j < i + n \<Longrightarrow> g ! j = f ! j) \<Longrightarrow> piece g i n = piece f i n"
  by (auto simp: piece_def list_eq_iff_nth_eq)

lemma header_sums:
  assumes "datagram_of f = Inr d"
  shows "qed_ones_sum (piece (fill_header d f) 14 (dg_h d)) = 0xFFFF"
proof -
  note d = datagram_facts [OF assms]
  let ?z = "piece (f[14 + 10 := 0, 14 + 10 + 1 := 0]) 14 (dg_h d)"
  have "unat (NOT (qed_ones_sum ?z)) = 65535 - ones_fold (0 + ones_add 0 ?z)"
    by (simp add: unat_not16 qed_ones_sum_def unat_ones_sum)
  then have "ones_fold (0 + ones_add 0 (piece (fill_header d f) 14 (dg_h d))) = 65535"
    using filled_sum [of 14 10 "dg_h d" f "NOT (qed_ones_sum ?z)" 0] d by (simp add: fill_header_def Let_def)
  then show ?thesis by (simp add: qed_ones_sum_def)
qed

lemma payload_sums:
  assumes "datagram_of f = Inr d" and "dg_field d = Some fld"
  shows "payload_sum d (fill_payload d f) = 0xFFFF"
    and "dg_p d = UDP \<Longrightarrow> be16 (fill_payload d f) (dg_start d + fld) \<noteq> 0"
proof -
  note d = datagram_facts [OF assms(1)]
  have fld: "even fld" "dg_start d + fld + 2 \<le> dg_end d" using d(7) [OF assms(2)] by auto
  let ?i = "dg_start d" and ?n = "dg_end d - dg_start d"
  let ?f = "f[?i + fld := 0, ?i + fld + 1 := 0]"
  let ?z = "piece ?f ?i ?n"
  let ?c = "NOT (payload_sum d ?f)"
  let ?c' = "if dg_p d = UDP \<and> ?c = 0 then 0xFFFF else ?c"
  have g: "fill_payload d f = put_be16 ?f (?i + fld) ?c'" using assms(2) by (simp add: fill_payload_def Let_def)
  have ps: "pseudo d (fill_payload d f) = pseudo d ?f"
  proof -
    have "piece (put_be16 ?f (?i + fld) ?c') 26 8 = piece ?f 26 8"
    proof (rule piece_cong)
      fix j :: nat assume "26 \<le> j" "j < 26 + 8"
      then have "j < ?i" using d(2,3) by linarith
      then show "put_be16 ?f (?i + fld) ?c' ! j = ?f ! j" by (intro put_be16_other) auto
    qed simp
    then show ?thesis unfolding pseudo_def g by (simp only:)
  qed
  have s: "payload_sum d ?f = of_nat (ones_fold (pseudo d ?f + ones_add 0 ?z))"
    unfolding payload_sum_def by (subst ones_add_acc) simp
  then have u: "unat ?c = 65535 - ones_fold (pseudo d ?f + ones_add 0 ?z)" by (simp add: unat_not16 unat_ones_sum)
  have "unat ?c' = 65535 - ones_fold (pseudo d ?f + ones_add 0 ?z) \<or>
      ones_fold (pseudo d ?f + ones_add 0 ?z) = 65535 \<and> unat ?c' = 65535"
  proof (cases "dg_p d = UDP \<and> ?c = 0")
    case True
    then have "ones_fold (pseudo d ?f + ones_add 0 ?z) = 65535"
      using u ones_fold_le [of "pseudo d ?f + ones_add 0 ?z"] by simp
    with True show ?thesis by simp
  next
    case False
    then have "?c' = ?c" by (simp only: if_False)
    then show ?thesis using u by (simp only:) simp
  qed
  then have "ones_fold (pseudo d ?f + ones_add 0 (piece (fill_payload d f) ?i ?n)) = 65535"
    unfolding g using d fld by (intro filled_sum) auto
  then show "payload_sum d (fill_payload d f) = 0xFFFF"
    unfolding payload_sum_def ps by (subst ones_add_acc) simp
  assume "dg_p d = UDP"
  then have "unat ?c' \<noteq> 0" by (simp add: unat_eq_0)
  then show "be16 (fill_payload d f) (dg_start d + fld) \<noteq> 0"
    unfolding g using be16_put [of "?i + fld" ?f ?c'] d fld by simp
qed

lemma transmit_fills:
  assumes "datagram_of f = Inr d"
  defines "g \<equiv> fill_payload d (fill_header d f)"
  shows "datagram_of g = Inr d" and "qed_ones_sum (piece g 14 (dg_h d)) = 0xFFFF"
    and "dg_field d = Some fld \<Longrightarrow> payload_sum d g = 0xFFFF"
    and "dg_field d = Some fld \<Longrightarrow> dg_p d = UDP \<Longrightarrow> be16 g (dg_start d + fld) \<noteq> 0"
    and "length g = length f"
proof -
  note d = datagram_facts [OF assms(1)]
  let ?h = "fill_header d f"
  have h: "datagram_of ?h = Inr d"
    using assms(1) fill_header_bytes(1) by (rule datagram_cong) (use d(2,3) in \<open>auto intro!: fill_header_bytes(2)\<close>)
  have off: "j \<noteq> dg_start d + fld \<and> j \<noteq> dg_start d + fld + 1" if "dg_field d = Some fld" "j < dg_start d" for j fld
    using that by simp
  have off': "j \<noteq> dg_start d + fld \<and> j \<noteq> dg_start d + fld + 1"
    if "dg_field d = Some fld" "j = dg_start d + 4 \<or> j = dg_start d + 5" for j fld
    using d(7) [OF that(1)] that(2) by auto
  show "datagram_of g = Inr d"
    unfolding g_def
  proof (rule datagram_cong [OF h])
    fix i assume "i \<in> {14, 16, 17, 20, 21, 23, dg_start d + 4, dg_start d + 5}"
    then have "i < dg_start d \<or> i = dg_start d + 4 \<or> i = dg_start d + 5" using d(2,3) by auto
    then show "fill_payload d ?h ! i = ?h ! i" using off off' by (intro fill_payload_bytes(2)) blast
  qed (simp add: fill_payload_bytes)
  have "piece g 14 (dg_h d) = piece ?h 14 (dg_h d)"
    unfolding g_def
  proof (rule piece_cong)
    fix j assume "j < 14 + dg_h d"
    then show "fill_payload d ?h ! j = ?h ! j" using off d(2) by (intro fill_payload_bytes(2)) metis
  qed (simp add: fill_payload_bytes)
  then show "qed_ones_sum (piece g 14 (dg_h d)) = 0xFFFF" using header_sums [OF assms(1)] by simp
  show "dg_field d = Some fld \<Longrightarrow> payload_sum d g = 0xFFFF"
    "dg_field d = Some fld \<Longrightarrow> dg_p d = UDP \<Longrightarrow> be16 g (dg_start d + fld) \<noteq> 0"
    unfolding g_def using payload_sums [OF h] by blast+
  show "length g = length f" by (simp add: g_def fill_header_bytes fill_payload_bytes)
qed

lemma transmit_other_bytes:
  assumes "datagram_of f = Inr d" and "i < 24 \<or> 26 \<le> i \<and> i < dg_start d \<or> dg_end d \<le> i"
  shows "fill_payload d (fill_header d f) ! i = f ! i"
proof -
  note d = datagram_facts [OF assms(1)]
  have "fill_payload d (fill_header d f) ! i = fill_header d f ! i"
  proof (rule fill_payload_bytes(2))
    fix fld assume "dg_field d = Some fld"
    from d(7) [OF this] show "i \<noteq> dg_start d + fld \<and> i \<noteq> dg_start d + fld + 1" using assms(2) d(2,3) by auto
  qed
  also have "\<dots> = f ! i" using assms(2) d(2,3,5) by (intro fill_header_bytes(2)) auto
  finally show ?thesis .
qed

section \<open>Properties\<close>

text \<open>
  C12. What the device sends it would take: a frame transmit accepts, with the checksums it
  filled in, passes receive's type filter and every IPv4 check.\<close>

theorem transmitted_is_received:
  assumes "qed_transmit f = (None, g)"
  shows "qed_receive g = None"
proof (cases "kind_of f")
  case IPV4
  then obtain d where d: "datagram_of f = Inr d" and g: "g = fill_payload d (fill_header d f)"
    using assms by (auto simp: qed_transmit_def split: sum.splits)
  note t = transmit_fills [OF d, folded g]
  have "g ! 12 = f ! 12" "g ! 13 = f ! 13" using transmit_other_bytes [OF d] by (simp_all add: g)
  then have "be16 g 12 = be16 f 12" by (simp add: be16_def)
  then have "kind_of g = kind_of f" using t(5) by (simp add: kind_of_def)
  then have "kind_of g = IPV4" using IPV4 by simp
  then show ?thesis using t by (auto simp: qed_receive_def split: option.splits)
qed (use assms in \<open>auto simp: qed_transmit_def qed_receive_def\<close>)

definition ping :: "u8 list" where
  "ping = [0, 0, 0, 0, 0, 0, 0, 0, 0, 0, 0, 0, 8, 0,
     0x45, 0, 0, 28, 0, 1, 0, 0, 64, 1, 0xAB, 0xCD, 10, 0, 0, 1, 10, 0, 0, 2, 8, 0, 7, 7, 0, 1, 0, 1]"

lemma ping_datagram:
  "kind_of ping = IPV4" "datagram_of ping = Inr \<lparr>dg_h = 20, dg_p = 1, dg_start = 34, dg_end = 42, dg_field = Some 2\<rparr>"
  by (simp_all add: ping_def kind_of_def datagram_of_def be16_def Let_def)

theorem transmitted_is_received_witness: "qed_receive (snd (qed_transmit ping)) = None"
proof -
  have "fst (qed_transmit ping) = None" by (simp add: qed_transmit_def ping_datagram)
  then have "qed_transmit ping = (None, snd (qed_transmit ping))" by (metis prod.collapse)
  then show ?thesis by (rule transmitted_is_received)
qed

text \<open>
  Transmit fills in checksum fields and nothing else: a refused frame is as it was, an
  accepted one keeps its length, the Ethernet header, every byte of the IPv4 header but its
  checksum, and everything past the datagram, the Ethernet padding.\<close>

theorem transmit_keeps_the_rest:
  "case qed_transmit f of
     (Some why, g) \<Rightarrow> g = f
   | (None, g) \<Rightarrow> length g = length f \<and> take 24 g = take 24 f \<and>
       (case datagram_of f of
          Inl bad \<Rightarrow> g = f
        | Inr d \<Rightarrow> kind_of f = IPV4 \<longrightarrow>
            piece g 26 (dg_start d - 26) = piece f 26 (dg_start d - 26) \<and> drop (dg_end d) g = drop (dg_end d) f)"
proof (cases "kind_of f")
  case IPV4
  show ?thesis
  proof (cases "datagram_of f")
    case (Inr d)
    let ?g = "fill_payload d (fill_header d f)"
    have len: "length ?g = length f" using transmit_fills(5) [OF Inr] .
    note o = transmit_other_bytes [OF Inr]
    have "take 24 ?g = take 24 f" "piece ?g 26 (dg_start d - 26) = piece f 26 (dg_start d - 26)"
      "drop (dg_end d) ?g = drop (dg_end d) f"
      using len by (auto simp: list_eq_iff_nth_eq piece_def intro!: o)
    with IPV4 Inr len show ?thesis by (simp add: qed_transmit_def)
  qed (use IPV4 in \<open>simp add: qed_transmit_def\<close>)
qed (auto simp: qed_transmit_def split: sum.splits)

theorem transmit_keeps_the_rest_witness:
  "length (snd (qed_transmit ping)) = 42 \<and> take 24 (snd (qed_transmit ping)) = take 24 ping"
proof -
  have "fst (qed_transmit ping) = None" by (simp add: qed_transmit_def ping_datagram)
  moreover have "length ping = 42" by (simp add: ping_def)
  ultimately show ?thesis using transmit_keeps_the_rest [of ping] by (cases "qed_transmit ping") simp
qed

text \<open>
  The sum is RFC 1071's: over a datagram's bytes, the folding loop gives the big-endian
  16-bit words added in ones' complement, the value modulo 65535 with 0 only for a sum of 0.
  A change to one aligned word of the header is caught, unless it turns 0x0000 into 0xFFFF or
  back, which ones' complement cannot tell apart.\<close>

theorem ones_sum_detects:
  assumes "even k" and "k + 1 < length xs" and "qed_ones_sum xs = 0xFFFF"
    and "qed_ones_sum (xs[k := a, k + 1 := b]) = 0xFFFF"
  shows "[a, b] = [xs ! k, xs ! (k + 1)] \<or>
    [a, b] = [0, 0] \<and> [xs ! k, xs ! (k + 1)] = [0xFF, 0xFF] \<or>
    [a, b] = [0xFF, 0xFF] \<and> [xs ! k, xs ! (k + 1)] = [0, 0]"
proof -
  let ?z = "ones_add 0 (xs[k := 0, k + 1 := 0])" and ?v = "\<lambda>(a :: u8) (b :: u8). unat a * 256 + unat b"
  have u: "qed_ones_sum ys = 0xFFFF \<Longrightarrow> ones_add 0 ys mod 65535 = 0" for ys
  proof -
    assume "qed_ones_sum ys = 0xFFFF"
    then have "ones_fold (ones_add 0 ys) = 65535" using unat_ones_sum [of "ones_add 0 ys"] by (simp add: qed_ones_sum_def)
    then show ?thesis using mod_less_divisor [of 65535 "ones_add 0 ys"] by (simp add: ones_fold_eq split: if_splits)
  qed
  have x: "ones_add 0 xs = ?z + ?v (xs ! k) (xs ! (k + 1))"
    using ones_add_field [OF assms(1,2), of "xs ! k" "xs ! (k + 1)"] by simp
  have y: "ones_add 0 (xs[k := a, k + 1 := b]) = ?z + ?v a b"
    by (rule ones_add_field [OF assms(1,2)])
  let ?p = "?v (xs ! k) (xs ! (k + 1))" and ?q = "?v a b"
  have b: "?v c e \<le> 65535" for c e
    using unat_byte [of c] unat_byte [of e] by linarith
  obtain q r where "?z + ?p = 65535 * q" "?z + ?q = 65535 * r"
    using u [OF assms(3)] u [OF assms(4)] x y by (metis dvd_def mod_eq_0_iff_dvd)
  then have c: "?p = ?q \<or> ?p = 0 \<and> ?q = 65535 \<or> ?p = 65535 \<and> ?q = 0"
    using b [of a b] b [of "xs ! k" "xs ! (k + 1)"] by (cases q r rule: linorder_cases) linarith+
  have inj: "?v c e = ?v c' e' \<Longrightarrow> [c, e] = [c', e']" for c e c' e'
  proof -
    assume v: "?v c e = ?v c' e'"
    have "unat c = ?v c e div 256" "unat e = ?v c e mod 256" "unat c' = ?v c' e' div 256" "unat e' = ?v c' e' mod 256"
      using unat_byte [of e] unat_byte [of e'] by simp_all
    with v have "unat c = unat c'" "unat e = unat e'" by (simp_all only:)
    then show ?thesis by (simp add: unsigned_word_eqI)
  qed
  have z: "?v c e = 0 \<Longrightarrow> [c, e] = [0, 0]" "?v c e = 65535 \<Longrightarrow> [c, e] = [0xFF, 0xFF]" for c e
    using inj [of c e 0 0] inj [of c e 255 255] by simp_all
  from c show ?thesis
  proof (elim disjE conjE)
    assume "?p = ?q"
    from inj [OF this] show ?thesis by simp
  next
    assume "?p = 0" "?q = 65535"
    from z(1) [OF this(1)] z(2) [OF this(2)] show ?thesis by simp
  next
    assume "?p = 65535" "?q = 0"
    from z(2) [OF this(1)] z(1) [OF this(2)] show ?thesis by simp
  qed
qed

theorem ones_sum_detects_witness: "qed_ones_sum ([0xFF, 0xFE, 0, 1] [0 := 0xFF, 0 + 1 := 0xFD]) \<noteq> 0xFFFF"
proof
  assume "qed_ones_sum ([0xFF, 0xFE, 0, 1] [0 := 0xFF, 0 + 1 := 0xFD]) = 0xFFFF"
  moreover have "qed_ones_sum [0xFF, 0xFE, 0, 1] = 0xFFFF"
    by (simp add: qed_ones_sum_def ones_fold_eq)
  ultimately show False
    using ones_sum_detects [of 0 "[0xFF, 0xFE, 0, 1]" 255 253] by simp
qed

end
