(* ===== verification/Qed_Ring.thy ===== *)
theory Qed_Ring
  imports Qed_Face Qed_Offload
begin

text \<open>
  \<^verbatim>\<open>qed_ring.c\<close>: the device's two directions over the face.  The frames sent are kept in the
  order they are sent, and the lines of the trace and the log as values, a line a value.
\<close>

unbundle bit_operations_syntax

abbreviation (input) QED_MIN_FRAME :: nat where "QED_MIN_FRAME \<equiv> 14"
abbreviation (input) QED_MAX_FRAME :: nat where "QED_MAX_FRAME \<equiv> 1514"

datatype refusal = Length u32 | Off_line u32 | Past_memory u32 | Refused offload_why

datatype drop_why =
    Disabled | Not_ours | Dropped offload_why | No_buffer | Too_long
  | Short_buffer u16 u32 | Buffer_off_line u16 u32 | Buffer_past_memory u16 u32

datatype qed_line =
    Misfit | Tx_refused u16 refusal | Tx_sent "u8 list" | Rx_dropped "u8 list" drop_why | Rx_delivered "u8 list" u16

record qed_ring =
  g_host :: qed_host
  g_type_drops :: u32
  g_ipv4_drops :: u32
  g_rx_drops :: u32
  g_tx_refusals :: u32
  g_said_misfit :: bool
  g_sent :: "u8 list list"
  g_trace :: "qed_line list"
  g_log :: "qed_line list"

definition trace :: "qed_line \<Rightarrow> qed_ring \<Rightarrow> qed_ring" where
  "trace l g = g\<lparr>g_trace := g_trace g @ [l]\<rparr>"

definition log_line :: "qed_line \<Rightarrow> qed_ring \<Rightarrow> qed_ring" where
  "log_line l g = g\<lparr>g_log := g_log g @ [l]\<rparr>"

definition put_counts :: "'h qed_face \<Rightarrow> qed_ring \<Rightarrow> 'h \<Rightarrow> 'h" where
  "put_counts F g h =
     qf_counts F h (qed_counts (g_type_drops g) (g_ipv4_drops g) (g_rx_drops g) (g_tx_refusals g))"

definition qed_ring_init :: "'h qed_face \<Rightarrow> qed_host \<Rightarrow> 'h \<Rightarrow> qed_ring \<times> 'h" where
  "qed_ring_init F host h =
     (case qf_state F (qf_host F h host) of (s, h) \<Rightarrow>
        (\<lparr>g_host = host, g_type_drops = counts_type (qs_counts s), g_ipv4_drops = counts_ipv4 (qs_counts s),
          g_rx_drops = counts_rx (qs_counts s), g_tx_refusals = counts_tx (qs_counts s), g_said_misfit = False,
          g_sent = [], g_trace = [], g_log = []\<rparr>, h))"

definition fits :: "'h qed_face \<Rightarrow> u32 \<Rightarrow> u32 \<Rightarrow> bool" where
  "fits F base log2 \<longleftrightarrow>
     log2 \<le> 8 \<and> base AND QED_LINE = 0 \<and> unat base + 8 * 2 ^ unat log2 \<le> qf_words F"

definition rings_fit :: "'h qed_face \<Rightarrow> qed_state \<Rightarrow> qed_ring \<Rightarrow> bool \<times> qed_ring" where
  "rings_fit F u g =
     (if fits F (qs_tx_base u) (qs_tx_log2 u) \<and> fits F (qs_rx_base u) (qs_rx_log2 u) then (True, g)
      else (False, (if g_said_misfit g then g else log_line Misfit g)\<lparr>g_said_misfit := True\<rparr>))"

definition entry_at :: "u32 \<Rightarrow> u32 \<Rightarrow> u16 \<Rightarrow> nat" where
  "entry_at base log2 index = unat base + 8 * (unat index mod 2 ^ unat log2)"

section \<open>Transmit\<close>

definition frame_of :: "'h qed_face \<Rightarrow> nat \<Rightarrow> nat \<Rightarrow> 'h \<Rightarrow> u8 list \<times> 'h" where
  "frame_of F i n h =
     (case qf_load F h i ((n + 3) div 4) of (w, h) \<Rightarrow> (map (\<lambda>k. byte_of (k mod 4) (w ! (k div 4))) [0..<n], h))"

text \<open>One entry: why it is refused, or the frame with its checksums.\<close>

definition tx_entry :: "'h qed_face \<Rightarrow> qed_state \<Rightarrow> u16 \<Rightarrow> 'h \<Rightarrow> (refusal + u8 list) \<times> 'h" where
  "tx_entry F u index h =
     (case qf_load F h (entry_at (qs_tx_base u) (qs_tx_log2 u) index) 2 of (w, h) \<Rightarrow>
        let addr = w ! 0 AND QED_ADDRESS; len = w ! 1
        in if unat len < QED_MIN_FRAME \<or> QED_MAX_FRAME < unat len then (Inl (Length len), h)
           else if addr AND QED_LINE \<noteq> 0 then (Inl (Off_line addr), h)
           else if qf_words F < unat addr + (unat len + 3) div 4 then (Inl (Past_memory addr), h)
           else case frame_of F (unat addr) (unat len) h of (frame, h) \<Rightarrow>
             (case qed_transmit frame of (None, frame) \<Rightarrow> Inr frame | (Some why, _) \<Rightarrow> Inl (Refused why), h))"

definition tx_done :: "'h qed_face \<Rightarrow> u16 \<Rightarrow> refusal + u8 list \<Rightarrow> qed_ring \<Rightarrow> 'h \<Rightarrow> qed_ring \<times> 'h" where
  "tx_done F index r g h =
     (case r of
        Inl why \<Rightarrow>
          (let g = g\<lparr>g_tx_refusals := (g_tx_refusals g + 1) AND 0xFF\<rparr>;
               h = put_counts F g h
           in (log_line (Tx_refused index why) (trace (Tx_refused index why) g), h))
      | Inr frame \<Rightarrow> (let g = trace (Tx_sent frame) g in (g\<lparr>g_sent := g_sent g @ [frame]\<rparr>, h)))"

text \<open>The loop, with \<open>n\<close> entries left of \<^verbatim>\<open>most\<close>: how many 245 passed.\<close>

fun tx_loop :: "'h qed_face \<Rightarrow> u16 \<Rightarrow> qed_state \<Rightarrow> nat \<Rightarrow> u16 \<Rightarrow> qed_ring \<Rightarrow> 'h \<Rightarrow> nat \<times> qed_ring \<times> 'h" where
  "tx_loop F epoch u 0 cons g h = (0, g, h)"
| "tx_loop F epoch u (Suc n) cons g h =
     (if cons = qs_tx_prod u then (0, g, h)
      else case tx_entry F u cons h of (r, h) \<Rightarrow>
           case tx_done F cons r g h of (g, h) \<Rightarrow>
           case tx_loop F epoch u n (cons + 1) g (qf_sent F h epoch (cons + 1)) of (k, g, h) \<Rightarrow> (Suc k, g, h))"

definition qed_ring_transmit :: "'h qed_face \<Rightarrow> nat \<Rightarrow> qed_ring \<Rightarrow> 'h \<Rightarrow> nat \<times> qed_ring \<times> 'h" where
  "qed_ring_transmit F most g h =
     (case qf_state F h of (s, h) \<Rightarrow>
        if \<not> qs_enabled s \<or> qs_tx_prod s = qs_tx_cons s \<or> most = 0 then (0, g, h)
        else case qf_claim F h (qs_epoch s) of (claimed, h) \<Rightarrow>
          if \<not> claimed then (0, g, h)
          else case qf_state F h of (u, h) \<Rightarrow>
            if qs_epoch u \<noteq> qs_epoch s \<or> \<not> qs_enabled u then (0, g, qf_release F h)
            else case rings_fit F u g of (good, g) \<Rightarrow>
              if \<not> good then (0, g, qf_release F h)
              else case tx_loop F (qs_epoch s) u most (qs_tx_cons u) g h of (done, g, h) \<Rightarrow>
                (done, g, qf_release F h))"

section \<open>Receive\<close>

definition BROADCAST :: "u8 list" where
  "BROADCAST = replicate 6 0xFF"

text \<open>The frame's bytes into words, low byte first, over words that are 0.\<close>

definition frame_words :: "u8 list \<Rightarrow> u32 list" where
  "frame_words f =
     fold (\<lambda>k data. data[k div 4 := data ! (k div 4) OR push_bit (8 * (k mod 4)) (ucast (f ! k))]) [0..<length f]
       (replicate ((QED_MAX_FRAME + 3) div 4) 0)"

definition rx_reason :: "'h qed_face \<Rightarrow> nat \<Rightarrow> u16 \<Rightarrow> u32 \<Rightarrow> u32 \<Rightarrow> drop_why option" where
  "rx_reason F n index buf room =
     (if QED_MAX_FRAME < n then Some Too_long
      else if unat room < n then Some (Short_buffer index room)
      else if buf AND QED_LINE \<noteq> 0 then Some (Buffer_off_line index buf)
      else if qf_words F < unat buf + (n + 3) div 4 then Some (Buffer_past_memory index buf)
      else None)"

text \<open>The drops before a buffer is looked for, with what each counts.\<close>

definition rx_filter :: "qed_ring \<Rightarrow> u8 list \<Rightarrow> (drop_why \<times> qed_counter option) option" where
  "rx_filter g frame =
     (if length frame < 6 \<or> take 6 frame \<noteq> h_mac (g_host g) \<and> take 6 frame \<noteq> BROADCAST then Some (Not_ours, None)
      else map_option (\<lambda>(c, why). (Dropped why, Some c)) (qed_receive frame))"

definition rx_drop :: "'h qed_face \<Rightarrow> u8 list \<Rightarrow> drop_why \<Rightarrow> qed_ring \<Rightarrow> 'h \<Rightarrow> bool \<times> qed_ring \<times> 'h" where
  "rx_drop F frame why g h =
     (let g = g\<lparr>g_rx_drops := (g_rx_drops g + 1) AND 0xFF\<rparr>; h = put_counts F g h
      in (False, log_line (Rx_dropped frame why) (trace (Rx_dropped frame why) g), h))"

definition rx_claimed ::
    "'h qed_face \<Rightarrow> u16 \<Rightarrow> qed_state \<Rightarrow> u8 list \<Rightarrow> qed_ring \<Rightarrow> 'h \<Rightarrow> bool \<times> qed_ring \<times> 'h" where
  "rx_claimed F epoch u frame g h =
     (let index = qs_rx_cons u; e = entry_at (qs_rx_base u) (qs_rx_log2 u) index; n = length frame
      in case qf_load F h e 2 of (w, h) \<Rightarrow>
           let buf = w ! 0 AND QED_ADDRESS; room = w ! 1
           in case rx_reason F n index buf room of
                Some why \<Rightarrow> rx_drop F frame why g (qf_release F h)
              | None \<Rightarrow>
                  (let h = qf_store F h (unat buf) (take ((n + 3) div 4) (frame_words frame));
                       h = qf_store F h (e + 2) [of_nat n];
                       h = qf_delivered F h epoch (index + 1);
                       h = qf_release F h
                   in (True, trace (Rx_delivered frame index) g, h)))"

definition qed_ring_receive :: "'h qed_face \<Rightarrow> u8 list \<Rightarrow> qed_ring \<Rightarrow> 'h \<Rightarrow> bool \<times> qed_ring \<times> 'h" where
  "qed_ring_receive F frame g h =
     (case qf_state F h of (s, h) \<Rightarrow>
        if \<not> qs_enabled s then (False, trace (Rx_dropped frame Disabled) g, h)
        else case rx_filter g frame of
          Some (why, None) \<Rightarrow> (False, trace (Rx_dropped frame why) g, h)
        | Some (why, Some c) \<Rightarrow>
            (let g = (case c of QED_COUNT_TYPE \<Rightarrow> g\<lparr>g_type_drops := (g_type_drops g + 1) AND 0xF\<rparr>
                      | QED_COUNT_IPV4 \<Rightarrow> g\<lparr>g_ipv4_drops := (g_ipv4_drops g + 1) AND 0x7F\<rparr>);
                 h = put_counts F g h
             in (False, log_line (Rx_dropped frame why) (trace (Rx_dropped frame why) g), h))
        | None \<Rightarrow>
            if qs_rx_prod s = qs_rx_cons s then rx_drop F frame No_buffer g h
            else case qf_claim F h (qs_epoch s) of (claimed, h) \<Rightarrow>
              if \<not> claimed then (False, trace (Rx_dropped frame Disabled) g, h)
              else case qf_state F h of (u, h) \<Rightarrow>
                if qs_epoch u \<noteq> qs_epoch s \<or> \<not> qs_enabled u then
                  (False, trace (Rx_dropped frame Disabled) g, qf_release F h)
                else case rings_fit F u g of (good, g) \<Rightarrow>
                  if \<not> good then (False, trace (Rx_dropped frame Disabled) g, qf_release F h)
                  else rx_claimed F (qs_epoch s) u frame g h)"

end
