(* ===== verification/Qed_Device.thy ===== *)
theory Qed_Device
  imports Qed_Ring
begin

text \<open>
  \<^verbatim>\<open>quux-ethernet-device.c\<close>: the log's limit, the tap's writes, the options, and the loop over the
  ring's two directions, with the tap and \<^verbatim>\<open>poll\<close> as the values they return, pass by pass.
\<close>

section \<open>The log and the tap\<close>

record limited =
  l_second :: int
  l_said :: nat
  l_held :: nat

datatype 'l limited_line = More nat | Line 'l

definition say_limited :: "int \<Rightarrow> 'l \<Rightarrow> limited \<Rightarrow> 'l limited_line list \<times> limited" where
  "say_limited now line l =
     (let (more, l) =
        (if now \<noteq> l_second l
         then (if l_held l \<noteq> 0 then [More (l_held l)] else [], l\<lparr>l_second := now, l_said := 0, l_held := 0\<rparr>)
         else ([], l))
      in if l_said l < 10 then (more @ [Line line], l\<lparr>l_said := l_said l + 1\<rparr>)
         else (more, l\<lparr>l_held := l_held l + 1\<rparr>))"

record tap =
  tap_lost :: nat
  tap_said :: int

text \<open>One frame: \<open>wrote\<close> is what the write returned, \<open>None\<close> for an error; whether a line is said.\<close>

definition tap_send :: "u8 list \<Rightarrow> nat option \<Rightarrow> int \<Rightarrow> tap \<Rightarrow> bool \<times> tap" where
  "tap_send frame wrote now t =
     (if wrote = Some (length frame) then (False, t)
      else let t = t\<lparr>tap_lost := tap_lost t + 1\<rparr>
           in if now \<noteq> tap_said t then (True, t\<lparr>tap_said := now\<rparr>) else (False, t))"

section \<open>The loop\<close>

datatype polled = Poll_failed int | Polled "nat option"

text \<open>
  What one pass finds: \<^verbatim>\<open>poll\<close>'s failure, or the events it reports, and what each read of the tap
  gives in turn, an error or a frame.
\<close>

record pass =
  ps_poll :: polled
  ps_reads :: "(int + u8 list) list"

abbreviation (input) EINTR :: int where "EINTR \<equiv> 4"
abbreviation (input) EAGAIN :: int where "EAGAIN \<equiv> 11"

datatype device_line = Poll_stopped int | Tap_failed nat | Read_failed int | Stopped

definition poll_breaks :: "polled \<Rightarrow> device_line option" where
  "poll_breaks p =
     (case p of
        Poll_failed e \<Rightarrow> if e \<noteq> EINTR then Some (Poll_stopped e) else None
      | Polled None \<Rightarrow> None
      | Polled (Some revents) \<Rightarrow>
          if bit revents 3 \<or> bit revents 4 \<or> bit revents 5 then Some (Tap_failed revents) else None)"

text \<open>The frames the tap holds, at most \<open>k\<close>; a read past what the tap gives is \<^verbatim>\<open>EAGAIN\<close>.\<close>

fun take_batch ::
    "'h qed_face \<Rightarrow> nat \<Rightarrow> (int + u8 list) list \<Rightarrow> qed_ring \<Rightarrow> 'h \<Rightarrow> device_line list \<times> qed_ring \<times> 'h" where
  "take_batch F 0 rs g h = ([], g, h)"
| "take_batch F (Suc k) [] g h = ([], g, h)"
| "take_batch F (Suc k) (Inl e # rs) g h = (if e \<noteq> EAGAIN \<and> e \<noteq> EINTR then [Read_failed e] else [], g, h)"
| "take_batch F (Suc k) (Inr f # rs) g h =
     (case qed_ring_receive F f g h of (_, g, h) \<Rightarrow> take_batch F k rs g h)"

definition device_pass :: "'h qed_face \<Rightarrow> pass \<Rightarrow> qed_ring \<Rightarrow> 'h \<Rightarrow> device_line list \<times> qed_ring \<times> 'h" where
  "device_pass F p g h =
     (case take_batch F 64 (ps_reads p) g h of (ls, g, h) \<Rightarrow>
      case qed_ring_transmit F 64 g h of (_, g, h) \<Rightarrow> (ls, g, h))"

text \<open>Until a signal, when the passes are over, or \<^verbatim>\<open>poll\<close> or the tap fails.\<close>

fun device_loop :: "'h qed_face \<Rightarrow> pass list \<Rightarrow> qed_ring \<Rightarrow> 'h \<Rightarrow> device_line list \<times> qed_ring \<times> 'h" where
  "device_loop F [] g h = ([Stopped], g, qf_release F h)"
| "device_loop F (p # ps) g h =
     (case poll_breaks (ps_poll p) of
        Some l \<Rightarrow> ([l, Stopped], g, qf_release F h)
      | None \<Rightarrow>
          (case device_pass F p g h of (ls, g, h) \<Rightarrow>
           case device_loop F ps g h of (ls', g, h) \<Rightarrow> (ls @ ls', g, h)))"

datatype start_err = Attach_failed attach_err | No_room u32 | Not_opened

text \<open>
  From the page's attach on: main memory of no more words than the board keeps room for, mapped,
  and the tap opened (\<open>opens\<close>); then 253 to 257, the counts as they stand, and the loop.
\<close>

definition device_run ::
    "'h page \<Rightarrow> nat \<Rightarrow> bool \<Rightarrow> qed_host \<Rightarrow> pass list \<Rightarrow> 'h \<Rightarrow> (start_err + device_line list \<times> qed_ring) \<times> 'h" where
  "device_run P room opens host ps h =
     (case qed_fabric_attach P h of
        (Inl e, h) \<Rightarrow> (Inl (Attach_failed e), h)
      | (Inr words, h) \<Rightarrow>
          if room < unat words then (Inl (No_room words), h)
          else if \<not> opens then (Inl Not_opened, h)
          else let F = qed_fabric_face P (unat words) in
            case qed_ring_init F host h of (g, h) \<Rightarrow>
            case device_loop F ps g h of (ls, g, h) \<Rightarrow> (Inr (ls, g), h))"

section \<open>The command line\<close>

record flags =
  fl_guard :: bool
  fl_trace :: bool
  fl_mac :: "string option"
  fl_address :: "string option"
  fl_gateway :: "string option"
  fl_logs :: "string list"

definition no_flags :: flags where
  "no_flags = \<lparr>fl_guard = True, fl_trace = False, fl_mac = None, fl_address = None, fl_gateway = None, fl_logs = []\<rparr>"

text \<open>The exit code, or the flags.\<close>

function main_args :: "string list \<Rightarrow> flags \<Rightarrow> nat + flags" where
  "main_args [] f = Inr f"
| "main_args (a # rest) f =
     (if a = ''--ethernet-mac'' \<and> rest \<noteq> [] then main_args (tl rest) (f\<lparr>fl_mac := Some (hd rest)\<rparr>)
      else if a = ''--ip-address'' \<and> rest \<noteq> [] then main_args (tl rest) (f\<lparr>fl_address := Some (hd rest)\<rparr>)
      else if a = ''--ip-gateway'' \<and> rest \<noteq> [] then main_args (tl rest) (f\<lparr>fl_gateway := Some (hd rest)\<rparr>)
      else if a = ''--ethernet-trace'' then main_args rest (f\<lparr>fl_trace := True\<rparr>)
      else if a = ''--no-guard'' then main_args rest (f\<lparr>fl_guard := False\<rparr>)
      else if a = ''--log'' \<and> rest \<noteq> [] then main_args (tl rest) (f\<lparr>fl_logs := fl_logs f @ [hd rest]\<rparr>)
      else if a = ''--help'' \<or> a = ''-h'' then Inl 0
      else Inl 2)"
  by pat_completeness auto
termination by (relation "measure (\<lambda>(as, _). length as)") (auto simp: less_Suc_eq_le)

text \<open>
  The program: its exit code and the page after it.  Whether the log opens, whether memory opens
  with the page in it, whether the fabric's tally reads as a loaded fabric's, and whether main
  memory and the tap open are given.
\<close>

record opens =
  op_log :: bool
  op_page :: bool
  op_tally :: bool
  op_tap :: bool

definition device_main :: "'h page \<Rightarrow> nat \<Rightarrow> opens \<Rightarrow> string list \<Rightarrow> pass list \<Rightarrow> 'h \<Rightarrow> nat \<times> 'h" where
  "device_main P room op args ps h =
     (case main_args args no_flags of
        Inl status \<Rightarrow> (status, h)
      | Inr f \<Rightarrow>
          if \<not> op_log op then (1, h)
          else case host_of_flags (fl_mac f) (fl_address f) (fl_gateway f) of
            Inl e \<Rightarrow> (2, h)
          | Inr host \<Rightarrow>
              if \<not> op_page op \<or> fl_guard f \<and> \<not> op_tally op then (1, h)
              else (case device_run P room (op_tap op) host ps h of (Inl e, h) \<Rightarrow> (1, h) | (Inr r, h) \<Rightarrow> (0, h)))"

section \<open>The log's limit\<close>

fun say_all :: "(int \<times> 'l) list \<Rightarrow> limited \<Rightarrow> 'l limited_line list \<times> limited" where
  "say_all [] l = ([], l)"
| "say_all ((now, x) # xs) l =
     (case say_limited now x l of (a, l) \<Rightarrow> case say_all xs l of (b, l) \<Rightarrow> (a @ b, l))"

fun line_weight :: "'l limited_line \<Rightarrow> nat" where
  "line_weight (More n) = n"
| "line_weight (Line x) = 1"

end
