(* ===== verification/Qed_Page.thy ===== *)
theory Qed_Page
  imports Qed_Ring
begin

text \<open>
  The model of the page \<^verbatim>\<open>qed_test.c\<close> puts in the fabric's place, with the rules it watches the
  program by.  Where the test disables the device at one chosen touch or claim, here the machine
  may move before every access to the page or the memory: a script of register writes, resets
  and changes of memory, any number before each access.  A breach of a rule is kept in
  \<open>s_bad\<close>, as the test counts its failures.
\<close>

unbundle bit_operations_syntax

section \<open>The device as the machine sees it\<close>

datatype machine_move = Reg_write nat u32 | Reset_devices | Poke nat u8

datatype breach =
    Read_unknown nat | Wrote_unknown nat u32 | Moved_245_past u16 | Moved_251_wrong u16
  | No_barrier | Touched_unclaimed | Touched_after_publish

record sim =
  s_mem :: "u8 list"
  s_enabled :: bool
  s_ie :: bool
  s_refused :: bool
  s_fault :: bool
  s_busy :: bool
  s_epoch :: u16
  s_tx_base :: u32
  s_tx_log2 :: u32
  s_rx_base :: u32
  s_rx_log2 :: u32
  s_tx_prod :: u16
  s_tx_cons :: u16
  s_rx_prod :: u16
  s_rx_cons :: u16
  s_rx_taken :: u16
  s_counts :: u32
  s_mac_high :: u32
  s_mac_low :: u32
  s_ip :: u32
  s_mask :: u32
  s_gw :: u32
  s_dirty :: bool
  s_published :: bool
  s_script :: "machine_move list list"
  s_bad :: "breach list"

definition sim_init :: "nat \<Rightarrow> machine_move list list \<Rightarrow> sim" where
  "sim_init words script =
     \<lparr>s_mem = replicate (5 * words) 0, s_enabled = False, s_ie = False, s_refused = False, s_fault = False,
      s_busy = False, s_epoch = 0, s_tx_base = 0, s_tx_log2 = 0, s_rx_base = 0, s_rx_log2 = 0, s_tx_prod = 0,
      s_tx_cons = 0, s_rx_prod = 0, s_rx_cons = 0, s_rx_taken = 0, s_counts = 0, s_mac_high = 0x0200,
      s_mac_low = 1, s_ip = 0xA9FE6402, s_mask = 0xFFFFFFFC, s_gw = 0xA9FE6401, s_dirty = False,
      s_published = False, s_script = script, s_bad = []\<rparr>"

definition sim_fits :: "sim \<Rightarrow> u32 \<Rightarrow> u32 \<Rightarrow> bool" where
  "sim_fits s base log2 \<longleftrightarrow> base AND 7 = 0 \<and> log2 \<le> 8 \<and> unat base + 8 * 2 ^ unat log2 \<le> mem_words (s_mem s)"

definition sim_disable :: "sim \<Rightarrow> sim" where
  "sim_disable s =
     (let s = (if s_enabled s then s\<lparr>s_epoch := s_epoch s + 1\<rparr> else s)
      in s\<lparr>s_enabled := False, s_ie := False, s_tx_prod := 0, s_tx_cons := 0, s_rx_prod := 0, s_rx_cons := 0,
           s_rx_taken := 0\<rparr>)"

definition sim_control :: "sim \<Rightarrow> u32 \<Rightarrow> sim" where
  "sim_control s v =
     (let on = s_enabled s; s = s\<lparr>s_refused := False, s_fault := False\<rparr>; enable = bit v 0; ie = bit v 8
      in if \<not> on \<and> enable then
           (if sim_fits s (s_tx_base s) (s_tx_log2 s) \<and> sim_fits s (s_rx_base s) (s_rx_log2 s)
            then s\<lparr>s_enabled := True, s_ie := ie\<rparr> else s\<lparr>s_refused := True\<rparr>)
         else if on \<and> \<not> enable then sim_disable s
         else if on then s\<lparr>s_ie := ie\<rparr> else s)"

definition sim_reg_write :: "sim \<Rightarrow> nat \<Rightarrow> u32 \<Rightarrow> sim" where
  "sim_reg_write s w v =
     (let on = s_enabled s; tx_n = push_bit (unat (s_tx_log2 s)) 1 :: u16; rx_n = push_bit (unat (s_rx_log2 s)) 1 :: u16;
          nw = ucast v :: u16
      in if w = 160 then sim_control s v
         else if w = 162 then (if on then s else s\<lparr>s_tx_base := v AND 0x0FFFFFFF\<rparr>)
         else if w = 163 then (if on then s else s\<lparr>s_tx_log2 := v AND 15\<rparr>)
         else if w = 166 then (if on then s else s\<lparr>s_rx_base := v AND 0x0FFFFFFF\<rparr>)
         else if w = 167 then (if on then s else s\<lparr>s_rx_log2 := v AND 15\<rparr>)
         else if w = 164 then
           (if \<not> on then s
            else if tx_n < nw - s_tx_cons s \<or> nw - s_tx_cons s < s_tx_prod s - s_tx_cons s then s\<lparr>s_fault := True\<rparr>
            else s\<lparr>s_tx_prod := nw\<rparr>)
         else if w = 168 then
           (if \<not> on then s
            else if rx_n < nw - s_rx_taken s \<or> nw - s_rx_taken s < s_rx_prod s - s_rx_taken s then s\<lparr>s_fault := True\<rparr>
            else s\<lparr>s_rx_prod := nw\<rparr>)
         else if w = 170 then
           (if \<not> on then s
            else if s_rx_cons s - s_rx_taken s < nw - s_rx_taken s then s\<lparr>s_fault := True\<rparr>
            else s\<lparr>s_rx_taken := nw\<rparr>)
         else s)"

fun sim_move :: "machine_move \<Rightarrow> sim \<Rightarrow> sim" where
  "sim_move (Reg_write w v) s = sim_reg_write s w v"
| "sim_move Reset_devices s = sim_disable s"
| "sim_move (Poke i b) s = s\<lparr>s_mem := (s_mem s)[i := b]\<rparr>"

text \<open>The machine's moves before the program's next access.\<close>

definition sim_turn :: "sim \<Rightarrow> sim" where
  "sim_turn s = (case s_script s of [] \<Rightarrow> s | ms # rest \<Rightarrow> fold sim_move ms (s\<lparr>s_script := rest\<rparr>))"

section \<open>The page as the program sees it\<close>

definition bad :: "breach \<Rightarrow> sim \<Rightarrow> sim" where
  "bad x s = s\<lparr>s_bad := s_bad s @ [x]\<rparr>"

definition sim_state :: "sim \<Rightarrow> u32" where
  "sim_state s =
     (if s_enabled s then 1 else 0) OR (if s_ie s then 2 else 0) OR (if s_busy s then 4 else 0) OR
     (if \<not> s_enabled s \<and> \<not> s_busy s then 8 else 0) OR push_bit 16 (ucast (s_epoch s))"

definition sim_val :: "sim \<Rightarrow> nat \<Rightarrow> u32 option" where
  "sim_val s i =
     (let on = (\<lambda>x. Some (if s_enabled s then ucast (x :: u16) else 0))
      in if i = OFF_IDENT then Some QED_IDENT_16
         else if i = OFF_MEM_WORDS then Some (of_nat (mem_words (s_mem s)))
         else if i = OFF_STATE then Some (sim_state s)
         else if i = OFF_CLAIM then Some (if s_busy s then 1 else 0)
         else if i = OFF_TX_BASE then Some (s_tx_base s)
         else if i = OFF_TX_LOG2 then Some (s_tx_log2 s)
         else if i = OFF_RX_BASE then Some (s_rx_base s)
         else if i = OFF_RX_LOG2 then Some (s_rx_log2 s)
         else if i = OFF_TX_PROD then on (s_tx_prod s)
         else if i = OFF_TX_CONS then on (s_tx_cons s)
         else if i = OFF_RX_PROD then on (s_rx_prod s)
         else if i = OFF_RX_CONS then on (s_rx_cons s)
         else if i = OFF_RX_TAKEN then on (s_rx_taken s)
         else if i = OFF_COUNTS then Some (s_counts s)
         else if i = OFF_MAC_HIGH then Some (s_mac_high s)
         else if i = OFF_MAC_LOW then Some (s_mac_low s)
         else if i = OFF_IP_ADDRESS then Some (s_ip s)
         else if i = OFF_NETMASK then Some (s_mask s)
         else if i = OFF_GATEWAY then Some (s_gw s)
         else None)"

definition sim_rd :: "sim \<Rightarrow> nat \<Rightarrow> u32 \<times> sim" where
  "sim_rd s0 i =
     (let s = sim_turn s0 in case sim_val s i of Some v \<Rightarrow> (v, s) | None \<Rightarrow> (0, bad (Read_unknown i) s))"

definition wr_claim :: "sim \<Rightarrow> u32 \<Rightarrow> sim" where
  "wr_claim s v =
     (let s = s\<lparr>s_published := False\<rparr>
      in if bit v 0 then
           (if s_enabled s \<and> ucast (drop_bit 16 v) = s_epoch s then s\<lparr>s_busy := True\<rparr> else s)
         else s\<lparr>s_busy := False\<rparr>)"

definition wr_tx_cons :: "sim \<Rightarrow> u32 \<Rightarrow> sim" where
  "wr_tx_cons s v =
     (let epoch = ucast (drop_bit 16 v) :: u16; index = ucast v :: u16
      in if \<not> s_enabled s \<or> epoch \<noteq> s_epoch s then s
         else if s_tx_prod s - s_tx_cons s < index - s_tx_cons s then bad (Moved_245_past index) s
         else s\<lparr>s_tx_cons := index\<rparr>)"

definition wr_rx_cons :: "sim \<Rightarrow> u32 \<Rightarrow> sim" where
  "wr_rx_cons s v =
     (let epoch = ucast (drop_bit 16 v) :: u16; index = ucast v :: u16
      in if \<not> s_enabled s \<or> epoch \<noteq> s_epoch s then s
         else let s = (if s_dirty s then bad No_barrier s else s);
                  s = (if index = s_rx_cons s \<or> s_rx_prod s - s_rx_cons s < index - s_rx_cons s
                       then bad (Moved_251_wrong index) s else s\<lparr>s_rx_cons := index\<rparr>)
              in s\<lparr>s_published := True\<rparr>)"

definition sim_wr :: "sim \<Rightarrow> nat \<Rightarrow> u32 \<Rightarrow> sim" where
  "sim_wr s0 i v =
     (let s = sim_turn s0
      in if i = OFF_CLAIM then wr_claim s v
         else if i = OFF_TX_CONS then wr_tx_cons s v
         else if i = OFF_RX_CONS then wr_rx_cons s v
         else if i = OFF_COUNTS then s\<lparr>s_counts := v AND QED_COUNTS_MASK\<rparr>
         else if i = OFF_MAC_HIGH then s\<lparr>s_mac_high := v AND 0xFFFF\<rparr>
         else if i = OFF_MAC_LOW then s\<lparr>s_mac_low := v\<rparr>
         else if i = OFF_IP_ADDRESS then s\<lparr>s_ip := v\<rparr>
         else if i = OFF_NETMASK then s\<lparr>s_mask := v\<rparr>
         else if i = OFF_GATEWAY then s\<lparr>s_gw := v\<rparr>
         else bad (Wrote_unknown i v) s)"

definition sim_touch :: "sim \<Rightarrow> sim" where
  "sim_touch s0 =
     (let s = sim_turn s0;
          s = (if s_busy s then s else bad Touched_unclaimed s);
          s = (if s_published s then bad Touched_after_publish s else s)
      in s\<lparr>s_dirty := True\<rparr>)"

text \<open>
  \<^verbatim>\<open>qed_mem_read\<close> and \<^verbatim>\<open>qed_mem_write\<close> with the page's touch in them: a run of at most 64 words at a
  time, each word touched before the run is moved.
\<close>

fun touches :: "nat \<Rightarrow> sim \<Rightarrow> sim" where
  "touches 0 s = s"
| "touches (Suc c) s = touches c (sim_touch s)"

function sim_load :: "sim \<Rightarrow> nat \<Rightarrow> nat \<Rightarrow> u32 list \<times> sim" where
  "sim_load s k n =
     (if n = 0 then ([], s)
      else let c = min n 64; s = touches c s
           in case sim_load s (k + c) (n - c) of (ws, t) \<Rightarrow> (qed_mem_read (s_mem s) k c @ ws, t))"
  by auto
termination by (relation "measure (\<lambda>(_, _, n). n)") auto

function sim_store :: "sim \<Rightarrow> nat \<Rightarrow> u32 list \<Rightarrow> sim" where
  "sim_store s k ws =
     (if ws = [] then s
      else let c = min (length ws) 64; s = touches c s
           in sim_store (s\<lparr>s_mem := qed_mem_write (s_mem s) k (take c ws)\<rparr>) (k + c) (drop c ws))"
  by auto
termination by (relation "measure (\<lambda>(_, _, ws). length ws)") auto

declare sim_load.simps [simp del] sim_store.simps [simp del]

definition sim_page :: "sim page" where
  "sim_page = \<lparr>pg_rd = sim_rd, pg_wr = sim_wr, pg_barrier = (\<lambda>s. (sim_turn s)\<lparr>s_dirty := False\<rparr>),
     pg_load = sim_load, pg_store = sim_store\<rparr>"

definition sim_face :: "nat \<Rightarrow> sim qed_face" where
  "sim_face words = qed_fabric_face sim_page words"

end
