(* ===== verification/Qed_Watch.thy ===== *)
theory Qed_Watch
  imports Qed_Page
begin

text \<open>
  The Ethernet device between the program's accesses.  \<open>dev_step\<close> is what one move of the machine
  may do to the device: the registers' indexes go forward while it is on, and turning it off
  resets them and advances the epoch.  A program that reads an index may rely on it for as long
  as the epoch it read stands: the locale \<open>watched\<close> says of what that is true, and
  \<open>guard\<close> that it is, as long as the epoch has not come round.
\<close>

unbundle bit_operations_syntax

section \<open>What the machine may do to the device\<close>

record dev =
  d_on :: bool
  d_epoch :: u16
  d_tx_prod :: u16
  d_tx_cons :: u16
  d_rx_prod :: u16
  d_rx_cons :: u16
  d_rx_taken :: u16

definition dev_of :: "sim \<Rightarrow> dev" where
  "dev_of s = \<lparr>d_on = s_enabled s, d_epoch = s_epoch s, d_tx_prod = s_tx_prod s, d_tx_cons = s_tx_cons s,
     d_rx_prod = s_rx_prod s, d_rx_cons = s_rx_cons s, d_rx_taken = s_rx_taken s\<rparr>"

definition dev_off :: "u16 \<Rightarrow> dev" where
  "dev_off e = \<lparr>d_on = False, d_epoch = e, d_tx_prod = 0, d_tx_cons = 0, d_rx_prod = 0, d_rx_cons = 0, d_rx_taken = 0\<rparr>"

inductive dev_step :: "dev \<Rightarrow> dev \<Rightarrow> bool" where
  dev_same: "dev_step d d"
| dev_enable: "\<not> d_on d \<Longrightarrow> dev_step d (d\<lparr>d_on := True\<rparr>)"
| dev_idle: "\<not> d_on d \<Longrightarrow> dev_step d (dev_off (d_epoch d))"
| dev_disable: "d_on d \<Longrightarrow> dev_step d (dev_off (d_epoch d + 1))"
| dev_tx_prod: "d_on d \<Longrightarrow> d_tx_prod d - d_tx_cons d \<le> p - d_tx_cons d \<Longrightarrow> dev_step d (d\<lparr>d_tx_prod := p\<rparr>)"
| dev_rx_prod: "d_on d \<Longrightarrow> d_rx_prod d - d_rx_taken d \<le> p - d_rx_taken d \<Longrightarrow> dev_step d (d\<lparr>d_rx_prod := p\<rparr>)"
| dev_rx_taken: "d_on d \<Longrightarrow> p - d_rx_taken d \<le> d_rx_cons d - d_rx_taken d \<Longrightarrow> dev_step d (d\<lparr>d_rx_taken := p\<rparr>)"

lemma dev_of_upd [simp]:
  "dev_of (s\<lparr>s_mem := m\<rparr>) = dev_of s" "dev_of (s\<lparr>s_ie := b\<rparr>) = dev_of s"
  "dev_of (s\<lparr>s_refused := b\<rparr>) = dev_of s" "dev_of (s\<lparr>s_fault := b\<rparr>) = dev_of s" "dev_of (s\<lparr>s_busy := b\<rparr>) = dev_of s"
  "dev_of (s\<lparr>s_dirty := b\<rparr>) = dev_of s" "dev_of (s\<lparr>s_published := b\<rparr>) = dev_of s"
  "dev_of (s\<lparr>s_script := z\<rparr>) = dev_of s" "dev_of (s\<lparr>s_bad := y\<rparr>) = dev_of s" "dev_of (s\<lparr>s_counts := v\<rparr>) = dev_of s"
  "dev_of (s\<lparr>s_tx_base := v\<rparr>) = dev_of s" "dev_of (s\<lparr>s_tx_log2 := v\<rparr>) = dev_of s"
  "dev_of (s\<lparr>s_rx_base := v\<rparr>) = dev_of s" "dev_of (s\<lparr>s_rx_log2 := v\<rparr>) = dev_of s"
  "dev_of (s\<lparr>s_mac_high := v\<rparr>) = dev_of s" "dev_of (s\<lparr>s_mac_low := v\<rparr>) = dev_of s"
  "dev_of (s\<lparr>s_ip := v\<rparr>) = dev_of s" "dev_of (s\<lparr>s_mask := v\<rparr>) = dev_of s" "dev_of (s\<lparr>s_gw := v\<rparr>) = dev_of s"
  "dev_of (s\<lparr>s_enabled := b\<rparr>) = (dev_of s)\<lparr>d_on := b\<rparr>" "dev_of (s\<lparr>s_epoch := e\<rparr>) = (dev_of s)\<lparr>d_epoch := e\<rparr>"
  "dev_of (s\<lparr>s_tx_prod := e\<rparr>) = (dev_of s)\<lparr>d_tx_prod := e\<rparr>" "dev_of (s\<lparr>s_tx_cons := e\<rparr>) = (dev_of s)\<lparr>d_tx_cons := e\<rparr>"
  "dev_of (s\<lparr>s_rx_prod := e\<rparr>) = (dev_of s)\<lparr>d_rx_prod := e\<rparr>" "dev_of (s\<lparr>s_rx_cons := e\<rparr>) = (dev_of s)\<lparr>d_rx_cons := e\<rparr>"
  "dev_of (s\<lparr>s_rx_taken := e\<rparr>) = (dev_of s)\<lparr>d_rx_taken := e\<rparr>"
  by (simp_all add: dev_of_def)

lemma s_dev:
  "s_enabled s = d_on (dev_of s)" "s_epoch s = d_epoch (dev_of s)" "s_tx_prod s = d_tx_prod (dev_of s)"
  "s_tx_cons s = d_tx_cons (dev_of s)" "s_rx_prod s = d_rx_prod (dev_of s)" "s_rx_cons s = d_rx_cons (dev_of s)"
  "s_rx_taken s = d_rx_taken (dev_of s)"
  by (simp_all add: dev_of_def)

lemma dev_disable_of: "dev_of (sim_disable s) = dev_off (d_epoch (dev_of s) + (if d_on (dev_of s) then 1 else 0))"
  by (simp add: sim_disable_def Let_def dev_off_def dev_of_def)

lemma disable_step: "dev_step (dev_of s) (dev_of (sim_disable s))"
  using dev_step.dev_idle [of "dev_of s"] dev_step.dev_disable [of "dev_of s"] by (simp add: dev_disable_of)

lemma control_step: "dev_step (dev_of s) (dev_of (sim_control s v))"
  using dev_step.dev_idle [of "dev_of s"] dev_step.dev_disable [of "dev_of s"]
  by (auto simp: sim_control_def Let_def dev_disable_of s_dev intro: dev_step.intros)

lemma reg_write_step: "dev_step (dev_of s) (dev_of (sim_reg_write s w v))"
proof -
  consider "w = 160" | "w = 164" | "w = 168" | "w = 170" | "w \<notin> {160, 164, 168, 170}" by blast
  then show ?thesis
    by cases (auto simp: sim_reg_write_def control_step Let_def s_dev not_less intro: dev_step.intros)
qed

lemma move_step: "dev_step (dev_of s) (dev_of (sim_move m s))"
  by (cases m) (auto simp: reg_write_step disable_step intro: dev_step.intros)

text \<open>What no move of the machine changes.\<close>

lemma move_frame:
  "s_busy (sim_move m s) = s_busy s" "s_dirty (sim_move m s) = s_dirty s"
  "s_published (sim_move m s) = s_published s" "s_bad (sim_move m s) = s_bad s"
  "s_script (sim_move m s) = s_script s" "length (s_mem (sim_move m s)) = length (s_mem s)"
  by (cases m; simp add: sim_reg_write_def sim_control_def sim_disable_def Let_def)+

section \<open>The device's indexes\<close>

definition dev_ok :: "dev \<Rightarrow> bool" where
  "dev_ok d \<longleftrightarrow> d_rx_cons d - d_rx_taken d \<le> d_rx_prod d - d_rx_taken d \<and> (\<not> d_on d \<longrightarrow> d = dev_off (d_epoch d))"

lemma diff_le_shift: "a \<le> p \<Longrightarrow> p \<le> w \<Longrightarrow> p - a \<le> w - a" for a p w :: u16
  using order_trans [of a p w] by (simp add: word_le_nat_alt unat_sub)

lemma between_from: "c - t \<le> p - t \<Longrightarrow> p - t \<le> w - t \<Longrightarrow> p - c \<le> w - c" for c t p w :: u16
  using diff_le_shift [of "c - t" "p - t" "w - t"] by simp

lemma further_from: "i - c \<le> p - c \<Longrightarrow> c - t \<le> p - t \<Longrightarrow> i - t \<le> p - t" for i c t p :: u16
proof -
  assume le: "i - c \<le> p - c" "c - t \<le> p - t"
  have "unat (p - c) + unat (c - t) = unat (p - t)"
    using unat_sub [OF le(2)] le(2) by (simp add: word_le_nat_alt)
  then have "unat ((i - c) + (c - t)) \<le> unat (p - t)"
    using le(1) unat_word_ariths(1) [of "i - c" "c - t"]
    by (simp add: word_le_nat_alt mod_less_eq_dividend le_trans [OF mod_less_eq_dividend])
  then show ?thesis by (simp add: word_le_nat_alt)
qed

lemma dev_step_ok: "dev_step d d' \<Longrightarrow> dev_ok d \<Longrightarrow> dev_ok d'"
  by (induction rule: dev_step.induct)
    (auto simp: dev_ok_def dev_off_def intro: order_trans between_from)

section \<open>Accesses the device does not see\<close>

text \<open>The moves that may turn the device off and so advance its epoch.\<close>

fun disabling :: "machine_move \<Rightarrow> bool" where
  "disabling (Reg_write w v) \<longleftrightarrow> w = 160 \<and> \<not> bit v 0"
| "disabling Reset_devices \<longleftrightarrow> True"
| "disabling (Poke i b) \<longleftrightarrow> False"

definition disables :: "sim \<Rightarrow> nat" where
  "disables s = length (filter disabling (concat (s_script s)))"

lemma move_epoch: "\<not> disabling m \<Longrightarrow> d_epoch (dev_of (sim_move m s)) = d_epoch (dev_of s)"
  by (cases m) (simp_all add: sim_reg_write_def sim_control_def Let_def)

text \<open>Steps of the device in a row, no more than \<open>k\<close> of them advancing the epoch.\<close>

inductive dev_run :: "nat \<Rightarrow> dev \<Rightarrow> dev \<Rightarrow> bool" where
  run_none: "dev_run 0 d d"
| run_keep: "dev_run k d c \<Longrightarrow> dev_step c d' \<Longrightarrow> d_epoch d' = d_epoch c \<Longrightarrow> dev_run k d d'"
| run_bump: "dev_run k d c \<Longrightarrow> dev_step c d' \<Longrightarrow> dev_run (Suc k) d d'"

lemma dev_run_trans: "dev_run l b c \<Longrightarrow> dev_run k a b \<Longrightarrow> dev_run (k + l) a c"
  by (induction arbitrary: k rule: dev_run.induct) (auto intro: dev_run.intros)

text \<open>
  From one state to another with no more of the device changed than the machine's own moves
  account for, each disable spent once; and with nothing of what the program is watched by.
\<close>

definition drift :: "sim \<Rightarrow> sim \<Rightarrow> bool" where
  "drift s t \<longleftrightarrow> (\<exists>k. dev_run k (dev_of s) (dev_of t) \<and> k + disables t \<le> disables s)"

definition calm :: "sim \<Rightarrow> sim \<Rightarrow> bool" where
  "calm s t \<longleftrightarrow> drift s t \<and> s_busy t = s_busy s \<and> s_published t = s_published s \<and> s_bad t = s_bad s"

lemma drift_trans [trans]: "drift r s \<Longrightarrow> drift s t \<Longrightarrow> drift r t"
proof -
  assume a: "drift r s" and b: "drift s t"
  obtain k l where k: "dev_run k (dev_of r) (dev_of s)" "k + disables s \<le> disables r"
    and l: "dev_run l (dev_of s) (dev_of t)" "l + disables t \<le> disables s"
    using a b by (auto simp: drift_def)
  have "dev_run (k + l) (dev_of r) (dev_of t)"
    by (rule dev_run_trans [OF l(1) k(1)])
  then show ?thesis
    using k(2) l(2) by (auto simp: drift_def intro!: exI [of _ "k + l"])
qed

lemma calm_refl [simp]: "calm s s"
  unfolding calm_def drift_def by (intro conjI exI [of _ 0]) (auto intro: run_none)

lemma calm_trans [trans]: "calm r s \<Longrightarrow> calm s t \<Longrightarrow> calm r t"
  by (auto simp: calm_def intro: drift_trans)

lemma calm_drift: "calm s t \<Longrightarrow> drift s t"
  by (simp add: calm_def)

lemma dev_steps_ok: "dev_run k d d' \<Longrightarrow> dev_ok d \<Longrightarrow> dev_ok d'"
  by (induction rule: dev_run.induct) (auto intro: dev_step_ok)

lemma drift_ok: "drift s t \<Longrightarrow> dev_ok (dev_of s) \<Longrightarrow> dev_ok (dev_of t)"
  by (auto simp: drift_def intro: dev_steps_ok)

lemma drift_disables: "drift s t \<Longrightarrow> disables t \<le> disables s"
  by (auto simp: drift_def)

lemmas calm_ok = drift_ok [OF calm_drift]
lemmas calm_disables = drift_disables [OF calm_drift]

lemma calm_watch: "calm s t \<Longrightarrow> s_busy t = s_busy s" "calm s t \<Longrightarrow> s_published t = s_published s"
    "calm s t \<Longrightarrow> s_bad t = s_bad s"
  by (simp_all add: calm_def)

text \<open>The machine's moves before an access: each is one step of the device.\<close>

lemma fold_moves:
  "dev_run (length (filter disabling ms)) (dev_of s) (dev_of (fold sim_move ms s))"
  "s_busy (fold sim_move ms s) = s_busy s \<and> s_dirty (fold sim_move ms s) = s_dirty s \<and>
   s_published (fold sim_move ms s) = s_published s \<and> s_bad (fold sim_move ms s) = s_bad s \<and>
   s_script (fold sim_move ms s) = s_script s \<and> length (s_mem (fold sim_move ms s)) = length (s_mem s)"
proof (induction ms arbitrary: s)
  case (Cons m ms)
  { case 1
    have "dev_run (if disabling m then 1 else 0) (dev_of s) (dev_of (sim_move m s))"
      using move_epoch [of m s] move_step [of s m] run_none [of "dev_of s"] by (auto intro: run_keep run_bump)
    then show ?case using dev_run_trans [OF Cons.IH(1)] by fastforce
  next
    case 2
    show ?case using Cons.IH(2) [of "sim_move m s"] by (simp add: move_frame) }
qed (simp_all add: run_none)

lemma turn_frame:
  "s_busy (sim_turn s) = s_busy s" "s_dirty (sim_turn s) = s_dirty s" "s_published (sim_turn s) = s_published s"
  "s_bad (sim_turn s) = s_bad s" "length (s_mem (sim_turn s)) = length (s_mem s)"
  by (auto simp: sim_turn_def fold_moves(2) split: list.splits)

lemma calm_turn: "calm s (sim_turn s)"
proof (cases "s_script s")
  case Nil
  then show ?thesis by (simp add: sim_turn_def)
next
  case (Cons ms rest)
  let ?t = "fold sim_move ms (s\<lparr>s_script := rest\<rparr>)"
  have "dev_run (length (filter disabling ms)) (dev_of s) (dev_of ?t)" using fold_moves(1) [of ms "s\<lparr>s_script := rest\<rparr>"] by simp
  moreover have "length (filter disabling ms) + disables ?t \<le> disables s" using Cons by (simp add: disables_def fold_moves(2))
  ultimately show ?thesis using Cons by (auto simp: calm_def drift_def sim_turn_def fold_moves(2))
qed

text \<open>An access that changes nothing but what \<open>calm\<close> does not look at.\<close>

lemma calm_by:
  "calm s t \<Longrightarrow> dev_of t' = dev_of t \<Longrightarrow> s_script t' = s_script t \<Longrightarrow> s_busy t' = s_busy t \<Longrightarrow>
   s_published t' = s_published t \<Longrightarrow> s_bad t' = s_bad t \<Longrightarrow> calm s t'"
  by (simp add: calm_def drift_def disables_def)

lemma drift_by: "drift s t \<Longrightarrow> dev_of t' = dev_of t \<Longrightarrow> s_script t' = s_script t \<Longrightarrow> drift s t'"
  by (simp add: drift_def disables_def)

section \<open>What holds while the epoch stands\<close>

definition guard :: "u16 \<Rightarrow> (dev \<Rightarrow> bool) \<Rightarrow> sim \<Rightarrow> bool" where
  "guard e Q s \<longleftrightarrow>
     dev_ok (dev_of s) \<and>
     (\<exists>n. s_epoch s = e + of_nat n \<and> n + disables s < 65536 \<and> (n = 0 \<longrightarrow> s_enabled s \<and> Q (dev_of s)))"

lemma of_nat_u16: "n < 65536 \<Longrightarrow> m < 65536 \<Longrightarrow> (of_nat n :: u16) = of_nat m \<Longrightarrow> n = m"
  using word_of_nat_eq_iff [of n m, where 'a = 16] by (simp add: take_bit_eq_mod)

lemma guard_now: "guard e Q s \<Longrightarrow> s_epoch s = e \<Longrightarrow> s_enabled s \<and> Q (dev_of s)"
proof -
  assume g: "guard e Q s" and e: "s_epoch s = e"
  obtain n where n: "s_epoch s = e + of_nat n" "n + disables s < 65536" "n = 0 \<longrightarrow> s_enabled s \<and> Q (dev_of s)"
    using g by (auto simp: guard_def)
  have "n = 0" using n(1, 2) e of_nat_u16 [of n 0] by simp
  then show ?thesis using n(3) by simp
qed

lemma guard_start:
  "dev_ok (dev_of s) \<Longrightarrow> disables s < 65536 \<Longrightarrow> s_enabled s \<Longrightarrow> s_epoch s = e \<Longrightarrow> Q (dev_of s) \<Longrightarrow> guard e Q s"
  unfolding guard_def by (intro conjI exI [of _ 0]) auto

lemma guard_and: "guard e Q s \<Longrightarrow> guard e R s \<Longrightarrow> guard e (\<lambda>d. Q d \<and> R d) s"
  unfolding guard_def
proof (elim conjE exE, intro conjI)
  fix n m assume "s_epoch s = e + of_nat n" "n + disables s < 65536" "s_epoch s = e + of_nat m" "m + disables s < 65536"
    and Q: "n = 0 \<longrightarrow> s_enabled s \<and> Q (dev_of s)" and R: "m = 0 \<longrightarrow> s_enabled s \<and> R (dev_of s)"
  moreover then have "n = m" by (intro of_nat_u16) auto
  ultimately show "\<exists>n. s_epoch s = e + of_nat n \<and> n + disables s < 65536 \<and>
      (n = 0 \<longrightarrow> s_enabled s \<and> Q (dev_of s) \<and> R (dev_of s))"
    by (intro exI [of _ n]) auto
qed

lemma guard_add: "guard e Q s \<Longrightarrow> (s_epoch s = e \<Longrightarrow> s_enabled s \<Longrightarrow> Q (dev_of s) \<Longrightarrow> R (dev_of s)) \<Longrightarrow> guard e R s"
proof -
  assume g: "guard e Q s" and R: "s_epoch s = e \<Longrightarrow> s_enabled s \<Longrightarrow> Q (dev_of s) \<Longrightarrow> R (dev_of s)"
  obtain n where n: "s_epoch s = e + of_nat n" "n + disables s < 65536" "n = 0 \<longrightarrow> s_enabled s \<and> Q (dev_of s)"
    using g by (auto simp: guard_def)
  have "n = 0 \<longrightarrow> s_enabled s \<and> R (dev_of s)" using n R by auto
  then show ?thesis using g n(1, 2) unfolding guard_def by blast
qed

text \<open>
  What a program may rely on of the device between its accesses: anything that no step the
  machine takes with the device on breaks.
\<close>

locale watched =
  fixes Q :: "dev \<Rightarrow> bool"
  assumes stays: "dev_step d d' \<Longrightarrow> dev_ok d \<Longrightarrow> d_on d \<Longrightarrow> d_on d' \<Longrightarrow> Q d \<Longrightarrow> Q d'"
begin

lemma one_step:
  assumes "dev_step d d'" "dev_ok d" "d_epoch d = e + of_nat n" "n = 0 \<longrightarrow> d_on d \<and> Q d"
  shows "\<exists>m\<le>(if d_epoch d' = d_epoch d then n else Suc n). d_epoch d' = e + of_nat m \<and> (m = 0 \<longrightarrow> d_on d' \<and> Q d')"
proof (cases "d_epoch d' = d_epoch d")
  case True
  then have "d_on d \<longrightarrow> d_on d'" using assms(1) by (auto simp: dev_off_def elim!: dev_step.cases)
  then show ?thesis using True assms stays by (intro exI [of _ n]) auto
next
  case False
  then have "d_epoch d' = d_epoch d + 1" using assms(1) by (auto simp: dev_off_def elim!: dev_step.cases)
  then show ?thesis using assms(3) by (intro exI [of _ "Suc n"]) auto
qed

lemma steps:
  assumes "dev_run k d d'" "dev_ok d" "d_epoch d = e + of_nat n" "n = 0 \<longrightarrow> d_on d \<and> Q d"
  shows "\<exists>m\<le>n + k. d_epoch d' = e + of_nat m \<and> (m = 0 \<longrightarrow> d_on d' \<and> Q d')"
  using assms
proof (induction rule: dev_run.induct)
  case (run_keep k d c d')
  obtain m where m: "m \<le> n + k" "d_epoch c = e + of_nat m" "m = 0 \<longrightarrow> d_on c \<and> Q c"
    using run_keep.IH run_keep.prems by blast
  show ?case
    using one_step [OF run_keep.hyps(2) dev_steps_ok [OF run_keep.hyps(1) run_keep.prems(1)] m(2, 3)] m(1) run_keep.hyps(3)
    by (auto intro: order_trans)
next
  case (run_bump k d c d')
  obtain m where m: "m \<le> n + k" "d_epoch c = e + of_nat m" "m = 0 \<longrightarrow> d_on c \<and> Q c"
    using run_bump.IH run_bump.prems by blast
  obtain l where "l \<le> Suc m" "d_epoch d' = e + of_nat l" "l = 0 \<longrightarrow> d_on d' \<and> Q d'"
    using one_step [OF run_bump.hyps(2) dev_steps_ok [OF run_bump.hyps(1) run_bump.prems(1)] m(2, 3)]
    by (auto split: if_splits intro: le_SucI)
  then show ?case using m(1) by (intro exI [of _ l]) simp
qed auto

lemma guard_drift:
  assumes "drift s t" "guard e Q s"
  shows "guard e Q t"
proof -
  obtain k where k: "dev_run k (dev_of s) (dev_of t)" "k + disables t \<le> disables s" using assms(1) by (auto simp: drift_def)
  obtain n where n: "d_epoch (dev_of s) = e + of_nat n" "n + disables s < 65536" "n = 0 \<longrightarrow> d_on (dev_of s) \<and> Q (dev_of s)"
    and ok: "dev_ok (dev_of s)" using assms(2) by (auto simp: guard_def s_dev)
  obtain m where "m \<le> n + k" "d_epoch (dev_of t) = e + of_nat m" "m = 0 \<longrightarrow> d_on (dev_of t) \<and> Q (dev_of t)"
    using steps [OF k(1) ok n(1, 3)] by blast
  then show ?thesis using n(2) k(2) drift_ok [OF assms(1) ok] by (auto simp: guard_def s_dev intro!: exI [of _ m])
qed

lemmas guard_calm = guard_drift [OF calm_drift]

end

text \<open>The four indexes as the program has read them: its own stand, the machine's go ahead.\<close>

definition tx_cons_at :: "u16 \<Rightarrow> dev \<Rightarrow> bool" where "tx_cons_at c d \<longleftrightarrow> d_tx_cons d = c"
definition tx_prod_past :: "u16 \<Rightarrow> dev \<Rightarrow> bool" where
  "tx_prod_past p d \<longleftrightarrow> p - d_tx_cons d \<le> d_tx_prod d - d_tx_cons d"
definition rx_cons_at :: "u16 \<Rightarrow> dev \<Rightarrow> bool" where "rx_cons_at c d \<longleftrightarrow> d_rx_cons d = c"
definition rx_prod_past :: "u16 \<Rightarrow> dev \<Rightarrow> bool" where
  "rx_prod_past p d \<longleftrightarrow> p - d_rx_cons d \<le> d_rx_prod d - d_rx_cons d"

interpretation any: watched "\<lambda>_. b" for b
  by unfold_locales simp

interpretation tc: watched "tx_cons_at c" for c
  by unfold_locales (auto simp: tx_cons_at_def dev_off_def elim!: dev_step.cases)

interpretation tp: watched "tx_prod_past p" for p
  by unfold_locales (auto simp: tx_prod_past_def dev_off_def elim!: dev_step.cases)

interpretation rc: watched "rx_cons_at c" for c
  by unfold_locales (auto simp: rx_cons_at_def dev_off_def elim!: dev_step.cases)

interpretation rp: watched "rx_prod_past p" for p
  by unfold_locales
    (auto simp: rx_prod_past_def dev_off_def dev_ok_def intro: order_trans [OF _ between_from] elim!: dev_step.cases)

end
