(* ===== verification/Qed_Rules.thy ===== *)
theory Qed_Rules
  imports Qed_Watch
begin

text \<open>
  The ring's two directions keep the rules of the page, whatever the machine does between any two
  of their accesses.
\<close>

unbundle bit_operations_syntax

section \<open>The face's operations on the page\<close>

lemma sim_state_fields: "bit (sim_state s) 0 = s_enabled s" "ucast (drop_bit 16 (sim_state s)) = s_epoch s"
proof -
  show "bit (sim_state s) 0 = s_enabled s" by (simp add: sim_state_def bit_simps)
  have "drop_bit 16 (sim_state s) = drop_bit 16 (push_bit 16 (ucast (s_epoch s)))"
    unfolding sim_state_def drop_bit_or by (simp del: drop_bit_push_bit push_bit_of_1)
  then show "ucast (drop_bit 16 (sim_state s)) = s_epoch s" by (simp only: stamp_epoch)
qed

text \<open>Any read of a register the device has is a turn of the machine.\<close>

fun turns :: "nat \<Rightarrow> sim \<Rightarrow> sim" where
  "turns 0 s = s"
| "turns (Suc n) s = turns n (sim_turn s)"

lemma calm_turns: "calm s (turns n s)"
  by (induction n s rule: turns.induct) (auto intro: calm_trans [OF calm_turn])

lemma turns_add: "turns n (turns m s) = turns (m + n) s"
  by (induction m s rule: turns.induct) auto

lemma sim_rd_known: "sim_val (sim_turn s) i = Some v \<Longrightarrow> sim_rd s i = (v, sim_turn s)"
  by (simp add: sim_rd_def)

definition state_read :: "sim \<Rightarrow> qed_state" where
  "state_read h =
     (let v = (\<lambda>k i. the (sim_val (turns k h) i)) in
       \<lparr>qs_enabled = bit (v 1 OFF_STATE) 0, qs_ie = bit (v 1 OFF_STATE) 1, qs_busy = bit (v 1 OFF_STATE) 2,
        qs_epoch = ucast (drop_bit 16 (v 1 OFF_STATE)),
        qs_tx_base = v 2 OFF_TX_BASE AND QED_ADDRESS, qs_tx_log2 = v 3 OFF_TX_LOG2 AND 0xF,
        qs_rx_base = v 4 OFF_RX_BASE AND QED_ADDRESS, qs_rx_log2 = v 5 OFF_RX_LOG2 AND 0xF,
        qs_tx_prod = ucast (v 6 OFF_TX_PROD), qs_tx_cons = ucast (v 7 OFF_TX_CONS), qs_rx_prod = ucast (v 8 OFF_RX_PROD),
        qs_rx_cons = ucast (v 9 OFF_RX_CONS), qs_rx_taken = ucast (v 10 OFF_RX_TAKEN), qs_counts = v 11 OFF_COUNTS AND QED_COUNTS_MASK\<rparr>)"

lemma f_state_sim: "f_state sim_page h = (state_read h, turns 11 h)"
  by (simp add: f_state_def sim_page_def sim_rd_def sim_val_def state_read_def Let_def eval_nat_numeral)

lemma state_read_simps [simp]:
  "qs_enabled (state_read h) = s_enabled (turns 1 h)" "qs_epoch (state_read h) = s_epoch (turns 1 h)"
  "qs_tx_prod (state_read h) = (if s_enabled (turns 6 h) then s_tx_prod (turns 6 h) else 0)"
  "qs_tx_cons (state_read h) = (if s_enabled (turns 7 h) then s_tx_cons (turns 7 h) else 0)"
  "qs_rx_prod (state_read h) = (if s_enabled (turns 8 h) then s_rx_prod (turns 8 h) else 0)"
  "qs_rx_cons (state_read h) = (if s_enabled (turns 9 h) then s_rx_cons (turns 9 h) else 0)"
  by (simp_all add: state_read_def Let_def sim_val_def sim_state_fields ucast_ucast_u16)

lemma guard_turns:
  assumes "watched Q" "guard e Q (turns k h)" "k \<le> n"
  shows "guard e Q (turns n h)"
  using watched.guard_calm [OF assms(1) calm_turns assms(2), of "n - k"] assms(3) by (simp add: turns_add)

text \<open>The state read under a claim: the indexes as they stand for as long as the epoch does.\<close>

definition live :: "qed_state \<Rightarrow> dev \<Rightarrow> bool" where
  "live u d \<longleftrightarrow> tx_cons_at (qs_tx_cons u) d \<and> tx_prod_past (qs_tx_prod u) d \<and>
     rx_cons_at (qs_rx_cons u) d \<and> rx_prod_past (qs_rx_prod u) d"

lemma state_read_live:
  assumes ok: "dev_ok (dev_of h)" "disables h < 65536" and on: "qs_enabled (state_read h)"
  shows "guard (qs_epoch (state_read h)) (live (state_read h)) (turns 11 h)"
proof -
  let ?e = "qs_epoch (state_read h)"
  have "guard ?e (\<lambda>_. True) (turns 1 h)"
    using on calm_ok [OF calm_turns ok(1)] le_less_trans [OF calm_disables [OF calm_turns] ok(2)]
    by (intro guard_start) (auto simp del: One_nat_def)
  then have any: "guard ?e (\<lambda>_. True) (turns n h)" if "1 \<le> n" for n
    by (rule guard_turns [OF any.watched_axioms]) (use that in simp)
  have "guard ?e (tx_cons_at (qs_tx_cons (state_read h))) (turns 7 h)"
    by (rule guard_add [OF any]) (auto simp: tx_cons_at_def s_dev)
  then have 1: "guard ?e (tx_cons_at (qs_tx_cons (state_read h))) (turns 11 h)"
    by (rule guard_turns [OF tc.watched_axioms]) simp
  have "guard ?e (tx_prod_past (qs_tx_prod (state_read h))) (turns 6 h)"
    by (rule guard_add [OF any]) (auto simp: tx_prod_past_def s_dev)
  then have 2: "guard ?e (tx_prod_past (qs_tx_prod (state_read h))) (turns 11 h)"
    by (rule guard_turns [OF tp.watched_axioms]) simp
  have "guard ?e (rx_cons_at (qs_rx_cons (state_read h))) (turns 9 h)"
    by (rule guard_add [OF any]) (auto simp: rx_cons_at_def s_dev)
  then have 3: "guard ?e (rx_cons_at (qs_rx_cons (state_read h))) (turns 11 h)"
    by (rule guard_turns [OF rc.watched_axioms]) simp
  have "guard ?e (rx_prod_past (qs_rx_prod (state_read h))) (turns 8 h)"
    by (rule guard_add [OF any]) (auto simp: rx_prod_past_def s_dev)
  then have 4: "guard ?e (rx_prod_past (qs_rx_prod (state_read h))) (turns 11 h)"
    by (rule guard_turns [OF rp.watched_axioms]) simp
  show ?thesis
    using guard_and [OF 1 guard_and [OF 2 guard_and [OF 3 4]]] by (simp add: live_def [abs_def])
qed

lemmas face_defs = sim_face_def qed_fabric_face_def sim_page_def

lemma face_words [simp]: "qf_words (sim_face W) = W"
  by (simp add: face_defs)

lemma face_state [simp]: "qf_state (sim_face W) h = (state_read h, turns 11 h)"
  by (simp add: sim_face_def qed_fabric_face_def f_state_sim)

lemma calm_touch: "s_busy s \<Longrightarrow> \<not> s_published s \<Longrightarrow> calm s (sim_touch s)"
  by (rule calm_by [OF calm_turn]) (simp_all add: sim_touch_def Let_def turn_frame)

lemma calm_touches: "s_busy s \<Longrightarrow> \<not> s_published s \<Longrightarrow> calm s (touches c s)"
proof (induction c s rule: touches.induct)
  case (2 c s)
  have t: "calm s (sim_touch s)" using 2 by (intro calm_touch)
  then show ?case using 2 calm_watch [OF t] calm_trans [OF t] by simp
qed simp

lemma calm_sim_load: "s_busy s \<Longrightarrow> \<not> s_published s \<Longrightarrow> calm s (snd (sim_load s k n))"
proof (induction s k n rule: sim_load.induct)
  case (1 s k n)
  let ?t = "touches (min n 64) s"
  have t: "calm s ?t" using "1.prems" by (intro calm_touches)
  have "n \<noteq> 0 \<Longrightarrow> calm ?t (snd (sim_load ?t (k + min n 64) (n - min n 64)))"
    using "1.prems" calm_watch [OF t] by (intro "1.IH") auto
  then show ?case using calm_trans [OF t] by (simp add: sim_load.simps [of s] Let_def case_prod_unfold)
qed

lemma calm_sim_store: "s_busy s \<Longrightarrow> \<not> s_published s \<Longrightarrow> calm s (sim_store s k ws)"
proof (induction s k ws rule: sim_store.induct)
  case (1 s k ws)
  let ?c = "min (length ws) 64"
  let ?t = "(touches ?c s)\<lparr>s_mem := qed_mem_write (s_mem (touches ?c s)) k (take ?c ws)\<rparr>"
  have t: "calm s ?t" by (rule calm_by [OF calm_touches [OF "1.prems"]]) simp_all
  have "ws \<noteq> [] \<Longrightarrow> calm ?t (sim_store ?t (k + ?c) (drop ?c ws))"
    using "1.prems" calm_watch [OF t] by (intro "1.IH") auto
  then show ?case using calm_trans [OF t] by (simp add: sim_store.simps [of s] Let_def)
qed

lemma calm_load: "s_busy s \<Longrightarrow> \<not> s_published s \<Longrightarrow> calm s (snd (qf_load (sim_face W) s k n))"
  by (simp add: face_defs calm_sim_load)

lemma calm_store: "s_busy s \<Longrightarrow> \<not> s_published s \<Longrightarrow> calm s (qf_store (sim_face W) s k ws)"
  by (simp add: face_defs calm_sim_store)

lemma calm_counts: "calm s (qf_counts (sim_face W) s c)"
  by (rule calm_by [OF calm_turn]) (simp_all add: face_defs f_counts_def sim_wr_def Let_def)

lemma release_sim:
  "qf_release (sim_face W) s = (sim_turn s)\<lparr>s_published := False, s_busy := False\<rparr>"
  by (simp add: face_defs f_release_def sim_wr_def wr_claim_def Let_def)

text \<open>A state the device is left in between two passes.\<close>

definition rest :: "sim \<Rightarrow> bool" where
  "rest s \<longleftrightarrow> dev_ok (dev_of s) \<and> \<not> s_busy s \<and> s_bad s = []"

definition held :: "sim \<Rightarrow> bool" where
  "held s \<longleftrightarrow> dev_ok (dev_of s) \<and> s_busy s \<and> \<not> s_published s \<and> s_bad s = []"

lemma held_calm: "held s \<Longrightarrow> calm s t \<Longrightarrow> held t"
  using calm_ok [of s t] calm_watch [of s t] by (simp add: held_def)

lemma rest_calm: "rest s \<Longrightarrow> calm s t \<Longrightarrow> rest t"
  using calm_ok [of s t] calm_watch [of s t] by (simp add: rest_def)

lemma release_rest: "dev_ok (dev_of s) \<Longrightarrow> s_bad s = [] \<Longrightarrow> rest (qf_release (sim_face W) s)"
  using calm_ok [OF calm_turn] by (simp add: release_sim rest_def turn_frame)

text \<open>The claim: taken and seen to be taken, or not and the device at rest.\<close>

lemma claim_sim:
  assumes "rest s" "qf_claim (sim_face W) s e = (b, t)"
  shows "(if b then held t else rest t) \<and> drift s t"
proof -
  let ?c = "wr_claim (sim_turn s) (push_bit 16 (ucast e) OR 1)"
  have t: "t = sim_turn ?c" "b = s_busy t"
    using assms(2) by (auto simp: face_defs f_claim_def sim_wr_def sim_rd_def sim_val_def Let_def split: if_splits)
  have c: "dev_of ?c = dev_of (sim_turn s)" "s_script ?c = s_script (sim_turn s)" "\<not> s_published ?c" "s_bad ?c = s_bad s"
    by (auto simp: wr_claim_def Let_def turn_frame)
  have "dev_ok (dev_of ?c)" using calm_ok [OF calm_turn] assms(1) c(1) by (simp add: rest_def)
  then have "dev_ok (dev_of t)" using calm_ok [OF calm_turn] t(1) by simp
  moreover have "drift s t"
    using drift_trans [OF drift_by [OF calm_drift [OF calm_turn] c(1, 2)] calm_drift [OF calm_turn]] t(1) by simp
  ultimately show ?thesis using assms(1) c(3, 4) t by (simp add: rest_def held_def turn_frame)
qed

section \<open>Transmit\<close>

lemma tx_entry_calm:
  assumes "held h"
  shows "calm h (snd (tx_entry (sim_face W) u i h))"
proof -
  let ?l = "qf_load (sim_face W) h (entry_at (qs_tx_base u) (qs_tx_log2 u) i) 2"
  have 1: "calm h (snd ?l)" using assms by (intro calm_load) (simp_all add: held_def)
  have 2: "calm h (snd (frame_of (sim_face W) a n (snd ?l)))" for a n
    using held_calm [OF assms 1] calm_trans [OF 1 calm_load, of W a] unfolding frame_of_def held_def
    by (simp add: case_prod_unfold)
  show ?thesis
    using 1 2 unfolding tx_entry_def by (simp add: Let_def case_prod_unfold)
qed

lemma tx_done_calm: "calm h (snd (tx_done (sim_face W) i r g h))"
  by (cases r) (simp_all add: tx_done_def put_counts_def calm_counts Let_def)

lemma wr_tx_stamped:
  "wr_tx_cons s (push_bit 16 (ucast e) OR ucast i) =
     (if \<not> s_enabled s \<or> e \<noteq> s_epoch s then s
      else if s_tx_prod s - s_tx_cons s < i - s_tx_cons s then bad (Moved_245_past i) s
      else s\<lparr>s_tx_cons := i\<rparr>)"
  by (simp only: wr_tx_cons_def Let_def stamped)

lemma sent_sim:
  fixes W :: nat
  assumes g: "guard e (\<lambda>d. tx_cons_at c d \<and> tx_prod_past p d) h" and "held h" and ne: "c \<noteq> p"
  defines "t \<equiv> qf_sent (sim_face W) h e (c + 1)"
  shows "guard e (\<lambda>d. tx_cons_at (c + 1) d \<and> tx_prod_past p d) t" and "held t"
proof -
  let ?s = "sim_turn h"
  have at: "guard e (tx_cons_at c) ?s" "guard e (tx_prod_past p) ?s"
    by (rule tc.guard_calm [OF calm_turn] tp.guard_calm [OF calm_turn], rule guard_add [OF g], simp)+
  have s: "guard e (\<lambda>d. tx_cons_at c d \<and> tx_prod_past p d) ?s" by (rule guard_and [OF at])
  have h: "held ?s" by (rule held_calm [OF assms(2) calm_turn])
  have t: "t = wr_tx_cons ?s (push_bit 16 (ucast e) OR ucast (c + 1))"
    by (simp add: t_def face_defs f_sent_def sim_wr_def Let_def)
  have "guard e (\<lambda>d. tx_cons_at (c + 1) d \<and> tx_prod_past p d) t \<and> held t"
  proof (cases "s_epoch ?s = e")
    case False
    then have "t = ?s" by (simp add: t wr_tx_stamped)
    moreover have "guard e (\<lambda>d. tx_cons_at (c + 1) d \<and> tx_prod_past p d) ?s"
      by (rule guard_add [OF s]) (use False in simp)
    ultimately show ?thesis using h by simp
  next
    case True
    have q: "s_enabled ?s" "s_tx_cons ?s = c" "p - c \<le> s_tx_prod ?s - c"
      using guard_now [OF s True] by (auto simp: tx_cons_at_def tx_prod_past_def s_dev)
    have pc: "p - c \<noteq> 0" using ne by simp
    then have one: "1 \<le> p - c" by (simp add: word_le_nat_alt Suc_le_eq unat_gt_0)
    then have t': "t = ?s\<lparr>s_tx_cons := c + 1\<rparr>"
      using q True order_trans [OF one q(3)] by (auto simp: t wr_tx_stamped not_less)
    have "p - (c + 1) \<le> s_tx_prod ?s - (c + 1)"
      using diff_le_shift [OF one q(3)] by (simp add: algebra_simps)
    then have "guard e (\<lambda>d. tx_cons_at (c + 1) d \<and> tx_prod_past p d) t"
      using s q(1) True unfolding t'
      by (intro guard_start) (auto simp: guard_def dev_ok_def disables_def tx_cons_at_def tx_prod_past_def s_dev)
    moreover have "held t" using h q(1) unfolding t' held_def by (simp add: dev_ok_def s_dev)
    ultimately show ?thesis by simp
  qed
  then show "guard e (\<lambda>d. tx_cons_at (c + 1) d \<and> tx_prod_past p d) t" and "held t" by simp_all
qed

lemma tx_loop_held:
  "guard e (\<lambda>d. tx_cons_at c d \<and> tx_prod_past (qs_tx_prod u) d) h \<Longrightarrow> held h \<Longrightarrow>
   tx_loop (sim_face W) e u n c g h = (k, g', h') \<Longrightarrow> held h' \<and> disables h' \<le> disables h"
proof (induction n arbitrary: c g h k g' h')
  case (Suc n)
  show ?case
  proof (cases "c = qs_tx_prod u")
    case False
    obtain r h1 where 1: "tx_entry (sim_face W) u c h = (r, h1)" by fastforce
    obtain g2 h2 where 2: "tx_done (sim_face W) c r g h1 = (g2, h2)" by fastforce
    have calm: "calm h h2"
      using tx_entry_calm [OF Suc.prems(2), of W u c] tx_done_calm [of h1 W c r g] 1 2 by (auto intro: calm_trans)
    have g: "guard e (\<lambda>d. tx_cons_at c d \<and> tx_prod_past (qs_tx_prod u) d) h2"
      by (rule guard_and; rule tc.guard_calm [OF calm] tp.guard_calm [OF calm]; rule guard_add [OF Suc.prems(1)]; simp)
    let ?h3 = "qf_sent (sim_face W) h2 e (c + 1)"
    note nxt = sent_sim [OF g held_calm [OF Suc.prems(2) calm] False, of W]
    obtain k' where l: "tx_loop (sim_face W) e u n (c + 1) g2 ?h3 = (k', g', h')"
      using Suc.prems(3) False 1 2 by (auto split: prod.splits)
    have "disables ?h3 \<le> disables h"
      using calm_disables [OF calm] calm_disables [OF calm_turn, of h2]
      by (simp add: face_defs f_sent_def sim_wr_def wr_tx_cons_def Let_def disables_def bad_def)
    then show ?thesis using Suc.IH [OF nxt l] by simp
  qed (use Suc.prems in auto)
qed auto

lemma transmit_keeps_rules:
  assumes "rest h" "disables h < 65536" "qed_ring_transmit (sim_face W) most g h = (k, g', h')"
  shows "rest h'"
proof -
  let ?s = "state_read h" and ?F = "sim_face W"
  note r1 = rest_calm [OF assms(1) calm_turns, of 11]
  obtain b t where c: "qf_claim ?F (turns 11 h) (qs_epoch ?s) = (b, t)" by fastforce
  note ct = claim_sim [OF r1 c]
  let ?u = "state_read t" and ?t = "turns 11 t"
  have m: "disables t < 65536" using ct drift_disables [of _ t] calm_disables [OF calm_turns, of 11 h] assms(2) by force
  have rel: "rest (qf_release ?F x)" if "held x" for x using that by (intro release_rest) (simp_all add: held_def)
  have ut: "held ?t" if b using ct that held_calm [OF _ calm_turns, of t 11] by simp
  consider "h' = turns 11 h" | "\<not> b" "h' = t" | "b" "h' = qf_release ?F ?t"
    | g1 h1 where "b" "qs_enabled ?u" "qs_epoch ?u = qs_epoch ?s"
        "tx_loop ?F (qs_epoch ?s) ?u most (qs_tx_cons ?u) g1 ?t = (k, g', h1)" "h' = qf_release ?F h1"
    using assms(3) c
    unfolding qed_ring_transmit_def face_state prod.case by (auto split: if_splits prod.splits)
  then show ?thesis
  proof cases
    case 4
    have "guard (qs_epoch ?s) (live ?u) ?t"
      using state_read_live [of t] ct m 4(1, 2, 3) by (simp add: held_def)
    then have "guard (qs_epoch ?s) (\<lambda>d. tx_cons_at (qs_tx_cons ?u) d \<and> tx_prod_past (qs_tx_prod ?u) d) ?t"
      by (rule guard_add) (simp add: live_def)
    then show ?thesis using tx_loop_held [OF _ ut [OF 4(1)] 4(4)] rel 4(5) by simp
  qed (use r1 ct ut rel in auto)
qed

section \<open>Receive\<close>

lemma wr_rx_stamped:
  "wr_rx_cons s (push_bit 16 (ucast e) OR ucast i) =
     (if \<not> s_enabled s \<or> e \<noteq> s_epoch s then s
      else let s = (if s_dirty s then bad No_barrier s else s);
               s = (if i = s_rx_cons s \<or> s_rx_prod s - s_rx_cons s < i - s_rx_cons s
                    then bad (Moved_251_wrong i) s else s\<lparr>s_rx_cons := i\<rparr>)
           in s\<lparr>s_published := True\<rparr>)"
  by (simp only: wr_rx_cons_def stamped) (simp add: Let_def)

text \<open>A buffer is there: 251 as read, and 250 past it, by the receive's first look.\<close>

definition ready :: "u16 \<Rightarrow> u16 \<Rightarrow> dev \<Rightarrow> bool" where
  "ready c p d \<longleftrightarrow> rx_cons_at c d \<and> rx_prod_past p d \<and> p \<noteq> c"

interpretation rx: watched "ready c p" for c p
  by unfold_locales (auto simp: ready_def intro: rc.stays rp.stays)

lemma delivered_sim:
  assumes g: "guard e (ready c p) h" and h: "held h"
  shows "rest (qf_release (sim_face W) (qf_delivered (sim_face W) h e (c + 1)))"
proof -
  let ?b = "(sim_turn h)\<lparr>s_dirty := False\<rparr>"
  let ?s = "sim_turn ?b"
  have calm: "calm h ?s" by (rule calm_trans [OF calm_by [OF calm_turn] calm_turn]) simp_all
  have s: "guard e (ready c p) ?s" by (rule rx.guard_calm [OF calm g])
  have d: "qf_delivered (sim_face W) h e (c + 1) = wr_rx_cons ?s (push_bit 16 (ucast e) OR ucast (c + 1))" (is "?d = _")
    by (simp add: face_defs f_delivered_def sim_wr_def Let_def)
  have "held ?s" by (rule held_calm [OF h calm])
  then have hs: "dev_ok (dev_of ?s)" "s_bad ?s = []" by (simp_all add: held_def)
  have "dev_ok (dev_of ?d) \<and> s_bad ?d = []"
  proof (cases "s_epoch ?s = e")
    case True
    have q: "s_enabled ?s" "s_rx_cons ?s = c" "p - c \<le> s_rx_prod ?s - c" "p - c \<noteq> 0"
      using guard_now [OF s True] by (auto simp: ready_def rx_cons_at_def rx_prod_past_def s_dev)
    then have one: "1 \<le> s_rx_prod ?s - c"
      using order_trans [OF _ q(3), of 1] by (simp add: word_le_nat_alt Suc_le_eq unat_gt_0)
    then have "?d = ?s\<lparr>s_rx_cons := c + 1, s_published := True\<rparr>"
      unfolding d using q True by (auto simp: wr_rx_stamped Let_def not_less turn_frame)
    moreover have "c + 1 - s_rx_taken ?s \<le> s_rx_prod ?s - s_rx_taken ?s"
    proof (rule further_from)
      show "c + 1 - c \<le> s_rx_prod ?s - c" using one by simp
      show "c - s_rx_taken ?s \<le> s_rx_prod ?s - s_rx_taken ?s" using hs(1) q(2) by (simp add: dev_ok_def s_dev)
    qed
    ultimately show ?thesis using hs q(1) by (simp add: dev_ok_def s_dev)
  qed (use hs in \<open>simp add: d wr_rx_stamped\<close>)
  then show ?thesis by (intro release_rest) simp_all
qed

lemma rx_claimed_rest:
  assumes g: "guard e (ready (qs_rx_cons u) p) h" and h: "held h" and r: "rx_claimed (sim_face W) e u f g0 h = (b, g', h')"
  shows "rest h'"
proof -
  let ?F = "sim_face W" and ?e = "entry_at (qs_rx_base u) (qs_rx_log2 u) (qs_rx_cons u)"
  let ?h = "snd (qf_load ?F h ?e 2)"
  have c1: "calm h ?h" using h by (intro calm_load) (simp_all add: held_def)
  have h1: "held ?h" by (rule held_calm [OF h c1])
  have c2: "calm h (qf_store ?F (qf_store ?F ?h k x) l y)" for k x l y
  proof -
    have "calm ?h (qf_store ?F ?h k x)" using h1 by (intro calm_store) (simp_all add: held_def)
    moreover from held_calm [OF h1 this] have "calm (qf_store ?F ?h k x) (qf_store ?F (qf_store ?F ?h k x) l y)"
      by (intro calm_store) (simp_all add: held_def)
    ultimately show ?thesis using c1 by (blast intro: calm_trans)
  qed
  have out: "rest (qf_release ?F (qf_delivered ?F t e (qs_rx_cons u + 1)))" if "calm h t" for t
    by (rule delivered_sim [OF rx.guard_calm [OF that g] held_calm [OF h that]])
  have drop: "rest (qf_counts ?F (qf_release ?F ?h) v)" for v
    by (rule rest_calm [OF release_rest calm_counts]) (use h1 in \<open>simp_all add: held_def\<close>)
  show ?thesis
    using r drop out [OF c2]
    by (auto simp: rx_claimed_def Let_def case_prod_unfold rx_drop_def put_counts_def split: option.splits)
qed

lemma receive_keeps_rules:
  assumes "rest h" "disables h < 65536" "qed_ring_receive (sim_face W) f g h = (r, g', h')"
  shows "rest h'"
proof -
  let ?s = "state_read h" and ?F = "sim_face W" and ?h = "turns 11 h"
  note r1 = rest_calm [OF assms(1) calm_turns, of 11]
  obtain b t where c: "qf_claim ?F ?h (qs_epoch ?s) = (b, t)" by fastforce
  note ct = claim_sim [OF r1 c]
  let ?u = "state_read t" and ?t = "turns 11 t"
  have m: "disables t < 65536" using ct drift_disables [of _ t] calm_disables [OF calm_turns, of 11 h] assms(2) by force
  have rel: "rest (qf_release ?F x)" if "held x" for x using that by (intro release_rest) (simp_all add: held_def)
  have ut: "held ?t" if b using ct that held_calm [OF _ calm_turns, of t 11] by simp
  have dc: "rest (qf_counts ?F ?h v)" for v by (rule rest_calm [OF r1 calm_counts])
  consider "h' = ?h" | v where "h' = qf_counts ?F ?h v" | "\<not> b" "h' = t" | "b" "h' = qf_release ?F ?t"
    | g1 where "qs_enabled ?s" "qs_rx_prod ?s \<noteq> qs_rx_cons ?s" "b" "qs_enabled ?u" "qs_epoch ?u = qs_epoch ?s"
        "rx_claimed ?F (qs_epoch ?s) ?u f g1 ?t = (r, g', h')"
    using assms(3) c
    unfolding qed_ring_receive_def face_state prod.case rx_drop_def put_counts_def Let_def
    by (auto split: if_splits prod.splits option.splits)
  then show ?thesis
  proof cases
    case 5
    let ?e = "qs_epoch ?s"
    have s: "guard ?e (live ?s) ?h" using state_read_live [of h] assms(1, 2) 5(1) by (simp add: rest_def)
    have dr: "drift ?h ?t" using ct drift_trans [OF _ calm_drift [OF calm_turns]] by blast
    have "guard ?e (rx_cons_at (qs_rx_cons ?s)) ?t" "guard ?e (rx_prod_past (qs_rx_prod ?s)) ?t"
      by (rule rc.guard_drift [OF dr] rp.guard_drift [OF dr], rule guard_add [OF s], simp add: live_def)+
    moreover have "guard ?e (live ?u) ?t" using state_read_live [of t] ct m 5(3, 4, 5) by (simp add: held_def)
    ultimately have "guard ?e (\<lambda>d. rx_cons_at (qs_rx_cons ?s) d \<and> rx_prod_past (qs_rx_prod ?s) d \<and> live ?u d) ?t"
      by (intro guard_and)
    then have "guard ?e (ready (qs_rx_cons ?u) (qs_rx_prod ?s)) ?t"
      by (rule guard_add) (use 5(2) in \<open>auto simp: ready_def live_def rx_cons_at_def simp del: state_read_simps\<close>)
    then show ?thesis by (rule rx_claimed_rest [OF _ ut [OF 5(3)] 5(6)])
  qed (use r1 ct ut rel dc in auto)
qed

end
