(* ===== verification/Qed_Deliver.thy ===== *)
theory Qed_Deliver
  imports Qed_Rules
begin

text \<open>
  What the ring's two directions do to main memory and to the wire when the machine leaves the
  device alone for the pass.
\<close>

unbundle bit_operations_syntax

section \<open>Frames and words\<close>

definition put_byte :: "u8 list \<Rightarrow> nat \<Rightarrow> u32 list \<Rightarrow> u32 list" where
  "put_byte f k data = data[k div 4 := data ! (k div 4) OR push_bit (8 * (k mod 4)) (ucast (f ! k))]"

lemma length_put_bytes [simp]: "length (fold (put_byte f) ks data) = length data"
  by (induction ks arbitrary: data) (simp_all add: put_byte_def)

lemma put_bytes_bits:
  assumes "m \<le> 4 * length data" "\<forall>w \<in> set data. w = 0" "j < length data" "b < 32"
  shows "bit (fold (put_byte f) [0..<m] data ! j) b \<longleftrightarrow> 4 * j + b div 8 < m \<and> bit (f ! (4 * j + b div 8)) (b mod 8)"
  using assms(1)
proof (induction m)
  case 0
  have "data ! j = 0" using assms(2, 3) by simp
  then show ?case by simp
next
  case (Suc m)
  let ?d = "fold (put_byte f) [0..<m] data"
  have m: "m div 4 < length data" using Suc.prems by (auto simp: less_mult_imp_div_less)
  have step: "fold (put_byte f) [0..<Suc m] data ! j =
      (if j = m div 4 then ?d ! j OR push_bit (8 * (m mod 4)) (ucast (f ! m)) else ?d ! j)"
    using m by (auto simp: put_byte_def nth_list_update)
  show ?case
  proof (cases "j = m div 4")
    case True
    have "bit (push_bit (8 * (m mod 4)) (ucast (f ! m)) :: u32) b \<longleftrightarrow> b div 8 = m mod 4 \<and> bit (f ! m) (b mod 8)"
    proof (cases "8 * (m mod 4) \<le> b \<and> b - 8 * (m mod 4) < 8")
      case True
      then obtain r where "b = 8 * (m mod 4) + r" "r < 8" by (metis le_add_diff_inverse)
      then have "b div 8 = m mod 4" "b mod 8 = b - 8 * (m mod 4)" by simp_all
      then show ?thesis using True assms(4) by (simp add: bit_simps)
    next
      case False
      then have "b div 8 \<noteq> m mod 4" by auto
      moreover have "\<not> bit (f ! m) (b - 8 * (m mod 4))" if "8 * (m mod 4) \<le> b"
        using False that by (auto dest: bit_imp_le_length)
      ultimately show ?thesis by (auto simp: bit_simps)
    qed
    moreover have "4 * j + b div 8 < Suc m \<longleftrightarrow> 4 * j + b div 8 < m \<or> b div 8 = m mod 4"
      "b div 8 = m mod 4 \<Longrightarrow> 4 * j + b div 8 = m"
      using True mult_div_mod_eq [of 4 m] by linarith+
    ultimately show ?thesis using step True Suc by (auto simp: bit_simps)
  next
    case False
    then have "4 * j + b div 8 < Suc m \<longleftrightarrow> 4 * j + b div 8 < m" using assms(4) by auto
    then show ?thesis using step False Suc by simp
  qed
qed

lemma frame_words_put: "frame_words f = fold (put_byte f) [0..<length f] (replicate 379 0)"
  by (simp add: frame_words_def put_byte_def [abs_def])

lemma length_frame_words [simp]: "length (frame_words f) = 379"
  by (simp add: frame_words_put)

lemma frame_words_byte:
  assumes "length f \<le> QED_MAX_FRAME" "k < length f"
  shows "byte_of (k mod 4) (frame_words f ! (k div 4)) = f ! k"
proof (rule bit_word_eqI)
  fix b assume "b < LENGTH(8)"
  then have b: "b < 8" by simp
  let ?c = "8 * (k mod 4) + b"
  have c: "?c < 32" "?c div 8 = k mod 4" "?c mod 8 = b" using b by auto
  have "bit (frame_words f ! (k div 4)) ?c \<longleftrightarrow> bit (f ! k) b"
    unfolding frame_words_put using put_bytes_bits [of "length f" "replicate 379 0" "k div 4" ?c f] assms c by auto
  then show "bit (byte_of (k mod 4) (frame_words f ! (k div 4))) b = bit (f ! k) b"
    using b by (simp add: byte_of_def bit_simps)
qed

text \<open>The words a frame is put in, read as a frame.\<close>

lemma frame_words_read:
  assumes "length f \<le> QED_MAX_FRAME"
  shows "map (\<lambda>k. byte_of (k mod 4) (take ((length f + 3) div 4) (frame_words f) ! (k div 4))) [0..<length f] = f"
proof (rule nth_equalityI)
  fix k assume "k < length (map (\<lambda>k. byte_of (k mod 4) (take ((length f + 3) div 4) (frame_words f) ! (k div 4))) [0..<length f])"
  then have "k < length f" "k div 4 < (length f + 3) div 4" by auto
  then show "map (\<lambda>k. byte_of (k mod 4) (take ((length f + 3) div 4) (frame_words f) ! (k div 4))) [0..<length f] ! k = f ! k"
    using frame_words_byte [OF assms] by simp
qed simp

section \<open>A pass the machine leaves alone\<close>

lemma turn_quiet [simp]: "s_script s = [] \<Longrightarrow> sim_turn s = s"
  by (simp add: sim_turn_def)

lemma turns_quiet [simp]: "s_script s = [] \<Longrightarrow> turns n s = s"
  by (induction n s rule: turns.induct) simp_all

definition unit_of :: "sim \<Rightarrow> qed_state" where
  "unit_of h =
     \<lparr>qs_enabled = s_enabled h, qs_ie = s_ie h, qs_busy = s_busy h, qs_epoch = s_epoch h,
      qs_tx_base = s_tx_base h AND QED_ADDRESS, qs_tx_log2 = s_tx_log2 h AND 0xF,
      qs_rx_base = s_rx_base h AND QED_ADDRESS, qs_rx_log2 = s_rx_log2 h AND 0xF,
      qs_tx_prod = s_tx_prod h, qs_tx_cons = s_tx_cons h, qs_rx_prod = s_rx_prod h, qs_rx_cons = s_rx_cons h,
      qs_rx_taken = s_rx_taken h, qs_counts = s_counts h AND QED_COUNTS_MASK\<rparr>"

lemma sim_state_flags: "bit (sim_state s) 1 = s_ie s" "bit (sim_state s) 2 = s_busy s"
proof -
  show "bit (sim_state s) 1 = s_ie s" by (auto simp: sim_state_def bit_simps bit_numeral_rec(1) bit_numeral_Bit0_iff)
  show "bit (sim_state s) 2 = s_busy s" by (auto simp: sim_state_def bit_simps bit_numeral_rec(1) bit_numeral_Bit0_iff numeral_2_eq_2)
qed

lemma state_quiet: "s_script h = [] \<Longrightarrow> s_enabled h \<Longrightarrow> state_read h = unit_of h"
  using sim_state_flags [of h]
  by (simp add: state_read_def unit_of_def Let_def sim_val_def sim_state_fields ucast_ucast_u16)

lemma claim_quiet:
  "s_script h = [] \<Longrightarrow> s_enabled h \<Longrightarrow> qf_claim (sim_face W) h (s_epoch h) = (True, h\<lparr>s_published := False, s_busy := True\<rparr>)"
  by (simp add: face_defs f_claim_def sim_wr_def sim_rd_def sim_val_def wr_claim_def Let_def stamped(3, 4) del: bit_0 drop_bit_or)

lemma touches_quiet:
  "s_script s = [] \<Longrightarrow> s_script (touches c s) = [] \<and> s_mem (touches c s) = s_mem s"
  "s_script s = [] \<Longrightarrow> s_busy s \<Longrightarrow> \<not> s_published s \<Longrightarrow> 0 < c \<Longrightarrow> touches c s = s\<lparr>s_dirty := True\<rparr>"
proof -
  show "s_script s = [] \<Longrightarrow> s_script (touches c s) = [] \<and> s_mem (touches c s) = s_mem s"
    by (induction c s rule: touches.induct) (auto simp: sim_touch_def bad_def Let_def)
  show "s_script s = [] \<Longrightarrow> s_busy s \<Longrightarrow> \<not> s_published s \<Longrightarrow> 0 < c \<Longrightarrow> touches c s = s\<lparr>s_dirty := True\<rparr>"
  proof (induction c s rule: touches.induct)
    case (2 c s)
    then show ?case by (cases c) (simp_all add: sim_touch_def Let_def)
  qed simp
qed

lemma read_run: "n \<noteq> 0 \<Longrightarrow> qed_mem_read b k n = qed_mem_read b k (min n 64) @ qed_mem_read b (k + min n 64) (n - min n 64)"
  by (cases "n < 64") (simp_all add: qed_mem_read.simps [of b k n] qed_mem_read.simps [of b k 64]
      qed_mem_read.simps [of b _ 0] Let_def)

lemma write_run:
  "ws \<noteq> [] \<Longrightarrow> qed_mem_write b k ws =
     qed_mem_write (qed_mem_write b k (take (min (length ws) 64) ws)) (k + min (length ws) 64) (drop (min (length ws) 64) ws)"
  by (cases "length ws < 64") (simp_all add: qed_mem_write.simps [of b k] qed_mem_write.simps [of _ _ "[]"] Let_def min_def)

lemma sim_load_words: "s_script s = [] \<Longrightarrow> fst (sim_load s k n) = qed_mem_read (s_mem s) k n"
proof (induction s k n rule: sim_load.induct)
  case (1 s k n)
  let ?c = "min n 64"
  have t: "s_script (touches ?c s) = []" "s_mem (touches ?c s) = s_mem s" using touches_quiet(1) [OF "1.prems"] by auto
  show ?case
  proof (cases "n = 0")
    case False
    have "fst (sim_load (touches ?c s) (k + ?c) (n - ?c)) = qed_mem_read (s_mem s) (k + ?c) (n - ?c)"
      using "1.IH" [OF False refl refl] t by simp
    then show ?thesis using False t read_run [OF False, of "s_mem s" k] by (simp add: sim_load.simps [of s] Let_def case_prod_unfold)
  qed (simp add: sim_load.simps qed_mem_read.simps)
qed

lemma sim_load_state:
  "s_script s = [] \<Longrightarrow> s_busy s \<Longrightarrow> \<not> s_published s \<Longrightarrow> 0 < n \<Longrightarrow> snd (sim_load s k n) = s\<lparr>s_dirty := True\<rparr>"
proof (induction s k n rule: sim_load.induct)
  case (1 s k n)
  let ?c = "min n 64"
  have t: "touches ?c s = s\<lparr>s_dirty := True\<rparr>" using "1.prems" by (intro touches_quiet(2)) auto
  show ?case
    using "1.IH" [OF _ refl refl] "1.prems" t
    by (cases "n - ?c = 0") (auto simp: sim_load.simps [of s] sim_load.simps [of "s\<lparr>s_dirty := True\<rparr>" _ 0] Let_def case_prod_unfold)
qed

lemma load_quiet:
  "s_script h = [] \<Longrightarrow> s_busy h \<Longrightarrow> \<not> s_published h \<Longrightarrow> 0 < n \<Longrightarrow>
   qf_load (sim_face W) h k n = (qed_mem_read (s_mem h) k n, h\<lparr>s_dirty := True\<rparr>)"
  by (simp add: face_defs prod_eq_iff sim_load_words sim_load_state)

lemma store_quiet:
  "s_script h = [] \<Longrightarrow> s_busy h \<Longrightarrow> \<not> s_published h \<Longrightarrow> ws \<noteq> [] \<Longrightarrow>
   qf_store (sim_face W) h k ws = h\<lparr>s_dirty := True, s_mem := qed_mem_write (s_mem h) k ws\<rparr>"
proof -
  have "s_script h = [] \<Longrightarrow> s_busy h \<Longrightarrow> \<not> s_published h \<Longrightarrow> ws \<noteq> [] \<Longrightarrow>
      sim_store h k ws = h\<lparr>s_dirty := True, s_mem := qed_mem_write (s_mem h) k ws\<rparr>"
  proof (induction h k ws rule: sim_store.induct)
    case (1 s k ws)
    let ?c = "min (length ws) 64"
    have t: "touches ?c s = s\<lparr>s_dirty := True\<rparr>" using "1.prems" by (intro touches_quiet(2)) auto
    show ?case
      using "1.IH" [OF _ refl refl] "1.prems" t write_run [OF "1.prems"(4), of "s_mem s" k]
      by (cases "drop ?c ws = []")
        (auto simp: sim_store.simps [of s] sim_store.simps [of _ _ "[]"] qed_mem_write.simps [of _ _ "[]"] Let_def simp del: drop_eq_Nil)
  qed
  then show "s_script h = [] \<Longrightarrow> s_busy h \<Longrightarrow> \<not> s_published h \<Longrightarrow> ws \<noteq> [] \<Longrightarrow>
      qf_store (sim_face W) h k ws = h\<lparr>s_dirty := True, s_mem := qed_mem_write (s_mem h) k ws\<rparr>"
    by (simp add: face_defs)
qed

lemma counts_quiet: "s_script h = [] \<Longrightarrow> qf_counts (sim_face W) h c = h\<lparr>s_counts := c AND QED_COUNTS_MASK\<rparr>"
  by (simp add: face_defs f_counts_def sim_wr_def Let_def)

lemma sent_quiet:
  "s_script h = [] \<Longrightarrow> s_enabled h \<Longrightarrow> s_tx_cons h \<noteq> s_tx_prod h \<Longrightarrow>
   qf_sent (sim_face W) h (s_epoch h) (s_tx_cons h + 1) = h\<lparr>s_tx_cons := s_tx_cons h + 1\<rparr>"
proof -
  assume a: "s_script h = []" "s_enabled h" "s_tx_cons h \<noteq> s_tx_prod h"
  have "s_tx_prod h - s_tx_cons h \<noteq> 0" using a(3) by simp
  then have "1 \<le> s_tx_prod h - s_tx_cons h" by (simp add: word_le_nat_alt Suc_le_eq unat_gt_0)
  then show ?thesis using a by (auto simp: face_defs f_sent_def sim_wr_def Let_def wr_tx_stamped not_less)
qed

lemma delivered_quiet:
  "s_script h = [] \<Longrightarrow> s_enabled h \<Longrightarrow> s_rx_cons h \<noteq> s_rx_prod h \<Longrightarrow>
   qf_delivered (sim_face W) h (s_epoch h) (s_rx_cons h + 1) =
     h\<lparr>s_dirty := False, s_rx_cons := s_rx_cons h + 1, s_published := True\<rparr>"
proof -
  assume a: "s_script h = []" "s_enabled h" "s_rx_cons h \<noteq> s_rx_prod h"
  have "s_rx_prod h - s_rx_cons h \<noteq> 0" using a(3) by simp
  then have "1 \<le> s_rx_prod h - s_rx_cons h" by (simp add: word_le_nat_alt Suc_le_eq unat_gt_0)
  then show ?thesis using a by (auto simp: face_defs f_delivered_def sim_wr_def Let_def wr_rx_stamped not_less)
qed

lemma release_quiet:
  "s_script h = [] \<Longrightarrow> qf_release (sim_face W) h = h\<lparr>s_published := False, s_busy := False\<rparr>"
  by (simp add: release_sim)

section \<open>Receive\<close>

lemma entry_fits:
  assumes "fits F base log2"
  shows "entry_at base log2 i + 8 \<le> qf_words F"
proof -
  have "unat i mod 2 ^ unat log2 < 2 ^ unat log2" by simp
  then have "8 * (unat i mod 2 ^ unat log2) + 8 \<le> 8 * 2 ^ unat log2" by linarith
  then show ?thesis using assms by (simp add: fits_def entry_at_def)
qed

lemma mem_read_2: "e + 2 \<le> mem_words m \<Longrightarrow> qed_mem_read m e 2 = [fld m e, fld m (e + 1)]"
  using packed.rd_val [of e 2 m] by (simp add: upt_conv_Cons)

lemma frame_store:
  fixes v :: u32
  assumes W: "W = mem_words m" and "n = length f" "n \<le> QED_MAX_FRAME" "b + (n + 3) div 4 \<le> W" "k < W"
    and apart: "k < b \<or> b + (n + 3) div 4 \<le> k"
  defines "m' \<equiv> qed_mem_write (qed_mem_write m b (take ((n + 3) div 4) (frame_words f))) k [v]"
  shows "map (\<lambda>i. byte_of (i mod 4) (qed_mem_read m' b ((n + 3) div 4) ! (i div 4))) [0..<n] = f"
    and "fld m' k = v" and "j < W \<Longrightarrow> j \<noteq> k \<Longrightarrow> j < b \<or> b + (n + 3) div 4 \<le> j \<Longrightarrow> fld m' j = fld m j"
proof -
  let ?ws = "take ((n + 3) div 4) (frame_words f)"
  have len: "length ?ws = (n + 3) div 4" using assms(3) by simp
  have m': "fld m' j = (if j = k then v else if b \<le> j \<and> j < b + (n + 3) div 4 then ?ws ! (j - b) else fld m j)"
    if "j < W" for j
    using that assms(4, 5) len packed.wr_val [of b ?ws m j] packed.wr_val [of k "[v]" "qed_mem_write m b ?ws" j]
    by (auto simp: m'_def W packed.wr_size)
  have "qed_mem_read m' b ((n + 3) div 4) = map (fld m') [b..<b + (n + 3) div 4]"
    using assms(4) by (intro packed.rd_val) (simp add: m'_def W packed.wr_size)
  also have "\<dots> = ?ws"
    by (rule nth_equalityI) (use len assms(4) apart m' in auto)
  finally have "qed_mem_read m' b ((n + 3) div 4) = ?ws" .
  then show "map (\<lambda>i. byte_of (i mod 4) (qed_mem_read m' b ((n + 3) div 4) ! (i div 4))) [0..<n] = f"
    using frame_words_read [of f] assms(2, 3) by simp
  show "fld m' k = v" using m' assms(5) by simp
  show "j < W \<Longrightarrow> j \<noteq> k \<Longrightarrow> j < b \<or> b + (n + 3) div 4 \<le> j \<Longrightarrow> fld m' j = fld m j" using m' by auto
qed

lemma receive_quiet:
  assumes h: "s_script h = []" "s_enabled h" and W: "W = mem_words (s_mem h)"
    and fit: "fits (sim_face W) (qs_tx_base (unit_of h)) (qs_tx_log2 (unit_of h))"
      "fits (sim_face W) (qs_rx_base (unit_of h)) (qs_rx_log2 (unit_of h))"
    and take: "rx_filter g f = None" "s_rx_cons h \<noteq> s_rx_prod h"
    and e: "e = entry_at (qs_rx_base (unit_of h)) (qs_rx_log2 (unit_of h)) (s_rx_cons h)"
    and buf: "buf = fld (s_mem h) e AND QED_ADDRESS"
    and room: "rx_reason (sim_face W) (length f) (s_rx_cons h) buf (fld (s_mem h) (e + 1)) = None"
    and ne: "f \<noteq> []"
  shows "qed_ring_receive (sim_face W) f g h =
    (True, trace (Rx_delivered f (s_rx_cons h)) g,
     h\<lparr>s_mem := qed_mem_write (qed_mem_write (s_mem h) (unat buf) (take ((length f + 3) div 4) (frame_words f))) (e + 2) [of_nat (length f)],
       s_busy := False, s_rx_cons := s_rx_cons h + 1, s_dirty := False, s_published := False\<rparr>)"
proof -
  let ?F = "sim_face W" and ?n = "length f" and ?c = "h\<lparr>s_published := False, s_busy := True\<rparr>"
  have "e + 8 \<le> W" using entry_fits [OF fit(2)] e by simp
  then have rd: "qed_mem_read (s_mem h) e 2 = [fld (s_mem h) e, fld (s_mem h) (e + 1)]"
    using W by (intro mem_read_2) simp
  have u: "state_read h = unit_of h" "state_read ?c = unit_of ?c" using h by (auto intro: state_quiet)
  have uc: "unit_of ?c = (unit_of h)\<lparr>qs_busy := True\<rparr>" by (simp add: unit_of_def)
  have s: "qs_enabled (unit_of h)" "qs_epoch (unit_of h) = s_epoch h" "qs_rx_cons (unit_of h) = s_rx_cons h"
    "qs_rx_prod (unit_of h) = s_rx_prod h" using h by (simp_all add: unit_of_def)
  have fit2: "rings_fit ?F (unit_of ?c) g = (True, g)" using fit by (simp add: rings_fit_def uc)
  have words: "take ((?n + 3) div 4) (frame_words f) \<noteq> []" using ne length_frame_words [of f] by (cases f) (auto simp del: length_frame_words)
  have "rx_claimed ?F (s_epoch h) (unit_of ?c) f g ?c = (True, trace (Rx_delivered f (s_rx_cons h)) g,
     h\<lparr>s_mem := qed_mem_write (qed_mem_write (s_mem h) (unat buf) (take ((?n + 3) div 4) (frame_words f))) (e + 2) [of_nat ?n],
       s_busy := False, s_rx_cons := s_rx_cons h + 1, s_dirty := False, s_published := False\<rparr>)"
  proof -
    define t where "t = ?c\<lparr>s_dirty := True, s_mem := qed_mem_write (qed_mem_write (s_mem h) (unat buf) (take ((?n + 3) div 4) (frame_words f))) (e + 2) [of_nat ?n]\<rparr>"
    have t: "s_script t = []" "s_enabled t" "s_rx_cons t = s_rx_cons h" "s_rx_prod t = s_rx_prod h" "s_epoch t = s_epoch h"
      using h by (simp_all add: t_def)
    have l: "qf_load ?F ?c e 2 = ([fld (s_mem h) e, fld (s_mem h) (e + 1)], ?c\<lparr>s_dirty := True\<rparr>)"
      using load_quiet [of ?c 2 W e] h rd by simp
    have st: "qf_store ?F (qf_store ?F (?c\<lparr>s_dirty := True\<rparr>) (unat buf) (take ((?n + 3) div 4) (frame_words f))) (e + 2) [of_nat ?n] = t"
      using h words by (simp add: store_quiet t_def)
    have d: "qf_delivered ?F t (s_epoch h) (s_rx_cons h + 1) = t\<lparr>s_dirty := False, s_rx_cons := s_rx_cons h + 1, s_published := True\<rparr>"
      using delivered_quiet [of t W] t take(2) by simp
    show ?thesis
      unfolding rx_claimed_def Let_def uc
      using l st d t(1) room by (simp add: s e [symmetric] buf [symmetric] release_quiet) (simp add: t_def)
  qed
  then show ?thesis
    using h take fit2 claim_quiet [OF h, of W] unfolding qed_ring_receive_def face_state
    by (simp add: u s uc del: state_read_simps)
qed

section \<open>Transmit\<close>

text \<open>What an entry comes to by main memory alone, and what the pass makes of the entries it takes.\<close>

definition tx_want :: "nat \<Rightarrow> qed_state \<Rightarrow> u8 list \<Rightarrow> u16 \<Rightarrow> refusal + u8 list" where
  "tx_want W u m i =
     (let e = entry_at (qs_tx_base u) (qs_tx_log2 u) i; addr = fld m e AND QED_ADDRESS; len = fld m (e + 1);
          n = unat len; frame = map (\<lambda>k. byte_of (k mod 4) (fld m (unat addr + k div 4))) [0..<n]
      in if n < QED_MIN_FRAME \<or> QED_MAX_FRAME < n then Inl (Length len)
         else if addr AND QED_LINE \<noteq> 0 then Inl (Off_line addr)
         else if W < unat addr + (n + 3) div 4 then Inl (Past_memory addr)
         else (case qed_transmit frame of (None, frame) \<Rightarrow> Inr frame | (Some why, _) \<Rightarrow> Inl (Refused why)))"

definition sent_of :: "(refusal + u8 list) list \<Rightarrow> u8 list list" where
  "sent_of rs = concat (map (case_sum (\<lambda>_. []) (\<lambda>f. [f])) rs)"

definition refused_of :: "(refusal + u8 list) list \<Rightarrow> nat" where
  "refused_of rs = length (filter isl rs)"

lemma frame_quiet:
  assumes "s_script h = []" "s_busy h" "\<not> s_published h" "0 < n" "a + (n + 3) div 4 \<le> mem_words (s_mem h)"
  shows "frame_of (sim_face W) a n h =
    (map (\<lambda>k. byte_of (k mod 4) (fld (s_mem h) (a + k div 4))) [0..<n], h\<lparr>s_dirty := True\<rparr>)"
proof -
  have "qed_mem_read (s_mem h) a ((n + 3) div 4) ! (k div 4) = fld (s_mem h) (a + k div 4)" if "k < n" for k
  proof -
    have "k div 4 < (n + 3) div 4" using that by auto
    then show ?thesis using packed.rd_val [OF assms(5)] by simp
  qed
  moreover have "0 < (n + 3) div 4" using assms(4) by auto
  ultimately show ?thesis using assms(1-3) by (simp add: frame_of_def load_quiet)
qed

lemma tx_entry_quiet:
  assumes h: "s_script h = []" "s_busy h" "\<not> s_published h" and W: "W = mem_words (s_mem h)"
    and fit: "fits (sim_face W) (qs_tx_base u) (qs_tx_log2 u)"
  shows "tx_entry (sim_face W) u i h = (tx_want W u (s_mem h) i, h\<lparr>s_dirty := True\<rparr>)"
proof -
  let ?e = "entry_at (qs_tx_base u) (qs_tx_log2 u) i" and ?h = "h\<lparr>s_dirty := True\<rparr>" and ?m = "s_mem h"
  have "?e + 8 \<le> W" using entry_fits [OF fit] by simp
  then have rd: "qed_mem_read ?m ?e 2 = [fld ?m ?e, fld ?m (?e + 1)]" using W by (intro mem_read_2) simp
  have l: "qf_load (sim_face W) h ?e 2 = ([fld ?m ?e, fld ?m (?e + 1)], ?h)" using load_quiet [OF h] rd by simp
  have f: "frame_of (sim_face W) a n ?h =
      (map (\<lambda>k. byte_of (k mod 4) (fld ?m (a + k div 4))) [0..<n], ?h)"
    if "\<not> n < QED_MIN_FRAME" "\<not> W < a + (n + 3) div 4" for a n
    using frame_quiet [of ?h n a W] h that W by simp
  show ?thesis
    unfolding tx_entry_def tx_want_def l prod.case Let_def face_words
    using f by (auto split: prod.splits option.splits)
qed

lemma tx_done_quiet:
  "s_script h = [] \<Longrightarrow> tx_done (sim_face W) i r g h =
    (case r of
       Inl why \<Rightarrow>
         (log_line (Tx_refused i why) (trace (Tx_refused i why) (g\<lparr>g_tx_refusals := (g_tx_refusals g + 1) AND 0xFF\<rparr>)),
          h\<lparr>s_counts := qed_counts (g_type_drops g) (g_ipv4_drops g) (g_rx_drops g) ((g_tx_refusals g + 1) AND 0xFF)
             AND QED_COUNTS_MASK\<rparr>)
     | Inr f \<Rightarrow> ((trace (Tx_sent f) g)\<lparr>g_sent := g_sent g @ [f]\<rparr>, h))"
  by (simp add: tx_done_def put_counts_def counts_quiet Let_def trace_def split: sum.split)

definition entries_from :: "u16 \<Rightarrow> nat \<Rightarrow> u16 list" where
  "entries_from c n = map (\<lambda>j. c + of_nat j) [0..<n]"

lemma entries_Suc: "entries_from c (Suc n) = c # entries_from (c + 1) n"
  by (rule nth_equalityI) (auto simp: entries_from_def nth_Cons add.assoc simp del: upt_Suc split: nat.split)

lemma left_Suc: "c \<noteq> p \<Longrightarrow> unat (p - c) = Suc (unat (p - (c + 1)))" for c p :: u16
proof -
  assume "c \<noteq> p"
  then have "p - c \<noteq> 0" by simp
  then show ?thesis using unat_minus_one [of "p - c"] by (simp add: diff_diff_eq algebra_simps unat_gt_0)
qed

lemma unat_and_255: "unat (x AND 0xFF) = unat x mod 256" for x :: u32
proof -
  have "unat (take_bit 8 x) = take_bit 8 (unat x)" by (rule unsigned_take_bit_eq)
  moreover have "x AND 0xFF = take_bit 8 x" by (simp only: take_bit_eq_mask) (simp add: mask_eq_exp_minus_1)
  moreover have "take_bit 8 (unat x) = unat x mod 256" by (simp add: take_bit_eq_mod)
  ultimately show ?thesis by (simp only:)
qed

lemma and_255_add: "((a AND 0xFF) + b) AND 0xFF = (a + b) AND 0xFF" for a b :: u32
proof -
  have "(x mod 256 + y) mod 4294967296 mod 256 = (x + y) mod 4294967296 mod 256" for x y :: nat
    by (simp add: mod_mod_cancel mod_add_left_eq)
  then have "unat (((a AND 0xFF) + b) AND 0xFF) = unat ((a + b) AND 0xFF)"
    by (simp add: unat_and_255 unat_word_ariths)
  then show ?thesis by (rule unsigned_word_eqI)
qed

lemma tx_loop_quiet:
  "s_script h = [] \<Longrightarrow> s_busy h \<Longrightarrow> \<not> s_published h \<Longrightarrow> s_enabled h \<Longrightarrow> W = mem_words (s_mem h) \<Longrightarrow>
   fits (sim_face W) (qs_tx_base u) (qs_tx_log2 u) \<Longrightarrow> qs_tx_prod u = s_tx_prod h \<Longrightarrow> g_tx_refusals g AND 0xFF = g_tx_refusals g \<Longrightarrow>
   rs = map (tx_want W u (s_mem h)) (entries_from (s_tx_cons h) (min n (unat (s_tx_prod h - s_tx_cons h)))) \<Longrightarrow>
   tx_loop (sim_face W) (s_epoch h) u n (s_tx_cons h) g h = (k, g', h') \<Longrightarrow>
   k = length rs \<and> g_sent g' = g_sent g @ sent_of rs \<and>
   g_tx_refusals g' = (g_tx_refusals g + of_nat (refused_of rs)) AND 0xFF \<and>
   s_tx_cons h' = s_tx_cons h + of_nat (length rs) \<and> s_mem h' = s_mem h \<and> s_script h' = [] \<and> s_bad h' = s_bad h"
proof (induction n arbitrary: g h k g' h' rs)
  case 0
  then show ?case by (simp add: entries_from_def sent_of_def refused_of_def)
next
  case (Suc n)
  let ?c = "s_tx_cons h" and ?F = "sim_face W" and ?p = "s_tx_prod h"
  show ?case
  proof (cases "?c = ?p")
    case True
    then show ?thesis using Suc.prems by (auto simp: entries_from_def sent_of_def refused_of_def)
  next
    case False
    let ?r = "tx_want W u (s_mem h) ?c"
    note left = left_Suc [OF False]
    obtain g2 h2 where d: "tx_done ?F ?c ?r g (h\<lparr>s_dirty := True\<rparr>) = (g2, h2)" by fastforce
    have h2: "s_script h2 = []" "s_busy h2" "\<not> s_published h2" "s_enabled h2" "s_mem h2 = s_mem h"
        "s_tx_prod h2 = ?p" "s_tx_cons h2 = ?c" "s_epoch h2 = s_epoch h" "s_bad h2 = s_bad h"
      using d Suc.prems(1-4) by (auto simp: tx_done_quiet split: sum.splits)
    have g2: "g_sent g2 = g_sent g @ sent_of [?r]"
        "g_tx_refusals g2 = (g_tx_refusals g + of_nat (refused_of [?r])) AND 0xFF"
      using d Suc.prems(1, 8) by (auto simp: tx_done_quiet sent_of_def refused_of_def trace_def log_line_def split: sum.splits)
    let ?h3 = "h2\<lparr>s_tx_cons := ?c + 1\<rparr>"
    have s: "qf_sent ?F h2 (s_epoch h) (?c + 1) = ?h3" using sent_quiet [of h2 W] h2 False by simp
    obtain k' where l: "tx_loop ?F (s_epoch ?h3) u n (s_tx_cons ?h3) g2 ?h3 = (k', g', h')" and k: "k = Suc k'"
      using Suc.prems(10, 7) False tx_entry_quiet [OF Suc.prems(1-3, 5, 6)] d s h2(8)
      by (auto split: prod.splits)
    let ?rs = "map (tx_want W u (s_mem ?h3)) (entries_from (s_tx_cons ?h3) (min n (unat (s_tx_prod ?h3 - s_tx_cons ?h3))))"
    have ih: "k' = length ?rs \<and> g_sent g' = g_sent g2 @ sent_of ?rs \<and>
        g_tx_refusals g' = (g_tx_refusals g2 + of_nat (refused_of ?rs)) AND 0xFF \<and>
        s_tx_cons h' = s_tx_cons ?h3 + of_nat (length ?rs) \<and> s_mem h' = s_mem ?h3 \<and> s_script h' = [] \<and> s_bad h' = s_bad ?h3"
      by (rule Suc.IH [OF _ _ _ _ _ Suc.prems(6) _ _ refl l]) (use h2 g2(2) Suc.prems(5, 7) in \<open>simp_all add: and.assoc\<close>)
    have rs: "rs = ?r # ?rs" using Suc.prems(9) left h2 by (simp add: entries_Suc)
    have mod: "((a AND 0xFF) + b) AND 0xFF = (a + b) AND 0xFF" for a b :: u32
      by (rule and_255_add)
    show ?thesis
      using ih k g2 h2 unfolding rs by (simp add: sent_of_def refused_of_def mod add.assoc)
  qed
qed

text \<open>A device with a transmit ring of two entries, a receive ring of one, and a buffer for it.\<close>

definition small :: sim where
  "small = (sim_init 40 [])\<lparr>s_enabled := True, s_tx_prod := 2, s_tx_log2 := 1, s_rx_base := 16, s_rx_prod := 1,
     s_mem := qed_mem_write (qed_mem_write (replicate 200 0) 0 [24, 14, 0, 0, 0, 0, 0, 0, 24, 13])
       16 [32, 64, 0, 0, 0, 0, 0, 0, 0, 0, 0, 0x0608]\<rparr>"

definition small_ring :: qed_ring where
  "small_ring = \<lparr>g_host = \<lparr>h_mac = [2, 0, 0, 0, 0, 1], h_address = 0xA9FE6402, h_netmask = 0xFFFFFFFC, h_gateway = 0xA9FE6401\<rparr>,
     g_type_drops = 0, g_ipv4_drops = 0, g_rx_drops = 0, g_tx_refusals = 0, g_said_misfit = False, g_sent = [], g_trace = [], g_log = []\<rparr>"

definition arp :: "u8 list" where
  "arp = replicate 6 0xFF @ [2, 0, 0, 0, 0, 2, 8, 6, 0, 1]"

lemma small_simps [simp]:
  "s_script small = []" "s_enabled small" "s_tx_base small = 0" "s_tx_log2 small = 1" "s_rx_base small = 16"
  "s_rx_log2 small = 0" "s_rx_cons small = 0" "s_rx_prod small = 1" "s_tx_cons small = 0" "s_tx_prod small = 2"
  "mem_words (s_mem small) = 40" "g_tx_refusals small_ring = 0" "s_bad small = []" "length arp = 16"
  by (simp_all add: small_def sim_init_def mem_words_def small_ring_def arp_def)

lemma small_fits: "fits (sim_face 40) (0 AND QED_ADDRESS) (1 AND 0xF)" "fits (sim_face 40) (16 AND QED_ADDRESS) (0 AND 0xF)"
  by (simp_all add: fits_def)

lemma small_mem:
  "fld (s_mem small) 16 = 32" "fld (s_mem small) 17 = 64" "fld (s_mem small) 0 = 24" "fld (s_mem small) (Suc 0) = 14"
  "fld (s_mem small) 8 = 24" "fld (s_mem small) 9 = 13" "fld (s_mem small) 24 = 0" "fld (s_mem small) 25 = 0"
  "fld (s_mem small) 26 = 0" "fld (s_mem small) 27 = 0x0608"
proof -
  have "mem_words (replicate 200 0) = 40" by (simp add: mem_words_def)
  then show
    "fld (s_mem small) 16 = 32" "fld (s_mem small) 17 = 64" "fld (s_mem small) 0 = 24" "fld (s_mem small) (Suc 0) = 14"
    "fld (s_mem small) 8 = 24" "fld (s_mem small) 9 = 13" "fld (s_mem small) 24 = 0" "fld (s_mem small) 25 = 0"
    "fld (s_mem small) 26 = 0" "fld (s_mem small) 27 = 0x0608"
    by (simp_all add: small_def packed.wr_val packed.wr_size)
qed

definition bare :: "u8 list" where
  "bare = [0, 0, 0, 0, 0, 0, 0, 0, 0, 0, 0, 0, 8, 6]"

lemma small_wants:
  "tx_want 40 (unit_of small) (s_mem small) 0 = Inr bare" "tx_want 40 (unit_of small) (s_mem small) 1 = Inl (Length 13)"
proof -
  have u: "[0..<14] = [0, 1, 2, 3, 4, 5, 6, 7, 8, 9, 10, 11, 12, 13 :: nat]" by code_simp
  have t: "qed_transmit bare = (None, bare)" by code_simp
  have "map (\<lambda>k. byte_of (k mod 4) (fld (s_mem small) (24 + k div 4))) [0..<14] = bare"
    by (simp add: u small_mem byte_of_def bare_def)
  then show "tx_want 40 (unit_of small) (s_mem small) 0 = Inr bare"
    by (simp add: tx_want_def unit_of_def entry_at_def small_mem t)
  show "tx_want 40 (unit_of small) (s_mem small) 1 = Inl (Length 13)"
    by (simp add: tx_want_def unit_of_def entry_at_def small_mem)
qed

section \<open>Properties\<close>

text \<open>
  C8. A frame delivered is the frame the machine reads.  With the machine leaving the device
  alone for the pass, a frame the filter passes and the next buffer has room for is delivered:
  the buffer's words read back as the frame, the entry's third word is its length, 251 is one
  further, no other word of main memory changes, and the claim is released.\<close>

theorem receive_delivers:
  assumes "s_script h = []" "s_enabled h" "W = mem_words (s_mem h)"
    and "fits (sim_face W) (s_tx_base h AND QED_ADDRESS) (s_tx_log2 h AND 0xF)"
      "fits (sim_face W) (s_rx_base h AND QED_ADDRESS) (s_rx_log2 h AND 0xF)"
    and "rx_filter g f = None" "s_rx_cons h \<noteq> s_rx_prod h"
    and "e = entry_at (s_rx_base h AND QED_ADDRESS) (s_rx_log2 h AND 0xF) (s_rx_cons h)"
    and "buf = fld (s_mem h) e AND QED_ADDRESS"
    and "rx_reason (sim_face W) (length f) (s_rx_cons h) buf (fld (s_mem h) (e + 1)) = None"
    and "e + 2 < unat buf \<or> unat buf + (length f + 3) div 4 \<le> e + 2"
  shows "\<exists>g' h'. qed_ring_receive (sim_face W) f g h = (True, g', h') \<and>
    fst (frame_of (sim_face W) (unat buf) (length f) h') = f \<and> fld (s_mem h') (e + 2) = of_nat (length f) \<and>
    s_rx_cons h' = s_rx_cons h + 1 \<and> \<not> s_busy h' \<and> s_bad h' = s_bad h \<and>
    (\<forall>j<W. j \<noteq> e + 2 \<and> (j < unat buf \<or> unat buf + (length f + 3) div 4 \<le> j) \<longrightarrow> fld (s_mem h') j = fld (s_mem h) j)"
proof -
  let ?n = "length f"
  let ?m = "qed_mem_write (qed_mem_write (s_mem h) (unat buf) (take ((?n + 3) div 4) (frame_words f))) (e + 2) [of_nat ?n]"
  let ?h = "h\<lparr>s_mem := ?m, s_busy := False, s_rx_cons := s_rx_cons h + 1, s_dirty := False, s_published := False\<rparr>"
  have n: "?n \<le> QED_MAX_FRAME" "unat buf + (?n + 3) div 4 \<le> W"
    using assms(10) by (auto simp: rx_reason_def split: if_splits)
  have ne: "f \<noteq> []" using assms(6) by (auto simp: rx_filter_def split: if_splits)
  have "e + 8 \<le> W" using entry_fits [OF assms(5)] assms(8) by simp
  then have inW: "e + 2 < W" by simp
  note st = frame_store [OF assms(3) refl n, of "e + 2"]
  have r: "qed_ring_receive (sim_face W) f g h = (True, trace (Rx_delivered f (s_rx_cons h)) g, ?h)"
    by (rule receive_quiet) (use assms ne in \<open>simp_all add: unit_of_def\<close>)
  moreover have "fst (frame_of (sim_face W) (unat buf) ?n ?h) = f"
    using st(1) inW assms(1, 11) by (simp add: frame_of_def face_defs case_prod_unfold sim_load_words)
  moreover have "\<forall>j<W. j \<noteq> e + 2 \<and> (j < unat buf \<or> unat buf + (?n + 3) div 4 \<le> j) \<longrightarrow> fld ?m j = fld (s_mem h) j"
    using st(3) [OF inW assms(11)] by blast
  moreover have "fld ?m (e + 2) = of_nat ?n" using st(2) \<open>e + 8 \<le> W\<close> assms(11) by simp
  ultimately show ?thesis by simp
qed

theorem receive_delivers_witness:
  "\<exists>g' h'. qed_ring_receive (sim_face 40) arp small_ring small = (True, g', h') \<and>
     fst (frame_of (sim_face 40) 32 16 h') = arp \<and> fld (s_mem h') 18 = 16 \<and> s_rx_cons h' = 1 \<and> \<not> s_busy h'"
proof -
  have "rx_filter small_ring arp = None" by code_simp
  moreover have "rx_reason (sim_face 40) (length arp) (s_rx_cons small) 32 (fld (s_mem small) (16 + 1)) = None"
    by (simp add: rx_reason_def small_mem)
  ultimately show ?thesis
    using receive_delivers [of small 40 small_ring arp 16 32] small_fits small_mem by (force simp: entry_at_def)
qed

text \<open>
  C11. A transmit pass is the entries in order.  With the machine leaving the device alone for
  the pass, it takes the entries 245 to 244, at most the number it is given: each entry is the
  frame its words name in main memory, with its checksums, or refused for the reason its words
  give; the frames go to the wire in order, the refusals are counted in eight bits, 245 has
  passed every entry taken and main memory is as it was.\<close>

theorem transmit_takes_entries:
  assumes "s_script h = []" "s_enabled h" "W = mem_words (s_mem h)"
    and "fits (sim_face W) (s_tx_base h AND QED_ADDRESS) (s_tx_log2 h AND 0xF)"
      "fits (sim_face W) (s_rx_base h AND QED_ADDRESS) (s_rx_log2 h AND 0xF)"
    and "g_tx_refusals g AND 0xFF = g_tx_refusals g"
    and "rs = map (tx_want W (unit_of h) (s_mem h)) (entries_from (s_tx_cons h) (min most (unat (s_tx_prod h - s_tx_cons h))))"
  shows "\<exists>g' h'. qed_ring_transmit (sim_face W) most g h = (length rs, g', h') \<and>
    g_sent g' = g_sent g @ sent_of rs \<and>
    g_tx_refusals g' = (g_tx_refusals g + of_nat (refused_of rs)) AND 0xFF \<and>
    s_tx_cons h' = s_tx_cons h + of_nat (length rs) \<and> s_mem h' = s_mem h \<and> s_bad h' = s_bad h"
proof (cases "s_tx_prod h = s_tx_cons h \<or> most = 0")
  case True
  then have rs: "rs = []" using assms(7) by (auto simp: entries_from_def)
  have "qed_ring_transmit (sim_face W) most g h = (0, g, h)"
    using True assms(1) by (auto simp: qed_ring_transmit_def)
  then show ?thesis using rs assms(6) by (simp add: sent_of_def refused_of_def)
next
  case False
  let ?F = "sim_face W" and ?c = "h\<lparr>s_published := False, s_busy := True\<rparr>"
  obtain k g' h' where l: "tx_loop ?F (s_epoch ?c) (unit_of ?c) most (s_tx_cons ?c) g ?c = (k, g', h')" by (metis prod_cases3)
  have want: "tx_want W (unit_of ?c) (s_mem ?c) = tx_want W (unit_of h) (s_mem h)"
    by (rule ext) (simp add: tx_want_def unit_of_def)
  have loop: "k = length rs \<and> g_sent g' = g_sent g @ sent_of rs \<and>
      g_tx_refusals g' = (g_tx_refusals g + of_nat (refused_of rs)) AND 0xFF \<and>
      s_tx_cons h' = s_tx_cons ?c + of_nat (length rs) \<and> s_mem h' = s_mem ?c \<and> s_script h' = [] \<and> s_bad h' = s_bad ?c"
    by (rule tx_loop_quiet [OF _ _ _ _ _ _ _ _ _ l])
      (use assms want in \<open>simp_all add: unit_of_def\<close>)
  have u: "state_read h = unit_of h" "state_read ?c = unit_of ?c" using assms(1, 2) by (auto intro: state_quiet)
  have c: "qf_claim ?F h (s_epoch h) = (True, ?c)" by (rule claim_quiet [OF assms(1, 2)])
  have fit2: "rings_fit ?F (unit_of ?c) g = (True, g)" using assms(4, 5) by (simp add: rings_fit_def unit_of_def)
  have s: "qs_enabled (unit_of h)" "qs_epoch (unit_of h) = s_epoch h" "qs_tx_cons (unit_of h) = s_tx_cons h"
      "qs_tx_prod (unit_of h) = s_tx_prod h" "qs_enabled (unit_of ?c)" "qs_epoch (unit_of ?c) = s_epoch h"
      "qs_tx_cons (unit_of ?c) = s_tx_cons h"
    using assms(2) by (simp_all add: unit_of_def)
  have "qed_ring_transmit ?F most g h = (k, g', qf_release ?F h')"
    using False l assms(1) u c s fit2 by (simp add: qed_ring_transmit_def del: state_read_simps)
  then show ?thesis using loop by (simp add: release_quiet)
qed

theorem transmit_takes_entries_witness:
  "\<exists>g' h'. qed_ring_transmit (sim_face 40) 64 small_ring small = (2, g', h') \<and>
     g_sent g' = [bare] \<and> g_tx_refusals g' = 1 \<and> s_tx_cons h' = 2"
proof -
  have rs: "map (tx_want 40 (unit_of small) (s_mem small)) (entries_from 0 2) = [Inr bare, Inl (Length 13)]"
    using small_wants by (simp add: entries_from_def numeral_2_eq_2)
  show ?thesis
    using transmit_takes_entries [of small 40 small_ring "[Inr bare, Inl (Length 13)]" 64] small_fits rs
    by (force simp: small_ring_def sent_of_def refused_of_def)
qed

end
