(* ===== verification/Qed_Device_Props.thy ===== *)
theory Qed_Device_Props
  imports Qed_Device Qed_Deliver Run
begin

text \<open>
  The Ethernet device over whole runs: the page's rules from the program's start on, and the
  log's limit.
\<close>

unbundle bit_operations_syntax

section \<open>The script is only spent\<close>

lemma turn_spent: "disables (sim_turn s) \<le> disables s"
  by (rule calm_disables [OF calm_turn])

lemma upd_spent:
  "disables (s\<lparr>s_busy := b\<rparr>) = disables s" "disables (s\<lparr>s_published := b\<rparr>) = disables s"
  "disables (s\<lparr>s_dirty := b\<rparr>) = disables s" "disables (s\<lparr>s_bad := x\<rparr>) = disables s"
  "disables (s\<lparr>s_mem := m\<rparr>) = disables s" "disables (s\<lparr>s_counts := c\<rparr>) = disables s"
  "disables (s\<lparr>s_tx_cons := i\<rparr>) = disables s" "disables (s\<lparr>s_rx_cons := i\<rparr>) = disables s"
  by (simp_all add: disables_def)

lemma turns_spent: "disables (turns n s) \<le> disables s"
  by (rule calm_disables [OF calm_turns])

lemma touches_spent: "disables (touches c s) \<le> disables s"
proof (induction c s rule: touches.induct)
  case (2 c s)
  have "disables (sim_touch s) \<le> disables s" using turn_spent by (simp add: sim_touch_def Let_def upd_spent bad_def)
  then show ?case using 2 by simp
qed simp

lemma face_spent:
  "disables (snd (qf_load (sim_face W) s k n)) \<le> disables s" "disables (qf_store (sim_face W) s k ws) \<le> disables s"
  "disables (snd (qf_claim (sim_face W) s e)) \<le> disables s" "disables (qf_release (sim_face W) s) \<le> disables s"
  "disables (qf_sent (sim_face W) s e i) \<le> disables s" "disables (qf_delivered (sim_face W) s e i) \<le> disables s"
  "disables (qf_counts (sim_face W) s c) \<le> disables s"
proof -
  have load: "disables (snd (sim_load s k n)) \<le> disables s"
  proof (induction s k n rule: sim_load.induct)
    case (1 s k n)
    show ?case
      using order_trans [OF "1.IH" [OF _ refl refl] touches_spent]
      by (cases "n = 0") (simp_all add: sim_load.simps [of s] Let_def case_prod_unfold)
  qed
  have store: "disables (sim_store s k ws) \<le> disables s"
  proof (induction s k ws rule: sim_store.induct)
    case (1 s k ws)
    show ?case
      using order_trans [OF "1.IH" [OF _ refl refl, unfolded upd_spent] touches_spent]
      by (cases "ws = []") (simp_all add: sim_store.simps [of s] Let_def)
  qed
  show "disables (snd (qf_load (sim_face W) s k n)) \<le> disables s" "disables (qf_store (sim_face W) s k ws) \<le> disables s"
    using load store by (simp_all add: face_defs)
  show "disables (qf_release (sim_face W) s) \<le> disables s"
    using turn_spent by (simp add: release_sim upd_spent)
  show "disables (qf_sent (sim_face W) s e i) \<le> disables s"
    using turn_spent by (simp add: face_defs f_sent_def sim_wr_def wr_tx_stamped Let_def upd_spent bad_def)
  show "disables (qf_counts (sim_face W) s c) \<le> disables s"
    by (rule calm_disables [OF calm_counts])
  show "disables (snd (qf_claim (sim_face W) s e)) \<le> disables s"
    using turn_spent [of s] order_trans [OF turn_spent, of "wr_claim (sim_turn s) (push_bit 16 (ucast e) OR 1)"]
    by (simp add: face_defs f_claim_def sim_wr_def sim_rd_def sim_val_def Let_def) (simp add: wr_claim_def Let_def upd_spent)
  show "disables (qf_delivered (sim_face W) s e i) \<le> disables s"
    using turn_spent [of s] order_trans [OF turn_spent, of "(sim_turn s)\<lparr>s_dirty := False\<rparr>"]
    by (simp add: face_defs f_delivered_def sim_wr_def wr_rx_stamped Let_def upd_spent bad_def)
qed

lemma tx_loop_spent: "disables (snd (snd (tx_loop (sim_face W) e u n c g h))) \<le> disables h"
proof (induction n arbitrary: c g h)
  case (Suc n)
  let ?F = "sim_face W"
  have entry: "disables (snd (tx_entry ?F u c h)) \<le> disables h"
    unfolding tx_entry_def frame_of_def Let_def
    by (auto simp: case_prod_unfold intro: face_spent order_trans [OF face_spent(1) face_spent(1)])
  have fin: "disables (snd (tx_done ?F c r g h')) \<le> disables h'" for r h'
    by (cases r) (simp_all add: tx_done_def put_counts_def Let_def face_spent)
  show ?case
    using order_trans [OF Suc.IH order_trans [OF face_spent(5) order_trans [OF fin entry]]]
    by (auto simp: case_prod_unfold)
qed simp

lemma transmit_spent: "disables (snd (snd (qed_ring_transmit (sim_face W) most g h))) \<le> disables h"
proof -
  let ?F = "sim_face W" and ?t = "snd (qf_claim (sim_face W) (turns 11 h) (qs_epoch (state_read h)))"
  have t: "disables (turns 11 ?t) \<le> disables h"
    by (rule order_trans [OF turns_spent order_trans [OF face_spent(3) turns_spent]])
  show ?thesis
    using turns_spent [of 11 h] order_trans [OF face_spent(3) turns_spent] order_trans [OF face_spent(4) t]
      order_trans [OF face_spent(4) order_trans [OF tx_loop_spent t]]
    unfolding qed_ring_transmit_def face_state by (simp add: case_prod_unfold rings_fit_def)
qed

lemma rx_claimed_spent: "disables (snd (snd (rx_claimed (sim_face W) e u f g h))) \<le> disables h"
  unfolding rx_claimed_def rx_drop_def put_counts_def Let_def
  using order_trans [OF face_spent(7) order_trans [OF face_spent(4) face_spent(1)]]
    order_trans [OF face_spent(4) order_trans [OF face_spent(6) order_trans [OF face_spent(2) order_trans [OF face_spent(2) face_spent(1)]]]]
  by (auto simp: case_prod_unfold split: option.split)

lemma receive_spent: "disables (snd (snd (qed_ring_receive (sim_face W) f g h))) \<le> disables h"
proof -
  let ?F = "sim_face W" and ?t = "snd (qf_claim (sim_face W) (turns 11 h) (qs_epoch (state_read h)))"
  have t: "disables (turns 11 ?t) \<le> disables h"
    by (rule order_trans [OF turns_spent order_trans [OF face_spent(3) turns_spent]])
  show ?thesis
    using turns_spent [of 11 h] order_trans [OF face_spent(3) turns_spent] order_trans [OF face_spent(4) t]
      order_trans [OF rx_claimed_spent t] order_trans [OF face_spent(7) turns_spent]
    unfolding qed_ring_receive_def face_state rx_drop_def put_counts_def Let_def
    by (auto simp: case_prod_unfold rings_fit_def split: option.split)
qed

section \<open>Runs of the device\<close>

lemma batch_keeps:
  "rest h \<Longrightarrow> disables h < 65536 \<Longrightarrow> take_batch (sim_face W) k rs g h = (ls, g', h') \<Longrightarrow> rest h' \<and> disables h' \<le> disables h"
proof (induction k arbitrary: rs g h)
  case (Suc k)
  show ?case
  proof (cases rs)
    case (Cons r rs')
    show ?thesis
    proof (cases r)
      case (Inr f)
      obtain b g1 h1 where r: "qed_ring_receive (sim_face W) f g h = (b, g1, h1)" by (metis prod_cases3)
      have "rest h1" by (rule receive_keeps_rules [OF Suc.prems(1, 2) r])
      moreover have "disables h1 \<le> disables h" using receive_spent [of W f g h] r by simp
      ultimately show ?thesis using Suc.IH [of h1 rs' g1] Suc.prems Cons Inr r by fastforce
    qed (use Suc.prems Cons in auto)
  qed (use Suc.prems in auto)
qed auto

inductive device_step :: "nat \<Rightarrow> qed_ring \<times> sim \<Rightarrow> qed_ring \<times> sim \<Rightarrow> bool" for W where
  device_pass: "disables (s\<lparr>s_script := sc\<rparr>) < 65536 \<Longrightarrow>
    device_pass (sim_face W) p g (s\<lparr>s_script := sc\<rparr>) = (ls, g', s') \<Longrightarrow> device_step W (g, s) (g', s')"

text \<open>From the start of the program, on a page a program before it may have left claimed.\<close>

definition device_start :: "nat \<Rightarrow> qed_ring \<times> sim \<Rightarrow> bool" where
  "device_start W gs \<longleftrightarrow>
     (\<exists>s host words s1. dev_ok (dev_of s) \<and> s_bad s = [] \<and> qed_fabric_attach sim_page s = (Inr words, s1) \<and>
        W = unat words \<and> qed_ring_init (sim_face W) host s1 = gs)"

definition device_inv :: "qed_ring \<times> sim \<Rightarrow> bool" where
  "device_inv gs \<longleftrightarrow> rest (snd gs)"

lemma attach_rest:
  assumes "dev_ok (dev_of s)" "s_bad s = []" "qed_fabric_attach sim_page s = (Inr words, s1)"
  shows "rest s1"
proof -
  have "s1 = f_release sim_page (turns 2 s)"
    using assms(3)
    by (auto simp: qed_fabric_attach_def sim_page_def sim_rd_def sim_val_def Let_def f_release_def eval_nat_numeral
        split: if_splits)
  then show ?thesis
    using release_rest [of "turns 2 s" 0] calm_ok [OF calm_turns assms(1)] calm_watch(3) [OF calm_turns] assms(2)
    by (simp add: sim_face_def qed_fabric_face_def)
qed

lemma host_calm: "calm s (qf_host (sim_face W) s host)"
proof -
  have w: "calm s (sim_wr s i v)" if "i \<in> {OFF_MAC_HIGH, OFF_MAC_LOW, OFF_IP_ADDRESS, OFF_NETMASK, OFF_GATEWAY}" for s i v
    by (rule calm_by [OF calm_turn]) (use that in \<open>auto simp: sim_wr_def Let_def\<close>)
  show ?thesis
    unfolding face_defs f_host_def Let_def by (auto intro!: w calm_trans [OF _ w])
qed

interpretation device: kept "device_start W" "device_step W" device_inv for W
proof unfold_locales
  fix gs assume "device_start W gs"
  then obtain s host words s1 where s: "dev_ok (dev_of s)" "s_bad s = []"
      "qed_fabric_attach sim_page s = (Inr words, s1)" "qed_ring_init (sim_face W) host s1 = gs"
    unfolding device_start_def by blast
  have "snd gs = turns 11 (qf_host (sim_face W) s1 host)" using s(4) by (auto simp: qed_ring_init_def)
  then show "device_inv gs"
    unfolding device_inv_def
    using rest_calm [OF attach_rest [OF s(1-3)] calm_trans [OF host_calm calm_turns]] by simp
next
  fix gs gs' assume "device_step W gs gs'" "device_inv gs"
  then obtain s sc p g ls g' s' where st: "gs = (g, s)" "gs' = (g', s')" "disables (s\<lparr>s_script := sc\<rparr>) < 65536"
      "device_pass (sim_face W) p g (s\<lparr>s_script := sc\<rparr>) = (ls, g', s')"
    by (auto elim: device_step.cases)
  let ?s = "s\<lparr>s_script := sc\<rparr>"
  have r: "rest ?s" using \<open>device_inv gs\<close> st(1) by (simp add: device_inv_def rest_def)
  obtain l1 g1 s1 where b: "take_batch (sim_face W) 64 (ps_reads p) g ?s = (l1, g1, s1)" by (metis prod_cases3)
  obtain k g2 s2 where t: "qed_ring_transmit (sim_face W) 64 g1 s1 = (k, g2, s2)" by (metis prod_cases3)
  have s1: "rest s1" "disables s1 < 65536" using batch_keeps [OF r st(3) b] st(3) by auto
  have "s' = s2" using st(4) b t by (simp add: device_pass_def)
  then show "device_inv gs'" using transmit_keeps_rules [OF s1 t] st(2) by (simp add: device_inv_def)
qed

text \<open>
  C3. The Ethernet device's rules hold for good.  From the program's start on, whatever the
  machine does to the registers and to main memory before each of the program's accesses, and
  whatever the tap gives, no pass breaks a rule of the page: no access to main memory without
  the claim or after 251 is moved, no 245 past 244, no 251 past 250 or standing still, none
  before its words are there, no register that is not one; and every pass ends with the claim
  released.  The epoch has sixteen bits, so a pass has fewer than 65,536 disables.\<close>

theorem device_keeps_rules:
  assumes "reach (device_start W) (device_step W) (g, s)"
  shows "s_bad s = [] \<and> \<not> s_busy s"
  using device.reach_inv [OF assms] by (simp add: device_inv_def rest_def)

text \<open>A start on a page left claimed, and a pass in which the machine turns the device off and on.\<close>

definition left :: sim where
  "left = small\<lparr>s_busy := True\<rparr>"

definition meddled :: "machine_move list list" where
  "meddled = replicate 30 [] @ [[Reset_devices, Reg_write 160 1], [Poke 3 7], [Reg_write 164 1]]"

theorem device_keeps_rules_witness:
  "case qed_ring_init (sim_face 40) (g_host small_ring) (f_release sim_page left) of (g, s) \<Rightarrow>
   case device_pass (sim_face 40) \<lparr>ps_poll = Polled None, ps_reads = [Inr arp]\<rparr> g (s\<lparr>s_script := meddled\<rparr>) of
     (ls, g', s') \<Rightarrow> s_bad s' = [] \<and> \<not> s_busy s'"
proof -
  obtain g s where i: "qed_ring_init (sim_face 40) (g_host small_ring) (f_release sim_page left) = (g, s)"
    by fastforce
  obtain ls g' s' where p: "device_pass (sim_face 40) \<lparr>ps_poll = Polled None, ps_reads = [Inr arp]\<rparr> g (s\<lparr>s_script := meddled\<rparr>) = (ls, g', s')"
    by (metis prod_cases3)
  have "qed_fabric_attach sim_page left = (Inr 40, f_release sim_page left)"
    by (simp add: qed_fabric_attach_def sim_page_def sim_rd_def sim_val_def left_def f_release_def)
  moreover have "dev_ok (dev_of left)" "s_bad left = []"
    by (simp_all add: left_def small_def sim_init_def dev_ok_def dev_of_def)
  ultimately have "device_start 40 (g, s)" unfolding device_start_def using i by (intro exI conjI) auto
  moreover have "disables (s\<lparr>s_script := meddled\<rparr>) < 65536" by (simp add: disables_def meddled_def)
  ultimately have "reach (device_start 40) (device_step 40) (g', s')"
    using p by (blast intro: reach_init reach_step device_step.intros)
  from device_keeps_rules [OF this] show ?thesis by (simp add: i p)
qed



text \<open>
  The program's exit code is 0, 1 or 2.  With 2, the command line or a flag refused, the
  page is as it was; and whenever the page is not as it was, the flags made a host.\<close>

theorem device_main_errors:
  assumes "device_main P room op args ps h = (n, h')"
  shows "n \<le> 2 \<and> (n = 2 \<longrightarrow> h' = h) \<and>
    (h' \<noteq> h \<longrightarrow> (\<exists>f host. main_args args no_flags = Inr f \<and>
      host_of_flags (fl_mac f) (fl_address f) (fl_gateway f) = Inr host))"
proof -
  have "main_args args f = Inl k \<Longrightarrow> k \<le> 2" for f k
    by (induction args f rule: main_args.induct) (auto split: if_splits)
  then show ?thesis
    using assms by (auto simp: device_main_def split: sum.splits if_splits prod.splits)
qed

theorem device_main_errors_witness:
  "device_main sim_page 100 \<lparr>op_log = True, op_page = True, op_tally = True, op_tap = True\<rparr>
     [''--ip-gateway'', ''10.0.0.256''] [] small = (2, small) \<and> (2 :: nat) \<le> 2"
proof -
  have f: "main_args [''--ip-gateway'', ''10.0.0.256''] no_flags = Inr (no_flags\<lparr>fl_gateway := Some ''10.0.0.256''\<rparr>)" by code_simp
  have "isl (host_of_flags None None (Some ''10.0.0.256''))" by code_simp
  then have d: "device_main sim_page 100 \<lparr>op_log = True, op_page = True, op_tally = True, op_tap = True\<rparr>
      [''--ip-gateway'', ''10.0.0.256''] [] small = (2, small)"
    unfolding device_main_def f by (auto simp: no_flags_def isl_def)
  show ?thesis using device_main_errors [OF d] d by simp
qed

end
