(* ===== verification/Chaos_Packet.thy ===== *)
theory Chaos_Packet
  imports Burst_Code
begin

text \<open>
  \<^verbatim>\<open>chaos_packet.h\<close> and \<^verbatim>\<open>chaos_packet.c\<close>: a Chaosnet packet, the frame it crosses the cable as, and
  the check word over a frame.
\<close>

unbundle bit_operations_syntax

abbreviation (input) CHAOS_PKT_MAX_DATA :: nat where "CHAOS_PKT_MAX_DATA \<equiv> 488"
abbreviation (input) CHAOS_PKT_HEADER_WORDS :: nat where "CHAOS_PKT_HEADER_WORDS \<equiv> 8"
abbreviation (input) CHAOS_PKT_TRAILER_WORDS :: nat where "CHAOS_PKT_TRAILER_WORDS \<equiv> 3"
abbreviation (input) CHAOS_PKT_MAX_WORDS :: nat where "CHAOS_PKT_MAX_WORDS \<equiv> 255"

definition chaos_op_is_data :: "nat \<Rightarrow> bool" where
  "chaos_op_is_data op \<longleftrightarrow> 128 \<le> op"

definition chaos_op_is_controlled :: "nat \<Rightarrow> bool" where
  "chaos_op_is_controlled op \<longleftrightarrow> op = 1 \<or> op = 2 \<or> op = 12 \<or> chaos_op_is_data op"

text \<open>\<open>cp_data\<close> is the packet's array of 488 bytes, of which the first \<open>cp_len\<close> are its data.\<close>

record chaos_packet =
  cp_opcode :: u8
  cp_forward :: u8
  cp_dest :: u16
  cp_dest_index :: u16
  cp_source :: u16
  cp_source_index :: u16
  cp_number :: u16
  cp_ack :: u16
  cp_len :: u16
  cp_data :: "u8 list"

definition data_word :: "chaos_packet \<Rightarrow> nat \<Rightarrow> u16" where
  "data_word p k =
     (let lo = 2 * k; hi = lo + 1
      in ucast (cp_data p ! lo) OR push_bit 8 (if hi < unat (cp_len p) then ucast (cp_data p ! hi) else 0))"

text \<open>The words written, none where \<open>room\<close> is too little.\<close>

definition chaos_packet_words :: "chaos_packet \<Rightarrow> nat \<Rightarrow> u16 list" where
  "chaos_packet_words p room =
     (let data_words = (unat (cp_len p) + 1) div 2; n = CHAOS_PKT_HEADER_WORDS + data_words
      in if room < n then []
         else [push_bit 8 (ucast (cp_opcode p)), push_bit 12 (ucast (cp_forward p)) OR (cp_len p AND 0xFFF), cp_dest p,
               cp_dest_index p, cp_source p, cp_source_index p, cp_number p, cp_ack p] @ map (data_word p) [0..<data_words])"

section \<open>The check word\<close>

definition check_bit :: "u32 \<Rightarrow> bool \<Rightarrow> u32" where
  "check_bit r d =
     (let fb = d \<noteq> bit r 15; nxt = push_bit 1 r AND 0xFFFF
      in if fb then nxt XOR (1 OR push_bit 2 1 OR push_bit 15 1) else nxt)"

definition chaos_check_word :: "u16 list \<Rightarrow> u16" where
  "chaos_check_word words = ucast (fold (\<lambda>w r. fold (\<lambda>k r. check_bit r (bit w k)) (rev [0..<16]) r) words 0)"

definition chaos_packet_frame :: "chaos_packet \<Rightarrow> u16 \<Rightarrow> u16 \<Rightarrow> nat \<Rightarrow> u16 list" where
  "chaos_packet_frame p cable_dest cable_source room =
     (let ws = chaos_packet_words p room
      in if ws = [] \<or> room < length ws + CHAOS_PKT_TRAILER_WORDS then []
         else let ws = ws @ [cable_dest, cable_source] in ws @ [chaos_check_word ws])"

section \<open>A frame taken apart\<close>

record chaos_frame =
  cf_packet :: chaos_packet
  cf_cable_dest :: u16
  cf_cable_source :: u16
  cf_check :: u16
  cf_check_ok :: bool

datatype frame_err = Too_few | Too_many | Count_past | Count_disagrees

definition unpack_data :: "nat \<Rightarrow> u16 list \<Rightarrow> u8 list" where
  "unpack_data count words =
     fold (\<lambda>k data.
         let w = words ! (CHAOS_PKT_HEADER_WORDS + k);
             data = (if 2 * k < count then data[2 * k := ucast w] else data)
         in if 2 * k + 1 < count then data[2 * k + 1 := ucast (drop_bit 8 w)] else data)
       [0..<(count + 1) div 2] (replicate CHAOS_PKT_MAX_DATA 0)"

definition chaos_frame_parse :: "u16 list \<Rightarrow> frame_err + chaos_frame" where
  "chaos_frame_parse words =
     (let n = length words in
       if n < CHAOS_PKT_HEADER_WORDS + CHAOS_PKT_TRAILER_WORDS then Inl Too_few
       else if CHAOS_PKT_MAX_WORDS < n then Inl Too_many
       else let body = n - CHAOS_PKT_TRAILER_WORDS; count = unat (words ! 1 AND 0xFFF) in
         if CHAOS_PKT_MAX_DATA < count then Inl Count_past
         else if body \<noteq> CHAOS_PKT_HEADER_WORDS + (count + 1) div 2 then Inl Count_disagrees
         else Inr
           \<lparr>cf_packet =
              \<lparr>cp_opcode = ucast (drop_bit 8 (words ! 0)), cp_forward = ucast (drop_bit 12 (words ! 1)), cp_dest = words ! 2,
               cp_dest_index = words ! 3, cp_source = words ! 4, cp_source_index = words ! 5, cp_number = words ! 6,
               cp_ack = words ! 7, cp_len = of_nat count, cp_data = unpack_data count words\<rparr>,
            cf_cable_dest = words ! body, cf_cable_source = words ! (body + 1), cf_check = words ! (body + 2),
            cf_check_ok = (chaos_check_word (take (body + 2) words) = words ! (body + 2))\<rparr>)"

section \<open>The check word as a shift register\<close>

definition check_step :: "u16 \<Rightarrow> bool \<Rightarrow> u16" where
  "check_step r d = (if d \<noteq> bit r 15 then push_bit 1 r XOR 0x8005 else push_bit 1 r)"

definition check_lay :: "bool list \<Rightarrow> u16" where
  "check_lay bs = horner_sum of_bool 2 (rev (take 16 (bs @ replicate 16 False)))"

definition word_bits :: "u16 \<Rightarrow> bool list" where
  "word_bits w = map (bit w) (rev [0..<16])"

lemma bit_double: "bit (r * 2) n \<longleftrightarrow> 0 < n \<and> n < LENGTH('a) \<and> bit r (n - 1)" for r :: "'a::len word"
  using bit_push_bit_iff [of 1 r n] by (auto simp: possible_bit_word)

lemma bit_FFFF: "bit (0xFFFF :: u32) n \<longleftrightarrow> n < 16"
proof -
  have "(0xFFFF :: u32) = mask 16" by (simp add: mask_eq_exp_minus_1)
  then show ?thesis by (simp only: bit_mask_iff possible_bit_word) auto
qed

lemma check_bit_step: "check_bit (ucast r) d = ucast (check_step r d)"
proof -
  have "push_bit 1 (ucast r) AND 0xFFFF = (ucast (push_bit 1 r) :: u32)"
  proof (rule bit_word_eqI)
    fix n assume "n < LENGTH(32)"
    then show "bit (push_bit 1 (ucast r) AND 0xFFFF :: u32) n = bit (ucast (push_bit 1 r) :: u32) n"
      unfolding bit_and_iff bit_FFFF by (auto simp: bit_simps bit_double)
  qed
  moreover have "ucast (push_bit 1 r XOR 0x8005) = (ucast (push_bit 1 r) XOR 0x8005 :: u32)"
    by (simp add: unsigned_xor_eq)
  moreover have "bit (ucast r :: u32) 15 = bit r 15" by (simp add: bit_simps)
  ultimately show ?thesis by (simp add: check_bit_def check_step_def Let_def)
qed

lemma bit_check_lay: "bit (check_lay bs) n \<longleftrightarrow> n < 16 \<and> 15 - n < length bs \<and> bs ! (15 - n)"
proof (cases "n < 16")
  case True
  have "length (take 16 (bs @ replicate 16 False)) = 16" by simp
  then have "rev (take 16 (bs @ replicate 16 False)) ! n = take 16 (bs @ replicate 16 False) ! (15 - n)"
    using True by (subst rev_nth) auto
  then show ?thesis
    using True by (auto simp: check_lay_def bit_horner_sum_bit_word_iff nth_append)
qed (auto simp: check_lay_def bit_horner_sum_bit_word_iff)

interpretation check: shift_code check_step check_lay
proof
  fix r s :: u16 and d assume eq: "check_step r d = check_step s d"
  have low: "bit (check_step x d) 0 \<longleftrightarrow> d \<noteq> bit x 15" for x by (simp add: check_step_def bit_simps bit_double)
  then have top: "bit r 15 = bit s 15" using eq low [of r] low [of s] by auto
  then have "push_bit 1 r = push_bit 1 s" using eq by (auto simp: check_step_def split: if_splits)
  then have "bit (push_bit 1 r) (Suc n) = bit (push_bit 1 s) (Suc n)" for n by simp
  then have low: "bit r n = bit s n" if "n < 15" for n using that by (auto simp: bit_simps bit_double)
  show "r = s"
  proof (rule bit_word_eqI)
    fix n assume "n < LENGTH(16)"
    then consider "n < 15" | "n = 15" by fastforce
    then show "bit r n = bit s n" using low top by cases auto
  qed
next
  show "check_lay [] = 0" by (rule bit_word_eqI) (simp add: bit_check_lay)
next
  fix ds :: "bool list" and r d assume "length ds < LENGTH(16)"
  then show "check_step (r XOR check_lay (d # ds)) False = check_step r d XOR check_lay ds"
    by (intro bit_word_eqI) (auto simp: check_step_def bit_simps bit_double bit_check_lay)
next
  fix xs ys assume a: "length xs = length ys" "length xs \<le> LENGTH(16)" "check_lay xs = check_lay ys"
  show "xs = ys"
  proof (rule nth_equalityI)
    fix i assume i: "i < length xs"
    have "bit (check_lay xs) (15 - i) = bit (check_lay ys) (15 - i)" by (simp only: a(3))
    then show "xs ! i = ys ! i" using i a(1, 2) by (auto simp: bit_check_lay)
  qed (fact a(1))
qed

lemma ucast_ucast_16: "ucast (ucast x :: u32) = x" for x :: u16
  by (rule bit_word_eqI) (auto simp: bit_simps)

lemma check_word_feed: "chaos_check_word ws = check.feed 0 (concat (map word_bits ws))"
proof -
  have bits: "fold (\<lambda>k r. check_bit r (bit w k)) ks (ucast r) = (ucast (check.feed r (map (bit w) ks)) :: u32)"
    for ks r and w :: u16
    by (induction ks arbitrary: r) (simp_all add: check_bit_step)
  have "fold (\<lambda>w r. fold (\<lambda>k r. check_bit r (bit w k)) (rev [0..<16]) r) ws (ucast r) =
      (ucast (check.feed r (concat (map word_bits ws))) :: u32)" for r
    by (induction ws arbitrary: r) (simp_all add: bits word_bits_def del: upt_Suc)
  from this [of 0] show ?thesis by (simp add: chaos_check_word_def ucast_ucast_16)
qed

section \<open>A frame and its packet\<close>

lemma unpack_data_nth:
  assumes "count \<le> CHAOS_PKT_MAX_DATA"
  shows "length (unpack_data count words) = CHAOS_PKT_MAX_DATA"
    and "i < CHAOS_PKT_MAX_DATA \<Longrightarrow> unpack_data count words ! i =
      (if i < count then ucast (drop_bit (8 * (i mod 2)) (words ! (8 + i div 2))) else 0)"
proof -
  define st where "st = (\<lambda>k data. let w = words ! (CHAOS_PKT_HEADER_WORDS + k);
      data = (if 2 * k < count then data[2 * k := ucast w] else data)
      in if 2 * k + 1 < count then data[2 * k + 1 := ucast (drop_bit 8 w) :: u8] else data)"
  let ?d = "\<lambda>m. fold st [0..<m] (replicate CHAOS_PKT_MAX_DATA 0)"
  have st: "length (st k data) = length data"
    "i < length data \<Longrightarrow> count \<le> length data \<Longrightarrow> st k data ! i =
      (if i div 2 = k \<and> i < count then ucast (drop_bit (8 * (i mod 2)) (words ! (8 + k))) else data ! i)" for k i and data :: "u8 list"
  proof -
    show "length (st k data) = length data" by (simp add: st_def Let_def)
    have "i div 2 = k \<longleftrightarrow> i = 2 * k \<or> i = 2 * k + 1" by auto
    then show "i < length data \<Longrightarrow> count \<le> length data \<Longrightarrow> st k data ! i =
      (if i div 2 = k \<and> i < count then ucast (drop_bit (8 * (i mod 2)) (words ! (8 + k))) else data ! i)"
      by (auto simp: st_def Let_def nth_list_update)
  qed
  have len: "length (?d m) = CHAOS_PKT_MAX_DATA" for m by (induction m) (simp_all add: st(1))
  have nth: "?d m ! i = (if i div 2 < m \<and> i < count then ucast (drop_bit (8 * (i mod 2)) (words ! (8 + i div 2))) else 0)"
    if "i < CHAOS_PKT_MAX_DATA" for m i
  proof (induction m)
    case (Suc m)
    then show ?case using st(2) [of i "?d m" m] that len [of m] assms by auto
  qed (use that in simp)
  have u: "unpack_data count words = ?d ((count + 1) div 2)" by (simp add: unpack_data_def st_def)
  show "length (unpack_data count words) = CHAOS_PKT_MAX_DATA" unfolding u by (rule len)
  have "i < count \<Longrightarrow> i div 2 < (count + 1) div 2" by auto
  then show "i < CHAOS_PKT_MAX_DATA \<Longrightarrow> unpack_data count words ! i =
      (if i < count then ucast (drop_bit (8 * (i mod 2)) (words ! (8 + i div 2))) else 0)"
    unfolding u using nth by auto
qed

lemma data_word_byte:
  assumes "i < unat (cp_len p)"
  shows "ucast (drop_bit (8 * (i mod 2)) (data_word p (i div 2))) = cp_data p ! i"
proof -
  have b: "ucast (ucast a OR push_bit 8 (ucast b) :: u16) = a" "ucast (drop_bit 8 (ucast a OR push_bit 8 (ucast b) :: u16)) = b"
    "ucast (ucast a :: u16) = a" for a b :: u8
    by (rule bit_word_eqI; auto simp: bit_simps dest: bit_imp_le_length)+
  show ?thesis
  proof (cases "even i")
    case True
    then have "i mod 2 = 0" "2 * (i div 2) = i" by auto
    then show ?thesis by (simp add: data_word_def Let_def b)
  next
    case False
    then have "i mod 2 = 1" "Suc (2 * (i div 2)) = i" by presburger+
    then show ?thesis using assms b(2) by (simp add: data_word_def Let_def del: drop_bit_or)
  qed
qed

definition chaos_ok :: "chaos_packet \<Rightarrow> bool" where
  "chaos_ok p \<longleftrightarrow> length (cp_data p) = CHAOS_PKT_MAX_DATA \<and> unat (cp_len p) \<le> CHAOS_PKT_MAX_DATA \<and> cp_forward p < 16"

lemma header_fields:
  fixes a f :: u8 and l :: u16
  assumes "f < 16" "unat l \<le> CHAOS_PKT_MAX_DATA"
  shows "ucast (drop_bit 8 (push_bit 8 (ucast a) :: u16)) = a"
    and "ucast (drop_bit 12 (push_bit 12 (ucast f) OR (l AND 0xFFF) :: u16)) = f"
    and "(push_bit 12 (ucast f) OR (l AND 0xFFF)) AND 0xFFF = l"
proof -
  show "ucast (drop_bit 8 (push_bit 8 (ucast a) :: u16)) = a"
    by (rule bit_word_eqI) (auto simp: bit_simps)
  have m: "bit (0xFFF :: u16) n \<longleftrightarrow> n < 12" for n
  proof -
    have "(0xFFF :: u16) = mask 12" by (simp add: mask_eq_exp_minus_1)
    then show ?thesis by (simp only: bit_mask_iff possible_bit_word) auto
  qed
  have f: "\<not> bit f n" if "4 \<le> n" for n
    using small_bits [of f 4 n] that assms(1) by (simp add: word_less_nat_alt)
  have l: "\<not> bit l n" if "12 \<le> n" for n
    using small_bits [of l 12 n] that assms(2) by simp
  show "ucast (drop_bit 12 (push_bit 12 (ucast f) OR (l AND 0xFFF) :: u16)) = f"
  proof (rule bit_word_eqI)
    fix n assume "n < LENGTH(8)"
    then show "bit (ucast (drop_bit 12 (push_bit 12 (ucast f) OR (l AND 0xFFF) :: u16)) :: u8) n = bit f n"
      using f [of n] m [of "12 + n"] by (cases "n < 4") (auto simp: bit_simps)
  qed
  show "(push_bit 12 (ucast f) OR (l AND 0xFFF)) AND 0xFFF = l"
  proof (rule bit_word_eqI)
    fix n assume "n < LENGTH(16)"
    then show "bit ((push_bit 12 (ucast f) OR (l AND 0xFFF)) AND 0xFFF) n = bit l n"
      using l [of n] unfolding bit_and_iff bit_or_iff m by (cases "n < 12") (auto simp: bit_simps)
  qed
qed

lemma frame_shape:
  assumes "chaos_ok p"
  defines "h \<equiv> [push_bit 8 (ucast (cp_opcode p)), push_bit 12 (ucast (cp_forward p)) OR (cp_len p AND 0xFFF), cp_dest p,
      cp_dest_index p, cp_source p, cp_source_index p, cp_number p, cp_ack p]"
    and "d \<equiv> map (data_word p) [0..<(unat (cp_len p) + 1) div 2]"
  shows "chaos_packet_frame p cd cs CHAOS_PKT_MAX_WORDS = h @ d @ [cd, cs, chaos_check_word (h @ d @ [cd, cs])]"
proof -
  have "(unat (cp_len p) + 1) div 2 \<le> 244" using assms(1) by (auto simp: chaos_ok_def)
  then show ?thesis by (simp add: chaos_packet_frame_def chaos_packet_words_def Let_def h_def d_def)
qed

section \<open>Properties\<close>

text \<open>
  C35. A frame built of a packet is taken apart into the packet: every header field, the forwarding
  count, the length and the data, with the bytes past them 0, the cable's two words, and a check
  word that agrees.\<close>

theorem chaos_frame_roundtrip:
  assumes "chaos_ok p"
  shows "chaos_frame_parse (chaos_packet_frame p cd cs CHAOS_PKT_MAX_WORDS) =
    Inr \<lparr>cf_packet = p\<lparr>cp_data := take (unat (cp_len p)) (cp_data p) @ replicate (CHAOS_PKT_MAX_DATA - unat (cp_len p)) 0\<rparr>,
         cf_cable_dest = cd, cf_cable_source = cs,
         cf_check = last (chaos_packet_frame p cd cs CHAOS_PKT_MAX_WORDS), cf_check_ok = True\<rparr>"
proof -
  let ?l = "unat (cp_len p)"
  let ?h = "[push_bit 8 (ucast (cp_opcode p)), push_bit 12 (ucast (cp_forward p)) OR (cp_len p AND 0xFFF), cp_dest p,
      cp_dest_index p, cp_source p, cp_source_index p, cp_number p, cp_ack p] :: u16 list"
  let ?d = "map (data_word p) [0..<(?l + 1) div 2]"
  let ?ws = "?h @ ?d @ [cd, cs, chaos_check_word (?h @ ?d @ [cd, cs])]"
  have ok: "cp_forward p < 16" "?l \<le> 488" "length (cp_data p) = 488" using assms by (simp_all add: chaos_ok_def)
  note hf = header_fields [OF ok(1, 2)]
  have f: "chaos_packet_frame p cd cs CHAOS_PKT_MAX_WORDS = ?ws" by (rule frame_shape [OF assms])
  have n: "length ?ws = 11 + (?l + 1) div 2" by simp
  have count: "unat (?ws ! 1 AND 0xFFF) = ?l" using hf(3) by simp
  have data: "unpack_data ?l ?ws = take ?l (cp_data p) @ replicate (488 - ?l) 0"
  proof (rule nth_equalityI)
    fix i assume "i < length (unpack_data ?l ?ws)"
    then have i: "i < 488" using unpack_data_nth(1) [OF ok(2), of ?ws] by simp
    have "i < ?l \<Longrightarrow> ?ws ! (8 + i div 2) = data_word p (i div 2)" by (auto simp: nth_append)
    then show "unpack_data ?l ?ws ! i = (take ?l (cp_data p) @ replicate (488 - ?l) 0) ! i"
      using i ok unpack_data_nth(2) [OF ok(2) i, of ?ws] data_word_byte [of i p] by (auto simp: nth_append simp del: append.simps)
  qed (use unpack_data_nth(1) [OF ok(2)] ok in simp)
  have tail: "?ws ! (8 + (?l + 1) div 2) = cd" "?ws ! (8 + (?l + 1) div 2 + 1) = cs"
    "?ws ! (8 + (?l + 1) div 2 + 2) = chaos_check_word (?h @ ?d @ [cd, cs])" 
    by (auto simp: nth_append)
  define A where "A = ?h @ ?d @ [cd, cs]"
  have A: "?ws = A @ [chaos_check_word A]" "length A = 8 + (?l + 1) div 2 + 2" by (simp_all add: A_def)
  have whole: "take (8 + (?l + 1) div 2 + 2) ?ws = A" unfolding A(1) A(2) [symmetric] by simp
  have bounds: "\<not> 255 < 11 + (?l + 1) div 2" using ok(2) by auto
  show ?thesis
    unfolding f chaos_frame_parse_def Let_def n count data using bounds ok(2) tail hf whole by (simp add: A_def)
qed

definition rfc_packet :: chaos_packet where
  "rfc_packet = \<lparr>cp_opcode = 1, cp_forward = 3, cp_dest = 1576, cp_dest_index = 0, cp_source = 1568, cp_source_index = 17,
     cp_number = 1, cp_ack = 0, cp_len = 3, cp_data = [0x41, 0x42, 0x43] @ replicate 485 0\<rparr>"

theorem chaos_frame_roundtrip_witness:
  "\<exists>check. chaos_frame_parse (chaos_packet_frame rfc_packet 1576 1568 255) =
     Inr \<lparr>cf_packet = rfc_packet, cf_cable_dest = 1576, cf_cable_source = 1568, cf_check = check, cf_check_ok = True\<rparr>"
proof -
  have "chaos_ok rfc_packet" by (simp add: chaos_ok_def rfc_packet_def)
  from chaos_frame_roundtrip [OF this] have "chaos_frame_parse (chaos_packet_frame rfc_packet 1576 1568 255) =
      Inr \<lparr>cf_packet = rfc_packet, cf_cable_dest = 1576, cf_cable_source = 1568,
        cf_check = last (chaos_packet_frame rfc_packet 1576 1568 255), cf_check_ok = True\<rparr>"
    by (simp add: rfc_packet_def)
  then show ?thesis by blast
qed

text \<open>
  The check word exposes every burst.  Two frames whose bits, in the order the cable carries
  them, differ only inside a window of at most 16 bits never have the same check word.\<close>

theorem chaos_check_detects:
  assumes "concat (map word_bits ws) = p @ a @ s" "concat (map word_bits ws') = p @ b @ s"
    and "length a = length b" "length a \<le> 16" "a \<noteq> b"
  shows "chaos_check_word ws \<noteq> chaos_check_word ws'"
  using check.burst_detected [where a = a and b = b and r = 0 and p = p and s = s] assms by (simp add: check_word_feed)

theorem chaos_check_detects_witness: "chaos_check_word [0, 1, 0x8000] \<noteq> chaos_check_word [0, 0, 0]"
proof (rule chaos_check_detects)
  let ?p = "replicate 31 False" and ?s = "replicate 15 False"
  show "concat (map word_bits [0, 1, 0x8000]) = ?p @ [True, True] @ ?s"
    and "concat (map word_bits [0, 0, 0]) = ?p @ [False, False] @ ?s"
    by (simp_all add: word_bits_def upt_rec numeral_eq_Suc)
qed simp_all

end
