(* ===== verification/C_String.thy ===== *)
theory C_String
  imports Prelude
begin

text \<open>
  The C library's number parsing, as the sources call it.  A C string is the list of its
  characters before the terminating one, so a pointer into it is what is left of the list, and
  \<^verbatim>\<open>*end == 0\<close> is that nothing is left.  An \<^verbatim>\<open>unsigned long\<close> has the width of the board's, 32 bits.
\<close>

type_synonym ulong = u32

definition c_space :: "char \<Rightarrow> bool" where
  "c_space c \<longleftrightarrow> c = CHR '' '' \<or> c = CHR 0x09 \<or> c = CHR 0x0A \<or> c = CHR 0x0B \<or> c = CHR 0x0C \<or> c = CHR 0x0D"

definition digit_value :: "char \<Rightarrow> nat" where
  "digit_value c =
     (let v = of_char c :: nat
      in if 48 \<le> v \<and> v \<le> 57 then v - 48
         else if 97 \<le> v \<and> v \<le> 122 then v - 87
         else if 65 \<le> v \<and> v \<le> 90 then v - 55
         else 36)"

fun digits_of :: "nat \<Rightarrow> nat \<Rightarrow> string \<Rightarrow> nat \<times> string" where
  "digits_of b acc [] = (acc, [])"
| "digits_of b acc (c # cs) =
     (if digit_value c < b then digits_of b (acc * b + digit_value c) cs else (acc, c # cs))"

definition starts_digit :: "nat \<Rightarrow> string \<Rightarrow> bool" where
  "starts_digit b s \<longleftrightarrow> s \<noteq> [] \<and> digit_value (hd s) < b"

text \<open>
  The value and what is left: all of the string where there is no number.  A number past the
  width is the greatest one, whatever its sign.
\<close>

definition strtoul :: "string \<Rightarrow> nat \<Rightarrow> ulong \<times> string" where
  "strtoul s b =
     (let t = dropWhile c_space s;
          neg = (t \<noteq> [] \<and> hd t = CHR ''-'');
          t = (if t \<noteq> [] \<and> (hd t = CHR ''-'' \<or> hd t = CHR ''+'') then tl t else t);
          t = (if b = 16 \<and> (take 2 t = ''0x'' \<or> take 2 t = ''0X'') \<and> starts_digit b (drop 2 t) then drop 2 t else t)
      in if \<not> starts_digit b t then (0, s)
         else case digits_of b 0 t of (v, left) \<Rightarrow>
           (if 2 ^ 32 \<le> v then - 1 else if neg then - of_nat v else of_nat v, left))"

section \<open>A character found\<close>

text \<open>\<^verbatim>\<open>strchr\<close> and \<^verbatim>\<open>strrchr\<close>, as what is before the character and what is after it.\<close>

definition split_at :: "char \<Rightarrow> string \<Rightarrow> (string \<times> string) option" where
  "split_at c s = (if c \<in> set s then Some (takeWhile (\<lambda>x. x \<noteq> c) s, tl (dropWhile (\<lambda>x. x \<noteq> c) s)) else None)"

definition split_last :: "char \<Rightarrow> string \<Rightarrow> (string \<times> string) option" where
  "split_last c s =
     (if c \<in> set s then Some (rev (tl (dropWhile (\<lambda>x. x \<noteq> c) (rev s))), rev (takeWhile (\<lambda>x. x \<noteq> c) (rev s))) else None)"

lemma split_at_none: "c \<notin> set s \<Longrightarrow> split_at c s = None"
  by (simp add: split_at_def)

lemma split_at_some: "c \<notin> set s \<Longrightarrow> split_at c (s @ c # t) = Some (s, t)"
proof -
  assume "c \<notin> set s"
  then have "takeWhile (\<lambda>x. x \<noteq> c) (s @ c # t) = s" "dropWhile (\<lambda>x. x \<noteq> c) (s @ c # t) = c # t"
    by (auto simp: takeWhile_append dropWhile_append)
  then show ?thesis by (simp add: split_at_def)
qed

lemma split_last_some: "c \<notin> set t \<Longrightarrow> split_last c (s @ c # t) = Some (s, t)"
proof -
  assume "c \<notin> set t"
  then have "takeWhile (\<lambda>x. x \<noteq> c) (rev t @ c # rev s) = rev t" "dropWhile (\<lambda>x. x \<noteq> c) (rev t @ c # rev s) = c # rev s"
    by (auto simp: takeWhile_append dropWhile_append)
  then show ?thesis by (simp add: split_last_def)
qed

section \<open>Digits printed and read back\<close>

fun digits_put :: "nat \<Rightarrow> nat \<Rightarrow> string" where
  "digits_put b n =
     (if n < b \<or> b < 2 then [char_of (48 + n)] else digits_put b (n div b) @ [char_of (48 + n mod b)])"

declare digits_put.simps [simp del]

lemma digit_value_char: "d < 10 \<Longrightarrow> digit_value (char_of (48 + d)) = d"
  by (simp add: digit_value_def Let_def)

lemma digit_value_mod: "2 \<le> b \<Longrightarrow> b \<le> 10 \<Longrightarrow> digit_value (char_of (48 + n mod b)) = n mod b"
  using mod_less_divisor [of b n] by (intro digit_value_char) linarith

lemma digits_of_append:
  "digits_of b acc (s @ t) = (case digits_of b acc s of (v, []) \<Rightarrow> digits_of b v t | (v, r) \<Rightarrow> (v, r @ t))"
  by (induction b acc s rule: digits_of.induct) auto

lemma digits_of_put:
  assumes "2 \<le> b" "b \<le> 10"
  shows "digits_of b 0 (digits_put b n) = (n, [])"
  using assms
proof (induction b n rule: digits_put.induct)
  case (1 b n)
  show ?case
  proof (cases "n < b")
    case True
    then show ?thesis using 1(2, 3) by (subst digits_put.simps) (simp add: digit_value_char)
  next
    case False
    then have "digits_of b 0 (digits_put b (n div b)) = (n div b, [])" using 1 by simp
    then show ?thesis
      using False 1(2, 3) by (subst digits_put.simps) (simp add: digits_of_append digit_value_mod)
  qed
qed

lemma digits_put_char:
  assumes "2 \<le> b" "b \<le> 10"
  shows "digits_put b n \<noteq> [] \<and> (\<forall>c \<in> set (digits_put b n). digit_value c < b)"
  using assms
proof (induction b n rule: digits_put.induct)
  case (1 b n)
  then show ?case by (subst (1 2) digits_put.simps) (auto simp: digit_value_char digit_value_mod)
qed

lemma digit_not_special:
  "digit_value c < 10 \<Longrightarrow> \<not> c_space c \<and> c \<noteq> CHR ''-'' \<and> c \<noteq> CHR ''+'' \<and> c \<noteq> CHR '':'' \<and> c \<noteq> CHR ''@''"
  by (auto simp: digit_value_def c_space_def)

lemma strtoul_put:
  assumes "2 \<le> b" "b \<le> 10" "n < 2 ^ 32"
  shows "strtoul (digits_put b n) b = (of_nat n, [])"
proof -
  obtain c cs where s: "digits_put b n = c # cs" "digit_value c < b"
    using digits_put_char [OF assms(1, 2), of n] by (cases "digits_put b n") auto
  then have "digit_value c < 10" using assms(2) by simp
  from digit_not_special [OF this] s digits_of_put [OF assms(1, 2), of n] show ?thesis
    using assms by (simp add: strtoul_def Let_def starts_digit_def)
qed

end
