(* ===== verification/Chaos_Count.thy ===== *)
theory Chaos_Count
  imports C_String
begin

text \<open>The counters of the Chaosnet program, which stop at the top and never come round.\<close>

definition bump :: "ulong \<Rightarrow> ulong" where
  "bump c = (if c \<noteq> - 1 then c + 1 else c)"

abbreviation (input) ULONG_MAX :: nat where "ULONG_MAX \<equiv> 2 ^ 32 - 1"

lemma unat_ulong: "unat (c :: ulong) \<le> ULONG_MAX"
  using unsigned_less [of c, where 'a = nat] by simp

lemma unat_bump: "unat (bump c) = min ULONG_MAX (unat c + 1)"
proof (cases "c = - 1")
  case True
  then show ?thesis by (simp add: bump_def unsigned_minus_1_eq_mask mask_eq_exp_minus_1)
next
  case False
  have "unat c \<noteq> ULONG_MAX"
  proof
    assume "unat c = ULONG_MAX"
    then have "unat c = unat (- 1 :: ulong)" by (simp add: unsigned_minus_1_eq_mask mask_eq_exp_minus_1)
    then show False using False by (simp add: unsigned_word_eqI)
  qed
  then have "unat c + 1 < 2 ^ LENGTH(32)" using unat_ulong [of c] by simp
  then have "unat (c + 1) = unat c + 1" by (simp add: unat_word_ariths)
  then show ?thesis using False \<open>unat c + 1 < 2 ^ LENGTH(32)\<close> by (simp add: bump_def)
qed

lemma unat_bump_below [simp]: "unat c < ULONG_MAX \<Longrightarrow> unat (bump c) = unat c + 1"
  by (simp add: unat_bump)

end
