(* ===== verification/Chaos_Udp.thy ===== *)
theory Chaos_Udp
  imports Chaos_Packet Qed_Offload Chaos_Count
begin

text \<open>
  \<^verbatim>\<open>chaos_udp.h\<close> and \<^verbatim>\<open>chaos_udp.c\<close>: Chaosnet packets in UDP datagrams.  The socket is a parameter: its
  sends, each of which may fail, and its receives, which give a datagram or nothing now.  So is
  the resolver.  The lines said are left out, and with them the trace.
\<close>

unbundle bit_operations_syntax

abbreviation (input) CHUDP_PORT :: u16 where "CHUDP_PORT \<equiv> 42042"
abbreviation (input) CHUDP_VERSION :: u8 where "CHUDP_VERSION \<equiv> 1"
abbreviation (input) CHUDP_FUNCTION_PACKET :: u8 where "CHUDP_FUNCTION_PACKET \<equiv> 1"
abbreviation (input) CHUDP_HEADER :: nat where "CHUDP_HEADER \<equiv> 4"
abbreviation (input) CHUDP_TRAILER :: nat where "CHUDP_TRAILER \<equiv> 6"
abbreviation (input) CHUDP_SOFTWARE_HEADER :: nat where "CHUDP_SOFTWARE_HEADER \<equiv> 16"
abbreviation (input) CHUDP_MAX_FRAME :: nat where "CHUDP_MAX_FRAME \<equiv> 514"
abbreviation (input) CHUDP_MAX_PEERS :: nat where "CHUDP_MAX_PEERS \<equiv> 16"

section \<open>A word's two bytes\<close>

datatype chudp_order = CHUDP_LITTLE | CHUDP_BIG

abbreviation (input) CHUDP_PACKET_ORDER :: chudp_order where "CHUDP_PACKET_ORDER \<equiv> CHUDP_BIG"
abbreviation (input) CHUDP_TRAILER_ORDER :: chudp_order where "CHUDP_TRAILER_ORDER \<equiv> CHUDP_BIG"

definition put_word :: "chudp_order \<Rightarrow> u16 \<Rightarrow> u8 list" where
  "put_word order w =
     (if order = CHUDP_LITTLE then [ucast w, ucast (drop_bit 8 w)] else [ucast (drop_bit 8 w), ucast w])"

definition get_word :: "chudp_order \<Rightarrow> u8 list \<Rightarrow> nat \<Rightarrow> u16" where
  "get_word order d at =
     (if order = CHUDP_LITTLE then ucast (d ! at) OR push_bit 8 (ucast (d ! (at + 1)))
      else push_bit 8 (ucast (d ! at)) OR ucast (d ! (at + 1)))"

section \<open>The Internet checksum\<close>

definition chudp_checksum :: "u16 list \<Rightarrow> u16" where
  "chudp_checksum words =
     (let sum = fold (\<lambda>w sum. let sum = sum + ucast w in (sum AND 0xFFFF) + drop_bit 16 sum) words (0 :: u32)
      in ucast (NOT sum AND 0xFFFF))"

definition chudp_checksum_ok :: "u16 list \<Rightarrow> bool" where
  "chudp_checksum_ok words \<longleftrightarrow> words \<noteq> [] \<and> chudp_checksum words = 0"

section \<open>The frame's bytes\<close>

text \<open>The datagram, none where the frame is not one CHUDP carries or has no room.\<close>

definition chudp_wrap :: "u16 list \<Rightarrow> nat \<Rightarrow> u8 list" where
  "chudp_wrap words room =
     (let n = length words
      in if n < CHAOS_PKT_HEADER_WORDS + CHAOS_PKT_TRAILER_WORDS \<or> CHAOS_PKT_MAX_WORDS < n then []
         else let body = n - CHAOS_PKT_TRAILER_WORDS; len = CHUDP_HEADER + body * 2 + CHUDP_TRAILER
           in if room < len then []
              else [CHUDP_VERSION, CHUDP_FUNCTION_PACKET, 0, 0] @ concat (map (put_word CHUDP_PACKET_ORDER) (take body words)) @
                concat (map (\<lambda>k. put_word CHUDP_TRAILER_ORDER (words ! (body + k))) [0..<CHAOS_PKT_TRAILER_WORDS - 1]) @
                put_word CHUDP_TRAILER_ORDER (chudp_checksum (take (body + 2) words)))"

datatype unwrap_err = Too_long nat | Too_short nat | Other_version u8 | Other_function u8 | Absurd_count nat |
  Length_against_count nat nat | No_room nat nat | Bad_sum u16 u16

definition datagram_words :: "u8 list \<Rightarrow> nat \<Rightarrow> u16 list" where
  "datagram_words datagram body_words =
     map (\<lambda>k. get_word CHUDP_PACKET_ORDER datagram (CHUDP_HEADER + 2 * k)) [0..<body_words] @
     map (\<lambda>k. get_word CHUDP_TRAILER_ORDER datagram (length datagram - CHUDP_TRAILER + 2 * k)) [0..<CHAOS_PKT_TRAILER_WORDS]"

definition chudp_unwrap :: "u8 list \<Rightarrow> nat \<Rightarrow> unwrap_err + u16 list" where
  "chudp_unwrap datagram room =
     (let len = length datagram
      in if CHUDP_MAX_FRAME < len then Inl (Too_long len)
         else if len < CHUDP_HEADER + CHUDP_SOFTWARE_HEADER + CHUDP_TRAILER then Inl (Too_short len)
         else if datagram ! 0 \<noteq> CHUDP_VERSION then Inl (Other_version (datagram ! 0))
         else if datagram ! 1 \<noteq> CHUDP_FUNCTION_PACKET then Inl (Other_function (datagram ! 1))
         else let body = len - CHUDP_HEADER - CHUDP_TRAILER;
                  count = unat (get_word CHUDP_PACKET_ORDER datagram (CHUDP_HEADER + 2) AND 0xFFF)
           in if CHAOS_PKT_MAX_DATA < count then Inl (Absurd_count count)
              else if body \<noteq> CHUDP_SOFTWARE_HEADER + (count + 1) div 2 * 2 then Inl (Length_against_count body count)
              else let body_words = (body + 1) div 2; n = body_words + CHAOS_PKT_TRAILER_WORDS
                in if room < n then Inl (No_room n room)
                   else let out = datagram_words datagram body_words
                     in if \<not> chudp_checksum_ok out then Inl (Bad_sum (out ! (n - 1)) (chudp_checksum (take (n - 1) out)))
                        else Inr (take (n - 1) out @ [chaos_check_word (take (n - 1) out)]))"

section \<open>The link\<close>

record endpoint =
  sin_addr :: u32
  sin_port :: u16

record chudp_peer =
  pe_address :: u16
  pe_where :: endpoint

text \<open>\<open>ud_default\<close> is \<^verbatim>\<open>default_peer\<close> with \<^verbatim>\<open>have_default\<close>, and \<open>ud_peers\<close> the first \<^verbatim>\<open>npeers\<close> of the array.\<close>

record chudp =
  ud_local :: u16
  ud_default :: "endpoint option"
  ud_peers :: "chudp_peer list"
  ud_received :: ulong
  ud_delivered :: ulong
  ud_bad_shape :: ulong
  ud_bad_checksum :: ulong
  ud_not_this_cable :: ulong
  ud_bad_check_word :: ulong

record 'w chudp_net =
  net_bind :: "u32 \<Rightarrow> u16 \<Rightarrow> 'w \<Rightarrow> 'w option"
  net_close :: "'w \<Rightarrow> 'w"
  net_sendto :: "endpoint \<Rightarrow> u8 list \<Rightarrow> 'w \<Rightarrow> bool \<times> 'w"
  net_recvfrom :: "'w \<Rightarrow> u8 list option \<times> 'w"

definition chudp_empty :: chudp where
  "chudp_empty = \<lparr>ud_local = 0, ud_default = None, ud_peers = [], ud_received = 0, ud_delivered = 0, ud_bad_shape = 0,
     ud_bad_checksum = 0, ud_not_this_cable = 0, ud_bad_check_word = 0\<rparr>"

text \<open>\<open>net_bind\<close> is the socket made, bound and set not to block; \<open>inet_pton\<close> is the library's.\<close>

definition chudp_bind :: "'w chudp_net \<Rightarrow> (string \<Rightarrow> u32 option) \<Rightarrow> string option \<Rightarrow> u16 \<Rightarrow> 'w \<Rightarrow> (chudp \<times> 'w) option" where
  "chudp_bind N inet_pton bind_addr port w =
     (case (if bind_addr = None \<or> bind_addr = Some [] then Some 0 else inet_pton (the bind_addr)) of
        None \<Rightarrow> None
      | Some addr \<Rightarrow> (case net_bind N addr port w of None \<Rightarrow> None | Some w \<Rightarrow> Some (chudp_empty, w)))"

definition chudp_close :: "'w chudp_net \<Rightarrow> chudp \<Rightarrow> 'w \<Rightarrow> chudp \<times> 'w" where
  "chudp_close N u w = (u\<lparr>ud_peers := [], ud_default := None\<rparr>, net_close N w)"

section \<open>Who is on the other end\<close>

text \<open>0 is an address no station has.\<close>

definition both_halves :: "ulong \<Rightarrow> bool" where
  "both_halves a \<longleftrightarrow> drop_bit 8 a \<noteq> 0 \<and> a AND 0xFF \<noteq> 0"

definition parse_address :: "string \<Rightarrow> u16" where
  "parse_address s =
     (case split_at (CHR '':'') s of
        Some (subnet, host) \<Rightarrow>
          (if subnet = [] \<or> 16 \<le> length subnet then 0
           else case strtoul subnet 8 of (hi, left) \<Rightarrow>
             if left \<noteq> [] \<or> hi = 0 \<or> 0xFF < hi then 0
             else case strtoul host 8 of (lo, left) \<Rightarrow>
               if left = host \<or> left \<noteq> [] \<or> lo = 0 \<or> 0xFF < lo then 0
               else let a = push_bit 8 hi OR lo in if both_halves a then ucast a else 0)
      | None \<Rightarrow>
          (case strtoul s 8 of (a, left) \<Rightarrow>
             if left = s \<or> left \<noteq> [] \<or> 0xFFFF < a then 0 else if both_halves a then ucast a else 0))"

datatype peer_err = Wants_form | Not_an_address | Not_a_port | No_host | Unresolved | Twice | Full | Not_an_endpoint

definition resolve_endpoint :: "(string \<Rightarrow> u32 option) \<Rightarrow> string \<Rightarrow> peer_err + endpoint" where
  "resolve_endpoint getaddrinfo lives =
     (let named = (\<lambda>host port.
            if host = [] \<or> 128 \<le> length host then Inl No_host
            else case getaddrinfo host of None \<Rightarrow> Inl Unresolved | Some a \<Rightarrow> Inr \<lparr>sin_addr = a, sin_port = port\<rparr>)
      in case split_last (CHR '':'') lives of
           None \<Rightarrow> named lives CHUDP_PORT
         | Some (host, p) \<Rightarrow>
             (case strtoul p 10 of (port, left) \<Rightarrow>
                if left = p \<or> left \<noteq> [] \<or> port = 0 \<or> 65535 < port then Inl Not_a_port else named host (ucast port)))"

definition chudp_add_peer :: "(string \<Rightarrow> u32 option) \<Rightarrow> string \<Rightarrow> chudp \<Rightarrow> peer_err + chudp" where
  "chudp_add_peer getaddrinfo spec u =
     (case split_at (CHR ''@'') spec of
        None \<Rightarrow> Inl Wants_form
      | Some (address, lives) \<Rightarrow>
          (if address = [] \<or> 32 \<le> length address then Inl Wants_form
           else let a = parse_address address
             in if a = 0 then Inl Not_an_address
                else case resolve_endpoint getaddrinfo lives of
                    Inl e \<Rightarrow> Inl e
                  | Inr lands \<Rightarrow>
                      (if \<exists>p \<in> set (ud_peers u). pe_address p = a then Inl Twice
                       else if length (ud_peers u) = CHUDP_MAX_PEERS then Inl Full
                       else Inr (u\<lparr>ud_peers := ud_peers u @ [\<lparr>pe_address = a, pe_where = lands\<rparr>]\<rparr>))))"

definition chudp_set_default_peer :: "(string \<Rightarrow> u32 option) \<Rightarrow> string \<Rightarrow> chudp \<Rightarrow> peer_err + chudp" where
  "chudp_set_default_peer getaddrinfo spec u =
     (if CHR ''@'' \<in> set spec then Inl Not_an_endpoint
      else if ud_default u \<noteq> None then Inl Twice
      else case strtoul spec 10 of (only, left) \<Rightarrow>
        if spec \<noteq> [] \<and> left = [] then
          (if only = 0 \<or> 65535 < only then Inl Not_a_port
           else Inr (u\<lparr>ud_default := Some \<lparr>sin_addr = 0x7F000001, sin_port = ucast only\<rparr>\<rparr>))
        else case resolve_endpoint getaddrinfo spec of
            Inl e \<Rightarrow> Inl e
          | Inr lands \<Rightarrow> Inr (u\<lparr>ud_default := Some lands\<rparr>))"

text \<open>Whether a peer claims the address, which is all \<^verbatim>\<open>chudp_poll\<close> asks of the index.\<close>

definition peer_for :: "chudp \<Rightarrow> u16 \<Rightarrow> nat option" where
  "peer_for u address = find (\<lambda>k. pe_address (ud_peers u ! k) = address) [0..<length (ud_peers u)]"

definition chudp_flag_without_cable :: "bool \<Rightarrow> nat \<Rightarrow> bool \<Rightarrow> string option" where
  "chudp_flag_without_cable have_cable npeers have_default =
     (if have_cable then None
      else if 0 < npeers then Some ''--chaos-udp-peer''
      else if have_default then Some ''--chaos-udp-default-peer''
      else None)"

section \<open>A frame out\<close>

fun send_peers :: "'w chudp_net \<Rightarrow> u8 list \<Rightarrow> u16 \<Rightarrow> chudp_peer list \<Rightarrow> nat \<Rightarrow> 'w \<Rightarrow> nat \<times> 'w" where
  "send_peers N d cable_dest [] sent w = (sent, w)"
| "send_peers N d cable_dest (p # ps) sent w =
     (if cable_dest \<noteq> 0 \<and> pe_address p \<noteq> cable_dest then send_peers N d cable_dest ps sent w
      else case net_sendto N (pe_where p) d w of (ok, w) \<Rightarrow>
        send_peers N d cable_dest ps (if ok then sent + 1 else sent) w)"

text \<open>How many datagrams went, none of it where the check word was wrong.\<close>

definition chudp_send :: "'w chudp_net \<Rightarrow> u16 list \<Rightarrow> u16 \<Rightarrow> chudp \<Rightarrow> 'w \<Rightarrow> nat option \<times> chudp \<times> 'w" where
  "chudp_send N words cable_dest u w =
     (let datagram = chudp_wrap words CHUDP_MAX_FRAME; n = length words
      in if datagram = [] then (Some 0, u, w)
         else if words ! (n - 1) \<noteq> chaos_check_word (take (n - 1) words) then
           (None, u\<lparr>ud_bad_check_word := bump (ud_bad_check_word u)\<rparr>, w)
         else if cable_dest \<noteq> 0 \<and> cable_dest = ud_local u then (Some 0, u, w)
         else case send_peers N datagram cable_dest (ud_peers u) 0 w of (sent, w) \<Rightarrow>
           (case ud_default u of
              Some e \<Rightarrow>
                (if sent = 0 \<and> cable_dest \<noteq> 0 then
                   (case net_sendto N e datagram w of (ok, w) \<Rightarrow> (Some (if ok then 1 else 0), u, w))
                 else (Some sent, u, w))
            | None \<Rightarrow> (Some sent, u, w)))"

section \<open>A frame in\<close>

text \<open>One datagram: which count it moves, and the frame it delivers.\<close>

definition chudp_arrive :: "u8 list \<Rightarrow> chudp \<Rightarrow> chudp \<times> u16 list option" where
  "chudp_arrive datagram u =
     (let u = u\<lparr>ud_received := bump (ud_received u)\<rparr>
      in case chudp_unwrap datagram CHAOS_PKT_MAX_WORDS of
           Inl (Bad_sum _ _) \<Rightarrow> (u\<lparr>ud_bad_checksum := bump (ud_bad_checksum u)\<rparr>, None)
         | Inl _ \<Rightarrow> (u\<lparr>ud_bad_shape := bump (ud_bad_shape u)\<rparr>, None)
         | Inr words \<Rightarrow>
             (let n = length words; cable_dest = words ! (n - 3); cable_source = words ! (n - 2)
              in if cable_source = 0 \<or> cable_source = ud_local u then
                   (u\<lparr>ud_not_this_cable := bump (ud_not_this_cable u)\<rparr>, None)
                 else if cable_dest \<noteq> 0 \<and> peer_for u cable_dest \<noteq> None then
                   (u\<lparr>ud_not_this_cable := bump (ud_not_this_cable u)\<rparr>, None)
                 else (u\<lparr>ud_delivered := bump (ud_delivered u)\<rparr>, Some words)))"

text \<open>\<open>deliver\<close> is called with a context of its own; the buffer a datagram is read into has one byte past the longest frame.\<close>

fun chudp_poll :: "'w chudp_net \<Rightarrow> nat \<Rightarrow> (u16 list \<Rightarrow> 'c \<Rightarrow> 'w \<Rightarrow> 'c \<times> 'w) \<Rightarrow> chudp \<Rightarrow> 'w \<Rightarrow> 'c \<Rightarrow> nat \<times> chudp \<times> 'w \<times> 'c" where
  "chudp_poll N 0 deliver u w c = (0, u, w, c)"
| "chudp_poll N (Suc turns) deliver u w c =
     (case net_recvfrom N w of
        (None, w) \<Rightarrow> (0, u, w, c)
      | (Some got, w) \<Rightarrow>
          (case chudp_arrive (take (CHUDP_MAX_FRAME + 1) got) u of
             (u, None) \<Rightarrow> chudp_poll N turns deliver u w c
           | (u, Some words) \<Rightarrow>
               (case deliver words c w of (c, w) \<Rightarrow>
                case chudp_poll N turns deliver u w c of (k, r) \<Rightarrow> (k + 1, r))))"

end
