(* ===== verification/Chaos_Udp_Props.thy ===== *)
theory Chaos_Udp_Props
  imports Chaos_Udp
begin

text \<open>
  What the datagrams promise: the checksum is the Ethernet device's sum, a frame comes out of its
  datagram as it went in, and what is delivered is a whole frame of this cable.
\<close>

unbundle bit_operations_syntax

section \<open>The checksum\<close>

definition wsum :: "u16 list \<Rightarrow> nat" where
  "wsum ws = sum_list (map unat ws)"

lemma wsum_simps [simp]: "wsum [] = 0" "wsum (w # ws) = unat w + wsum ws" "wsum (xs @ ys) = wsum xs + wsum ys"
  by (simp_all add: wsum_def)

lemma ones_fold_cong: "x mod 65535 = y mod 65535 \<Longrightarrow> (x = 0 \<longleftrightarrow> y = 0) \<Longrightarrow> ones_fold x = ones_fold y"
  by (simp add: ones_fold_eq)

lemma ones_fold_small: "x \<le> 65535 \<Longrightarrow> ones_fold x = x"
  by (subst ones_fold.simps) simp

lemma sum_step:
  fixes s :: u32 and w :: u16
  assumes "unat s \<le> 65535"
  defines "t \<equiv> (s + ucast w AND 0xFFFF) + drop_bit 16 (s + ucast w)"
  shows "unat t = (if unat s + unat w \<le> 65535 then unat s + unat w else unat s + unat w - 65535)"
proof -
  let ?x = "unat s + unat w"
  have w: "unat w \<le> 65535" using unsigned_less [of w, where 'a = nat] by simp
  have "unat (ucast w :: u32) = unat w" using w by (simp add: unsigned_ucast_eq take_bit_nat_eq_self)
  then have x: "unat (s + ucast w) = ?x" using assms(1) w by (simp add: unat_word_ariths)
  have m: "(0xFFFF :: u32) = mask 16" by (simp add: mask_eq_exp_minus_1)
  have a: "unat (s + ucast w AND 0xFFFF) = ?x mod 65536"
    unfolding m take_bit_eq_mask [symmetric] unsigned_take_bit_eq x by (simp add: take_bit_eq_mod)
  have d: "unat (drop_bit 16 (s + ucast w)) = ?x div 65536"
    unfolding unsigned_drop_bit_eq x using assms(1) w by (simp add: drop_bit_eq_div take_bit_nat_eq_self)
  have "unat t = ?x mod 65536 + ?x div 65536"
    unfolding t_def unat_word_ariths a d using assms(1) w by simp
  also have "\<dots> = (if ?x \<le> 65535 then ?x else ?x - 65535)"
  proof (cases "?x \<le> 65535")
    case False
    then have "?x div 65536 = 1" using assms(1) w by simp
    moreover from this have "?x mod 65536 = ?x - 65536" using div_mult_mod_eq [of ?x 65536] by simp
    ultimately show ?thesis using False by simp
  qed simp
  finally show ?thesis .
qed

lemma checksum_sum:
  "unat s \<le> 65535 \<Longrightarrow>
   unat (fold (\<lambda>w sum. let sum = sum + ucast w in (sum AND 0xFFFF) + drop_bit 16 sum) ws (s :: u32)) = ones_fold (unat s + wsum ws)"
proof (induction ws arbitrary: s)
  case Nil
  then show ?case by (simp add: ones_fold_small)
next
  case (Cons w ws)
  let ?t = "(s + ucast w AND 0xFFFF) + drop_bit 16 (s + ucast w)"
  have w: "unat w \<le> 65535" using unsigned_less [of w, where 'a = nat] by simp
  have t: "unat ?t = (if unat s + unat w \<le> 65535 then unat s + unat w else unat s + unat w - 65535)"
    by (rule sum_step [OF Cons.prems])
  have "ones_fold (unat ?t + wsum ws) = ones_fold (unat s + (unat w + wsum ws))"
  proof (rule ones_fold_cong)
    have "unat s + (unat w + wsum ws) = unat ?t + wsum ws \<or> unat s + (unat w + wsum ws) = unat ?t + wsum ws + 65535"
      using t by auto
    then show "(unat ?t + wsum ws) mod 65535 = (unat s + (unat w + wsum ws)) mod 65535"
      by (elim disjE) (simp_all only: mod_add_self2)
    show "unat ?t + wsum ws = 0 \<longleftrightarrow> unat s + (unat w + wsum ws) = 0" using t by auto
  qed
  moreover have "unat ?t \<le> 65535" using t w Cons.prems by auto
  ultimately show ?case using Cons.IH [of ?t] by (simp add: Let_def)
qed

lemma checksum_eq: "unat (chudp_checksum ws) = 65535 - ones_fold (wsum ws)"
proof -
  define s :: u32 where "s = fold (\<lambda>w sum. let sum = sum + ucast w in (sum AND 0xFFFF) + drop_bit 16 sum) ws 0"
  have s: "unat s = ones_fold (wsum ws)" using checksum_sum [of 0 ws] by (simp add: s_def)
  then have "unat s < 2 ^ 16" using ones_fold_le [of "wsum ws"] by simp
  then have low: "unat (ucast s :: u16) = unat s" by (simp add: unsigned_ucast_eq take_bit_nat_eq_self)
  have "chudp_checksum ws = NOT (ucast s)"
    unfolding chudp_checksum_def unfolding s_def [symmetric] unfolding Let_def
  proof (rule bit_word_eqI)
    fix n assume "n < LENGTH(16)"
    then show "bit (ucast (NOT s AND 0xFFFF) :: u16) n = bit (NOT (ucast s :: u16)) n"
      using bit_FFFF [of n] by (auto simp: bit_simps)
  qed
  then show ?thesis using low s by (simp add: unat_not16)
qed

lemma checksum_ok_iff: "chudp_checksum_ok ws \<longleftrightarrow> wsum ws \<noteq> 0 \<and> wsum ws mod 65535 = 0"
proof -
  have "chudp_checksum ws = 0 \<longleftrightarrow> ones_fold (wsum ws) = 65535"
    using checksum_eq [of ws] ones_fold_le [of "wsum ws"] unat_eq_zero [of "chudp_checksum ws"] by auto
  also have "\<dots> \<longleftrightarrow> wsum ws \<noteq> 0 \<and> wsum ws mod 65535 = 0"
    using mod_less_divisor [of 65535 "wsum ws"] by (auto simp: ones_fold_eq split: if_splits)
  finally show ?thesis by (auto simp: chudp_checksum_ok_def)
qed

lemma checksum_closes: "chudp_checksum_ok (ws @ [chudp_checksum ws])"
  using ones_fold_complement [of "wsum ws"] mod_less_divisor [of 65535 "wsum ws + (65535 - ones_fold (wsum ws))"]
  by (auto simp: checksum_ok_iff checksum_eq ones_fold_eq [of "wsum ws + _"] split: if_splits)

lemma put_word_sum: "unat (ucast (drop_bit 8 w) :: u8) * 256 + unat (ucast w :: u8) = unat w" for w :: u16
proof -
  have "unat w < 65536" using unsigned_less [of w, where 'a = nat] by simp
  then have "unat w div 256 < 256" by auto
  then show ?thesis
    unfolding unsigned_ucast_eq unsigned_drop_bit_eq by (simp add: drop_bit_eq_div take_bit_eq_mod)
qed

lemma bytes_sum: "ones_add 0 (concat (map (put_word CHUDP_BIG) ws)) = wsum ws"
proof (induction ws)
  case (Cons w ws)
  have "ones_add 0 (concat (map (put_word CHUDP_BIG) (w # ws))) =
      unat w + ones_add 0 (concat (map (put_word CHUDP_BIG) ws))"
    using put_word_sum [of w] by (simp add: put_word_def ones_add_acc [of "unat w"])
  with Cons show ?case by simp
qed simp

section \<open>A frame and its datagram\<close>

text \<open>A frame the cable carries: whole, its length answering its count, its check word right.\<close>

definition frame_ok :: "u16 list \<Rightarrow> bool" where
  "frame_ok ws \<longleftrightarrow> length ws \<le> CHAOS_PKT_MAX_WORDS \<and> unat (ws ! 1 AND 0xFFF) \<le> CHAOS_PKT_MAX_DATA \<and>
     length ws = 11 + (unat (ws ! 1 AND 0xFFF) + 1) div 2 \<and> last ws = chaos_check_word (butlast ws)"

lemma get_put_word: "at + 1 < length d \<Longrightarrow> take 2 (drop at d) = put_word ord w \<Longrightarrow> get_word ord d at = w"
proof -
  assume l: "at + 1 < length d" and e: "take 2 (drop at d) = put_word ord w"
  have "d ! at = take 2 (drop at d) ! 0" "d ! (at + 1) = take 2 (drop at d) ! 1" using l by simp_all
  then show ?thesis unfolding e
    by (intro bit_word_eqI) (auto simp: get_word_def put_word_def bit_simps)
qed

lemma length_put_word [simp]: "length (put_word ord w) = 2"
  by (simp add: put_word_def)

lemma concat_words_nth:
  "k < length ws \<Longrightarrow> take 2 (drop (2 * k) (concat (map (put_word ord) ws) @ r)) = put_word ord (ws ! k)"
proof (induction ws arbitrary: k)
  case (Cons w ws)
  show ?case
  proof (cases k)
    case (Suc j)
    then show ?thesis using Cons by simp
  qed simp
qed simp

lemma drop_header: "drop (4 + k) ([a, b, c, d] @ xs) = drop k xs"
  by (simp add: eval_nat_numeral)

lemma length_words [simp]: "length (concat (map (put_word ord) ws)) = 2 * length ws"
  by (induction ws) simp_all

lemma wrap_shape:
  assumes "11 \<le> length ws" "length ws \<le> 255"
  shows "chudp_wrap ws 514 = [1, 1, 0, 0] @ concat (map (put_word CHUDP_BIG) (butlast ws @ [chudp_checksum (butlast ws)]))"
proof -
  let ?b = "length ws - 3"
  have "?b + 2 = length ws - 1" using assms by simp
  then have t: "take (?b + 2) ws = butlast ws" by (simp only: butlast_conv_take)
  have "butlast ws = take ?b ws @ [ws ! ?b, ws ! (?b + 1)]"
    using assms t take_Suc_conv_app_nth [of ?b ws] take_Suc_conv_app_nth [of "?b + 1" ws] by simp
  moreover have "[0..<3 - 1] = [0, 1 :: nat]" by (simp add: upt_rec)
  moreover have "length ws - 2 = Suc ?b" "\<not> 252 < ?b" using assms by linarith+
  ultimately show ?thesis
    unfolding chudp_wrap_def Let_def t using assms by simp
qed

lemma unwrap_wrap:
  assumes "frame_ok ws"
  shows "chudp_unwrap (chudp_wrap ws CHUDP_MAX_FRAME) CHAOS_PKT_MAX_WORDS = Inr ws"
proof -
  let ?n = "length ws" and ?c = "unat (ws ! 1 AND 0xFFF)"
  let ?vs = "butlast ws @ [chudp_checksum (butlast ws)]"
  let ?d = "chudp_wrap ws CHUDP_MAX_FRAME"
  have n: "11 \<le> ?n" "?n \<le> 255" "?n = 11 + (?c + 1) div 2" "?c \<le> 488" using assms by (auto simp: frame_ok_def)
  have d: "?d = [1, 1, 0, 0] @ concat (map (put_word CHUDP_BIG) ?vs)" by (rule wrap_shape [OF n(1, 2)])
  have len: "length ?d = 4 + 2 * ?n" "length ?vs = ?n" unfolding d using n by simp_all
  have g: "get_word CHUDP_BIG ?d (4 + 2 * k) = ?vs ! k" if "k < ?n" for k
  proof (rule get_put_word)
    show "4 + 2 * k + 1 < length ?d" using that len by simp
    show "take 2 (drop (4 + 2 * k) ?d) = put_word CHUDP_BIG (?vs ! k)"
      unfolding d drop_header using concat_words_nth [of k ?vs CHUDP_BIG "[]"] that len(2) by simp
  qed
  have "1 < ?n - 1" using n(1) by linarith
  then have one: "?vs ! 1 = ws ! 1" by (simp add: nth_append nth_butlast)
  then have count: "unat (get_word CHUDP_BIG ?d 6 AND 0xFFF) = ?c" using g [of 1] n(1) by simp
  have out: "datagram_words ?d (?n - 3) = ?vs"
  proof -
    have "map (\<lambda>i. i + (?n - 3)) [0..<3] = [?n - 3..<?n]" using n(1) map_add_upt [of "?n - 3" 3] by simp
    moreover have "length ?d - 6 + 2 * k = 4 + 2 * (k + (?n - 3))" for k using len(1) n(1) by simp
    ultimately have "map (\<lambda>k. get_word CHUDP_BIG ?d (length ?d - 6 + 2 * k)) [0..<3] =
        map (\<lambda>k. get_word CHUDP_BIG ?d (4 + 2 * k)) [?n - 3..<?n]"
      by (metis (no_types, lifting) map_map map_cong comp_apply)
    moreover have "[0..<?n - 3] @ [?n - 3..<?n] = [0..<?n]" using upt_add_eq_append [of 0 "?n - 3" 3] n(1) by simp
    moreover have "map (\<lambda>k. get_word CHUDP_BIG ?d (4 + 2 * k)) [0..<?n] = ?vs"
      using g n(1) by (intro nth_equalityI) simp_all
    ultimately show ?thesis unfolding datagram_words_def by (metis map_append)
  qed
  have z: "?d ! 0 = 1" "?d ! 1 = 1" unfolding d by simp_all
  have body: "length ?d - 4 - 6 = 16 + (?c + 1) div 2 * 2" "(16 + (?c + 1) div 2 * 2 + 1) div 2 = ?n - 3"
    using len(1) n(3) by simp_all
  have room: "\<not> 255 < ?n - 3 + 3" "\<not> 488 < ?c" "\<not> 514 < length ?d" "\<not> length ?d < 4 + 16 + 6" using n len(1) by linarith+
  have tk: "take (?n - 3 + 3 - 1) ?vs = butlast ws" using n(1) by simp
  have six: "4 + 2 = (6 :: nat)" by simp
  have again: "butlast ws @ [chaos_check_word (butlast ws)] = ws"
    using assms n(1) append_butlast_last_id [of ws] by (cases "ws = []") (auto simp: frame_ok_def)
  have ok: "chudp_checksum_ok ?vs" by (rule checksum_closes)
  show ?thesis
    unfolding chudp_unwrap_def Let_def six count body out tk using z room ok again by simp
qed

text \<open>What is unwrapped is a whole frame.\<close>

lemma unwrap_sound:
  assumes "chudp_unwrap d room = Inr ws"
  shows "frame_ok ws" and "length d = 2 * length ws + 4" and "length ws \<le> room"
proof -
  define c where "c = unat (get_word CHUDP_BIG d 6 AND 0xFFF)"
  define b where "b = (length d - 10 + 1) div 2"
  define out where "out = datagram_words d b"
  have g: "26 \<le> length d" "c \<le> 488" "length d - 10 = 16 + (c + 1) div 2 * 2" "b + 3 \<le> room"
    "ws = take (b + 2) out @ [chaos_check_word (take (b + 2) out)]"
    using assms unfolding chudp_unwrap_def Let_def by (auto simp: c_def b_def out_def split: if_splits)
  have b: "b = 8 + (c + 1) div 2" unfolding b_def g(3) by simp
  have l: "length ws = b + 3" unfolding g(5) out_def by (simp add: datagram_words_def)
  have "ws ! 1 = get_word CHUDP_BIG d 6" unfolding g(5) out_def using b by (simp add: datagram_words_def nth_append)
  then have c: "unat (ws ! 1 AND 0xFFF) = c" by (simp add: c_def)
  show "frame_ok ws" unfolding frame_ok_def c using g(2) l b g(5) by simp
  show "length d = 2 * length ws + 4" "length ws \<le> room" using l b g by simp_all
qed

section \<open>The counts close\<close>

definition chudp_accounts :: "chudp \<Rightarrow> bool" where
  "chudp_accounts u \<longleftrightarrow> unat (ud_received u) < ULONG_MAX \<longrightarrow>
     unat (ud_received u) =
       unat (ud_delivered u) + unat (ud_bad_shape u) + unat (ud_bad_checksum u) + unat (ud_not_this_cable u)"

text \<open>A frame of this cable: whole, from another station, and not for one a peer line names.\<close>

definition for_this_cable :: "chudp \<Rightarrow> u16 list \<Rightarrow> bool" where
  "for_this_cable u ws \<longleftrightarrow> frame_ok ws \<and> ws ! (length ws - 2) \<noteq> 0 \<and> ws ! (length ws - 2) \<noteq> ud_local u \<and>
     (ws ! (length ws - 3) = 0 \<or> ws ! (length ws - 3) \<notin> pe_address ` set (ud_peers u))"

lemma peer_for_None: "peer_for u a = None \<longleftrightarrow> a \<notin> pe_address ` set (ud_peers u)"
  by (auto simp: peer_for_def find_None_iff set_conv_nth)

lemma arrive_cases:
  assumes "chudp_arrive d u = (u', r)"
  obtains (frame) ws where "r = Some ws" "chudp_unwrap d CHAOS_PKT_MAX_WORDS = Inr ws" "for_this_cable u ws"
      "u' = u\<lparr>ud_received := bump (ud_received u), ud_delivered := bump (ud_delivered u)\<rparr>"
    | (shape) "r = None" "u' = u\<lparr>ud_received := bump (ud_received u), ud_bad_shape := bump (ud_bad_shape u)\<rparr>"
    | (sum) "r = None" "u' = u\<lparr>ud_received := bump (ud_received u), ud_bad_checksum := bump (ud_bad_checksum u)\<rparr>"
    | (other) "r = None" "u' = u\<lparr>ud_received := bump (ud_received u), ud_not_this_cable := bump (ud_not_this_cable u)\<rparr>"
proof (cases "chudp_unwrap d CHAOS_PKT_MAX_WORDS")
  case (Inl e)
  then show ?thesis using assms shape sum by (cases e) (auto simp: chudp_arrive_def Let_def)
next
  case (Inr ws)
  have "peer_for (u\<lparr>ud_received := x\<rparr>) a = peer_for u a" for x a by (simp add: peer_for_def)
  then show ?thesis
    using assms Inr unwrap_sound(1) [OF Inr] frame other
    by (auto simp: chudp_arrive_def Let_def for_this_cable_def peer_for_None split: if_splits)
qed

lemma arrive_accounts:
  assumes "chudp_arrive d u = (u', r)" "chudp_accounts u"
  shows "chudp_accounts u'"
  unfolding chudp_accounts_def
proof
  assume "unat (ud_received u') < ULONG_MAX"
  moreover have "ud_received u' = bump (ud_received u)" using assms(1) by (cases rule: arrive_cases) simp_all
  ultimately have r: "unat (ud_received u) < ULONG_MAX - 1" by (auto simp: unat_bump)
  with assms(2) have eq: "unat (ud_received u) =
      unat (ud_delivered u) + unat (ud_bad_shape u) + unat (ud_bad_checksum u) + unat (ud_not_this_cable u)"
    by (simp add: chudp_accounts_def)
  show "unat (ud_received u') =
      unat (ud_delivered u') + unat (ud_bad_shape u') + unat (ud_bad_checksum u') + unat (ud_not_this_cable u')"
    using assms(1) r eq by (cases rule: arrive_cases) simp_all
qed

text \<open>What receiving leaves of the link: who is on it, and that its counts close.\<close>

definition link_kept :: "chudp \<Rightarrow> chudp \<Rightarrow> bool" where
  "link_kept u u' \<longleftrightarrow> ud_local u' = ud_local u \<and> ud_peers u' = ud_peers u \<and> ud_default u' = ud_default u \<and>
     ud_bad_check_word u' = ud_bad_check_word u \<and> (chudp_accounts u \<longrightarrow> chudp_accounts u')"

lemma link_kept_refl [simp]: "link_kept u u"
  by (simp add: link_kept_def)

lemma link_kept_trans: "link_kept u v \<Longrightarrow> link_kept v w \<Longrightarrow> link_kept u w"
  by (simp add: link_kept_def)

lemma link_kept_cable: "link_kept u u' \<Longrightarrow> for_this_cable u' = for_this_cable u"
  by (simp add: link_kept_def for_this_cable_def fun_eq_iff)

lemma arrive_kept: "chudp_arrive d u = (u', r) \<Longrightarrow> link_kept u u'"
  using arrive_accounts [of d u u' r] by (auto simp: link_kept_def elim: arrive_cases)

lemma poll_delivers:
  "chudp_poll N turns (\<lambda>f c w. (deliver f c, w)) u w c = (k, u', w', c') \<Longrightarrow> link_kept u u' \<and>
   (\<exists>frames. c' = fold deliver frames c \<and> k = length frames \<and> k \<le> turns \<and> list_all (for_this_cable u) frames)"
proof (induction turns arbitrary: u w c k)
  case (Suc turns)
  obtain g w1 where r: "net_recvfrom N w = (g, w1)" by (cases "net_recvfrom N w")
  show ?case
  proof (cases g)
    case (Some got)
    obtain u1 f where a: "chudp_arrive (take 515 got) u = (u1, f)" by (cases "chudp_arrive (take 515 got) u")
    note kept = arrive_kept [OF a]
    show ?thesis
    proof (cases f)
      case None
      then have "chudp_poll N turns (\<lambda>f c w. (deliver f c, w)) u1 w1 c = (k, u', w', c')" using Suc.prems r Some a by simp
      from Suc.IH [OF this] show ?thesis using link_kept_trans [OF kept] link_kept_cable [OF kept] by auto
    next
      case ws: (Some ws)
      from a ws have t: "for_this_cable u ws" by (cases rule: arrive_cases) auto
      obtain k1 where k1: "chudp_poll N turns (\<lambda>f c w. (deliver f c, w)) u1 w1 (deliver ws c) = (k1, u', w', c')" "k = k1 + 1"
        using Suc.prems r Some a ws by (auto split: prod.splits)
      from Suc.IH [OF k1(1)] obtain frames where f: "c' = fold deliver frames (deliver ws c)" "k1 = length frames"
          "k1 \<le> turns" "list_all (for_this_cable u) frames" and l: "link_kept u1 u'"
        using link_kept_cable [OF kept] by auto
      have "c' = fold deliver (ws # frames) c" "k = length (ws # frames)" "list_all (for_this_cable u) (ws # frames)"
        using f k1(2) t by simp_all
      then show ?thesis using f(3) k1(2) link_kept_trans [OF kept l] by fastforce
    qed
  qed (use Suc.prems r in auto)
qed auto

section \<open>Where a frame goes\<close>

text \<open>A network of which every send to an endpoint that is up arrives, and what it carried.\<close>

record cable =
  cb_in :: "u8 list list"
  cb_out :: "(endpoint \<times> u8 list) list"
  cb_up :: "endpoint list"

definition cable_net :: "cable chudp_net" where
  "cable_net =
     \<lparr>net_bind = (\<lambda>addr port w. Some w), net_close = id,
      net_sendto = (\<lambda>e d w. if e \<in> set (cb_up w) then (True, w\<lparr>cb_out := cb_out w @ [(e, d)]\<rparr>) else (False, w)),
      net_recvfrom = (\<lambda>w. case cb_in w of [] \<Rightarrow> (None, w) | d # ds \<Rightarrow> (Some d, w\<lparr>cb_in := ds\<rparr>))\<rparr>"

definition peers_ok :: "chudp \<Rightarrow> bool" where
  "peers_ok u \<longleftrightarrow> distinct (map pe_address (ud_peers u)) \<and> 0 \<notin> pe_address ` set (ud_peers u) \<and>
     length (ud_peers u) \<le> CHUDP_MAX_PEERS"

text \<open>The endpoints a frame goes to, as the protocol says it.\<close>

definition addressed :: "chudp \<Rightarrow> endpoint list \<Rightarrow> u16 \<Rightarrow> endpoint list" where
  "addressed u up dest =
     (if dest = 0 then filter (\<lambda>e. e \<in> set up) (map pe_where (ud_peers u))
      else if dest = ud_local u then []
      else case map_of (map (\<lambda>p. (pe_address p, pe_where p)) (ud_peers u)) dest of
          Some e \<Rightarrow> if e \<in> set up then [e] else filter (\<lambda>e. e \<in> set up) (case ud_default u of None \<Rightarrow> [] | Some e \<Rightarrow> [e])
        | None \<Rightarrow> filter (\<lambda>e. e \<in> set up) (case ud_default u of None \<Rightarrow> [] | Some e \<Rightarrow> [e]))"

lemma cable_sendto [simp]:
  "net_sendto cable_net e d w = (if e \<in> set (cb_up w) then (True, w\<lparr>cb_out := cb_out w @ [(e, d)]\<rparr>) else (False, w))"
  by (simp add: cable_net_def)

lemma send_peers_cable:
  "send_peers cable_net d dest ps n w =
     (let es = filter (\<lambda>e. e \<in> set (cb_up w)) (map pe_where (filter (\<lambda>p. dest = 0 \<or> pe_address p = dest) ps))
      in (n + length es, w\<lparr>cb_out := cb_out w @ map (\<lambda>e. (e, d)) es\<rparr>))"
  by (induction ps arbitrary: n w) (auto simp: Let_def o_def)

lemma filter_address:
  "distinct (map pe_address ps) \<Longrightarrow>
   map pe_where (filter (\<lambda>p. pe_address p = a) ps) =
     (case map_of (map (\<lambda>p. (pe_address p, pe_where p)) ps) a of None \<Rightarrow> [] | Some e \<Rightarrow> [e])"
proof (induction ps)
  case (Cons p ps)
  show ?case
  proof (cases "pe_address p = a")
    case True
    then have "filter (\<lambda>p. pe_address p = a) ps = []" using Cons.prems by (auto simp: filter_empty_conv) (metis rev_image_eqI)
    then show ?thesis using True by simp
  qed (use Cons in simp)
qed simp

lemma send_goes:
  fixes u dest w
  assumes "peers_ok u" "frame_ok ws"
  defines "es \<equiv> addressed u (cb_up w) dest"
  shows "chudp_send cable_net ws dest u w =
    (Some (length es), u, w\<lparr>cb_out := cb_out w @ map (\<lambda>e. (e, chudp_wrap ws CHUDP_MAX_FRAME)) es\<rparr>)"
proof -
  have n: "11 \<le> length ws" "length ws \<le> 255" using assms(2) by (auto simp: frame_ok_def)
  have d: "chudp_wrap ws 514 \<noteq> []" unfolding wrap_shape [OF n] by simp
  have c: "ws ! (length ws - 1) = chaos_check_word (take (length ws - 1) ws)"
    using assms(2) n by (cases "ws = []") (auto simp: frame_ok_def last_conv_nth butlast_conv_take)
  have du: "distinct (map pe_address (ud_peers u))" using assms(1) by (simp add: peers_ok_def)
  consider "dest = 0" | "dest \<noteq> 0" "dest = ud_local u" | "dest \<noteq> 0" "dest \<noteq> ud_local u" by blast
  then show ?thesis
  proof cases
    case 1
    then show ?thesis
      using d c by (simp add: chudp_send_def Let_def es_def addressed_def send_peers_cable o_def split: option.splits)
  next
    case 2
    then show ?thesis using d c by (simp add: chudp_send_def Let_def es_def addressed_def)
  next
    case 3
    then have f: "filter (\<lambda>p. dest = 0 \<or> pe_address p = dest) (ud_peers u) = filter (\<lambda>p. pe_address p = dest) (ud_peers u)" by simp
    show ?thesis
      using d c 3 unfolding chudp_send_def Let_def send_peers_cable f filter_address [OF du]
      by (simp add: es_def addressed_def split: option.splits)
  qed
qed

lemma add_peer_ok:
  assumes "peers_ok u" "chudp_add_peer gai spec u = Inr u'"
  shows "peers_ok u'" "\<exists>p. ud_peers u' = ud_peers u @ [p]"
proof -
  obtain a e where "u' = u\<lparr>ud_peers := ud_peers u @ [\<lparr>pe_address = a, pe_where = e\<rparr>]\<rparr>" "a \<noteq> 0"
      "\<forall>p \<in> set (ud_peers u). pe_address p \<noteq> a" "length (ud_peers u) \<noteq> 16"
    using assms(2) by (auto simp: chudp_add_peer_def Let_def split: option.splits if_splits sum.splits)
  then show "peers_ok u'" "\<exists>p. ud_peers u' = ud_peers u @ [p]" using assms(1) by (auto simp: peers_ok_def)
qed

section \<open>Addresses written and read\<close>

lemma octal_plain: "CHR '':'' \<notin> set (digits_put 8 n)" "CHR ''@'' \<notin> set (digits_put 8 n)" "digits_put 8 n \<noteq> []"
proof -
  have d: "\<forall>c \<in> set (digits_put 8 n). digit_value c < 8" "digits_put 8 n \<noteq> []" using digits_put_char [of 8 n] by simp_all
  have "\<not> digit_value (CHR '':'') < 8" "\<not> digit_value (CHR ''@'') < 8" by (simp_all add: digit_value_def)
  then show "CHR '':'' \<notin> set (digits_put 8 n)" "CHR ''@'' \<notin> set (digits_put 8 n)" "digits_put 8 n \<noteq> []" using d by blast+
qed

lemma octal_short: "n < 256 \<Longrightarrow> length (digits_put 8 n) \<le> 3"
  by (subst digits_put.simps; simp)+

lemma halves:
  fixes a :: u16
  defines "A \<equiv> ucast a :: ulong"
  shows "both_halves A \<longleftrightarrow> unat a div 256 \<noteq> 0 \<and> unat a mod 256 \<noteq> 0"
    and "push_bit 8 (of_nat (unat a div 256)) OR of_nat (unat a mod 256) = A"
proof -
  have u: "unat A = unat a" using unsigned_less [of a, where 'a = nat] by (simp add: A_def unsigned_ucast_eq take_bit_nat_eq_self)
  have "unat (drop_bit 8 A) = unat a div 256"
    unfolding unsigned_drop_bit_eq u using unsigned_less [of a, where 'a = nat] by (simp add: drop_bit_eq_div take_bit_nat_eq_self)
  moreover have m: "(0xFF :: ulong) = mask 8" by (simp add: mask_eq_exp_minus_1)
  then have "unat (A AND 0xFF) = unat a mod 256"
    unfolding m take_bit_eq_mask [symmetric] unsigned_take_bit_eq u by (simp add: take_bit_eq_mod)
  ultimately show "both_halves A \<longleftrightarrow> unat a div 256 \<noteq> 0 \<and> unat a mod 256 \<noteq> 0"
    unfolding both_halves_def by (metis unsigned_0 unsigned_word_eqI)
  show "push_bit 8 (of_nat (unat a div 256)) OR of_nat (unat a mod 256) = A"
  proof (rule bit_word_eqI)
    fix n assume "n < LENGTH(32)"
    have e: "unat a div 256 = drop_bit 8 (unat a)" "unat a mod 256 = take_bit 8 (unat a)"
      by (simp_all add: drop_bit_eq_div take_bit_eq_mod)
    show "bit (push_bit 8 (of_nat (unat a div 256)) OR of_nat (unat a mod 256) :: ulong) n = bit A n"
      unfolding e A_def using \<open>n < LENGTH(32)\<close>
      by (auto simp: bit_simps bit_of_nat_iff)
  qed
qed

lemma parse_octal:
  assumes "unat a div 256 \<noteq> 0" "unat a mod 256 \<noteq> 0"
  shows "parse_address (digits_put 8 (unat a)) = a"
    and "parse_address (digits_put 8 (unat a div 256) @ CHR '':'' # digits_put 8 (unat a mod 256)) = a"
proof -
  have u: "unat a < 65536" using unsigned_less [of a, where 'a = nat] by simp
  let ?A = "ucast a :: ulong"
  have A: "of_nat (unat a) = ?A" by simp
  have uA: "unat ?A = unat a" using u by (simp add: unsigned_ucast_eq take_bit_nat_eq_self)
  have b: "both_halves ?A" using halves(1) [of a] assms by simp
  have le: "\<not> 0xFFFF < ?A" using uA u by (simp add: word_less_nat_alt)
  have st: "strtoul (digits_put 8 n) 8 = (of_nat n, [])" if "n < 65536" for n using strtoul_put [of 8 n] that by simp
  show "parse_address (digits_put 8 (unat a)) = a"
    unfolding parse_address_def split_at_none [OF octal_plain(1)] using st [OF u] A octal_plain(3) [THEN not_sym] b le by (simp add: ucast_ucast_16)
  have small: "unat (of_nat n :: ulong) = n" if "n < 256" for n using that by (simp add: unat_of_nat)
  have hi: "unat a div 256 < 256" "unat a mod 256 < 256" using u by auto
  have nz: "(of_nat n :: ulong) \<noteq> 0" if "n \<noteq> 0" "n < 256" for n using small [OF that(2)] that(1) by (metis unsigned_0)
  have top: "\<not> 0xFF < (of_nat n :: ulong)" if "n < 256" for n using small [OF that] that by (simp add: word_less_nat_alt)
  show "parse_address (digits_put 8 (unat a div 256) @ CHR '':'' # digits_put 8 (unat a mod 256)) = a"
    unfolding parse_address_def split_at_some [OF octal_plain(1)]
    using st [of "unat a div 256"] st [of "unat a mod 256"] hi octal_plain(3) octal_plain(3) [THEN not_sym] octal_short [OF hi(1)]
      nz [OF assms(1) hi(1)] nz [OF assms(2) hi(2)] top [OF hi(1)] top [OF hi(2)] b halves(2) [of a]
    by (simp add: ucast_ucast_16)
qed

section \<open>Properties\<close>

text \<open>
  The checksum of a Chaosnet datagram, whose carry is folded in at every word, is the sum the
  Ethernet device takes over the same bytes and folds at the end, complemented: two programs and
  one Internet checksum.\<close>

theorem chudp_sum_is_ethernets: "chudp_checksum ws = NOT (qed_ones_sum (concat (map (put_word CHUDP_BIG) ws)))"
proof (rule unsigned_word_eqI)
  show "unat (chudp_checksum ws) = unat (NOT (qed_ones_sum (concat (map (put_word CHUDP_BIG) ws))))"
    by (simp add: checksum_eq unat_not16 qed_ones_sum_def bytes_sum unat_ones_sum)
qed

text \<open>
  C36. A frame crosses the network between two boards as it was sent.  Addressed by the machine of
  one to the machine of the other, which a peer line names, it goes out in one datagram to that
  peer's endpoint, and the datagram read there delivers the frame, word for word and with its own
  check word, and counts one received and one delivered.\<close>

theorem chudp_link_carries:
  assumes "peers_ok a" "frame_ok ws" "map_of (map (\<lambda>p. (pe_address p, pe_where p)) (ud_peers a)) dest = Some e"
    and "dest = ws ! (length ws - 3)" "dest \<noteq> ud_local a" "e \<in> set (cb_up w)"
    and "ud_local b = dest" "dest \<notin> pe_address ` set (ud_peers b)" "ws ! (length ws - 2) \<notin> {0, dest}"
  shows "\<exists>d. chudp_send cable_net ws dest a w = (Some 1, a, w\<lparr>cb_out := cb_out w @ [(e, d)]\<rparr>) \<and>
    chudp_poll cable_net 1 (\<lambda>f got w. (got @ [f], w)) b (v\<lparr>cb_in := [d]\<rparr>) [] =
      (1, b\<lparr>ud_received := bump (ud_received b), ud_delivered := bump (ud_delivered b)\<rparr>, v\<lparr>cb_in := []\<rparr>, [ws])"
proof (intro exI conjI)
  let ?d = "chudp_wrap ws CHUDP_MAX_FRAME"
  have "dest \<noteq> 0" using assms(1, 3) by (force simp: peers_ok_def dest!: map_of_SomeD)
  then have "addressed a (cb_up w) dest = [e]" using assms(3, 5, 6) by (simp add: addressed_def)
  then show "chudp_send cable_net ws dest a w = (Some 1, a, w\<lparr>cb_out := cb_out w @ [(e, ?d)]\<rparr>)"
    using send_goes [OF assms(1, 2), of dest w] by simp
  have n: "11 \<le> length ws" "length ws \<le> 255" using assms(2) by (auto simp: frame_ok_def)
  have "length ?d \<le> 515" unfolding wrap_shape [OF n] using n by simp
  then have t: "take 515 ?d = ?d" by simp
  have p: "peer_for (b\<lparr>ud_received := x\<rparr>) dest = None" for x using assms(8) by (simp add: peer_for_None)
  have "chudp_arrive ?d b =
      (b\<lparr>ud_received := bump (ud_received b), ud_delivered := bump (ud_delivered b)\<rparr>, Some ws)"
    using unwrap_wrap [OF assms(2)] assms(4, 7, 9) p by (simp add: chudp_arrive_def Let_def)
  then show "chudp_poll cable_net 1 (\<lambda>f got w. (got @ [f], w)) b (v\<lparr>cb_in := [?d]\<rparr>) [] =
      (1, b\<lparr>ud_received := bump (ud_received b), ud_delivered := bump (ud_delivered b)\<rparr>, v\<lparr>cb_in := []\<rparr>, [ws])"
    using t by (simp add: cable_net_def)
qed

lemma packet_frame_ok: "chaos_ok p \<Longrightarrow> frame_ok (chaos_packet_frame p cd cs CHAOS_PKT_MAX_WORDS)"
proof -
  assume ok: "chaos_ok p"
  then have l: "cp_forward p < 16" "unat (cp_len p) \<le> 488" by (simp_all add: chaos_ok_def)
  show ?thesis unfolding frame_shape [OF ok] frame_ok_def using header_fields(3) [OF l] l(2)
    by (simp add: butlast_append)
qed

lemma packet_frame_trailer:
  fixes p cd cs
  assumes "chaos_ok p"
  defines "ws \<equiv> chaos_packet_frame p cd cs CHAOS_PKT_MAX_WORDS"
  shows "ws ! (length ws - 3) = cd" "ws ! (length ws - 2) = cs"
  unfolding ws_def frame_shape [OF assms(1)] by (simp_all add: nth_append)

definition board_a :: chudp where
  "board_a = chudp_empty\<lparr>ud_local := 1568, ud_peers := [\<lparr>pe_address = 1576, pe_where = \<lparr>sin_addr = 0x7F000001, sin_port = 42043\<rparr>\<rparr>]\<rparr>"

definition board_b :: chudp where
  "board_b = chudp_empty\<lparr>ud_local := 1576\<rparr>"

definition one_up :: cable where
  "one_up = \<lparr>cb_in = [], cb_out = [], cb_up = [\<lparr>sin_addr = 0x7F000001, sin_port = 42043\<rparr>]\<rparr>"

theorem chudp_link_carries_witness:
  "\<exists>ws d b'. chudp_send cable_net ws 1576 board_a one_up =
      (Some 1, board_a, one_up\<lparr>cb_out := [(\<lparr>sin_addr = 0x7F000001, sin_port = 42043\<rparr>, d)]\<rparr>) \<and>
    chudp_poll cable_net 1 (\<lambda>f got w. (got @ [f], w)) board_b (one_up\<lparr>cb_in := [d]\<rparr>) [] = (1, b', one_up, [ws])"
proof -
  let ?ws = "chaos_packet_frame rfc_packet 1576 1568 CHAOS_PKT_MAX_WORDS"
  have ok: "chaos_ok rfc_packet" by (simp add: chaos_ok_def rfc_packet_def)
  note t = packet_frame_trailer [OF ok, of 1576 1568]
  have "\<exists>d. chudp_send cable_net ?ws 1576 board_a one_up = (Some 1, board_a, one_up\<lparr>cb_out := cb_out one_up @
        [(\<lparr>sin_addr = 0x7F000001, sin_port = 42043\<rparr>, d)]\<rparr>) \<and>
    chudp_poll cable_net 1 (\<lambda>f got w. (got @ [f], w)) board_b (one_up\<lparr>cb_in := [d]\<rparr>) [] =
      (1, board_b\<lparr>ud_received := bump (ud_received board_b), ud_delivered := bump (ud_delivered board_b)\<rparr>, one_up\<lparr>cb_in := []\<rparr>, [?ws])"
    by (rule chudp_link_carries [OF _ packet_frame_ok [OF ok]])
      (simp_all add: t, simp_all add: peers_ok_def board_a_def board_b_def one_up_def chudp_empty_def)
  moreover have "cb_out one_up = []" "one_up\<lparr>cb_in := []\<rparr> = one_up" by (simp_all add: one_up_def)
  ultimately show ?thesis by auto
qed



text \<open>
  A peer line's endpoint that refuses the datagram: the frame then goes to the default peer, though
  an entry names its destination.\<close>

lemma named_peer_down:
  assumes "peers_ok u" "frame_ok ws" "map_of (map (\<lambda>p. (pe_address p, pe_where p)) (ud_peers u)) dest = Some e"
    and "dest \<noteq> ud_local u" "dest \<noteq> 0" "e \<notin> set (cb_up w)" "ud_default u = Some g" "g \<in> set (cb_up w)"
  shows "chudp_send cable_net ws dest u w =
    (Some 1, u, w\<lparr>cb_out := cb_out w @ [(g, chudp_wrap ws CHUDP_MAX_FRAME)]\<rparr>)"
  using send_goes [OF assms(1, 2), of dest w] assms by (simp add: addressed_def)

end
