(* ===== verification/Chaos_Face.thy ===== *)
theory Chaos_Face
  imports Chaos_Packet
begin

text \<open>
  \<^verbatim>\<open>chaos_face.h\<close> and \<^verbatim>\<open>chaos_face.c\<close>: the mailbox of frames between the Chaosnet interface in the
  fabric and the program, over any face; and \<^verbatim>\<open>chaos_test_model.c\<close>, the model of the fabric's half
  that the tests put behind it.
\<close>

unbundle bit_operations_syntax

section \<open>The face\<close>

record 'm chaos_face =
  cf_read :: "'m \<Rightarrow> nat \<Rightarrow> u32 \<times> 'm"
  cf_write :: "'m \<Rightarrow> nat \<Rightarrow> u32 \<Rightarrow> 'm"

abbreviation (input) CHAOS_IDENT :: nat where "CHAOS_IDENT \<equiv> 0"
abbreviation (input) CHAOS_STAT :: nat where "CHAOS_STAT \<equiv> 1"
abbreviation (input) CHAOS_MYADDR :: nat where "CHAOS_MYADDR \<equiv> 2"
abbreviation (input) CHAOS_TXLEN :: nat where "CHAOS_TXLEN \<equiv> 3"
abbreviation (input) CHAOS_RXLEN :: nat where "CHAOS_RXLEN \<equiv> 4"
abbreviation (input) CHAOS_CTL :: nat where "CHAOS_CTL \<equiv> 5"
abbreviation (input) CHAOS_LOST :: nat where "CHAOS_LOST \<equiv> 6"
abbreviation (input) CHAOS_IRQ :: nat where "CHAOS_IRQ \<equiv> 7"
abbreviation (input) CHAOS_IRQEN :: nat where "CHAOS_IRQEN \<equiv> 8"
abbreviation (input) CHAOS_TX_WINDOW :: nat where "CHAOS_TX_WINDOW \<equiv> 0x100"
abbreviation (input) CHAOS_RX_WINDOW :: nat where "CHAOS_RX_WINDOW \<equiv> 0x200"
abbreviation (input) CHAOS_MAX_WORDS :: nat where "CHAOS_MAX_WORDS \<equiv> 255"
abbreviation (input) CHAOS_FACE_MIN_WORDS :: nat where "CHAOS_FACE_MIN_WORDS \<equiv> 4"
abbreviation (input) CHAOS_CTL_TX_TAKE :: u32 where "CHAOS_CTL_TX_TAKE \<equiv> 1"
abbreviation (input) CHAOS_CTL_RX_COMMIT :: u32 where "CHAOS_CTL_RX_COMMIT \<equiv> 2"
abbreviation (input) CHAOS_CTL_TX_ABORTED :: u32 where "CHAOS_CTL_TX_ABORTED \<equiv> 8"

datatype ident_err = Ident_none | Ident_zero | Ident_ones | Ident_other u32

definition chaos_face_ident :: "'m chaos_face \<Rightarrow> 'm \<Rightarrow> ident_err option \<times> 'm" where
  "chaos_face_ident F m =
     (case cf_read F m CHAOS_IDENT of (got, m) \<Rightarrow>
        (if got = 0x4348414F then None
         else if got = 0x4E4F4E45 then Some Ident_none
         else if got = 0 then Some Ident_zero
         else if got = 0xFFFFFFFF then Some Ident_ones
         else Some (Ident_other got), m))"

definition chaos_face_rx_freed :: "'m chaos_face \<Rightarrow> 'm \<Rightarrow> bool \<times> 'm" where
  "chaos_face_rx_freed F m =
     (case cf_read F m CHAOS_IRQ of (irq, m) \<Rightarrow>
        if \<not> bit irq 1 then (False, m) else (True, cf_write F m CHAOS_IRQ 2))"

definition chaos_face_address :: "'m chaos_face \<Rightarrow> 'm \<Rightarrow> u16 \<times> 'm" where
  "chaos_face_address F m = (case cf_read F m CHAOS_MYADDR of (v, m) \<Rightarrow> (ucast (v AND 0xFFFF), m))"

definition chaos_face_set_address :: "'m chaos_face \<Rightarrow> u16 \<Rightarrow> 'm \<Rightarrow> 'm" where
  "chaos_face_set_address F address m = cf_write F m CHAOS_MYADDR (ucast address)"

definition chaos_face_let_go :: "'m chaos_face \<Rightarrow> bool \<Rightarrow> 'm \<Rightarrow> 'm" where
  "chaos_face_let_go F aborted m = cf_write F m CHAOS_CTL (CHAOS_CTL_TX_TAKE OR (if aborted then CHAOS_CTL_TX_ABORTED else 0))"

text \<open>No frame, a frame this program cannot hold, or its words.\<close>

datatype frame_read = No_frame | Bad_frame u32 | Frame "u16 list"

fun read_window :: "'m chaos_face \<Rightarrow> nat list \<Rightarrow> 'm \<Rightarrow> u16 list \<times> 'm" where
  "read_window F [] m = ([], m)"
| "read_window F (k # ks) m =
     (case cf_read F m (CHAOS_TX_WINDOW + k) of (v, m) \<Rightarrow>
      case read_window F ks m of (ws, m) \<Rightarrow> (ucast (v AND 0xFFFF) # ws, m))"

definition chaos_face_read_frame :: "'m chaos_face \<Rightarrow> nat \<Rightarrow> 'm \<Rightarrow> frame_read \<times> 'm" where
  "chaos_face_read_frame F room m =
     (case cf_read F m CHAOS_STAT of (stat, m) \<Rightarrow>
        if \<not> bit stat 0 then (No_frame, m)
        else case cf_read F m CHAOS_TXLEN of (len, m) \<Rightarrow>
          if len = 0 \<or> min room CHAOS_MAX_WORDS < unat len then (Bad_frame len, chaos_face_let_go F False m)
          else if unat len < CHAOS_PKT_TRAILER_WORDS then (Bad_frame len, chaos_face_let_go F False m)
          else case read_window F [0..<unat len] m of (ws, m) \<Rightarrow> (Frame ws, m))"

definition chaos_face_take :: "'m chaos_face \<Rightarrow> nat \<Rightarrow> 'm \<Rightarrow> frame_read \<times> 'm" where
  "chaos_face_take F room m =
     (case chaos_face_read_frame F room m of
        (Frame ws, m) \<Rightarrow> (Frame ws, chaos_face_let_go F False m)
      | (r, m) \<Rightarrow> (r, m))"

text \<open>1, 0 or -1 of \<^verbatim>\<open>chaos_face_give\<close>; \<open>looped_said\<close> is only whether a line is said again.\<close>

datatype given = Stored | Refused_now | Not_carried

fun write_window :: "'m chaos_face \<Rightarrow> nat \<Rightarrow> u16 list \<Rightarrow> 'm \<Rightarrow> 'm" where
  "write_window F k [] m = m"
| "write_window F k (w # ws) m = write_window F (Suc k) ws (cf_write F m (CHAOS_RX_WINDOW + k) (ucast w))"

definition chaos_face_give :: "'m chaos_face \<Rightarrow> u16 list \<Rightarrow> 'm \<Rightarrow> given \<times> 'm" where
  "chaos_face_give F words m =
     (if length words < CHAOS_FACE_MIN_WORDS \<or> CHAOS_MAX_WORDS < length words then (Not_carried, m)
      else case cf_read F m CHAOS_STAT of (stat, m) \<Rightarrow>
        if bit stat 3 then (Refused_now, m)
        else case cf_read F m CHAOS_LOST of (lost_before, m) \<Rightarrow>
          let m = write_window F 0 words m;
              m = cf_write F m CHAOS_RXLEN (of_nat (length words));
              m = cf_write F m CHAOS_CTL CHAOS_CTL_RX_COMMIT
          in case cf_read F m CHAOS_LOST of (lost_after, m) \<Rightarrow>
               if lost_after \<noteq> lost_before then (Refused_now, m)
               else if lost_before = 0xFFFFFFFF \<and> bit stat 1 then (Refused_now, m)
               else (Stored, m))"

datatype chaos_own = CHAOS_OWN_NOT_FOR_IT | CHAOS_OWN_TAKEN | CHAOS_OWN_LOST | CHAOS_OWN_ABORTED | CHAOS_OWN_LOOPED

definition chaos_face_own_frame :: "'m chaos_face \<Rightarrow> u16 list \<Rightarrow> u16 \<Rightarrow> 'm \<Rightarrow> chaos_own \<times> 'm" where
  "chaos_face_own_frame F words me m =
     (if length words < CHAOS_FACE_MIN_WORDS \<or> CHAOS_MAX_WORDS < length words then (CHAOS_OWN_NOT_FOR_IT, m)
      else case cf_read F m CHAOS_STAT of (stat, m) \<Rightarrow>
        if bit stat 3 then (CHAOS_OWN_LOOPED, m)
        else let dest = words ! (length words - CHAOS_PKT_TRAILER_WORDS); spy = bit stat 18
          in if dest \<noteq> me \<and> dest \<noteq> 0 \<and> \<not> spy then (CHAOS_OWN_NOT_FOR_IT, m)
             else case chaos_face_give F words m of
               (Stored, m) \<Rightarrow> (CHAOS_OWN_TAKEN, m)
             | (Refused_now, m) \<Rightarrow> (if dest = me then CHAOS_OWN_ABORTED else CHAOS_OWN_LOST, m)
             | (Not_carried, m) \<Rightarrow> (CHAOS_OWN_NOT_FOR_IT, m))"

section \<open>The model of the fabric's half\<close>

text \<open>The model's counts of the driver's reads, writes, commits and aborts, which it keeps for its checks, are left out.\<close>

record face_model =
  fm_ident :: u32
  fm_myaddr :: u32
  fm_tx :: "u16 list"
  fm_txlen :: u32
  fm_tx_valid :: bool
  fm_rxwin :: "u16 list"
  fm_rxlen :: u32
  fm_rx :: "u16 list"
  fm_rx_words :: nat
  fm_rx_busy :: bool
  fm_rx_armed :: bool
  fm_looped :: bool
  fm_csr :: u16
  fm_lost :: u32
  fm_irq :: u32
  fm_irqen :: u32
  fm_takes :: nat
  fm_tx_aborts :: nat
  fm_faults :: nat
  fm_now :: nat
  fm_free_at :: nat
  fm_service_ns :: nat
  fm_delivered :: nat
  fm_seen :: "u16 list"

definition chaos_model_drains :: "face_model \<Rightarrow> face_model" where
  "chaos_model_drains m = m\<lparr>fm_rx_busy := False, fm_rx_words := 0, fm_irq := fm_irq m OR 2\<rparr>"

definition chaos_model_init :: face_model where
  "chaos_model_init =
     \<lparr>fm_ident = 0x4348414F, fm_myaddr = 0, fm_tx = replicate 256 0, fm_txlen = 0, fm_tx_valid = False,
      fm_rxwin = replicate 256 0, fm_rxlen = 0, fm_rx = replicate 256 0, fm_rx_words = 0, fm_rx_busy = False,
      fm_rx_armed = True, fm_looped = False, fm_csr = 0, fm_lost = 0, fm_irq = 0, fm_irqen = 0, fm_takes = 0,
      fm_tx_aborts = 0, fm_faults = 0, fm_now = 0, fm_free_at = 0, fm_service_ns = 0, fm_delivered = 0, fm_seen = []\<rparr>"

definition chaos_model_transmits :: "u16 list \<Rightarrow> face_model \<Rightarrow> face_model" where
  "chaos_model_transmits words m =
     m\<lparr>fm_tx := words @ drop (length words) (fm_tx m), fm_txlen := of_nat (length words), fm_tx_valid := True,
       fm_irq := fm_irq m OR 1\<rparr>"

text \<open>The machine's own clock: the packet taken out when its time has come.\<close>

definition advance :: "face_model \<Rightarrow> face_model" where
  "advance m =
     (if fm_service_ns m = 0 \<or> \<not> fm_rx_busy m \<or> fm_now m < fm_free_at m then m
      else let m = (if fm_delivered m < 128 then m\<lparr>fm_seen := fm_seen m @ [fm_rx m ! 6]\<rparr> else m)
           in chaos_model_drains (m\<lparr>fm_delivered := fm_delivered m + 1\<rparr>))"

definition model_stat :: "face_model \<Rightarrow> u32" where
  "model_stat m =
     (if fm_tx_valid m then 1 else 0) OR (if fm_rx_busy m then 2 else 0) OR (if fm_rx_armed m then 4 else 0) OR
     (if fm_looped m then 8 else 0) OR push_bit 16 (ucast (fm_csr m))"

definition model_val :: "face_model \<Rightarrow> nat \<Rightarrow> u32" where
  "model_val m word =
     (if 0x100 \<le> word \<and> word < 0x200 then
        (if fm_tx_valid m \<and> word - 0x100 < unat (fm_txlen m) then ucast (fm_tx m ! (word - 0x100)) else 0)
      else if 0x200 \<le> word \<and> word < 0x300 then ucast (fm_rxwin m ! (word - 0x200))
      else if word = 0 then fm_ident m
      else if word = 1 then model_stat m
      else if word = 2 then fm_myaddr m
      else if word = 3 then (if fm_tx_valid m then fm_txlen m else 0)
      else if word = 4 then fm_rxlen m
      else if word = 6 then fm_lost m
      else if word = 7 then fm_irq m
      else if word = 8 then fm_irqen m
      else 0)"

definition model_read :: "face_model \<Rightarrow> nat \<Rightarrow> u32 \<times> face_model" where
  "model_read m word = (let m = advance m in (model_val m word, m))"

definition ctl_take :: "face_model \<Rightarrow> u32 \<Rightarrow> face_model" where
  "ctl_take m v =
     (let m = (if bit v 3 \<and> \<not> bit v 0 then m\<lparr>fm_faults := fm_faults m + 1\<rparr> else m)
      in if bit v 0 then
           (if fm_tx_valid m then
              m\<lparr>fm_tx_valid := False, fm_txlen := 0, fm_irq := fm_irq m AND NOT 1, fm_takes := fm_takes m + 1,
                fm_tx_aborts := (if bit v 3 then fm_tx_aborts m + 1 else fm_tx_aborts m)\<rparr>
            else m\<lparr>fm_faults := fm_faults m + 1\<rparr>)
         else m)"

text \<open>The commit, and whether the rest of the write is still looked at.\<close>

definition ctl_commit :: "face_model \<Rightarrow> bool \<times> face_model" where
  "ctl_commit m =
     (if fm_rxlen m = 0 \<or> 255 < fm_rxlen m then (False, m\<lparr>fm_faults := fm_faults m + 1\<rparr>)
      else if fm_rx_busy m \<or> \<not> fm_rx_armed m \<or> fm_looped m then
        (False, if fm_lost m \<noteq> 0xFFFFFFFF then m\<lparr>fm_lost := fm_lost m + 1\<rparr> else m)
      else (True, m\<lparr>fm_rx := take (unat (fm_rxlen m)) (fm_rxwin m) @ drop (unat (fm_rxlen m)) (fm_rx m),
              fm_rx_words := unat (fm_rxlen m), fm_rx_busy := True, fm_free_at := fm_now m + fm_service_ns m\<rparr>))"

definition model_ctl :: "face_model \<Rightarrow> u32 \<Rightarrow> face_model" where
  "model_ctl m v =
     (let m = ctl_take m v; (more, m) = (if bit v 1 then ctl_commit m else (True, m))
      in if more \<and> bit v 2 then m\<lparr>fm_rxlen := 0\<rparr> else m)"

definition model_write :: "face_model \<Rightarrow> nat \<Rightarrow> u32 \<Rightarrow> face_model" where
  "model_write m word v =
     (let m = advance m
      in if 0x200 \<le> word \<and> word < 0x300 then m\<lparr>fm_rxwin := (fm_rxwin m)[word - 0x200 := ucast v]\<rparr>
         else if 0x100 \<le> word \<and> word < 0x200 then m\<lparr>fm_faults := fm_faults m + 1\<rparr>
         else if word = 2 then m\<lparr>fm_myaddr := v AND 0xFFFF\<rparr>
         else if word = 4 then m\<lparr>fm_rxlen := v\<rparr>
         else if word = 5 then model_ctl m v
         else if word = 7 then m\<lparr>fm_irq := fm_irq m AND NOT v\<rparr>
         else if word = 8 then m\<lparr>fm_irqen := v\<rparr>
         else m\<lparr>fm_faults := fm_faults m + 1\<rparr>)"

definition model_face :: "face_model chaos_face" where
  "model_face = \<lparr>cf_read = model_read, cf_write = model_write\<rparr>"

section \<open>Frames through the face\<close>

definition settled :: "face_model \<Rightarrow> bool" where
  "settled m \<longleftrightarrow> fm_service_ns m = 0 \<or> \<not> fm_rx_busy m \<or> fm_now m < fm_free_at m"

lemma advance_settled [simp]: "settled m \<Longrightarrow> advance m = m"
  by (auto simp: settled_def advance_def)

lemma settled_advance [simp]: "settled (advance m)"
  by (auto simp: settled_def advance_def chaos_model_drains_def Let_def)

lemma advance_keeps [simp]:
  "fm_tx (advance m) = fm_tx m" "fm_txlen (advance m) = fm_txlen m" "fm_tx_valid (advance m) = fm_tx_valid m"
  "fm_rxwin (advance m) = fm_rxwin m" "fm_rx (advance m) = fm_rx m" "fm_rx_armed (advance m) = fm_rx_armed m"
  "fm_looped (advance m) = fm_looped m" "fm_lost (advance m) = fm_lost m" "fm_faults (advance m) = fm_faults m"
  "fm_takes (advance m) = fm_takes m" "fm_tx_aborts (advance m) = fm_tx_aborts m" "fm_now (advance m) = fm_now m"
  by (auto simp: advance_def chaos_model_drains_def Let_def)

lemma stat_bits:
  "bit (model_stat m) 0 = fm_tx_valid m" "bit (model_stat m) 1 = fm_rx_busy m" "bit (model_stat m) 3 = fm_looped m"
proof -
  show "bit (model_stat m) 0 = fm_tx_valid m" by (simp add: model_stat_def bit_simps)
  show "bit (model_stat m) 1 = fm_rx_busy m" "bit (model_stat m) 3 = fm_looped m"
    by (auto simp: model_stat_def bit_simps)
qed

lemma window_settled:
  "settled m \<Longrightarrow> k + length ws \<le> 256 \<Longrightarrow> length (fm_rxwin m) = 256 \<Longrightarrow>
   write_window model_face k ws m = m\<lparr>fm_rxwin := take k (fm_rxwin m) @ ws @ drop (k + length ws) (fm_rxwin m)\<rparr>"
proof (induction ws arbitrary: k m)
  case (Cons w ws)
  let ?m = "m\<lparr>fm_rxwin := (fm_rxwin m)[k := w]\<rparr>"
  have u: "ucast (ucast w :: u32) = w" by (rule bit_word_eqI) (auto simp: bit_simps)
  have "model_write m (0x200 + k) (ucast w) = ?m" using Cons.prems u by (simp add: model_write_def)
  moreover have "take (Suc k) ((fm_rxwin m)[k := w]) = take k (fm_rxwin m) @ [w]"
    using Cons.prems by (simp add: take_Suc_conv_app_nth)
  ultimately show ?case
    using Cons.IH [of ?m "Suc k"] Cons.prems by (simp add: model_face_def settled_def)
qed simp

text \<open>What a frame given becomes, by the state the machine is found in.\<close>

lemma give_model:
  assumes "length (fm_rxwin m) = 256" "4 \<le> length ws" "length ws \<le> 255"
  defines "a \<equiv> advance m" and "n \<equiv> length ws"
  shows "chaos_face_give model_face ws m =
    (let w = a\<lparr>fm_rxwin := ws @ drop n (fm_rxwin m), fm_rxlen := of_nat n\<rparr> in
      if fm_looped m then (Refused_now, a)
      else if fm_rx_busy a \<or> \<not> fm_rx_armed m then
        (if fm_lost m = 0xFFFFFFFF \<and> \<not> fm_rx_busy a then Stored else Refused_now,
         if fm_lost m \<noteq> 0xFFFFFFFF then w\<lparr>fm_lost := fm_lost m + 1\<rparr> else w)
      else (Stored, w\<lparr>fm_rx := ws @ drop n (fm_rx m), fm_rx_words := n, fm_rx_busy := True,
              fm_free_at := fm_now m + fm_service_ns a\<rparr>))"
proof -
  let ?w = "a\<lparr>fm_rxwin := ws @ drop n (fm_rxwin m), fm_rxlen := of_nat n\<rparr>"
  have a: "settled a" "fm_rxwin a = fm_rxwin m" by (simp_all add: a_def)
  have n: "unat (of_nat n :: u32) = n" "(of_nat n :: u32) \<noteq> 0" "\<not> 255 < (of_nat n :: u32)"
  proof -
    show u: "unat (of_nat n :: u32) = n" using assms(3) by (simp add: n_def unsigned_of_nat take_bit_nat_eq_self)
    show "(of_nat n :: u32) \<noteq> 0" using u assms(2) n_def by (metis not_numeral_le_zero unsigned_0)
    show "\<not> 255 < (of_nat n :: u32)" using u assms(3) n_def by (simp add: word_less_nat_alt)
  qed
  have win: "write_window model_face 0 ws a = a\<lparr>fm_rxwin := ws @ drop n (fm_rxwin m)\<rparr>"
    using window_settled [of a 0 ws] a assms(1, 3) by (simp add: n_def)
  have len: "model_write (a\<lparr>fm_rxwin := ws @ drop n (fm_rxwin m)\<rparr>) 4 (of_nat n) = ?w"
    using a(1) by (simp add: model_write_def settled_def advance_def)
  have sw: "settled ?w" using a(1) by (simp add: settled_def)
  let ?c = "snd (ctl_commit ?w)"
  have ctl: "model_write ?w 5 2 = ?c"
    using sw by (simp add: model_write_def model_ctl_def ctl_take_def case_prod_unfold Let_def bit_simps)
  have sc: "settled ?c" using sw by (auto simp: ctl_commit_def settled_def)
  have stat: "cf_read model_face m 1 = (model_stat a, a)" "cf_read model_face a 6 = (fm_lost m, a)"
    using a(1) by (simp_all add: model_face_def model_read_def model_val_def a_def Let_def)
  have last: "cf_read model_face ?c 6 = (fm_lost ?c, ?c)" using sc by (simp add: model_face_def model_read_def model_val_def Let_def)
  have give: "chaos_face_give model_face ws m =
      (if fm_looped a then (Refused_now, a)
       else if fm_lost ?c \<noteq> fm_lost m then (Refused_now, ?c)
       else if fm_lost m = 0xFFFFFFFF \<and> fm_rx_busy a then (Refused_now, ?c) else (Stored, ?c))"
    using assms(2, 3) win len ctl stat last stat_bits(2, 3) [of a]
    by (simp add: chaos_face_give_def n_def [symmetric] Let_def) (simp add: model_face_def)
  have acc: "fm_looped a = fm_looped m" "fm_rx_armed a = fm_rx_armed m" "fm_lost a = fm_lost m" "fm_rx a = fm_rx m" "fm_now a = fm_now m"
    by (simp_all add: a_def)
  have ne: "fm_lost m + 1 \<noteq> fm_lost m" by simp
  show ?thesis
    unfolding give Let_def using n acc ne assms(1) by (simp add: ctl_commit_def) (simp add: n_def)
qed

lemma read_window_settled:
  "settled m \<Longrightarrow> fm_tx_valid m \<Longrightarrow> unat (fm_txlen m) \<le> 255 \<Longrightarrow> \<forall>k \<in> set ks. k < unat (fm_txlen m) \<Longrightarrow>
   read_window model_face ks m = (map (\<lambda>k. fm_tx m ! k) ks, m)"
proof (induction ks)
  case (Cons k ks)
  have "ucast (ucast x AND 0xFFFF :: u32) = x" for x :: u16
  proof (rule bit_word_eqI)
    fix n assume "n < LENGTH(16)"
    then show "bit (ucast (ucast x AND 0xFFFF :: u32) :: u16) n = bit x n"
      using bit_FFFF [of n] by (simp add: bit_simps)
  qed
  then show ?case using Cons by (simp add: model_face_def model_read_def model_val_def)
qed simp

lemma read_frame_model:
  fixes m :: face_model
  assumes "3 \<le> length ws" "length ws \<le> 255"
  defines "t \<equiv> advance (chaos_model_transmits ws m)"
  shows "chaos_face_read_frame model_face 255 (chaos_model_transmits ws m) = (Frame ws, t)"
proof -
  have t: "settled t" "fm_tx_valid t" "fm_txlen t = of_nat (length ws)" "fm_tx t = ws @ drop (length ws) (fm_tx m)"
    by (simp_all add: t_def chaos_model_transmits_def)
  have n: "unat (of_nat (length ws) :: u32) = length ws" using assms(2) by (simp add: unsigned_of_nat take_bit_nat_eq_self)
  have nz: "(of_nat (length ws) :: u32) \<noteq> 0" using n assms(1) by (metis not_numeral_le_zero unsigned_0)
  have "read_window model_face [0..<length ws] t = (map (\<lambda>k. fm_tx t ! k) [0..<length ws], t)"
    using t n assms(2) by (intro read_window_settled) auto
  moreover have "map (\<lambda>k. fm_tx t ! k) [0..<length ws] = ws"
    unfolding t(4) by (rule nth_equalityI) (auto simp: nth_append)
  ultimately have rw: "read_window model_face [0..<length ws] t = (ws, t)" by simp
  have r: "cf_read model_face (chaos_model_transmits ws m) 1 = (model_stat t, t)" "cf_read model_face t 3 = (of_nat (length ws), t)"
    using t by (simp_all add: model_face_def model_read_def model_val_def Let_def t_def [symmetric])
  show ?thesis
    using r rw n nz assms(1, 2) t(2) stat_bits(1) [of t] by (simp add: chaos_face_read_frame_def)
qed

lemma let_go_model:
  "settled t \<Longrightarrow> fm_tx_valid t \<Longrightarrow> chaos_face_let_go model_face False t =
   t\<lparr>fm_tx_valid := False, fm_txlen := 0, fm_irq := fm_irq t AND NOT 1, fm_takes := fm_takes t + 1\<rparr>"
  by (simp add: chaos_face_let_go_def model_face_def model_write_def model_ctl_def ctl_take_def Let_def bit_simps)

lemma take_model:
  fixes m :: face_model
  assumes "3 \<le> length ws" "length ws \<le> 255"
  defines "t \<equiv> advance (chaos_model_transmits ws m)"
  shows "chaos_face_take model_face 255 (chaos_model_transmits ws m) =
    (Frame ws, t\<lparr>fm_tx_valid := False, fm_txlen := 0, fm_irq := fm_irq t AND NOT 1, fm_takes := fm_takes t + 1\<rparr>)"
proof -
  have "settled t" "fm_tx_valid t" by (simp_all add: t_def chaos_model_transmits_def)
  then show ?thesis
    using read_frame_model [OF assms(1, 2), of m] let_go_model [of t] by (simp add: chaos_face_take_def t_def)
qed

section \<open>Properties\<close>

text \<open>
  A frame crosses the seam whole.  A frame of four words or more that one machine transmits is
  taken word for word, its transmitter is let go, and given to a machine that is listening and
  whose buffer is free it is stored word for word, neither half at fault.\<close>

theorem chaos_seam_carries:
  assumes "4 \<le> length ws" "length ws \<le> 255" "length (fm_rxwin b) = 256"
    and "\<not> fm_looped b" "fm_rx_armed b" "\<not> fm_rx_busy (advance b)"
  shows "\<exists>a' b'. chaos_face_take model_face 255 (chaos_model_transmits ws a) = (Frame ws, a') \<and>
    \<not> fm_tx_valid a' \<and> fm_takes a' = fm_takes a + 1 \<and> fm_faults a' = fm_faults a \<and>
    chaos_face_give model_face ws b = (Stored, b') \<and> fm_rx_busy b' \<and> fm_rx_words b' = length ws \<and>
    take (length ws) (fm_rx b') = ws \<and> fm_faults b' = fm_faults b"
  using take_model [of ws a] give_model [of b ws] assms by (simp add: chaos_model_transmits_def Let_def)

definition seam_frame :: "u16 list" where
  "seam_frame = chaos_packet_frame rfc_packet 1576 1568 255"

theorem chaos_seam_carries_witness:
  "\<exists>a' b'. chaos_face_take model_face 255 (chaos_model_transmits seam_frame chaos_model_init) = (Frame seam_frame, a') \<and>
    chaos_face_give model_face seam_frame chaos_model_init = (Stored, b') \<and> take (length seam_frame) (fm_rx b') = seam_frame"
proof -
  have "length seam_frame = 13"
    by (simp add: seam_frame_def chaos_packet_frame_def chaos_packet_words_def rfc_packet_def Let_def)
  then show ?thesis
    using chaos_seam_carries [of seam_frame chaos_model_init chaos_model_init] by (auto simp: chaos_model_init_def advance_def)
qed



end
