(* ===== verification/Chaos_Inject.thy ===== *)
theory Chaos_Inject
  imports Chaos_Face Run Chaos_Count
begin

text \<open>
  \<^verbatim>\<open>chaos_inject.h\<close> and \<^verbatim>\<open>chaos_inject.c\<close>: the retry at the machine's end of the cable, a ring of frames
  waiting for a turn at the machine's one buffer.  The lines said are left out.
\<close>

unbundle bit_operations_syntax

abbreviation (input) CHAOS_INJECT_OFFERS :: nat where "CHAOS_INJECT_OFFERS \<equiv> 3"
abbreviation (input) CHAOS_INJECT_QUEUE :: nat where "CHAOS_INJECT_QUEUE \<equiv> 64"
abbreviation (input) CHAOS_INJECT_WAIT_NS :: u64 where "CHAOS_INJECT_WAIT_NS \<equiv> 20000000"

text \<open>A slot is the words of its frame, as many as its \<^verbatim>\<open>n\<close>.\<close>

record chaos_inject =
  iq_q :: "u16 list list"
  iq_head :: nat
  iq_waiting :: nat
  iq_offers :: nat
  iq_refused_at :: u64
  iq_held :: bool
  iq_taken :: ulong
  iq_stored :: ulong
  iq_refused :: ulong
  iq_given_up :: ulong
  iq_broadcasts_lost :: ulong
  iq_no_room :: ulong

definition chaos_inject_init :: chaos_inject where
  "chaos_inject_init =
     \<lparr>iq_q = replicate CHAOS_INJECT_QUEUE [], iq_head = 0, iq_waiting = 0, iq_offers = 0, iq_refused_at = 0, iq_held = False,
      iq_taken = 0, iq_stored = 0, iq_refused = 0, iq_given_up = 0, iq_broadcasts_lost = 0, iq_no_room = 0\<rparr>"

definition commit :: "'m chaos_face \<Rightarrow> u16 list \<Rightarrow> chaos_inject \<Rightarrow> 'm \<Rightarrow> bool \<times> chaos_inject \<times> 'm" where
  "commit F words q m =
     (case chaos_face_give F words m of (r, m) \<Rightarrow>
        if r = Stored then (True, q\<lparr>iq_stored := bump (iq_stored q)\<rparr>, m)
        else (False, q\<lparr>iq_refused := bump (iq_refused q)\<rparr>, m))"

definition offer :: "'m chaos_face \<Rightarrow> u16 list \<Rightarrow> u64 \<Rightarrow> chaos_inject \<Rightarrow> 'm \<Rightarrow> bool \<times> chaos_inject \<times> 'm" where
  "offer F words now q m =
     (case chaos_face_rx_freed F m of (_, m) \<Rightarrow>
      case commit F words q m of (ok, q, m) \<Rightarrow>
        if ok then (True, q, m)
        else (False, q\<lparr>iq_refused_at := now, iq_held := True, iq_offers := iq_offers q + 1\<rparr>, m))"

definition broadcast :: "u16 list \<Rightarrow> bool" where
  "broadcast words \<longleftrightarrow> CHAOS_PKT_TRAILER_WORDS \<le> length words \<and> words ! (length words - CHAOS_PKT_TRAILER_WORDS) = 0"

definition inject_done :: "chaos_inject \<Rightarrow> chaos_inject" where
  "inject_done q =
     q\<lparr>iq_head := (iq_head q + 1) mod CHAOS_INJECT_QUEUE, iq_waiting := iq_waiting q - 1, iq_offers := 0, iq_held := False,
       iq_refused_at := 0\<rparr>"

definition put :: "nat \<Rightarrow> u16 list \<Rightarrow> chaos_inject \<Rightarrow> chaos_inject" where
  "put slot words q = q\<lparr>iq_q := (iq_q q)[slot := words]\<rparr>"

definition chaos_inject_give :: "'m chaos_face \<Rightarrow> u16 list \<Rightarrow> u64 \<Rightarrow> chaos_inject \<Rightarrow> 'm \<Rightarrow> chaos_inject \<times> 'm" where
  "chaos_inject_give F words now q m =
     (if CHAOS_MAX_WORDS < length words then (case chaos_face_give F words m of (_, m) \<Rightarrow> (q, m))
      else let q = q\<lparr>iq_taken := bump (iq_taken q)\<rparr>
        in if broadcast words then
             (case commit F words q m of (ok, q, m) \<Rightarrow>
                (if ok then q else q\<lparr>iq_broadcasts_lost := bump (iq_broadcasts_lost q)\<rparr>, m))
           else if iq_waiting q = 0 then
             (case offer F words now q m of (ok, q, m) \<Rightarrow>
                if ok then (q, m) else ((put (iq_head q) words q)\<lparr>iq_waiting := 1\<rparr>, m))
           else if iq_waiting q = CHAOS_INJECT_QUEUE then (q\<lparr>iq_no_room := bump (iq_no_room q)\<rparr>, m)
           else ((put ((iq_head q + iq_waiting q) mod CHAOS_INJECT_QUEUE) words q)\<lparr>iq_waiting := iq_waiting q + 1\<rparr>, m))"

text \<open>Whether anything moved.\<close>

definition chaos_inject_pump :: "'m chaos_face \<Rightarrow> u64 \<Rightarrow> chaos_inject \<Rightarrow> 'm \<Rightarrow> bool \<times> chaos_inject \<times> 'm" where
  "chaos_inject_pump F now q m =
     (if iq_waiting q = 0 then (False, q, m)
      else case (if iq_held q then
                   (case chaos_face_rx_freed F m of (freed, m) \<Rightarrow>
                      (freed \<or> \<not> now - iq_refused_at q < CHAOS_INJECT_WAIT_NS, m))
                 else (True, m)) of (turn, m) \<Rightarrow>
        if \<not> turn then (False, q, m)
        else case offer F (iq_q q ! iq_head q) now q m of (ok, q, m) \<Rightarrow>
          if ok then (True, inject_done q, m)
          else if CHAOS_INJECT_OFFERS \<le> iq_offers q then
            (True, inject_done (q\<lparr>iq_given_up := bump (iq_given_up q)\<rparr>), m)
          else (True, q, m))"

section \<open>The ring\<close>

definition by_name :: "u16 list \<Rightarrow> bool" where
  "by_name ws \<longleftrightarrow> length ws \<le> CHAOS_MAX_WORDS \<and> \<not> broadcast ws"

definition queue :: "chaos_inject \<Rightarrow> u16 list list" where
  "queue q = map (\<lambda>i. iq_q q ! ((iq_head q + i) mod CHAOS_INJECT_QUEUE)) [0..<iq_waiting q]"

definition inject_ok :: "chaos_inject \<Rightarrow> bool" where
  "inject_ok q \<longleftrightarrow> length (iq_q q) = CHAOS_INJECT_QUEUE \<and> iq_head q < CHAOS_INJECT_QUEUE \<and> iq_waiting q \<le> CHAOS_INJECT_QUEUE \<and>
     iq_offers q < CHAOS_INJECT_OFFERS \<and> (iq_held q \<longleftrightarrow> 0 < iq_offers q) \<and> (iq_waiting q = 0 \<longrightarrow> iq_offers q = 0) \<and>
     list_all by_name (queue q)"

text \<open>The counts close: every frame taken is stored, given up, lost, without room or waiting.\<close>

definition inject_accounts :: "chaos_inject \<Rightarrow> bool" where
  "inject_accounts q \<longleftrightarrow> unat (iq_taken q) < ULONG_MAX \<longrightarrow>
     unat (iq_taken q) = unat (iq_stored q) + unat (iq_given_up q) + unat (iq_broadcasts_lost q) + unat (iq_no_room q) + iq_waiting q"

lemma length_queue [simp]: "length (queue q) = iq_waiting q"
  by (simp add: queue_def)

lemma queue_fields:
  "queue (q\<lparr>iq_taken := a\<rparr>) = queue q" "queue (q\<lparr>iq_stored := a\<rparr>) = queue q" "queue (q\<lparr>iq_refused := a\<rparr>) = queue q"
  "queue (q\<lparr>iq_given_up := a\<rparr>) = queue q" "queue (q\<lparr>iq_broadcasts_lost := a\<rparr>) = queue q" "queue (q\<lparr>iq_no_room := a\<rparr>) = queue q"
  "queue (q\<lparr>iq_refused_at := t\<rparr>) = queue q" "queue (q\<lparr>iq_held := h\<rparr>) = queue q" "queue (q\<lparr>iq_offers := n\<rparr>) = queue q"
  by (simp_all add: queue_def)

lemma commit_cases:
  assumes "commit F ws q m = (ok, q', m')"
  obtains "ok" "q' = q\<lparr>iq_stored := bump (iq_stored q)\<rparr>" | "\<not> ok" "q' = q\<lparr>iq_refused := bump (iq_refused q)\<rparr>"
  using assms by (auto simp: commit_def split: prod.splits if_splits)

lemma offer_cases:
  assumes "offer F ws now q m = (ok, q', m')"
  obtains (stored) "ok" "q' = q\<lparr>iq_stored := bump (iq_stored q)\<rparr>"
    | (refused) "\<not> ok" "q' = q\<lparr>iq_refused := bump (iq_refused q), iq_refused_at := now, iq_held := True, iq_offers := iq_offers q + 1\<rparr>"
proof -
  obtain b m1 where r: "chaos_face_rx_freed F m = (b, m1)" by (cases "chaos_face_rx_freed F m")
  obtain c q1 m2 where k: "commit F ws q m1 = (c, q1, m2)" by (cases "commit F ws q m1") auto
  from k show ?thesis
    by (cases rule: commit_cases) (use assms r k stored refused in \<open>auto simp: offer_def\<close>)
qed

lemma queue_done:
  assumes "iq_waiting q \<noteq> 0"
  shows "queue (inject_done q) = tl (queue q)"
proof (rule nth_equalityI)
  fix i assume "i < length (queue (inject_done q))"
  then have i: "Suc i < iq_waiting q" "i < iq_waiting q - 1" by (simp_all add: inject_done_def)
  have "((iq_head q + 1) mod 64 + i) mod 64 = (iq_head q + Suc i) mod 64" by (simp add: mod_add_left_eq)
  then show "queue (inject_done q) ! i = tl (queue q) ! i"
    using i by (simp add: queue_def inject_done_def nth_tl)
qed (simp add: inject_done_def)

lemma queue_put:
  assumes "inject_ok q" "iq_waiting q < CHAOS_INJECT_QUEUE"
  shows "queue ((put ((iq_head q + iq_waiting q) mod CHAOS_INJECT_QUEUE) ws q)\<lparr>iq_waiting := iq_waiting q + 1\<rparr>) = queue q @ [ws]"
proof (rule nth_equalityI)
  let ?k = "(iq_head q + iq_waiting q) mod 64"
  fix i assume "i < length (queue ((put ?k ws q)\<lparr>iq_waiting := iq_waiting q + 1\<rparr>))"
  then have i: "i \<le> iq_waiting q" by simp
  have l: "?k < length (iq_q q)" using assms(1) by (simp add: inject_ok_def)
  have ne: "(iq_head q + i) mod 64 \<noteq> ?k" if "i < iq_waiting q"
  proof
    assume "(iq_head q + i) mod 64 = ?k"
    then have "(iq_waiting q - i) mod 64 = 0"
      using that by (metis add_diff_cancel_left less_imp_le mod_eq_dvd_iff_nat nat_add_left_cancel_le mod_0_imp_dvd dvd_imp_mod_0)
    then show False using that assms(2) by simp
  qed
  show "queue ((put ?k ws q)\<lparr>iq_waiting := iq_waiting q + 1\<rparr>) ! i = (queue q @ [ws]) ! i"
    using i l ne by (cases "i = iq_waiting q") (auto simp: queue_def put_def nth_append)
qed simp

text \<open>What a frame given does to the ring, in full.\<close>

lemma give_cases:
  assumes "chaos_inject_give F ws now q m = (q', m')" "inject_ok q"
  obtains (too_long) "CHAOS_MAX_WORDS < length ws" "q' = q"
    | (stored) "length ws \<le> CHAOS_MAX_WORDS" "queue q' = queue q" "iq_waiting q' = iq_waiting q"
        "q' = q\<lparr>iq_taken := bump (iq_taken q), iq_stored := bump (iq_stored q)\<rparr>"
    | (lost) "broadcast ws" "length ws \<le> CHAOS_MAX_WORDS" "queue q' = queue q"
        "q' = q\<lparr>iq_taken := bump (iq_taken q), iq_refused := bump (iq_refused q), iq_broadcasts_lost := bump (iq_broadcasts_lost q)\<rparr>"
    | (held) "by_name ws" "iq_waiting q = 0" "queue q' = [ws]" "q' = q\<lparr>iq_taken := bump (iq_taken q), iq_refused := bump (iq_refused q),
        iq_refused_at := now, iq_held := True, iq_offers := 1, iq_q := (iq_q q)[iq_head q := ws], iq_waiting := 1\<rparr>"
    | (waits) "by_name ws" "iq_waiting q \<noteq> 0" "iq_waiting q < CHAOS_INJECT_QUEUE" "queue q' = queue q @ [ws]"
        "q' = q\<lparr>iq_taken := bump (iq_taken q),
        iq_q := (iq_q q)[(iq_head q + iq_waiting q) mod CHAOS_INJECT_QUEUE := ws], iq_waiting := iq_waiting q + 1\<rparr>"
    | (no_room) "by_name ws" "iq_waiting q = CHAOS_INJECT_QUEUE" "queue q' = queue q"
        "q' = q\<lparr>iq_taken := bump (iq_taken q), iq_no_room := bump (iq_no_room q)\<rparr>"
proof -
  let ?q = "q\<lparr>iq_taken := bump (iq_taken q)\<rparr>"
  have okq: "inject_ok ?q" using assms(2) by (simp add: inject_ok_def queue_fields)
  have "255 < length ws \<or> length ws \<le> 255 \<and> broadcast ws \<or> by_name ws" by (auto simp: by_name_def)
  moreover have "iq_waiting q = 0 \<or> iq_waiting q = 64 \<or> iq_waiting q \<noteq> 0 \<and> iq_waiting q < 64" using assms(2) by (auto simp: inject_ok_def)
  ultimately consider "255 < length ws" | "length ws \<le> 255" "broadcast ws" | "by_name ws" "iq_waiting q = 0"
    | "by_name ws" "iq_waiting q = 64" | "by_name ws" "iq_waiting q \<noteq> 0" "iq_waiting q < 64"
    by (elim disjE conjE) simp_all
  then show ?thesis
  proof cases
    case 1
    then show ?thesis using assms(1) too_long by (auto simp: chaos_inject_give_def split: prod.splits)
  next
    case 2
    obtain ok q1 m1 where c: "commit F ws ?q m = (ok, q1, m1)" by (cases "commit F ws ?q m") auto
    have q': "q' = (if ok then q1 else q1\<lparr>iq_broadcasts_lost := bump (iq_broadcasts_lost q1)\<rparr>)"
      using assms(1) c 2 by (simp add: chaos_inject_give_def Let_def)
    from c show ?thesis
    proof (cases rule: commit_cases)
      case 1
      then show ?thesis using stored [OF 2(1)] q' by (simp add: queue_fields)
    next
      case r: 2
      then show ?thesis using lost [OF 2(2, 1)] q' by (simp add: queue_fields)
    qed
  next
    case 3
    obtain ok q1 m1 where c: "offer F ws now ?q m = (ok, q1, m1)" by (cases "offer F ws now ?q m") auto
    have b: "\<not> broadcast ws" "\<not> 255 < length ws" using 3(1) by (auto simp: by_name_def)
    from c show ?thesis
    proof (cases rule: offer_cases)
      case s: stored
      have "q' = q1" using assms(1) c s(1) b 3(2) by (simp add: chaos_inject_give_def Let_def)
      then show ?thesis using stored s(2) b by (simp add: queue_fields)
    next
      case r: refused
      have q': "q' = (put (iq_head q1) ws q1)\<lparr>iq_waiting := 1\<rparr>" using assms(1) c r(1) b 3(2) by (simp add: chaos_inject_give_def Let_def)
      have h: "iq_head q1 < length (iq_q q1)" "iq_offers q = 0" "iq_head q1 < 64" "length (iq_q q1) = 64"
        using assms(2) 3(2) r(2) by (auto simp: inject_ok_def)
      have "queue q' = [ws]" unfolding q' using h by (simp add: queue_def put_def)
      then show ?thesis using held [OF 3] q' r(2) h by (auto simp: put_def)
    qed
  next
    case 4
    then have "q' = q\<lparr>iq_taken := bump (iq_taken q), iq_no_room := bump (iq_no_room q)\<rparr>"
      using assms(1) by (simp add: chaos_inject_give_def Let_def by_name_def)
    then show ?thesis using no_room [OF 4] by (simp add: queue_fields)
  next
    case 5
    have "q' = (put ((iq_head ?q + iq_waiting ?q) mod 64) ws ?q)\<lparr>iq_waiting := iq_waiting ?q + 1\<rparr>"
      using assms(1) 5 by (simp add: chaos_inject_give_def Let_def by_name_def)
    moreover from this have "queue q' = queue q @ [ws]" using queue_put [OF okq, of ws] 5(3) by (simp add: queue_fields)
    ultimately show ?thesis using waits [OF 5] assms(2) by (auto simp: put_def inject_ok_def)
  qed
qed

lemma pump_cases:
  assumes "chaos_inject_pump F now q m = (moved, q', m')" "inject_ok q"
  obtains (idle) "\<not> moved" "q' = q" "iq_waiting q = 0 \<or> iq_held q \<and> now - iq_refused_at q < CHAOS_INJECT_WAIT_NS"
    | (stored) "moved" "iq_waiting q \<noteq> 0" "q' = inject_done (q\<lparr>iq_stored := bump (iq_stored q)\<rparr>)"
    | (again) "moved" "iq_waiting q \<noteq> 0" "iq_offers q + 1 < CHAOS_INJECT_OFFERS" "q' = q\<lparr>iq_refused := bump (iq_refused q), iq_refused_at := now,
        iq_held := True, iq_offers := iq_offers q + 1\<rparr>"
    | (given_up) "moved" "iq_waiting q \<noteq> 0" "iq_offers q = 2" "q' = inject_done (q\<lparr>iq_refused := bump (iq_refused q), iq_refused_at := now,
        iq_held := True, iq_offers := 3, iq_given_up := bump (iq_given_up q)\<rparr>)"
proof (cases "iq_waiting q = 0")
  case True
  then show ?thesis using assms(1) idle by (simp add: chaos_inject_pump_def)
next
  case False
  obtain turn m1 where t: "(if iq_held q then (case chaos_face_rx_freed F m of (freed, m) \<Rightarrow>
      (freed \<or> \<not> now - iq_refused_at q < CHAOS_INJECT_WAIT_NS, m)) else (True, m)) = (turn, m1)" by fastforce
  show ?thesis
  proof (cases turn)
    case False
    then have "iq_held q \<and> now - iq_refused_at q < CHAOS_INJECT_WAIT_NS" using t by (auto split: if_splits prod.splits)
    then show ?thesis using idle assms(1) False t \<open>iq_waiting q \<noteq> 0\<close> by (simp add: chaos_inject_pump_def)
  next
    case True
    obtain ok q1 m2 where o: "offer F (iq_q q ! iq_head q) now q m1 = (ok, q1, m2)" by (cases "offer F (iq_q q ! iq_head q) now q m1") auto
    have p: "(moved, q', m') = (if ok then (True, inject_done q1, m2)
        else if 3 \<le> iq_offers q1 then (True, inject_done (q1\<lparr>iq_given_up := bump (iq_given_up q1)\<rparr>), m2) else (True, q1, m2))"
      using assms(1) t True o \<open>iq_waiting q \<noteq> 0\<close> by (simp add: chaos_inject_pump_def)
    have lt: "iq_offers q < 3" using assms(2) by (simp add: inject_ok_def)
    from o show ?thesis
    proof (cases rule: offer_cases)
      case s: stored
      then show ?thesis using p stored \<open>iq_waiting q \<noteq> 0\<close> by simp
    next
      case r: refused
      show ?thesis
      proof (cases "iq_offers q = 2")
        case True
        then show ?thesis using p r given_up \<open>iq_waiting q \<noteq> 0\<close> by simp
      next
        case False
        then show ?thesis using p r again lt \<open>iq_waiting q \<noteq> 0\<close> by simp
      qed
    qed
  qed
qed

section \<open>The ring and its counts are kept\<close>

lemma give_ok:
  assumes "chaos_inject_give F ws now q m = (q', m')" "inject_ok q"
  shows "inject_ok q'"
  using assms
proof (cases rule: give_cases)
  case held
  then show ?thesis using assms(2) by (auto simp: inject_ok_def)
next
  case waits
  then show ?thesis using assms(2) by (auto simp: inject_ok_def)
qed (use assms(2) in \<open>auto simp: inject_ok_def queue_fields\<close>)

lemma done_ok:
  assumes "length (iq_q q) = 64" "iq_waiting q \<noteq> 0" "iq_waiting q \<le> 64" "list_all by_name (queue q)"
  shows "inject_ok (inject_done q)"
proof -
  have "list_all by_name (tl (queue q))" using assms(4) by (cases "queue q") auto
  then show ?thesis using assms queue_done [OF assms(2)] by (simp add: inject_ok_def) (simp add: inject_done_def)
qed

lemma pump_ok:
  assumes "chaos_inject_pump F now q m = (moved, q', m')" "inject_ok q"
  shows "inject_ok q'"
  using assms
proof (cases rule: pump_cases)
  case stored
  then show ?thesis using assms(2) by (simp only: inject_ok_def [of q]) (rule done_ok; auto simp: inject_ok_def queue_fields)
next
  case given_up
  then show ?thesis using assms(2) by (simp only: inject_ok_def [of q]) (rule done_ok; auto simp: inject_ok_def queue_fields)
qed (use assms(2) in \<open>auto simp: inject_ok_def queue_fields\<close>)

lemma give_accounts:
  assumes "chaos_inject_give F ws now q m = (q', m')" "inject_ok q" "inject_accounts q"
  shows "inject_accounts q'"
  using assms(1, 2)
proof (cases rule: give_cases)
  case too_long
  then show ?thesis using assms(3) by simp
next
  case held
  then show ?thesis using assms(3) by (auto simp: inject_accounts_def unat_bump min_def split: if_splits)
next
  case waits
  then show ?thesis using assms(3) by (auto simp: inject_accounts_def unat_bump min_def split: if_splits)
qed (use assms(3) in \<open>auto simp: inject_accounts_def unat_bump min_def split: if_splits\<close>)

lemma pump_accounts:
  assumes "chaos_inject_pump F now q m = (moved, q', m')" "inject_ok q" "inject_accounts q"
  shows "inject_accounts q'"
  using assms(1, 2)
  by (cases rule: pump_cases)
    (use assms(3) in \<open>auto simp: inject_accounts_def inject_done_def unat_bump min_def split: if_splits\<close>)

end
