(* ===== verification/Chaos_Inject_Props.thy ===== *)
theory Chaos_Inject_Props
  imports Chaos_Inject
begin

text \<open>
  What the retry promises: its counts close in every run, no frame waits for ever whatever the
  machine does, and a burst reaches a machine that empties its buffer whole and in order.
\<close>

unbundle bit_operations_syntax

section \<open>Every run\<close>

inductive inject_step :: "'m chaos_face \<Rightarrow> chaos_inject \<times> 'm \<Rightarrow> chaos_inject \<times> 'm \<Rightarrow> bool" for F where
  inject_gives: "chaos_inject_give F ws now q m = (q', m') \<Longrightarrow> inject_step F (q, m) (q', m')"
| inject_pumps: "chaos_inject_pump F now q m = (moved, q', m') \<Longrightarrow> inject_step F (q, m) (q', m')"
| inject_machine: "inject_step F (q, m) (q, m')"

inductive_cases inject_stepE: "inject_step F s t"

definition inject_starts :: "chaos_inject \<times> 'm \<Rightarrow> bool" where
  "inject_starts s \<longleftrightarrow> fst s = chaos_inject_init"

definition inject_inv :: "chaos_inject \<times> 'm \<Rightarrow> bool" where
  "inject_inv s \<longleftrightarrow> inject_ok (fst s) \<and> inject_accounts (fst s)"

interpretation inject: kept inject_starts "inject_step F" inject_inv for F :: "'m chaos_face"
proof
  fix s :: "chaos_inject \<times> 'm" assume "inject_starts s"
  then show "inject_inv s"
    by (simp add: inject_starts_def inject_inv_def chaos_inject_init_def inject_ok_def inject_accounts_def queue_def)
next
  fix s s' :: "chaos_inject \<times> 'm" assume "inject_step F s s'" "inject_inv s"
  then show "inject_inv s'"
    by (auto simp: inject_inv_def elim!: inject_stepE intro: give_ok give_accounts pump_ok pump_accounts)
qed

section \<open>No frame waits for ever\<close>

fun pumps :: "'m chaos_face \<Rightarrow> (u64 \<times> ('m \<Rightarrow> 'm)) list \<Rightarrow> chaos_inject \<Rightarrow> 'm \<Rightarrow> chaos_inject \<times> 'm" where
  "pumps F [] q m = (q, m)"
| "pumps F ((now, machine) # ts) q m =
     (case chaos_inject_pump F now q (machine m) of (_, q, m) \<Rightarrow> pumps F ts q m)"

fun timely :: "u64 \<Rightarrow> u64 list \<Rightarrow> bool" where
  "timely t [] = True"
| "timely t (u # us) = (CHAOS_INJECT_WAIT_NS \<le> u - t \<and> timely u us)"

definition offers_left :: "chaos_inject \<Rightarrow> nat" where
  "offers_left q = CHAOS_INJECT_OFFERS * iq_waiting q - iq_offers q"

lemma offers_left_0: "inject_ok q \<Longrightarrow> offers_left q = 0 \<longleftrightarrow> iq_waiting q = 0"
  by (auto simp: offers_left_def inject_ok_def)

lemma pump_timely:
  assumes "chaos_inject_pump F now q m = (moved, q', m')" "inject_ok q" "iq_waiting q \<noteq> 0"
    and "iq_held q \<Longrightarrow> CHAOS_INJECT_WAIT_NS \<le> now - iq_refused_at q"
  shows "offers_left q' < offers_left q \<and> (iq_held q' \<longrightarrow> iq_refused_at q' = now)"
  using assms(1, 2)
proof (cases rule: pump_cases)
  case idle
  then show ?thesis using assms(3, 4) by (auto simp: not_less [symmetric])
next
  case stored
  then show ?thesis using assms(2) by (auto simp: offers_left_def inject_done_def inject_ok_def)
next
  case again
  then show ?thesis by (auto simp: offers_left_def)
next
  case given_up
  then show ?thesis by (auto simp: offers_left_def inject_done_def)
qed

lemma pumps_drain:
  "inject_ok q \<Longrightarrow> (iq_held q \<longrightarrow> iq_refused_at q = t) \<Longrightarrow> timely t (map fst ts) \<Longrightarrow> offers_left q \<le> length ts \<Longrightarrow>
   iq_waiting (fst (pumps F ts q m)) = 0"
proof (induction ts arbitrary: q m t)
  case Nil
  then show ?case using offers_left_0 by auto
next
  case (Cons x ts)
  obtain now machine where x: "x = (now, machine)" by (cases x)
  obtain moved q1 m1 where p: "chaos_inject_pump F now q (machine m) = (moved, q1, m1)"
    by (cases "chaos_inject_pump F now q (machine m)") auto
  have ok: "inject_ok q1" using pump_ok [OF p Cons.prems(1)] .
  have t: "timely now (map fst ts)" "20000000 \<le> now - t" using Cons.prems(3) x by simp_all
  have "iq_waiting (fst (pumps F ts q1 m1)) = 0"
  proof (cases "iq_waiting q = 0")
    case True
    then have "q1 = q" "\<not> iq_held q" using p Cons.prems(1) by (auto simp: chaos_inject_pump_def inject_ok_def)
    then show ?thesis using Cons.IH [of q1 now] ok t offers_left_0 [OF ok] True by simp
  next
    case False
    have "offers_left q1 < offers_left q \<and> (iq_held q1 \<longrightarrow> iq_refused_at q1 = now)"
      using pump_timely [OF p Cons.prems(1) False] Cons.prems(2) t(2) by auto
    then show ?thesis using Cons.IH [of q1 now] ok t Cons.prems(4) by simp
  qed
  then show ?case using x p by simp
qed

section \<open>A burst through the model of the fabric\<close>

definition ready :: "face_model \<Rightarrow> bool" where
  "ready m \<longleftrightarrow> length (fm_rxwin m) = 256 \<and> fm_rx_armed m \<and> \<not> fm_looped m \<and> fm_service_ns m = 0"

text \<open>What the machine will read out of its buffer.\<close>

definition holding :: "face_model \<Rightarrow> u16 list \<Rightarrow> bool" where
  "holding m ws \<longleftrightarrow> ready m \<and> fm_rx_busy m \<and> take (fm_rx_words m) (fm_rx m) = ws"

lemma advance_ready: "ready m \<Longrightarrow> advance m = m"
  by (simp add: ready_def advance_def)

lemma rx_freed_ready:
  assumes "ready m"
  shows "chaos_face_rx_freed model_face m =
    (if bit (fm_irq m) 1 then (True, m\<lparr>fm_irq := fm_irq m AND NOT 2\<rparr>) else (False, m))"
  using advance_ready [OF assms]
  by (simp add: chaos_face_rx_freed_def model_face_def model_read_def model_val_def model_write_def Let_def)

lemma offer_free:
  assumes "ready m" "\<not> fm_rx_busy m" "4 \<le> length ws" "length ws \<le> 255"
  shows "\<exists>m'. offer model_face ws now q m = (True, q\<lparr>iq_stored := bump (iq_stored q)\<rparr>, m') \<and> holding m' ws"
proof -
  obtain f m1 where r: "chaos_face_rx_freed model_face m = (f, m1)" by (cases "chaos_face_rx_freed model_face m")
  then have m1: "ready m1" "\<not> fm_rx_busy m1" using rx_freed_ready [OF assms(1)] assms(1, 2) by (auto simp: ready_def split: if_splits)
  then have "\<exists>m'. chaos_face_give model_face ws m1 = (Stored, m') \<and> holding m' ws"
    using give_model [of m1 ws] assms(3, 4) advance_ready [OF m1(1)] by (auto simp: ready_def Let_def holding_def)
  then show ?thesis using r by (auto simp: offer_def commit_def)
qed

lemma offer_busy:
  assumes "holding m f" "4 \<le> length ws" "length ws \<le> 255"
  shows "\<exists>m' q'. offer model_face ws now q m = (False, q', m') \<and> holding m' f"
proof -
  have m: "ready m" "fm_rx_busy m" using assms(1) by (simp_all add: holding_def)
  obtain g m1 where r: "chaos_face_rx_freed model_face m = (g, m1)" by (cases "chaos_face_rx_freed model_face m")
  then have m1: "holding m1 f" "ready m1" "fm_rx_busy m1"
    using rx_freed_ready [OF m(1)] assms(1) by (auto simp: holding_def ready_def split: if_splits)
  then have "\<exists>m'. chaos_face_give model_face ws m1 = (Refused_now, m') \<and> holding m' f"
    using give_model [of m1 ws] assms(2, 3) advance_ready [OF m1(2)] by (auto simp: ready_def Let_def holding_def)
  then show ?thesis using r by (auto simp: offer_def commit_def)
qed

text \<open>A frame by name given while the buffer is full joins the end of the queue.\<close>

lemma give_busy:
  assumes "holding m f" "inject_ok q" "iq_waiting q < CHAOS_INJECT_QUEUE" "by_name ws" "4 \<le> length ws"
  shows "\<exists>q' m'. chaos_inject_give model_face ws now q m = (q', m') \<and> inject_ok q' \<and> holding m' f \<and> queue q' = queue q @ [ws] \<and>
    iq_given_up q' = iq_given_up q \<and> iq_no_room q' = iq_no_room q"
proof -
  let ?q = "q\<lparr>iq_taken := bump (iq_taken q)\<rparr>"
  have ws: "\<not> broadcast ws" "length ws \<le> 255" using assms(4) by (simp_all add: by_name_def)
  obtain q' m' where g: "chaos_inject_give model_face ws now q m = (q', m')" by (cases "chaos_inject_give model_face ws now q m")
  obtain m1 q1 where o: "offer model_face ws now ?q m = (False, q1, m1)" "holding m1 f"
    using offer_busy [OF assms(1, 5) ws(2)] by blast
  have h: "holding m' f"
    using g o ws assms(1, 3) by (cases "iq_waiting q = 0") (auto simp: chaos_inject_give_def Let_def)
  have ns: "iq_waiting q = 0 \<Longrightarrow> q' = (put (iq_head q1) ws q1)\<lparr>iq_waiting := 1\<rparr>"
    using g o(1) ws by (simp add: chaos_inject_give_def Let_def)
  from g assms(2) have "queue q' = queue q @ [ws] \<and> iq_given_up q' = iq_given_up q \<and> iq_no_room q' = iq_no_room q"
  proof (cases rule: give_cases)
    case stored
    show ?thesis
    proof (cases "iq_waiting q = 0")
      case True
      then show ?thesis using ns stored(3) by simp
    next
      case False
      then have "q' = (put ((iq_head q + iq_waiting q) mod 64) ws ?q)\<lparr>iq_waiting := iq_waiting q + 1\<rparr>"
        using g ws assms(3) by (simp add: chaos_inject_give_def Let_def)
      then show ?thesis using stored(3) by simp
    qed
  next
    case held
    then have "queue q = []" by (simp add: queue_def)
    then show ?thesis using held by simp
  qed (use ws assms(3) in auto)
  then show ?thesis using g h give_ok [OF g assms(2)] by blast
qed

lemma burst_waits:
  "holding m f \<Longrightarrow> inject_ok q \<Longrightarrow> iq_waiting q + length fs \<le> CHAOS_INJECT_QUEUE \<Longrightarrow>
   list_all (\<lambda>ws. by_name ws \<and> 4 \<le> length ws) fs \<Longrightarrow>
   \<exists>q' m'. fold (\<lambda>ws (q, m). chaos_inject_give model_face ws now q m) fs (q, m) = (q', m') \<and> inject_ok q' \<and> holding m' f \<and>
     queue q' = queue q @ fs \<and> iq_given_up q' = iq_given_up q \<and> iq_no_room q' = iq_no_room q"
proof (induction fs arbitrary: q m)
  case (Cons ws fs)
  have lt: "iq_waiting q < 64" using Cons.prems(3) by simp
  obtain q1 m1 where g: "chaos_inject_give model_face ws now q m = (q1, m1)" "inject_ok q1" "holding m1 f" "queue q1 = queue q @ [ws]"
      "iq_given_up q1 = iq_given_up q" "iq_no_room q1 = iq_no_room q"
    using give_busy [OF Cons.prems(1, 2) lt, of ws now] Cons.prems(4) by auto
  have "iq_waiting q1 = iq_waiting q + 1" using arg_cong [OF g(4), of length] by simp
  then have "iq_waiting q1 + length fs \<le> 64" "list_all (\<lambda>ws. by_name ws \<and> 4 \<le> length ws) fs" using Cons.prems by simp_all
  from Cons.IH [OF g(3, 2) this] show ?case using g by auto
qed auto

fun drain_turns :: "u64 list \<Rightarrow> chaos_inject \<Rightarrow> face_model \<Rightarrow> u16 list list \<times> chaos_inject \<times> face_model" where
  "drain_turns [] q m = ([], q, m)"
| "drain_turns (now # ts) q m =
     (case chaos_inject_pump model_face now q (chaos_model_drains m) of (_, q', m') \<Rightarrow>
      case drain_turns ts q' m' of (got, r) \<Rightarrow> (take (fm_rx_words m) (fm_rx m) # got, r))"

lemma pump_drained:
  assumes "holding m f" "inject_ok q" "queue q = ws # fs" "4 \<le> length ws"
  shows "\<exists>q' m'. chaos_inject_pump model_face now q (chaos_model_drains m) = (True, q', m') \<and> inject_ok q' \<and> holding m' ws \<and>
    queue q' = fs \<and> iq_given_up q' = iq_given_up q \<and> iq_no_room q' = iq_no_room q"
proof -
  let ?m = "chaos_model_drains m" and ?q = "q\<lparr>iq_stored := bump (iq_stored q)\<rparr>"
  have w: "iq_waiting q \<noteq> 0" using arg_cong [OF assms(3), of length] by simp
  have head: "iq_q q ! iq_head q = ws"
  proof -
    have "queue q ! 0 = iq_q q ! (iq_head q mod 64)" using w by (simp add: queue_def)
    then show ?thesis using assms(2, 3) by (simp add: inject_ok_def)
  qed
  have ws: "length ws \<le> 255" using assms(2, 3) by (simp add: inject_ok_def by_name_def)
  have m: "ready ?m" "\<not> fm_rx_busy ?m" "bit (fm_irq ?m) 1"
    using assms(1) by (auto simp: holding_def ready_def chaos_model_drains_def bit_simps)
  define m1 where "m1 = (if iq_held q then ?m\<lparr>fm_irq := fm_irq ?m AND NOT 2\<rparr> else ?m)"
  have m1: "ready m1" "\<not> fm_rx_busy m1" using m by (simp_all add: m1_def ready_def)
  obtain m2 where o: "offer model_face ws now q m1 = (True, ?q, m2)" "holding m2 ws"
    using offer_free [OF m1 assms(4) ws] by blast
  have "chaos_inject_pump model_face now q ?m = (True, inject_done ?q, m2)"
    using w o(1) rx_freed_ready [OF m(1)] m(3) head by (simp add: chaos_inject_pump_def m1_def split: if_splits)
  moreover from this have "inject_ok (inject_done ?q)" by (rule pump_ok [OF _ assms(2)])
  moreover have "queue (inject_done ?q) = fs" using queue_done [of ?q] w assms(3) by (simp add: queue_fields)
  ultimately show ?thesis using o(2) by (auto simp: inject_done_def)
qed

lemma drain_all:
  "holding m f \<Longrightarrow> inject_ok q \<Longrightarrow> queue q = fs \<Longrightarrow> length ts = length fs + 1 \<Longrightarrow> list_all (\<lambda>ws. 4 \<le> length ws) fs \<Longrightarrow>
   \<exists>q' m'. drain_turns ts q m = (f # fs, q', m') \<and> iq_waiting q' = 0 \<and> iq_given_up q' = iq_given_up q \<and> iq_no_room q' = iq_no_room q"
proof (induction fs arbitrary: ts q m f)
  case Nil
  then obtain t where ts: "ts = [t]" by (cases ts) auto
  have "iq_waiting q = 0" using arg_cong [OF Nil.prems(3), of length] by simp
  then show ?case using Nil.prems(1) ts by (simp add: chaos_inject_pump_def holding_def)
next
  case (Cons ws fs)
  then obtain t ts' where ts: "ts = t # ts'" by (cases ts) auto
  have four: "4 \<le> length ws" using Cons.prems(5) by simp
  obtain q1 m1 where p: "chaos_inject_pump model_face t q (chaos_model_drains m) = (True, q1, m1)" "inject_ok q1" "holding m1 ws"
      "queue q1 = fs" "iq_given_up q1 = iq_given_up q" "iq_no_room q1 = iq_no_room q"
    using pump_drained [OF Cons.prems(1-3) four] by blast
  have "length ts' = length fs + 1" "list_all (\<lambda>ws. 4 \<le> length ws) fs" using Cons.prems(4, 5) ts by simp_all
  from Cons.IH [OF p(3, 2, 4) this] show ?case using ts p Cons.prems(1) by (auto simp: holding_def)
qed

text \<open>A machine whose buffer is full: one frame by name given to it.\<close>

definition full_model :: face_model where
  "full_model = chaos_model_init\<lparr>fm_rx_busy := True\<rparr>"

lemma one_held:
  obtains q m where "chaos_inject_give model_face (replicate 11 7) 5 chaos_inject_init full_model = (q, m)" "inject_ok q"
    "iq_waiting q = 1" "iq_taken q = 1" "iq_held q \<longrightarrow> iq_refused_at q = 5"
proof -
  let ?ws = "replicate 11 7 :: u16 list"
  have h: "holding full_model []" by (simp add: holding_def ready_def chaos_model_init_def full_model_def)
  have ok: "inject_ok chaos_inject_init" by (simp add: inject_ok_def chaos_inject_init_def queue_def)
  have n: "by_name ?ws" "4 \<le> length ?ws" by (simp_all add: by_name_def broadcast_def)
  obtain q m where g: "chaos_inject_give model_face ?ws 5 chaos_inject_init full_model = (q, m)" "inject_ok q"
      "queue q = queue chaos_inject_init @ [?ws]"
    using give_busy [OF h ok _ n, where now = 5] by (auto simp: chaos_inject_init_def)
  have w: "iq_waiting q = 1" using arg_cong [OF g(3), of length] by (simp add: chaos_inject_init_def)
  from g(1) ok have "iq_taken q = 1 \<and> (iq_held q \<longrightarrow> iq_refused_at q = 5)"
    by (cases rule: give_cases) (use w n in \<open>auto simp: chaos_inject_init_def bump_def\<close>)
  then show ?thesis using that g w by blast
qed

section \<open>Properties\<close>

text \<open>
  The retry's counts close, in every state it reaches over any face and whatever the machine
  does between its calls.  Every frame taken for the machine has been stored, given up, lost as a
  broadcast, dropped for want of room or is waiting, until a count stands at its top; no more than
  the ring's slots wait, only frames by name, and the one at the head has had fewer than three
  offers and is held if and only if it has had one.\<close>

theorem inject_counts_close:
  assumes "reach inject_starts (inject_step F) (q, m)"
  shows "(unat (iq_taken q) < ULONG_MAX \<longrightarrow> unat (iq_taken q) = unat (iq_stored q) + unat (iq_given_up q) +
      unat (iq_broadcasts_lost q) + unat (iq_no_room q) + iq_waiting q) \<and>
    iq_waiting q \<le> CHAOS_INJECT_QUEUE \<and> list_all by_name (queue q) \<and>
    iq_offers q < CHAOS_INJECT_OFFERS \<and> (iq_held q \<longleftrightarrow> 0 < iq_offers q)"
  using inject.reach_inv [OF assms] by (simp add: inject_inv_def inject_ok_def inject_accounts_def)

theorem inject_counts_close_witness:
  "\<exists>q m. chaos_inject_give model_face (replicate 11 7) 5 chaos_inject_init full_model = (q, m) \<and>
     iq_waiting q = 1 \<and> unat (iq_stored q) + unat (iq_given_up q) + unat (iq_broadcasts_lost q) + unat (iq_no_room q) = 0"
proof -
  obtain q m where g: "chaos_inject_give model_face (replicate 11 7) 5 chaos_inject_init full_model = (q, m)"
      "iq_waiting q = 1" "iq_taken q = 1"
    by (rule one_held)
  have "reach inject_starts (inject_step model_face) (chaos_inject_init, full_model)"
    by (rule reach_init) (simp add: inject_starts_def)
  then have "reach inject_starts (inject_step model_face) (q, m)"
    by (rule reach_step) (rule inject_gives [OF g(1)])
  from inject_counts_close [OF this] show ?thesis using g by simp
qed

text \<open>
  C15. No frame waits for ever.  Over any face and whatever the machine does, turns that come at
  least the wait apart empty the queue within three for each frame waiting: each frame is offered
  three times at the most and then given up.\<close>

theorem inject_retires:
  assumes "inject_ok q" "iq_held q \<longrightarrow> iq_refused_at q = t" "timely t (map fst ts)"
    and "CHAOS_INJECT_OFFERS * iq_waiting q \<le> length ts"
  shows "iq_waiting (fst (pumps F ts q m)) = 0"
  using pumps_drain [OF assms(1-3)] assms(4) by (simp add: offers_left_def)

theorem inject_retires_witness:
  "\<exists>q m. chaos_inject_give model_face (replicate 11 7) 5 chaos_inject_init full_model = (q, m) \<and>
     iq_waiting q = 1 \<and> iq_waiting (fst (pumps model_face [(20000005, id), (40000005, id), (60000005, id)] q m)) = 0"
proof -
  obtain q m where g: "chaos_inject_give model_face (replicate 11 7) 5 chaos_inject_init full_model = (q, m)" "inject_ok q"
      "iq_waiting q = 1" "iq_held q \<longrightarrow> iq_refused_at q = 5"
    by (rule one_held)
  have "iq_waiting (fst (pumps model_face [(20000005, id), (40000005, id), (60000005, id)] q m)) = 0"
    by (rule inject_retires [OF g(2, 4)]) (use g(3) in simp_all)
  then show ?thesis using g by blast
qed

text \<open>
  C33. A burst arrives whole and in order.  Frames by name that arrive together at an idle machine
  that is listening, up to one more than the ring holds, are each read out of its buffer word for
  word, in the order they came and none twice, by a machine that empties its buffer once between
  any two turns; nothing is given up and nothing is dropped for want of room.\<close>

theorem inject_burst_arrives:
  assumes "fs \<noteq> []" "length fs \<le> CHAOS_INJECT_QUEUE + 1" "list_all (\<lambda>ws. by_name ws \<and> 4 \<le> length ws) fs"
    and "ready m" "\<not> fm_rx_busy m" "inject_ok q" "iq_waiting q = 0" "length ts = length fs"
  shows "\<exists>q1 m1 q2 m2. fold (\<lambda>ws (q, m). chaos_inject_give model_face ws now q m) fs (q, m) = (q1, m1) \<and>
    drain_turns ts q1 m1 = (fs, q2, m2) \<and> iq_waiting q2 = 0 \<and> iq_given_up q2 = iq_given_up q \<and> iq_no_room q2 = iq_no_room q"
proof -
  obtain ws fs' where fs: "fs = ws # fs'" using assms(1) by (cases fs) auto
  let ?q = "q\<lparr>iq_taken := bump (iq_taken q)\<rparr>"
  have ws: "\<not> broadcast ws" "length ws \<le> 255" "4 \<le> length ws" using assms(3) fs by (auto simp: by_name_def)
  obtain m0 where o: "offer model_face ws now ?q m = (True, ?q\<lparr>iq_stored := bump (iq_stored q)\<rparr>, m0)" "holding m0 ws"
    using offer_free [OF assms(4, 5) ws(3, 2), of now ?q] by auto
  let ?q0 = "?q\<lparr>iq_stored := bump (iq_stored q)\<rparr>"
  have g: "chaos_inject_give model_face ws now q m = (?q0, m0)"
    using o(1) ws assms(7) by (simp add: chaos_inject_give_def Let_def)
  have q0: "inject_ok ?q0" "queue ?q0 = []" using assms(6, 7) by (simp_all add: inject_ok_def queue_fields) (simp_all add: queue_def)
  have l: "iq_waiting ?q0 + length fs' \<le> 64" "list_all (\<lambda>ws. by_name ws \<and> 4 \<le> length ws) fs'" using assms(2, 3, 7) fs by simp_all
  obtain q1 m1 where b: "fold (\<lambda>ws (q, m). chaos_inject_give model_face ws now q m) fs' (?q0, m0) = (q1, m1)" "inject_ok q1"
      "holding m1 ws" "queue q1 = fs'" "iq_given_up q1 = iq_given_up q" "iq_no_room q1 = iq_no_room q"
    using burst_waits [OF o(2) q0(1) l, of now] q0(2) by auto
  have "list_all (\<lambda>ws. 4 \<le> length ws) fs'" using l(2) by (auto simp: list_all_iff)
  then obtain q2 m2 where "drain_turns ts q1 m1 = (ws # fs', q2, m2)" "iq_waiting q2 = 0" "iq_given_up q2 = iq_given_up q1"
      "iq_no_room q2 = iq_no_room q1"
    using drain_all [OF b(3, 2, 4), of ts] assms(8) fs by auto
  then show ?thesis using b g fs by auto
qed

theorem inject_burst_arrives_witness:
  "\<exists>q1 m1 q2 m2. fold (\<lambda>ws (q, m). chaos_inject_give model_face ws 0 q m) [replicate 11 1, replicate 11 2, replicate 11 3]
      (chaos_inject_init, chaos_model_init) = (q1, m1) \<and>
     drain_turns [1, 2, 3] q1 m1 = ([replicate 11 1, replicate 11 2, replicate 11 3], q2, m2) \<and> iq_waiting q2 = 0"
proof -
  have "inject_ok chaos_inject_init" by (simp add: inject_ok_def chaos_inject_init_def queue_def)
  then show ?thesis
    using inject_burst_arrives [of "[replicate 11 1, replicate 11 2, replicate 11 3]" chaos_model_init chaos_inject_init "[1, 2, 3]" 0]
    by (fastforce simp: by_name_def broadcast_def ready_def chaos_model_init_def chaos_inject_init_def)
qed

end
