(* ===== verification/Chaos_Daemon.thy ===== *)
theory Chaos_Daemon
  imports Chaos_Udp_Props Chaos_Inject_Props
begin

text \<open>
  \<^verbatim>\<open>cadr-chaosnet.c\<close>: the cable the machine's Chaosnet interface is plugged into.  The fabric's state is
  there when the program has a face, and the link when it has a cable; the network is the world
  the link's sends and receives act on.  The lines said, and the report, are left out.
\<close>

unbundle bit_operations_syntax

abbreviation (input) DRAIN :: nat where "DRAIN \<equiv> 64"

section \<open>An address\<close>

definition parse_address_main :: "string \<Rightarrow> u16 option" where
  "parse_address_main s =
     (case split_at (CHR '':'') s of
        Some (subnet, host) \<Rightarrow>
          (if subnet = [] \<or> 16 \<le> length subnet then None
           else case strtoul subnet 8 of (hi, left) \<Rightarrow>
             if left \<noteq> [] \<or> 0xFF < hi then None
             else case strtoul host 8 of (lo, left) \<Rightarrow>
               if left \<noteq> [] \<or> left = host \<or> 0xFF < lo then None
               else let a = push_bit 8 hi OR lo in if both_halves a then Some (ucast a) else None)
      | None \<Rightarrow>
          (case strtoul s 8 of (a, left) \<Rightarrow>
             if left \<noteq> [] \<or> left = s \<or> 0xFFFF < a then None else if both_halves a then Some (ucast a) else None))"

text \<open>Where \<^verbatim>\<open>--chaos-udp\<close> binds: the host, if one is named, and the port.\<close>

definition udp_endpoint :: "string option \<Rightarrow> string \<times> u16" where
  "udp_endpoint given =
     (case given of
        None \<Rightarrow> ([], CHUDP_PORT)
      | Some s \<Rightarrow>
          (case split_last (CHR '':'') s of
             Some (host, p) \<Rightarrow> (if length host < 128 then host else [], ucast (fst (strtoul p 10)))
           | None \<Rightarrow> ([], ucast (fst (strtoul s 10)))))"

section \<open>The ether\<close>

record 'm ether =
  et_face :: "'m option"
  et_udp :: "chudp option"
  et_inject :: chaos_inject
  et_machine :: u16
  et_now :: u64
  et_from_machine :: ulong
  et_from_udp :: ulong
  et_to_udp :: ulong
  et_no_route :: ulong
  et_bad_frame :: ulong
  et_own_taken :: ulong
  et_own_lost :: ulong
  et_own_aborted :: ulong

definition to_machine :: "'m chaos_face \<Rightarrow> u16 list \<Rightarrow> 'm ether \<Rightarrow> 'm ether" where
  "to_machine F words e =
     (case et_face e of
        None \<Rightarrow> e
      | Some m \<Rightarrow>
          (case chaos_inject_give F words (et_now e) (et_inject e) m of (q, m) \<Rightarrow> e\<lparr>et_inject := q, et_face := Some m\<rparr>))"

text \<open>The machine's own frame at its own receiver, and whether it was aborted.\<close>

definition hear_own :: "'m chaos_face \<Rightarrow> u16 list \<Rightarrow> 'm ether \<Rightarrow> bool \<times> 'm ether" where
  "hear_own F words e =
     (case et_face e of
        None \<Rightarrow> (False, e)
      | Some m \<Rightarrow>
          (case chaos_face_own_frame F words (et_machine e) m of (own, m) \<Rightarrow>
             let e = e\<lparr>et_face := Some m\<rparr>
             in if own = CHAOS_OWN_TAKEN then (False, e\<lparr>et_own_taken := et_own_taken e + 1\<rparr>)
                else if own = CHAOS_OWN_LOST \<or> own = CHAOS_OWN_ABORTED then
                  (let aborted = (own = CHAOS_OWN_ABORTED); e = e\<lparr>et_own_lost := et_own_lost e + 1\<rparr>
                   in (aborted, if aborted then e\<lparr>et_own_aborted := et_own_aborted e + 1\<rparr> else e))
                else (False, e)))"

datatype from_station = FROM_MACHINE | FROM_UDP

definition carry :: "'m chaos_face \<Rightarrow> 'w chudp_net \<Rightarrow> from_station \<Rightarrow> u16 list \<Rightarrow> u16 \<Rightarrow> 'm ether \<Rightarrow> 'w \<Rightarrow> bool \<times> 'm ether \<times> 'w" where
  "carry F N who words cable_dest e w =
     (let bc = (cable_dest = 0); mine = (cable_dest = et_machine e);
          e = (if (bc \<or> mine) \<and> who \<noteq> FROM_MACHINE then to_machine F words e else e);
          (aborted, e) = (if who = FROM_MACHINE then hear_own F words e else (False, e))
      in if \<not> bc \<and> mine then (aborted, e, w)
         else if who = FROM_UDP then (aborted, if \<not> bc then e\<lparr>et_no_route := et_no_route e + 1\<rparr> else e, w)
         else case et_udp e of
             None \<Rightarrow> (aborted, if \<not> bc then e\<lparr>et_no_route := et_no_route e + 1\<rparr> else e, w)
           | Some u \<Rightarrow>
               (case chudp_send N words cable_dest u w of (sent, u, w) \<Rightarrow>
                  let e = e\<lparr>et_udp := Some u\<rparr>
                  in (aborted,
                      case sent of
                        None \<Rightarrow> e
                      | Some n \<Rightarrow>
                          (if 0 < n then e\<lparr>et_to_udp := et_to_udp e + of_nat n\<rparr>
                           else if \<not> bc then e\<lparr>et_no_route := et_no_route e + 1\<rparr> else e), w)))"

definition from_udp :: "'m chaos_face \<Rightarrow> 'w chudp_net \<Rightarrow> u16 list \<Rightarrow> 'm ether \<Rightarrow> 'w \<Rightarrow> 'm ether \<times> 'w" where
  "from_udp F N words e w =
     (let e = e\<lparr>et_from_udp := et_from_udp e + 1\<rparr>; n = length words
      in if n < CHAOS_PKT_HEADER_WORDS + CHAOS_PKT_TRAILER_WORDS then (e\<lparr>et_bad_frame := et_bad_frame e + 1\<rparr>, w)
         else case carry F N FROM_UDP words (words ! (n - CHAOS_PKT_TRAILER_WORDS)) e w of (_, e, w) \<Rightarrow> (e, w))"

section \<open>A turn of the loop\<close>

definition let_machine_go :: "'m chaos_face \<Rightarrow> bool \<Rightarrow> 'm ether \<Rightarrow> 'm ether" where
  "let_machine_go F aborted e = e\<lparr>et_face := map_option (chaos_face_let_go F aborted) (et_face e)\<rparr>"

text \<open>What the machine transmitted, up to \<open>k\<close> frames of it; whether there was one.\<close>

fun from_machine :: "'m chaos_face \<Rightarrow> 'w chudp_net \<Rightarrow> nat \<Rightarrow> 'm ether \<Rightarrow> 'w \<Rightarrow> bool \<times> 'm ether \<times> 'w" where
  "from_machine F N 0 e w = (False, e, w)"
| "from_machine F N (Suc k) e w =
     (case et_face e of
        None \<Rightarrow> (False, e, w)
      | Some m \<Rightarrow>
          (case chaos_face_read_frame F CHAOS_MAX_WORDS m of
             (Frame words, m) \<Rightarrow>
               (let e = e\<lparr>et_face := Some m, et_from_machine := et_from_machine e + 1\<rparr>; n = length words;
                    (e, w) =
                      (if n < CHAOS_PKT_TRAILER_WORDS then
                         (let_machine_go F False (e\<lparr>et_bad_frame := et_bad_frame e + 1\<rparr>), w)
                       else case carry F N FROM_MACHINE words (words ! (n - CHAOS_PKT_TRAILER_WORDS)) e w of (aborted, e, w) \<Rightarrow>
                         (let_machine_go F aborted e, w));
                    (_, e, w) = from_machine F N k e w
                in (True, e, w))
           | (_, m) \<Rightarrow> (False, e\<lparr>et_face := Some m\<rparr>, w)))"

text \<open>What came in off the network.\<close>

definition off_network :: "'m chaos_face \<Rightarrow> 'w chudp_net \<Rightarrow> 'm ether \<Rightarrow> 'w \<Rightarrow> bool \<times> 'm ether \<times> 'w" where
  "off_network F N e w =
     (case et_udp e of
        None \<Rightarrow> (False, e, w)
      | Some u \<Rightarrow>
          (case chudp_poll N DRAIN (from_udp F N) u w e of (n, u, w, e) \<Rightarrow> (0 < n, e\<lparr>et_udp := Some u\<rparr>, w)))"

definition ether_turn :: "'m chaos_face \<Rightarrow> 'w chudp_net \<Rightarrow> u64 \<Rightarrow> 'm ether \<Rightarrow> 'w \<Rightarrow> bool \<times> 'm ether \<times> 'w" where
  "ether_turn F N now e w =
     (let (did1, e, w) = from_machine F N DRAIN (e\<lparr>et_now := now\<rparr>) w;
          (did2, e, w) = off_network F N e w
      in case et_face e of
           None \<Rightarrow> (did1 \<or> did2, e, w)
         | Some m \<Rightarrow>
             (case chaos_inject_pump F now (et_inject e) m of (did3, q, m) \<Rightarrow>
                (did1 \<or> did2 \<or> did3, e\<lparr>et_inject := q, et_face := Some m\<rparr>, w)))"

end
