(* ===== verification/Chaos_Daemon_Props.thy ===== *)
theory Chaos_Daemon_Props
  imports Chaos_Daemon
begin

text \<open>
  What the Chaosnet program promises as a whole: it is a leaf and no router, its counts close over
  any face and any network, and a frame one machine transmits is in the other's buffer a turn of
  each program later.
\<close>

unbundle bit_operations_syntax

section \<open>The two address parsers\<close>

lemma strtoul_left: "strtoul s b = (v, left) \<Longrightarrow> left = s \<Longrightarrow> v = 0"
proof -
  have d: "length (snd (digits_of b acc t)) \<le> length t" for acc t
    by (induction b acc t rule: digits_of.induct) auto
  have st: "length (snd (digits_of b 0 t)) < length t" if "starts_digit b t" for t
    using that d [of "0 * b + digit_value (hd t)" "tl t"] by (cases t) (auto simp: starts_digit_def)
  assume a: "strtoul s b = (v, left)" "left = s"
  define t where "t = dropWhile c_space s"
  define t1 where "t1 = (if t \<noteq> [] \<and> (hd t = CHR ''-'' \<or> hd t = CHR ''+'') then tl t else t)"
  define t2 where "t2 = (if b = 16 \<and> (take 2 t1 = ''0x'' \<or> take 2 t1 = ''0X'') \<and> starts_digit b (drop 2 t1) then drop 2 t1 else t1)"
  have len: "length t2 \<le> length s"
    using length_dropWhile_le [of c_space s] by (auto simp: t2_def t1_def t_def)
  show ?thesis
  proof (cases "starts_digit b t2")
    case True
    then have "length (snd (digits_of b 0 t2)) < length s" using st [OF True] len by simp
    moreover have "snd (strtoul s b) = snd (digits_of b 0 t2)"
      using True unfolding strtoul_def Let_def t_def [symmetric] t1_def [symmetric] t2_def [symmetric] by (simp split: prod.splits)
    ultimately show ?thesis using a by simp
  next
    case False
    then show ?thesis
      using a unfolding strtoul_def Let_def t_def [symmetric] t1_def [symmetric] t2_def [symmetric] by simp
  qed
qed

lemma both_halves_parts:
  assumes "hi \<le> 0xFF" "lo \<le> 0xFF" "hi = 0 \<or> lo = 0"
  shows "\<not> both_halves (push_bit 8 hi OR lo)"
proof -
  have m: "bit (0xFF :: ulong) n \<longleftrightarrow> n < 8" for n
  proof -
    have "(0xFF :: ulong) = mask 8" by (simp add: mask_eq_exp_minus_1)
    then show ?thesis by (simp only: bit_mask_iff possible_bit_word) auto
  qed
  have small: "\<not> bit lo n" if "8 \<le> n" for n
    using small_bits [of lo 8 n] assms(2) that by (simp add: word_le_nat_alt)
  consider "hi = 0" | "lo = 0" using assms(3) by blast
  then show ?thesis
  proof cases
    case 1
    have "drop_bit 8 lo = 0" by (rule bit_word_eqI) (auto simp: bit_simps small)
    then show ?thesis using 1 by (simp add: both_halves_def)
  next
    case 2
    have "push_bit 8 hi AND 0xFF = 0"
    proof (rule bit_word_eqI)
      fix n assume "n < LENGTH(32)"
      show "bit (push_bit 8 hi AND 0xFF) n = bit (0 :: ulong) n" unfolding bit_and_iff m by (auto simp: bit_simps)
    qed
    then show ?thesis using 2 by (simp add: both_halves_def)
  qed
qed

section \<open>A leaf and no router\<close>

lemma carry_in:
  "carry F N FROM_UDP words dest e w =
    (False, (let e = (if dest = 0 \<or> dest = et_machine e then to_machine F words e else e)
             in if dest \<noteq> 0 \<and> dest \<noteq> et_machine e then e\<lparr>et_no_route := et_no_route e + 1\<rparr> else e), w)"
proof -
  have "et_machine (to_machine F words e) = et_machine e" by (simp add: to_machine_def split: option.splits prod.splits)
  then show ?thesis by (simp add: carry_def Let_def)
qed

text \<open>What a frame off the network does, which is nothing to the network.\<close>

definition arrived :: "'m chaos_face \<Rightarrow> u16 list \<Rightarrow> 'm ether \<Rightarrow> 'm ether" where
  "arrived F words e =
     (let e = e\<lparr>et_from_udp := et_from_udp e + 1\<rparr>; dest = words ! (length words - 3)
      in if length words < 11 then e\<lparr>et_bad_frame := et_bad_frame e + 1\<rparr>
         else let e = (if dest = 0 \<or> dest = et_machine e then to_machine F words e else e)
           in if dest \<noteq> 0 \<and> dest \<noteq> et_machine e then e\<lparr>et_no_route := et_no_route e + 1\<rparr> else e)"

lemma from_udp_arrived: "from_udp F N words e w = (arrived F words e, w)"
  by (simp add: from_udp_def arrived_def carry_in Let_def)

lemma from_udp_fun: "from_udp F N = (\<lambda>words e w. (arrived F words e, w))"
  by (intro ext) (rule from_udp_arrived)

section \<open>Every run of the program\<close>

definition ether_ok :: "'m ether \<Rightarrow> bool" where
  "ether_ok e \<longleftrightarrow> inject_ok (et_inject e) \<and> inject_accounts (et_inject e) \<and>
     (case et_udp e of None \<Rightarrow> True | Some u \<Rightarrow> chudp_accounts u \<and> peers_ok u \<and> ud_local u = et_machine e)"

lemma ether_ok_fields [simp]:
  "ether_ok (e\<lparr>et_face := a\<rparr>) = ether_ok e" "ether_ok (e\<lparr>et_now := t\<rparr>) = ether_ok e"
  "ether_ok (e\<lparr>et_from_machine := n\<rparr>) = ether_ok e" "ether_ok (e\<lparr>et_from_udp := n\<rparr>) = ether_ok e"
  "ether_ok (e\<lparr>et_to_udp := n\<rparr>) = ether_ok e" "ether_ok (e\<lparr>et_no_route := n\<rparr>) = ether_ok e"
  "ether_ok (e\<lparr>et_bad_frame := n\<rparr>) = ether_ok e" "ether_ok (e\<lparr>et_own_taken := n\<rparr>) = ether_ok e"
  "ether_ok (e\<lparr>et_own_lost := n\<rparr>) = ether_ok e" "ether_ok (e\<lparr>et_own_aborted := n\<rparr>) = ether_ok e"
  by (simp_all add: ether_ok_def split: option.splits)

lemma to_machine_ok: "ether_ok e \<Longrightarrow> ether_ok (to_machine F ws e)"
  by (auto simp: ether_ok_def to_machine_def split: option.splits prod.splits intro: give_ok give_accounts)

lemma to_machine_keeps [simp]:
  "et_udp (to_machine F ws e) = et_udp e" "et_machine (to_machine F ws e) = et_machine e" "et_now (to_machine F ws e) = et_now e"
  by (simp_all add: to_machine_def split: option.splits prod.splits)

lemma arrived_ok: "ether_ok e \<Longrightarrow> ether_ok (arrived F ws e)"
  using to_machine_ok [of "e\<lparr>et_from_udp := et_from_udp e + 1\<rparr>" F ws] by (simp add: arrived_def Let_def)

lemma arrived_keeps [simp]: "et_udp (arrived F ws e) = et_udp e" "et_machine (arrived F ws e) = et_machine e"
  by (simp_all add: arrived_def Let_def)

lemma hear_own_ok: "hear_own F ws e = (a, e') \<Longrightarrow> ether_ok e \<Longrightarrow> ether_ok e' \<and> et_udp e' = et_udp e \<and> et_machine e' = et_machine e"
  by (auto simp: hear_own_def Let_def split: option.splits prod.splits if_splits)

lemma send_keeps:
  assumes "chudp_send N ws dest u w = (s, u', w')"
  shows "chudp_accounts u \<Longrightarrow> chudp_accounts u'" "peers_ok u \<Longrightarrow> peers_ok u'" "ud_local u' = ud_local u"
  using assms by (auto simp: chudp_send_def Let_def chudp_accounts_def peers_ok_def split: if_splits prod.splits option.splits)

lemma carry_ok:
  assumes "carry F N who ws dest e w = (a, e', w')" "ether_ok e"
  shows "ether_ok e'"
proof (cases who)
  case FROM_UDP
  then have "e' = (let e = (if dest = 0 \<or> dest = et_machine e then to_machine F ws e else e)
             in if dest \<noteq> 0 \<and> dest \<noteq> et_machine e then e\<lparr>et_no_route := et_no_route e + 1\<rparr> else e)"
    using assms(1) by (simp add: carry_in)
  then show ?thesis using assms(2) to_machine_ok [OF assms(2), of F ws] by (auto simp: Let_def)
next
  case FROM_MACHINE
  obtain b e1 where h: "hear_own F ws e = (b, e1)" by (cases "hear_own F ws e")
  note own = hear_own_ok [OF h assms(2)]
  show ?thesis
  proof (cases "et_udp e1")
    case None
    then show ?thesis using assms(1) FROM_MACHINE h own by (auto simp: carry_def Let_def split: if_splits)
  next
    case (Some u)
    obtain s u' w1 where c: "chudp_send N ws dest u w = (s, u', w1)" by (cases "chudp_send N ws dest u w") auto
    have "ether_ok (e1\<lparr>et_udp := Some u'\<rparr>)" using own Some send_keeps [OF c] by (simp add: ether_ok_def)
    then show ?thesis using assms(1) FROM_MACHINE h own Some c by (auto simp: carry_def Let_def split: if_splits option.splits)
  qed
qed

lemma from_machine_ok: "from_machine F N k e w = (d, e', w') \<Longrightarrow> ether_ok e \<Longrightarrow> ether_ok e'"
proof (induction k arbitrary: e w d e' w')
  case (Suc k)
  show ?case
  proof (cases "et_face e")
    case None
    then show ?thesis using Suc.prems by simp
  next
    case (Some m)
    obtain r m1 where f: "chaos_face_read_frame F 255 m = (r, m1)" by (cases "chaos_face_read_frame F 255 m")
    show ?thesis
    proof (cases r)
      case (Frame ws)
      let ?e = "e\<lparr>et_face := Some m1, et_from_machine := et_from_machine e + 1\<rparr>"
      have e: "ether_ok ?e" using Suc.prems(2) by simp
      obtain a e1 w1 where c: "carry F N FROM_MACHINE ws (ws ! (length ws - 3)) ?e w = (a, e1, w1)"
        by (cases "carry F N FROM_MACHINE ws (ws ! (length ws - 3)) ?e w") auto
      have e1: "ether_ok e1" by (rule carry_ok [OF c e])
      define e2 w2 where "e2 = (if length ws < 3 then let_machine_go F False (?e\<lparr>et_bad_frame := et_bad_frame ?e + 1\<rparr>) else let_machine_go F a e1)"
        and "w2 = (if length ws < 3 then w else w1)"
      have e2: "ether_ok e2" using e e1 by (simp add: e2_def let_machine_go_def)
      obtain d3 e3 w3 where r3: "from_machine F N k e2 w2 = (d3, e3, w3)" by (cases "from_machine F N k e2 w2") auto
      have "e' = e3"
        using Suc.prems(1) Some f Frame c r3 by (simp add: e2_def w2_def Let_def split: if_splits)
      then show ?thesis using Suc.IH [OF r3 e2] by simp
    qed (use Suc.prems Some f in auto)
  qed
qed simp

lemma fold_arrived_ok: "ether_ok e \<Longrightarrow> ether_ok (fold (arrived F) fs e) \<and> et_udp (fold (arrived F) fs e) = et_udp e \<and>
    et_machine (fold (arrived F) fs e) = et_machine e"
  by (induction fs arbitrary: e) (simp_all add: arrived_ok)

lemma off_network_ok: "off_network F N e w = (d, e', w') \<Longrightarrow> ether_ok e \<Longrightarrow> ether_ok e'"
proof -
  assume o: "off_network F N e w = (d, e', w')" and ok: "ether_ok e"
  show ?thesis
  proof (cases "et_udp e")
    case None
    then show ?thesis using o ok by (simp add: off_network_def)
  next
    case (Some u)
    obtain n u1 w1 e1 where p: "chudp_poll N 64 (from_udp F N) u w e = (n, u1, w1, e1)" by (cases "chudp_poll N 64 (from_udp F N) u w e") auto
    from poll_delivers [OF p [unfolded from_udp_fun]] obtain fs where "e1 = fold (arrived F) fs e" "link_kept u u1" by blast
    then show ?thesis using o p Some ok fold_arrived_ok [OF ok, of F fs]
      by (auto simp: off_network_def ether_ok_def link_kept_def peers_ok_def)
  qed
qed

lemma ether_turn_ok: "ether_turn F N now e w = (d, e', w') \<Longrightarrow> ether_ok e \<Longrightarrow> ether_ok e'"
proof -
  assume t: "ether_turn F N now e w = (d, e', w')" and ok: "ether_ok e"
  obtain d1 e1 w1 where 1: "from_machine F N 64 (e\<lparr>et_now := now\<rparr>) w = (d1, e1, w1)"
    by (cases "from_machine F N 64 (e\<lparr>et_now := now\<rparr>) w") auto
  obtain d2 e2 w2 where 2: "off_network F N e1 w1 = (d2, e2, w2)" by (cases "off_network F N e1 w1") auto
  have e2: "ether_ok e2" using off_network_ok [OF 2] from_machine_ok [OF 1] ok by simp
  show ?thesis
  proof (cases "et_face e2")
    case None
    then show ?thesis using t 1 2 e2 by (simp add: ether_turn_def Let_def)
  next
    case (Some m)
    obtain d3 q m1 where 3: "chaos_inject_pump F now (et_inject e2) m = (d3, q, m1)" by (cases "chaos_inject_pump F now (et_inject e2) m") auto
    have "ether_ok (e2\<lparr>et_inject := q\<rparr>)"
      using e2 pump_ok [OF 3] pump_accounts [OF 3] by (auto simp: ether_ok_def split: option.splits)
    then show ?thesis using t 1 2 Some 3 by (auto simp: ether_turn_def Let_def)
  qed
qed

inductive ether_step :: "'m chaos_face \<Rightarrow> 'w chudp_net \<Rightarrow> 'm ether \<times> 'w \<Rightarrow> 'm ether \<times> 'w \<Rightarrow> bool" for F N where
  ether_turns: "ether_turn F N now e w = (did, e', w') \<Longrightarrow> ether_step F N (e, w) (e', w')"
| ether_machine: "ether_step F N (e, w) (e\<lparr>et_face := map_option f (et_face e)\<rparr>, w')"

inductive_cases ether_stepE: "ether_step F N s t"

text \<open>The program as it enters its loop: nothing waiting, no datagram yet, the link's own address the machine's.\<close>

definition ether_starts :: "'m ether \<times> 'w \<Rightarrow> bool" where
  "ether_starts s \<longleftrightarrow> (case s of (e, w) \<Rightarrow> et_inject e = chaos_inject_init \<and>
     (case et_udp e of None \<Rightarrow> True
      | Some u \<Rightarrow> peers_ok u \<and> ud_local u = et_machine e \<and> ud_received u = 0 \<and> ud_delivered u = 0 \<and> ud_bad_shape u = 0 \<and>
          ud_bad_checksum u = 0 \<and> ud_not_this_cable u = 0))"

interpretation ether: kept ether_starts "ether_step F N" "\<lambda>s. ether_ok (fst s)" for F :: "'m chaos_face" and N :: "'w chudp_net"
proof
  fix s :: "'m ether \<times> 'w" assume "ether_starts s"
  then show "ether_ok (fst s)"
    by (auto simp: ether_starts_def ether_ok_def chaos_inject_init_def inject_ok_def inject_accounts_def queue_def chudp_accounts_def
        split: option.splits)
next
  fix s s' :: "'m ether \<times> 'w" assume "ether_step F N s s'" "ether_ok (fst s)"
  then show "ether_ok (fst s')" by (auto elim!: ether_stepE intro: ether_turn_ok)
qed

section \<open>A frame from one machine to the other\<close>

lemma no_frame_model:
  assumes "\<not> fm_tx_valid m" "settled m" "et_face e = Some m"
  shows "from_machine model_face N k e w = (False, e, w)"
proof (cases k)
  case (Suc j)
  have "chaos_face_read_frame model_face 255 m = (No_frame, m)"
    using assms(1, 2) stat_bits(1) [of m] by (simp add: chaos_face_read_frame_def model_face_def model_read_def model_val_def Let_def)
  moreover have "e\<lparr>et_face := Some m\<rparr> = e" using assms(3) by (cases e) simp
  ultimately show ?thesis using Suc assms(3) by simp
qed simp

lemma own_not_for_it:
  assumes "settled m" "\<not> fm_looped m" "\<not> bit (fm_csr m) 2" "4 \<le> length ws" "length ws \<le> 255"
    and "ws ! (length ws - 3) \<noteq> me" "ws ! (length ws - 3) \<noteq> 0"
  shows "chaos_face_own_frame model_face ws me m = (CHAOS_OWN_NOT_FOR_IT, m)"
proof -
  have "\<not> bit (model_stat m) 18" using assms(3) by (auto simp: model_stat_def bit_simps)
  then show ?thesis
    using assms stat_bits(3) [of m] by (simp add: chaos_face_own_frame_def model_face_def model_read_def model_val_def Let_def)
qed

text \<open>A board at rest between frames: listening to others, not looped back and not spying.\<close>

definition quiet :: "face_model \<Rightarrow> bool" where
  "quiet m \<longleftrightarrow> ready m \<and> \<not> bit (fm_csr m) 2"

lemma turn_sends:
  assumes "quiet m" "et_face a = Some (chaos_model_transmits ws m)" "et_udp a = Some u" "iq_waiting (et_inject a) = 0"
    and "frame_ok ws" "peers_ok u" "ud_local u = et_machine a" "cb_in w = []"
    and "addressed u (cb_up w) dest = [e]" "dest = ws ! (length ws - 3)" "dest \<noteq> et_machine a" "dest \<noteq> 0"
  shows "\<exists>a' m'. ether_turn model_face cable_net now a w =
      (True, a', w\<lparr>cb_out := cb_out w @ [(e, chudp_wrap ws CHUDP_MAX_FRAME)]\<rparr>) \<and>
    et_face a' = Some m' \<and> \<not> fm_tx_valid m' \<and> fm_faults m' = fm_faults m \<and> et_to_udp a' = et_to_udp a + 1"
proof -
  let ?t = "chaos_model_transmits ws m" and ?d = "chudp_wrap ws 514"
  have n: "11 \<le> length ws" "length ws \<le> 255" using assms(5) by (auto simp: frame_ok_def)
  have t: "ready ?t" "\<not> bit (fm_csr ?t) 2" "fm_tx_valid ?t" using assms(1) by (auto simp: quiet_def ready_def chaos_model_transmits_def)
  have adv: "advance ?t = ?t" by (rule advance_ready [OF t(1)])
  have set: "settled ?t" "\<not> fm_looped ?t" using t(1) by (auto simp: ready_def settled_def)
  have rd: "chaos_face_read_frame model_face 255 ?t = (Frame ws, ?t)" using read_frame_model [of ws m] n adv by simp
  let ?a = "a\<lparr>et_now := now, et_face := Some ?t, et_from_machine := et_from_machine a + 1\<rparr>"
  have own: "chaos_face_own_frame model_face ws (et_machine a) ?t = (CHAOS_OWN_NOT_FOR_IT, ?t)"
    by (rule own_not_for_it [OF set t(2)]) (use n assms(10-12) in auto)
  have hear: "hear_own model_face ws ?a = (False, ?a)" using own by (simp add: hear_own_def Let_def)
  have send: "chudp_send cable_net ws dest u w = (Some 1, u, w\<lparr>cb_out := cb_out w @ [(e, ?d)]\<rparr>)"
    using send_goes [OF assms(6, 5), of dest w] assms(9) by simp
  let ?w = "w\<lparr>cb_out := cb_out w @ [(e, ?d)]\<rparr>"
  have c: "carry model_face cable_net FROM_MACHINE ws dest ?a w = (False, ?a\<lparr>et_to_udp := et_to_udp a + 1\<rparr>, ?w)"
    using hear send assms(3, 11, 12) by (simp add: carry_def Let_def)
  define m1 where "m1 = chaos_face_let_go model_face False ?t"
  have m1: "\<not> fm_tx_valid m1" "settled m1" "fm_faults m1 = fm_faults m" "fm_service_ns m1 = 0"
    using adv t set by (auto simp: m1_def chaos_face_let_go_def model_face_def model_write_def model_ctl_def ctl_take_def Let_def
        bit_simps settled_def ready_def chaos_model_transmits_def)
  let ?b = "a\<lparr>et_now := now, et_from_machine := et_from_machine a + 1, et_to_udp := et_to_udp a + 1, et_face := Some m1\<rparr>"
  have fm: "from_machine model_face cable_net 64 (a\<lparr>et_now := now\<rparr>) w = (True, ?b, ?w)"
  proof -
    have k: "(64 :: nat) = Suc 63" by simp
    have none: "from_machine model_face cable_net 63 ?b ?w = (False, ?b, ?w)"
      by (rule no_frame_model [OF m1(1, 2)]) simp
    show ?thesis unfolding k from_machine.simps
      using assms(2, 10) rd c n none by (simp add: Let_def let_machine_go_def m1_def [symmetric])
  qed
  have poll: "chudp_poll cable_net 64 D u ?w x = (0, u, ?w, x)" for D and x :: "face_model ether"
    using assms(8) by (simp add: numeral_eq_Suc cable_net_def)
  have off: "off_network model_face cable_net ?b ?w = (False, ?b, ?w)" using poll assms(3) by (simp add: off_network_def)
  have "ether_turn model_face cable_net now a w = (True, ?b, ?w)"
    using fm off assms(4) by (simp add: ether_turn_def chaos_inject_pump_def)
  then show ?thesis using m1 by auto
qed

lemma turn_receives:
  assumes "ready m" "\<not> fm_rx_busy m" "\<not> fm_tx_valid m" "et_face b = Some m" "et_udp b = Some u"
    and "inject_ok (et_inject b)" "iq_waiting (et_inject b) = 0"
    and "frame_ok ws" "for_this_cable u ws" "ws ! (length ws - 3) = et_machine b" "et_machine b \<noteq> 0"
  shows "\<exists>b' m'. ether_turn model_face cable_net now b (v\<lparr>cb_in := [chudp_wrap ws CHUDP_MAX_FRAME]\<rparr>) = (True, b', v\<lparr>cb_in := []\<rparr>) \<and>
    et_face b' = Some m' \<and> holding m' ws \<and> iq_waiting (et_inject b') = 0 \<and> et_from_udp b' = et_from_udp b + 1"
proof -
  let ?d = "chudp_wrap ws 514" and ?b = "b\<lparr>et_now := now\<rparr>" and ?v = "v\<lparr>cb_in := []\<rparr>"
  let ?u = "u\<lparr>ud_received := bump (ud_received u), ud_delivered := bump (ud_delivered u)\<rparr>"
  have n: "11 \<le> length ws" "length ws \<le> 255" using assms(8) by (auto simp: frame_ok_def)
  have set: "settled m" using assms(1) by (auto simp: ready_def settled_def)
  have fm: "from_machine model_face cable_net 64 ?b w = (False, ?b, w)" for w
    by (rule no_frame_model [OF assms(3) set]) (simp add: assms(4))
  have "length ?d \<le> 515" unfolding wrap_shape [OF n] using n by simp
  then have cut: "take 515 ?d = ?d" by simp
  obtain u1 r where a: "chudp_arrive ?d u = (u1, r)" by (cases "chudp_arrive ?d u")
  have p: "peer_for (u\<lparr>ud_received := x\<rparr>) (et_machine b) = None" for x
    using assms(9, 10, 11) by (simp add: peer_for_None for_this_cable_def)
  have arr: "chudp_arrive ?d u = (?u, Some ws)"
    using unwrap_wrap [OF assms(8)] assms(9, 10) p by (simp add: chudp_arrive_def Let_def for_this_cable_def)
  have bc: "\<not> broadcast ws" using assms(10, 11) by (simp add: broadcast_def)
  let ?q = "(et_inject b)\<lparr>iq_taken := bump (iq_taken (et_inject b))\<rparr>"
  obtain m1 where o: "offer model_face ws now ?q m = (True, ?q\<lparr>iq_stored := bump (iq_stored ?q)\<rparr>, m1)" "holding m1 ws"
    using offer_free [OF assms(1, 2), of ws now ?q] n by auto
  let ?q1 = "?q\<lparr>iq_stored := bump (iq_stored ?q)\<rparr>"
  have give: "chaos_inject_give model_face ws now (et_inject b) m = (?q1, m1)"
    using o(1) n bc assms(7) by (simp add: chaos_inject_give_def Let_def)
  let ?b1 = "b\<lparr>et_now := now, et_from_udp := et_from_udp b + 1, et_inject := ?q1, et_face := Some m1\<rparr>"
  have arrived: "arrived model_face ws ?b = ?b1"
    using n give assms(4, 10) by (simp add: arrived_def Let_def to_machine_def)
  have poll: "chudp_poll cable_net 64 (from_udp model_face cable_net) u (v\<lparr>cb_in := [?d]\<rparr>) ?b = (1, ?u, ?v, ?b1)"
  proof -
    have k: "(64 :: nat) = Suc (Suc 62)" by simp
    show ?thesis unfolding k chudp_poll.simps using cut arr arrived by (simp add: cable_net_def from_udp_arrived)
  qed
  have off: "off_network model_face cable_net ?b (v\<lparr>cb_in := [?d]\<rparr>) = (True, ?b1\<lparr>et_udp := Some ?u\<rparr>, ?v)"
    using poll assms(5) by (simp add: off_network_def)
  have "ether_turn model_face cable_net now b (v\<lparr>cb_in := [?d]\<rparr>) = (True, ?b1\<lparr>et_udp := Some ?u\<rparr>, ?v)"
    using fm off assms(7) by (simp add: ether_turn_def chaos_inject_pump_def)
  then show ?thesis using o(2) assms(7) by auto
qed

section \<open>Properties\<close>

text \<open>
  C31. A frame one CADR transmits is in the other's receive buffer.  The machine of one board has a
  whole frame in its transmit buffer for the machine of another, which a peer line names; a turn
  of the first board's program sends it in one datagram to that peer and lets the transmitter go,
  and a turn of the second's, given that datagram, stores it in a machine that is listening and
  whose buffer is free: the words the machine will read out are the words transmitted.\<close>

theorem chaos_frame_crosses:
  assumes "quiet ma" "et_face a = Some (chaos_model_transmits ws ma)" "et_udp a = Some ua" "iq_waiting (et_inject a) = 0"
    and "frame_ok ws" "peers_ok ua" "ud_local ua = et_machine a" "cb_in w = []" "e \<in> set (cb_up w)"
    and "map_of (map (\<lambda>p. (pe_address p, pe_where p)) (ud_peers ua)) dest = Some e"
    and "dest = ws ! (length ws - 3)" "dest \<noteq> et_machine a" "ws ! (length ws - 2) \<notin> {0, dest}"
    and "ready mb" "\<not> fm_rx_busy mb" "\<not> fm_tx_valid mb" "et_face b = Some mb" "et_udp b = Some ub"
    and "inject_ok (et_inject b)" "iq_waiting (et_inject b) = 0" "et_machine b = dest" "ud_local ub = dest"
    and "dest \<notin> pe_address ` set (ud_peers ub)"
  shows "\<exists>d a' b' ma' mb'. ether_turn model_face cable_net now a w = (True, a', w\<lparr>cb_out := cb_out w @ [(e, d)]\<rparr>) \<and>
    et_face a' = Some ma' \<and> \<not> fm_tx_valid ma' \<and> fm_faults ma' = fm_faults ma \<and>
    ether_turn model_face cable_net later b (v\<lparr>cb_in := [d]\<rparr>) = (True, b', v\<lparr>cb_in := []\<rparr>) \<and>
    et_face b' = Some mb' \<and> fm_rx_busy mb' \<and> take (fm_rx_words mb') (fm_rx mb') = ws"
proof -
  have nz: "dest \<noteq> 0" using assms(6, 10) by (force simp: peers_ok_def dest!: map_of_SomeD)
  have ad: "addressed ua (cb_up w) dest = [e]" using assms(7, 9, 10, 12) nz by (simp add: addressed_def)
  have cable: "for_this_cable ub ws" using assms(5, 11, 13, 22, 23) nz by (simp add: for_this_cable_def)
  have at: "ws ! (length ws - 3) = et_machine b" "et_machine b \<noteq> 0" using assms(11, 21) nz by simp_all
  obtain a' ma' where a: "ether_turn model_face cable_net now a w = (True, a', w\<lparr>cb_out := cb_out w @ [(e, chudp_wrap ws 514)]\<rparr>)"
      "et_face a' = Some ma'" "\<not> fm_tx_valid ma'" "fm_faults ma' = fm_faults ma"
    using turn_sends [OF assms(1-8) ad assms(11, 12) nz, of now] by blast
  obtain b' mb' where b: "ether_turn model_face cable_net later b (v\<lparr>cb_in := [chudp_wrap ws 514]\<rparr>) = (True, b', v\<lparr>cb_in := []\<rparr>)"
      "et_face b' = Some mb'" "holding mb' ws"
    using turn_receives [OF assms(14-20) assms(5) cable at, of later v] by blast
  have "fm_rx_busy mb'" "take (fm_rx_words mb') (fm_rx mb') = ws" using b(3) by (simp_all add: holding_def)
  then show ?thesis using a b(1, 2) by blast
qed

definition ether_of :: "face_model option \<Rightarrow> chudp option \<Rightarrow> u16 \<Rightarrow> face_model ether" where
  "ether_of m u me = \<lparr>et_face = m, et_udp = u, et_inject = chaos_inject_init, et_machine = me, et_now = 0, et_from_machine = 0,
     et_from_udp = 0, et_to_udp = 0, et_no_route = 0, et_bad_frame = 0, et_own_taken = 0, et_own_lost = 0, et_own_aborted = 0\<rparr>"

theorem chaos_frame_crosses_witness:
  "\<exists>ws d a' b' mb'. length ws = 13 \<and>
    ether_turn model_face cable_net 1 (ether_of (Some (chaos_model_transmits ws chaos_model_init)) (Some board_a) 1568) one_up =
      (True, a', one_up\<lparr>cb_out := [(\<lparr>sin_addr = 0x7F000001, sin_port = 42043\<rparr>, d)]\<rparr>) \<and>
    ether_turn model_face cable_net 2 (ether_of (Some chaos_model_init) (Some board_b) 1576) (one_up\<lparr>cb_in := [d]\<rparr>) =
      (True, b', one_up) \<and> et_face b' = Some mb' \<and> take (fm_rx_words mb') (fm_rx mb') = ws"
proof -
  let ?ws = "chaos_packet_frame rfc_packet 1576 1568 CHAOS_PKT_MAX_WORDS"
  let ?e = "\<lparr>sin_addr = 0x7F000001, sin_port = 42043\<rparr>"
  have ok: "chaos_ok rfc_packet" by (simp add: chaos_ok_def rfc_packet_def)
  note t = packet_frame_trailer [OF ok, of 1576 1568]
  have one: "cb_out one_up @ [(?e, d)] = [(?e, d)]" "one_up\<lparr>cb_in := []\<rparr> = one_up" for d by (simp_all add: one_up_def)
  have n: "length ?ws = 13" using frame_shape [OF ok, of 1576 1568] by (simp add: rfc_packet_def)
  have "\<exists>d a' b' ma' mb'. ether_turn model_face cable_net 1
        (ether_of (Some (chaos_model_transmits ?ws chaos_model_init)) (Some board_a) 1568) one_up =
        (True, a', one_up\<lparr>cb_out := cb_out one_up @ [(?e, d)]\<rparr>) \<and>
      et_face a' = Some ma' \<and> \<not> fm_tx_valid ma' \<and> fm_faults ma' = fm_faults chaos_model_init \<and>
      ether_turn model_face cable_net 2 (ether_of (Some chaos_model_init) (Some board_b) 1576) (one_up\<lparr>cb_in := [d]\<rparr>) =
        (True, b', one_up\<lparr>cb_in := []\<rparr>) \<and>
      et_face b' = Some mb' \<and> fm_rx_busy mb' \<and> take (fm_rx_words mb') (fm_rx mb') = ?ws"
    by (rule chaos_frame_crosses [OF _ _ _ _ packet_frame_ok [OF ok], where dest = 1576 and ma = chaos_model_init and ua = board_a and
        mb = chaos_model_init and ub = board_b])
      (simp_all add: t, simp_all add: quiet_def ready_def ether_of_def chaos_model_init_def board_a_def board_b_def chudp_empty_def
        chaos_inject_init_def peers_ok_def one_up_def inject_ok_def queue_def)
  then show ?thesis using n unfolding one by blast
qed

text \<open>
  The program is a leaf and no router.  A frame that came in off the network changes nothing of
  the network whatever its destination; one for a third station goes to no machine either, and is
  counted as having nowhere to go.\<close>

theorem chaos_leaf:
  "snd (from_udp F N words e w) = w \<and>
   (11 \<le> length words \<and> words ! (length words - 3) \<notin> {0, et_machine e} \<longrightarrow>
    fst (from_udp F N words e w) = e\<lparr>et_from_udp := et_from_udp e + 1, et_no_route := et_no_route e + 1\<rparr>)"
  by (auto simp: from_udp_arrived arrived_def Let_def)

theorem chaos_leaf_witness:
  "from_udp model_face cable_net (replicate 11 7) (ether_of (Some chaos_model_init) None 1576) one_up =
     ((ether_of (Some chaos_model_init) None 1576)\<lparr>et_from_udp := 1, et_no_route := 1\<rparr>, one_up)"
  using chaos_leaf [of model_face cable_net "replicate 11 7" "ether_of (Some chaos_model_init) None 1576" one_up]
  by (auto simp: prod_eq_iff ether_of_def)

text \<open>
  The two readers of an address agree, on every string: what the command line takes as the
  machine's own address and what it takes as a peer's is the same text for the same sixteen bits.\<close>

theorem address_parsers_agree:
  "parse_address s = (case parse_address_main s of None \<Rightarrow> 0 | Some a \<Rightarrow> a)"
proof (cases "split_at (CHR '':'') s")
  case None
  then show ?thesis by (auto simp: parse_address_def parse_address_main_def split: prod.splits)
next
  case (Some p)
  obtain subnet host where p: "p = (subnet, host)" by (cases p)
  obtain hi l1 where h: "strtoul subnet 8 = (hi, l1)" by (cases "strtoul subnet 8")
  obtain lo l2 where l: "strtoul host 8 = (lo, l2)" by (cases "strtoul host 8")
  show ?thesis
    using Some p h l both_halves_parts [of hi lo]
    by (auto simp: parse_address_def parse_address_main_def Let_def not_less)
qed

end
