(* ===== verification/Cadr_Common.thy ===== *)
theory Cadr_Common
  imports C_String
begin

text \<open>
  What the board's programs share of \<^verbatim>\<open>cadr-common\<close>: \<^verbatim>\<open>cadr_mem.c\<close>'s numbers and its guard of the fabric,
  and \<^verbatim>\<open>cadr_endpoint.c\<close>'s grammar of where a program listens.  The library's \<^verbatim>\<open>inet_pton\<close> is a parameter.
\<close>

unbundle bit_operations_syntax

section \<open>Numbers\<close>

definition is_digit :: "char \<Rightarrow> bool" where
  "is_digit c \<longleftrightarrow> 48 \<le> (of_char c :: nat) \<and> (of_char c :: nat) \<le> 57"

text \<open>\<^verbatim>\<open>strtoull\<close> in base 0 of a text whose first character is a digit.\<close>

definition any_base :: "string \<Rightarrow> nat \<times> string" where
  "any_base s =
     (if (take 2 s = ''0x'' \<or> take 2 s = ''0X'') \<and> starts_digit 16 (drop 2 s) then digits_of 16 0 (drop 2 s)
      else if hd s = CHR ''0'' then digits_of 8 0 s
      else digits_of 10 0 s)"

definition cadr_parse_u32 :: "string \<Rightarrow> u32 option" where
  "cadr_parse_u32 s =
     (if s = [] \<or> \<not> is_digit (hd s) then None
      else case any_base s of (v, left) \<Rightarrow>
        if 2 ^ 64 \<le> v \<or> left \<noteq> [] then None
        else if 0xFFFFFFFF < v then None
        else Some (of_nat v))"

section \<open>The guard\<close>

abbreviation (input) CADR_TALLY_MASK :: u32 where "CADR_TALLY_MASK \<equiv> 0x80008000"
abbreviation (input) CADR_TALLY_MARK :: u32 where "CADR_TALLY_MARK \<equiv> 0x00008000"
abbreviation (input) CADR_TALLY_FAULT :: u32 where "CADR_TALLY_FAULT \<equiv> 0x46414C54"

definition cadr_tally_ok :: "u32 \<Rightarrow> u32 \<Rightarrow> bool" where
  "cadr_tally_ok w2 w3 \<longleftrightarrow> w2 AND CADR_TALLY_MASK = CADR_TALLY_MARK \<and> w3 AND CADR_TALLY_MASK = CADR_TALLY_MARK"

datatype guard_answer = May_read | Fault_bitstream | No_clock | Not_ours | Not_mapped

text \<open>The two words of the tally, none where the page could not be mapped.\<close>

definition cadr_guard :: "(u32 \<times> u32) option \<Rightarrow> guard_answer" where
  "cadr_guard gpio =
     (case gpio of
        None \<Rightarrow> Not_mapped
      | Some (w2, w3) \<Rightarrow>
          (if cadr_tally_ok w2 w3 then May_read
           else if w2 = CADR_TALLY_FAULT \<and> w3 = CADR_TALLY_FAULT then Fault_bitstream
           else if w2 = 0 \<and> w3 = 0 then No_clock
           else Not_ours))"

section \<open>Where a program listens\<close>

fun a_port_from :: "nat \<Rightarrow> string \<Rightarrow> nat option" where
  "a_port_from v [] = Some v"
| "a_port_from v (c # cs) =
     (if \<not> is_digit c then None
      else let v = v * 10 + (of_char c - 48) in if 65535 < v then None else a_port_from v cs)"

definition a_port :: "string \<Rightarrow> nat option" where
  "a_port s = (if s = [] then None else a_port_from 0 s)"

record cadr_endpoint =
  ce_addr :: string
  ce_port :: nat
  ce_port_named :: bool

definition an_addr :: "(string \<Rightarrow> bool) \<Rightarrow> string \<Rightarrow> cadr_endpoint \<Rightarrow> cadr_endpoint option" where
  "an_addr inet_pton a e =
     (if a = [] then Some (e\<lparr>ce_addr := []\<rparr>)
      else if 16 \<le> length a then None
      else if \<not> inet_pton a then None
      else Some (e\<lparr>ce_addr := a\<rparr>))"

definition cadr_endpoint_parse :: "(string \<Rightarrow> bool) \<Rightarrow> string option \<Rightarrow> string \<Rightarrow> nat \<Rightarrow> cadr_endpoint option" where
  "cadr_endpoint_parse inet_pton spec def_addr def_port =
     (case an_addr inet_pton def_addr \<lparr>ce_addr = [], ce_port = def_port, ce_port_named = False\<rparr> of
        None \<Rightarrow> None
      | Some e \<Rightarrow>
          (case spec of
             None \<Rightarrow> Some e
           | Some s \<Rightarrow>
               (if s = [] then None
                else case split_last (CHR '':'') s of
                    Some (host, p) \<Rightarrow>
                      (if host = [] \<or> 64 \<le> length host then None
                       else case an_addr inet_pton host e of
                           None \<Rightarrow> None
                         | Some e \<Rightarrow>
                             (case a_port p of None \<Rightarrow> None | Some n \<Rightarrow> Some (e\<lparr>ce_port := n, ce_port_named := True\<rparr>)))
                  | None \<Rightarrow>
                      (case a_port s of
                         Some n \<Rightarrow> Some (e\<lparr>ce_port := n, ce_port_named := True\<rparr>)
                       | None \<Rightarrow> an_addr inet_pton s e))))"

definition cadr_endpoint_show :: "cadr_endpoint \<Rightarrow> string" where
  "cadr_endpoint_show e = (if ce_addr e \<noteq> [] then ce_addr e else ''0.0.0.0'') @ CHR '':'' # digits_put 10 (ce_port e)"

section \<open>An endpoint printed and read back\<close>

lemma is_digit_value: "is_digit c \<longleftrightarrow> digit_value c < 10"
  by (auto simp: is_digit_def digit_value_def Let_def)

lemma digit_of_char: "is_digit c \<Longrightarrow> of_char c - 48 = digit_value c"
  by (auto simp: is_digit_def digit_value_def Let_def)

text \<open>A port is the decimal number its digits are, and no more than 65535 of it.\<close>

lemma a_port_from_digits:
  "(\<forall>c \<in> set s. digit_value c < 10) \<Longrightarrow>
   a_port_from v s = (let n = fst (digits_of 10 v s) in if v \<le> 65535 \<and> n \<le> 65535 then Some n else if s = [] then Some v else None)"
proof (induction s arbitrary: v)
  case (Cons c cs)
  have grow: "x \<le> fst (digits_of 10 x t)" for x t
    by (induction "10 :: nat" x t rule: digits_of.induct) auto
  have d: "is_digit c" "of_char c - 48 = digit_value c" using Cons.prems is_digit_value digit_of_char by auto
  let ?v = "v * 10 + digit_value c"
  show ?case
    using Cons.IH [of ?v] Cons.prems d grow [of ?v cs] by (auto simp: Let_def)
qed simp

lemma a_port_put: "n \<le> 65535 \<Longrightarrow> a_port (digits_put 10 n) = Some n"
  using digits_put_char [of 10 n] digits_of_put [of 10 n] a_port_from_digits [of "digits_put 10 n" 0]
  by (simp add: a_port_def)

text \<open>
  C1. An endpoint a program prints is the endpoint it reads.  What the opening line says of an
  address and a port, given back as the flag's argument and whatever the defaults, is that address
  at that port, the port named; and every interface, which is printed \<^verbatim>\<open>0.0.0.0\<close>, comes back as
  that address.\<close>

theorem endpoint_roundtrip:
  assumes "ce_port e \<le> 65535" "ce_addr e = [] \<or> length (ce_addr e) < 16 \<and> inet_pton (ce_addr e)" "inet_pton ''0.0.0.0''"
    and "def_addr = [] \<or> length def_addr < 16 \<and> inet_pton def_addr"
  shows "cadr_endpoint_parse inet_pton (Some (cadr_endpoint_show e)) def_addr def_port =
    Some \<lparr>ce_addr = if ce_addr e = [] then ''0.0.0.0'' else ce_addr e, ce_port = ce_port e, ce_port_named = True\<rparr>"
proof -
  let ?h = "if ce_addr e \<noteq> [] then ce_addr e else ''0.0.0.0''" and ?p = "digits_put 10 (ce_port e)"
  have p: "CHR '':'' \<notin> set ?p"
    using digits_put_char [of 10 "ce_port e"] by (auto simp: digit_value_def)
  have d: "\<exists>a. an_addr inet_pton def_addr \<lparr>ce_addr = [], ce_port = def_port, ce_port_named = False\<rparr> =
      Some \<lparr>ce_addr = a, ce_port = def_port, ce_port_named = False\<rparr>" using assms(4) by (auto simp: an_addr_def)
  have h: "?h \<noteq> []" "length ?h < 16" "inet_pton ?h" using assms(2, 3) by auto
  have "an_addr inet_pton ?h x = Some (x\<lparr>ce_addr := ?h\<rparr>)" for x using h by (simp add: an_addr_def)
  then show ?thesis
    unfolding cadr_endpoint_parse_def cadr_endpoint_show_def
    using d h split_last_some [OF p, of ?h] a_port_put [OF assms(1)] by auto
qed

theorem endpoint_roundtrip_witness:
  "cadr_endpoint_parse (\<lambda>a. a = ''0.0.0.0'' \<or> a = ''10.0.0.2'') (Some (cadr_endpoint_show
     \<lparr>ce_addr = ''10.0.0.2'', ce_port = 5900, ce_port_named = False\<rparr>)) [] 4000 =
   Some \<lparr>ce_addr = ''10.0.0.2'', ce_port = 5900, ce_port_named = True\<rparr>"
  by (subst endpoint_roundtrip) simp_all

end
