(* ===== verification/Chaos_Start.thy ===== *)
theory Chaos_Start
  imports Chaos_Daemon_Props Cadr_Common
begin

text \<open>
  \<^verbatim>\<open>cadr-chaosnet.c\<close>'s \<^verbatim>\<open>main\<close> up to its loop: the flags, the guard and the interface, and the link with
  its peers.  Exit codes are the code's; the log's files and the lines said are left out.
\<close>

record chaos_flags =
  cl_machine :: u16
  cl_udp :: bool
  cl_endpoint :: "string option"
  cl_peers :: "string list"
  cl_default :: "string option"
  cl_base :: u32
  cl_guard :: bool
  cl_fabric :: bool

definition chaos_no_flags :: "u32 \<Rightarrow> chaos_flags" where
  "chaos_no_flags base = \<lparr>cl_machine = 0xFE01, cl_udp = False, cl_endpoint = None, cl_peers = [], cl_default = None, cl_base = base,
     cl_guard = True, cl_fabric = True\<rparr>"

text \<open>
  One flag, with the words after it: what is left of them and the flags, none for an exit with 2.
  A flag that wants a value and is the last word is not a flag.
\<close>

definition chaos_arg :: "string \<Rightarrow> string list \<Rightarrow> chaos_flags \<Rightarrow> (string list \<times> chaos_flags) option" where
  "chaos_arg a vs f =
     (if a \<in> {''--address'', ''--chaos-address''} \<and> vs \<noteq> [] then
        (if CHR '','' \<in> set (hd vs) then None
         else map_option (\<lambda>m. (tl vs, f\<lparr>cl_machine := m\<rparr>)) (parse_address_main (hd vs)))
      else if a \<in> {''--udp'', ''--chaos-udp''} then
        Some (if vs \<noteq> [] \<and> take 1 (hd vs) \<noteq> ''-'' then (tl vs, f\<lparr>cl_udp := True, cl_endpoint := Some (hd vs)\<rparr>)
              else (vs, f\<lparr>cl_udp := True\<rparr>))
      else if a \<in> {''--udp-peer'', ''--chaos-udp-peer''} \<and> vs \<noteq> [] then
        (if length (cl_peers f) = CHUDP_MAX_PEERS then None else Some (tl vs, f\<lparr>cl_peers := cl_peers f @ [hd vs]\<rparr>))
      else if a \<in> {''--udp-default-peer'', ''--chaos-udp-default-peer''} \<and> vs \<noteq> [] then Some (tl vs, f\<lparr>cl_default := Some (hd vs)\<rparr>)
      else if a \<in> {''--trace'', ''--chaos-trace''} then Some (vs, f)
      else if a \<in> {''--file-root'', ''--chaos-file-root'', ''--file-peers'', ''--chaos-file-peers'', ''--server-name''} then None
      else if a = ''--base'' \<and> vs \<noteq> [] then map_option (\<lambda>b. (tl vs, f\<lparr>cl_base := b\<rparr>)) (cadr_parse_u32 (hd vs))
      else if a = ''--no-guard'' then Some (vs, f\<lparr>cl_guard := False\<rparr>)
      else if a = ''--no-fabric'' then Some (vs, f\<lparr>cl_fabric := False\<rparr>)
      else if a = ''--log'' \<and> vs \<noteq> [] then Some (tl vs, f)
      else None)"

text \<open>What one flag keeps, whichever it is.\<close>

definition arg_keeps :: "string list \<Rightarrow> chaos_flags \<Rightarrow> (string list \<times> chaos_flags) option \<Rightarrow> bool" where
  "arg_keeps vs f r \<longleftrightarrow> (case r of None \<Rightarrow> True | Some (vs', f') \<Rightarrow>
     length vs' \<le> length vs \<and> (cl_machine f' = cl_machine f \<or> parse_address_main (hd vs) = Some (cl_machine f')))"

lemma arg_keeps_if: "arg_keeps vs f x \<Longrightarrow> arg_keeps vs f y \<Longrightarrow> arg_keeps vs f (if b then x else y)"
  by simp

lemma chaos_arg_keeps: "arg_keeps vs f (chaos_arg a vs f)"
  unfolding chaos_arg_def
  by (intro arg_keeps_if) (auto simp: arg_keeps_def split: option.splits)

lemma chaos_arg_shorter: "chaos_arg a vs f = Some (vs', f') \<Longrightarrow> length vs' < Suc (length vs)"
  using chaos_arg_keeps [of vs f a] by (simp add: arg_keeps_def)

function chaos_args :: "string list \<Rightarrow> chaos_flags \<Rightarrow> nat + chaos_flags" where
  "chaos_args [] f = Inr f"
| "chaos_args (a # vs) f = (case chaos_arg a vs f of None \<Rightarrow> Inl 2 | Some (vs, f) \<Rightarrow> chaos_args vs f)"
  by pat_completeness auto
termination by (relation "measure (\<lambda>(as, _). length as)") (auto dest: chaos_arg_shorter)

text \<open>
  What the board gives: memory opened, the two words of the tally, the interface mapped at an
  address, and the libraries' readers of a numeric address and of a host's name.
\<close>

record 'm board =
  bd_log :: bool
  bd_mem :: bool
  bd_tally :: "(u32 \<times> u32) option"
  bd_face :: "u32 \<Rightarrow> 'm option"
  bd_inet_pton :: "string \<Rightarrow> u32 option"
  bd_getaddrinfo :: "string \<Rightarrow> u32 option"

definition start_face :: "'m chaos_face \<Rightarrow> 'm board \<Rightarrow> chaos_flags \<Rightarrow> 'm option option" where
  "start_face F B f =
     (if \<not> cl_fabric f then Some None
      else if \<not> bd_mem B \<or> cl_guard f \<and> cadr_guard (bd_tally B) \<noteq> May_read then None
      else case bd_face B (cl_base f) of
          None \<Rightarrow> None
        | Some m \<Rightarrow>
            (case chaos_face_ident F m of
               (Some _, m) \<Rightarrow> None
             | (None, m) \<Rightarrow> Some (Some (snd (chaos_face_address F (chaos_face_set_address F (cl_machine f) m))))))"

fun add_peers :: "(string \<Rightarrow> u32 option) \<Rightarrow> string list \<Rightarrow> chudp \<Rightarrow> chudp option" where
  "add_peers gai [] u = Some u"
| "add_peers gai (p # ps) u = (case chudp_add_peer gai p u of Inl _ \<Rightarrow> None | Inr u \<Rightarrow> add_peers gai ps u)"

definition start_udp :: "'w chudp_net \<Rightarrow> 'm board \<Rightarrow> chaos_flags \<Rightarrow> 'w \<Rightarrow> (chudp option \<times> 'w) option" where
  "start_udp N B f w =
     (if \<not> cl_udp f then Some (None, w)
      else case udp_endpoint (cl_endpoint f) of (host, port) \<Rightarrow>
        case chudp_bind N (bd_inet_pton B) (if host = [] then None else Some host) port w of
          None \<Rightarrow> None
        | Some (u, w) \<Rightarrow>
            (case add_peers (bd_getaddrinfo B) (cl_peers f) (u\<lparr>ud_local := cl_machine f\<rparr>) of
               None \<Rightarrow> None
             | Some u \<Rightarrow>
                 (case cl_default f of
                    None \<Rightarrow> Some (Some u, w)
                  | Some d \<Rightarrow> (case chudp_set_default_peer (bd_getaddrinfo B) d u of Inl _ \<Rightarrow> None | Inr u \<Rightarrow> Some (Some u, w)))))"

definition chaos_start :: "'m chaos_face \<Rightarrow> 'w chudp_net \<Rightarrow> 'm board \<Rightarrow> u32 \<Rightarrow> string list \<Rightarrow> 'w \<Rightarrow> nat + 'm ether \<times> 'w" where
  "chaos_start F N B base argv w =
     (case chaos_args argv (chaos_no_flags base) of
        Inl status \<Rightarrow> Inl status
      | Inr f \<Rightarrow>
          (if chudp_flag_without_cable (cl_udp f) (length (cl_peers f)) (cl_default f \<noteq> None) \<noteq> None then Inl 2
           else if \<not> bd_log B then Inl 1
           else case start_face F B f of
               None \<Rightarrow> Inl 1
             | Some face \<Rightarrow>
                 (case start_udp N B f w of
                    None \<Rightarrow> Inl 1
                  | Some (udp, w) \<Rightarrow>
                      Inr (\<lparr>et_face = face, et_udp = udp, et_inject = chaos_inject_init, et_machine = cl_machine f, et_now = 0,
                            et_from_machine = 0, et_from_udp = 0, et_to_udp = 0, et_no_route = 0, et_bad_frame = 0, et_own_taken = 0,
                            et_own_lost = 0, et_own_aborted = 0\<rparr>, w))))"

section \<open>A program that starts\<close>

lemma add_peers_ok:
  "peers_ok u \<Longrightarrow> add_peers gai ps u = Some u' \<Longrightarrow>
   peers_ok u' \<and> length (ud_peers u') = length (ud_peers u) + length ps \<and> u' = u\<lparr>ud_peers := ud_peers u'\<rparr>"
proof (induction ps arbitrary: u)
  case (Cons p ps)
  then obtain u1 where a: "chudp_add_peer gai p u = Inr u1" "add_peers gai ps u1 = Some u'" by (auto split: sum.splits)
  note ok = add_peer_ok [OF Cons.prems(1) a(1)]
  have "u1 = u\<lparr>ud_peers := ud_peers u1\<rparr>"
    using a(1) by (auto simp: chudp_add_peer_def Let_def split: option.splits if_splits sum.splits)
  moreover have "length (ud_peers u1) = Suc (length (ud_peers u))" using ok(2) by auto
  moreover note Cons.IH [OF ok(1) a(2)]
  ultimately show ?case by (cases u; cases u1; cases u') auto
qed simp

lemma default_keeps: "chudp_set_default_peer gai d u = Inr u' \<Longrightarrow> \<exists>x. u' = u\<lparr>ud_default := x\<rparr>"
  by (auto simp: chudp_set_default_peer_def split: if_splits prod.splits sum.splits)

text \<open>The link a start makes: nothing counted yet, the peers the flags named, and the machine's address as its own.\<close>

lemma start_udp_ok:
  assumes "start_udp N B f w = Some (Some u, w')"
  shows "cl_udp f \<and> peers_ok u \<and> length (ud_peers u) = length (cl_peers f) \<and> ud_local u = cl_machine f \<and>
    ud_received u = 0 \<and> ud_delivered u = 0 \<and> ud_bad_shape u = 0 \<and> ud_bad_checksum u = 0 \<and> ud_not_this_cable u = 0"
proof -
  obtain u1 where a: "add_peers (bd_getaddrinfo B) (cl_peers f) (chudp_empty\<lparr>ud_local := cl_machine f\<rparr>) = Some u1" "cl_udp f"
    and d: "\<exists>x. u = u1\<lparr>ud_default := x\<rparr>"
  proof -
    from assms show thesis
      by (auto simp: start_udp_def chudp_bind_def split: if_splits prod.splits option.splits sum.splits
          intro: that dest!: default_keeps) (metis chudp.surjective chudp.update_convs(2) that)+
  qed
  have "peers_ok (chudp_empty\<lparr>ud_local := cl_machine f\<rparr>)" by (simp add: peers_ok_def chudp_empty_def)
  from add_peers_ok [OF this a(1)] obtain ps where p: "u1 = chudp_empty\<lparr>ud_local := cl_machine f, ud_peers := ps\<rparr>"
      "peers_ok u1" "length ps = length (cl_peers f)" by (auto simp: chudp_empty_def)
  then show ?thesis using d a(2) by (auto simp: chudp_empty_def peers_ok_def)
qed

text \<open>A station's address: neither its subnet nor its host is zero.\<close>

definition station :: "u16 \<Rightarrow> bool" where
  "station a \<longleftrightarrow> unat a div 256 \<noteq> 0 \<and> unat a mod 256 \<noteq> 0"

lemma station_of_halves:
  fixes v :: ulong
  assumes "both_halves v" "\<And>n. 16 \<le> n \<Longrightarrow> \<not> bit v n"
  shows "station (ucast v)"
proof -
  have "ucast (ucast v :: u16) = v" by (rule bit_word_eqI) (use assms(2) not_less in \<open>auto simp: bit_simps\<close>)
  then show ?thesis using halves(1) [of "ucast v"] assms(1) by (simp add: station_def)
qed

lemma small_half: "\<not> 0xFF < x \<Longrightarrow> 8 \<le> n \<Longrightarrow> \<not> bit x n" for x :: ulong
  using small_bits [of x 8 n] by (simp add: word_less_nat_alt)

lemma parse_address_main_station:
  assumes "parse_address_main s = Some a"
  shows "station a"
proof -
  have plain: "station (ucast v)" if "both_halves v" "\<not> 0xFFFF < v" for v
    by (rule station_of_halves [OF that(1)]) (use small_bits [of v 16] that(2) in \<open>simp add: word_less_nat_alt\<close>)
  have parts: "station (ucast (push_bit 8 hi OR lo))" if "both_halves (push_bit 8 hi OR lo)" "\<not> 0xFF < hi" "\<not> 0xFF < lo" for hi lo
    by (rule station_of_halves [OF that(1)]) (use small_half [OF that(2)] small_half [OF that(3)] in \<open>auto simp: bit_simps\<close>)
  show ?thesis
    using assms plain parts by (auto simp: parse_address_main_def Let_def split: option.splits if_splits prod.splits)
qed

lemma args_station: "chaos_args argv f = Inr f' \<Longrightarrow> station (cl_machine f) \<Longrightarrow> station (cl_machine f')"
proof (induction argv f rule: chaos_args.induct)
  case (2 a vs f)
  then obtain vs' g where g: "chaos_arg a vs f = Some (vs', g)" "chaos_args vs' g = Inr f'" by (auto split: option.splits)
  show ?case using 2(1) [OF g(1) refl g(2)] chaos_arg_keeps [of vs f a] parse_address_main_station 2(3) by (auto simp: arg_keeps_def g(1))
qed simp

lemma chaos_start_ok:
  assumes "chaos_start F N B base argv w = Inr s"
  shows "ether_starts s" "station (et_machine (fst s))"
proof -
  obtain f face udp w' where f: "chaos_args argv (chaos_no_flags base) = Inr f" and u: "start_udp N B f w = Some (udp, w')"
    and s: "et_inject (fst s) = chaos_inject_init" "et_udp (fst s) = udp" "et_machine (fst s) = cl_machine f"
    using assms by (auto simp: chaos_start_def split: sum.splits if_splits option.splits)
  show "station (et_machine (fst s))" using args_station [OF f] by (simp add: s chaos_no_flags_def station_def)
  show "ether_starts s" using s start_udp_ok [of N B f w _ w'] u by (cases s; cases udp) (auto simp: ether_starts_def)
qed

text \<open>
  C32. Every frame and every datagram is accounted for in every state the program reaches, from any
  command line that it starts with, over any face and any network and whatever the machine does.
  It starts on a station's address; the retry's counts close and its ring is sound; and the link's
  counts close, it goes on naming at most sixteen peers, one endpoint an address and none of them
  the broadcast, and its own address is the machine's.\<close>

theorem chaos_run_accounts:
  assumes "chaos_start F N B base argv w0 = Inr s0" "reach (\<lambda>s. s = s0) (ether_step F N) (e, w)"
  shows "station (et_machine (fst s0)) \<and> inject_ok (et_inject e) \<and> inject_accounts (et_inject e) \<and>
    (case et_udp e of None \<Rightarrow> True | Some u \<Rightarrow> chudp_accounts u \<and> peers_ok u \<and> ud_local u = et_machine e)"
proof -
  have "reach ether_starts (ether_step F N) (e, w)"
    using reach_from [OF assms(2), of ether_starts] chaos_start_ok(1) [OF assms(1)] by simp
  then show ?thesis using ether.reach_inv chaos_start_ok(2) [OF assms(1)] by (fastforce simp: ether_ok_def)
qed

text \<open>A board with the fabric's model behind it, on a cable with nobody named on it.\<close>

definition wit_board :: "face_model board" where
  "wit_board = \<lparr>bd_log = True, bd_mem = True, bd_tally = Some (0x8000, 0x8000), bd_face = \<lambda>_. Some chaos_model_init,
     bd_inet_pton = \<lambda>_. None, bd_getaddrinfo = \<lambda>_. Some 0x0A000001\<rparr>"

lemma wit_starts:
  "\<exists>m. chaos_start model_face cable_net wit_board 0x43C00000 [''--chaos-udp''] w =
    Inr (ether_of (Some m) (Some (chudp_empty\<lparr>ud_local := 0xFE01\<rparr>)) 0xFE01, w)"
  by (simp add: chaos_start_def chaos_arg_def chudp_flag_without_cable_def wit_board_def chaos_no_flags_def start_face_def cadr_guard_def
      cadr_tally_ok_def start_udp_def udp_endpoint_def chudp_bind_def cable_net_def ether_of_def chaos_face_ident_def model_face_def
      model_read_def model_val_def advance_def chaos_model_init_def Let_def)

theorem chaos_run_accounts_witness:
  "\<exists>s0 did e w. chaos_start model_face cable_net wit_board 0x43C00000 [''--chaos-udp''] (one_up\<lparr>cb_in := [[1, 2, 3]]\<rparr>) = Inr s0 \<and>
    ether_turn model_face cable_net 1 (fst s0) (snd s0) = (did, e, w) \<and> inject_accounts (et_inject e)"
proof -
  obtain m where s: "chaos_start model_face cable_net wit_board 0x43C00000 [''--chaos-udp''] (one_up\<lparr>cb_in := [[1, 2, 3]]\<rparr>) =
      Inr (ether_of (Some m) (Some (chudp_empty\<lparr>ud_local := 0xFE01\<rparr>)) 0xFE01, one_up\<lparr>cb_in := [[1, 2, 3]]\<rparr>)"
    using wit_starts by blast
  let ?s = "(ether_of (Some m) (Some (chudp_empty\<lparr>ud_local := 0xFE01\<rparr>)) 0xFE01, one_up\<lparr>cb_in := [[1, 2, 3]]\<rparr>)"
  obtain did e w where t: "ether_turn model_face cable_net 1 (fst ?s) (snd ?s) = (did, e, w)"
    by (cases "ether_turn model_face cable_net 1 (fst ?s) (snd ?s)") auto
  have "reach (\<lambda>x. x = ?s) (ether_step model_face cable_net) ?s" by (rule reach_init) simp
  then have "reach (\<lambda>x. x = ?s) (ether_step model_face cable_net) (e, w)" by (rule reach_step) (rule ether_turns [OF t [simplified]])
  from chaos_run_accounts [OF s this] show ?thesis using s t by blast
qed

end
