(* ===== verification/Input_Link.thy ===== *)
theory Input_Link
  imports C_String
begin

text \<open>
  \<^verbatim>\<open>cadr_input_link.h\<close> and \<^verbatim>\<open>cadr_input_link.c\<close>: the link by which a second program gives keys and mouse
  movement to the one that owns the machine's input face.  The sockets are parameters: what a read
  of a client's descriptor gave, and whether the greeting went back.  The calls of the sink are
  listed in the order they are made; none of them can change the link.
\<close>

unbundle bit_operations_syntax

abbreviation (input) CADR_INPUT_LINK_MAGIC :: u32 where "CADR_INPUT_LINK_MAGIC \<equiv> 0x494E4C4B"
abbreviation (input) CADR_INPUT_LINK_VERSION :: u32 where "CADR_INPUT_LINK_VERSION \<equiv> 1"
abbreviation (input) CADR_INPUT_LINK_HELLO :: nat where "CADR_INPUT_LINK_HELLO \<equiv> 8"
abbreviation (input) CADR_INPUT_LINK_MSG :: nat where "CADR_INPUT_LINK_MSG \<equiv> 12"
abbreviation (input) CADR_INPUT_LINK_MAX_CLIENTS :: nat where "CADR_INPUT_LINK_MAX_CLIENTS \<equiv> 4"
abbreviation (input) CADR_INPUT_LINK_DOWN_MAX :: nat where "CADR_INPUT_LINK_DOWN_MAX \<equiv> 20"
abbreviation (input) CADR_INPUT_KEY :: u8 where "CADR_INPUT_KEY \<equiv> 1"
abbreviation (input) CADR_INPUT_POINTER :: u8 where "CADR_INPUT_POINTER \<equiv> 2"

section \<open>The record\<close>

text \<open>The motion is 16 bits, read as signed by the sink.\<close>

record cadr_input_event =
  ev_type :: u8
  ev_down :: u8
  ev_buttons :: u8
  ev_dx :: u16
  ev_dy :: u16
  ev_keysym :: u32

definition put16 :: "u16 \<Rightarrow> u8 list" where
  "put16 v = [ucast (v AND 0xFF), ucast (drop_bit 8 v)]"

definition get16 :: "u8 list \<Rightarrow> u16" where
  "get16 b = ucast (b ! 0) OR push_bit 8 (ucast (b ! 1))"

definition put32 :: "u32 \<Rightarrow> u8 list" where
  "put32 v = [ucast (v AND 0xFF), ucast (drop_bit 8 v AND 0xFF), ucast (drop_bit 16 v AND 0xFF), ucast (drop_bit 24 v AND 0xFF)]"

definition get32 :: "u8 list \<Rightarrow> u32" where
  "get32 b = ucast (b ! 0) OR push_bit 8 (ucast (b ! 1)) OR push_bit 16 (ucast (b ! 2)) OR push_bit 24 (ucast (b ! 3))"

definition cadr_input_encode :: "cadr_input_event \<Rightarrow> u8 list" where
  "cadr_input_encode e =
     [ev_type e, if ev_down e \<noteq> 0 then 1 else 0, ev_buttons e AND 7, 0] @ put16 (ev_dx e) @ put16 (ev_dy e) @ put32 (ev_keysym e)"

definition cadr_input_decode :: "u8 list \<Rightarrow> cadr_input_event option" where
  "cadr_input_decode b =
     (let e = \<lparr>ev_type = b ! 0, ev_down = if b ! 1 \<noteq> 0 then 1 else 0, ev_buttons = b ! 2 AND 7, ev_dx = get16 (drop 4 b),
               ev_dy = get16 (drop 6 b), ev_keysym = get32 (drop 8 b)\<rparr>
      in if ev_type e \<noteq> CADR_INPUT_KEY \<and> ev_type e \<noteq> CADR_INPUT_POINTER then None else Some e)"

definition hello_bytes :: "u8 list" where
  "hello_bytes = put32 CADR_INPUT_LINK_MAGIC @ put32 CADR_INPUT_LINK_VERSION"

definition hello_ok :: "u8 list \<Rightarrow> bool" where
  "hello_ok b \<longleftrightarrow> get32 b = CADR_INPUT_LINK_MAGIC \<and> get32 (drop 4 b) = CADR_INPUT_LINK_VERSION"

section \<open>The server\<close>

text \<open>\<open>ic_in\<close> is the first \<^verbatim>\<open>in_len\<close> bytes of the client's buffer of 48, \<open>ic_down\<close> its first \<^verbatim>\<open>downs\<close> keysyms.\<close>

record cadr_input_client =
  ic_fd :: nat
  ic_greeted :: bool
  ic_in :: "u8 list"
  ic_down :: "u32 list"
  ic_buttons :: u8

record cadr_input_link =
  il_listening :: bool
  il_client :: "cadr_input_client list"
  il_connects :: ulong
  il_drops :: ulong
  il_refused :: ulong
  il_rejected :: ulong
  il_events :: ulong

datatype sink_call = Sink_event | Sink_key u32 bool | Sink_move u16 u16 | Sink_buttons u8

definition link_empty :: cadr_input_link where
  "link_empty = \<lparr>il_listening = True, il_client = [], il_connects = 0, il_drops = 0, il_refused = 0, il_rejected = 0, il_events = 0\<rparr>"

definition buttons_or :: "cadr_input_link \<Rightarrow> u8" where
  "buttons_or l = fold (\<lambda>c m. m OR ic_buttons c) (il_client l) 0 AND 7"

definition holds :: "cadr_input_client \<Rightarrow> u32 \<Rightarrow> bool" where
  "holds c keysym \<longleftrightarrow> keysym \<in> set (ic_down c)"

definition note_down :: "u32 \<Rightarrow> bool \<Rightarrow> cadr_input_client \<Rightarrow> cadr_input_client" where
  "note_down keysym down c =
     (if down then
        (if \<not> holds c keysym \<and> length (ic_down c) < CADR_INPUT_LINK_DOWN_MAX then c\<lparr>ic_down := ic_down c @ [keysym]\<rparr> else c)
      else c\<lparr>ic_down := remove1 keysym (ic_down c)\<rparr>)"

text \<open>A client that must go: its keys come up, the last client takes its place, and the switches are told.\<close>

definition forget :: "nat \<Rightarrow> cadr_input_link \<Rightarrow> cadr_input_link \<times> sink_call list" where
  "forget k l =
     (let c = il_client l ! k; n = length (il_client l);
          l' = l\<lparr>il_client := take (n - 1) ((il_client l)[k := il_client l ! (n - 1)]), il_drops := il_drops l + 1\<rparr>
      in (l', map (\<lambda>key. Sink_key key False) (ic_down c) @ [Sink_buttons (buttons_or l')]))"

text \<open>A connection accepted, by its descriptor; \<open>ok\<close> is whether it could be made not to block.\<close>

definition accept_one :: "nat \<Rightarrow> bool \<Rightarrow> cadr_input_link \<Rightarrow> cadr_input_link" where
  "accept_one fd ok l =
     (if CADR_INPUT_LINK_MAX_CLIENTS \<le> length (il_client l) then l\<lparr>il_refused := il_refused l + 1\<rparr>
      else if \<not> ok then l
      else l\<lparr>il_client := il_client l @ [\<lparr>ic_fd = fd, ic_greeted = False, ic_in = [], ic_down = [], ic_buttons = 0\<rparr>],
             il_connects := il_connects l + 1\<rparr>)"

text \<open>One record of client \<open>k\<close>, already decoded.\<close>

definition one_record :: "nat \<Rightarrow> cadr_input_event \<Rightarrow> cadr_input_link \<Rightarrow> cadr_input_link \<times> sink_call list" where
  "one_record k e l =
     (let c = il_client l ! k
      in if ev_type e = CADR_INPUT_KEY then
           (l\<lparr>il_client := (il_client l)[k := note_down (ev_keysym e) (ev_down e \<noteq> 0) c]\<rparr>, [Sink_key (ev_keysym e) (ev_down e \<noteq> 0)])
         else let moves = (if ev_dx e \<noteq> 0 \<or> ev_dy e \<noteq> 0 then [Sink_move (ev_dx e) (ev_dy e)] else [])
           in if ev_buttons e \<noteq> ic_buttons c then
                (let l = l\<lparr>il_client := (il_client l)[k := c\<lparr>ic_buttons := ev_buttons e\<rparr>]\<rparr> in (l, moves @ [Sink_buttons (buttons_or l)]))
              else (l, moves))"

text \<open>The records a client's buffer holds whole; whether the client stays.\<close>

function records :: "nat \<Rightarrow> cadr_input_link \<Rightarrow> bool \<times> cadr_input_link \<times> sink_call list" where
  "records k l =
     (let c = il_client l ! k
      in if k < length (il_client l) \<and> CADR_INPUT_LINK_MSG \<le> length (ic_in c) then
           (case cadr_input_decode (ic_in c) of
              None \<Rightarrow> (False, l\<lparr>il_rejected := il_rejected l + 1\<rparr>, [])
            | Some e \<Rightarrow>
                (let l = l\<lparr>il_client := (il_client l)[k := c\<lparr>ic_in := drop CADR_INPUT_LINK_MSG (ic_in c)\<rparr>], il_events := il_events l + 1\<rparr>;
                     (l, calls) = one_record k e l;
                     (stays, l, later) = records k l
                 in (stays, l, Sink_event # calls @ later)))
         else (True, l, []))"
  by auto
termination
proof (relation "measure (\<lambda>(k, l). length (ic_in (il_client l ! k)))")
  fix k l c e l1 l2 x calls
  assume c: "c = il_client l ! k" and k: "k < length (il_client l) \<and> CADR_INPUT_LINK_MSG \<le> length (ic_in c)"
    and l1: "l1 = l\<lparr>il_client := (il_client l)[k := c\<lparr>ic_in := drop CADR_INPUT_LINK_MSG (ic_in c)\<rparr>], il_events := il_events l + 1\<rparr>"
    and o: "x = one_record k e l1" "(l2, calls) = x"
  then have "ic_in (il_client l2 ! k) = drop 12 (ic_in c)"
    by (auto simp: one_record_def Let_def note_down_def split: if_splits)
  then show "((k, l2), k, l) \<in> measure (\<lambda>(k, l). length (ic_in (il_client l ! k)))" using c k by auto
qed simp

declare records.simps [simp del]

datatype read_result = Read_closed | Read_again | Read_failed | Read_got "u8 list"

text \<open>One client's bytes: the greeting if it is still owed, and then whole records.\<close>

definition step :: "nat \<Rightarrow> read_result \<Rightarrow> bool \<Rightarrow> cadr_input_link \<Rightarrow> bool \<times> cadr_input_link \<times> sink_call list" where
  "step k rd wrote l =
     (case rd of
        Read_closed \<Rightarrow> (False, l, [])
      | Read_again \<Rightarrow> (True, l, [])
      | Read_failed \<Rightarrow> (False, l, [])
      | Read_got got \<Rightarrow>
          (let c = (il_client l ! k)\<lparr>ic_in := ic_in (il_client l ! k) @ got\<rparr>;
               l = l\<lparr>il_client := (il_client l)[k := c]\<rparr>
           in if \<not> ic_greeted c then
                (if length (ic_in c) < CADR_INPUT_LINK_HELLO then (True, l, [])
                 else if \<not> hello_ok (ic_in c) then (False, l\<lparr>il_rejected := il_rejected l + 1\<rparr>, [])
                 else if \<not> wrote then (False, l, [])
                 else records k (l\<lparr>il_client := (il_client l)[k := c\<lparr>ic_greeted := True, ic_in := drop CADR_INPUT_LINK_HELLO (ic_in c)\<rparr>]\<rparr>))
              else records k l))"

lemma one_record_length: "length (il_client (fst (one_record k e l))) = length (il_client l)"
  by (simp add: one_record_def Let_def)

lemma one_record_in: "k < length (il_client l) \<Longrightarrow> ic_in (il_client (fst (one_record k e l)) ! k) = ic_in (il_client l ! k)"
  by (simp add: one_record_def Let_def note_down_def)

text \<open>The record taken off the front of a client's buffer.\<close>

definition took :: "nat \<Rightarrow> cadr_input_link \<Rightarrow> cadr_input_link" where
  "took k l = l\<lparr>il_client := (il_client l)[k := (il_client l ! k)\<lparr>ic_in := drop CADR_INPUT_LINK_MSG (ic_in (il_client l ! k))\<rparr>],
     il_events := il_events l + 1\<rparr>"

lemma records_stop: "length (ic_in (il_client l ! k)) < 12 \<Longrightarrow> records k l = (True, l, [])"
  by (subst records.simps) simp

lemma records_bad:
  "k < length (il_client l) \<Longrightarrow> 12 \<le> length (ic_in (il_client l ! k)) \<Longrightarrow> cadr_input_decode (ic_in (il_client l ! k)) = None \<Longrightarrow>
   records k l = (False, l\<lparr>il_rejected := il_rejected l + 1\<rparr>, [])"
  by (subst records.simps) simp

lemma records_go:
  "k < length (il_client l) \<Longrightarrow> 12 \<le> length (ic_in (il_client l ! k)) \<Longrightarrow> cadr_input_decode (ic_in (il_client l ! k)) = Some e \<Longrightarrow>
   records k l = (case one_record k e (took k l) of (l1, calls) \<Rightarrow>
     case records k l1 of (stays, l2, later) \<Rightarrow> (stays, l2, Sink_event # calls @ later))"
  by (subst records.simps) (simp add: Let_def took_def)

lemma one_record_took:
  assumes "one_record k e (took k l) = (l1, calls)" "k < length (il_client l)"
  shows "length (il_client l1) = length (il_client l)" "ic_in (il_client l1 ! k) = drop 12 (ic_in (il_client l ! k))"
  using one_record_length [of k e "took k l"] one_record_in [of k "took k l" e] assms by (simp_all add: took_def)

lemma records_induct [case_names stop bad go]:
  assumes stop: "\<And>l. \<not> (k < length (il_client l) \<and> 12 \<le> length (ic_in (il_client l ! k))) \<Longrightarrow> P l"
    and bad: "\<And>l. k < length (il_client l) \<Longrightarrow> 12 \<le> length (ic_in (il_client l ! k)) \<Longrightarrow>
      cadr_input_decode (ic_in (il_client l ! k)) = None \<Longrightarrow> P l"
    and go: "\<And>l e l1 calls. k < length (il_client l) \<Longrightarrow> 12 \<le> length (ic_in (il_client l ! k)) \<Longrightarrow>
      cadr_input_decode (ic_in (il_client l ! k)) = Some e \<Longrightarrow> one_record k e (took k l) = (l1, calls) \<Longrightarrow> P l1 \<Longrightarrow> P l"
  shows "P l"
proof (induction "length (ic_in (il_client l ! k))" arbitrary: l rule: less_induct)
  case less
  show ?case
  proof (cases "k < length (il_client l) \<and> 12 \<le> length (ic_in (il_client l ! k))")
    case True
    show ?thesis
    proof (cases "cadr_input_decode (ic_in (il_client l ! k))")
      case (Some e)
      obtain l1 calls where o: "one_record k e (took k l) = (l1, calls)" by (cases "one_record k e (took k l)")
      have "length (ic_in (il_client l1 ! k)) < length (ic_in (il_client l ! k))" using one_record_took(2) [OF o] True by auto
      from less [OF this] show ?thesis using go [OF _ _ Some o] True by simp
    qed (use True bad in simp)
  qed (use stop in simp)
qed

lemma records_length: "length (il_client (fst (snd (records k l)))) = length (il_client l)"
proof (induction l rule: records_induct [where k = k])
  case (stop l)
  then show ?case by (subst records.simps) auto
next
  case (bad l)
  then show ?case by (simp add: records_bad)
next
  case (go l e l1 calls)
  then show ?case using one_record_took(1) [OF go(4, 1)] by (simp add: records_go case_prod_unfold)
qed

lemma step_length: "length (il_client (fst (snd (step k rd wrote l)))) = length (il_client l)"
  by (simp add: step_def Let_def records_length split: read_result.splits)

lemma forget_length: "k < length (il_client l) \<Longrightarrow> length (il_client (fst (forget k l))) = length (il_client l) - 1"
  by (simp add: forget_def Let_def)

text \<open>What \<^verbatim>\<open>poll\<close> said of a descriptor, and what was read of it and written to it.\<close>

record poll_answer =
  pa_gone :: bool
  pa_in :: bool
  pa_read :: read_result
  pa_wrote :: bool

function poll_clients :: "(nat \<Rightarrow> poll_answer) \<Rightarrow> nat \<Rightarrow> cadr_input_link \<Rightarrow> cadr_input_link \<times> sink_call list" where
  "poll_clients said k l =
     (if k < length (il_client l) then
        (let a = said (ic_fd (il_client l ! k));
             (stays, l', calls) = (if pa_gone a then (False, l, []) else if pa_in a then step k (pa_read a) (pa_wrote a) l else (True, l, []))
         in if stays then (case poll_clients said (k + 1) l' of (l2, later) \<Rightarrow> (l2, calls @ later))
            else case forget k l' of (l1, ups) \<Rightarrow> (case poll_clients said k l1 of (l2, later) \<Rightarrow> (l2, calls @ ups @ later)))
      else (l, []))"
  by auto
termination
  by (relation "measure (\<lambda>(said, k, l). length (il_client l) - k)")
    (use step_length forget_length in \<open>auto simp: prod_eq_iff split: if_splits\<close>)

definition cadr_input_link_poll :: "(nat \<times> bool) list \<Rightarrow> (nat \<Rightarrow> poll_answer) \<Rightarrow> cadr_input_link \<Rightarrow> cadr_input_link \<times> sink_call list" where
  "cadr_input_link_poll accepted said l =
     (if \<not> il_listening l then (l, [])
      else poll_clients said 0 (fold (\<lambda>(fd, ok) l. accept_one fd ok l) accepted l))"

fun close_clients :: "nat \<Rightarrow> cadr_input_link \<Rightarrow> cadr_input_link \<times> sink_call list" where
  "close_clients 0 l = (l, [])"
| "close_clients (Suc n) l = (case forget n l of (l, ups) \<Rightarrow> case close_clients n l of (l, later) \<Rightarrow> (l, ups @ later))"

definition cadr_input_link_close :: "cadr_input_link \<Rightarrow> cadr_input_link \<times> sink_call list" where
  "cadr_input_link_close l = (case close_clients (length (il_client l)) l of (l, ups) \<Rightarrow> (l\<lparr>il_listening := False\<rparr>, ups))"

section \<open>The client\<close>

text \<open>\<open>lc_back\<close> is as much of the greeting as has come back.\<close>

record cadr_input_link_client =
  lc_open :: bool
  lc_back :: "u8 list"
  lc_greeted :: bool

datatype client_read = Client_got "u8 list" | Client_again | Client_interrupted | Client_closed | Client_failed

text \<open>1, 0 or -1 of \<^verbatim>\<open>cadr_input_link_greet\<close>, over what its reads gave.\<close>

datatype greet = Greeted | Greet_owed | Greet_failed

fun greet_reads :: "client_read list \<Rightarrow> u8 list \<Rightarrow> greet \<times> u8 list" where
  "greet_reads rs b =
     (if CADR_INPUT_LINK_HELLO \<le> length b then (if hello_ok b then Greeted else Greet_failed, b)
      else case rs of
          [] \<Rightarrow> (Greet_owed, b)
        | Client_got d # rs \<Rightarrow> greet_reads rs (b @ take (CADR_INPUT_LINK_HELLO - length b) d)
        | Client_again # rs \<Rightarrow> (Greet_owed, b)
        | Client_interrupted # rs \<Rightarrow> greet_reads rs b
        | Client_closed # rs \<Rightarrow> (Greet_failed, b)
        | Client_failed # rs \<Rightarrow> (Greet_failed, b))"

declare greet_reads.simps [simp del]

definition cadr_input_link_greet :: "client_read list \<Rightarrow> cadr_input_link_client \<Rightarrow> greet \<times> cadr_input_link_client" where
  "cadr_input_link_greet rs c =
     (if lc_greeted c then (Greeted, c)
      else if \<not> lc_open c then (Greet_failed, c)
      else case greet_reads rs (lc_back c) of (g, b) \<Rightarrow> (g, c\<lparr>lc_back := b, lc_greeted := (g = Greeted)\<rparr>))"

datatype client_write = Client_put nat | Client_write_interrupted | Client_write_failed

text \<open>How much of the record went, and whether all of it did; the writes run out only when it is done.\<close>

fun send_writes :: "client_write list \<Rightarrow> nat \<Rightarrow> bool \<times> nat" where
  "send_writes ws at =
     (if CADR_INPUT_LINK_MSG \<le> at then (True, at)
      else case ws of
          [] \<Rightarrow> (False, at)
        | Client_put n # ws \<Rightarrow> (if 0 < n then send_writes ws (at + n) else (False, at))
        | Client_write_interrupted # ws \<Rightarrow> send_writes ws at
        | Client_write_failed # ws \<Rightarrow> (False, at))"

declare send_writes.simps [simp del]

text \<open>What of a record goes out, and whether it went whole.\<close>

definition cadr_input_link_send :: "client_write list \<Rightarrow> cadr_input_event \<Rightarrow> cadr_input_link_client \<Rightarrow> bool \<times> u8 list" where
  "cadr_input_link_send ws e c =
     (if \<not> lc_open c \<or> \<not> lc_greeted c then (False, [])
      else case send_writes ws 0 of (ok, n) \<Rightarrow> (ok, take n (cadr_input_encode e)))"

end
