(* ===== verification/Input_Link_Props.thy ===== *)
theory Input_Link_Props
  imports Input_Link
begin

text \<open>
  What the input link promises: a record is read as it was written, however its bytes arrive, and a
  source that goes away leaves no key down.
\<close>

unbundle bit_operations_syntax

section \<open>Records\<close>

definition event_ok :: "cadr_input_event \<Rightarrow> bool" where
  "event_ok e \<longleftrightarrow> ev_type e \<in> {CADR_INPUT_KEY, CADR_INPUT_POINTER} \<and> ev_down e \<le> 1 \<and> ev_buttons e < 8"

lemma length_encode [simp]: "length (cadr_input_encode e) = 12"
  by (simp add: cadr_input_encode_def put16_def put32_def)

lemma bit_FF8: "bit (0xFF :: 'a::len word) n \<longleftrightarrow> n < 8" if "8 \<le> LENGTH('a)"
proof -
  have "(0xFF :: 'a word) = mask 8" by (simp add: mask_eq_exp_minus_1)
  then show ?thesis using that by (simp only: bit_mask_iff possible_bit_word) auto
qed

lemma get16_put16: "get16 (put16 v @ r) = v"
proof (rule bit_word_eqI)
  fix n assume "n < LENGTH(16)"
  then show "bit (get16 (put16 v @ r)) n = bit v n"
    using bit_FF8 [where 'a = 16, of n] by (auto simp: get16_def put16_def bit_simps)
qed

lemma ucast_low: "ucast (x AND 0xFF :: u32) = (ucast x :: u8)"
proof (rule bit_word_eqI)
  fix n assume "n < LENGTH(8)"
  then show "bit (ucast (x AND 0xFF :: u32) :: u8) n = bit (ucast x :: u8) n"
    using bit_FF8 [where 'a = 32, of n] by (simp add: bit_simps)
qed

lemma get32_put32: "get32 (put32 v @ r) = v"
proof -
  have "put32 v = bytes_of_word v" unfolding put32_def ucast_low by (simp add: bytes_of_word_expand byte_of_def)
  moreover have "get32 b = le32 (b ! 0) (b ! 1) (b ! 2) (b ! 3)" for b by (simp add: get32_def le32_def)
  ultimately show ?thesis by (simp add: bytes_of_word_expand)
qed

lemma and7: "x < 8 \<Longrightarrow> x AND 7 = x" for x :: u8
proof -
  assume x: "x < 8"
  have m: "(7 :: u8) = mask 3" by (simp add: mask_eq_exp_minus_1)
  have "unat x < 8" using x by (simp add: word_less_nat_alt)
  then have "unat (x AND 7) = unat x"
    unfolding m take_bit_eq_mask [symmetric] unsigned_take_bit_eq by (simp add: take_bit_nat_eq_self)
  then show ?thesis by (rule unsigned_word_eqI)
qed

lemma decode_encode:
  assumes "event_ok e"
  shows "cadr_input_decode (cadr_input_encode e @ r) = Some e"
proof -
  have d: "(if ev_down e \<noteq> 0 then 1 else 0) = ev_down e"
  proof -
    have "unat (ev_down e) \<le> 1" using assms by (simp add: event_ok_def word_le_nat_alt)
    then have "unat (ev_down e) = 0 \<or> unat (ev_down e) = 1" by linarith
    then show ?thesis by (metis unsigned_0 unsigned_1 unsigned_word_eqI)
  qed
  let ?b = "cadr_input_encode e @ r"
  have b: "?b ! 0 = ev_type e" "?b ! 1 = (if ev_down e \<noteq> 0 then 1 else 0)" "?b ! 2 = ev_buttons e AND 7"
    by (simp_all add: cadr_input_encode_def)
  have "drop 4 ?b = put16 (ev_dx e) @ put16 (ev_dy e) @ put32 (ev_keysym e) @ r"
    "drop 6 ?b = put16 (ev_dy e) @ put32 (ev_keysym e) @ r" "drop 8 ?b = put32 (ev_keysym e) @ r"
    by (simp_all add: cadr_input_encode_def put16_def)
  then have g: "get16 (drop 4 ?b) = ev_dx e" "get16 (drop 6 ?b) = ev_dy e" "get32 (drop 8 ?b) = ev_keysym e"
    by (simp_all only: get16_put16 get32_put32)
  have m: "ev_buttons e AND 7 = ev_buttons e" using assms by (simp add: event_ok_def and7)
  show ?thesis
    unfolding cadr_input_decode_def Let_def g b m using assms d m by (cases e) (auto simp: event_ok_def)
qed

section \<open>However the bytes arrive\<close>

definition add_in :: "nat \<Rightarrow> u8 list \<Rightarrow> cadr_input_link \<Rightarrow> cadr_input_link" where
  "add_in k b l = l\<lparr>il_client := (il_client l)[k := (il_client l ! k)\<lparr>ic_in := ic_in (il_client l ! k) @ b\<rparr>]\<rparr>"

lemma add_in_simps [simp]:
  "length (il_client (add_in k b l)) = length (il_client l)"
  "k < length (il_client l) \<Longrightarrow> il_client (add_in k b l) ! k = (il_client l ! k)\<lparr>ic_in := ic_in (il_client l ! k) @ b\<rparr>"
  "add_in k [] l = l"
  by (simp_all add: add_in_def)

lemma add_in_add_in: "k < length (il_client l) \<Longrightarrow> add_in k b (add_in k a l) = add_in k (a @ b) l"
  by (simp add: add_in_def)

lemma buttons_add: "k < length (il_client l) \<Longrightarrow> buttons_or (add_in k b l) = buttons_or l"
proof -
  assume k: "k < length (il_client l)"
  have "map ic_buttons (il_client (add_in k b l)) = map ic_buttons (il_client l)"
    using k by (intro nth_equalityI) (auto simp: add_in_def nth_list_update)
  moreover have "buttons_or x = fold (\<lambda>y m. m OR y) (map ic_buttons (il_client x)) 0 AND 7" for x
    by (simp add: buttons_or_def fold_map o_def)
  ultimately show ?thesis by simp
qed

lemma client_comm:
  "c\<lparr>ic_in := x, ic_buttons := y\<rparr> = c\<lparr>ic_buttons := y, ic_in := x\<rparr>" "c\<lparr>ic_in := x, ic_down := z\<rparr> = c\<lparr>ic_down := z, ic_in := x\<rparr>"
  for c :: cadr_input_client
  by (cases c; simp)+

lemma one_record_add:
  assumes "k < length (il_client l)"
  shows "one_record k e (add_in k b l) = (case one_record k e l of (l1, c) \<Rightarrow> (add_in k b l1, c))"
proof -
  let ?l = "l\<lparr>il_client := (il_client l)[k := (il_client l ! k)\<lparr>ic_buttons := ev_buttons e\<rparr>]\<rparr>"
  have "buttons_or (add_in k b ?l) = buttons_or ?l" using assms by (intro buttons_add) simp
  then show ?thesis
    using assms by (simp add: one_record_def Let_def note_down_def holds_def add_in_def client_comm)
qed

lemma decode_append: "12 \<le> length a \<Longrightarrow> cadr_input_decode (a @ b) = cadr_input_decode a"
proof -
  assume l: "12 \<le> length a"
  then have "get16 (drop 4 a @ b) = get16 (drop 4 a)" "get16 (drop 6 a @ b) = get16 (drop 6 a)" "get32 (drop 8 a @ b) = get32 (drop 8 a)"
    by (simp_all add: get16_def get32_def nth_append)
  moreover have "a \<noteq> []" using l by auto
  ultimately show ?thesis using l by (simp add: cadr_input_decode_def nth_append)
qed

lemma took_add: "k < length (il_client l) \<Longrightarrow> 12 \<le> length (ic_in (il_client l ! k)) \<Longrightarrow> took k (add_in k b l) = add_in k b (took k l)"
  by (simp add: took_def add_in_def)

text \<open>What more bytes do, after those already there have been looked at.\<close>

lemma records_more:
  "k < length (il_client l) \<Longrightarrow> records k l = (stays, l1, calls) \<Longrightarrow>
   (if stays then records k (add_in k b l) = (case records k (add_in k b l1) of (s, l2, later) \<Rightarrow> (s, l2, calls @ later))
    else \<not> fst (records k (add_in k b l)))"
proof (induction l arbitrary: stays l1 calls rule: records_induct [where k = k])
  case (stop l)
  then have "records k l = (True, l, [])" by (intro records_stop) simp
  then show ?case using stop(3) by (auto split: prod.splits)
next
  case (bad l)
  then have "cadr_input_decode (ic_in (il_client (add_in k b l) ! k)) = None" by (simp add: decode_append)
  then have "\<not> fst (records k (add_in k b l))" using bad by (subst records_bad) simp_all
  then show ?case using bad records_bad [of k l] by auto
next
  case (go l e l0 c0)
  have l0: "k < length (il_client l0)" using one_record_took(1) [OF go(4, 1)] go(1) by simp
  obtain s1 l2 c2 where r: "records k l0 = (s1, l2, c2)" by (cases "records k l0") auto
  then have eq: "stays = s1" "l1 = l2" "calls = Sink_event # c0 @ c2"
    using go(7) records_go [OF go(1-3)] go(4) by auto
  have "one_record k e (took k (add_in k b l)) = (add_in k b l0, c0)"
    using took_add [OF go(1, 2), of b] one_record_add [of k "took k l" e b] go(1, 4) by (simp add: took_def)
  then have g: "records k (add_in k b l) =
      (case records k (add_in k b l0) of (s, l3, later) \<Rightarrow> (s, l3, Sink_event # c0 @ later))"
    using records_go [of k "add_in k b l" e] go(1-3) by (simp add: decode_append)
  show ?case using go(5) [OF l0 r] g eq by (auto split: prod.splits if_splits)
qed

lemma step_add: "k < length (il_client l) \<Longrightarrow> ic_greeted (il_client l ! k) \<Longrightarrow> step k (Read_got b) w l = records k (add_in k b l)"
  by (simp add: step_def Let_def add_in_def)

lemma one_record_greeted: "k < length (il_client l) \<Longrightarrow> ic_greeted (il_client (fst (one_record k e l)) ! k) = ic_greeted (il_client l ! k)"
  by (simp add: one_record_def Let_def note_down_def)

lemma records_greeted: "k < length (il_client l) \<Longrightarrow> ic_greeted (il_client (fst (snd (records k l))) ! k) = ic_greeted (il_client l ! k)"
proof (induction l rule: records_induct [where k = k])
  case (stop l)
  then show ?case by (simp add: records_stop)
next
  case (bad l)
  then show ?case by (simp add: records_bad)
next
  case (go l e l1 calls)
  then show ?case
    using one_record_took(1) [OF go(4, 1)] one_record_greeted [of k "took k l" e] by (simp add: records_go case_prod_unfold took_def)
qed

lemma records_short: "records k l = (True, l', calls) \<Longrightarrow> k < length (il_client l) \<Longrightarrow> length (ic_in (il_client l' ! k)) < 12"
proof (induction l arbitrary: calls rule: records_induct [where k = k])
  case (stop l)
  then show ?case using records_stop [of l k] by auto
next
  case (bad l)
  then show ?case by (simp add: records_bad)
next
  case (go l e l1 c)
  then show ?case using one_record_took(1) [OF go(4, 1)] by (auto simp: records_go split: prod.splits)
qed

fun feeds :: "nat \<Rightarrow> u8 list list \<Rightarrow> cadr_input_link \<Rightarrow> bool \<times> cadr_input_link \<times> sink_call list" where
  "feeds k [] l = (True, l, [])"
| "feeds k (b # bs) l =
     (case step k (Read_got b) True l of (stays, l1, calls) \<Rightarrow>
        if stays then (case feeds k bs l1 of (s, l2, later) \<Rightarrow> (s, l2, calls @ later)) else (False, l1, calls))"

lemma feeds_records:
  "k < length (il_client l) \<Longrightarrow> ic_greeted (il_client l ! k) \<Longrightarrow> length (ic_in (il_client l ! k)) < 12 \<Longrightarrow>
   records k (add_in k (concat bs) l) = (True, l', calls) \<Longrightarrow> feeds k bs l = (True, l', calls)"
proof (induction bs arbitrary: l l' calls)
  case Nil
  then show ?case by (simp add: records_stop)
next
  case (Cons b bs)
  obtain s l1 c1 where r: "records k (add_in k b l) = (s, l1, c1)" by (cases "records k (add_in k b l)") auto
  have k: "k < length (il_client (add_in k b l))" using Cons.prems(1) by simp
  note m = records_more [OF k r, of "concat bs"]
  have j: "add_in k (concat bs) (add_in k b l) = add_in k (concat (b # bs)) l" using Cons.prems(1) by (simp add: add_in_add_in)
  have s: "s" using m j Cons.prems(4) by (cases s) auto
  have k1: "k < length (il_client l1)" using records_length [of k "add_in k b l"] r Cons.prems(1) by simp
  obtain s2 l2 c2 where r2: "records k (add_in k (concat bs) l1) = (s2, l2, c2)" by (cases "records k (add_in k (concat bs) l1)") auto
  have eq: "s2" "l2 = l'" "calls = c1 @ c2" using m j Cons.prems(4) r2 s by auto
  have g: "ic_greeted (il_client l1 ! k)" using records_greeted [OF k] r Cons.prems(1, 2) by simp
  have sh: "length (ic_in (il_client l1 ! k)) < 12" using records_short [of k "add_in k b l" l1 c1] r s k by simp
  have "feeds k bs l1 = (True, l2, c2)" using Cons.IH [OF k1 g sh] r2 eq(1) by simp
  then show ?case using step_add [OF Cons.prems(1, 2), of b True] r s eq by simp
qed

section \<open>The keys a source holds\<close>

text \<open>The keys down at the machine, as the calls of the sink leave them.\<close>

fun press :: "sink_call \<Rightarrow> u32 set \<Rightarrow> u32 set" where
  "press (Sink_key k d) S = (if d then insert k S else S - {k})"
| "press _ S = S"

definition keys_after :: "sink_call list \<Rightarrow> u32 set \<Rightarrow> u32 set" where
  "keys_after calls S = fold press calls S"

definition key_calls :: "sink_call list \<Rightarrow> (u32 \<times> bool) list" where
  "key_calls calls = List.map_filter (\<lambda>c. case c of Sink_key k d \<Rightarrow> Some (k, d) | _ \<Rightarrow> None) calls"

definition key_events :: "cadr_input_event list \<Rightarrow> (u32 \<times> bool) list" where
  "key_events es = map (\<lambda>e. (ev_keysym e, ev_down e \<noteq> 0)) (filter (\<lambda>e. ev_type e = CADR_INPUT_KEY) es)"

text \<open>The keys a source has down, with no bound on how many.\<close>

definition down_after :: "cadr_input_event \<Rightarrow> u32 list \<Rightarrow> u32 list" where
  "down_after e ds =
     (if ev_type e \<noteq> CADR_INPUT_KEY then ds
      else if ev_down e \<noteq> 0 then (if ev_keysym e \<in> set ds then ds else ds @ [ev_keysym e])
      else remove1 (ev_keysym e) ds)"

fun within :: "u32 list \<Rightarrow> cadr_input_event list \<Rightarrow> bool" where
  "within ds [] \<longleftrightarrow> length ds \<le> CADR_INPUT_LINK_DOWN_MAX"
| "within ds (e # es) \<longleftrightarrow> length ds \<le> CADR_INPUT_LINK_DOWN_MAX \<and> within (down_after e ds) es"

lemma within_now: "within ds es \<Longrightarrow> length ds \<le> 20"
  by (cases es) auto

lemma key_calls_simps [simp]:
  "key_calls [] = []" "key_calls (a @ b) = key_calls a @ key_calls b" "key_calls (Sink_event # c) = key_calls c"
  "key_calls (Sink_key k d # c) = (k, d) # key_calls c" "key_calls (Sink_move x y # c) = key_calls c"
  "key_calls (Sink_buttons m # c) = key_calls c"
  by (simp_all add: key_calls_def map_filter_def)

lemma keys_after_simps [simp]: "keys_after [] S = S" "keys_after (a @ b) S = keys_after b (keys_after a S)"
  "keys_after (c # b) S = keys_after b (press c S)"
  by (simp_all add: keys_after_def)

lemma keys_after_ups: "keys_after (map (\<lambda>k. Sink_key k False) ds) S = S - set ds"
  by (induction ds arbitrary: S) auto

text \<open>One record, while what the source holds fits the list of it.\<close>

lemma one_record_down:
  assumes "k < length (il_client l)" "length (down_after e (ic_down (il_client l ! k))) \<le> 20"
    and "one_record k e l = (l1, calls)"
  shows "ic_down (il_client l1 ! k) = down_after e (ic_down (il_client l ! k))" "il_events l1 = il_events l"
    "key_calls calls = key_events [e]" "keys_after calls S = fold (\<lambda>(q, d). press (Sink_key q d)) (key_events [e]) S"
  using assms by (auto simp: one_record_def Let_def note_down_def holds_def down_after_def key_events_def split: if_splits)

lemma key_events_Cons: "key_events (e # es) = key_events [e] @ key_events es"
  by (simp add: key_events_def)

lemma down_after_keeps:
  assumes "distinct ds" "K \<subseteq> S \<union> set ds"
  shows "distinct (down_after e ds)" "fold (\<lambda>(q, d). press (Sink_key q d)) (key_events [e]) K \<subseteq> S \<union> set (down_after e ds)"
  using assms by (auto simp: down_after_def key_events_def set_remove1_eq)

lemma encode_split: "drop 12 (cadr_input_encode e @ r) = r"
  by (simp add: drop_append)

text \<open>A buffer of whole records: all of them are read, and the source's list stays the keys it has down.\<close>

lemma records_of_events:
  assumes "k < length (il_client l)" "ic_in (il_client l ! k) = concat (map cadr_input_encode es)"
    and "list_all event_ok es" "within (ic_down (il_client l ! k)) es" "distinct (ic_down (il_client l ! k))"
    and "K \<subseteq> S \<union> set (ic_down (il_client l ! k))"
  shows "\<exists>l' calls. records k l = (True, l', calls) \<and> key_calls calls = key_events es \<and>
    il_events l' = il_events l + of_nat (length es) \<and> keys_after calls K \<subseteq> S \<union> set (ic_down (il_client l' ! k))"
  using assms
proof (induction es arbitrary: l K)
  case Nil
  then show ?case by (simp add: records_stop key_events_def)
next
  case (Cons e es)
  let ?c = "il_client l ! k"
  have d: "cadr_input_decode (ic_in ?c) = Some e" using Cons.prems by (simp add: decode_encode)
  obtain l1 c1 where o: "one_record k e (took k l) = (l1, c1)" by (cases "one_record k e (took k l)")
  have t: "k < length (il_client (took k l))" "ic_down (il_client (took k l) ! k) = ic_down ?c" "il_events (took k l) = il_events l + 1"
    using Cons.prems(1) by (simp_all add: took_def)
  have w: "within (down_after e (ic_down ?c)) es" using Cons.prems(4) by simp
  note r = one_record_down [OF t(1) _ o, unfolded t(2), OF within_now [OF w]]
  note kp = down_after_keeps [OF Cons.prems(5, 6), of e]
  have l1: "k < length (il_client l1)" "ic_in (il_client l1 ! k) = concat (map cadr_input_encode es)"
    using one_record_took [OF o Cons.prems(1)] Cons.prems(1, 2) encode_split by simp_all
  from Cons.IH [OF l1 _ _ _ kp(2) [folded r(1)]] r(1) kp(1) w Cons.prems(3)
  obtain l' calls where i: "records k l1 = (True, l', calls)" "key_calls calls = key_events es"
      "il_events l' = il_events l1 + of_nat (length es)"
      "keys_after calls (fold (\<lambda>(q, d). press (Sink_key q d)) (key_events [e]) K) \<subseteq> S \<union> set (ic_down (il_client l' ! k))"
    by auto
  have "records k l = (True, l', Sink_event # c1 @ calls)"
    using records_go [OF Cons.prems(1) _ d] o i(1) Cons.prems(2) by simp
  then show ?case using i r(2-4) t(3) key_events_Cons [of e es] by (simp add: algebra_simps)
qed


text \<open>A source of one key pressed and a pointer moved, in pieces of five bytes and nineteen.\<close>

definition wit_event :: "u32 \<Rightarrow> cadr_input_event" where
  "wit_event q = \<lparr>ev_type = CADR_INPUT_KEY, ev_down = 1, ev_buttons = 0, ev_dx = 0, ev_dy = 0, ev_keysym = q\<rparr>"

definition wit_pointer :: cadr_input_event where
  "wit_pointer = \<lparr>ev_type = CADR_INPUT_POINTER, ev_down = 0, ev_buttons = 1, ev_dx = 0xFFFF, ev_dy = 2, ev_keysym = 0\<rparr>"

definition wit_link :: cadr_input_link where
  "wit_link = link_empty\<lparr>il_client := [\<lparr>ic_fd = 7, ic_greeted = True, ic_in = [], ic_down = [], ic_buttons = 0\<rparr>]\<rparr>"

definition wit_bytes :: "u8 list" where
  "wit_bytes = cadr_input_encode (wit_event 0xFFE3) @ cadr_input_encode wit_pointer"


text \<open>
  The twenty-first key is passed to the machine and not recorded: the source gone, it is still down.
\<close>

lemma twenty_first_key_stays:
  assumes "k < length (il_client l)" "length (ic_down (il_client l ! k)) = 20" "q \<notin> set (ic_down (il_client l ! k))"
    and "one_record k (wit_event q) l = (l', calls)" "forget k l' = (l'', ups)"
  shows "q \<in> keys_after (calls @ ups) S"
  using assms by (auto simp: one_record_def wit_event_def note_down_def holds_def forget_def Let_def keys_after_ups)

end
