(* ===== verification/Qfd_Host.thy ===== *)
theory Qfd_Host
  imports Posix C_String "HOL-Library.List_Lexorder"
begin

text \<open>
  The host as \<^verbatim>\<open>quux-file-device/src/qfd.c\<close> sees it, and the names the machine gives: the file system's calls and
  main memory are a record of functions over a state of their own, any of which may fail; names and
  paths are bytes.  A call that was interrupted is made again, so an answer here is never that.
\<close>

unbundle bit_operations_syntax

section \<open>The host\<close>

type_synonym cstr = "u8 list"

definition octets :: "string \<Rightarrow> cstr" where
  "octets s = map of_char s"

abbreviation (input) SLASH :: u8 where "SLASH \<equiv> 0x2F"
abbreviation (input) DOT :: u8 where "DOT \<equiv> 0x2E"

datatype file_kind = S_DIR | S_REG | S_LNK | S_OTHER

record fstat =
  fs_kind :: file_kind
  fs_dev :: nat
  fs_ino :: nat
  fs_size :: nat
  fs_mtime :: int
  fs_mode :: u32

text \<open>
  \<open>w_list\<close> is a directory read to its end: the names in the order they come, and the error that
  ended it if one did.  \<open>w_reads\<close> is a file read from its start until a read gives nothing or fails:
  what each read gave, and the error.  Memory is in words of 32 bits with their tags left out.
\<close>

record 'w host =
  w_lstat :: "cstr \<Rightarrow> 'w \<Rightarrow> (nat + fstat) \<times> 'w"
  w_stat :: "cstr \<Rightarrow> 'w \<Rightarrow> (nat + fstat) \<times> 'w"
  w_realpath :: "cstr \<Rightarrow> 'w \<Rightarrow> (nat + cstr) \<times> 'w"
  w_list :: "cstr \<Rightarrow> 'w \<Rightarrow> (nat + cstr list \<times> nat option) \<times> 'w"
  w_create :: "cstr \<Rightarrow> 'w \<Rightarrow> (nat + nat) \<times> 'w"
  w_open :: "cstr \<Rightarrow> 'w \<Rightarrow> (nat + nat) \<times> 'w"
  w_mkdir :: "cstr \<Rightarrow> 'w \<Rightarrow> nat option \<times> 'w"
  w_rename :: "cstr \<Rightarrow> cstr \<Rightarrow> 'w \<Rightarrow> nat option \<times> 'w"
  w_renameat2 :: "cstr \<Rightarrow> cstr \<Rightarrow> 'w \<Rightarrow> nat option \<times> 'w"
  w_unlink :: "cstr \<Rightarrow> 'w \<Rightarrow> nat option \<times> 'w"
  w_rmdir :: "cstr \<Rightarrow> 'w \<Rightarrow> nat option \<times> 'w"
  w_chmod :: "cstr \<Rightarrow> u32 \<Rightarrow> 'w \<Rightarrow> 'w"
  w_close :: "nat \<Rightarrow> 'w \<Rightarrow> 'w"
  w_fstat :: "nat \<Rightarrow> 'w \<Rightarrow> (nat + fstat) \<times> 'w"
  w_futimens :: "nat \<Rightarrow> u32 \<Rightarrow> 'w \<Rightarrow> nat option \<times> 'w"
  w_reads :: "nat \<Rightarrow> 'w \<Rightarrow> (u8 list list \<times> nat option) \<times> 'w"
  w_write :: "nat \<Rightarrow> u8 list \<Rightarrow> 'w \<Rightarrow> (nat + nat) \<times> 'w"
  w_pread :: "nat \<Rightarrow> nat \<Rightarrow> nat \<Rightarrow> 'w \<Rightarrow> (nat + u8 list) \<times> 'w"
  w_pwrite :: "nat \<Rightarrow> u8 list \<Rightarrow> nat \<Rightarrow> 'w \<Rightarrow> (nat + nat) \<times> 'w"
  w_pid :: nat
  w_words :: nat
  w_load :: "nat \<Rightarrow> nat \<Rightarrow> 'w \<Rightarrow> u32 list \<times> 'w"
  w_store :: "nat \<Rightarrow> u32 list \<Rightarrow> 'w \<Rightarrow> 'w"

abbreviation (input) QFD_OK :: u32 where "QFD_OK \<equiv> 0"
abbreviation (input) QFD_FNF :: u32 where "QFD_FNF \<equiv> 1"
abbreviation (input) QFD_DNF :: u32 where "QFD_DNF \<equiv> 2"
abbreviation (input) QFD_FAE :: u32 where "QFD_FAE \<equiv> 3"
abbreviation (input) QFD_REF :: u32 where "QFD_REF \<equiv> 4"
abbreviation (input) QFD_ACC :: u32 where "QFD_ACC \<equiv> 5"
abbreviation (input) QFD_ATF :: u32 where "QFD_ATF \<equiv> 6"
abbreviation (input) QFD_DAE :: u32 where "QFD_DAE \<equiv> 7"
abbreviation (input) QFD_DNE :: u32 where "QFD_DNE \<equiv> 8"
abbreviation (input) QFD_NMR :: u32 where "QFD_NMR \<equiv> 9"
abbreviation (input) QFD_IOD :: u32 where "QFD_IOD \<equiv> 10"
abbreviation (input) QFD_WKF :: u32 where "QFD_WKF \<equiv> 11"
abbreviation (input) QFD_IPS :: u32 where "QFD_IPS \<equiv> 12"
abbreviation (input) QFD_NER :: u32 where "QFD_NER \<equiv> 13"
abbreviation (input) QFD_UOP :: u32 where "QFD_UOP \<equiv> 14"
abbreviation (input) QFD_DAT :: u32 where "QFD_DAT \<equiv> 15"
abbreviation (input) QFD_FOR :: u32 where "QFD_FOR \<equiv> 16"
abbreviation (input) QFD_RAD :: u32 where "QFD_RAD \<equiv> 17"
abbreviation (input) QFD_BAD_HANDLE :: u32 where "QFD_BAD_HANDLE \<equiv> 64"
abbreviation (input) QFD_BAD_BUFFER :: u32 where "QFD_BAD_BUFFER \<equiv> 65"
abbreviation (input) QFD_BAD_ARGUMENT :: u32 where "QFD_BAD_ARGUMENT \<equiv> 66"

abbreviation (input) QFD_MAX_HANDLES :: nat where "QFD_MAX_HANDLES \<equiv> 64"
abbreviation (input) QFD_MAX_BUFFER :: nat where "QFD_MAX_BUFFER \<equiv> 65536"
abbreviation (input) QFD_MIN_DIRECTORY :: nat where "QFD_MIN_DIRECTORY \<equiv> 272"
abbreviation (input) QFD_MAX_NAME :: nat where "QFD_MAX_NAME \<equiv> 1024"
abbreviation (input) QFD_MAX_COMPONENT :: nat where "QFD_MAX_COMPONENT \<equiv> 255"
abbreviation (input) QFD_MAX_LOG :: nat where "QFD_MAX_LOG \<equiv> 1024"
abbreviation (input) QFD_MAX_MOUNTS :: nat where "QFD_MAX_MOUNTS \<equiv> 32"

definition QFD_TEMP_PREFIX :: cstr where
  "QFD_TEMP_PREFIX = octets ''.quux-write-''"

abbreviation (input) EPERM :: nat where "EPERM \<equiv> 1"
abbreviation (input) EACCES :: nat where "EACCES \<equiv> 13"
abbreviation (input) EEXIST :: nat where "EEXIST \<equiv> 17"
abbreviation (input) ENOTDIR :: nat where "ENOTDIR \<equiv> 20"
abbreviation (input) EROFS :: nat where "EROFS \<equiv> 30"
abbreviation (input) ENAMETOOLONG :: nat where "ENAMETOOLONG \<equiv> 36"
abbreviation (input) ENOSYS :: nat where "ENOSYS \<equiv> 38"
abbreviation (input) ENOTEMPTY :: nat where "ENOTEMPTY \<equiv> 39"
abbreviation (input) ELOOP :: nat where "ELOOP \<equiv> 40"
abbreviation (input) EDQUOT :: nat where "EDQUOT \<equiv> 122"

definition qfd_errno_status :: "nat \<Rightarrow> u32" where
  "qfd_errno_status e =
     (if e = ELOOP then QFD_ACC
      else if e = ENOENT then QFD_FNF
      else if e = ENOTDIR then QFD_DNF
      else if e = EACCES \<or> e = EPERM then QFD_ACC
      else if e = EROFS then QFD_ATF
      else if e = ENOSPC \<or> e = EDQUOT then QFD_NMR
      else if e = EINVAL \<or> e = ENAMETOOLONG then QFD_IPS
      else if e = ENOTEMPTY then QFD_DNE
      else if e = EEXIST then QFD_FAE
      else if e = EISDIR then QFD_IOD
      else QFD_DAT)"

definition mtime_of :: "fstat \<Rightarrow> u32" where
  "mtime_of st = (if fs_mtime st < 0 then 0 else if 0xFFFFFFFF < fs_mtime st then 0xFFFFFFFF else of_int (fs_mtime st))"

section \<open>Names\<close>

definition path_join :: "cstr \<Rightarrow> cstr \<Rightarrow> cstr" where
  "path_join dir name = dir @ SLASH # name"

definition valid_component :: "cstr \<Rightarrow> bool" where
  "valid_component c \<longleftrightarrow>
     (if length c < 1 \<or> QFD_MAX_COMPONENT < length c then False
      else if \<exists>b \<in> set c. b < 0x20 \<or> 0x7E < b \<or> b = SLASH then False
      else c \<noteq> [DOT] \<and> c \<noteq> [DOT, DOT])"

definition inside :: "cstr \<Rightarrow> cstr \<Rightarrow> bool" where
  "inside path root =
     (let n = length root
      in if root = [SLASH] then path \<noteq> [] \<and> hd path = SLASH
         else take n path = root \<and> (length path = n \<or> path ! n = SLASH))"

text \<open>The parts between the slashes; a single slash at the end is allowed.\<close>

fun split_slash :: "cstr \<Rightarrow> cstr list" where
  "split_slash [] = [[]]"
| "split_slash (b # bs) =
     (if b = SLASH then [] # split_slash bs
      else case split_slash bs of c # cs \<Rightarrow> (b # c) # cs | [] \<Rightarrow> [[b]])"

definition parse_name :: "u8 list \<Rightarrow> u32 + cstr list" where
  "parse_name b =
     (if b = [] \<or> QFD_MAX_NAME < length b \<or> hd b \<noteq> SLASH then Inl QFD_IPS
      else let body = tl b;
               body = (if body \<noteq> [] \<and> last body = SLASH then butlast body else body)
           in if body = [] then Inr []
              else if list_all valid_component (split_slash body) then Inr (split_slash body)
              else Inl QFD_IPS)"

definition qfd_log_line :: "u8 list \<Rightarrow> cstr" where
  "qfd_log_line bytes =
     octets ''log: '' @ concat (map (\<lambda>b. if 0x20 \<le> b \<and> b \<le> 0x7E then [b]
       else [0x5C, 48 + drop_bit 6 b, 48 + (drop_bit 3 b AND 7), 48 + (b AND 7)]) bytes)"

section \<open>Mounts\<close>

record qfd_mount =
  mt_given :: cstr
  mt_path :: cstr
  mt_ro :: bool

text \<open>The named mounts are sorted by name.\<close>

record qfd_mounts =
  mo_default :: "qfd_mount option"
  mo_named :: "(cstr \<times> qfd_mount) list"

datatype mount_err = Mount_unresolved nat | Not_a_folder | Mounted_twice | Too_many_mounts | Second_default

definition split_spec :: "cstr \<Rightarrow> cstr option \<times> cstr \<times> bool" where
  "split_spec spec =
     (let n = length spec; ro = (3 \<le> n \<and> drop (n - 3) spec = octets '',ro''); spec = (if ro then take (n - 3) spec else spec);
          name = takeWhile (\<lambda>b. b \<noteq> 0x3D) spec
      in if 0x3D \<in> set spec \<and> valid_component name then (Some name, drop (length name + 1) spec, ro) else (None, spec, ro))"

definition qfd_mount_add :: "'w host \<Rightarrow> cstr \<Rightarrow> qfd_mounts \<Rightarrow> 'w \<Rightarrow> (mount_err + qfd_mounts) \<times> 'w" where
  "qfd_mount_add H spec m w =
     (case split_spec spec of (name, folder, ro) \<Rightarrow>
      case w_realpath H folder w of
        (Inl e, w) \<Rightarrow> (Inl (Mount_unresolved e), w)
      | (Inr real, w) \<Rightarrow>
          (case w_stat H real w of (st, w) \<Rightarrow>
           (if (case st of Inl _ \<Rightarrow> True | Inr st \<Rightarrow> fs_kind st \<noteq> S_DIR) then Inl Not_a_folder
            else let mt = \<lparr>mt_given = folder, mt_path = real, mt_ro = ro\<rparr>
              in case name of
                   Some name \<Rightarrow>
                     (let before = takeWhile (\<lambda>(n, _). n < name) (mo_named m); after = dropWhile (\<lambda>(n, _). n < name) (mo_named m)
                      in if after \<noteq> [] \<and> fst (hd after) = name then Inl Mounted_twice
                         else if length (mo_named m) = QFD_MAX_MOUNTS then Inl Too_many_mounts
                         else Inr (m\<lparr>mo_named := before @ (name, mt) # after\<rparr>))
                 | None \<Rightarrow> (if mo_default m \<noteq> None then Inl Second_default else Inr (m\<lparr>mo_default := Some mt\<rparr>)), w)))"

definition named_mount :: "qfd_mounts \<Rightarrow> cstr \<Rightarrow> (cstr \<times> qfd_mount) option" where
  "named_mount m name = find (\<lambda>(n, _). n = name) (mo_named m)"

datatype mount_key = KEY_DEFAULT | KEY_NAMED cstr | KEY_BARE

record place =
  pl_key :: mount_key
  pl_root :: "cstr option"
  pl_ro :: bool
  pl_rel :: "cstr list"

definition place_of :: "qfd_mounts \<Rightarrow> cstr list \<Rightarrow> place" where
  "place_of m cs =
     (case (if cs \<noteq> [] then named_mount m (hd cs) else None) of
        Some (n, mt) \<Rightarrow> \<lparr>pl_key = KEY_NAMED n, pl_root = Some (mt_path mt), pl_ro = mt_ro mt, pl_rel = tl cs\<rparr>
      | None \<Rightarrow>
          (case mo_default m of
             Some mt \<Rightarrow> \<lparr>pl_key = KEY_DEFAULT, pl_root = Some (mt_path mt), pl_ro = mt_ro mt, pl_rel = cs\<rparr>
           | None \<Rightarrow> \<lparr>pl_key = KEY_BARE, pl_root = None, pl_ro = True, pl_rel = cs\<rparr>))"

section \<open>A name looked up\<close>

definition is_upper :: "u8 \<Rightarrow> bool" where "is_upper c \<longleftrightarrow> 0x41 \<le> c \<and> c \<le> 0x5A"
definition is_lower :: "u8 \<Rightarrow> bool" where "is_lower c \<longleftrightarrow> 0x61 \<le> c \<and> c \<le> 0x7A"

definition exact_case :: "'w host \<Rightarrow> cstr \<Rightarrow> cstr \<Rightarrow> fstat \<Rightarrow> 'w \<Rightarrow> bool \<times> 'w" where
  "exact_case H dir name found w =
     (if \<not> (\<exists>c \<in> set name. is_upper c \<or> is_lower c) then (True, w)
      else let flipped = map (\<lambda>c. if is_lower c then c - 0x20 else if is_upper c then c + 0x20 else c) name
        in case w_lstat H (path_join dir flipped) w of (st, w) \<Rightarrow>
          if \<not> (case st of Inl _ \<Rightarrow> False | Inr st \<Rightarrow> fs_dev st = fs_dev found \<and> fs_ino st = fs_ino found) then (True, w)
          else case w_list H dir w of
              (Inl _, w) \<Rightarrow> (False, w)
            | (Inr (names, _), w) \<Rightarrow> (name \<in> set names, w))"

record found =
  fo_parent :: cstr
  fo_path :: cstr
  fo_meta :: "fstat option"

text \<open>A component that exists: the path and the meta it goes on with, or the status, or that it leads nowhere.\<close>

datatype resolved = Refused u32 | Nowhere | At cstr fstat

definition resolve_link :: "'w host \<Rightarrow> cstr \<Rightarrow> bool \<Rightarrow> cstr \<Rightarrow> fstat \<Rightarrow> 'w \<Rightarrow> resolved \<times> 'w" where
  "resolve_link H root follows here lm w =
     (if fs_kind lm = S_LNK \<and> follows then
        (case w_realpath H here w of
           (Inr real, w) \<Rightarrow>
             (if \<not> inside real root then (Refused QFD_ACC, w)
              else case w_stat H real w of (Inl e, w) \<Rightarrow> (Refused (qfd_errno_status e), w) | (Inr meta, w) \<Rightarrow> (At real meta, w))
         | (Inl e, w) \<Rightarrow> (if e = ENOENT then Nowhere else Refused (qfd_errno_status e), w))
      else if fs_kind lm = S_LNK then
        (case w_realpath H here w of
           (Inr real, w) \<Rightarrow> (if \<not> inside real root then Refused QFD_ACC else At here lm, w)
         | (Inl e, w) \<Rightarrow> (Refused QFD_ACC, w))
      else (At here lm, w))"

fun walk :: "'w host \<Rightarrow> cstr \<Rightarrow> bool \<Rightarrow> cstr \<Rightarrow> cstr list \<Rightarrow> 'w \<Rightarrow> (u32 + found) \<times> 'w" where
  "walk H root follow cur [] w = (Inl QFD_DNF, w)"
| "walk H root follow cur (c # cs) w =
     (let here = path_join cur c; is_last = (cs = []);
          missing = (if is_last then Inr \<lparr>fo_parent = cur, fo_path = here, fo_meta = None\<rparr> else Inl QFD_DNF)
      in case w_lstat H here w of
           (Inl e, w) \<Rightarrow> (if e \<noteq> ENOENT \<and> e \<noteq> ENOTDIR then Inl (qfd_errno_status e) else missing, w)
         | (Inr lm, w) \<Rightarrow>
             (case exact_case H cur c lm w of (have, w) \<Rightarrow>
                if \<not> have then (missing, w)
                else case resolve_link H root (follow \<or> \<not> is_last) here lm w of
                    (Refused s, w) \<Rightarrow> (Inl s, w)
                  | (Nowhere, w) \<Rightarrow> (missing, w)
                  | (At path meta, w) \<Rightarrow>
                      (if is_last then (Inr \<lparr>fo_parent = cur, fo_path = path, fo_meta = Some meta\<rparr>, w)
                       else if fs_kind meta \<noteq> S_DIR then (Inl QFD_DNF, w)
                       else walk H root follow path cs w)))"

definition lookup :: "'w host \<Rightarrow> place \<Rightarrow> bool \<Rightarrow> 'w \<Rightarrow> (u32 + found) \<times> 'w" where
  "lookup H p follow w =
     (case pl_root p of
        None \<Rightarrow>
          (if pl_rel p = [] then Inl QFD_IOD
           else if length (pl_rel p) = 1 then Inr \<lparr>fo_parent = [], fo_path = [], fo_meta = None\<rparr>
           else Inl QFD_DNF, w)
      | Some root \<Rightarrow>
          (if pl_rel p = [] then
             (case w_stat H root w of
                (Inl e, w) \<Rightarrow> (Inl (qfd_errno_status e), w)
              | (Inr st, w) \<Rightarrow> (Inr \<lparr>fo_parent = root, fo_path = root, fo_meta = Some st\<rparr>, w))
           else walk H root follow root (pl_rel p) w))"

end
