(* ===== verification/Qfd.thy ===== *)
theory Qfd
  imports Qfd_Host
begin

text \<open>
  \<^verbatim>\<open>qfd.c\<close>: the commands of QUUX's file device, over any host.
\<close>

unbundle bit_operations_syntax

section \<open>Directory entries\<close>

record entry =
  en_name :: cstr
  en_dir :: bool
  en_ro :: bool
  en_len :: nat
  en_mtime :: u32

definition entry_of :: "cstr \<Rightarrow> fstat \<Rightarrow> bool \<Rightarrow> entry" where
  "entry_of name m ro =
     (let dir = (fs_kind m = S_DIR)
      in \<lparr>en_name = name, en_dir = dir, en_ro = ro, en_len = if dir then 0 else fs_size m, en_mtime = mtime_of m\<rparr>)"

definition entries_sort :: "entry list \<Rightarrow> entry list" where
  "entries_sort es = sort_key en_name es"

definition is_temp :: "cstr \<Rightarrow> bool" where
  "is_temp name \<longleftrightarrow> take (length QFD_TEMP_PREFIX) name = QFD_TEMP_PREFIX"

fun list_names :: "'w host \<Rightarrow> cstr \<Rightarrow> cstr \<Rightarrow> bool \<Rightarrow> cstr list \<Rightarrow> 'w \<Rightarrow> entry list \<times> 'w" where
  "list_names H dir root ro [] w = ([], w)"
| "list_names H dir root ro (name # names) w =
     (if \<not> valid_component name \<or> is_temp name then list_names H dir root ro names w
      else let p = path_join dir name;
               (m, w) =
                 (case w_lstat H p w of
                    (Inl _, w) \<Rightarrow> (None, w)
                  | (Inr lm, w) \<Rightarrow>
                      (if fs_kind lm = S_LNK then
                         (case w_realpath H p w of
                            (Inl _, w) \<Rightarrow> (None, w)
                          | (Inr real, w) \<Rightarrow>
                              (if \<not> inside real root then (None, w)
                               else case w_stat H real w of (Inl _, w) \<Rightarrow> (None, w) | (Inr m, w) \<Rightarrow> (Some m, w)))
                       else (Some lm, w)));
               (es, w) = list_names H dir root ro names w
        in ((case m of
               Some m \<Rightarrow> if fs_kind m = S_REG \<or> fs_kind m = S_DIR then entry_of name m ro # es else es
             | None \<Rightarrow> es), w))"

definition list_folder :: "'w host \<Rightarrow> cstr \<Rightarrow> cstr \<Rightarrow> bool \<Rightarrow> 'w \<Rightarrow> (u32 + entry list) \<times> 'w" where
  "list_folder H dir root ro w =
     (case w_list H dir w of
        (Inl e, w) \<Rightarrow> (Inl (qfd_errno_status e), w)
      | (Inr (names, failed), w) \<Rightarrow>
          (case list_names H dir root ro names w of (es, w) \<Rightarrow>
             (case failed of Some e \<Rightarrow> Inl (qfd_errno_status e) | None \<Rightarrow> Inr (entries_sort es), w)))"

fun list_mounts :: "'w host \<Rightarrow> (cstr \<times> qfd_mount) list \<Rightarrow> 'w \<Rightarrow> (u32 + entry list) \<times> 'w" where
  "list_mounts H [] w = (Inr [], w)"
| "list_mounts H ((n, mt) # ms) w =
     (case w_stat H (mt_path mt) w of
        (Inl e, w) \<Rightarrow> (Inl (qfd_errno_status e), w)
      | (Inr st, w) \<Rightarrow>
          (case list_mounts H ms w of
             (Inl s, w) \<Rightarrow> (Inl s, w)
           | (Inr es, w) \<Rightarrow> (Inr (entry_of n st (mt_ro mt) # es), w)))"

definition list_at :: "'w host \<Rightarrow> qfd_mounts \<Rightarrow> cstr list \<Rightarrow> 'w \<Rightarrow> (u32 + entry list) \<times> 'w" where
  "list_at H m cs w =
     (if cs = [] then
        (case (case mo_default m of
                 Some mt \<Rightarrow> list_folder H (mt_path mt) (mt_path mt) (mt_ro mt) w
               | None \<Rightarrow> (Inr [], w)) of
           (Inl s, w) \<Rightarrow> (Inl s, w)
         | (Inr es, w) \<Rightarrow>
             (let es = filter (\<lambda>e. named_mount m (en_name e) = None) es
              in case list_mounts H (mo_named m) w of
                   (Inl s, w) \<Rightarrow> (Inl s, w)
                 | (Inr ms, w) \<Rightarrow> (Inr (entries_sort (es @ ms)), w)))
      else let p = place_of m cs
        in case lookup H p True w of
             (Inl s, w) \<Rightarrow> (Inl s, w)
           | (Inr f, w) \<Rightarrow>
               (case fo_meta f of
                  None \<Rightarrow> (Inl QFD_DNF, w)
                | Some st \<Rightarrow>
                    (if fs_kind st = S_DIR then list_folder H (fo_path f) (the (pl_root p)) (pl_ro p) w
                     else (Inl QFD_WKF, w))))"

section \<open>Main memory\<close>

definition qfd_buffer :: "'w host \<Rightarrow> u32 \<Rightarrow> u32 \<Rightarrow> (nat \<times> nat) option" where
  "qfd_buffer H addr len =
     (let at = unat (addr AND 0x0FFFFFFF); n = unat len
      in if at mod 8 \<noteq> 0 \<or> QFD_MAX_BUFFER < n \<or> w_words H < at + (n + 3) div 4 then None else Some (at, n))"

definition bytes_of_buf :: "'w host \<Rightarrow> nat \<times> nat \<Rightarrow> 'w \<Rightarrow> u8 list \<times> 'w" where
  "bytes_of_buf H b w =
     (case b of (at, n) \<Rightarrow> case w_load H at ((n + 3) div 4) w of (v, w) \<Rightarrow> (take n (bytes_of_words v), w))"

definition word_of :: "u8 list \<Rightarrow> nat \<Rightarrow> u32" where
  "word_of data i = fold (\<lambda>k v. v OR push_bit (8 * k) (ucast (data ! (4 * i + k)))) (filter (\<lambda>k. 4 * i + k < length data) [0..<4]) 0"

definition put_bytes_at :: "'w host \<Rightarrow> nat \<Rightarrow> u8 list \<Rightarrow> 'w \<Rightarrow> 'w" where
  "put_bytes_at H at data w = w_store H at (map (word_of data) [0..<(length data + 3) div 4]) w"

section \<open>The device\<close>

text \<open>A handle: none, a file read, or a file written through a temporary file.\<close>

datatype qfd_handle = H_none | H_read nat | H_write nat cstr cstr bool nat

record qfd =
  qd_mounts :: qfd_mounts
  qd_h :: "qfd_handle list"
  qd_temps :: u64
  qd_log :: "cstr list"

definition qfd_init :: qfd where
  "qfd_init = \<lparr>qd_mounts = \<lparr>mo_default = None, mo_named = []\<rparr>, qd_h = replicate QFD_MAX_HANDLES H_none, qd_temps = 0, qd_log = []\<rparr>"

record reply =
  rp_count :: u32
  rp_handle :: u32
  rp_len :: u32
  rp_mtime :: u32
  rp_flags :: u32
  rp_w6 :: u32

definition no_reply :: reply where
  "no_reply = \<lparr>rp_count = 0, rp_handle = 0, rp_len = 0, rp_mtime = 0, rp_flags = 0, rp_w6 = 0\<rparr>"

definition r_len :: "nat \<Rightarrow> u32" where
  "r_len v = (if 0xFFFFFFFF < v then 0xFFFFFFFF else of_nat v)"

definition handle_close :: "'w host \<Rightarrow> qfd_handle \<Rightarrow> bool \<Rightarrow> 'w \<Rightarrow> 'w" where
  "handle_close H h remove_temp w =
     (case h of
        H_none \<Rightarrow> w
      | H_read fd \<Rightarrow> w_close H fd w
      | H_write fd temp target noreplace held \<Rightarrow>
          (let w = w_close H fd w in if remove_temp then snd (w_unlink H temp w) else w))"

definition qfd_reset :: "'w host \<Rightarrow> qfd \<Rightarrow> 'w \<Rightarrow> qfd \<times> 'w" where
  "qfd_reset H d w = (d\<lparr>qd_h := replicate (length (qd_h d)) H_none\<rparr>, fold (\<lambda>h w. handle_close H h True w) (qd_h d) w)"

definition qfd_handles_open :: "qfd \<Rightarrow> nat" where
  "qfd_handles_open d = length (filter (\<lambda>h. h \<noteq> H_none) (qd_h d))"

definition handle_at :: "qfd \<Rightarrow> u32 \<Rightarrow> nat option" where
  "handle_at d h = (if h < 1 \<or> of_nat QFD_MAX_HANDLES < h \<or> qd_h d ! (unat h - 1) = H_none then None else Some (unat h - 1))"

definition free_handle :: "qfd \<Rightarrow> nat option" where
  "free_handle d = find (\<lambda>k. qd_h d ! k = H_none) [0..<QFD_MAX_HANDLES]"

definition entry_reply :: "fstat \<Rightarrow> bool \<Rightarrow> reply \<Rightarrow> reply" where
  "entry_reply m ro r =
     (let dir = (fs_kind m = S_DIR)
      in r\<lparr>rp_len := r_len (if dir then 0 else fs_size m), rp_mtime := mtime_of m,
           rp_flags := (if dir then 1 else 0) OR (if ro then 2 else 0)\<rparr>)"

section \<open>Opening\<close>

text \<open>Bytes to a file, in as many writes as it takes; the error if one failed.\<close>

function write_all :: "'w host \<Rightarrow> nat \<Rightarrow> u8 list \<Rightarrow> 'w \<Rightarrow> nat option \<times> 'w" where
  "write_all H fd bs w =
     (if bs = [] then (None, w)
      else case w_write H fd bs w of
          (Inl e, w) \<Rightarrow> (Some e, w)
        | (Inr n, w) \<Rightarrow> (if n = 0 then (Some EIO, w) else write_all H fd (drop n bs) w))"
  by auto
termination by (relation "measure (\<lambda>(H, fd, bs, w). length bs)") auto

declare write_all.simps [simp del]

fun copy_chunks :: "'w host \<Rightarrow> nat \<Rightarrow> u8 list list \<Rightarrow> 'w \<Rightarrow> (nat + nat) \<times> 'w" where
  "copy_chunks H fd [] w = (Inr 0, w)"
| "copy_chunks H fd (c # cs) w =
     (case write_all H fd c w of
        (Some e, w) \<Rightarrow> (Inl e, w)
      | (None, w) \<Rightarrow>
          (case copy_chunks H fd cs w of (Inl e, w) \<Rightarrow> (Inl e, w) | (Inr n, w) \<Rightarrow> (Inr (length c + n), w)))"

text \<open>The file a name has, copied into the temporary file: how many bytes, or the error.\<close>

definition copy_file :: "'w host \<Rightarrow> cstr \<Rightarrow> nat \<Rightarrow> 'w \<Rightarrow> (nat + nat) \<times> 'w" where
  "copy_file H path fd w =
     (case w_open H path w of
        (Inl e, w) \<Rightarrow> (Inl e, w)
      | (Inr from, w) \<Rightarrow>
          (case w_reads H from w of ((chunks, failed), w) \<Rightarrow>
           case copy_chunks H fd chunks w of (r, w) \<Rightarrow>
             ((case r of Inl e \<Rightarrow> Inl e | Inr n \<Rightarrow> (case failed of Some e \<Rightarrow> Inl e | None \<Rightarrow> Inr n)), w_close H from w)))"

definition folder_of :: "cstr \<Rightarrow> cstr" where
  "folder_of path =
     (if SLASH \<notin> set path then path
      else let dir = rev (tl (dropWhile (\<lambda>b. b \<noteq> SLASH) (rev path))) in if dir = [] then [SLASH] else dir)"

definition temp_name :: "'w host \<Rightarrow> u64 \<Rightarrow> cstr" where
  "temp_name H n = QFD_TEMP_PREFIX @ octets (digits_put 10 (w_pid H) @ ''-'' @ digits_put 10 (unat n))"

definition write_refusal :: "u32 \<Rightarrow> bool \<Rightarrow> found \<Rightarrow> u32" where
  "write_refusal if_exists if_none_error f =
     (case fo_meta f of
        Some m \<Rightarrow>
          (if fs_kind m = S_DIR then QFD_IOD
           else if fs_kind m \<noteq> S_REG then QFD_WKF
           else if if_exists = 1 then QFD_FAE
           else if if_exists = 2 \<and> 0xFFFFFFFF < fs_size m then QFD_WKF
           else QFD_OK)
      | None \<Rightarrow> (if if_none_error then QFD_FNF else QFD_OK))"

text \<open>The temporary file just created: the permissions of the file it replaces, its bytes if they are kept, and a handle.\<close>

definition open_temp :: "'w host \<Rightarrow> u32 \<Rightarrow> found \<Rightarrow> nat \<Rightarrow> cstr \<Rightarrow> nat \<Rightarrow> qfd \<Rightarrow> 'w \<Rightarrow> (u32 + reply) \<times> qfd \<times> 'w" where
  "open_temp H if_exists f k temp fd d w =
     (let w = (case fo_meta f of Some m \<Rightarrow> w_chmod H temp (fs_mode m AND 0xFFF) w | None \<Rightarrow> w)
      in case (if fo_meta f \<noteq> None \<and> if_exists = 2 then copy_file H (fo_path f) fd w else (Inr 0, w)) of
           (Inl e, w) \<Rightarrow> (Inl (qfd_errno_status e), d, snd (w_unlink H temp (w_close H fd w)))
         | (Inr held, w) \<Rightarrow>
             (Inr (no_reply\<lparr>rp_handle := of_nat k + 1, rp_len := r_len held\<rparr>),
              d\<lparr>qd_h := (qd_h d)[k := H_write fd temp (fo_path f) (if_exists = 1) held]\<rparr>, w))"

definition open_write :: "'w host \<Rightarrow> place \<Rightarrow> u32 \<Rightarrow> bool \<Rightarrow> qfd \<Rightarrow> 'w \<Rightarrow> (u32 + reply) \<times> qfd \<times> 'w" where
  "open_write H p if_exists if_none_error d w =
     (if pl_key p = KEY_BARE \<and> 1 < length (pl_rel p) then (Inl QFD_DNF, d, w)
      else if pl_ro p then (Inl QFD_ATF, d, w)
      else if pl_rel p = [] then (Inl QFD_IOD, d, w)
      else case lookup H p True w of
          (Inl s, w) \<Rightarrow> (Inl s, d, w)
        | (Inr f, w) \<Rightarrow>
            (let s = write_refusal if_exists if_none_error f
             in if s \<noteq> QFD_OK then (Inl s, d, w)
                else case free_handle d of
                    None \<Rightarrow> (Inl QFD_NER, d, w)
                  | Some k \<Rightarrow>
                      (let temp = path_join (folder_of (fo_path f)) (temp_name H (qd_temps d)); d = d\<lparr>qd_temps := qd_temps d + 1\<rparr>
                       in case w_create H temp w of
                            (Inl e, w) \<Rightarrow> (Inl (qfd_errno_status e), d, w)
                          | (Inr fd, w) \<Rightarrow> open_temp H if_exists f k temp fd d w)))"

definition cmd_open :: "'w host \<Rightarrow> u32 \<Rightarrow> u8 list \<Rightarrow> qfd \<Rightarrow> 'w \<Rightarrow> (u32 + reply) \<times> qfd \<times> 'w" where
  "cmd_open H flags name d w =
     (let open_mode = flags AND 3; if_exists = drop_bit 2 flags AND 3; if_none_error = bit flags 4
      in if open_mode = 3 \<or> if_exists = 3 then (Inl QFD_BAD_ARGUMENT, d, w)
         else case parse_name name of
             Inl s \<Rightarrow> (Inl s, d, w)
           | Inr cs \<Rightarrow>
               (let p = place_of (qd_mounts d) cs
                in if open_mode = 1 then open_write H p if_exists if_none_error d w
                   else if pl_key p = KEY_BARE \<and> pl_rel p = [] then
                     (if open_mode = 0 then Inl QFD_IOD else Inr (no_reply\<lparr>rp_flags := 1 OR (if pl_ro p then 2 else 0)\<rparr>), d, w)
                   else case lookup H p True w of
                       (Inl s, w) \<Rightarrow> (Inl s, d, w)
                     | (Inr f, w) \<Rightarrow>
                         (case fo_meta f of
                            None \<Rightarrow> (Inl QFD_FNF, d, w)
                          | Some m \<Rightarrow>
                              (if \<not> (fs_kind m = S_REG \<or> fs_kind m = S_DIR) \<or> fs_kind m = S_REG \<and> 0xFFFFFFFF < fs_size m then
                                 (Inl QFD_WKF, d, w)
                               else if open_mode \<noteq> 0 then (Inr (entry_reply m (pl_ro p) no_reply), d, w)
                               else if fs_kind m = S_DIR then (Inl QFD_IOD, d, w)
                               else case free_handle d of
                                   None \<Rightarrow> (Inl QFD_NER, d, w)
                                 | Some k \<Rightarrow>
                                     (case w_open H (fo_path f) w of
                                        (Inl e, w) \<Rightarrow> (Inl (qfd_errno_status e), d, w)
                                      | (Inr fd, w) \<Rightarrow>
                                          (Inr (entry_reply m (pl_ro p) (no_reply\<lparr>rp_handle := of_nat k + 1\<rparr>)),
                                           d\<lparr>qd_h := (qd_h d)[k := H_read fd]\<rparr>, w))))))"

section \<open>Closing\<close>

definition rename_noreplace :: "'w host \<Rightarrow> cstr \<Rightarrow> cstr \<Rightarrow> 'w \<Rightarrow> nat option \<times> 'w" where
  "rename_noreplace H from to w =
     (case w_renameat2 H from to w of
        (None, w) \<Rightarrow> (None, w)
      | (Some e, w) \<Rightarrow>
          (if e \<noteq> EINVAL \<and> e \<noteq> ENOSYS then (Some e, w)
           else case w_lstat H to w of (Inr _, w) \<Rightarrow> (Some EEXIST, w) | (Inl _, w) \<Rightarrow> w_rename H from to w))"

definition stat_reply :: "fstat \<Rightarrow> reply" where
  "stat_reply m = no_reply\<lparr>rp_len := r_len (fs_size m), rp_mtime := mtime_of m\<rparr>"

text \<open>A finished write put where it belongs: dated if asked, then renamed.\<close>

definition put_in_place :: "'w host \<Rightarrow> u32 \<Rightarrow> u32 \<Rightarrow> nat \<Rightarrow> cstr \<Rightarrow> cstr \<Rightarrow> bool \<Rightarrow> 'w \<Rightarrow> nat option \<times> 'w" where
  "put_in_place H flags date fd temp target noreplace w =
     (case (if bit flags 1 then w_futimens H fd date w else (None, w)) of
        (Some e, w) \<Rightarrow> (Some e, w)
      | (None, w) \<Rightarrow> (if noreplace then rename_noreplace H temp target w else w_rename H temp target w))"

definition cmd_close :: "'w host \<Rightarrow> u32 \<Rightarrow> u32 \<Rightarrow> u32 \<Rightarrow> qfd \<Rightarrow> 'w \<Rightarrow> (u32 + reply) \<times> qfd \<times> 'w" where
  "cmd_close H hn flags date d w =
     (case handle_at d hn of
        None \<Rightarrow> (Inl QFD_BAD_HANDLE, d, w)
      | Some k \<Rightarrow>
          (let h = qd_h d ! k; abort = bit flags 0; d' = d\<lparr>qd_h := (qd_h d)[k := H_none]\<rparr>
           in case h of
                H_none \<Rightarrow> (Inl QFD_BAD_HANDLE, d, w)
              | H_read fd \<Rightarrow>
                  (if abort then (Inr no_reply, d', handle_close H h False w)
                   else case w_fstat H fd w of
                       (Inl e, w) \<Rightarrow> (Inl (qfd_errno_status e), d', handle_close H h False w)
                     | (Inr m, w) \<Rightarrow> (Inr (stat_reply m), d', handle_close H h False w))
              | H_write fd temp target noreplace held \<Rightarrow>
                  (if abort then (Inr no_reply, d', handle_close H h True w)
                   else case put_in_place H flags date fd temp target noreplace w of
                       (Some e, w) \<Rightarrow> (Inl (qfd_errno_status e), d', handle_close H h True w)
                     | (None, w) \<Rightarrow>
                         (case w_stat H target (handle_close H h False w) of
                            (Inl e, w) \<Rightarrow> (Inl (qfd_errno_status e), d', w)
                          | (Inr m, w) \<Rightarrow> (Inr (stat_reply m), d', w)))))"

section \<open>Names changed\<close>

definition cmd_delete :: "'w host \<Rightarrow> u8 list \<Rightarrow> qfd \<Rightarrow> 'w \<Rightarrow> u32 \<times> 'w" where
  "cmd_delete H name d w =
     (case parse_name name of
        Inl s \<Rightarrow> (s, w)
      | Inr cs \<Rightarrow>
          (let p = place_of (qd_mounts d) cs
           in if pl_key p = KEY_BARE \<and> 1 < length (pl_rel p) then (QFD_DNF, w)
              else if pl_ro p then (QFD_ATF, w)
              else if pl_rel p = [] then (QFD_ACC, w)
              else case lookup H p False w of
                  (Inl s, w) \<Rightarrow> (s, w)
                | (Inr f, w) \<Rightarrow>
                    (case fo_meta f of
                       None \<Rightarrow> (QFD_FNF, w)
                     | Some m \<Rightarrow>
                         (case (if fs_kind m = S_DIR then w_rmdir H (fo_path f) w else w_unlink H (fo_path f) w) of
                            (Some e, w) \<Rightarrow> (qfd_errno_status e, w)
                          | (None, w) \<Rightarrow> (QFD_OK, w)))))"

definition cmd_rename :: "'w host \<Rightarrow> u8 list \<Rightarrow> u8 list \<Rightarrow> qfd \<Rightarrow> 'w \<Rightarrow> u32 \<times> 'w" where
  "cmd_rename H from to d w =
     (case parse_name from of
        Inl s \<Rightarrow> (s, w)
      | Inr fc \<Rightarrow>
          (case parse_name to of
             Inl s \<Rightarrow> (s, w)
           | Inr tc \<Rightarrow>
               (let fp = place_of (qd_mounts d) fc; tp = place_of (qd_mounts d) tc
                in if pl_key fp = KEY_BARE \<and> 1 < length (pl_rel fp) \<or> pl_key tp = KEY_BARE \<and> 1 < length (pl_rel tp) then (QFD_DNF, w)
                   else if pl_ro fp \<or> pl_ro tp then (QFD_ATF, w)
                   else if pl_rel fp = [] \<or> pl_rel tp = [] then (QFD_ACC, w)
                   else if pl_key fp \<noteq> pl_key tp then (QFD_RAD, w)
                   else case lookup H fp False w of
                       (Inl s, w) \<Rightarrow> (s, w)
                     | (Inr f, w) \<Rightarrow>
                         (if fo_meta f = None then (QFD_FNF, w)
                          else case lookup H tp False w of
                              (Inl s, w) \<Rightarrow> (s, w)
                            | (Inr t, w) \<Rightarrow>
                                (if fo_meta t \<noteq> None then (QFD_REF, w)
                                 else case rename_noreplace H (fo_path f) (fo_path t) w of
                                     (None, w) \<Rightarrow> (QFD_OK, w)
                                   | (Some e, w) \<Rightarrow> (if e = EEXIST \<or> e = ENOTEMPTY then QFD_REF else qfd_errno_status e, w))))))"

definition cmd_create_directory :: "'w host \<Rightarrow> u8 list \<Rightarrow> qfd \<Rightarrow> 'w \<Rightarrow> u32 \<times> 'w" where
  "cmd_create_directory H name d w =
     (case parse_name name of
        Inl s \<Rightarrow> (s, w)
      | Inr cs \<Rightarrow>
          (let p = place_of (qd_mounts d) cs
           in if pl_key p = KEY_BARE \<and> 1 < length (pl_rel p) then (QFD_DNF, w)
              else if pl_ro p then (QFD_ATF, w)
              else case lookup H p True w of
                  (Inl s, w) \<Rightarrow> (s, w)
                | (Inr f, w) \<Rightarrow>
                    (case fo_meta f of
                       Some m \<Rightarrow> (if fs_kind m = S_DIR then QFD_DAE else QFD_FAE, w)
                     | None \<Rightarrow>
                         (case w_mkdir H (fo_path f) w of (Some e, w) \<Rightarrow> (qfd_errno_status e, w) | (None, w) \<Rightarrow> (QFD_OK, w)))))"

end
