(* ===== verification/Qfd_Command.thy ===== *)
theory Qfd_Command
  imports Qfd
begin

text \<open>
  \<^verbatim>\<open>qfd.c\<close>'s commands on directories, the command entry and its response, and the sweep of the start.
\<close>

unbundle bit_operations_syntax

section \<open>DIRECTORY\<close>

definition dir_record :: "entry \<Rightarrow> u32 list" where
  "dir_record e =
     (let n = length (en_name e); words = 3 + (n + 3) div 4; too_large = (0xFFFFFFFF < en_len e)
      in [of_nat n OR push_bit 8 (of_nat words) OR (if en_dir e then push_bit 16 1 else 0) OR (if en_ro e then push_bit 17 1 else 0)
            OR (if too_large then push_bit 18 1 else 0),
          if too_large then 0xFFFFFFFF else of_nat (en_len e), en_mtime e] @ map (word_of (en_name e)) [0..<(n + 3) div 4])"

text \<open>The records from one entry on that fit: how many words of the buffer are used and which entry comes next.\<close>

function dir_records :: "'w host \<Rightarrow> nat \<times> nat \<Rightarrow> entry list \<Rightarrow> nat \<Rightarrow> nat \<Rightarrow> 'w \<Rightarrow> nat \<times> nat \<times> 'w" where
  "dir_records H b es used k w =
     (if k < length es then
        (let rec = dir_record (es ! k)
         in if snd b < (used + length rec) * 4 then (used, k, w)
            else dir_records H b es (used + length rec) (k + 1) (w_store H (fst b + used) rec w))
      else (used, k, w))"
  by auto
termination by (relation "measure (\<lambda>(H, b, es, used, k, w). length es - k)") auto

declare dir_records.simps [simp del]

definition cmd_directory :: "'w host \<Rightarrow> u32 list \<Rightarrow> qfd \<Rightarrow> 'w \<Rightarrow> (u32 + reply) \<times> 'w" where
  "cmd_directory H c d w =
     (case qfd_buffer H (c ! 2) (c ! 3) of
        None \<Rightarrow> (Inl QFD_BAD_BUFFER, w)
      | Some a \<Rightarrow>
          (case qfd_buffer H (c ! 4) (c ! 5) of
             None \<Rightarrow> (Inl QFD_BAD_BUFFER, w)
           | Some b \<Rightarrow>
               (if snd b < QFD_MIN_DIRECTORY then (Inl QFD_BAD_ARGUMENT, w)
                else case bytes_of_buf H a w of (name, w) \<Rightarrow>
                  case parse_name name of
                    Inl s \<Rightarrow> (Inl s, w)
                  | Inr cs \<Rightarrow>
                      (case list_at H (qd_mounts d) cs w of
                         (Inl s, w) \<Rightarrow> (Inl s, w)
                       | (Inr es, w) \<Rightarrow>
                           (case dir_records H b es 0 (unat (c ! 6)) w of (used, k, w) \<Rightarrow>
                              (Inr (no_reply\<lparr>rp_count := of_nat (4 * used), rp_w6 := if k < length es then of_nat k else 0\<rparr>), w))))))"

section \<open>COMPLETE\<close>

fun common :: "cstr \<Rightarrow> cstr \<Rightarrow> nat" where
  "common (a # as) (b # bs) = (if a = b then Suc (common as bs) else 0)"
| "common _ _ = 0"

text \<open>The names that begin with the prefix: how many, and what they have in common.\<close>

definition complete_names :: "cstr \<Rightarrow> entry list \<Rightarrow> nat \<times> cstr" where
  "complete_names prefix es =
     fold (\<lambda>e (matches, lcp).
         let nm = en_name e
         in if length nm < length prefix \<or> take (length prefix) nm \<noteq> prefix then (matches, lcp)
            else if matches = 0 then (1, nm)
            else (matches + 1, take (common nm lcp) lcp))
       es (0, [])"

definition cmd_complete :: "'w host \<Rightarrow> u32 list \<Rightarrow> qfd \<Rightarrow> 'w \<Rightarrow> (u32 + reply) \<times> 'w" where
  "cmd_complete H c d w =
     (case qfd_buffer H (c ! 2) (c ! 3) of
        None \<Rightarrow> (Inl QFD_BAD_BUFFER, w)
      | Some a \<Rightarrow>
          (case qfd_buffer H (c ! 4) (c ! 5) of
             None \<Rightarrow> (Inl QFD_BAD_BUFFER, w)
           | Some b \<Rightarrow>
               (case bytes_of_buf H a w of (given, w) \<Rightarrow>
                  if SLASH \<notin> set given then (Inl QFD_IPS, w)
                  else let prefix = rev (takeWhile (\<lambda>x. x \<noteq> SLASH) (rev given));
                           folder = take (length given - length prefix) given
                    in if QFD_MAX_COMPONENT < length prefix \<or> (\<exists>x \<in> set prefix. x < 0x20 \<or> 0x7E < x \<or> x = SLASH) then (Inl QFD_IPS, w)
                       else case parse_name folder of
                           Inl s \<Rightarrow> (Inl s, w)
                         | Inr cs \<Rightarrow>
                             (case list_at H (qd_mounts d) cs w of
                                (Inl s, w) \<Rightarrow> (Inl s, w)
                              | (Inr es, w) \<Rightarrow>
                                  (case complete_names prefix es of (matches, lcp) \<Rightarrow>
                                     if matches = 0 then (Inr no_reply, w)
                                     else if snd b < length lcp then (Inl QFD_BAD_ARGUMENT, w)
                                     else (Inr (no_reply\<lparr>rp_count := of_nat (length lcp), rp_w6 := of_nat matches,
                                                 rp_flags := (case find (\<lambda>e. en_name e = lcp) es of
                                                    Some e \<Rightarrow> 4 OR (if en_dir e then 8 else 0) | None \<Rightarrow> 0)\<rparr>),
                                           put_bytes_at H (fst b) lcp w))))))"

section \<open>READ and WRITE\<close>

function pread_all :: "'w host \<Rightarrow> nat \<Rightarrow> nat \<Rightarrow> nat \<Rightarrow> 'w \<Rightarrow> (u32 + u8 list) \<times> 'w" where
  "pread_all H fd n offset w =
     (if n = 0 then (Inr [], w)
      else case w_pread H fd n offset w of
          (Inl e, w) \<Rightarrow> (Inl (qfd_errno_status e), w)
        | (Inr got, w) \<Rightarrow>
            (if got = [] then (Inl QFD_DAT, w)
             else case pread_all H fd (n - length got) (offset + length got) w of
                 (Inl s, w) \<Rightarrow> (Inl s, w)
               | (Inr later, w) \<Rightarrow> (Inr (got @ later), w)))"
  by auto
termination by (relation "measure (\<lambda>(H, fd, n, offset, w). n)") auto

declare pread_all.simps [simp del]

definition cmd_read :: "'w host \<Rightarrow> u32 list \<Rightarrow> qfd \<Rightarrow> 'w \<Rightarrow> (u32 + reply) \<times> 'w" where
  "cmd_read H c d w =
     (case (case handle_at d (c ! 1) of Some k \<Rightarrow> (case qd_h d ! k of H_read fd \<Rightarrow> Some fd | _ \<Rightarrow> None) | None \<Rightarrow> None) of
        None \<Rightarrow> (Inl QFD_BAD_HANDLE, w)
      | Some fd \<Rightarrow>
          (case qfd_buffer H (c ! 4) (c ! 5) of
             None \<Rightarrow> (Inl QFD_BAD_BUFFER, w)
           | Some b \<Rightarrow>
               (case w_fstat H fd w of
                  (Inl e, w) \<Rightarrow> (Inl (qfd_errno_status e), w)
                | (Inr st, w) \<Rightarrow>
                    (let offset = unat (c ! 6)
                     in if fs_size st < offset then (Inl QFD_FOR, w)
                        else let n = min (snd b) (fs_size st - offset)
                          in case pread_all H fd n offset w of
                               (Inl s, w) \<Rightarrow> (Inl s, w)
                             | (Inr data, w) \<Rightarrow> (Inr (no_reply\<lparr>rp_count := of_nat n\<rparr>), put_bytes_at H (fst b) data w)))))"

function pwrite_all :: "'w host \<Rightarrow> nat \<Rightarrow> u8 list \<Rightarrow> nat \<Rightarrow> 'w \<Rightarrow> u32 option \<times> 'w" where
  "pwrite_all H fd bs offset w =
     (if bs = [] then (None, w)
      else case w_pwrite H fd bs offset w of
          (Inl e, w) \<Rightarrow> (Some (qfd_errno_status e), w)
        | (Inr n, w) \<Rightarrow> (if n = 0 then (Some QFD_DAT, w) else pwrite_all H fd (drop n bs) (offset + n) w))"
  by auto
termination by (relation "measure (\<lambda>(H, fd, bs, offset, w). length bs)") auto

declare pwrite_all.simps [simp del]

definition cmd_write :: "'w host \<Rightarrow> u32 list \<Rightarrow> qfd \<Rightarrow> 'w \<Rightarrow> (u32 + reply) \<times> qfd \<times> 'w" where
  "cmd_write H c d w =
     (case qfd_buffer H (c ! 2) (c ! 3) of
        None \<Rightarrow> (Inl QFD_BAD_BUFFER, d, w)
      | Some a \<Rightarrow>
          (case handle_at d (c ! 1) of
             None \<Rightarrow> (Inl QFD_BAD_HANDLE, d, w)
           | Some k \<Rightarrow>
               (case qd_h d ! k of
                  H_write fd temp target noreplace held \<Rightarrow>
                    (let offset = unat (c ! 6)
                     in if held < offset \<or> 0xFFFFFFFF < offset + snd a then (Inl QFD_FOR, d, w)
                        else case bytes_of_buf H a w of (x, w) \<Rightarrow>
                          case pwrite_all H fd x offset w of
                            (Some s, w) \<Rightarrow> (Inl s, d, w)
                          | (None, w) \<Rightarrow>
                              (Inr (no_reply\<lparr>rp_count := of_nat (snd a)\<rparr>),
                               d\<lparr>qd_h := (qd_h d)[k := H_write fd temp target noreplace (max held (offset + snd a))]\<rparr>, w))
                | _ \<Rightarrow> (Inl QFD_BAD_HANDLE, d, w))))"

section \<open>A command\<close>

definition of_status :: "qfd \<Rightarrow> u32 \<times> 'w \<Rightarrow> (u32 + reply) \<times> qfd \<times> 'w" where
  "of_status d r = (case r of (s, w) \<Rightarrow> (if s = QFD_OK then Inr no_reply else Inl s, d, w))"

definition of_reply :: "qfd \<Rightarrow> (u32 + reply) \<times> 'w \<Rightarrow> (u32 + reply) \<times> qfd \<times> 'w" where
  "of_reply d r = (case r of (s, w) \<Rightarrow> (s, d, w))"

text \<open>A command whose buffer A is a name.\<close>

definition with_name :: "'w host \<Rightarrow> u32 list \<Rightarrow> (u8 list \<Rightarrow> 'w \<Rightarrow> (u32 + reply) \<times> qfd \<times> 'w) \<Rightarrow> qfd \<Rightarrow> 'w \<Rightarrow> (u32 + reply) \<times> qfd \<times> 'w" where
  "with_name H c f d w =
     (case qfd_buffer H (c ! 2) (c ! 3) of
        None \<Rightarrow> (Inl QFD_BAD_BUFFER, d, w)
      | Some a \<Rightarrow> (case bytes_of_buf H a w of (x, w) \<Rightarrow> f x w))"

definition command :: "'w host \<Rightarrow> u32 \<Rightarrow> u32 \<Rightarrow> u32 list \<Rightarrow> qfd \<Rightarrow> 'w \<Rightarrow> (u32 + reply) \<times> qfd \<times> 'w" where
  "command H opcode flags c d w =
     (if \<not> (1 \<le> opcode \<and> opcode \<le> 10) then (Inl QFD_UOP, d, w)
      else if flags AND NOT (if opcode = 1 then 0x1F else if opcode = 4 then 3 else 0) \<noteq> 0 then (Inl QFD_BAD_ARGUMENT, d, w)
      else if opcode = 1 then with_name H c (\<lambda>x w. cmd_open H flags x d w) d w
      else if opcode = 2 then of_reply d (cmd_read H c d w)
      else if opcode = 3 then cmd_write H c d w
      else if opcode = 4 then cmd_close H (c ! 1) flags (c ! 7) d w
      else if opcode = 5 then of_reply d (cmd_directory H c d w)
      else if opcode = 6 then of_reply d (cmd_complete H c d w)
      else if opcode = 7 then with_name H c (\<lambda>x w. of_status d (cmd_delete H x d w)) d w
      else if opcode = 8 then
        (case qfd_buffer H (c ! 2) (c ! 3) of
           None \<Rightarrow> (Inl QFD_BAD_BUFFER, d, w)
         | Some a \<Rightarrow>
             (case qfd_buffer H (c ! 4) (c ! 5) of
                None \<Rightarrow> (Inl QFD_BAD_BUFFER, d, w)
              | Some b \<Rightarrow>
                  (case bytes_of_buf H a w of (x, w) \<Rightarrow>
                   case bytes_of_buf H b w of (y, w) \<Rightarrow> of_status d (cmd_rename H x y d w))))
      else if opcode = 9 then with_name H c (\<lambda>x w. of_status d (cmd_create_directory H x d w)) d w
      else case qfd_buffer H (c ! 2) (c ! 3) of
          None \<Rightarrow> (Inl QFD_BAD_BUFFER, d, w)
        | Some a \<Rightarrow>
            (if QFD_MAX_LOG < snd a then (Inl QFD_BAD_ARGUMENT, d, w)
             else case bytes_of_buf H a w of (x, w) \<Rightarrow> (Inr no_reply, d\<lparr>qd_log := qd_log d @ [qfd_log_line x]\<rparr>, w)))"

definition response :: "u32 \<Rightarrow> u32 \<Rightarrow> u32 + reply \<Rightarrow> u32 list" where
  "response tag opcode r =
     (case r of
        Inl s \<Rightarrow> [tag OR push_bit 16 s OR push_bit 24 opcode, 0, 0, 0, 0, 0, 0, 0]
      | Inr r \<Rightarrow> [tag OR push_bit 24 opcode, rp_count r, rp_handle r, rp_len r, rp_mtime r, rp_flags r, rp_w6 r, 0])"

definition qfd_execute :: "'w host \<Rightarrow> nat \<Rightarrow> nat \<Rightarrow> qfd \<Rightarrow> 'w \<Rightarrow> qfd \<times> 'w" where
  "qfd_execute H cmd_at resp_at d w =
     (case w_load H cmd_at 8 w of (c, w) \<Rightarrow>
        let tag = c ! 0 AND 0xFFFF; opcode = drop_bit 16 (c ! 0) AND 0xFF; flags = drop_bit 24 (c ! 0)
        in case command H opcode flags c d w of (r, d, w) \<Rightarrow> (d, w_store H resp_at (response tag opcode r) w))"

section \<open>The start's sweep\<close>

text \<open>
  The folders are gone down to a depth, since nothing in the calls bounds it: the host's limit of
  4,096 bytes on a path does, at two bytes a level.
\<close>

fun sweep_dir :: "'w host \<Rightarrow> nat \<Rightarrow> cstr \<Rightarrow> 'w \<Rightarrow> cstr list \<times> 'w" and
  sweep_names :: "'w host \<Rightarrow> nat \<Rightarrow> cstr \<Rightarrow> cstr list \<Rightarrow> 'w \<Rightarrow> cstr list \<times> 'w" where
  "sweep_dir H 0 dir w = ([], w)"
| "sweep_dir H (Suc depth) dir w =
     (case w_list H dir w of (Inl _, w) \<Rightarrow> ([], w) | (Inr (names, _), w) \<Rightarrow> sweep_names H depth dir names w)"
| "sweep_names H depth dir [] w = ([], w)"
| "sweep_names H depth dir (name # names) w =
     (if name = [DOT] \<or> name = [DOT, DOT] then sweep_names H depth dir names w
      else let p = path_join dir name;
               (gone, w) =
                 (case w_lstat H p w of
                    (Inl _, w) \<Rightarrow> ([], w)
                  | (Inr st, w) \<Rightarrow>
                      (if fs_kind st = S_DIR then sweep_dir H depth p w
                       else if fs_kind st = S_REG \<and> is_temp name then
                         (case w_unlink H p w of (None, w) \<Rightarrow> ([p], w) | (Some _, w) \<Rightarrow> ([], w))
                       else ([], w)));
               (more_gone, w) = sweep_names H depth dir names w
        in (gone @ more_gone, w))"

fun sweep_mounts :: "'w host \<Rightarrow> nat \<Rightarrow> qfd_mount list \<Rightarrow> 'w \<Rightarrow> cstr list \<times> 'w" where
  "sweep_mounts H depth [] w = ([], w)"
| "sweep_mounts H depth (mt # ms) w =
     (let (a, w) = (if mt_ro mt then ([], w) else sweep_dir H depth (mt_path mt) w); (b, w) = sweep_mounts H depth ms w
      in (a @ b, w))"

definition qfd_sweep :: "'w host \<Rightarrow> nat \<Rightarrow> qfd_mounts \<Rightarrow> 'w \<Rightarrow> cstr list \<times> 'w" where
  "qfd_sweep H depth m w =
     sweep_mounts H depth ((case mo_default m of Some mt \<Rightarrow> [mt] | None \<Rightarrow> []) @ map snd (mo_named m)) w"

end
