(* ===== verification/Qfd_Ring.thy ===== *)
theory Qfd_Ring
  imports Qfd_Command
begin

text \<open>
  \<^verbatim>\<open>qfd_face.h\<close>, \<^verbatim>\<open>qfd_face_fabric.c\<close>, \<^verbatim>\<open>qfd_ring.c\<close> and \<^verbatim>\<open>quux-file-device.c\<close>: the file device's page, the
  step that serves one command over it, and the program around the step.  The page is a record of
  functions over the host's state: its registers by byte offset, and the barrier.
\<close>

unbundle bit_operations_syntax

section \<open>The face over the page\<close>

record 'w qfd_page =
  qp_rd :: "nat \<Rightarrow> 'w \<Rightarrow> u32 \<times> 'w"
  qp_wr :: "nat \<Rightarrow> u32 \<Rightarrow> 'w \<Rightarrow> 'w"
  qp_barrier :: "'w \<Rightarrow> 'w"

record qfd_state =
  ps_enabled :: bool
  ps_busy :: bool
  ps_work :: bool
  ps_refused :: bool
  ps_epoch :: u16
  ps_cmd_base :: u32
  ps_cmd_log2 :: u32
  ps_resp_base :: u32
  ps_resp_log2 :: u32
  ps_cmd_prod :: u16
  ps_resp_prod :: u16
  ps_resp_cons :: u16

abbreviation (input) QFD_IDENT_13 :: u32 where "QFD_IDENT_13 \<equiv> 0x51463133"
abbreviation (input) QFD_MAX_MEM_WORDS_13 :: u32 where "QFD_MAX_MEM_WORDS_13 \<equiv> 0x4000000"
abbreviation (input) QFD_ADDRESS :: u32 where "QFD_ADDRESS \<equiv> 0x0FFFFFFF"
abbreviation (input) OFF_IDENT :: nat where "OFF_IDENT \<equiv> 0x000"
abbreviation (input) OFF_RTC_SECONDS :: nat where "OFF_RTC_SECONDS \<equiv> 0x010"
abbreviation (input) OFF_RTC_FRACTION :: nat where "OFF_RTC_FRACTION \<equiv> 0x014"
abbreviation (input) OFF_STATE :: nat where "OFF_STATE \<equiv> 0x100"
abbreviation (input) OFF_CLAIM :: nat where "OFF_CLAIM \<equiv> 0x104"
abbreviation (input) OFF_CMD_BASE :: nat where "OFF_CMD_BASE \<equiv> 0x108"
abbreviation (input) OFF_CMD_LOG2 :: nat where "OFF_CMD_LOG2 \<equiv> 0x10C"
abbreviation (input) OFF_RESP_BASE :: nat where "OFF_RESP_BASE \<equiv> 0x110"
abbreviation (input) OFF_RESP_LOG2 :: nat where "OFF_RESP_LOG2 \<equiv> 0x114"
abbreviation (input) OFF_CMD_PROD :: nat where "OFF_CMD_PROD \<equiv> 0x118"
abbreviation (input) OFF_RESP_PROD :: nat where "OFF_RESP_PROD \<equiv> 0x11C"
abbreviation (input) OFF_RESP_CONS :: nat where "OFF_RESP_CONS \<equiv> 0x120"
abbreviation (input) OFF_HANDLES :: nat where "OFF_HANDLES \<equiv> 0x124"
abbreviation (input) OFF_MEM_WORDS :: nat where "OFF_MEM_WORDS \<equiv> 0x128"

datatype attach_err = Not_the_device u32 | Memory_size u32

definition qfd_fabric_attach :: "'w qfd_page \<Rightarrow> 'w \<Rightarrow> (attach_err + u32) \<times> 'w" where
  "qfd_fabric_attach P w =
     (case qp_rd P OFF_IDENT w of (ident, w) \<Rightarrow>
        if ident \<noteq> QFD_IDENT_13 then (Inl (Not_the_device ident), w)
        else case qp_rd P OFF_MEM_WORDS w of (words, w) \<Rightarrow>
          if words = 0 \<or> QFD_MAX_MEM_WORDS_13 < words then (Inl (Memory_size words), w)
          else (Inr words, qp_wr P OFF_CLAIM 0 w))"

definition f_state :: "'w qfd_page \<Rightarrow> 'w \<Rightarrow> qfd_state \<times> 'w" where
  "f_state P w =
     (case qp_rd P OFF_STATE w of (st, w) \<Rightarrow>
      case qp_rd P OFF_CMD_BASE w of (cmd_base, w) \<Rightarrow>
      case qp_rd P OFF_CMD_LOG2 w of (cmd_log2, w) \<Rightarrow>
      case qp_rd P OFF_RESP_BASE w of (resp_base, w) \<Rightarrow>
      case qp_rd P OFF_RESP_LOG2 w of (resp_log2, w) \<Rightarrow>
      case qp_rd P OFF_CMD_PROD w of (cmd_prod, w) \<Rightarrow>
      case qp_rd P OFF_RESP_PROD w of (resp_prod, w) \<Rightarrow>
      case qp_rd P OFF_RESP_CONS w of (resp_cons, w) \<Rightarrow>
        (\<lparr>ps_enabled = bit st 0, ps_busy = bit st 2, ps_work = bit st 4, ps_refused = bit st 5, ps_epoch = ucast (drop_bit 16 st),
          ps_cmd_base = cmd_base AND QFD_ADDRESS, ps_cmd_log2 = cmd_log2 AND 0xF,
          ps_resp_base = resp_base AND QFD_ADDRESS, ps_resp_log2 = resp_log2 AND 0xF,
          ps_cmd_prod = ucast cmd_prod, ps_resp_prod = ucast resp_prod, ps_resp_cons = ucast resp_cons\<rparr>, w))"

definition f_claim :: "'w qfd_page \<Rightarrow> u16 \<Rightarrow> 'w \<Rightarrow> bool \<times> 'w" where
  "f_claim P epoch w =
     (case qp_rd P OFF_CLAIM (qp_wr P OFF_CLAIM (push_bit 16 (ucast epoch) OR 1) w) of (v, w) \<Rightarrow> (bit v 0, w))"

definition f_release :: "'w qfd_page \<Rightarrow> 'w \<Rightarrow> 'w" where
  "f_release P w = qp_wr P OFF_CLAIM 0 w"

definition f_handles :: "'w qfd_page \<Rightarrow> u16 \<Rightarrow> nat \<Rightarrow> 'w \<Rightarrow> 'w" where
  "f_handles P epoch n w = qp_wr P OFF_HANDLES (push_bit 16 (ucast epoch) OR (of_nat n AND 0xFF)) w"

definition f_complete :: "'w qfd_page \<Rightarrow> u16 \<Rightarrow> u16 \<Rightarrow> 'w \<Rightarrow> 'w" where
  "f_complete P epoch index w = qp_wr P OFF_RESP_PROD (push_bit 16 (ucast epoch) OR ucast index) (qp_barrier P w)"

definition f_rtc :: "'w qfd_page \<Rightarrow> u32 \<Rightarrow> u32 \<Rightarrow> 'w \<Rightarrow> 'w" where
  "f_rtc P seconds ns w = qp_wr P OFF_RTC_SECONDS seconds (qp_wr P OFF_RTC_FRACTION ns w)"

section \<open>The step\<close>

text \<open>What the step says is kept in \<open>gr_said\<close>, the newest last.\<close>

datatype ring_line = Misfit u32 u32 u32 u32 nat | Not_taken u16 u16

record qfd_ring =
  gr_seen :: bool
  gr_epoch :: u16
  gr_rtc_second :: int
  gr_said_misfit :: bool
  gr_said :: "ring_line list"

definition qfd_ring_init :: qfd_ring where
  "qfd_ring_init = \<lparr>gr_seen = False, gr_epoch = 0, gr_rtc_second = -1, gr_said_misfit = False, gr_said = []\<rparr>"

definition ring_fits :: "'w host \<Rightarrow> u32 \<Rightarrow> u32 \<Rightarrow> bool" where
  "ring_fits H base log2 \<longleftrightarrow> log2 \<le> 8 \<and> base AND 7 = 0 \<and> unat base + 8 * 2 ^ unat log2 \<le> w_words H"

definition slot_at :: "u32 \<Rightarrow> u32 \<Rightarrow> u16 \<Rightarrow> nat" where
  "slot_at base log2 i = unat (base + 8 * (ucast i mod push_bit (unat log2) 1))"

text \<open>The command done: the page read again, and the completion unless a disable overtook it.\<close>

definition publish :: "'w host \<Rightarrow> 'w qfd_page \<Rightarrow> u16 \<Rightarrow> u16 \<Rightarrow> qfd_ring \<Rightarrow> qfd \<Rightarrow> 'w \<Rightarrow> int \<times> qfd_ring \<times> qfd \<times> 'w" where
  "publish H P epoch i g d w =
     (case f_state P w of (u, w) \<Rightarrow>
        if ps_epoch u \<noteq> epoch then
          (case qfd_reset H d w of (d, w) \<Rightarrow> (1, g\<lparr>gr_epoch := ps_epoch u\<rparr>, d, f_release P w))
        else
          (let w = f_complete P epoch (i + 1) (f_handles P epoch (qfd_handles_open d) w)
           in case f_state P w of (u, w) \<Rightarrow>
             let w = f_release P w
             in if ps_epoch u = epoch \<and> ps_resp_prod u \<noteq> i + 1 then
                  (- 1, g\<lparr>gr_said := gr_said g @ [Not_taken i (ps_resp_prod u)]\<rparr>, d, w)
                else (1, g, d, w)))"

text \<open>The page read under the claim, and the command at the slot it names.\<close>

definition serve :: "'w host \<Rightarrow> 'w qfd_page \<Rightarrow> u16 \<Rightarrow> qfd_ring \<Rightarrow> qfd \<Rightarrow> 'w \<Rightarrow> int \<times> qfd_ring \<times> qfd \<times> 'w" where
  "serve H P epoch g d w =
     (case f_state P w of (u, w) \<Rightarrow>
        if ps_epoch u \<noteq> epoch \<or> \<not> ps_work u then (0, g, d, f_release P w)
        else if \<not> ring_fits H (ps_cmd_base u) (ps_cmd_log2 u) \<or> \<not> ring_fits H (ps_resp_base u) (ps_resp_log2 u) then
          (0, (if gr_said_misfit g then g
               else g\<lparr>gr_said := gr_said g @ [Misfit (ps_cmd_base u) (ps_cmd_log2 u) (ps_resp_base u) (ps_resp_log2 u) (w_words H)]\<rparr>)
              \<lparr>gr_said_misfit := True\<rparr>, d, f_release P w)
        else
          (let i = ps_resp_prod u
           in case qfd_execute H (slot_at (ps_cmd_base u) (ps_cmd_log2 u) i) (slot_at (ps_resp_base u) (ps_resp_log2 u) i) d w of
                (d, w) \<Rightarrow> publish H P epoch i g d w))"

definition claim_and_serve :: "'w host \<Rightarrow> 'w qfd_page \<Rightarrow> qfd_state \<Rightarrow> qfd_ring \<Rightarrow> qfd \<Rightarrow> 'w \<Rightarrow> int \<times> qfd_ring \<times> qfd \<times> 'w" where
  "claim_and_serve H P s g d w =
     (if \<not> ps_work s then (0, g, d, w)
      else case f_claim P (ps_epoch s) w of (claimed, w) \<Rightarrow> if \<not> claimed then (0, g, d, w) else serve H P (ps_epoch s) g d w)"

definition qfd_ring_step :: "'w host \<Rightarrow> 'w qfd_page \<Rightarrow> qfd_ring \<Rightarrow> qfd \<Rightarrow> 'w \<Rightarrow> int \<times> qfd_ring \<times> qfd \<times> 'w" where
  "qfd_ring_step H P g d w =
     (case f_state P w of (s, w) \<Rightarrow>
        if \<not> gr_seen g \<or> ps_epoch s \<noteq> gr_epoch g then
          (case qfd_reset H d w of (d, w) \<Rightarrow>
             claim_and_serve H P s (g\<lparr>gr_epoch := ps_epoch s, gr_seen := True\<rparr>) d (f_handles P (ps_epoch s) 0 w))
        else claim_and_serve H P s g d w)"

definition qfd_ring_clock :: "'w qfd_page \<Rightarrow> int \<Rightarrow> u32 \<Rightarrow> qfd_ring \<Rightarrow> 'w \<Rightarrow> qfd_ring \<times> 'w" where
  "qfd_ring_clock P sec ns g w =
     (if sec = gr_rtc_second g then (g, w)
      else (g\<lparr>gr_rtc_second := sec\<rparr>, f_rtc P (if sec < 0 then 0 else if 0xFFFFFFFF < sec then 0xFFFFFFFF else of_int sec) ns w))"

section \<open>The program\<close>

definition qfd_mounts_describe :: "qfd_mounts \<Rightarrow> cstr list" where
  "qfd_mounts_describe m =
     (let ro = (\<lambda>mt. octets (if mt_ro mt then ''read-only'' else ''read-write''))
      in (case mo_default m of
            Some mt \<Rightarrow> octets ''/ is '' @ mt_given mt @ octets '', '' @ ro mt
          | None \<Rightarrow> octets (if mo_named m = [] then ''/ is empty and read-only: nothing is mounted'' else ''/ holds the mounts alone, read-only''))
         # map (\<lambda>(n, mt). octets ''/'' @ n @ octets '' is '' @ mt_given mt @ octets '', '' @ ro mt) (mo_named m))"

definition qfd_checkpoint_refusal :: "nat \<Rightarrow> nat \<Rightarrow> string option" where
  "qfd_checkpoint_refusal handles queued =
     (if handles = 0 \<and> queued = 0 then None
      else Some (''the file device has '' @ digits_put 10 handles @ '' '' @ (if handles = 1 then ''handle open'' else ''handles open'')
        @ '' and '' @ digits_put 10 queued @ '' '' @ (if queued = 1 then ''command queued'' else ''commands queued'')
        @ ''; a checkpoint waits until every handle is closed and every command answered''))"

record qfd_flags =
  qg_roots :: "cstr list"
  qg_guard :: bool
  qg_logs :: "cstr list"

text \<open>The exit code, or the flags.\<close>

function qfd_args :: "cstr list \<Rightarrow> qfd_flags \<Rightarrow> nat + qfd_flags" where
  "qfd_args [] f = Inr f"
| "qfd_args (a # as) f =
     (if a = octets ''--file-root'' \<and> as \<noteq> [] then
        (if length (qg_roots f) = 64 then Inl 2 else qfd_args (tl as) (f\<lparr>qg_roots := qg_roots f @ [hd as]\<rparr>))
      else if a = octets ''--no-guard'' then qfd_args as (f\<lparr>qg_guard := False\<rparr>)
      else if a = octets ''--log'' \<and> as \<noteq> [] then qfd_args (tl as) (f\<lparr>qg_logs := qg_logs f @ [hd as]\<rparr>)
      else if a = octets ''--help'' \<or> a = octets ''-h'' then Inl 0
      else Inl 2)"
  by pat_completeness auto
termination by (relation "measure (\<lambda>(as, _). length as)") (auto simp: less_Suc_eq_le)

fun add_mounts :: "'w host \<Rightarrow> cstr list \<Rightarrow> qfd_mounts \<Rightarrow> 'w \<Rightarrow> (mount_err + qfd_mounts) \<times> 'w" where
  "add_mounts H [] m w = (Inr m, w)"
| "add_mounts H (spec # specs) m w =
     (case qfd_mount_add H spec m w of (Inl e, w) \<Rightarrow> (Inl e, w) | (Inr m, w) \<Rightarrow> add_mounts H specs m w)"

text \<open>The loop: a reading of the clock for each time round, until it is told to stop; whether it failed.\<close>

fun qfd_loop :: "'w host \<Rightarrow> 'w qfd_page \<Rightarrow> (int \<times> u32) list \<Rightarrow> qfd_ring \<Rightarrow> qfd \<Rightarrow> 'w \<Rightarrow> bool \<times> qfd_ring \<times> qfd \<times> 'w" where
  "qfd_loop H P [] g d w = (False, g, d, w)"
| "qfd_loop H P ((sec, ns) # ts) g d w =
     (case qfd_ring_clock P sec ns g w of (g, w) \<Rightarrow>
      case qfd_ring_step H P g d w of (r, g, d, w) \<Rightarrow> if r < 0 then (True, g, d, w) else qfd_loop H P ts g d w)"

definition qfd_stop :: "'w host \<Rightarrow> 'w qfd_page \<Rightarrow> qfd \<Rightarrow> 'w \<Rightarrow> qfd \<times> 'w" where
  "qfd_stop H P d w =
     (case f_state P w of (s, w) \<Rightarrow> case qfd_reset H d w of (d, w) \<Rightarrow> (d, f_handles P (ps_epoch s) 0 w))"

text \<open>
  The program's exit code: the log opened, memory and the page mapped, the tally as a loaded fabric's
  and main memory mapped are given, and the room the board keeps.
\<close>

definition qfd_main ::
  "'w host \<Rightarrow> 'w qfd_page \<Rightarrow> nat \<Rightarrow> bool \<Rightarrow> bool \<Rightarrow> bool \<Rightarrow> bool \<Rightarrow> u32 \<Rightarrow> cstr list \<Rightarrow> (int \<times> u32) list \<Rightarrow> 'w \<Rightarrow> nat \<times> 'w" where
  "qfd_main H P depth log_opens page_opens tally main_opens room args ts w =
     (case qfd_args args \<lparr>qg_roots = [], qg_guard = True, qg_logs = []\<rparr> of
        Inl status \<Rightarrow> (status, w)
      | Inr f \<Rightarrow>
          (if \<not> log_opens then (1, w)
           else case add_mounts H (qg_roots f) (qd_mounts qfd_init) w of
               (Inl e, w) \<Rightarrow> (2, w)
             | (Inr m, w) \<Rightarrow>
                 (case qfd_sweep H depth m w of (gone, w) \<Rightarrow>
                    if \<not> page_opens \<or> qg_guard f \<and> \<not> tally then (1, w)
                    else case qfd_fabric_attach P w of
                        (Inl e, w) \<Rightarrow> (1, w)
                      | (Inr words, w) \<Rightarrow>
                          (if room < words \<or> \<not> main_opens then (1, w)
                           else case qfd_loop (H\<lparr>w_words := unat words\<rparr>) P ts qfd_ring_init (qfd_init\<lparr>qd_mounts := m\<rparr>) w of
                               (failed, g, d, w) \<Rightarrow> (if failed then 1 else 0, snd (qfd_stop H P d w))))))"

end
