(* ===== verification/Qfd_Confined.thy ===== *)
theory Qfd_Confined
  imports Qfd_Command
begin

text \<open>
  What the file device may change of its host: the interface of a host that keeps a property under
  every call that only looks, and under a call that changes something where it may be changed, and
  that every command then keeps it.
\<close>

section \<open>Paths\<close>

definition dotless :: "cstr \<Rightarrow> bool" where
  "dotless p \<longleftrightarrow> [DOT, DOT] \<notin> set (split_slash p)"

text \<open>Below a folder, by the path alone.\<close>

definition below :: "cstr \<Rightarrow> cstr \<Rightarrow> bool" where
  "below root p \<longleftrightarrow> inside p root \<and> p \<noteq> root \<and> dotless p"

definition mount_list :: "qfd_mounts \<Rightarrow> qfd_mount list" where
  "mount_list m = (case mo_default m of Some mt \<Rightarrow> [mt] | None \<Rightarrow> []) @ map snd (mo_named m)"

definition may_change :: "qfd_mounts \<Rightarrow> cstr \<Rightarrow> bool" where
  "may_change m p \<longleftrightarrow> (\<exists>mt \<in> set (mount_list m). \<not> mt_ro mt \<and> below (mt_path mt) p)"

definition mounts_ok :: "qfd_mounts \<Rightarrow> bool" where
  "mounts_ok m \<longleftrightarrow> (\<forall>mt \<in> set (mount_list m). mt_path mt \<noteq> [] \<and> dotless (mt_path mt))"

lemma split_slash_nonempty [simp]: "split_slash p \<noteq> []"
  by (induction p rule: split_slash.induct) (auto split: list.splits)

lemma split_slash_append: "split_slash (a @ SLASH # b) = split_slash a @ split_slash b"
  by (induction a) (auto split: list.splits)

lemma split_slash_plain: "SLASH \<notin> set c \<Longrightarrow> split_slash c = [c]"
  by (induction c) auto

lemma valid_plain: "valid_component c \<Longrightarrow> SLASH \<notin> set c \<and> c \<noteq> [] \<and> c \<noteq> [DOT, DOT]"
  by (auto simp: valid_component_def split: if_splits)

lemma inside_iff:
  "inside p root \<longleftrightarrow> (if root = [SLASH] then p \<noteq> [] \<and> hd p = SLASH else p = root \<or> (\<exists>q. p = root @ SLASH # q))"
proof -
  have "p = root \<or> (\<exists>q. p = root @ SLASH # q)"
    if "take (length root) p = root" "length p = length root \<or> p ! length root = SLASH" "length root \<le> length p"
  proof -
    have "p = root @ drop (length root) p" using that(1) append_take_drop_id [of "length root" p] by simp
    then obtain r where r: "p = root @ r" by blast
    then show ?thesis using that(2) by (cases r) auto
  qed
  moreover have "length root \<le> length p" if "take (length root) p = root" using that by (metis length_take min.cobounded1)
  ultimately show ?thesis by (auto simp: inside_def Let_def)
qed

lemma inside_join: "inside p root \<Longrightarrow> inside (path_join p c) root"
  by (auto simp: inside_iff path_join_def split: if_splits)

lemma inside_self: "root \<noteq> [] \<Longrightarrow> inside root root"
  by (simp add: inside_iff)

lemma inside_longer: "inside p root \<Longrightarrow> length root \<le> length p"
  by (cases "p = []") (auto simp: inside_iff Suc_le_eq split: if_splits)

lemma dotless_join: "dotless p \<Longrightarrow> SLASH \<notin> set c \<Longrightarrow> c \<noteq> [DOT, DOT] \<Longrightarrow> dotless (path_join p c)"
  by (simp add: dotless_def path_join_def split_slash_append split_slash_plain)

lemma below_join:
  assumes "inside p root" "dotless p" "SLASH \<notin> set c" "c \<noteq> [DOT, DOT]"
  shows "below root (path_join p c)"
proof -
  have "path_join p c \<noteq> root" using inside_longer [OF assms(1)] by (auto simp: path_join_def)
  then show ?thesis using assms by (simp add: below_def inside_join dotless_join)
qed

text \<open>The folder a path is in, when the path is below a root.\<close>

lemma folder_of_join: "SLASH \<notin> set c \<Longrightarrow> folder_of (path_join p c) = (if p = [] then [SLASH] else p)"
proof -
  assume c: "SLASH \<notin> set c"
  have "dropWhile (\<lambda>b. b \<noteq> SLASH) (rev c @ SLASH # rev p) = SLASH # rev p"
    using c by (subst dropWhile_append2) auto
  then show ?thesis by (simp add: folder_of_def path_join_def)
qed

lemma last_component:
  assumes "SLASH \<in> set p"
  obtains q c where "p = path_join q c" "SLASH \<notin> set c"
proof -
  from split_list_last [OF assms] obtain ys zs where "p = ys @ SLASH # zs" "SLASH \<notin> set zs" by blast
  then show thesis using that by (simp add: path_join_def)
qed

lemma below_split:
  assumes "below root p" "root \<noteq> []"
  obtains q c where "p = path_join q c" "SLASH \<notin> set c" "inside (if q = [] then [SLASH] else q) root"
proof (cases "root = [SLASH]")
  case True
  then have p: "p \<noteq> []" "hd p = SLASH" using assms(1) by (auto simp: below_def inside_iff)
  then have "SLASH \<in> set p" by (metis hd_in_set)
  then obtain q c where q: "p = path_join q c" "SLASH \<notin> set c" by (rule last_component)
  have "inside (if q = [] then [SLASH] else q) root" using p q(1) True by (cases q) (auto simp: inside_iff path_join_def)
  with q show thesis by (rule that)
next
  case False
  then obtain r where r: "p = root @ SLASH # r" using assms(1) by (auto simp: below_def inside_iff)
  show thesis
  proof (cases "SLASH \<in> set r")
    case True
    then obtain q c where q: "r = path_join q c" "SLASH \<notin> set c" by (rule last_component)
    have "inside (root @ SLASH # q) root" using False by (simp add: inside_iff)
    then show thesis using that [of "root @ SLASH # q" c] q r by (simp add: path_join_def)
  next
    case False
    then show thesis using that [of root r] r assms(2) by (simp add: path_join_def inside_self)
  qed
qed

lemma folder_inside:
  assumes "below root p" "root \<noteq> []"
  shows "inside (folder_of p) root" "dotless (folder_of p)"
proof -
  obtain q c where p: "p = path_join q c" "SLASH \<notin> set c" "inside (if q = [] then [SLASH] else q) root"
    using assms by (rule below_split)
  note f = folder_of_join [OF p(2), of q, folded p(1)]
  show "inside (folder_of p) root" using p(3) f by simp
  have "dotless p" using assms(1) by (simp add: below_def)
  then show "dotless (folder_of p)" using f by (auto simp: p(1) dotless_def path_join_def split_slash_append)
qed

section \<open>The handles\<close>

fun handle_fd :: "qfd_handle \<Rightarrow> nat list" where
  "handle_fd (H_write fd temp target noreplace held) = [fd]"
| "handle_fd (H_read fd) = [fd]"
| "handle_fd H_none = []"

fun handle_may :: "qfd_mounts \<Rightarrow> qfd_handle \<Rightarrow> bool" where
  "handle_may m (H_write fd temp target noreplace held) \<longleftrightarrow> may_change m temp \<and> may_change m target"
| "handle_may m _ \<longleftrightarrow> True"

definition open_fds :: "qfd \<Rightarrow> nat list" where
  "open_fds d = concat (map handle_fd (qd_h d))"

definition device_ok :: "qfd_mounts \<Rightarrow> qfd \<Rightarrow> bool" where
  "device_ok m d \<longleftrightarrow> qd_mounts d = m \<and> length (qd_h d) = QFD_MAX_HANDLES \<and> list_all (handle_may m) (qd_h d) \<and> distinct (open_fds d)"

text \<open>The device and its host together.\<close>

definition device_good :: "qfd_mounts \<Rightarrow> (nat set \<Rightarrow> 'w \<Rightarrow> bool) \<Rightarrow> qfd \<times> 'w \<Rightarrow> bool" where
  "device_good m good dw \<longleftrightarrow> device_ok m (fst dw) \<and> good (set (open_fds (fst dw))) (snd dw)"

lemma concat_update:
  assumes "k < length xs" "distinct (concat (map f xs))"
  shows "set (concat (map f (xs[k := y]))) = (set (concat (map f xs)) - set (f (xs ! k))) \<union> set (f y)"
    and "distinct (f y) \<Longrightarrow> set (f y) \<inter> (set (concat (map f xs)) - set (f (xs ! k))) = {} \<Longrightarrow> distinct (concat (map f (xs[k := y])))"
proof -
  have x: "xs = take k xs @ xs ! k # drop (Suc k) xs" using assms(1) by (rule id_take_nth_drop)
  have u: "xs[k := y] = take k xs @ y # drop (Suc k) xs" using assms(1) by (rule upd_conv_take_nth_drop)
  have c: "concat (map f xs) = concat (map f (take k xs)) @ f (xs ! k) @ concat (map f (drop (Suc k) xs))"
    by (subst x) simp
  show "set (concat (map f (xs[k := y]))) = (set (concat (map f xs)) - set (f (xs ! k))) \<union> set (f y)"
    using assms(2) unfolding c u by auto
  show "distinct (concat (map f (xs[k := y])))" if "distinct (f y)" "set (f y) \<inter> (set (concat (map f xs)) - set (f (xs ! k))) = {}"
  proof -
    define A B X where "A = concat (map f (take k xs))" and "B = concat (map f (drop (Suc k) xs))" and "X = f (xs ! k)"
    have c': "concat (map f xs) = A @ X @ B" and u': "concat (map f (xs[k := y])) = A @ f y @ B"
      using c unfolding u by (simp_all add: A_def B_def X_def)
    have d: "distinct A" "distinct B" "set A \<inter> set B = {}" "set A \<inter> set X = {}" "set B \<inter> set X = {}" using assms(2) unfolding c' by auto
    have "set (f y) \<inter> ((set A \<union> set X \<union> set B) - set X) = {}" using that(2) unfolding c' X_def [symmetric] by (simp add: Un_assoc)
    then have "set (f y) \<inter> set A = {}" "set (f y) \<inter> set B = {}" using d(4, 5) by blast+
    then show ?thesis unfolding u' using d that(1) by auto
  qed
qed

text \<open>A handle given another value: the descriptors of the others are as before.\<close>

lemma device_update:
  assumes "device_ok m d" "k < 64" "handle_may m h" "set (handle_fd h) \<inter> (set (open_fds d) - set (handle_fd (qd_h d ! k))) = {}"
  shows "device_ok m (d\<lparr>qd_h := (qd_h d)[k := h]\<rparr>)"
    and "set (open_fds (d\<lparr>qd_h := (qd_h d)[k := h]\<rparr>)) = (set (open_fds d) - set (handle_fd (qd_h d ! k))) \<union> set (handle_fd h)"
proof -
  have d: "distinct (handle_fd h)" by (cases h) auto
  have k: "k < length (qd_h d)" "distinct (concat (map handle_fd (qd_h d)))" using assms(1, 2) by (auto simp: device_ok_def open_fds_def)
  show "set (open_fds (d\<lparr>qd_h := (qd_h d)[k := h]\<rparr>)) = (set (open_fds d) - set (handle_fd (qd_h d ! k))) \<union> set (handle_fd h)"
    using concat_update(1) [OF k, of h] by (simp add: open_fds_def)
  have "list_all (handle_may m) ((qd_h d)[k := h])"
    using assms(1, 3) set_update_subset_insert [of "qd_h d" k h] by (auto simp: device_ok_def list_all_iff)
  then show "device_ok m (d\<lparr>qd_h := (qd_h d)[k := h]\<rparr>)"
    using assms(1, 4) concat_update(2) [OF k d] by (simp add: device_ok_def open_fds_def)
qed

lemma device_none:
  assumes "device_ok m d" "k < 64"
  shows "device_ok m (d\<lparr>qd_h := (qd_h d)[k := H_none]\<rparr>)"
    and "set (open_fds (d\<lparr>qd_h := (qd_h d)[k := H_none]\<rparr>)) = set (open_fds d) - set (handle_fd (qd_h d ! k))"
  using device_update [OF assms, of H_none] by simp_all

lemma handle_at_less: "handle_at d h = Some k \<Longrightarrow> k < 64 \<and> qd_h d ! k \<noteq> H_none"
proof -
  assume a: "handle_at d h = Some k"
  then have "\<not> h < 1" "\<not> 64 < h" "k = unat h - 1" by (auto simp: handle_at_def split: if_splits)
  then show ?thesis using a by (auto simp: handle_at_def word_less_nat_alt split: if_splits)
qed

lemma free_handle_less: "free_handle d = Some k \<Longrightarrow> k < 64 \<and> qd_h d ! k = H_none"
  by (auto simp: free_handle_def find_Some_iff)

lemma handle_in: "device_ok m d \<Longrightarrow> k < 64 \<Longrightarrow> handle_may m (qd_h d ! k) \<and> set (handle_fd (qd_h d ! k)) \<subseteq> set (open_fds d)"
  by (auto simp: device_ok_def list_all_length open_fds_def intro!: bexI [of _ "qd_h d ! k"])

lemma digits_no_slash: "SLASH \<notin> set (octets (digits_put 10 n))"
proof
  assume "SLASH \<in> set (octets (digits_put 10 n))"
  then obtain c where c: "c \<in> set (digits_put 10 n)" "of_char c = SLASH" by (auto simp: octets_def)
  have "digit_value c < 10" using digits_put_char [of 10 n] c(1) by auto
  then have n: "48 \<le> (of_char c :: nat)" "(of_char c :: nat) \<le> 57" by (auto simp: digit_value_def Let_def split: if_splits)
  have "of_nat (of_char c) = (47 :: u8)" using c(2) by (simp only: of_nat_of_char)
  then have "unat (of_nat (of_char c) :: u8) = 47" by simp
  moreover have "unat (of_nat (of_char c) :: u8) = of_char c" using n(2) by (simp add: unsigned_of_nat take_bit_nat_eq_self)
  ultimately show False using n by simp
qed

lemma temp_plain: "SLASH \<notin> set (temp_name H n)" "temp_name H n \<noteq> [DOT, DOT]"
proof -
  have "temp_name H n = QFD_TEMP_PREFIX @ octets (digits_put 10 (w_pid H)) @ octets ''-'' @ octets (digits_put 10 (unat n))"
    by (simp add: temp_name_def octets_def)
  then show "SLASH \<notin> set (temp_name H n)" "temp_name H n \<noteq> [DOT, DOT]"
    using digits_no_slash by (simp_all add: QFD_TEMP_PREFIX_def octets_def)
qed

lemma place_writable:
  assumes "\<not> pl_ro (place_of m cs)" "list_all valid_component cs"
  shows "\<exists>mt \<in> set (mount_list m). \<not> mt_ro mt \<and> pl_root (place_of m cs) = Some (mt_path mt)" "list_all valid_component (pl_rel (place_of m cs))"
proof -
  have "x \<in> set (mo_named m)" if "named_mount m c = Some x" for c x using that nth_mem by (fastforce simp: named_mount_def find_Some_iff)
  then show "\<exists>mt \<in> set (mount_list m). \<not> mt_ro mt \<and> pl_root (place_of m cs) = Some (mt_path mt)"
    using assms(1) by (auto simp: place_of_def mount_list_def split: option.splits if_splits) force+
  show "list_all valid_component (pl_rel (place_of m cs))"
    using assms(2) by (cases cs) (auto simp: place_of_def split: option.splits)
qed

lemma parse_name_valid: "parse_name b = Inr cs \<Longrightarrow> list_all valid_component cs"
  by (auto simp: parse_name_def Let_def split: if_splits)

text \<open>Where a name leads: below its mount, or by a link to the mount's folder itself.\<close>

definition led :: "cstr \<Rightarrow> bool \<Rightarrow> found \<Rightarrow> bool" where
  "led root fl f \<longleftrightarrow> below root (fo_path f) \<or> fl \<and> fo_path f = root \<and> (\<exists>st. fo_meta f = Some st \<and> fs_kind st \<noteq> S_REG)"

section \<open>A host that is changed only where it may be\<close>

text \<open>
  \<open>good S w\<close> is what is kept: \<open>S\<close> is the descriptors the device has open, on files it opened to read or
  created where files may be, so that a write to one of them fails or changes a file of its own.
  A path that \<^verbatim>\<open>realpath\<close> gives has no \<^verbatim>\<open>..\<close> in it, and a mount's folder is not a file.
\<close>

locale confined =
  fixes H :: "'w host" and m :: qfd_mounts and good :: "nat set \<Rightarrow> 'w \<Rightarrow> bool"
  assumes mounts: "good S w \<Longrightarrow> mounts_ok m"
    and fewer: "good S w \<Longrightarrow> T \<subseteq> S \<Longrightarrow> good T w"
    and lstat: "good S w \<Longrightarrow> good S (snd (w_lstat H p w))"
    and stat: "good S w \<Longrightarrow> good S (snd (w_stat H p w))"
    and realpath: "good S w \<Longrightarrow> good S (snd (w_realpath H p w))"
    and list: "good S w \<Longrightarrow> good S (snd (w_list H p w))"
    and openr: "w_open H p w = (Inr fd, w') \<Longrightarrow> good S w \<Longrightarrow> good (insert fd S) w' \<and> fd \<notin> S"
    and open_fails: "w_open H p w = (Inl err, w') \<Longrightarrow> good S w \<Longrightarrow> good S w'"
    and fstat: "good S w \<Longrightarrow> good S (snd (w_fstat H fd w))"
    and reads: "good S w \<Longrightarrow> good S (snd (w_reads H fd w))"
    and pread: "good S w \<Longrightarrow> good S (snd (w_pread H fd n off w))"
    and load: "good S w \<Longrightarrow> good S (snd (w_load H k n w))"
    and store: "good S w \<Longrightarrow> good S (w_store H k ws w)"
    and close: "good S w \<Longrightarrow> good (S - {fd}) (w_close H fd w)"
    and create: "w_create H p w = (Inr fd, w') \<Longrightarrow> may_change m p \<Longrightarrow> good S w \<Longrightarrow> good (insert fd S) w' \<and> fd \<notin> S"
    and create_fails: "w_create H p w = (Inl err, w') \<Longrightarrow> may_change m p \<Longrightarrow> good S w \<Longrightarrow> good S w'"
    and mkdir: "may_change m p \<Longrightarrow> good S w \<Longrightarrow> good S (snd (w_mkdir H p w))"
    and unlink: "may_change m p \<Longrightarrow> good S w \<Longrightarrow> good S (snd (w_unlink H p w))"
    and rmdir: "may_change m p \<Longrightarrow> good S w \<Longrightarrow> good S (snd (w_rmdir H p w))"
    and rename: "may_change m p \<Longrightarrow> may_change m q \<Longrightarrow> good S w \<Longrightarrow> good S (snd (w_rename H p q w))"
    and renameat2: "may_change m p \<Longrightarrow> may_change m q \<Longrightarrow> good S w \<Longrightarrow> good S (snd (w_renameat2 H p q w))"
    and chmod: "may_change m p \<Longrightarrow> good S w \<Longrightarrow> good S (w_chmod H p md w)"
    and futimens: "fd \<in> S \<Longrightarrow> good S w \<Longrightarrow> good S (snd (w_futimens H fd t w))"
    and writes: "fd \<in> S \<Longrightarrow> good S w \<Longrightarrow> good S (snd (w_write H fd bs w))"
    and pwrite: "fd \<in> S \<Longrightarrow> good S w \<Longrightarrow> good S (snd (w_pwrite H fd bs off w))"
    and list_plain: "w_list H p w = (Inr (ns, ended), w') \<Longrightarrow> good S w \<Longrightarrow> c \<in> set ns \<Longrightarrow> SLASH \<notin> set c"
    and real_dotless: "w_realpath H p w = (Inr real, w') \<Longrightarrow> good S w \<Longrightarrow> dotless real"
    and root_dir: "w_stat H root w = (Inr st, w') \<Longrightarrow> root \<in> mt_path ` set (mount_list m) \<Longrightarrow> good S w \<Longrightarrow> fs_kind st \<noteq> S_REG"
begin

lemmas looks [simp] = lstat stat realpath list fstat reads pread load store

lemma exact_case_good [simp]: "good S w \<Longrightarrow> good S (snd (exact_case H dir name st w))"
  by (simp add: exact_case_def Let_def case_prod_unfold split: sum.split)

lemma resolve_link_good [simp]: "good S w \<Longrightarrow> good S (snd (resolve_link H root fl here lm w))"
  by (simp add: resolve_link_def case_prod_unfold split: sum.split)

lemma walk_good [simp]: "good S w \<Longrightarrow> good S (snd (walk H root fl cur cs w))"
  by (induction cs arbitrary: cur w) (simp_all add: Let_def case_prod_unfold split: sum.split resolved.split)

lemma lookup_good [simp]: "good S w \<Longrightarrow> good S (snd (lookup H p fl w))"
  by (simp add: lookup_def case_prod_unfold split: option.split sum.split)

lemma list_names_good [simp]: "good S w \<Longrightarrow> good S (snd (list_names H dir root ro ns w))"
  by (induction ns arbitrary: w) (simp_all add: Let_def case_prod_unfold split: sum.split option.split)

lemma list_folder_good [simp]: "good S w \<Longrightarrow> good S (snd (list_folder H dir root ro w))"
  by (simp add: list_folder_def case_prod_unfold split: sum.split)

lemma list_mounts_good [simp]: "good S w \<Longrightarrow> good S (snd (list_mounts H ms w))"
proof (induction ms arbitrary: w)
  case (Cons a ms)
  then show ?case by (cases a) (simp add: case_prod_unfold split: sum.split)
qed simp

lemma list_at_good [simp]: "good S w \<Longrightarrow> good S (snd (list_at H mo cs w))"
  by (simp add: list_at_def Let_def case_prod_unfold split: sum.split option.split)

lemma bytes_good [simp]: "good S w \<Longrightarrow> good S (snd (bytes_of_buf H b w))"
  by (simp add: bytes_of_buf_def case_prod_unfold)

lemma put_good [simp]: "good S w \<Longrightarrow> good S (put_bytes_at H at data w)"
  by (simp add: put_bytes_at_def store)

lemma dir_records_good [simp]: "good S w \<Longrightarrow> good S (snd (snd (dir_records H b es used k w)))"
proof (induction "length es - k" arbitrary: used k w)
  case 0
  then show ?case by (subst dir_records.simps) simp
next
  case (Suc n)
  have n: "n = length es - (k + 1)" using Suc(2) by simp
  show ?case using Suc(3) Suc(1) [OF n] by (subst dir_records.simps) (simp add: Let_def)
qed

lemma cmd_directory_good [simp]: "good S w \<Longrightarrow> good S (snd (cmd_directory H c d w))"
  by (simp add: cmd_directory_def case_prod_unfold split: option.split sum.split)

lemma cmd_complete_good [simp]: "good S w \<Longrightarrow> good S (snd (cmd_complete H c d w))"
  by (simp add: cmd_complete_def Let_def case_prod_unfold split: option.split sum.split)

lemma pread_all_good [simp]: "good S w \<Longrightarrow> good S (snd (pread_all H fd n off w))"
proof (induction n arbitrary: off w rule: less_induct)
  case (less n)
  have "n \<noteq> 0 \<Longrightarrow> x \<noteq> [] \<Longrightarrow> n - length x < n" for x :: "u8 list" by simp
  then show ?case using less by (subst pread_all.simps) (simp add: case_prod_unfold split: sum.split)
qed

lemma cmd_read_good [simp]: "good S w \<Longrightarrow> good S (snd (cmd_read H c d w))"
  by (simp add: cmd_read_def Let_def case_prod_unfold split: option.split sum.split qfd_handle.split)

lemma resolved_at:
  assumes "resolve_link H root fl here lm w = (At path st, w')" "good S w" "root \<in> mt_path ` set (mount_list m)" "below root here"
  shows "below root path \<or> fl \<and> path = root \<and> fs_kind st \<noteq> S_REG" "inside path root" "dotless path"
proof -
  consider "path = here" | w1 w2 where "w_realpath H here w = (Inr path, w1)" "inside path root" "w_stat H path w1 = (Inr st, w2)" "fl"
    using assms(1) by (auto simp: resolve_link_def split: if_splits prod.splits sum.splits)
  then have "(below root path \<or> fl \<and> path = root \<and> fs_kind st \<noteq> S_REG) \<and> inside path root \<and> dotless path"
  proof cases
    case 1
    then show ?thesis using assms(4) by (simp add: below_def)
  next
    case 2
    have d: "dotless path" using real_dotless [OF 2(1) assms(2)] .
    have "good S w1" using realpath [OF assms(2), of here] 2(1) by simp
    then have "path = root \<Longrightarrow> fs_kind st \<noteq> S_REG" using root_dir [of root w1 st w2] 2(3) assms(3) by simp
    then show ?thesis using 2 d by (auto simp: below_def)
  qed
  then show "below root path \<or> fl \<and> path = root \<and> fs_kind st \<noteq> S_REG" "inside path root" "dotless path" by simp_all
qed

lemma walk_led:
  assumes "walk H root fl cur cs w = (Inr f, w')" "good S w" "root \<in> mt_path ` set (mount_list m)"
    and "inside cur root" "dotless cur" "list_all valid_component cs"
  shows "led root fl f"
  using assms
proof (induction cs arbitrary: cur w)
  case (Cons c cs)
  let ?here = "path_join cur c"
  have here: "below root ?here" using Cons.prems(4-6) valid_plain [of c] by (intro below_join) auto
  obtain r1 w1 where l: "w_lstat H ?here w = (r1, w1)" by (cases "w_lstat H ?here w")
  show ?case
  proof (cases r1)
    case (Inl e)
    then show ?thesis using Cons.prems(1) l here by (auto simp: Let_def led_def split: if_splits)
  next
    case (Inr lm)
    obtain have' w2 where e: "exact_case H cur c lm w1 = (have', w2)" by (cases "exact_case H cur c lm w1")
    obtain r3 w3 where r: "resolve_link H root (fl \<or> cs \<noteq> []) ?here lm w2 = (r3, w3)"
      by (cases "resolve_link H root (fl \<or> cs \<noteq> []) ?here lm w2")
    have g1: "good S w1" using lstat [OF Cons.prems(2), of ?here] l by simp
    have g2: "good S w2" using exact_case_good [OF g1, of cur c lm] e by simp
    have g3: "good S w3" using resolve_link_good [OF g2, of root "fl \<or> cs \<noteq> []" ?here lm] r by simp
    show ?thesis
    proof (cases "have' \<and> (\<exists>path st. r3 = At path st)")
      case False
      then show ?thesis using Cons.prems(1) l e r Inr here
        by (auto simp: Let_def led_def split: if_splits resolved.splits)
    next
      case True
      then obtain path st where a: "r3 = At path st" by blast
      note at = resolved_at [OF r [unfolded a] g2 Cons.prems(3) here]
      have "led root fl f" if "cs = []" using Cons.prems(1) l e r Inr True a at(1) that by (auto simp: Let_def led_def)
      moreover have "led root fl f" if "cs \<noteq> []"
      proof -
        have "walk H root fl path cs w3 = (Inr f, w')" using Cons.prems(1) l e r Inr True a that by (auto simp: Let_def split: if_splits)
        from Cons.IH [OF this g3 Cons.prems(3) at(2, 3)] show ?thesis using Cons.prems(6) by simp
      qed
      ultimately show ?thesis by blast
    qed
  qed
qed simp

lemma lookup_led:
  assumes "lookup H p fl w = (Inr f, w')" "good S w" "pl_root p = Some (mt_path mt)" "mt \<in> set (mount_list m)"
    and "pl_rel p \<noteq> []" "list_all valid_component (pl_rel p)"
  shows "led (mt_path mt) fl f"
proof -
  have "mt_path mt \<noteq> []" "dotless (mt_path mt)" using mounts [OF assms(2)] assms(4) by (auto simp: mounts_ok_def)
  then show ?thesis
    using walk_led [of "mt_path mt" fl "mt_path mt" "pl_rel p" w f w' S] assms by (simp add: lookup_def inside_self)
qed

lemma lookup_may:
  assumes "lookup H (place_of m cs) fl w = (Inr f, w')" "good S w" "list_all valid_component cs"
    and "\<not> pl_ro (place_of m cs)" "pl_rel (place_of m cs) \<noteq> []"
  obtains mt where "mt \<in> set (mount_list m)" "\<not> mt_ro mt" "led (mt_path mt) fl f"
proof -
  obtain mt where mt: "mt \<in> set (mount_list m)" "\<not> mt_ro mt" "pl_root (place_of m cs) = Some (mt_path mt)"
    using place_writable(1) [OF assms(4, 3)] by blast
  show thesis using that [OF mt(1, 2)] lookup_led [OF assms(1, 2) mt(3, 1) assms(5) place_writable(2) [OF assms(4, 3)]] .
qed

text \<open>A name that may be changed: what is found of it, unless a link led to the mount's folder.\<close>

lemma led_may:
  assumes "mt \<in> set (mount_list m)" "\<not> mt_ro mt" "led (mt_path mt) fl f" "good S w" "\<not> fl \<or> fo_meta f = None \<or> fs_kind (the (fo_meta f)) = S_REG"
  shows "may_change m (fo_path f)" "SLASH \<notin> set c \<Longrightarrow> c \<noteq> [DOT, DOT] \<Longrightarrow> may_change m (path_join (folder_of (fo_path f)) c)"
proof -
  have b: "below (mt_path mt) (fo_path f)" using assms(3, 5) by (auto simp: led_def)
  then show "may_change m (fo_path f)" using assms(1, 2) by (auto simp: may_change_def)
  have "mt_path mt \<noteq> []" using mounts [OF assms(4)] assms(1) by (auto simp: mounts_ok_def)
  then show "may_change m (path_join (folder_of (fo_path f)) c)" if "SLASH \<notin> set c" "c \<noteq> [DOT, DOT]"
    using folder_inside [OF b] below_join [of "folder_of (fo_path f)" "mt_path mt" c] that assms(1, 2) by (auto simp: may_change_def)
qed

lemma rename_noreplace_good [simp]:
  "may_change m p \<Longrightarrow> may_change m q \<Longrightarrow> good S w \<Longrightarrow> good S (snd (rename_noreplace H p q w))"
  by (simp add: rename_noreplace_def case_prod_unfold renameat2 rename split: option.split sum.split)

lemma cmd_delete_good:
  assumes "qd_mounts d = m" "good S w"
  shows "good S (snd (cmd_delete H name d w))"
proof (cases "parse_name name")
  case (Inr cs)
  let ?p = "place_of m cs"
  show ?thesis
  proof (cases "pl_ro ?p \<or> pl_rel ?p = [] \<or> (\<exists>s. fst (lookup H ?p False w) = Inl s)")
    case False
    then obtain f w1 where l: "lookup H ?p False w = (Inr f, w1)" by (cases "lookup H ?p False w"; cases "fst (lookup H ?p False w)") auto
    have g: "good S w1" using lookup_good [OF assms(2), of ?p False] l by simp
    obtain mt where mt: "mt \<in> set (mount_list m)" "\<not> mt_ro mt" "led (mt_path mt) False f"
      using lookup_may [OF l assms(2) parse_name_valid [OF Inr]] False by blast
    note may = led_may(1) [OF mt g, simplified]
    show ?thesis using Inr l g may assms by (simp add: cmd_delete_def Let_def case_prod_unfold unlink rmdir split: option.split)
  qed (use Inr assms in \<open>auto simp: cmd_delete_def Let_def case_prod_unfold split: sum.split\<close>)
qed (simp add: cmd_delete_def assms)

lemma cmd_create_directory_good:
  assumes "qd_mounts d = m" "good S w"
  shows "good S (snd (cmd_create_directory H name d w))"
proof (cases "parse_name name")
  case (Inr cs)
  let ?p = "place_of m cs"
  obtain r w1 where l: "lookup H ?p True w = (r, w1)" by (cases "lookup H ?p True w")
  have g: "good S w1" using lookup_good [OF assms(2), of ?p True] l by simp
  have "good S (snd (w_mkdir H (fo_path f) w1))" if f: "r = Inr f" "fo_meta f = None" "\<not> pl_ro ?p" for f
  proof -
    have "pl_rel ?p \<noteq> []" using l f place_writable(1) [OF f(3) parse_name_valid [OF Inr]]
      by (auto simp: lookup_def split: sum.splits prod.splits if_splits)
    then obtain mt where "mt \<in> set (mount_list m)" "\<not> mt_ro mt" "led (mt_path mt) True f"
      using lookup_may [OF l [unfolded f(1)] assms(2) parse_name_valid [OF Inr] f(3)] by blast
    from led_may(1) [OF this g] f(2) show ?thesis using g by (simp add: mkdir)
  qed
  then show ?thesis
    using Inr assms l g by (auto simp: cmd_create_directory_def Let_def case_prod_unfold split: sum.split option.split)
qed (simp add: cmd_create_directory_def assms)

lemma cmd_rename_good:
  assumes "qd_mounts d = m" "good S w"
  shows "good S (snd (cmd_rename H from to d w))"
proof (cases "\<exists>fc tc. parse_name from = Inr fc \<and> parse_name to = Inr tc")
  case True
  then obtain fc tc where n: "parse_name from = Inr fc" "parse_name to = Inr tc" by blast
  let ?fp = "place_of m fc" and ?tp = "place_of m tc"
  obtain r w1 where l: "lookup H ?fp False w = (r, w1)" by (cases "lookup H ?fp False w")
  obtain r2 w2 where l2: "lookup H ?tp False w1 = (r2, w2)" by (cases "lookup H ?tp False w1")
  have g1: "good S w1" using lookup_good [OF assms(2), of ?fp False] l by simp
  have g2: "good S w2" using lookup_good [OF g1, of ?tp False] l2 by simp
  have "good S (snd (rename_noreplace H (fo_path f) (fo_path t) w2))"
    if p: "r = Inr f" "r2 = Inr t" "\<not> (pl_ro ?fp \<or> pl_ro ?tp)" "\<not> (pl_rel ?fp = [] \<or> pl_rel ?tp = [])" for f t
  proof -
    obtain mf where "mf \<in> set (mount_list m)" "\<not> mt_ro mf" "led (mt_path mf) False f"
      using lookup_may [OF l [unfolded p(1)] assms(2) parse_name_valid [OF n(1)]] p by blast
    note f = led_may(1) [OF this g1, simplified]
    obtain mt where "mt \<in> set (mount_list m)" "\<not> mt_ro mt" "led (mt_path mt) False t"
      using lookup_may [OF l2 [unfolded p(2)] g1 parse_name_valid [OF n(2)]] p by blast
    note t = led_may(1) [OF this g1, simplified]
    show ?thesis using f t g2 by simp
  qed
  then show ?thesis
    using n assms l l2 g1 g2 by (auto simp: cmd_rename_def Let_def case_prod_unfold split: sum.split option.split)
next
  case False
  then show ?thesis using assms by (auto simp: cmd_rename_def split: sum.split)
qed

lemma write_all_good [simp]: "fd \<in> S \<Longrightarrow> good S w \<Longrightarrow> good S (snd (write_all H fd bs w))"
proof (induction bs arbitrary: w rule: length_induct)
  case (1 bs)
  have "bs \<noteq> [] \<Longrightarrow> 0 < n \<Longrightarrow> length (drop n bs) < length bs" for n by simp
  then show ?case using 1 writes [OF 1(2, 3), of bs] by (subst write_all.simps) (simp add: case_prod_unfold split: sum.split)
qed

lemma copy_chunks_good [simp]: "fd \<in> S \<Longrightarrow> good S w \<Longrightarrow> good S (snd (copy_chunks H fd cs w))"
  by (induction cs arbitrary: w) (simp_all add: case_prod_unfold split: option.split sum.split)

lemma close_other: "good (insert fd S) w \<Longrightarrow> fd \<notin> S \<Longrightarrow> good S (w_close H fd w)"
  using close [of "insert fd S" w fd] by simp

lemma copy_file_good:
  assumes "fd \<in> S" "good S w"
  shows "good S (snd (copy_file H path fd w))"
proof -
  obtain r w1 where o: "w_open H path w = (r, w1)" by (cases "w_open H path w")
  show ?thesis
  proof (cases r)
    case (Inl e)
    then show ?thesis using o open_fails assms(2) by (auto simp: copy_file_def)
  next
    case (Inr src)
    have g: "good (insert src S) w1" "src \<notin> S" using openr [OF o [unfolded Inr] assms(2)] by simp_all
    then show ?thesis using o Inr assms(1) by (simp add: copy_file_def case_prod_unfold close_other)
  qed
qed

section \<open>The handles\<close>

lemma handle_close_good:
  assumes "good (set (open_fds d)) w" "device_ok m d" "k < 64"
  shows "good (set (open_fds d) - set (handle_fd (qd_h d ! k))) (handle_close H (qd_h d ! k) rm w)"
  using assms handle_in [OF assms(2, 3)] by (cases "qd_h d ! k") (auto simp: handle_close_def Let_def close unlink)

lemma put_in_place_good:
  "fd \<in> S \<Longrightarrow> may_change m temp \<Longrightarrow> may_change m target \<Longrightarrow> good S w \<Longrightarrow>
   good S (snd (put_in_place H flags date fd temp target nr w))"
  by (simp add: put_in_place_def case_prod_unfold futimens rename split: option.split)

lemma cmd_close_kept:
  assumes "device_good m good (d, w)"
  shows "device_good m good (snd (cmd_close H hn flags date d w))"
proof (cases "handle_at d hn")
  case (Some k)
  have d: "device_ok m d" "good (set (open_fds d)) w" using assms by (simp_all add: device_good_def)
  have k: "k < 64" using handle_at_less [OF Some] by simp
  note n = device_none [OF d(1) k]
  have c: "good (set (open_fds (d\<lparr>qd_h := (qd_h d)[k := H_none]\<rparr>))) (handle_close H (qd_h d ! k) rm w1)" if "good (set (open_fds d)) w1" for rm w1
    using handle_close_good [OF that d(1) k] n(2) by simp
  show ?thesis
  proof (cases "qd_h d ! k")
    case (H_write fd temp target nr held)
    have "good (set (open_fds d)) (snd (put_in_place H flags date fd temp target nr w))"
      using handle_in [OF d(1) k] H_write d(2) by (intro put_in_place_good) auto
    then show ?thesis
      using Some H_write n(1) d c [unfolded H_write] by (simp add: cmd_close_def device_good_def Let_def case_prod_unfold split: option.split sum.split)
  qed (use Some n(1) d c in \<open>auto simp: cmd_close_def device_good_def Let_def case_prod_unfold split: sum.split\<close>)
qed (use assms in \<open>simp add: cmd_close_def\<close>)

lemma temps_ok [simp]: "device_ok m (d\<lparr>qd_temps := t\<rparr>) = device_ok m d" "open_fds (d\<lparr>qd_temps := t\<rparr>) = open_fds d"
  "device_ok m (d\<lparr>qd_log := l\<rparr>) = device_ok m d" "open_fds (d\<lparr>qd_log := l\<rparr>) = open_fds d"
  by (simp_all add: device_ok_def open_fds_def)

text \<open>A handle that was free given to a file just opened.\<close>

lemma device_open:
  assumes "device_good m good (d, w)" "free_handle d = Some k" "good (insert fd (set (open_fds d))) w'" "fd \<notin> set (open_fds d)"
    and "handle_may m h" "handle_fd h = [fd]"
  shows "device_good m good (d\<lparr>qd_h := (qd_h d)[k := h]\<rparr>, w')"
proof -
  have k: "k < 64" "qd_h d ! k = H_none" using free_handle_less [OF assms(2)] by simp_all
  have d: "device_ok m d" using assms(1) by (simp add: device_good_def)
  show ?thesis using device_update [OF d k(1) assms(5)] k(2) assms(3, 4, 6) by (simp add: device_good_def)
qed

lemma open_temp_kept:
  assumes "device_good m good (d, w)" "free_handle d = Some k" "good (insert fd (set (open_fds d))) w'" "fd \<notin> set (open_fds d)"
    and "may_change m temp" "may_change m (fo_path f)"
  shows "device_good m good (snd (open_temp H ex f k temp fd d w'))"
proof -
  let ?S = "set (open_fds d)"
  define w3 where "w3 = (case fo_meta f of Some mm \<Rightarrow> w_chmod H temp (fs_mode mm AND 0xFFF) w' | None \<Rightarrow> w')"
  define rw where "rw = (if fo_meta f \<noteq> None \<and> ex = 2 then copy_file H (fo_path f) fd w3 else (Inr 0, w3))"
  have "good (insert fd ?S) w3" using assms(3, 5) by (simp add: w3_def chmod split: option.split)
  then have g: "good (insert fd ?S) (snd rw)" using copy_file_good [of fd "insert fd ?S" w3] by (simp add: rw_def)
  have "device_good m good (d\<lparr>qd_h := (qd_h d)[k := H_write fd temp (fo_path f) (ex = 1) held]\<rparr>, snd rw)" for held
    using device_open [OF assms(1, 2) g assms(4)] assms(5, 6) by simp
  moreover have "device_good m good (d, snd (w_unlink H temp (w_close H fd (snd rw))))"
    using close_other [OF g assms(4)] assms(1, 5) by (simp add: device_good_def unlink)
  ultimately show ?thesis
    unfolding open_temp_def Let_def w3_def [symmetric] rw_def [symmetric] by (simp add: case_prod_unfold split: sum.split)
qed

lemma open_write_kept:
  assumes "device_good m good (d, w)" "list_all valid_component cs"
  shows "device_good m good (snd (open_write H (place_of m cs) ex none_err d w))"
proof (cases "pl_ro (place_of m cs) \<or> pl_rel (place_of m cs) = []")
  case False
  let ?p = "place_of m cs" and ?S = "set (open_fds d)" and ?d = "d\<lparr>qd_temps := qd_temps d + 1\<rparr>"
  have d: "device_ok m d" "good ?S w" using assms(1) by (simp_all add: device_good_def)
  obtain r w1 where l: "lookup H ?p True w = (r, w1)" by (cases "lookup H ?p True w")
  have g1: "good ?S w1" using lookup_good [OF d(2), of ?p True] l by simp
  have dg: "device_good m good (d, w1)" "device_good m good (?d, w1)" using d g1 by (simp_all add: device_good_def)
  have may: "may_change m (fo_path f)" "may_change m (path_join (folder_of (fo_path f)) (temp_name H (qd_temps d)))"
    if f: "r = Inr f" "write_refusal ex none_err f = QFD_OK" for f
  proof -
    obtain mt where mt: "mt \<in> set (mount_list m)" "\<not> mt_ro mt" "led (mt_path mt) True f"
      using lookup_may [OF l [unfolded f(1)] d(2) assms(2)] False by blast
    have "fo_meta f = None \<or> fs_kind (the (fo_meta f)) = S_REG" using f(2) by (auto simp: write_refusal_def split: option.splits if_splits)
    then show "may_change m (fo_path f)" "may_change m (path_join (folder_of (fo_path f)) (temp_name H (qd_temps d)))"
      using led_may [OF mt g1] temp_plain [of H "qd_temps d"] by simp_all
  qed
  have made: "device_good m good (snd (case w_create H t w1 of
      (Inl e, w) \<Rightarrow> (Inl (qfd_errno_status e), ?d, w) | (Inr fd, w) \<Rightarrow> open_temp H ex f k t fd ?d w))"
    if "free_handle d = Some k" "may_change m (fo_path f)" "may_change m t" for f k t
  proof (cases "w_create H t w1")
    case (Pair c w2)
    show ?thesis
    proof (cases c)
      case (Inl e)
      then show ?thesis using create_fails [OF Pair [unfolded Inl] that(3) g1] d(1) Pair by (simp add: device_good_def)
    next
      case (Inr fd)
      have "free_handle ?d = Some k" using that(1) by (simp add: free_handle_def)
      then show ?thesis
        using open_temp_kept [OF dg(2), of k fd w2 t f ex] create [OF Pair [unfolded Inr] that(3) g1] that Pair Inr by simp
    qed
  qed
  show ?thesis
    using assms(1) False l dg(1) may made
    by (cases r; cases "free_handle d"; cases "pl_key ?p = KEY_BARE \<and> 1 < length (pl_rel ?p)") (auto simp: open_write_def Let_def)
qed (use assms(1) in \<open>auto simp: open_write_def\<close>)

lemma cmd_open_kept:
  assumes "device_good m good (d, w)"
  shows "device_good m good (snd (cmd_open H flags name d w))"
proof (cases "parse_name name")
  case (Inr cs)
  let ?p = "place_of m cs" and ?S = "set (open_fds d)"
  have d: "device_ok m d" "good ?S w" "qd_mounts d = m" using assms by (simp_all add: device_good_def device_ok_def)
  obtain r w1 where l: "lookup H ?p True w = (r, w1)" by (cases "lookup H ?p True w")
  have g1: "device_good m good (d, w1)" using lookup_good [OF d(2), of ?p True] l d by (simp add: device_good_def)
  have o: "device_good m good (d, w2)" if "w_open H path w1 = (Inl e, w2)" for path e w2
    using g1 open_fails [OF that] by (simp add: device_good_def)
  have o2: "device_good m good (d\<lparr>qd_h := (qd_h d)[k := H_read fd]\<rparr>, w2)" if "w_open H path w1 = (Inr fd, w2)" "free_handle d = Some k" for path fd w2 k
    using device_open [OF g1 that(2), of fd w2 "H_read fd"] openr [OF that(1), of ?S] g1 by (simp add: device_good_def)
  show ?thesis
    using Inr assms g1 l o o2 open_write_kept [OF assms parse_name_valid [OF Inr]] d(3)
    by (auto simp: cmd_open_def Let_def split: sum.split option.split prod.split)
qed (use assms in \<open>simp add: cmd_open_def Let_def\<close>)

lemma pwrite_all_good: "fd \<in> S \<Longrightarrow> good S w \<Longrightarrow> good S (snd (pwrite_all H fd bs off w))"
proof (induction bs arbitrary: off w rule: length_induct)
  case (1 bs)
  have "bs \<noteq> [] \<Longrightarrow> 0 < n \<Longrightarrow> length (drop n bs) < length bs" for n by simp
  then show ?case using 1 pwrite [OF 1(2, 3), of bs] by (subst pwrite_all.simps) (simp add: case_prod_unfold split: sum.split)
qed

lemma cmd_write_kept:
  assumes "device_good m good (d, w)"
  shows "device_good m good (snd (cmd_write H c d w))"
proof (cases "\<exists>a k fd temp target nr held. qfd_buffer H (c ! 2) (c ! 3) = Some a \<and> handle_at d (c ! 1) = Some k \<and>
    qd_h d ! k = H_write fd temp target nr held")
  case True
  then obtain a k fd temp target nr held where
    h: "qfd_buffer H (c ! 2) (c ! 3) = Some a" "handle_at d (c ! 1) = Some k" "qd_h d ! k = H_write fd temp target nr held" by blast
  let ?S = "set (open_fds d)" and ?h = "\<lambda>n. H_write fd temp target nr n"
  have d: "device_ok m d" "good ?S w" using assms by (simp_all add: device_good_def)
  have k: "k < 64" using handle_at_less [OF h(2)] by simp
  note i = handle_in [OF d(1) k, unfolded h(3)]
  have u: "device_good m good (d\<lparr>qd_h := (qd_h d)[k := ?h n]\<rparr>, w')" if "good ?S w'" for n w'
    using device_update [OF d(1) k, of "?h n"] h(3) i that by (auto simp: device_good_def insert_absorb)
  have b: "good ?S (snd (pwrite_all H fd (fst (bytes_of_buf H a w)) off (snd (bytes_of_buf H a w))))" for off
    using i d(2) by (intro pwrite_all_good) auto
  show ?thesis
    using h u b assms d by (auto simp: cmd_write_def Let_def case_prod_unfold device_good_def split: option.split)
next
  case False
  then show ?thesis using assms by (auto simp: cmd_write_def split: option.split qfd_handle.split)
qed

lemma command_kept:
  assumes "device_good m good (d, w)"
  shows "device_good m good (snd (command H opcode flags c d w))"
proof -
  let ?S = "set (open_fds d)"
  have d: "device_ok m d" "good ?S w" "qd_mounts d = m" using assms by (simp_all add: device_good_def device_ok_def)
  have keep: "device_good m good (d, w')" if "good ?S w'" for w' using d(1) that by (simp add: device_good_def)
  have st: "device_good m good (snd (of_status d r))" if "good ?S (snd r)" for r using keep [OF that] by (simp add: of_status_def case_prod_unfold)
  have rp: "device_good m good (snd (of_reply d r))" if "good ?S (snd r)" for r using keep [OF that] by (simp add: of_reply_def case_prod_unfold)
  have nm: "device_good m good (snd (with_name H c f d w))" if "\<And>x w'. good ?S w' \<Longrightarrow> device_good m good (snd (f x w'))" for f
    using that keep [OF d(2)] d(2) by (simp add: with_name_def case_prod_unfold split: option.split)
  have o1: "device_good m good (snd (with_name H c (\<lambda>x w. cmd_open H flags x d w) d w))"
    by (rule nm) (simp add: cmd_open_kept keep)
  have o7: "device_good m good (snd (with_name H c (\<lambda>x w. of_status d (cmd_delete H x d w)) d w))"
    by (rule nm) (simp add: st cmd_delete_good d(3))
  have o9: "device_good m good (snd (with_name H c (\<lambda>x w. of_status d (cmd_create_directory H x d w)) d w))"
    by (rule nm) (simp add: st cmd_create_directory_good d(3))
  have o8: "device_good m good (snd (case bytes_of_buf H a w of (x, w) \<Rightarrow> case bytes_of_buf H b w of (y, w) \<Rightarrow> of_status d (cmd_rename H x y d w)))" for a b
    using d by (simp add: case_prod_unfold st cmd_rename_good)
  have o10: "device_good m good (d\<lparr>qd_log := l\<rparr>, w')" if "good ?S w'" for l w' using keep [OF that] by (simp add: device_good_def)
  show ?thesis
    unfolding command_def
    using assms keep [OF d(2)] o1 o7 o9 o8 o10 d(2)
      rp [OF cmd_read_good [OF d(2)]] rp [OF cmd_directory_good [OF d(2)]] rp [OF cmd_complete_good [OF d(2)]]
    by (simp add: cmd_write_kept cmd_close_kept case_prod_unfold split: option.split)
qed

lemma execute_kept: "device_good m good (d, w) \<Longrightarrow> device_good m good (qfd_execute H cmd_at resp_at d w)"
proof -
  assume a: "device_good m good (d, w)"
  have "device_good m good (d, snd (w_load H cmd_at 8 w))" using a by (simp add: device_good_def)
  from command_kept [OF this] show ?thesis by (simp add: qfd_execute_def Let_def case_prod_unfold device_good_def)
qed

lemma reset_kept: "device_good m good (d, w) \<Longrightarrow> device_good m good (qfd_reset H d w)"
proof -
  assume a: "device_good m good (d, w)"
  have "list_all (handle_may m) hs \<Longrightarrow> good {} w \<Longrightarrow> good {} (fold (\<lambda>h w. handle_close H h True w) hs w)" for hs w
  proof (induction hs arbitrary: w)
    case (Cons h hs)
    have c: "good {} (w_close H fd w)" for fd using close [OF Cons.prems(2), of fd] by simp
    have "good {} (handle_close H h True w)" using Cons.prems c by (cases h) (auto simp: handle_close_def Let_def unlink)
    then show ?case using Cons by simp
  qed simp
  moreover have "good {} w" using a fewer [of "set (open_fds d)" w "{}"] by (simp add: device_good_def)
  moreover have "open_fds (d\<lparr>qd_h := replicate (length (qd_h d)) H_none\<rparr>) = []"
    by (auto simp: open_fds_def)
  ultimately show ?thesis using a by (auto simp: qfd_reset_def device_good_def device_ok_def list_all_iff)
qed

lemma sweep_names_good:
  assumes "mt \<in> set (mount_list m)" "\<not> mt_ro mt" "inside dir (mt_path mt)" "dotless dir"
    and down: "\<And>p w. inside p (mt_path mt) \<Longrightarrow> dotless p \<Longrightarrow> good S w \<Longrightarrow> good S (snd (sweep_dir H depth p w))"
  shows "good S w \<Longrightarrow> \<forall>c \<in> set names. SLASH \<notin> set c \<Longrightarrow> good S (snd (sweep_names H depth dir names w))"
proof (induction names arbitrary: w)
  case (Cons c names)
  let ?p = "path_join dir c"
  show ?case
  proof (cases "c = [DOT] \<or> c = [DOT, DOT]")
    case False
    have b: "below (mt_path mt) ?p" using Cons.prems(2) False assms(3, 4) by (intro below_join) auto
    then have "may_change m ?p" "inside ?p (mt_path mt)" "dotless ?p" using assms(1, 2) by (auto simp: may_change_def below_def)
    then show ?thesis
      using Cons False down [of ?p] by (auto simp: Let_def case_prod_unfold unlink split: sum.split option.split)
  qed (use Cons in auto)
qed simp

lemma sweep_good:
  assumes "mt \<in> set (mount_list m)" "\<not> mt_ro mt"
  shows "inside dir (mt_path mt) \<Longrightarrow> dotless dir \<Longrightarrow> good S w \<Longrightarrow> good S (snd (sweep_dir H depth dir w))"
proof (induction depth arbitrary: dir w)
  case (Suc depth)
  obtain r w1 where l: "w_list H dir w = (r, w1)" by (cases "w_list H dir w")
  have g: "good S w1" using list [OF Suc.prems(3), of dir] l by simp
  show ?case
  proof (cases r)
    case (Inr x)
    have "\<forall>c \<in> set (fst x). SLASH \<notin> set c" using list_plain [of dir w "fst x" "snd x" w1 S] l Inr Suc.prems(3) by simp
    then show ?thesis
      using sweep_names_good [OF assms Suc.prems(1, 2) Suc.IH g] l Inr by (simp add: case_prod_unfold)
  qed (use l g in simp)
qed simp

lemma qfd_sweep_good: "good S w \<Longrightarrow> good S (snd (qfd_sweep H depth m w))"
proof -
  assume g: "good S w"
  have "set ms \<subseteq> set (mount_list m) \<Longrightarrow> good S w \<Longrightarrow> good S (snd (sweep_mounts H depth ms w))" for ms w
  proof (induction ms arbitrary: w)
    case (Cons mt ms)
    have "mt_path mt \<noteq> []" "dotless (mt_path mt)" using mounts [OF g] Cons.prems(1) by (auto simp: mounts_ok_def)
    then have "good S (snd (sweep_dir H depth (mt_path mt) w))" if "\<not> mt_ro mt"
      using sweep_good [of mt "mt_path mt" S w depth] that Cons.prems by (simp add: inside_self)
    then show ?case using Cons by (simp add: Let_def case_prod_unfold)
  qed simp
  from this [OF _ g] show ?thesis by (simp add: qfd_sweep_def mount_list_def)
qed

end

text \<open>One command after the other, each given by where its entry and its response are.\<close>

definition qfd_commands :: "'w host \<Rightarrow> (nat \<times> nat) list \<Rightarrow> qfd \<times> 'w \<Rightarrow> qfd \<times> 'w" where
  "qfd_commands H entries s = fold (\<lambda>e s. qfd_execute H (fst e) (snd e) (fst s) (snd s)) entries s"

end
