(* ===== verification/Qfd_Page.thy ===== *)
theory Qfd_Page
  imports Qfd_Ring Qfd_Confined Run
begin

text \<open>
  The model of the page \<^verbatim>\<open>qfd_test.c\<close> puts in the fabric's place, with the rules it watches the program
  by, over any host.  Where the test disables the device at one chosen touch, here the machine may
  move before every access to the page or to main memory: a script of moves, any number before
  each access.  The epoch is kept as the number of disables, of which the page shows sixteen bits.
\<close>

unbundle bit_operations_syntax

section \<open>The device as the machine sees it\<close>

datatype fmove = Rings u32 u32 u32 u32 | Enable bool | Disable | Post u16 | Consume u16 | Poke nat "u32 list"

datatype breach = Read_unknown nat | Wrote_unknown nat u32 | No_barrier | Touched_unclaimed

record 'w fsim =
  fp_host :: 'w
  fp_enabled :: bool
  fp_ie :: bool
  fp_busy :: bool
  fp_refused :: bool
  fp_disables :: nat
  fp_cb :: u32
  fp_cl :: u32
  fp_rb :: u32
  fp_rl :: u32
  fp_cmd_prod :: u16
  fp_resp_prod :: u16
  fp_resp_cons :: u16
  fp_handles :: u32
  fp_staged :: u32
  fp_have_staged :: bool
  fp_rtc_sec :: u32
  fp_rtc_frac :: u32
  fp_rtc_stage :: u32
  fp_dirty :: bool
  fp_script :: "fmove list list"
  fp_bad :: "breach list"

definition fp_epoch :: "'w fsim \<Rightarrow> u16" where
  "fp_epoch s = of_nat (fp_disables s)"

definition fsim_disable :: "'w fsim \<Rightarrow> 'w fsim" where
  "fsim_disable s =
     (if \<not> fp_enabled s then s
      else s\<lparr>fp_enabled := False, fp_ie := False, fp_disables := fp_disables s + 1, fp_cmd_prod := 0, fp_resp_prod := 0,
             fp_resp_cons := 0, fp_handles := 0, fp_have_staged := False\<rparr>)"

definition fsim_work :: "'w fsim \<Rightarrow> bool" where
  "fsim_work s \<longleftrightarrow> fp_enabled s \<and> fp_cmd_prod s \<noteq> fp_resp_prod s \<and> unat (fp_resp_prod s - fp_resp_cons s) < 2 ^ unat (fp_rl s)"

fun fsim_move :: "'w host \<Rightarrow> fmove \<Rightarrow> 'w fsim \<Rightarrow> 'w fsim" where
  "fsim_move H (Rings cb cl rb rl) s =
     (if fp_enabled s then s
      else s\<lparr>fp_cb := cb AND 0x0FFFFFFF, fp_cl := cl AND 15, fp_rb := rb AND 0x0FFFFFFF, fp_rl := rl AND 15\<rparr>)"
| "fsim_move H (Enable ie) s =
     (if \<not> fp_enabled s \<and> ring_fits H (fp_cb s) (fp_cl s) \<and> ring_fits H (fp_rb s) (fp_rl s)
      then s\<lparr>fp_enabled := True, fp_ie := ie, fp_cmd_prod := 0, fp_resp_prod := 0, fp_resp_cons := 0\<rparr> else s\<lparr>fp_ie := ie\<rparr>)"
| "fsim_move H Disable s = fsim_disable s"
| "fsim_move H (Post v) s =
     (if fp_enabled s \<and> unat (v - fp_resp_prod s) \<le> 2 ^ unat (fp_cl s) \<and> fp_cmd_prod s - fp_resp_prod s \<le> v - fp_resp_prod s
      then s\<lparr>fp_cmd_prod := v\<rparr> else s)"
| "fsim_move H (Consume v) s =
     (if fp_enabled s \<and> v - fp_resp_cons s \<le> fp_resp_prod s - fp_resp_cons s then s\<lparr>fp_resp_cons := v\<rparr> else s)"
| "fsim_move H (Poke k ws) s = s\<lparr>fp_host := w_store H k ws (fp_host s)\<rparr>"

text \<open>The machine's moves before the program's next access.\<close>

definition fsim_turn :: "'w host \<Rightarrow> 'w fsim \<Rightarrow> 'w fsim" where
  "fsim_turn H s = (case fp_script s of [] \<Rightarrow> s | ms # script \<Rightarrow> fold (fsim_move H) ms (s\<lparr>fp_script := script\<rparr>))"

section \<open>The page as the program sees it\<close>

definition breached :: "breach \<Rightarrow> 'w fsim \<Rightarrow> 'w fsim" where
  "breached x s = s\<lparr>fp_bad := fp_bad s @ [x]\<rparr>"

definition fsim_state :: "'w fsim \<Rightarrow> u32" where
  "fsim_state s =
     (if fp_enabled s then 1 else 0) OR (if fp_ie s then 2 else 0) OR (if fp_busy s then 4 else 0) OR
     (if \<not> fp_enabled s \<and> \<not> fp_busy s then 8 else 0) OR (if fsim_work s then 16 else 0) OR (if fp_refused s then 32 else 0) OR
     push_bit 16 (ucast (fp_epoch s))"

definition fsim_val :: "'w host \<Rightarrow> 'w fsim \<Rightarrow> nat \<Rightarrow> u32 option" where
  "fsim_val H s i =
     (let on = (\<lambda>x. Some (if fp_enabled s then ucast (x :: u16) else 0))
      in if i = OFF_IDENT then Some QFD_IDENT_13
         else if i = OFF_RTC_SECONDS then Some (fp_rtc_sec s)
         else if i = OFF_RTC_FRACTION then Some (fp_rtc_frac s)
         else if i = OFF_STATE then Some (fsim_state s)
         else if i = OFF_CLAIM then Some (if fp_busy s then 1 else 0)
         else if i = OFF_CMD_BASE then Some (fp_cb s)
         else if i = OFF_CMD_LOG2 then Some (fp_cl s)
         else if i = OFF_RESP_BASE then Some (fp_rb s)
         else if i = OFF_RESP_LOG2 then Some (fp_rl s)
         else if i = OFF_CMD_PROD then on (fp_cmd_prod s)
         else if i = OFF_RESP_PROD then on (fp_resp_prod s)
         else if i = OFF_RESP_CONS then on (fp_resp_cons s)
         else if i = OFF_HANDLES then Some (fp_handles s)
         else if i = OFF_MEM_WORDS then Some (of_nat (w_words H))
         else None)"

definition fsim_rd :: "'w host \<Rightarrow> nat \<Rightarrow> 'w fsim \<Rightarrow> u32 \<times> 'w fsim" where
  "fsim_rd H i s = (let s = fsim_turn H s in case fsim_val H s i of Some v \<Rightarrow> (v, s) | None \<Rightarrow> (0, breached (Read_unknown i) s))"

definition wr_claim :: "u32 \<Rightarrow> 'w fsim \<Rightarrow> 'w fsim" where
  "wr_claim v s =
     (if \<not> bit v 0 then s\<lparr>fp_busy := False\<rparr>
      else if fp_enabled s \<and> ucast (drop_bit 16 v) = fp_epoch s then s\<lparr>fp_busy := True\<rparr> else s)"

definition wr_complete :: "u32 \<Rightarrow> 'w fsim \<Rightarrow> 'w fsim" where
  "wr_complete v s =
     (let s = (if fp_dirty s then breached No_barrier s else s); idx = ucast v :: u16
      in if fp_enabled s \<and> ucast (drop_bit 16 v) = fp_epoch s \<and> 1 \<le> idx - fp_resp_prod s \<and>
            idx - fp_resp_prod s \<le> fp_cmd_prod s - fp_resp_prod s \<and> unat (idx - fp_resp_cons s) \<le> 2 ^ unat (fp_rl s)
         then s\<lparr>fp_resp_prod := idx, fp_handles := if fp_have_staged s then fp_staged s else fp_handles s, fp_have_staged := False\<rparr>
         else s\<lparr>fp_refused := True\<rparr>)"

definition wr_handles :: "u32 \<Rightarrow> 'w fsim \<Rightarrow> 'w fsim" where
  "wr_handles v s =
     (if fp_enabled s \<and> ucast (drop_bit 16 v) = fp_epoch s then s\<lparr>fp_staged := v AND 0xFF, fp_have_staged := True\<rparr> else s)"

definition fsim_wr :: "'w host \<Rightarrow> nat \<Rightarrow> u32 \<Rightarrow> 'w fsim \<Rightarrow> 'w fsim" where
  "fsim_wr H i v s =
     (let s = fsim_turn H s
      in if i = OFF_RTC_SECONDS then s\<lparr>fp_rtc_sec := v, fp_rtc_frac := fp_rtc_stage s, fp_rtc_stage := 0\<rparr>
         else if i = OFF_RTC_FRACTION then s\<lparr>fp_rtc_stage := v\<rparr>
         else if i = OFF_CLAIM then wr_claim v s
         else if i = OFF_RESP_PROD then wr_complete v s
         else if i = OFF_HANDLES then wr_handles v s
         else breached (Wrote_unknown i v) s)"

definition fsim_page :: "'w host \<Rightarrow> 'w fsim qfd_page" where
  "fsim_page H = \<lparr>qp_rd = fsim_rd H, qp_wr = fsim_wr H, qp_barrier = \<lambda>s. (fsim_turn H s)\<lparr>fp_dirty := False\<rparr>\<rparr>"

section \<open>The host behind the page\<close>

text \<open>A run of words read or written: the machine may move before it, and every word is watched.\<close>

definition touch :: "nat \<Rightarrow> 'w fsim \<Rightarrow> 'w fsim" where
  "touch n s =
     (if n = 0 then s else let s = (if fp_busy s then s else breached Touched_unclaimed s) in s\<lparr>fp_dirty := True\<rparr>)"

definition at_host :: "('w \<Rightarrow> 'r \<times> 'w) \<Rightarrow> 'w fsim \<Rightarrow> 'r \<times> 'w fsim" where
  "at_host f s = (case f (fp_host s) of (r, w) \<Rightarrow> (r, s\<lparr>fp_host := w\<rparr>))"

definition paged :: "'w host \<Rightarrow> 'w fsim host" where
  "paged H =
     \<lparr>w_lstat = \<lambda>p. at_host (w_lstat H p), w_stat = \<lambda>p. at_host (w_stat H p), w_realpath = \<lambda>p. at_host (w_realpath H p),
      w_list = \<lambda>p. at_host (w_list H p), w_create = \<lambda>p. at_host (w_create H p), w_open = \<lambda>p. at_host (w_open H p),
      w_mkdir = \<lambda>p. at_host (w_mkdir H p), w_rename = \<lambda>p q. at_host (w_rename H p q),
      w_renameat2 = \<lambda>p q. at_host (w_renameat2 H p q), w_unlink = \<lambda>p. at_host (w_unlink H p), w_rmdir = \<lambda>p. at_host (w_rmdir H p),
      w_chmod = \<lambda>p md s. s\<lparr>fp_host := w_chmod H p md (fp_host s)\<rparr>, w_close = \<lambda>fd s. s\<lparr>fp_host := w_close H fd (fp_host s)\<rparr>,
      w_fstat = \<lambda>fd. at_host (w_fstat H fd), w_futimens = \<lambda>fd t. at_host (w_futimens H fd t), w_reads = \<lambda>fd. at_host (w_reads H fd),
      w_write = \<lambda>fd bs. at_host (w_write H fd bs), w_pread = \<lambda>fd n off. at_host (w_pread H fd n off),
      w_pwrite = \<lambda>fd bs off. at_host (w_pwrite H fd bs off), w_pid = w_pid H, w_words = w_words H,
      w_load = \<lambda>k n s. at_host (w_load H k n) (touch n (fsim_turn H s)),
      w_store = \<lambda>k ws s. let s = touch (length ws) (fsim_turn H s) in s\<lparr>fp_host := w_store H k ws (fp_host s)\<rparr>\<rparr>"

end
