(* ===== verification/Qfd_Page_Props.thy ===== *)
theory Qfd_Page_Props
  imports Qfd_Page
begin

text \<open>
  The file device's step with the machine moving in between.  \<open>later\<close> is what the machine may do between
  two moments of the program, and every access of the program is seen as a moment of that.
\<close>

unbundle bit_operations_syntax

section \<open>What the machine may do\<close>

definition unsaid :: "'w fsim \<Rightarrow> bool" where
  "unsaid s \<longleftrightarrow> fp_handles s = 0 \<and> \<not> fp_have_staged s"

definition later :: "'w fsim \<Rightarrow> 'w fsim \<Rightarrow> bool" where
  "later s t \<longleftrightarrow>
     fp_disables s \<le> fp_disables t \<and> (fp_disables s < fp_disables t \<longrightarrow> unsaid t) \<and> (unsaid s \<longrightarrow> unsaid t) \<and>
     (fp_disables s = fp_disables t \<and> fp_enabled s \<longrightarrow>
        fp_enabled t \<and> fp_resp_prod t = fp_resp_prod s \<and> fp_handles t = fp_handles s \<and> fp_staged t = fp_staged s \<and>
        fp_have_staged t = fp_have_staged s \<and> (fsim_work s \<longrightarrow> fsim_work t))"

lemma later_refl [simp]: "later s s"
  by (simp add: later_def)

lemma later_trans: "later s t \<Longrightarrow> later t u \<Longrightarrow> later s u"
  unfolding later_def
  by (cases "fp_disables s = fp_disables t"; cases "fp_disables t = fp_disables u") auto

lemma consume_room:
  fixes p c v :: u16
  assumes "v - c \<le> p - c"
  shows "unat (p - v) \<le> unat (p - c)"
proof -
  have "p - v = (p - c) - (v - c)" by simp
  then have "unat (p - v) = unat (p - c) - unat (v - c)" using unat_sub [OF assms] by metis
  then show ?thesis by simp
qed

lemma move_later: "later s (fsim_move H m s)"
proof (cases m)
  case (Post v)
  then show ?thesis
    by (auto simp: later_def unsaid_def fsim_work_def word_le_nat_alt unat_eq_0)
next
  case (Consume v)
  then show ?thesis
    using consume_room [of v "fp_resp_cons s" "fp_resp_prod s"] by (auto simp: later_def unsaid_def fsim_work_def)
qed (auto simp: later_def unsaid_def fsim_disable_def fsim_work_def)

text \<open>What no move changes, and what is true of the page whatever moves.\<close>

definition page_ok :: "'w host \<Rightarrow> 'w fsim \<Rightarrow> bool" where
  "page_ok H s \<longleftrightarrow>
     (if fp_enabled s then ring_fits H (fp_cb s) (fp_cl s) \<and> ring_fits H (fp_rb s) (fp_rl s) else unsaid s)"

lemma fsim_move_frame:
  "fp_busy (fsim_move H m s) = fp_busy s" "fp_bad (fsim_move H m s) = fp_bad s" "fp_dirty (fsim_move H m s) = fp_dirty s"
  by (cases m; simp add: fsim_disable_def)+

lemma move_ok: "page_ok H s \<Longrightarrow> page_ok H (fsim_move H m s)"
  by (cases m) (auto simp: page_ok_def fsim_disable_def unsaid_def)

lemma moves_kept:
  "later s (fold (fsim_move H) ms s)" "fp_busy (fold (fsim_move H) ms s) = fp_busy s"
  "fp_bad (fold (fsim_move H) ms s) = fp_bad s" "fp_dirty (fold (fsim_move H) ms s) = fp_dirty s"
  "page_ok H s \<Longrightarrow> page_ok H (fold (fsim_move H) ms s)"
  by (induction ms arbitrary: s) (auto simp: fsim_move_frame move_ok intro: later_trans [OF move_later])

lemma beside [simp]:
  "unsaid (s\<lparr>fp_script := x\<rparr>) = unsaid s" "fsim_work (s\<lparr>fp_script := x\<rparr>) = fsim_work s" "page_ok H (s\<lparr>fp_script := x\<rparr>) = page_ok H s" "fp_epoch (s\<lparr>fp_script := x\<rparr>) = fp_epoch s"
  "later (s\<lparr>fp_script := x\<rparr>) t = later s t" "later s (t\<lparr>fp_script := x\<rparr>) = later s t"
  "unsaid (s\<lparr>fp_dirty := b\<rparr>) = unsaid s" "fsim_work (s\<lparr>fp_dirty := b\<rparr>) = fsim_work s" "page_ok H (s\<lparr>fp_dirty := b\<rparr>) = page_ok H s" "fp_epoch (s\<lparr>fp_dirty := b\<rparr>) = fp_epoch s"
  "later (s\<lparr>fp_dirty := b\<rparr>) t = later s t" "later s (t\<lparr>fp_dirty := b\<rparr>) = later s t"
  "unsaid (s\<lparr>fp_busy := b\<rparr>) = unsaid s" "fsim_work (s\<lparr>fp_busy := b\<rparr>) = fsim_work s" "page_ok H (s\<lparr>fp_busy := b\<rparr>) = page_ok H s" "fp_epoch (s\<lparr>fp_busy := b\<rparr>) = fp_epoch s"
  "later (s\<lparr>fp_busy := b\<rparr>) t = later s t" "later s (t\<lparr>fp_busy := b\<rparr>) = later s t"
  "unsaid (s\<lparr>fp_host := w\<rparr>) = unsaid s" "fsim_work (s\<lparr>fp_host := w\<rparr>) = fsim_work s" "page_ok H (s\<lparr>fp_host := w\<rparr>) = page_ok H s" "fp_epoch (s\<lparr>fp_host := w\<rparr>) = fp_epoch s"
  "later (s\<lparr>fp_host := w\<rparr>) t = later s t" "later s (t\<lparr>fp_host := w\<rparr>) = later s t"
  "unsaid (s\<lparr>fp_bad := y\<rparr>) = unsaid s" "fsim_work (s\<lparr>fp_bad := y\<rparr>) = fsim_work s" "page_ok H (s\<lparr>fp_bad := y\<rparr>) = page_ok H s" "fp_epoch (s\<lparr>fp_bad := y\<rparr>) = fp_epoch s"
  "later (s\<lparr>fp_bad := y\<rparr>) t = later s t" "later s (t\<lparr>fp_bad := y\<rparr>) = later s t"
  "unsaid (s\<lparr>fp_refused := b\<rparr>) = unsaid s" "fsim_work (s\<lparr>fp_refused := b\<rparr>) = fsim_work s" "page_ok H (s\<lparr>fp_refused := b\<rparr>) = page_ok H s" "fp_epoch (s\<lparr>fp_refused := b\<rparr>) = fp_epoch s"
  "later (s\<lparr>fp_refused := b\<rparr>) t = later s t" "later s (t\<lparr>fp_refused := b\<rparr>) = later s t"
  "unsaid (s\<lparr>fp_rtc_sec := v\<rparr>) = unsaid s" "fsim_work (s\<lparr>fp_rtc_sec := v\<rparr>) = fsim_work s" "page_ok H (s\<lparr>fp_rtc_sec := v\<rparr>) = page_ok H s" "fp_epoch (s\<lparr>fp_rtc_sec := v\<rparr>) = fp_epoch s"
  "later (s\<lparr>fp_rtc_sec := v\<rparr>) t = later s t" "later s (t\<lparr>fp_rtc_sec := v\<rparr>) = later s t"
  "unsaid (s\<lparr>fp_rtc_frac := v\<rparr>) = unsaid s" "fsim_work (s\<lparr>fp_rtc_frac := v\<rparr>) = fsim_work s" "page_ok H (s\<lparr>fp_rtc_frac := v\<rparr>) = page_ok H s" "fp_epoch (s\<lparr>fp_rtc_frac := v\<rparr>) = fp_epoch s"
  "later (s\<lparr>fp_rtc_frac := v\<rparr>) t = later s t" "later s (t\<lparr>fp_rtc_frac := v\<rparr>) = later s t"
  "unsaid (s\<lparr>fp_rtc_stage := v\<rparr>) = unsaid s" "fsim_work (s\<lparr>fp_rtc_stage := v\<rparr>) = fsim_work s" "page_ok H (s\<lparr>fp_rtc_stage := v\<rparr>) = page_ok H s" "fp_epoch (s\<lparr>fp_rtc_stage := v\<rparr>) = fp_epoch s"
  "later (s\<lparr>fp_rtc_stage := v\<rparr>) t = later s t" "later s (t\<lparr>fp_rtc_stage := v\<rparr>) = later s t"
  by (simp_all add: later_def unsaid_def fsim_work_def page_ok_def fp_epoch_def)

lemma turn_kept [simp]:
  "later s (fsim_turn H s)" "fp_busy (fsim_turn H s) = fp_busy s" "fp_bad (fsim_turn H s) = fp_bad s"
  "fp_dirty (fsim_turn H s) = fp_dirty s" "page_ok H s \<Longrightarrow> page_ok H (fsim_turn H s)"
  using moves_kept [where s = "s\<lparr>fp_script := tl (fp_script s)\<rparr>" and H = H and ms = "hd (fp_script s)"]
  by (auto simp: fsim_turn_def split: list.split)

section \<open>The program's accesses\<close>

text \<open>Between two moments with no write of the program in between.\<close>

definition along :: "'w host \<Rightarrow> (nat set \<Rightarrow> 'w \<Rightarrow> bool) \<Rightarrow> 'w fsim \<Rightarrow> 'w fsim \<Rightarrow> bool" where
  "along H good s t \<longleftrightarrow>
     later s t \<and> fp_busy t = fp_busy s \<and> fp_bad t = fp_bad s \<and> fp_dirty t = fp_dirty s \<and> (page_ok H s \<longrightarrow> page_ok H t) \<and>
     (\<forall>S. good S (fp_host s) \<longrightarrow> good S (fp_host t))"

definition stores_kept :: "'w host \<Rightarrow> (nat set \<Rightarrow> 'w \<Rightarrow> bool) \<Rightarrow> bool" where
  "stores_kept H good \<longleftrightarrow> (\<forall>S w k ws. good S w \<longrightarrow> good S (w_store H k ws w))"

lemma along_refl [simp]: "along H good s s"
  by (simp add: along_def)

lemma along_trans: "along H good s t \<Longrightarrow> along H good t u \<Longrightarrow> along H good s u"
  using later_trans [of s t u] by (simp add: along_def)

lemma move_good: "stores_kept H good \<Longrightarrow> good S (fp_host s) \<Longrightarrow> good S (fp_host (fsim_move H m s))"
  by (cases m) (auto simp: stores_kept_def fsim_disable_def)

lemma moves_good: "stores_kept H good \<Longrightarrow> good S (fp_host s) \<Longrightarrow> good S (fp_host (fold (fsim_move H) ms s))"
  by (induction ms arbitrary: s) (auto simp: move_good)

lemma turn_along: "stores_kept H good \<Longrightarrow> along H good s (fsim_turn H s)"
proof -
  assume a: "stores_kept H good"
  have "good S (fp_host (fsim_turn H s))" if "good S (fp_host s)" for S
    using moves_good [where good = good, OF a, of S "s\<lparr>fp_script := tl (fp_script s)\<rparr>" "hd (fp_script s)"] that
    by (auto simp: fsim_turn_def split: list.split)
  then show ?thesis by (simp add: along_def)
qed

lemma fsim_state_bits: "bit (fsim_state s) 4 = fsim_work s" "ucast (drop_bit 16 (fsim_state s)) = fp_epoch s"
proof -
  show "bit (fsim_state s) 4 = fsim_work s" by (simp add: fsim_state_def bit_simps del: push_bit_numeral)
  have "drop_bit 16 (fsim_state s) = drop_bit 16 (push_bit 16 (ucast (fp_epoch s)))"
    unfolding fsim_state_def drop_bit_or by (simp del: drop_bit_push_bit push_bit_of_1)
  then show "ucast (drop_bit 16 (fsim_state s)) = fp_epoch s" by (simp only: stamp_epoch)
qed

text \<open>The page read: its state at one moment, the index the device has come to at a later one.\<close>

lemma rd_registers:
  "fsim_rd H OFF_STATE s = (fsim_state (fsim_turn H s), fsim_turn H s)" "fsim_rd H OFF_CMD_BASE s = (fp_cb (fsim_turn H s), fsim_turn H s)"
  "fsim_rd H OFF_CMD_LOG2 s = (fp_cl (fsim_turn H s), fsim_turn H s)" "fsim_rd H OFF_RESP_BASE s = (fp_rb (fsim_turn H s), fsim_turn H s)"
  "fsim_rd H OFF_RESP_LOG2 s = (fp_rl (fsim_turn H s), fsim_turn H s)"
  "fsim_rd H OFF_CMD_PROD s = (if fp_enabled (fsim_turn H s) then ucast (fp_cmd_prod (fsim_turn H s)) else 0, fsim_turn H s)"
  "fsim_rd H OFF_RESP_PROD s = (if fp_enabled (fsim_turn H s) then ucast (fp_resp_prod (fsim_turn H s)) else 0, fsim_turn H s)"
  "fsim_rd H OFF_RESP_CONS s = (if fp_enabled (fsim_turn H s) then ucast (fp_resp_cons (fsim_turn H s)) else 0, fsim_turn H s)"
  "fsim_rd H OFF_CLAIM s = (if fp_busy s then 1 else 0, fsim_turn H s)"
  by (simp_all add: fsim_rd_def Let_def fsim_val_def)

lemma f_state_seen:
  assumes "stores_kept H good" "f_state (fsim_page H) s = (u, t)"
  obtains a b where "along H good s a" "along H good a b" "along H good b t" "ps_epoch u = fp_epoch a" "ps_work u = fsim_work a"
    "ps_resp_prod u = (if fp_enabled b then fp_resp_prod b else 0)"
proof -
  define t1 where "t1 = fsim_turn H s"
  define t2 where "t2 = fsim_turn H t1"
  define t3 where "t3 = fsim_turn H t2"
  define t4 where "t4 = fsim_turn H t3"
  define t5 where "t5 = fsim_turn H t4"
  define t6 where "t6 = fsim_turn H t5"
  define t7 where "t7 = fsim_turn H t6"
  define t8 where "t8 = fsim_turn H t7"
  note ts = t1_def t2_def t3_def t4_def t5_def t6_def t7_def t8_def
  note al = turn_along [OF assms(1), of s, folded ts] turn_along [OF assms(1), of t1, folded ts] turn_along [OF assms(1), of t2, folded ts]
    turn_along [OF assms(1), of t3, folded ts] turn_along [OF assms(1), of t4, folded ts] turn_along [OF assms(1), of t5, folded ts]
    turn_along [OF assms(1), of t6, folded ts] turn_along [OF assms(1), of t7, folded ts]
  have "f_state (fsim_page H) s = (\<lparr>ps_enabled = bit (fsim_state t1) 0, ps_busy = bit (fsim_state t1) 2, ps_work = bit (fsim_state t1) 4,
      ps_refused = bit (fsim_state t1) 5, ps_epoch = ucast (drop_bit 16 (fsim_state t1)), ps_cmd_base = fp_cb t2 AND QFD_ADDRESS,
      ps_cmd_log2 = fp_cl t3 AND 0xF, ps_resp_base = fp_rb t4 AND QFD_ADDRESS, ps_resp_log2 = fp_rl t5 AND 0xF,
      ps_cmd_prod = ucast (if fp_enabled t6 then ucast (fp_cmd_prod t6) else 0 :: u32),
      ps_resp_prod = ucast (if fp_enabled t7 then ucast (fp_resp_prod t7) else 0 :: u32),
      ps_resp_cons = ucast (if fp_enabled t8 then ucast (fp_resp_cons t8) else 0 :: u32)\<rparr>, t8)"
    unfolding f_state_def fsim_page_def by (simp only: qfd_page.simps rd_registers prod.case flip: ts)
  then have "ps_epoch u = fp_epoch t1" "ps_work u = fsim_work t1" "ps_resp_prod u = (if fp_enabled t7 then fp_resp_prod t7 else 0)" "t = t8"
    using assms(2) by (auto simp: fsim_state_bits ucast_ucast_u16)
  moreover have "along H good t1 t7" using al(2-7) along_trans by blast
  ultimately show ?thesis using that [of t1 t7] al(1,8) by blast
qed

text \<open>A moment the program has written at since: what of it the program's writes leave.\<close>

definition near :: "'w host \<Rightarrow> (nat set \<Rightarrow> 'w \<Rightarrow> bool) \<Rightarrow> 'w fsim \<Rightarrow> 'w fsim \<Rightarrow> bool" where
  "near H good s t \<longleftrightarrow>
     fp_disables s \<le> fp_disables t \<and> fp_bad t = fp_bad s \<and> (page_ok H s \<longrightarrow> page_ok H t) \<and> (\<forall>S. good S (fp_host s) \<longrightarrow> good S (fp_host t))"

lemma near_along: "along H good s t \<Longrightarrow> near H good s t"
  by (simp add: along_def near_def later_def)

lemma near_refl [simp]: "near H good s s"
  by (simp add: near_def)

lemma near_trans [trans]: "near H good s t \<Longrightarrow> near H good t u \<Longrightarrow> near H good s u"
  by (simp add: near_def)

text \<open>
  What the program knows of the page under an epoch: while the device has not been disabled since, it
  is enabled and \<open>F\<close>; afterwards it shows no handles.
\<close>

definition under_epoch :: "nat \<Rightarrow> ('w fsim \<Rightarrow> bool) \<Rightarrow> 'w fsim \<Rightarrow> bool" where
  "under_epoch n F s \<longleftrightarrow>
     n \<le> fp_disables s \<and> (n < fp_disables s \<longrightarrow> unsaid s) \<and> (fp_disables s = n \<longrightarrow> fp_enabled s \<and> F s)"

definition held_by_machine :: "('w fsim \<Rightarrow> bool) \<Rightarrow> bool" where
  "held_by_machine F \<longleftrightarrow> (\<forall>s t. F s \<longrightarrow> fp_enabled s \<longrightarrow> later s t \<longrightarrow> fp_disables t = fp_disables s \<longrightarrow> F t)"

definition waiting :: "u16 \<Rightarrow> 'w fsim \<Rightarrow> bool" where
  "waiting i s \<longleftrightarrow> fsim_work s \<and> fp_resp_prod s = i"

definition staged :: "u16 \<Rightarrow> u32 \<Rightarrow> 'w fsim \<Rightarrow> bool" where
  "staged i v s \<longleftrightarrow> waiting i s \<and> fp_have_staged s \<and> fp_staged s = v"

definition published :: "u16 \<Rightarrow> u32 \<Rightarrow> 'w fsim \<Rightarrow> bool" where
  "published j v s \<longleftrightarrow> fp_resp_prod s = j \<and> fp_handles s = v \<and> \<not> fp_have_staged s"

lemma held [simp]: "held_by_machine (waiting i)" "held_by_machine (staged i v)" "held_by_machine (published j v)"
  by (auto simp: held_by_machine_def waiting_def staged_def published_def later_def)

lemma under_later: "under_epoch n F s \<Longrightarrow> later s t \<Longrightarrow> held_by_machine F \<Longrightarrow> under_epoch n F t"
  unfolding under_epoch_def
  by (cases "fp_disables s = fp_disables t") (auto simp: later_def held_by_machine_def)

lemma under_along: "under_epoch n F s \<Longrightarrow> along H good s t \<Longrightarrow> held_by_machine F \<Longrightarrow> under_epoch n F t"
  using under_later by (auto simp: along_def)

lemma epoch_same:
  assumes "of_nat n = (of_nat k :: u16)" "n \<le> k" "k < n + 65536"
  shows "n = k"
proof -
  have "k mod 65536 = n mod 65536" using assms(1) by (simp add: word_of_nat_eq_iff take_bit_eq_mod)
  then have "65536 dvd k - n" using assms(2) by (simp add: mod_eq_dvd_iff_nat)
  then show ?thesis using assms(2,3) by (auto dest: dvd_imp_le)
qed

section \<open>The program's writes\<close>

lemma claim_kept:
  assumes "stores_kept H good" "f_claim (fsim_page H) e s = (c, t)"
  shows "near H good s t" "fp_busy t = c" "later s t"
proof -
  let ?a = "fsim_turn H s"
  let ?b = "wr_claim (push_bit 16 (ucast e) OR 1) ?a"
  have t: "t = fsim_turn H ?b" "c = fp_busy ?b"
    using assms(2) by (auto simp: f_claim_def fsim_page_def rd_registers fsim_wr_def split: if_splits)
  have "near H good ?a ?b" "later ?a ?b"
    by (auto simp: wr_claim_def near_def)
  then show "near H good s t" "later s t"
    using near_trans [OF near_along [OF turn_along [OF assms(1)]] near_trans [OF _ near_along [OF turn_along [OF assms(1)]]]]
      later_trans [OF turn_kept(1) later_trans [OF _ turn_kept(1)]] unfolding t by blast+
  show "fp_busy t = c" using t by simp
qed

lemma release_kept:
  assumes "stores_kept H good"
  shows "near H good s (f_release (fsim_page H) s)" "\<not> fp_busy (f_release (fsim_page H) s)" "later s (f_release (fsim_page H) s)"
proof -
  let ?a = "fsim_turn H s"
  have r: "f_release (fsim_page H) s = ?a\<lparr>fp_busy := False\<rparr>"
    by (simp add: f_release_def fsim_page_def fsim_wr_def wr_claim_def)
  have "near H good ?a (?a\<lparr>fp_busy := False\<rparr>)" "later ?a (?a\<lparr>fp_busy := False\<rparr>)"
    by (auto simp: near_def)
  then show "near H good s (f_release (fsim_page H) s)" "later s (f_release (fsim_page H) s)"
    using near_trans [OF near_along [OF turn_along [OF assms]]] later_trans [OF turn_kept(1)] unfolding r by blast+
  show "\<not> fp_busy (f_release (fsim_page H) s)" by (simp add: r)
qed

lemma handles_word:
  fixes e :: u16 and n :: nat
  assumes "n < 256"
  shows "ucast (drop_bit 16 (push_bit 16 (ucast e) OR (of_nat n AND 0xFF) :: u32)) = e" "(push_bit 16 (ucast e) OR (of_nat n AND 0xFF) :: u32) AND 0xFF = of_nat n"
proof -
  have u: "unat (of_nat n :: u32) = n" using assms by (intro of_nat_inverse [OF refl]) simp
  have b: "\<not> bit (of_nat n :: u32) j" if "8 \<le> j" for j
    by (rule small_bits [of _ 8]) (use that u assms in simp_all)
  have m: "(0xFF :: u32) = mask 8" by (simp add: mask_eq_exp_minus_1)
  show "ucast (drop_bit 16 (push_bit 16 (ucast e) OR (of_nat n AND 0xFF) :: u32)) = e"
    unfolding m by (rule bit_word_eqI) (auto simp: bit_simps)
  show "(push_bit 16 (ucast e) OR (of_nat n AND 0xFF) :: u32) AND 0xFF = of_nat n"
    unfolding m by (rule bit_word_eqI) (use b in \<open>auto simp: bit_simps not_less [symmetric]\<close>)
qed

lemma handles_kept:
  assumes "stores_kept H good" "n < 256"
  obtains a where "along H good s a" "f_handles (fsim_page H) e n s =
    (if fp_enabled a \<and> e = fp_epoch a then a\<lparr>fp_staged := of_nat n, fp_have_staged := True\<rparr> else a)"
proof -
  have "f_handles (fsim_page H) e n s =
      (if fp_enabled (fsim_turn H s) \<and> e = fp_epoch (fsim_turn H s)
       then (fsim_turn H s)\<lparr>fp_staged := of_nat n, fp_have_staged := True\<rparr> else fsim_turn H s)"
    unfolding f_handles_def fsim_page_def fsim_wr_def wr_handles_def by (simp only: qfd_page.simps Let_def handles_word [OF assms(2)]) simp
  then show ?thesis using that [OF turn_along [OF assms(1)]] by blast
qed

lemma complete_kept:
  assumes "stores_kept H good"
  obtains a where "along H good (s\<lparr>fp_dirty := False\<rparr>) a" "f_complete (fsim_page H) e j s = wr_complete (push_bit 16 (ucast e) OR ucast j) a"
proof -
  let ?a = "fsim_turn H s"
  have "along H good (s\<lparr>fp_dirty := False\<rparr>) (?a\<lparr>fp_dirty := False\<rparr>)"
    using turn_along [OF assms, of s] by (simp add: along_def)
  then have "along H good (s\<lparr>fp_dirty := False\<rparr>) (fsim_turn H (?a\<lparr>fp_dirty := False\<rparr>))"
    using along_trans turn_along [OF assms] by blast
  then show ?thesis using that by (simp add: f_complete_def fsim_page_def fsim_wr_def)
qed

section \<open>The completion\<close>

text \<open>The page's count of the handles, against the program's, of which it last read the epoch \<open>n\<close>.\<close>

definition honest :: "nat \<Rightarrow> qfd \<Rightarrow> 'w fsim \<Rightarrow> bool" where
  "honest n d s \<longleftrightarrow>
     (n < fp_disables s \<longrightarrow> unsaid s) \<and>
     (fp_disables s = n \<longrightarrow>
        (if fp_enabled s
         then fp_handles s = of_nat (qfd_handles_open d) \<and> (fp_have_staged s \<longrightarrow> fp_staged s = of_nat (qfd_handles_open d))
         else qfd_handles_open d = 0))"

lemma honest_later: "honest n d s \<Longrightarrow> later s t \<Longrightarrow> page_ok H s \<Longrightarrow> n \<le> fp_disables s \<Longrightarrow> honest n d t"
  unfolding honest_def
  by (cases "fp_disables s = fp_disables t"; cases "fp_enabled s") (auto simp: later_def page_ok_def unsaid_def)

lemma honest_closed: "unsaid s \<Longrightarrow> qfd_handles_open d = 0 \<Longrightarrow> honest n d s"
  by (auto simp: honest_def unsaid_def)

lemma honest_published: "under_epoch n (published j (of_nat (qfd_handles_open d))) s \<Longrightarrow> honest n d s"
  by (auto simp: honest_def under_epoch_def published_def)

lemma stage_handles:
  assumes "stores_kept H good" "under_epoch n (waiting i) s" "k < 256" "page_ok H s"
    and "f_handles (fsim_page H) (of_nat n) k s = t" "fp_disables t < n + 65536"
  shows "near H good s t" "fp_busy t = fp_busy s" "under_epoch n (staged i (of_nat k)) t"
proof -
  obtain a where a: "along H good s a" "t = (if fp_enabled a \<and> of_nat n = fp_epoch a then a\<lparr>fp_staged := of_nat k, fp_have_staged := True\<rparr> else a)"
    using handles_kept [OF assms(1,3), of s "of_nat n"] assms(5) by metis
  have u: "under_epoch n (waiting i) a" by (rule under_along [OF assms(2) a(1)]) simp
  have d: "fp_disables t = fp_disables a" using a(2) by simp
  have e: "of_nat n = fp_epoch a \<longleftrightarrow> fp_disables a = n"
    using epoch_same [of n "fp_disables a"] u assms(6) d by (auto simp: fp_epoch_def under_epoch_def)
  show "near H good s t"
    using a(1) near_along [OF a(1)] by (auto simp: a(2) near_def page_ok_def)
  show "fp_busy t = fp_busy s" using a by (simp add: along_def)
  show "under_epoch n (staged i (of_nat k)) t"
    using u e unfolding a(2) by (auto simp: under_epoch_def staged_def waiting_def fsim_work_def)
qed

lemma completion_taken:
  fixes c p r :: u16
  assumes "c \<noteq> p" "unat (p - r) < 2 ^ k" "k \<le> 8"
  shows "1 \<le> (p + 1) - p" "(p + 1) - p \<le> c - p" "unat (p + 1 - r) \<le> 2 ^ k"
proof -
  have "(2 :: nat) ^ k \<le> 2 ^ 8" using assms(3) by (rule power_increasing) simp
  then have "unat (p - r) + 1 < 2 ^ 16" using assms(2) by simp
  then have "unat ((p - r) + 1) = unat (p - r) + 1" by (simp add: unat_word_ariths)
  moreover have "p + 1 - r = (p - r) + 1" by simp
  ultimately show "unat (p + 1 - r) \<le> 2 ^ k" using assms(2) by (metis Suc_eq_plus1 Suc_leI)
  have "0 < unat (c - p)" using assms(1) by (simp add: unat_gt_0)
  then show "1 \<le> (p + 1) - p" "(p + 1) - p \<le> c - p" by (simp_all add: word_le_nat_alt)
qed

lemma complete_publishes:
  assumes "stores_kept H good" "under_epoch n (staged i v) s" "page_ok H s"
    and "f_complete (fsim_page H) (of_nat n) (i + 1) s = t" "fp_disables t < n + 65536"
  shows "near H good s t" "fp_busy t = fp_busy s" "under_epoch n (published (i + 1) v) t"
proof -
  obtain a where a: "along H good (s\<lparr>fp_dirty := False\<rparr>) a" "t = wr_complete (push_bit 16 (ucast (of_nat n :: u16)) OR ucast (i + 1)) a"
    using complete_kept [OF assms(1), of s "of_nat n" "i + 1"] assms(4) by metis
  have al: "later s a" "fp_busy a = fp_busy s" "fp_bad a = fp_bad s" "\<not> fp_dirty a" "page_ok H a" "\<forall>S. good S (fp_host s) \<longrightarrow> good S (fp_host a)"
    using a(1) assms(3) by (simp_all add: along_def)
  have u: "under_epoch n (staged i v) a" by (rule under_later [OF assms(2) al(1)]) simp
  define taken where "taken \<longleftrightarrow> fp_enabled a \<and> of_nat n = fp_epoch a \<and> 1 \<le> i + 1 - fp_resp_prod a \<and>
      i + 1 - fp_resp_prod a \<le> fp_cmd_prod a - fp_resp_prod a \<and> unat (i + 1 - fp_resp_cons a) \<le> 2 ^ unat (fp_rl a)"
  have t: "t = (if taken then a\<lparr>fp_resp_prod := i + 1, fp_handles := if fp_have_staged a then fp_staged a else fp_handles a, fp_have_staged := False\<rparr>
      else a\<lparr>fp_refused := True\<rparr>)"
    unfolding a(2) wr_complete_def Let_def stamped taken_def using al(4) by simp
  have d: "fp_disables t = fp_disables a" by (simp add: t)
  have e: "of_nat n = fp_epoch a \<longleftrightarrow> fp_disables a = n"
    using epoch_same [of n "fp_disables a"] u assms(5) d by (auto simp: fp_epoch_def under_epoch_def)
  have tk: "taken \<longleftrightarrow> fp_disables a = n"
  proof
    assume n: "fp_disables a = n"
    then have f: "fp_enabled a" "fp_cmd_prod a \<noteq> i" "unat (i - fp_resp_cons a) < 2 ^ unat (fp_rl a)" "fp_resp_prod a = i"
      using u by (auto simp: under_epoch_def staged_def waiting_def fsim_work_def)
    then have "unat (fp_rl a) \<le> 8" using al(5) by (simp add: page_ok_def ring_fits_def word_le_nat_alt)
    then show taken using completion_taken [OF f(2,3)] f(1,4) e n by (simp add: taken_def)
  qed (simp add: taken_def e)
  show "near H good s t" using al by (auto simp: t near_def page_ok_def unsaid_def later_def)
  show "fp_busy t = fp_busy s" using al by (simp add: t)
  show "under_epoch n (published (i + 1) v) t"
    using u tk by (auto simp: t under_epoch_def published_def staged_def unsaid_def)
qed

section \<open>The host behind the page\<close>

lemma paged_calls [simp]:
  "w_lstat (paged H) p s = at_host (w_lstat H p) s" "w_stat (paged H) p s = at_host (w_stat H p) s"
  "w_realpath (paged H) p s = at_host (w_realpath H p) s" "w_list (paged H) p s = at_host (w_list H p) s"
  "w_create (paged H) p s = at_host (w_create H p) s" "w_open (paged H) p s = at_host (w_open H p) s"
  "w_mkdir (paged H) p s = at_host (w_mkdir H p) s" "w_rename (paged H) p q s = at_host (w_rename H p q) s"
  "w_renameat2 (paged H) p q s = at_host (w_renameat2 H p q) s" "w_unlink (paged H) p s = at_host (w_unlink H p) s"
  "w_rmdir (paged H) p s = at_host (w_rmdir H p) s" "w_chmod (paged H) p md s = s\<lparr>fp_host := w_chmod H p md (fp_host s)\<rparr>"
  "w_close (paged H) fd s = s\<lparr>fp_host := w_close H fd (fp_host s)\<rparr>" "w_fstat (paged H) fd s = at_host (w_fstat H fd) s"
  "w_futimens (paged H) fd t s = at_host (w_futimens H fd t) s" "w_reads (paged H) fd s = at_host (w_reads H fd) s"
  "w_write (paged H) fd bs s = at_host (w_write H fd bs) s" "w_pread (paged H) fd n off s = at_host (w_pread H fd n off) s"
  "w_pwrite (paged H) fd bs off s = at_host (w_pwrite H fd bs off) s" "w_words (paged H) = w_words H" "w_pid (paged H) = w_pid H"
  "w_load (paged H) k n s = at_host (w_load H k n) (touch n (fsim_turn H s))"
  "w_store (paged H) k ws s = (let s = touch (length ws) (fsim_turn H s) in s\<lparr>fp_host := w_store H k ws (fp_host s)\<rparr>)"
  by (simp_all add: paged_def)

lemma at_host_simps [simp]:
  "fst (at_host f s) = fst (f (fp_host s))" "snd (at_host f s) = s\<lparr>fp_host := snd (f (fp_host s))\<rparr>"
  "at_host f s = (r, t) \<longleftrightarrow> (\<exists>w. f (fp_host s) = (r, w) \<and> t = s\<lparr>fp_host := w\<rparr>)"
  by (auto simp: at_host_def case_prod_unfold) (metis prod.collapse)+

text \<open>While the claim is held: what the program knows of the page outlasts every call it makes for a command.\<close>

definition served :: "'w host \<Rightarrow> nat \<Rightarrow> u16 \<Rightarrow> 'w fsim \<Rightarrow> bool" where
  "served H n i s \<longleftrightarrow> fp_bad s = [] \<and> fp_busy s \<and> page_ok H s \<and> under_epoch n (waiting i) s"

lemma served_beside [simp]: "served H n i (s\<lparr>fp_host := w\<rparr>) = served H n i s" "served H n i (s\<lparr>fp_dirty := b\<rparr>) = served H n i s"
  by (simp_all add: served_def under_epoch_def waiting_def)

lemma served_touch: "served H n i s \<Longrightarrow> served H n i (touch k (fsim_turn H s))"
proof -
  assume a: "served H n i s"
  then have "under_epoch n (waiting i) (fsim_turn H s)" using under_later [of n "waiting i" s "fsim_turn H s"] by (simp add: served_def)
  then have "served H n i (fsim_turn H s)" using a by (simp add: served_def)
  then show ?thesis by (auto simp: touch_def served_def under_epoch_def waiting_def)
qed

lemma touch_host [simp]: "fp_host (touch k s) = fp_host s"
  by (simp add: touch_def breached_def Let_def)

context confined
begin

lemma stores_are_kept: "stores_kept H good"
  by (simp add: stores_kept_def store)

lemma turn_good: "good S (fp_host s) \<Longrightarrow> good S (fp_host (fsim_turn H s))"
  using turn_along [OF stores_are_kept] by (simp add: along_def)

lemma paged_confined:
  assumes "\<And>s w. Q s \<Longrightarrow> Q (s\<lparr>fp_host := w\<rparr>)" "\<And>k s. Q s \<Longrightarrow> Q (touch k (fsim_turn H s))"
  shows "confined (paged H) m (\<lambda>S s. good S (fp_host s) \<and> Q s)"
proof
  fix S s p fd t err ns ended c real root st
  let ?G = "\<lambda>S s. good S (fp_host s) \<and> Q s"
  show "?G S s \<Longrightarrow> mounts_ok m" using mounts by blast
  show "w_open (paged H) p s = (Inr fd, t) \<Longrightarrow> ?G S s \<Longrightarrow> ?G (insert fd S) t \<and> fd \<notin> S" using openr assms(1) by auto
  show "w_open (paged H) p s = (Inl err, t) \<Longrightarrow> ?G S s \<Longrightarrow> ?G S t" using open_fails assms(1) by auto
  show "w_create (paged H) p s = (Inr fd, t) \<Longrightarrow> may_change m p \<Longrightarrow> ?G S s \<Longrightarrow> ?G (insert fd S) t \<and> fd \<notin> S" using create assms(1) by auto
  show "w_create (paged H) p s = (Inl err, t) \<Longrightarrow> may_change m p \<Longrightarrow> ?G S s \<Longrightarrow> ?G S t" using create_fails assms(1) by auto
  show "w_list (paged H) p s = (Inr (ns, ended), t) \<Longrightarrow> ?G S s \<Longrightarrow> c \<in> set ns \<Longrightarrow> SLASH \<notin> set c" using list_plain by auto
  show "w_realpath (paged H) p s = (Inr real, t) \<Longrightarrow> ?G S s \<Longrightarrow> dotless real" using real_dotless by auto
  show "w_stat (paged H) root s = (Inr st, t) \<Longrightarrow> root \<in> mt_path ` set (mount_list m) \<Longrightarrow> ?G S s \<Longrightarrow> fs_kind st \<noteq> S_REG"
    using root_dir by auto
qed (auto simp: Let_def assms fewer lstat stat realpath list fstat reads pread close mkdir unlink rmdir rename renameat2 chmod
    futimens writes pwrite load store turn_good)

end

lemma paged_close: "handle_close (paged H) h b s = s\<lparr>fp_host := handle_close H h b (fp_host s)\<rparr>"
  by (cases h) (auto simp: handle_close_def Let_def)

lemma paged_reset: "qfd_reset (paged H) d s = (fst (qfd_reset H d (fp_host s)), s\<lparr>fp_host := snd (qfd_reset H d (fp_host s))\<rparr>)"
proof -
  have "fold (\<lambda>h s. handle_close (paged H) h True s) hs s = s\<lparr>fp_host := fold (\<lambda>h w. handle_close H h True w) hs (fp_host s)\<rparr>" for hs
    by (induction hs arbitrary: s) (simp_all add: paged_close)
  then show ?thesis by (simp add: qfd_reset_def)
qed

lemma reset_closes: "qfd_handles_open (fst (qfd_reset H d w)) = 0"
  by (simp add: qfd_reset_def qfd_handles_open_def)

text \<open>Disables are only ever counted up.\<close>

lemma turn_mono [simp]: "fp_disables s \<le> fp_disables (fsim_turn H s)"
  using turn_kept(1) [of s H] unfolding later_def by blast

lemma rd_mono: "fp_disables s \<le> fp_disables (snd (fsim_rd H i s))"
  by (auto simp: fsim_rd_def Let_def breached_def split: option.split)

lemma wr_mono: "fp_disables s \<le> fp_disables (fsim_wr H i v s)"
  by (auto simp: fsim_wr_def Let_def breached_def wr_claim_def wr_complete_def wr_handles_def)

lemma f_state_mono: "fp_disables s \<le> fp_disables (snd (f_state (fsim_page H) s))"
proof -
  have sk: "stores_kept H (\<lambda>_ _. True)" by (simp add: stores_kept_def)
  obtain u t where t: "f_state (fsim_page H) s = (u, t)" by fastforce
  obtain a b where "along H (\<lambda>_ _. True) s a" "along H (\<lambda>_ _. True) a b" "along H (\<lambda>_ _. True) b t"
    using f_state_seen [OF sk t] .
  then have "fp_disables s \<le> fp_disables a" "fp_disables a \<le> fp_disables b" "fp_disables b \<le> fp_disables t"
    unfolding along_def later_def by simp_all
  then show ?thesis by (simp add: t)
qed

lemma face_mono:
  "fp_disables s \<le> fp_disables (snd (f_claim (fsim_page H) e s))" "fp_disables s \<le> fp_disables (f_release (fsim_page H) s)"
  "fp_disables s \<le> fp_disables (f_handles (fsim_page H) e k s)" "fp_disables s \<le> fp_disables (f_complete (fsim_page H) e j s)"
  "fp_disables s \<le> fp_disables (snd (qfd_reset (paged H) d s))"
proof -
  have b: "fp_disables s \<le> fp_disables ((fsim_turn H s)\<lparr>fp_dirty := False\<rparr>)" by simp
  show "fp_disables s \<le> fp_disables (f_complete (fsim_page H) e j s)"
    using le_trans [OF b wr_mono] by (simp add: f_complete_def fsim_page_def)
  show "fp_disables s \<le> fp_disables (snd (f_claim (fsim_page H) e s))"
    using le_trans [OF wr_mono rd_mono] by (simp add: f_claim_def fsim_page_def case_prod_unfold)
qed (simp_all add: f_release_def f_handles_def fsim_page_def wr_mono paged_reset)

lemmas mono_after = le_trans [OF _ face_mono(1)] le_trans [OF _ face_mono(2)] le_trans [OF _ face_mono(3)] le_trans [OF _ face_mono(4)]
  le_trans [OF _ face_mono(5)] le_trans [OF _ f_state_mono]

section \<open>The step\<close>

text \<open>Between steps: no rule broken, no claim held, the host as it may be, and the page's count of handles the program's.\<close>

definition ring_sound :: "'w host \<Rightarrow> qfd_mounts \<Rightarrow> (nat set \<Rightarrow> 'w \<Rightarrow> bool) \<Rightarrow> nat \<Rightarrow> qfd_ring \<Rightarrow> qfd \<Rightarrow> 'w fsim \<Rightarrow> bool" where
  "ring_sound H m good n g d s \<longleftrightarrow>
     fp_bad s = [] \<and> \<not> fp_busy s \<and> page_ok H s \<and> device_good m good (d, fp_host s) \<and> gr_seen g \<and>
     (\<exists>k. n \<le> k \<and> k \<le> fp_disables s \<and> gr_epoch g = of_nat k \<and> honest k d s)"

text \<open>Before a step that ends with \<open>hi\<close> disables counted: the epoch last read cannot have come round.\<close>

definition ring_ready :: "'w host \<Rightarrow> qfd_mounts \<Rightarrow> (nat set \<Rightarrow> 'w \<Rightarrow> bool) \<Rightarrow> nat \<Rightarrow> qfd_ring \<Rightarrow> qfd \<Rightarrow> 'w fsim \<Rightarrow> bool" where
  "ring_ready H m good hi g d s \<longleftrightarrow>
     fp_bad s = [] \<and> \<not> fp_busy s \<and> page_ok H s \<and> device_good m good (d, fp_host s) \<and>
     (if gr_seen g then \<exists>k. k \<le> fp_disables s \<and> hi < k + 65536 \<and> gr_epoch g = of_nat k \<and> honest k d s else unsaid s)"

lemma sound_ready: "ring_sound H m good n g d s \<Longrightarrow> hi < n + 65536 \<Longrightarrow> ring_ready H m good hi g d s"
  unfolding ring_sound_def ring_ready_def by auto

lemma later_disables: "later s t \<Longrightarrow> fp_disables s \<le> fp_disables t"
  by (simp add: later_def)

lemma handles_below: "device_ok m d \<Longrightarrow> qfd_handles_open d < 256"
  using length_filter_le [of "\<lambda>h. h \<noteq> H_none" "qd_h d"] by (simp add: device_ok_def qfd_handles_open_def)

context confined
begin

lemma near_device: "near H good s t \<Longrightarrow> device_good m good (d, fp_host s) \<Longrightarrow> device_good m good (d, fp_host t)"
  by (simp add: near_def device_good_def)

lemma reset_sound:
  assumes "device_good m good (d, fp_host s)" "qfd_reset (paged H) d s = (d', s')"
  obtains w where "s' = s\<lparr>fp_host := w\<rparr>" "device_good m good (d', w)" "qfd_handles_open d' = 0"
  using assms that reset_kept [of d "fp_host s"] reset_closes [of H d "fp_host s"] by (auto simp: paged_reset)

lemma release_sound:
  assumes "fp_bad s = []" "page_ok H s" "device_good m good (d, fp_host s)" "honest k d s" "k \<le> fp_disables s"
    and "gr_seen g" "gr_epoch g = of_nat k" "n \<le> k"
  shows "ring_sound H m good n g d (f_release (fsim_page H) s)"
proof -
  let ?t = "f_release (fsim_page H) s"
  note r = release_kept [OF stores_are_kept, of s]
  have "honest k d ?t" using honest_later [OF assms(4) r(3) assms(2,5)] .
  then show ?thesis
    using assms r near_device [OF r(1) assms(3)] unfolding ring_sound_def near_def by (metis le_trans)
qed

lemma overtaken_sound:
  assumes "unsaid s" "fp_bad s = []" "page_ok H s" "device_good m good (d, fp_host s)" "gr_seen g"
    and "qfd_reset (paged H) d s = (d', s')" "k \<le> fp_disables s" "n \<le> k"
  shows "ring_sound H m good n (g\<lparr>gr_epoch := of_nat k\<rparr>) d' (f_release (fsim_page H) s')"
proof -
  obtain w where r: "s' = s\<lparr>fp_host := w\<rparr>" "device_good m good (d', w)" "qfd_handles_open d' = 0"
    using reset_sound [OF assms(4,6)] .
  then have "honest k d' s'" using assms(1) by (simp add: honest_closed)
  then show ?thesis by (rule release_sound [rotated 3]) (use r assms in simp_all)
qed

lemma completed_sound:
  assumes "under_epoch n (waiting i) s" "fp_bad s = []" "page_ok H s" "device_good m good (d, fp_host s)" "gr_seen g" "gr_epoch g = of_nat n"
    and "f_state (fsim_page H) (f_complete (fsim_page H) (of_nat n) (i + 1) (f_handles (fsim_page H) (of_nat n) (qfd_handles_open d) s)) = (u, s')"
    and "fp_disables (f_release (fsim_page H) s') < n + 65536"
  shows "ring_sound H m good n g d (f_release (fsim_page H) s')"
    "ps_resp_prod u \<noteq> i + 1 \<Longrightarrow> n < fp_disables (f_release (fsim_page H) s')"
proof -
  let ?k = "qfd_handles_open d" and ?t = "f_release (fsim_page H) s'"
  define s2 where "s2 = f_handles (fsim_page H) (of_nat n) ?k s"
  define s3 where "s3 = f_complete (fsim_page H) (of_nat n) (i + 1) s2"
  note sk = stores_are_kept
  have k: "?k < 256" using handles_below [of m d] assms(4) by (simp add: device_good_def)
  obtain a b where ab: "along H good s3 a" "along H good a b" "along H good b s'" "ps_resp_prod u = (if fp_enabled b then fp_resp_prod b else 0)"
    using f_state_seen [OF sk assms(7) [folded s2_def s3_def]] by metis
  have b: "along H good s3 b" "along H good s3 s'" using ab along_trans by blast+
  have t: "near H good s' ?t" using release_kept(1) [OF sk] .
  have le: "fp_disables s3 \<le> fp_disables b" "fp_disables b \<le> fp_disables s'" "fp_disables s' \<le> fp_disables ?t"
    using b(1) ab(3) t by (simp_all add: along_def later_def near_def)
  have le2: "fp_disables s2 \<le> fp_disables s3"
  proof -
    obtain c where "along H good (s2\<lparr>fp_dirty := False\<rparr>) c" "s3 = wr_complete (push_bit 16 (ucast (of_nat n :: u16)) OR ucast (i + 1)) c"
      using complete_kept [OF sk, of s2 "of_nat n" "i + 1"] unfolding s3_def by metis
    then show ?thesis by (simp add: along_def later_def wr_complete_def Let_def breached_def)
  qed
  have bd: "fp_disables s2 < n + 65536" "fp_disables s3 < n + 65536" using le le2 assms(8) by linarith+
  note h = stage_handles [OF sk assms(1) k assms(3) s2_def [symmetric] bd(1)]
  have ok2: "page_ok H s2" using h(1) assms(3) by (simp add: near_def)
  note c = complete_publishes [OF sk h(3) ok2 s3_def [symmetric] bd(2)]
  have nr: "near H good s s'" using near_trans [OF h(1) near_trans [OF c(1) near_along [OF b(2)]]] .
  have pub: "under_epoch n (published (i + 1) (of_nat ?k)) b" "under_epoch n (published (i + 1) (of_nat ?k)) s'"
    using under_along [OF c(3) b(1)] under_along [OF c(3) b(2)] by simp_all
  show "ring_sound H m good n g d ?t"
    by (rule release_sound [where k = n])
      (use nr assms pub(2) near_device [OF nr assms(4)] honest_published [OF pub(2)] in \<open>simp_all add: near_def under_epoch_def\<close>)
  show "n < fp_disables ?t" if "ps_resp_prod u \<noteq> i + 1"
    using that ab(4) pub(1) le by (auto simp: under_epoch_def published_def split: if_splits)
qed

lemma publish_sound:
  assumes "served H n i s" "device_good m good (d, fp_host s)" "gr_seen g" "gr_epoch g = of_nat n"
    and "publish (paged H) (fsim_page H) (of_nat n) i g d s = (r, g', d', t)" "fp_disables t < n + 65536"
  shows "ring_sound H m good n g' d' t \<and> (r = - 1 \<longrightarrow> n < fp_disables t)"
proof -
  note sk = stores_are_kept
  obtain u s1 where u: "f_state (fsim_page H) s = (u, s1)" by fastforce
  obtain a b where ab: "along H good s a" "along H good a b" "along H good b s1" "ps_epoch u = fp_epoch a"
    using f_state_seen [OF sk u] by metis
  have s1: "along H good s s1" "along H good a s1" using ab along_trans by blast+
  have un: "under_epoch n (waiting i) a" "under_epoch n (waiting i) s1"
    using assms(1) under_along [OF _ ab(1)] under_along [OF _ s1(1)] by (simp_all add: served_def)
  have k: "fp_bad s1 = []" "page_ok H s1" "device_good m good (d, fp_host s1)"
    using s1(1) assms(1,2) near_device [OF near_along [OF s1(1)] assms(2)] by (simp_all add: served_def along_def)
  show ?thesis
  proof (cases "ps_epoch u = of_nat n")
    case False
    obtain d1 s2 where rs: "qfd_reset (paged H) d s1 = (d1, s2)" by fastforce
    have n: "n < fp_disables a" using un(1) False ab(4) by (auto simp: under_epoch_def fp_epoch_def le_less)
    have le: "fp_disables a \<le> fp_disables s1" using s1(2) by (simp add: along_def later_def)
    have r: "r = 1" "g' = g\<lparr>gr_epoch := fp_epoch a\<rparr>" "d' = d1" "t = f_release (fsim_page H) s2"
      using assms(5) u rs False ab(4) by (auto simp: publish_def)
    have "unsaid s1" using un(2) n le by (simp add: under_epoch_def)
    from overtaken_sound [OF this k assms(3) rs le, of n] show ?thesis using n r by (simp add: fp_epoch_def)
  next
    case True
    obtain u2 s2 where u2: "f_state (fsim_page H) (f_complete (fsim_page H) (of_nat n) (i + 1) (f_handles (fsim_page H) (of_nat n) (qfd_handles_open d) s1)) = (u2, s2)"
      by fastforce
    have r: "d' = d" "t = f_release (fsim_page H) s2" "r = - 1 \<longrightarrow> ps_resp_prod u2 \<noteq> i + 1" "gr_seen g' = gr_seen g" "gr_epoch g' = gr_epoch g"
      using assms(5) u u2 True by (auto simp: publish_def Let_def split: if_splits)
    show ?thesis
      using completed_sound [OF un(2) k, of g' u2 s2] r u2 assms(3,4,6) by simp
  qed
qed

lemma execute_mono:
  assumes "device_good m good (d, fp_host s)"
  shows "fp_disables s \<le> fp_disables (snd (qfd_execute (paged H) c r d s))"
proof -
  have "confined (paged H) m (\<lambda>S t. good S (fp_host t) \<and> fp_disables s \<le> fp_disables t)"
    by (rule paged_confined) (auto simp: touch_def breached_def Let_def intro: le_trans [OF _ turn_mono])
  from confined.execute_kept [OF this, of d s c r] show ?thesis
    using assms by (simp add: device_good_def case_prod_unfold)
qed

lemma publish_mono: "fp_disables s \<le> fp_disables (snd (snd (snd (publish (paged H) (fsim_page H) e i g d s))))"
proof -
  let ?P = "fsim_page H" and ?s = "snd (f_state (fsim_page H) s)"
  have "fp_disables s \<le> fp_disables (f_release ?P (snd (qfd_reset (paged H) d ?s)))" by (intro mono_after order_refl)
  moreover have "fp_disables s \<le> fp_disables (f_release ?P (snd (f_state ?P (f_complete ?P e (i + 1) (f_handles ?P e (qfd_handles_open d) ?s)))))"
    by (intro mono_after order_refl)
  ultimately show ?thesis unfolding publish_def Let_def case_prod_unfold by simp
qed

lemma serve_mono:
  assumes "device_good m good (d, fp_host s)"
  shows "fp_disables s \<le> fp_disables (snd (snd (snd (serve (paged H) (fsim_page H) e g d s))))"
proof -
  let ?s1 = "snd (f_state (fsim_page H) s)"
  obtain u where u: "f_state (fsim_page H) s = (u, ?s1)" by (metis prod.collapse)
  obtain a b where "along H good s a" "along H good a b" "along H good b ?s1" using f_state_seen [OF stores_are_kept u] by metis
  then have "near H good s ?s1" using along_trans near_along by blast
  then have g: "device_good m good (d, fp_host ?s1)" using near_device assms by blast
  show ?thesis
    unfolding serve_def Let_def case_prod_unfold
    by (auto intro: mono_after le_trans [OF f_state_mono le_trans [OF execute_mono [OF g] publish_mono]])
qed

lemma serve_sound:
  assumes "fp_busy s" "fp_bad s = []" "page_ok H s" "device_good m good (d, fp_host s)" "gr_seen g" "gr_epoch g = of_nat n"
    and "honest n d s" "n \<le> fp_disables s" "serve (paged H) (fsim_page H) (of_nat n) g d s = (r, g', d', t)" "fp_disables t < n + 65536"
  shows "ring_sound H m good n g' d' t \<and> (r = - 1 \<longrightarrow> n < fp_disables t)"
proof -
  obtain u s1 where u: "f_state (fsim_page H) s = (u, s1)" by fastforce
  obtain a b where ab: "along H good s a" "along H good a b" "along H good b s1" "ps_epoch u = fp_epoch a" "ps_work u = fsim_work a"
      "ps_resp_prod u = (if fp_enabled b then fp_resp_prod b else 0)"
    using f_state_seen [OF stores_are_kept u] .
  have al: "along H good s s1" "along H good a s1" using ab along_trans by blast+
  have k: "fp_bad s1 = []" "page_ok H s1" "device_good m good (d, fp_host s1)" "fp_busy s1" "n \<le> fp_disables s1"
    using al(1) assms near_device [OF near_along [OF al(1)] assms(4)] by (simp_all add: along_def later_def)
  have hn: "honest n d s1" using honest_later [OF assms(7) _ assms(3,8)] al(1) by (simp add: along_def)
  show ?thesis
  proof (cases "ps_epoch u = of_nat n \<and> ps_work u \<and> ring_fits (paged H) (ps_cmd_base u) (ps_cmd_log2 u) \<and> ring_fits (paged H) (ps_resp_base u) (ps_resp_log2 u)")
    case False
    then have "r = 0" "d' = d" "t = f_release (fsim_page H) s1" "gr_seen g' = gr_seen g" "gr_epoch g' = gr_epoch g"
      using assms(9) u by (auto simp: serve_def Let_def split: if_splits)
    then show ?thesis using release_sound [OF k(1-3) hn k(5), of g' n] assms(5,6) by simp
  next
    case True
    let ?N = "fp_disables a" and ?i = "ps_resp_prod u"
    obtain d2 s2 where x: "qfd_execute (paged H) (slot_at (ps_cmd_base u) (ps_cmd_log2 u) ?i) (slot_at (ps_resp_base u) (ps_resp_log2 u) ?i) d s1 = (d2, s2)"
      by fastforce
    have p: "publish (paged H) (fsim_page H) (of_nat n) ?i g d2 s2 = (r, g', d', t)"
      using assms(9) u x True by (simp add: serve_def Let_def)
    have e: "of_nat n = (of_nat ?N :: u16)" using True ab(4) by (simp add: fp_epoch_def)
    have nN: "n \<le> ?N" using assms(8) ab(1) by (simp add: along_def later_def)
    have "under_epoch ?N (waiting ?i) s1"
      using ab(2,3,5,6) al(2) True unfolding under_epoch_def waiting_def along_def later_def fsim_work_def by auto
    then have "served H ?N ?i s1" using k by (simp add: served_def)
    moreover have "confined (paged H) m (\<lambda>S s. good S (fp_host s) \<and> served H ?N ?i s)"
      by (rule paged_confined) (simp_all add: served_touch)
    ultimately have "device_good m (\<lambda>S s. good S (fp_host s) \<and> served H ?N ?i s) (d2, s2)"
      using confined.execute_kept [of "paged H" m "\<lambda>S s. good S (fp_host s) \<and> served H ?N ?i s" d s1] k(3) unfolding x [symmetric]
      by (simp add: device_good_def)
    then have sv: "served H ?N ?i s2" "device_good m good (d2, fp_host s2)" by (simp_all add: device_good_def)
    show ?thesis
      using publish_sound [OF sv assms(5) _ p [unfolded e]] assms(6,10) e nN by (auto simp: ring_sound_def intro: le_trans)
  qed
qed

lemma claimed_sound:
  assumes "fp_bad s = []" "\<not> fp_busy s" "page_ok H s" "device_good m good (d, fp_host s)" "gr_seen g" "gr_epoch g = of_nat n"
    and "n \<le> fp_disables s"
    and "claim_and_serve (paged H) (fsim_page H) u g d s = (r, g', d', t)" "ps_epoch u = of_nat n"
  shows "fp_disables s \<le> fp_disables t"
    "honest n d s \<Longrightarrow> fp_disables t < n + 65536 \<Longrightarrow> ring_sound H m good n g' d' t \<and> (r = - 1 \<longrightarrow> n < fp_disables t)"
proof -
  obtain c s1 where c: "f_claim (fsim_page H) (of_nat n) s = (c, s1)" by fastforce
  note ck = claim_kept [OF stores_are_kept c]
  have k: "fp_bad s1 = []" "page_ok H s1" "device_good m good (d, fp_host s1)" "n \<le> fp_disables s1" "fp_disables s \<le> fp_disables s1"
    using ck(1) assms near_device [OF ck(1) assms(4)] by (auto simp: near_def)
  show "fp_disables s \<le> fp_disables t"
    using assms(8,9) c k(5) serve_mono [OF k(3), of "of_nat n" g] by (auto simp: claim_and_serve_def split: if_splits)
  assume h: "honest n d s" "fp_disables t < n + 65536"
  have hn: "honest n d s1" using honest_later [OF h(1) ck(3) assms(3,7)] .
  show "ring_sound H m good n g' d' t \<and> (r = - 1 \<longrightarrow> n < fp_disables t)"
  proof (cases "ps_work u \<and> c")
    case True
    then have "serve (paged H) (fsim_page H) (of_nat n) g d s1 = (r, g', d', t)" using assms(8,9) c by (simp add: claim_and_serve_def)
    from serve_sound [OF _ k(1-3) assms(5,6) hn k(4) this h(2)] show ?thesis using ck(2) True by simp
  next
    case False
    have "ring_sound H m good n g d x" if "fp_bad x = []" "\<not> fp_busy x" "page_ok H x" "device_good m good (d, fp_host x)" "n \<le> fp_disables x" "honest n d x" for x
      using that assms(5,6) unfolding ring_sound_def by blast
    then show ?thesis using False assms(1-4,7-9) c ck(2) k h(1) hn by (auto simp: claim_and_serve_def split: if_splits)
  qed
qed

text \<open>The handles forgotten under an epoch first seen.\<close>

lemma forgotten_sound:
  assumes "unsaid s" "fp_bad s = []" "\<not> fp_busy s" "page_ok H s" "device_good m good (d, fp_host s)" "n \<le> fp_disables s"
    and "qfd_reset (paged H) d s = (d', s')" "f_handles (fsim_page H) (of_nat n) 0 s' = t"
  shows "fp_bad t = []" "\<not> fp_busy t" "page_ok H t" "device_good m good (d', fp_host t)" "n \<le> fp_disables t"
    "fp_disables t < n + 65536 \<Longrightarrow> honest n d' t"
proof -
  obtain w where r: "s' = s\<lparr>fp_host := w\<rparr>" "device_good m good (d', w)" "qfd_handles_open d' = 0"
    using reset_sound [OF assms(5,7)] .
  obtain a where a: "along H good s' a"
      "f_handles (fsim_page H) (of_nat n) 0 s' = (if fp_enabled a \<and> of_nat n = fp_epoch a then a\<lparr>fp_staged := of_nat 0, fp_have_staged := True\<rparr> else a)"
    by (rule handles_kept [OF stores_are_kept, of 0 s' "of_nat n"]) simp_all
  note a = a(1) a(2) [unfolded assms(8) of_nat_0]
  have g: "device_good m good (d', fp_host a)" using near_device [OF near_along [OF a(1)]] r by simp
  have u: "unsaid a" "n \<le> fp_disables a" using a(1) r assms(1,6) by (auto simp: along_def later_def)
  have k: "fp_bad a = []" "\<not> fp_busy a" "page_ok H a" using a(1) r(1) assms(2-4) by (simp_all add: along_def)
  have "page_ok H (a\<lparr>fp_staged := 0, fp_have_staged := True\<rparr>)" if "fp_enabled a" using that k(3) by (simp add: page_ok_def)
  then show "fp_bad t = []" "\<not> fp_busy t" "device_good m good (d', fp_host t)" "n \<le> fp_disables t" "page_ok H t"
    using k g u unfolding a(2) by simp_all
  show "honest n d' t" if "fp_disables t < n + 65536"
  proof (cases "fp_enabled a \<and> of_nat n = fp_epoch a")
    case True
    then have "fp_disables t = fp_disables a" unfolding a(2) by simp
    then have "n = fp_disables a" using epoch_same [of n "fp_disables a"] that u(2) True by (simp add: fp_epoch_def)
    then show ?thesis using True u(1) r(3) unfolding a(2) by (simp add: honest_def unsaid_def)
  next
    case False
    then show ?thesis using honest_closed [OF u(1) r(3)] unfolding a(2) by auto
  qed
qed

lemma step_sound:
  assumes "ring_ready H m good (fp_disables t) g d s" "qfd_ring_step (paged H) (fsim_page H) g d s = (r, g', d', t)" "fp_disables t < fp_disables s + 65536"
  shows "ring_sound H m good (fp_disables s) g' d' t \<and> (r = - 1 \<longrightarrow> fp_disables s < fp_disables t)"
proof -
  obtain u s1 where u: "f_state (fsim_page H) s = (u, s1)" by fastforce
  obtain a b where ab: "along H good s a" "along H good a b" "along H good b s1" "ps_epoch u = fp_epoch a"
    using f_state_seen [OF stores_are_kept u] by metis
  let ?N = "fp_disables a"
  have al: "along H good s s1" "along H good a s1" using ab along_trans by blast+
  have i: "fp_bad s = []" "\<not> fp_busy s" "page_ok H s" "device_good m good (d, fp_host s)" using assms(1) by (simp_all add: ring_ready_def)
  have k: "fp_bad s1 = []" "\<not> fp_busy s1" "page_ok H s1" "device_good m good (d, fp_host s1)" "?N \<le> fp_disables s1" "fp_disables s \<le> ?N"
    using al ab(1) i near_device [OF near_along [OF al(1)] i(4)] by (simp_all add: along_def later_def)
  have e: "ps_epoch u = of_nat ?N" using ab(4) by (simp add: fp_epoch_def)
  have weak: "ring_sound H m good (fp_disables s) g' d' t \<and> (r = - 1 \<longrightarrow> fp_disables s < fp_disables t)"
    if "ring_sound H m good ?N g' d' t \<and> (r = - 1 \<longrightarrow> ?N < fp_disables t)"
    using that k(6) by (auto simp: ring_sound_def intro: le_trans)
  show ?thesis
  proof (cases "\<not> gr_seen g \<or> ps_epoch u \<noteq> gr_epoch g")
    case True
    obtain d1 s2 where rs: "qfd_reset (paged H) d s1 = (d1, s2)" by fastforce
    let ?s3 = "f_handles (fsim_page H) (of_nat ?N) 0 s2" and ?g = "g\<lparr>gr_epoch := of_nat ?N, gr_seen := True\<rparr>"
    have ls: "later s s1" using al(1) by (simp add: along_def)
    have us: "unsaid s1"
    proof (cases "gr_seen g")
      case seen: True
      then obtain n where n: "n \<le> fp_disables s" "gr_epoch g = of_nat n" "honest n d s" using assms(1) by (auto simp: ring_ready_def)
      have "n \<noteq> ?N" using True seen n(2) e by auto
      then have "n < fp_disables s1" using n(1) k(5,6) by simp
      then have "n < fp_disables s \<or> fp_disables s < fp_disables s1" using n(1) by linarith
      then show ?thesis using n(3) ls by (auto simp: honest_def later_def)
    qed (use assms(1) ls in \<open>simp add: ring_ready_def later_def\<close>)
    note f = forgotten_sound [OF us k(1-5) rs refl]
    have st: "claim_and_serve (paged H) (fsim_page H) u ?g d1 ?s3 = (r, g', d', t)"
      using assms(2) u rs True e by (simp add: qfd_ring_step_def)
    note c = claimed_sound [OF f(1-4) _ _ f(5) st e]
    have "fp_disables ?s3 \<le> fp_disables t" by (rule c(1)) simp_all
    then have "honest ?N d1 ?s3" using f(6) assms(3) k(6) by linarith
    then have "ring_sound H m good ?N g' d' t \<and> (r = - 1 \<longrightarrow> ?N < fp_disables t)"
      by (rule c(2) [rotated 2]) (use assms(3) k(6) in simp_all)
    then show ?thesis by (rule weak)
  next
    case False
    then obtain n where n: "n \<le> fp_disables s" "fp_disables t < n + 65536" "gr_epoch g = of_nat n" "honest n d s"
      using assms(1) by (auto simp: ring_ready_def)
    have st: "claim_and_serve (paged H) (fsim_page H) u g d s1 = (r, g', d', t)"
      using assms(2) u False by (simp add: qfd_ring_step_def)
    have g: "gr_seen g" "gr_epoch g = of_nat ?N" using False e by simp_all
    note c = claimed_sound [OF k(1-4) g k(5) st e]
    have "n = ?N" by (rule epoch_same) (use g n c(1) k(5,6) assms(3) in simp_all)
    then have "honest ?N d s1" using honest_later [OF n(4) _ i(3) n(1)] al(1) by (simp add: along_def)
    then have "ring_sound H m good ?N g' d' t \<and> (r = - 1 \<longrightarrow> ?N < fp_disables t)"
      by (rule c(2)) (use assms(3) k(6) in simp)
    then show ?thesis by (rule weak)
  qed
qed

lemma clock_ready:
  assumes "ring_ready H m good hi g d s" "qfd_ring_clock (fsim_page H) sec ns g s = (g', t)"
  shows "ring_ready H m good hi g' d t" "fp_disables s \<le> fp_disables t"
proof -
  have w: "fsim_wr H OFF_RTC_FRACTION v x = (fsim_turn H x)\<lparr>fp_rtc_stage := v\<rparr>"
    "fsim_wr H OFF_RTC_SECONDS v x = (fsim_turn H x)\<lparr>fp_rtc_sec := v, fp_rtc_frac := fp_rtc_stage (fsim_turn H x), fp_rtc_stage := 0\<rparr>" for v x
    by (simp_all add: fsim_wr_def Let_def)
  have r: "along H good s x \<Longrightarrow> along H good s (x\<lparr>fp_rtc_stage := v\<rparr>)" "along H good s x \<Longrightarrow> along H good s (x\<lparr>fp_rtc_sec := v, fp_rtc_frac := v', fp_rtc_stage := 0\<rparr>)" for v v' x
    by (simp_all add: along_def)
  have "along H good s (f_rtc (fsim_page H) v ns s)" for v
    unfolding f_rtc_def fsim_page_def qfd_page.simps w by (intro r along_trans [OF _ turn_along [OF stores_are_kept]] along_refl)
  then have t: "along H good s t" and g: "gr_seen g' = gr_seen g" "gr_epoch g' = gr_epoch g"
    using assms(2) by (auto simp: qfd_ring_clock_def split: if_splits)
  have k: "fp_bad s = []" "\<not> fp_busy s" "page_ok H s" "device_good m good (d, fp_host s)" using assms(1) by (simp_all add: ring_ready_def)
  have l: "later s t" using t by (simp add: along_def)
  have h: "fp_disables s \<le> fp_disables t" "unsaid s \<Longrightarrow> unsaid t" using l unfolding later_def by blast+
  have hk: "honest k d t" if "honest k d s" "k \<le> fp_disables s" for k by (rule honest_later [OF that(1) l k(3) that(2)])
  have kt: "fp_bad t = []" "\<not> fp_busy t" "page_ok H t" using t k by (simp_all add: along_def)
  show "fp_disables s \<le> fp_disables t" by (rule h(1))
  show "ring_ready H m good hi g' d t"
    using assms(1) near_device [OF near_along [OF t] k(4)] h hk kt g le_trans [OF _ h(1)] unfolding ring_ready_def
    by (cases "gr_seen g") auto
qed

end

end
