(* ===== verification/Qfd_Model.thy ===== *)
theory Qfd_Model
  imports Qfd_Confined Qed_Mem
begin

text \<open>
  A host for the file device: a tree of names over files and links, descriptors, and QUUX's main
  memory in packed storage.  A descriptor opened to read does not write.  A link names a path of the
  tree; dates and permissions are left out.
\<close>

section \<open>The host\<close>

datatype node = N_dir | N_file nat | N_link cstr

record mfs =
  mf_tree :: "(cstr \<times> node) list"
  mf_data :: "nat \<Rightarrow> u8 list"
  mf_fd :: "nat \<Rightarrow> (nat \<times> bool) option"
  mf_next :: nat
  mf_mem :: "u8 list"

definition node_at :: "mfs \<Rightarrow> cstr \<Rightarrow> node option" where
  "node_at w p = map_of (mf_tree w) p"

definition mfs_stat :: "mfs \<Rightarrow> node \<Rightarrow> fstat" where
  "mfs_stat w n =
     \<lparr>fs_kind = (case n of N_dir \<Rightarrow> S_DIR | N_file _ \<Rightarrow> S_REG | N_link _ \<Rightarrow> S_LNK), fs_dev = 1,
      fs_ino = (case n of N_file i \<Rightarrow> i | _ \<Rightarrow> 0), fs_size = (case n of N_file i \<Rightarrow> length (mf_data w i) | _ \<Rightarrow> 0),
      fs_mtime = 0, fs_mode = 0\<rparr>"

definition m_realpath :: "cstr \<Rightarrow> mfs \<Rightarrow> nat + cstr" where
  "m_realpath p w =
     (case node_at w p of
        None \<Rightarrow> Inl ENOENT
      | Some (N_link t) \<Rightarrow> (case node_at w t of None \<Rightarrow> Inl ENOENT | Some (N_link _) \<Rightarrow> Inl ELOOP | Some _ \<Rightarrow> Inr t)
      | Some _ \<Rightarrow> Inr p)"

definition m_lstat :: "cstr \<Rightarrow> mfs \<Rightarrow> nat + fstat" where
  "m_lstat p w = (case node_at w p of None \<Rightarrow> Inl ENOENT | Some n \<Rightarrow> Inr (mfs_stat w n))"

definition m_stat :: "cstr \<Rightarrow> mfs \<Rightarrow> nat + fstat" where
  "m_stat p w = (case m_realpath p w of Inl e \<Rightarrow> Inl e | Inr q \<Rightarrow> m_lstat q w)"

definition children :: "mfs \<Rightarrow> cstr \<Rightarrow> cstr list" where
  "children w dir =
     [drop (length dir + 1) q. (q, _) \<leftarrow> mf_tree w, take (length dir + 1) q = dir @ [SLASH] \<and> SLASH \<notin> set (drop (length dir + 1) q)]"

definition m_list :: "cstr \<Rightarrow> mfs \<Rightarrow> nat + cstr list \<times> nat option" where
  "m_list p w = (case node_at w p of None \<Rightarrow> Inl ENOENT | Some N_dir \<Rightarrow> Inr (children w p, None) | Some _ \<Rightarrow> Inl ENOTDIR)"

text \<open>A new name: its folder has to be there and the name not.\<close>

definition m_new :: "cstr \<Rightarrow> mfs \<Rightarrow> nat option" where
  "m_new p w = (if node_at w p \<noteq> None then Some EEXIST else if node_at w (folder_of p) \<noteq> Some N_dir then Some ENOENT else None)"

definition m_create :: "cstr \<Rightarrow> mfs \<Rightarrow> (nat + nat) \<times> mfs" where
  "m_create p w =
     (case m_new p w of
        Some e \<Rightarrow> (Inl e, w)
      | None \<Rightarrow>
          (let i = mf_next w
           in (Inr i, w\<lparr>mf_tree := (p, N_file i) # mf_tree w, mf_data := (mf_data w)(i := []), mf_fd := (mf_fd w)(i \<mapsto> (i, True)), mf_next := i + 1\<rparr>)))"

definition m_open :: "cstr \<Rightarrow> mfs \<Rightarrow> (nat + nat) \<times> mfs" where
  "m_open p w =
     (case node_at w p of
        Some (N_file i) \<Rightarrow> (Inr (mf_next w), w\<lparr>mf_fd := (mf_fd w)(mf_next w \<mapsto> (i, False)), mf_next := mf_next w + 1\<rparr>)
      | Some N_dir \<Rightarrow> (Inl EISDIR, w)
      | Some (N_link _) \<Rightarrow> (Inl ELOOP, w)
      | None \<Rightarrow> (Inl ENOENT, w))"

definition m_mkdir :: "cstr \<Rightarrow> mfs \<Rightarrow> nat option \<times> mfs" where
  "m_mkdir p w = (case m_new p w of Some e \<Rightarrow> (Some e, w) | None \<Rightarrow> (None, w\<lparr>mf_tree := (p, N_dir) # mf_tree w\<rparr>))"

definition drop_name :: "cstr \<Rightarrow> mfs \<Rightarrow> mfs" where
  "drop_name p w = w\<lparr>mf_tree := filter (\<lambda>(k, _). k \<noteq> p) (mf_tree w)\<rparr>"

definition m_unlink :: "cstr \<Rightarrow> mfs \<Rightarrow> nat option \<times> mfs" where
  "m_unlink p w = (case node_at w p of None \<Rightarrow> (Some ENOENT, w) | Some N_dir \<Rightarrow> (Some EISDIR, w) | Some _ \<Rightarrow> (None, drop_name p w))"

definition m_rmdir :: "cstr \<Rightarrow> mfs \<Rightarrow> nat option \<times> mfs" where
  "m_rmdir p w =
     (case node_at w p of
        None \<Rightarrow> (Some ENOENT, w)
      | Some N_dir \<Rightarrow> (if children w p \<noteq> [] then (Some ENOTEMPTY, w) else (None, drop_name p w))
      | Some _ \<Rightarrow> (Some ENOTDIR, w))"

text \<open>A name and what is under it, moved.\<close>

definition under :: "cstr \<Rightarrow> cstr \<Rightarrow> bool" where
  "under p k \<longleftrightarrow> k = p \<or> take (length p + 1) k = p @ [SLASH]"

definition moved :: "cstr \<Rightarrow> cstr \<Rightarrow> cstr \<Rightarrow> cstr" where
  "moved p q k = (if under p k then q @ drop (length p) k else k)"

definition m_rename :: "cstr \<Rightarrow> cstr \<Rightarrow> mfs \<Rightarrow> nat option \<times> mfs" where
  "m_rename p q w =
     (if node_at w p = None then (Some ENOENT, w)
      else if under p q then (Some EINVAL, w)
      else if node_at w q = Some N_dir then (Some EISDIR, w)
      else if node_at w (folder_of q) \<noteq> Some N_dir then (Some ENOENT, w)
      else (None, w\<lparr>mf_tree := map (\<lambda>(k, n). (moved p q k, n)) (filter (\<lambda>(k, _). k \<noteq> q) (mf_tree w))\<rparr>))"

definition m_renameat2 :: "cstr \<Rightarrow> cstr \<Rightarrow> mfs \<Rightarrow> nat option \<times> mfs" where
  "m_renameat2 p q w = (if node_at w q \<noteq> None then (Some EEXIST, w) else m_rename p q w)"

definition m_inode :: "nat \<Rightarrow> mfs \<Rightarrow> nat + nat" where
  "m_inode fd w = (case mf_fd w fd of None \<Rightarrow> Inl EBADF | Some (i, _) \<Rightarrow> Inr i)"

definition m_fstat :: "nat \<Rightarrow> mfs \<Rightarrow> nat + fstat" where
  "m_fstat fd w = (case mf_fd w fd of None \<Rightarrow> Inl EBADF | Some (i, _) \<Rightarrow> Inr (mfs_stat w (N_file i)))"

definition m_reads :: "nat \<Rightarrow> mfs \<Rightarrow> u8 list list \<times> nat option" where
  "m_reads fd w =
     (case mf_fd w fd of None \<Rightarrow> ([], Some EBADF) | Some (i, _) \<Rightarrow> (if mf_data w i = [] then [] else [mf_data w i], None))"

definition m_pread :: "nat \<Rightarrow> nat \<Rightarrow> nat \<Rightarrow> mfs \<Rightarrow> nat + u8 list" where
  "m_pread fd n off w = (case mf_fd w fd of None \<Rightarrow> Inl EBADF | Some (i, _) \<Rightarrow> Inr (read_bytes off n (mf_data w i)))"

definition m_pwrite :: "nat \<Rightarrow> u8 list \<Rightarrow> nat \<Rightarrow> mfs \<Rightarrow> (nat + nat) \<times> mfs" where
  "m_pwrite fd bs off w =
     (case mf_fd w fd of
        Some (i, True) \<Rightarrow> (Inr (length bs), w\<lparr>mf_data := (mf_data w)(i := write_bytes off bs (mf_data w i))\<rparr>)
      | _ \<Rightarrow> (Inl EBADF, w))"

definition m_write :: "nat \<Rightarrow> u8 list \<Rightarrow> mfs \<Rightarrow> (nat + nat) \<times> mfs" where
  "m_write fd bs w =
     (case mf_fd w fd of
        Some (i, True) \<Rightarrow> m_pwrite fd bs (length (mf_data w i)) w
      | _ \<Rightarrow> (Inl EBADF, w))"

definition mfs_host :: "nat \<Rightarrow> nat \<Rightarrow> mfs host" where
  "mfs_host pid words =
     \<lparr>w_lstat = \<lambda>p w. (m_lstat p w, w), w_stat = \<lambda>p w. (m_stat p w, w), w_realpath = \<lambda>p w. (m_realpath p w, w),
      w_list = \<lambda>p w. (m_list p w, w), w_create = m_create, w_open = m_open, w_mkdir = m_mkdir, w_rename = m_rename,
      w_renameat2 = m_renameat2, w_unlink = m_unlink, w_rmdir = m_rmdir, w_chmod = \<lambda>p md w. w,
      w_close = \<lambda>fd w. w\<lparr>mf_fd := (mf_fd w)(fd := None)\<rparr>, w_fstat = \<lambda>fd w. (m_fstat fd w, w),
      w_futimens = \<lambda>fd t w. (None, w), w_reads = \<lambda>fd w. (m_reads fd w, w), w_write = m_write,
      w_pread = \<lambda>fd n off w. (m_pread fd n off w, w), w_pwrite = m_pwrite, w_pid = pid, w_words = words,
      w_load = \<lambda>k n w. (qed_mem_read (mf_mem w) k n, w), w_store = \<lambda>k ws w. w\<lparr>mf_mem := qed_mem_write (mf_mem w) k ws\<rparr>\<rparr>"

section \<open>What is kept of it\<close>

text \<open>
  Compared with the host \<open>b\<close> there was: the names that may not be changed are the same names of the
  same files with the same bytes.
\<close>

definition untouched :: "mfs \<Rightarrow> qfd_mounts \<Rightarrow> nat set \<Rightarrow> mfs \<Rightarrow> bool" where
  "untouched b m S w \<longleftrightarrow>
     mounts_ok m \<and> (\<forall>mt \<in> set (mount_list m). node_at b (mt_path mt) = Some N_dir \<and> \<not> may_change m (mt_path mt)) \<and>
     (\<forall>(p, n) \<in> set (mf_tree w). dotless p) \<and>
     (\<forall>p. \<not> may_change m p \<longrightarrow> node_at w p = node_at b p) \<and>
     (\<forall>p i. \<not> may_change m p \<and> node_at b p = Some (N_file i) \<longrightarrow> mf_data w i = mf_data b i \<and> i < mf_next w) \<and>
     (\<forall>fd \<in> S. fd < mf_next w \<and>
        (\<forall>i. mf_fd w fd = Some (i, True) \<longrightarrow> (\<forall>p. \<not> may_change m p \<longrightarrow> node_at b p \<noteq> Some (N_file i))))"

lemma node_at_in: "node_at w p = Some n \<Longrightarrow> (p, n) \<in> set (mf_tree w)"
  by (simp add: node_at_def map_of_SomeD)

lemma map_of_drop: "map_of (filter (\<lambda>(k, _). k \<noteq> p) xs) q = (if q = p then None else map_of xs q)"
  by (induction xs) auto

lemma map_of_moved:
  assumes "\<forall>(k, n) \<in> set xs. f k = q \<longleftrightarrow> k = q"
  shows "map_of (map (\<lambda>(k, n). (f k, n)) xs) q = map_of xs q"
  using assms by (induction xs) auto

text \<open>A change of the tree at names that may change.\<close>

lemma untouched_tree:
  assumes "untouched b m S w" "\<forall>(p, n) \<in> set t. dotless p" "\<And>p. \<not> may_change m p \<Longrightarrow> map_of t p = node_at w p"
  shows "untouched b m S (w\<lparr>mf_tree := t\<rparr>)"
  using assms by (auto simp: untouched_def node_at_def)

lemma may_dotless: "may_change m p \<Longrightarrow> dotless p"
  by (auto simp: may_change_def below_def)

lemma untouched_drop: "untouched b m S w \<Longrightarrow> may_change m p \<Longrightarrow> untouched b m S (drop_name p w)"
  unfolding drop_name_def
  by (rule untouched_tree) (auto simp: untouched_def node_at_def map_of_drop)

lemma untouched_add: "untouched b m S w \<Longrightarrow> may_change m p \<Longrightarrow> untouched b m S (w\<lparr>mf_tree := (p, n) # mf_tree w\<rparr>)"
  by (rule untouched_tree) (auto simp: untouched_def node_at_def may_dotless)

lemma under_split: "under p k \<Longrightarrow> k = p \<or> (\<exists>r. k = p @ SLASH # r)"
proof -
  assume "under p k"
  then consider "k = p" | "take (length p + 1) k = p @ [SLASH]" unfolding under_def by blast
  then show ?thesis
  proof cases
    case 2
    then have "k = p @ SLASH # drop (length p + 1) k" using append_take_drop_id [of "length p + 1" k] by simp
    then show ?thesis by blast
  qed simp
qed

lemma under_may:
  assumes "may_change m p" "under p k" "dotless k"
  shows "may_change m k"
  using under_split [OF assms(2)]
proof (elim disjE exE)
  fix r assume k: "k = p @ SLASH # r"
  obtain mt where mt: "mt \<in> set (mount_list m)" "\<not> mt_ro mt" "below (mt_path mt) p" using assms(1) by (auto simp: may_change_def)
  have "inside k (mt_path mt)" using mt(3) inside_join [of p "mt_path mt" r] k by (simp add: below_def path_join_def)
  moreover have "length (mt_path mt) < length k" using mt(3) inside_longer [of p "mt_path mt"] k by (simp add: below_def)
  ultimately show ?thesis using mt assms(3) by (auto simp: may_change_def below_def)
qed (use assms in simp)

lemma moved_under:
  assumes "under p k"
  shows "under q (moved p q k)" "dotless q \<Longrightarrow> dotless k \<Longrightarrow> dotless (moved p q k)"
  using under_split [OF assms] assms by (auto simp: moved_def under_def dotless_def split_slash_append)

lemma moved_dotless: "dotless q \<Longrightarrow> dotless k \<Longrightarrow> dotless (moved p q k)"
  using moved_under(2) [of p k q] by (cases "under p k") (auto simp: moved_def)

lemma untouched_rename:
  assumes "untouched b m S w" "may_change m p" "may_change m q"
  shows "untouched b m S (snd (m_rename p q w))"
proof -
  let ?xs = "filter (\<lambda>(k, _). k \<noteq> q) (mf_tree w)" and ?t = "map (\<lambda>(k, n). (moved p q k, n)) (filter (\<lambda>(k, _). k \<noteq> q) (mf_tree w))"
  have dl: "\<forall>(k, n) \<in> set (mf_tree w). dotless k" using assms(1) by (simp add: untouched_def)
  have "untouched b m S (w\<lparr>mf_tree := ?t\<rparr>)"
  proof (rule untouched_tree [OF assms(1)])
    show "\<forall>(k, n) \<in> set ?t. dotless k" using dl moved_dotless [OF may_dotless [OF assms(3)]] by auto
    fix x assume x: "\<not> may_change m x"
    have "moved p q k = x \<longleftrightarrow> k = x" if "(k, n) \<in> set ?xs" for k n
    proof (cases "under p k")
      case True
      have d: "dotless k" using dl that by auto
      have "may_change m k" using under_may [OF assms(2) True d] .
      moreover have "may_change m (moved p q k)"
        using under_may [OF assms(3) moved_under(1) [OF True] moved_dotless [OF may_dotless [OF assms(3)] d]] .
      ultimately show ?thesis using x by auto
    qed (simp add: moved_def)
    then have "map_of ?t x = map_of ?xs x" by (intro map_of_moved) auto
    moreover have "x \<noteq> q" using x assms(3) by auto
    ultimately show "map_of ?t x = node_at w x" by (simp add: map_of_drop node_at_def)
  qed
  then show ?thesis using assms(1) by (simp add: m_rename_def)
qed

lemma untouched_pwrite:
  assumes "untouched b m S w" "fd \<in> S"
  shows "untouched b m S (snd (m_pwrite fd bs off w))"
proof (cases "mf_fd w fd")
  case (Some x)
  show ?thesis
  proof (cases "snd x")
    case True
    then have x: "mf_fd w fd = Some (fst x, True)" using Some by (cases x) simp
    then have "\<forall>p. \<not> may_change m p \<longrightarrow> node_at b p \<noteq> Some (N_file (fst x))" using assms by (auto simp: untouched_def)
    then show ?thesis using assms(1) x by (auto simp: untouched_def m_pwrite_def node_at_def)
  qed (use Some assms(1) in \<open>cases x, simp add: m_pwrite_def\<close>)
qed (use assms in \<open>simp add: m_pwrite_def\<close>)

lemma untouched_fds: "untouched b m S w \<Longrightarrow> T \<subseteq> S \<Longrightarrow> untouched b m T w"
  by (auto simp: untouched_def)

lemma untouched_open:
  assumes "untouched b m S w"
  shows "m_open p w = (Inr fd, w') \<Longrightarrow> untouched b m (insert fd S) w' \<and> fd \<notin> S" "m_open p w = (Inl e, w') \<Longrightarrow> untouched b m S w'"
  using assms by (auto simp: m_open_def untouched_def node_at_def less_Suc_eq split: option.splits node.splits)

lemma untouched_create:
  assumes "untouched b m S w"
  shows "m_create p w = (Inr fd, w') \<Longrightarrow> may_change m p \<Longrightarrow> untouched b m (insert fd S) w' \<and> fd \<notin> S" "m_create p w = (Inl e, w') \<Longrightarrow> untouched b m S w'"
proof -
  assume c: "m_create p w = (Inr fd, w')" and p: "may_change m p"
  let ?i = "mf_next w"
  have w': "fd = ?i" "w' = (w\<lparr>mf_tree := (p, N_file ?i) # mf_tree w\<rparr>)\<lparr>mf_data := (mf_data w)(?i := []), mf_fd := (mf_fd w)(?i \<mapsto> (?i, True)), mf_next := ?i + 1\<rparr>"
    using c by (auto simp: m_create_def Let_def split: option.splits)
  have u: "untouched b m S (w\<lparr>mf_tree := (p, N_file ?i) # mf_tree w\<rparr>)" using untouched_add [OF assms p] .
  show "untouched b m (insert fd S) w' \<and> fd \<notin> S"
    using u assms unfolding w' by (auto simp: untouched_def node_at_def less_Suc_eq)
qed (use assms in \<open>auto simp: m_create_def Let_def split: option.splits\<close>)

lemma untouched_close: "untouched b m S w \<Longrightarrow> untouched b m (S - {fd}) (w\<lparr>mf_fd := (mf_fd w)(fd := None)\<rparr>)"
  by (auto simp: untouched_def node_at_def)

lemma untouched_mem: "untouched b m S w \<Longrightarrow> untouched b m S (w\<lparr>mf_mem := x\<rparr>)"
  by (simp add: untouched_def node_at_def)

lemma realpath_dotless: "m_realpath p w = Inr real \<Longrightarrow> untouched b m S w \<Longrightarrow> dotless real"
proof -
  assume a: "m_realpath p w = Inr real" "untouched b m S w"
  then obtain n where "node_at w real = Some n" by (auto simp: m_realpath_def split: option.splits node.splits)
  from node_at_in [OF this] show ?thesis using a(2) by (auto simp: untouched_def)
qed

lemma root_is_dir: "untouched b m S w \<Longrightarrow> root \<in> mt_path ` set (mount_list m) \<Longrightarrow> m_stat root w = Inr st \<Longrightarrow> fs_kind st \<noteq> S_REG"
proof -
  assume a: "untouched b m S w" "root \<in> mt_path ` set (mount_list m)" "m_stat root w = Inr st"
  then have "node_at w root = Some N_dir" by (auto simp: untouched_def)
  then show ?thesis using a(3) by (auto simp: m_stat_def m_realpath_def m_lstat_def mfs_stat_def)
qed

lemma children_plain: "c \<in> set (children w p) \<Longrightarrow> SLASH \<notin> set c"
  by (auto simp: children_def split: if_splits)

lemma untouched_changes:
  assumes "untouched b m S w"
  shows "may_change m p \<Longrightarrow> untouched b m S (snd (m_mkdir p w))" "may_change m p \<Longrightarrow> untouched b m S (snd (m_unlink p w))"
    "may_change m p \<Longrightarrow> untouched b m S (snd (m_rmdir p w))" "fd \<in> S \<Longrightarrow> untouched b m S (snd (m_write fd bs w))"
    "may_change m p \<Longrightarrow> may_change m q \<Longrightarrow> untouched b m S (snd (m_renameat2 p q w))"
  using assms untouched_pwrite [OF assms] untouched_rename [OF assms]
  by (auto simp: m_mkdir_def m_unlink_def m_rmdir_def m_write_def m_renameat2_def untouched_add untouched_drop
      split: option.split node.split bool.split)

lemma mfs_calls [simp]:
  "w_lstat (mfs_host pid words) p w = (m_lstat p w, w)" "w_stat (mfs_host pid words) p w = (m_stat p w, w)"
  "w_realpath (mfs_host pid words) p w = (m_realpath p w, w)" "w_list (mfs_host pid words) p w = (m_list p w, w)"
  "w_create (mfs_host pid words) = m_create" "w_open (mfs_host pid words) = m_open" "w_mkdir (mfs_host pid words) = m_mkdir"
  "w_rename (mfs_host pid words) = m_rename" "w_renameat2 (mfs_host pid words) = m_renameat2" "w_unlink (mfs_host pid words) = m_unlink"
  "w_rmdir (mfs_host pid words) = m_rmdir" "w_chmod (mfs_host pid words) p md w = w"
  "w_close (mfs_host pid words) fd w = w\<lparr>mf_fd := (mf_fd w)(fd := None)\<rparr>" "w_fstat (mfs_host pid words) fd w = (m_fstat fd w, w)"
  "w_futimens (mfs_host pid words) fd t w = (None, w)" "w_reads (mfs_host pid words) fd w = (m_reads fd w, w)"
  "w_write (mfs_host pid words) = m_write" "w_pread (mfs_host pid words) fd n off w = (m_pread fd n off w, w)"
  "w_pwrite (mfs_host pid words) = m_pwrite" "w_words (mfs_host pid words) = words"
  "w_load (mfs_host pid words) k n w = (qed_mem_read (mf_mem w) k n, w)"
  "w_store (mfs_host pid words) k ws w = w\<lparr>mf_mem := qed_mem_write (mf_mem w) k ws\<rparr>"
  by (simp_all add: mfs_host_def)

interpretation mfs: confined "mfs_host pid words" m "untouched b m" for pid words m b
proof
  fix S w p fd w' err ns ended c real root st
  let ?H = "mfs_host pid words"
  show "untouched b m S w \<Longrightarrow> mounts_ok m" by (simp add: untouched_def)
  show "w_open ?H p w = (Inr fd, w') \<Longrightarrow> untouched b m S w \<Longrightarrow> untouched b m (insert fd S) w' \<and> fd \<notin> S"
    using untouched_open(1) by simp
  show "w_open ?H p w = (Inl err, w') \<Longrightarrow> untouched b m S w \<Longrightarrow> untouched b m S w'"
    using untouched_open(2) by simp
  show "w_create ?H p w = (Inr fd, w') \<Longrightarrow> may_change m p \<Longrightarrow> untouched b m S w \<Longrightarrow> untouched b m (insert fd S) w' \<and> fd \<notin> S"
    using untouched_create(1) by simp
  show "w_create ?H p w = (Inl err, w') \<Longrightarrow> may_change m p \<Longrightarrow> untouched b m S w \<Longrightarrow> untouched b m S w'"
    using untouched_create(2) by simp
  show "w_list ?H p w = (Inr (ns, ended), w') \<Longrightarrow> untouched b m S w \<Longrightarrow> c \<in> set ns \<Longrightarrow> SLASH \<notin> set c"
    using children_plain by (auto simp: m_list_def split: option.splits node.splits)
  show "w_realpath ?H p w = (Inr real, w') \<Longrightarrow> untouched b m S w \<Longrightarrow> dotless real"
    by (auto dest: realpath_dotless)
  show "w_stat ?H root w = (Inr st, w') \<Longrightarrow> root \<in> mt_path ` set (mount_list m) \<Longrightarrow> untouched b m S w \<Longrightarrow> fs_kind st \<noteq> S_REG"
    by (auto dest: root_is_dir)
qed (simp_all add: untouched_fds untouched_mem untouched_close untouched_changes untouched_rename untouched_pwrite)

text \<open>A host with one folder served, a file in it and one outside.\<close>

definition wit_mounts :: qfd_mounts where
  "wit_mounts = \<lparr>mo_default = Some \<lparr>mt_given = [0x2F, 0x71], mt_path = [0x2F, 0x71], mt_ro = False\<rparr>, mo_named = []\<rparr>"

definition wit_host :: mfs where
  "wit_host = \<lparr>mf_tree = [([0x2F, 0x71], N_dir), ([0x2F, 0x71, 0x2F, 0x61], N_file 0), ([0x2F, 0x65], N_file 1)],
     mf_data = (\<lambda>i. if i = 1 then [7] else []), mf_fd = (\<lambda>_. None), mf_next = 2, mf_mem = replicate 320 0\<rparr>"

definition wit_device :: qfd where
  "wit_device = qfd_init\<lparr>qd_mounts := wit_mounts\<rparr>"

lemma wit_may: "may_change wit_mounts p \<longleftrightarrow> below [0x2F, 0x71] p"
  by (simp add: may_change_def mount_list_def wit_mounts_def)

lemma wit_good: "device_good wit_mounts (untouched wit_host wit_mounts) (wit_device, wit_host)"
proof -
  have "open_fds wit_device = []" by (auto simp: open_fds_def wit_device_def qfd_init_def)
  then show ?thesis
    by (auto simp: device_good_def device_ok_def wit_device_def qfd_init_def list_all_iff untouched_def wit_host_def mounts_ok_def mount_list_def
        wit_mounts_def node_at_def may_change_def below_def dotless_def split: if_splits)
qed



end
