(* ===== verification/Qfd_Served.thy ===== *)
theory Qfd_Served
  imports Qfd_Page_Props Qfd_Model
begin

text \<open>
  The file device served: the claim over every run of the program's loop, and a run on the model's
  host.
\<close>

unbundle bit_operations_syntax

section \<open>The program served\<close>

text \<open>
  One time round the loop: the clock and then the step, the machine's moves in between from a script
  of its own, with fewer than 32,768 disables among them.  What the step returned and the disables
  counted before are kept beside the state.
\<close>

type_synonym 'w served_state = "int \<times> nat \<times> qfd_ring \<times> qfd \<times> 'w fsim"

definition file_start :: "'w host \<Rightarrow> qfd_mounts \<Rightarrow> (nat set \<Rightarrow> 'w \<Rightarrow> bool) \<Rightarrow> 'w served_state \<Rightarrow> bool" where
  "file_start H m good x \<longleftrightarrow>
     (case x of (r, n, g, d, s) \<Rightarrow>
        r = 0 \<and> n = fp_disables s \<and> g = qfd_ring_init \<and> fp_bad s = [] \<and> \<not> fp_busy s \<and> page_ok H s \<and> unsaid s \<and>
        device_good m good (d, fp_host s))"

definition file_round :: "'w host \<Rightarrow> 'w served_state \<Rightarrow> 'w served_state \<Rightarrow> bool" where
  "file_round H x y \<longleftrightarrow>
     (case (x, y) of ((_, _, g, d, s), (r', n', g', d', s')) \<Rightarrow>
        n' = fp_disables s \<and> fp_disables s' < fp_disables s + 32768 \<and>
        (\<exists>script sec ns. (case qfd_ring_clock (fsim_page H) sec ns g (s\<lparr>fp_script := script\<rparr>) of (g, s) \<Rightarrow>
           qfd_ring_step (paged H) (fsim_page H) g d s) = (r', g', d', s')))"

definition file_inv :: "'w host \<Rightarrow> qfd_mounts \<Rightarrow> (nat set \<Rightarrow> 'w \<Rightarrow> bool) \<Rightarrow> 'w served_state \<Rightarrow> bool" where
  "file_inv H m good x \<longleftrightarrow>
     (case x of (r, n, g, d, s) \<Rightarrow>
        (\<forall>hi. hi < fp_disables s + 32768 \<longrightarrow> ring_ready H m good hi g d s) \<and> (r = - 1 \<longrightarrow> n < fp_disables s) \<and>
        (gr_seen g \<longrightarrow> ring_sound H m good n g d s) \<and> fp_disables s < n + 32768)"

lemma ready_script: "ring_ready H m good hi g d (s\<lparr>fp_script := x\<rparr>) = ring_ready H m good hi g d s"
  by (simp add: ring_ready_def honest_def)

lemma file_kept:
  assumes "confined H m good"
  shows "kept (file_start H m good) (file_round H) (file_inv H m good)"
proof
  fix x assume "file_start H m good x"
  then show "file_inv H m good x"
    by (cases x) (auto simp: file_start_def file_inv_def ring_ready_def qfd_ring_init_def)
next
  fix x y assume xy: "file_round H x y" "file_inv H m good x"
  obtain r0 n0 g d s where x: "x = (r0, n0, g, d, s)" by (metis prod_cases5)
  obtain r n g' d' t where y: "y = (r, n, g', d', t)" by (metis prod_cases5)
  obtain script sec ns g1 s1 where st: "n = fp_disables s" "fp_disables t < fp_disables s + 32768"
      "qfd_ring_clock (fsim_page H) sec ns g (s\<lparr>fp_script := script\<rparr>) = (g1, s1)" "qfd_ring_step (paged H) (fsim_page H) g1 d s1 = (r, g', d', t)"
    using xy(1) by (auto simp: file_round_def x y case_prod_unfold) (metis prod.collapse)
  have rd: "ring_ready H m good (fp_disables t) g d (s\<lparr>fp_script := script\<rparr>)"
    using xy(2) st(2) by (simp add: file_inv_def x ready_script)
  note c = confined.clock_ready [OF assms rd st(3)]
  have b: "fp_disables s \<le> fp_disables s1" "fp_disables t < fp_disables s1 + 65536" using c(2) st(2) by simp_all
  have so: "ring_sound H m good (fp_disables s) g' d' t" "r = - 1 \<longrightarrow> fp_disables s < fp_disables t"
    using confined.step_sound [OF assms c(1) st(4) b(2)] b(1) by (auto simp: ring_sound_def intro: le_trans)
  show "file_inv H m good y"
    using so st(1,2) sound_ready [OF so(1)] by (auto simp: file_inv_def y)
qed

text \<open>
  C2. The file device's step keeps the page's rules, whatever the machine does to the registers and the
  memory before each of its accesses and whatever the host answers to each call.  No word of
  main memory is touched without the claim, no completion is written before the barrier after the
  last word, no register is used that the page does not have, and the claim is dropped when the step
  ends; the host is changed only below the folders that may be; while the device is enabled under
  the epoch the program last read, the count of handles the machine and a checkpoint read is the number
  the program has open; and the program stops for a completion that was not taken only when the
  device was disabled in that time round.  The epoch has sixteen bits, so a time round the loop has
  fewer than 32,768 disables.\<close>

theorem file_ring_keeps_rules:
  assumes "confined H m good" "reach (file_start H m good) (file_round H) (r, n, g, d, s)"
  shows "fp_bad s = [] \<and> \<not> fp_busy s \<and> device_good m good (d, fp_host s) \<and>
    (gr_seen g \<and> fp_enabled s \<and> gr_epoch g = fp_epoch s \<longrightarrow> fp_handles s = of_nat (qfd_handles_open d)) \<and>
    (r = - 1 \<longrightarrow> n < fp_disables s)"
proof -
  have i: "file_inv H m good (r, n, g, d, s)" using kept.reach_inv [OF file_kept [OF assms(1)] assms(2)] .
  then have "ring_ready H m good 0 g d s" "r = - 1 \<longrightarrow> n < fp_disables s" by (simp_all add: file_inv_def)
  moreover have "fp_handles s = of_nat (qfd_handles_open d)" if e: "gr_seen g" "fp_enabled s" "gr_epoch g = fp_epoch s"
  proof -
    have "ring_sound H m good n g d s" "fp_disables s < n + 32768" using i e(1) by (simp_all add: file_inv_def)
    then obtain k where k: "n \<le> k" "k \<le> fp_disables s" "gr_epoch g = of_nat k" "honest k d s" "fp_disables s < n + 32768" by (auto simp: ring_sound_def)
    have "k = fp_disables s" by (rule epoch_same) (use k e(3) in \<open>simp_all add: fp_epoch_def\<close>)
    then show ?thesis using k(4) e(2) by (simp add: honest_def)
  qed
  ultimately show ?thesis by (simp add: ring_ready_def)
qed

section \<open>A step the machine leaves alone\<close>

text \<open>The machine makes no move before the next \<open>k\<close> accesses.\<close>

definition still :: "nat \<Rightarrow> 'w fsim \<Rightarrow> bool" where
  "still k s \<longleftrightarrow> list_all (\<lambda>ms. ms = []) (take k (fp_script s))"

definition on :: "nat \<Rightarrow> 'w fsim \<Rightarrow> 'w fsim" where
  "on k s = s\<lparr>fp_script := drop k (fp_script s)\<rparr>"

lemma turn_still: "still (Suc k) s \<Longrightarrow> fsim_turn H s = on 1 s"
  by (cases "fp_script s") (auto simp: still_def fsim_turn_def on_def)

lemma still_on: "still (j + k) s \<Longrightarrow> still k (on j s)" "on j (on k s) = on (k + j) s"
  by (auto simp: still_def on_def take_add add.commute)

definition view :: "'w fsim \<Rightarrow> qfd_state" where
  "view s =
     \<lparr>ps_enabled = fp_enabled s, ps_busy = fp_busy s, ps_work = fsim_work s, ps_refused = fp_refused s, ps_epoch = fp_epoch s,
      ps_cmd_base = fp_cb s AND QFD_ADDRESS, ps_cmd_log2 = fp_cl s AND 0xF, ps_resp_base = fp_rb s AND QFD_ADDRESS,
      ps_resp_log2 = fp_rl s AND 0xF, ps_cmd_prod = if fp_enabled s then fp_cmd_prod s else 0,
      ps_resp_prod = if fp_enabled s then fp_resp_prod s else 0, ps_resp_cons = if fp_enabled s then fp_resp_cons s else 0\<rparr>"

lemma on_fields [simp]:
  "fp_enabled (on k s) = fp_enabled s" "fp_busy (on k s) = fp_busy s" "fp_cb (on k s) = fp_cb s" "fp_cl (on k s) = fp_cl s"
  "fp_rb (on k s) = fp_rb s" "fp_rl (on k s) = fp_rl s" "fp_cmd_prod (on k s) = fp_cmd_prod s" "fp_resp_prod (on k s) = fp_resp_prod s"
  "fp_resp_cons (on k s) = fp_resp_cons s" "fsim_state (on k s) = fsim_state s" "fsim_work (on k s) = fsim_work s" "fp_epoch (on k s) = fp_epoch s"
  "fp_disables (on k s) = fp_disables s" "fp_host (on k s) = fp_host s" "fp_dirty (on k s) = fp_dirty s" "fp_handles (on k s) = fp_handles s"
  "fp_have_staged (on k s) = fp_have_staged s" "fp_staged (on k s) = fp_staged s" "fp_bad (on k s) = fp_bad s"
  by (simp_all add: on_def fsim_state_def fp_epoch_def)

lemma state_flags: "bit (fsim_state s) 0 = fp_enabled s" "bit (fsim_state s) 2 = fp_busy s" "bit (fsim_state s) 5 = fp_refused s"
  by (simp_all add: fsim_state_def bit_simps del: push_bit_numeral)

lemma f_state_still:
  assumes "still 8 s"
  shows "f_state (fsim_page H) s = (view s, on 8 s)"
proof -
  have st: "still (8 - k) (on k s)" if "k \<le> 8" for k
    using still_on(1) [of k "8 - k" s] assms that by simp
  have t: "fsim_turn H (on k s) = on (k + 1) s" if "k < 8" for k
  proof -
    have "8 - k = Suc (7 - k)" using that by simp
    then show ?thesis using turn_still [of "7 - k" "on k s" H] st [of k] that by (simp add: still_on(2))
  qed
  have t0: "fsim_turn H s = on 1 s" using t [of 0] by (simp add: on_def)
  show ?thesis
    unfolding f_state_def fsim_page_def
    by (simp add: rd_registers t0 t view_def fsim_state_bits state_flags ucast_ucast_u16) (simp add: numeral_eq_Suc)
qed

lemma still_less: "still k s \<Longrightarrow> j \<le> k \<Longrightarrow> still j s"
  using still_on(1) [of 0] by (auto simp: still_def list_all_iff dest: in_set_takeD) (metis min.absorb1 in_set_takeD take_take)

lemma claim_still:
  assumes "still 2 s" "fp_enabled s" "e = fp_epoch s"
  shows "f_claim (fsim_page H) e s = (True, (on 2 s)\<lparr>fp_busy := True\<rparr>)"
proof -
  have "fsim_turn H s = on 1 s" using turn_still [of 1 s] assms(1) by (simp add: numeral_2_eq_2)
  moreover have "fsim_turn H ((on 1 s)\<lparr>fp_busy := True\<rparr>) = (on 2 s)\<lparr>fp_busy := True\<rparr>"
    using assms(1) turn_still [of 0 "(on 1 s)\<lparr>fp_busy := True\<rparr>" H] still_on(1) [of 1 1 s] by (simp add: still_def on_def numeral_2_eq_2)
  ultimately show ?thesis
    using assms(2,3) by (simp add: f_claim_def fsim_page_def fsim_wr_def wr_claim_def rd_registers stamped del: bit_0 drop_bit_or)
qed

lemma release_still: "still 1 s \<Longrightarrow> f_release (fsim_page H) s = (on 1 s)\<lparr>fp_busy := False\<rparr>"
  using turn_still [of 0 s H] by (simp add: f_release_def fsim_page_def fsim_wr_def wr_claim_def)

lemma handles_still:
  assumes "still 1 s" "fp_enabled s" "e = fp_epoch s" "n < 256"
  shows "f_handles (fsim_page H) e n s = (on 1 s)\<lparr>fp_staged := of_nat n, fp_have_staged := True\<rparr>"
  unfolding f_handles_def fsim_page_def fsim_wr_def wr_handles_def
  using turn_still [of 0 s H] assms(1-3) by (simp only: qfd_page.simps Let_def handles_word [OF assms(4)]) simp

lemma complete_still:
  assumes "still 2 s" "fsim_work s" "e = fp_epoch s" "i = fp_resp_prod s" "fp_have_staged s" "unat (fp_rl s) \<le> 8"
  shows "f_complete (fsim_page H) e (i + 1) s =
    (on 2 s)\<lparr>fp_dirty := False, fp_resp_prod := i + 1, fp_handles := fp_staged s, fp_have_staged := False\<rparr>"
proof -
  have t: "fsim_turn H s = on 1 s" using turn_still [of 1 s] assms(1) by (simp add: numeral_2_eq_2)
  have t2: "fsim_turn H ((on 1 s)\<lparr>fp_dirty := False\<rparr>) = (on 2 s)\<lparr>fp_dirty := False\<rparr>"
    using assms(1) turn_still [of 0 "(on 1 s)\<lparr>fp_dirty := False\<rparr>" H] still_on(1) [of 1 1 s] by (simp add: still_def on_def numeral_2_eq_2)
  have w: "fp_enabled s" "fp_cmd_prod s \<noteq> fp_resp_prod s" "unat (fp_resp_prod s - fp_resp_cons s) < 2 ^ unat (fp_rl s)"
    using assms(2) by (simp_all add: fsim_work_def)
  note c = completion_taken [OF w(2,3) assms(6)]
  show ?thesis
    unfolding f_complete_def fsim_page_def fsim_wr_def wr_complete_def qfd_page.simps t t2 Let_def stamped
    using c w(1) assms(3-5) by simp
qed

text \<open>The rings as the page keeps them.\<close>

definition rings_kept :: "'w fsim \<Rightarrow> bool" where
  "rings_kept s \<longleftrightarrow> fp_cb s AND QFD_ADDRESS = fp_cb s \<and> fp_cl s AND 0xF = fp_cl s \<and> fp_rb s AND QFD_ADDRESS = fp_rb s \<and> fp_rl s AND 0xF = fp_rl s"

lemma still_none: "fp_script s = [] \<Longrightarrow> still k s" "fp_script s = [] \<Longrightarrow> on k s = s"
  by (simp_all add: still_def on_def)

lemma execute_beside:
  assumes "confined H m good" "device_good m good (d, fp_host s)" "fp_script s = []" "fp_busy s"
    and "qfd_execute (paged H) cmd_at resp_at d s = (d', t)"
  obtains w b where "t = s\<lparr>fp_host := w, fp_dirty := b\<rparr>" "device_good m good (d', w)"
proof -
  let ?Q = "\<lambda>t. \<exists>w b. t = s\<lparr>fp_host := w, fp_dirty := b\<rparr>"
  have "?Q (touch k (fsim_turn H t))" if q: "?Q t" for k t
  proof -
    obtain w b where t: "t = s\<lparr>fp_host := w, fp_dirty := b\<rparr>" using q by blast
    have "touch k (fsim_turn H t) = s\<lparr>fp_host := w, fp_dirty := (k \<noteq> 0 \<or> b)\<rparr>"
      using assms(3,4) by (simp add: t touch_def fsim_turn_def Let_def)
    then show ?thesis by blast
  qed
  moreover have "?Q (t\<lparr>fp_host := w\<rparr>)" if q: "?Q t" for t w
  proof -
    obtain v b where "t = s\<lparr>fp_host := v, fp_dirty := b\<rparr>" using q by blast
    then have "t\<lparr>fp_host := w\<rparr> = s\<lparr>fp_host := w, fp_dirty := b\<rparr>" by simp
    then show ?thesis by blast
  qed
  ultimately have c: "confined (paged H) m (\<lambda>S t. good S (fp_host t) \<and> ?Q t)"
    by (rule confined.paged_confined [OF assms(1), rotated])
  have "?Q s" by (intro exI [of _ "fp_host s"] exI [of _ "fp_dirty s"]) simp
  then have "device_good m (\<lambda>S t. good S (fp_host t) \<and> ?Q t) (d', t)"
    using confined.execute_kept [OF c, of d s cmd_at resp_at] assms(2,5) by (simp add: device_good_def)
  then show ?thesis using that by (auto simp: device_good_def)
qed

lemma served_still:
  assumes "confined H m good" "device_good m good (d, fp_host s)" "fp_script s = []" "fsim_work s" "page_ok H s" "rings_kept s"
    and "qfd_execute (paged H) (slot_at (fp_cb s) (fp_cl s) (fp_resp_prod s)) (slot_at (fp_rb s) (fp_rl s) (fp_resp_prod s)) d (s\<lparr>fp_busy := True\<rparr>) = (d', t)"
  shows "claim_and_serve (paged H) (fsim_page H) (view s) g d s =
    (1, g, d', s\<lparr>fp_host := fp_host t, fp_dirty := False, fp_resp_prod := fp_resp_prod s + 1, fp_handles := of_nat (qfd_handles_open d'),
                fp_staged := of_nat (qfd_handles_open d'), fp_have_staged := False, fp_busy := False\<rparr>)"
proof -
  let ?s = "s\<lparr>fp_busy := True\<rparr>" and ?n = "qfd_handles_open d'"
  obtain w b where t: "t = ?s\<lparr>fp_host := w, fp_dirty := b\<rparr>" "device_good m good (d', w)"
    by (rule execute_beside [OF assms(1) _ _ _ assms(7)]) (use assms(2,3) in simp_all)
  have on: "fp_enabled s" using assms(4) by (simp add: fsim_work_def)
  have fits: "ring_fits H (fp_cb s) (fp_cl s)" "ring_fits H (fp_rb s) (fp_rl s)" using assms(5) on by (simp_all add: page_ok_def)
  have rl: "unat (fp_rl s) \<le> 8" using fits(2) by (simp add: ring_fits_def word_le_nat_alt)
  have n: "?n < 256" using handles_below [of m d'] t(2) by (simp add: device_good_def)
  have fs: "f_state (fsim_page H) x = (view x, x)" if "fp_script x = []" for x
    using f_state_still [of x H] that by (simp add: still_none)
  have v: "ps_work (view x) = fsim_work x" "ps_epoch (view x) = fp_epoch x" "ps_resp_prod (view x) = (if fp_enabled x then fp_resp_prod x else 0)"
      "ps_cmd_base (view x) = fp_cb x AND QFD_ADDRESS" "ps_cmd_log2 (view x) = fp_cl x AND 0xF" "ps_resp_base (view x) = fp_rb x AND QFD_ADDRESS"
      "ps_resp_log2 (view x) = fp_rl x AND 0xF" for x :: "'a fsim"
    by (simp_all add: view_def)
  have wk: "fsim_work t" "fp_epoch t = fp_epoch s" "fp_script t = []" "fp_resp_prod t = fp_resp_prod s" "fp_enabled t" "fp_rl t = fp_rl s"
    using t(1) assms(3,4) on by simp_all
  have cl: "f_claim (fsim_page H) (fp_epoch s) s = (True, ?s)"
    using claim_still [of s "fp_epoch s" H] assms(3) on by (simp add: still_none)
  have h: "f_handles (fsim_page H) (fp_epoch s) ?n t = t\<lparr>fp_staged := of_nat ?n, fp_have_staged := True\<rparr>"
    using handles_still [of t "fp_epoch s" ?n H] wk n by (simp add: still_none)
  let ?t = "t\<lparr>fp_staged := of_nat ?n, fp_have_staged := True\<rparr>"
  let ?p = "t\<lparr>fp_staged := of_nat ?n, fp_dirty := False, fp_resp_prod := fp_resp_prod s + 1, fp_handles := of_nat ?n, fp_have_staged := False\<rparr>"
  have c: "f_complete (fsim_page H) (fp_epoch s) (fp_resp_prod s + 1) ?t = ?p"
  proof -
    have "still 2 ?t" "on 2 ?t = ?t" using wk(3) by (simp_all add: still_none)
    moreover have "fsim_work ?t" using wk(1) unfolding fsim_work_def by simp
    moreover have "fp_epoch s = fp_epoch ?t" using wk(2) unfolding fp_epoch_def by simp
    moreover have "fp_resp_prod s = fp_resp_prod ?t" "fp_have_staged ?t" "unat (fp_rl ?t) \<le> 8" using wk rl by simp_all
    ultimately have "f_complete (fsim_page H) (fp_epoch s) (fp_resp_prod s + 1) ?t =
        ?t\<lparr>fp_dirty := False, fp_resp_prod := fp_resp_prod s + 1, fp_handles := fp_staged ?t, fp_have_staged := False\<rparr>"
      using complete_still [of ?t "fp_epoch s" "fp_resp_prod s" H] by (simp only:)
    then show ?thesis by simp
  qed
  have r: "f_release (fsim_page H) ?p = ?p\<lparr>fp_busy := False\<rparr>"
    using release_still [of ?p H] wk by (simp add: still_none)
  have pub: "publish (paged H) (fsim_page H) (fp_epoch s) (fp_resp_prod s) g d' t = (1, g, d', ?p\<lparr>fp_busy := False\<rparr>)"
    unfolding publish_def using fs [of t] fs [of ?p] v h c r wk by (simp add: Let_def)
  have "serve (paged H) (fsim_page H) (fp_epoch s) g d ?s = (1, g, d', ?p\<lparr>fp_busy := False\<rparr>)"
    unfolding serve_def using fs [of ?s] v assms(3,4,6,7) fits on pub by (simp add: Let_def rings_kept_def ring_fits_def)
  then show ?thesis
    unfolding claim_and_serve_def using v assms(4) cl by (simp add: t(1))
qed

text \<open>A device enabled on the model's host with a ring of two commands and one of a response, and a command posted.\<close>

definition wit_page :: "u16 \<Rightarrow> u16 \<Rightarrow> u8 list \<Rightarrow> fmove list list \<Rightarrow> mfs fsim" where
  "wit_page cmd_prod resp_prod mem script =
     \<lparr>fp_host = wit_host\<lparr>mf_mem := mem\<rparr>, fp_enabled = True, fp_ie = False, fp_busy = False, fp_refused = False, fp_disables = 0,
      fp_cb = 0, fp_cl = 1, fp_rb = 16, fp_rl = 0, fp_cmd_prod = cmd_prod, fp_resp_prod = resp_prod, fp_resp_cons = resp_prod,
      fp_handles = 0, fp_staged = 0, fp_have_staged = False, fp_rtc_sec = 0, fp_rtc_frac = 0, fp_rtc_stage = 0, fp_dirty = False,
      fp_script = script, fp_bad = []\<rparr>"

lemma wit_fits: "ring_fits (mfs_host pid 32) 0 1" "ring_fits (mfs_host pid 32) 16 0"
  by (simp_all add: ring_fits_def)

lemma wit_memory: "device_good wit_mounts (untouched wit_host wit_mounts) (wit_device, wit_host\<lparr>mf_mem := mem\<rparr>)"
  using wit_good by (simp add: device_good_def untouched_mem)

lemma wit_page_ready:
  "fsim_work (wit_page 1 0 mem [])" "page_ok (mfs_host 1 32) (wit_page c p mem x)" "rings_kept (wit_page c p mem x)" "unsaid (wit_page c p mem x)"
  by (simp_all add: wit_page_def fsim_work_def page_ok_def wit_fits rings_kept_def unsaid_def)



text \<open>The first step of a program: the epoch is new to it, so it forgets its handles and goes on.\<close>

lemma first_step_still:
  assumes "confined H m good" "device_good m good (d, fp_host s)" "fp_script s = []" "fsim_work s" "page_ok H s" "rings_kept s" "\<not> gr_seen g"
  obtains d' s' where "qfd_ring_step (paged H) (fsim_page H) g d s = (1, g\<lparr>gr_epoch := fp_epoch s, gr_seen := True\<rparr>, d', s')"
    "fp_resp_prod s' = fp_resp_prod s + 1" "fp_disables s' = fp_disables s" "fp_enabled s'"
proof -
  obtain d1 s1 where rs: "qfd_reset (paged H) d s = (d1, s1)" by fastforce
  obtain w where w: "s1 = s\<lparr>fp_host := w\<rparr>" "device_good m good (d1, w)" using confined.reset_sound [OF assms(1,2) rs] .
  let ?t = "s1\<lparr>fp_staged := of_nat 0, fp_have_staged := True\<rparr>"
  have on: "fp_enabled s" using assms(4) by (simp add: fsim_work_def)
  have t: "f_handles (fsim_page H) (fp_epoch s) 0 s1 = ?t"
    using handles_still [of s1 "fp_epoch s" 0 H] assms(3) on by (simp add: w(1) still_none)
  have k: "fp_script ?t = []" "fsim_work ?t" "page_ok H ?t" "rings_kept ?t" "device_good m good (d1, fp_host ?t)"
    using assms(3-6) w on by (simp_all add: fsim_work_def page_ok_def rings_kept_def)
  have v: "view ?t = view s" by (simp add: view_def w(1) fsim_work_def fp_epoch_def)
  let ?g = "g\<lparr>gr_epoch := fp_epoch s, gr_seen := True\<rparr>"
  obtain d' t' where "qfd_execute (paged H) (slot_at (fp_cb ?t) (fp_cl ?t) (fp_resp_prod ?t)) (slot_at (fp_rb ?t) (fp_rl ?t) (fp_resp_prod ?t)) d1 (?t\<lparr>fp_busy := True\<rparr>) = (d', t')"
    by fastforce
  note c = served_still [OF assms(1) k(5,1-4) this, of ?g, unfolded v]
  have "qfd_ring_step (paged H) (fsim_page H) g d s = claim_and_serve (paged H) (fsim_page H) (view s) ?g d1 ?t"
    using f_state_still [of s H] rs t assms(3,7) by (simp add: qfd_ring_step_def still_none view_def)
  then show ?thesis using that c on by (simp add: w(1))
qed

theorem file_ring_keeps_rules_witness:
  "\<exists>g d s. reach (file_start (mfs_host 1 32) wit_mounts (untouched wit_host wit_mounts)) (file_round (mfs_host 1 32)) (1, 0, g, d, s) \<and>
     fp_resp_prod s = 1 \<and> fp_bad s = [] \<and> \<not> fp_busy s \<and> fp_handles s = of_nat (qfd_handles_open d)"
proof -
  let ?s = "wit_page 1 0 (replicate 160 0) []" and ?H = "mfs_host 1 32" and ?good = "untouched wit_host wit_mounts"
  have good: "device_good wit_mounts ?good (wit_device, fp_host ?s)" using wit_memory by (simp add: wit_page_def)
  have f: "fp_script ?s = []" "\<not> gr_seen qfd_ring_init" "fp_resp_prod ?s = 0" "fp_disables ?s = 0" "fp_bad ?s = []" "\<not> fp_busy ?s"
    by (simp_all add: wit_page_def qfd_ring_init_def)
  obtain d s where st: "qfd_ring_step (paged ?H) (fsim_page ?H) qfd_ring_init wit_device ?s =
        (1, qfd_ring_init\<lparr>gr_epoch := fp_epoch ?s, gr_seen := True\<rparr>, d, s)"
      "fp_resp_prod s = fp_resp_prod ?s + 1" "fp_disables s = fp_disables ?s" "fp_enabled s"
    by (rule first_step_still [OF mfs.confined_axioms good f(1) wit_page_ready(1-3) f(2)])
  let ?g = "qfd_ring_init\<lparr>gr_epoch := fp_epoch ?s, gr_seen := True\<rparr>"
  have "file_start ?H wit_mounts ?good (0, 0, qfd_ring_init, wit_device, ?s)"
    using good f wit_page_ready by (simp add: file_start_def)
  moreover have "file_round ?H (0, 0, qfd_ring_init, wit_device, ?s) (1, 0, ?g, d, s)"
  proof -
    have "qfd_ring_clock (fsim_page ?H) (- 1) 0 qfd_ring_init (?s\<lparr>fp_script := []\<rparr>) = (qfd_ring_init, ?s)"
      by (simp add: qfd_ring_clock_def qfd_ring_init_def wit_page_def)
    then show ?thesis using st(1,3) f(4) unfolding file_round_def
      by (simp del: One_nat_def) (rule exI [of _ "[]"], rule exI [of _ "- 1"], rule exI [of _ 0], simp del: One_nat_def)
  qed
  ultimately have r: "reach (file_start ?H wit_mounts ?good) (file_round ?H) (1, 0, ?g, d, s)" by (blast intro: reach.intros)
  have "gr_epoch ?g = fp_epoch s" using st(3) by (simp add: fp_epoch_def)
  then show ?thesis
    using file_ring_keeps_rules [OF mfs.confined_axioms r] r st(2,4) f(3) by auto
qed

section \<open>A torn reading of the page\<close>

text \<open>
  The page is read register by register.  A disable after the first of the eight leaves the old epoch
  beside an index of 0.
\<close>

lemma f_state_torn:
  assumes "fp_script s = [[], [Disable]]" "fp_enabled s"
  obtains u where "f_state (fsim_page H) s = (u, fsim_disable (s\<lparr>fp_script := []\<rparr>))" "ps_epoch u = fp_epoch s" "ps_resp_prod u = 0"
proof -
  let ?t = "fsim_disable (s\<lparr>fp_script := []\<rparr>)"
  have t: "fsim_turn H s = s\<lparr>fp_script := [[Disable]]\<rparr>" "fsim_turn H (s\<lparr>fp_script := [[Disable]]\<rparr>) = ?t" "fsim_turn H ?t = ?t"
    using assms by (simp_all add: fsim_turn_def fsim_disable_def)
  have e: "\<not> fp_enabled ?t" using assms(2) by (simp add: fsim_disable_def)
  have "snd (f_state (fsim_page H) s) = ?t" "ps_epoch (fst (f_state (fsim_page H) s)) = fp_epoch s" "ps_resp_prod (fst (f_state (fsim_page H) s)) = 0"
    unfolding f_state_def fsim_page_def qfd_page.simps rd_registers prod.case t using e by (simp_all add: fsim_state_bits)
  then show ?thesis using that by (metis prod.collapse)
qed

text \<open>
  C40. A completion taken may be read as refused.  With the command done and the machine still until the
  completion is in, a disable between the reading of the state and that of the response producer
  makes the step fail with an index of 0 read: the program stops, although the page took the completion and
  the disable was the machine's to make.\<close>

theorem torn_page_read:
  assumes "fsim_work s" "fp_busy s" "page_ok H s" "device_ok m d" "fp_script s = replicate 12 [] @ [[Disable]]" "fp_resp_prod s \<noteq> - 1"
  shows "let e = fp_epoch s; i = fp_resp_prod s; P = fsim_page H;
             t = f_complete P e (i + 1) (f_handles P e (qfd_handles_open d) (snd (f_state P s)))
         in fp_resp_prod t = i + 1 \<and> fp_refused t = fp_refused s \<and>
            publish (paged H) P e i g d s =
              (- 1, g\<lparr>gr_said := gr_said g @ [Not_taken i 0]\<rparr>, d, (fsim_disable (t\<lparr>fp_script := []\<rparr>))\<lparr>fp_busy := False\<rparr>)"
proof -
  let ?P = "fsim_page H" and ?e = "fp_epoch s" and ?i = "fp_resp_prod s" and ?n = "qfd_handles_open d"
  have on: "fp_enabled s" using assms(1) by (simp add: fsim_work_def)
  have rl: "unat (fp_rl s) \<le> 8" using assms(3) on by (simp add: page_ok_def ring_fits_def word_le_nat_alt)
  have n: "?n < 256" using handles_below [OF assms(4)] .
  have st: "still k (on j s)" if "j + k \<le> 12" for j k
    using that by (simp add: still_def on_def assms(5) list_all_iff drop_append take_append)
  define h where "h = (on 9 s)\<lparr>fp_staged := of_nat ?n, fp_have_staged := True\<rparr>"
  define t where "t = (on 2 h)\<lparr>fp_dirty := False, fp_resp_prod := ?i + 1, fp_handles := fp_staged h, fp_have_staged := False\<rparr>"
  have f1: "f_state ?P s = (view s, on 8 s)" using f_state_still [of s H] st [of 0 8] by (simp add: on_def)
  have f2: "f_handles ?P ?e ?n (on 8 s) = h"
    using handles_still [of "on 8 s" ?e ?n H] st [of 8 1] on n by (simp add: still_on(2) h_def)
  have f3: "f_complete ?P ?e (?i + 1) h = t" unfolding t_def
  proof (rule complete_still)
    show "still 2 h" using st [of 9 2] by (simp add: h_def still_def)
    show "fsim_work h" using assms(1) by (simp add: h_def fsim_work_def)
  qed (use rl in \<open>simp_all add: h_def fp_epoch_def\<close>)
  have ts: "fp_script t = [[], [Disable]]" "fp_enabled t" "fp_epoch t = ?e" "fp_resp_prod t = ?i + 1" "fp_refused t = fp_refused s"
    using on by (simp_all add: t_def h_def on_def assms(5) fp_epoch_def)
  obtain u where u: "f_state ?P t = (u, fsim_disable (t\<lparr>fp_script := []\<rparr>))" "ps_epoch u = fp_epoch t" "ps_resp_prod u = 0"
    using f_state_torn [OF ts(1,2)] .
  have r: "f_release ?P (fsim_disable (t\<lparr>fp_script := []\<rparr>)) = (fsim_disable (t\<lparr>fp_script := []\<rparr>))\<lparr>fp_busy := False\<rparr>"
    using release_still [of "fsim_disable (t\<lparr>fp_script := []\<rparr>)" H] by (simp add: fsim_disable_def still_none ts(2))
  have "?i + 1 \<noteq> 0" using assms(6) by (metis add_eq_0_iff2)
  moreover have "ps_epoch (view s) = ?e" by (simp add: view_def)
  ultimately show ?thesis
    using f1 f2 f3 u r ts unfolding publish_def Let_def by simp
qed

theorem torn_page_read_witness:
  "\<exists>g s. publish (paged (mfs_host 1 32)) (fsim_page (mfs_host 1 32)) 0 0 qfd_ring_init wit_device
      ((wit_page 1 0 [] (replicate 12 [] @ [[Disable]]))\<lparr>fp_busy := True\<rparr>) = (- 1, g, wit_device, s) \<and> \<not> fp_refused s"
proof -
  let ?s = "(wit_page 1 0 [] (replicate 12 [] @ [[Disable]]))\<lparr>fp_busy := True\<rparr>"
  have "fsim_work ?s" "fp_busy ?s" "page_ok (mfs_host 1 32) ?s" "fp_script ?s = replicate 12 [] @ [[Disable]]" "fp_resp_prod ?s \<noteq> - 1"
    using wit_page_ready by (simp_all add: wit_page_def fsim_work_def page_ok_def wit_fits)
  moreover have "device_ok wit_mounts wit_device" using wit_good by (simp add: device_good_def)
  moreover have "fp_epoch ?s = 0" "fp_resp_prod ?s = 0" "fp_refused ?s = False" by (simp_all add: wit_page_def fp_epoch_def)
  ultimately show ?thesis
    using torn_page_read [of ?s "mfs_host 1 32" wit_mounts wit_device qfd_ring_init] by (simp add: Let_def fsim_disable_def)
qed

end
