(* ===== verification/Qfd_Directory.thy ===== *)
theory Qfd_Directory
  imports Qfd_Model
begin

text \<open>
  Bytes in the machine's buffers, and directories: what DIRECTORY puts there, a buffer at a time, is
  every entry once and in order.
\<close>

unbundle bit_operations_syntax

section \<open>Bytes in words\<close>

definition words_of_text :: "u8 list \<Rightarrow> u32 list" where
  "words_of_text data = map (word_of data) [0..<(length data + 3) div 4]"

definition padded :: "u8 list \<Rightarrow> u8 list" where
  "padded data = data @ replicate (4 * ((length data + 3) div 4) - length data) 0"

lemma word_of_padded:
  assumes "i < (length data + 3) div 4"
  shows "word_of data i = le32 (padded data ! (4 * i)) (padded data ! (4 * i + 1)) (padded data ! (4 * i + 2)) (padded data ! (4 * i + 3))"
proof -
  have p: "padded data ! j = (if j < length data then data ! j else 0)" if "j < 4 * ((length data + 3) div 4)" for j
    using that by (auto simp: padded_def nth_append)
  have i: "4 * i + 3 < 4 * ((length data + 3) div 4)" using assms by linarith
  have l: "4 * i < length data" using assms by linarith
  have u: "[0..<4] = [0, 1, 2, 3 :: nat]" by (simp add: upt_rec)
  show ?thesis
    using i l by (simp add: word_of_def u le32_def p or.assoc)
qed

lemma text_words [simp]: "take (length data) (bytes_of_words (words_of_text data)) = data" "length (words_of_text data) = (length data + 3) div 4"
proof -
  let ?n = "(length data + 3) div 4"
  have "words_of_text data = words_of_bytes ?n (padded data)"
    by (rule nth_equalityI) (auto simp: words_of_text_def words_of_bytes_def word_of_padded)
  moreover have "length (padded data) = 4 * ?n" by (simp add: padded_def)
  ultimately have "bytes_of_words (words_of_text data) = padded data" by (simp add: bytes_of_words_of_bytes)
  then show "take (length data) (bytes_of_words (words_of_text data)) = data" by (simp add: padded_def)
qed (simp add: words_of_text_def)

section \<open>A directory record\<close>

text \<open>What the machine reads of a record: its length in words, and the entry.\<close>

record shown =
  sh_name :: cstr
  sh_dir :: bool
  sh_ro :: bool
  sh_len :: u32
  sh_mtime :: u32

definition shown_of :: "entry \<Rightarrow> shown" where
  "shown_of e = \<lparr>sh_name = en_name e, sh_dir = en_dir e, sh_ro = en_ro e, sh_len = r_len (en_len e), sh_mtime = en_mtime e\<rparr>"

definition read_record :: "u32 list \<Rightarrow> nat \<times> shown" where
  "read_record r =
     (unat (drop_bit 8 (r ! 0) AND 0xFF),
      \<lparr>sh_name = take (unat (r ! 0 AND 0xFF)) (bytes_of_words (drop 3 (take (unat (drop_bit 8 (r ! 0) AND 0xFF)) r))),
       sh_dir = bit (r ! 0) 16, sh_ro = bit (r ! 0) 17, sh_len = r ! 1, sh_mtime = r ! 2\<rparr>)"

lemma dir_record_words: "length (dir_record e) = 3 + (length (en_name e) + 3) div 4"
  by (simp add: dir_record_def Let_def)

lemma read_record_words:
  assumes "unat (w AND 0xFF) = length nm" "unat (drop_bit 8 w AND 0xFF) = 3 + (length nm + 3) div 4"
  shows "read_record (w # l # t # words_of_text nm @ r) =
    (3 + (length nm + 3) div 4, \<lparr>sh_name = nm, sh_dir = bit w 16, sh_ro = bit w 17, sh_len = l, sh_mtime = t\<rparr>)"
  unfolding read_record_def nth_Cons_0 assms by (simp add: drop_take)

lemma record_header:
  fixes n k d r t :: u32
  assumes n: "\<And>j. 8 \<le> j \<Longrightarrow> \<not> bit n j" and k: "\<And>j. 8 \<le> j \<Longrightarrow> \<not> bit k j"
    and d: "\<And>j. bit d j \<longleftrightarrow> D \<and> j = 16" and r: "\<And>j. bit r j \<longleftrightarrow> R \<and> j = 17" and t: "\<And>j. bit t j \<longleftrightarrow> T \<and> j = 18"
  shows "(n OR push_bit 8 k OR d OR r OR t) AND 0xFF = n" "drop_bit 8 (n OR push_bit 8 k OR d OR r OR t) AND 0xFF = k"
    "bit (n OR push_bit 8 k OR d OR r OR t) 16 = D" "bit (n OR push_bit 8 k OR d OR r OR t) 17 = R"
proof -
  have m: "(0xFF :: u32) = mask 8" by (simp add: mask_eq_exp_minus_1)
  show "(n OR push_bit 8 k OR d OR r OR t) AND 0xFF = n"
    unfolding m by (rule bit_word_eqI) (use n in \<open>auto simp: bit_simps d r t not_less [symmetric]\<close>)
  show "drop_bit 8 (n OR push_bit 8 k OR d OR r OR t) AND 0xFF = k"
    unfolding m by (rule bit_word_eqI) (use n k in \<open>auto simp: bit_simps d r t not_less [symmetric] dest: bit_imp_le_length\<close>)
  show "bit (n OR push_bit 8 k OR d OR r OR t) 16 = D" "bit (n OR push_bit 8 k OR d OR r OR t) 17 = R"
    using n k by (simp_all add: bit_simps d r t)
qed

lemma read_dir_record:
  assumes "length (en_name e) \<le> 255"
  shows "read_record (dir_record e @ r) = (length (dir_record e), shown_of e)"
proof -
  let ?n = "length (en_name e)" and ?k = "3 + (length (en_name e) + 3) div 4"
  have kb: "?k \<le> 67" using assms by simp
  have n: "unat (of_nat ?n :: u32) = ?n" using assms by (intro of_nat_inverse [OF refl]) simp
  have k: "unat (of_nat ?k :: u32) = ?k" using kb by (intro of_nat_inverse [OF refl]) simp
  have f: "bit (if b then push_bit i 1 else 0 :: u32) j \<longleftrightarrow> b \<and> j = i" if "i < 32" for b i j
    using that by (auto simp: bit_exp_iff)
  let ?w = "of_nat ?n OR push_bit 8 (of_nat ?k) OR (if en_dir e then push_bit 16 1 else 0) OR (if en_ro e then push_bit 17 1 else 0)
            OR (if 0xFFFFFFFF < en_len e then push_bit 18 1 else 0) :: u32"
  have bn: "\<not> bit (of_nat ?n :: u32) j" if "8 \<le> j" for j by (rule small_bits [of _ 8]) (use that n assms in simp_all)
  have bk: "\<not> bit (of_nat ?k :: u32) j" if "8 \<le> j" for j by (rule small_bits [of _ 8]) (use that kb in \<open>simp_all only: k\<close>, simp)
  have f3: "(16 :: nat) < 32" "(17 :: nat) < 32" "(18 :: nat) < 32" by simp_all
  note h = record_header [OF bn bk f [OF f3(1)] f [OF f3(2)] f [OF f3(3)]]
  have r: "dir_record e = ?w # r_len (en_len e) # en_mtime e # words_of_text (en_name e)"
    by (simp add: dir_record_def Let_def words_of_text_def r_len_def)
  have "read_record (?w # r_len (en_len e) # en_mtime e # words_of_text (en_name e) @ r) = (?k, shown_of e)"
    unfolding shown_of_def by (subst read_record_words) (simp_all only: h n k)
  then show ?thesis unfolding r by simp
qed

function read_records :: "u32 list \<Rightarrow> shown list" where
  "read_records rs =
     (if rs = [] \<or> fst (read_record rs) = 0 then [] else snd (read_record rs) # read_records (drop (fst (read_record rs)) rs))"
  by auto
termination by (relation "measure length") auto

declare read_records.simps [simp del]

definition records :: "entry list \<Rightarrow> u32 list" where
  "records es = concat (map dir_record es)"

lemma read_records_of:
  assumes "list_all (\<lambda>e. length (en_name e) \<le> 255) es"
  shows "read_records (records es) = map shown_of es"
  using assms
proof (induction es)
  case Nil
  show ?case by (simp add: records_def read_records.simps)
next
  case (Cons e es)
  have r: "records (e # es) = dir_record e @ records es" by (simp add: records_def)
  have "read_record (records (e # es)) = (length (dir_record e), shown_of e)"
    unfolding r by (rule read_dir_record) (use Cons.prems in simp)
  moreover have "length (dir_record e) \<noteq> 0" by (simp add: dir_record_words)
  ultimately show ?case
    using Cons by (subst read_records.simps) (simp add: r)
qed

section \<open>A buffer of records\<close>

lemma mem_read_none [simp]: "qed_mem_read b k 0 = []"
  by (subst qed_mem_read.simps) simp

lemma mem_read_append:
  assumes "5 * (k + u + v) \<le> length b"
  shows "qed_mem_read b k (u + v) = qed_mem_read b k u @ qed_mem_read b (k + u) v"
  using assms upt_add_eq_append [of k "k + u" v] by (simp add: qed_mem_read_eq add.assoc)

lemma mem_read_write:
  assumes "5 * (k + length ws) \<le> length b"
  shows "qed_mem_read (qed_mem_write b k ws) k (length ws) = ws"
  by (rule packed.rd_wr_same) (use assms in \<open>simp add: mem_words_def less_eq_div_iff_mult_less_eq\<close>)

lemma mem_read_apart:
  assumes "5 * (k + length ws) \<le> length b" "5 * (j + n) \<le> length b" "j + n \<le> k \<or> k + length ws \<le> j"
  shows "qed_mem_read (qed_mem_write b k ws) j n = qed_mem_read b j n"
  by (rule packed.rd_wr_apart) (use assms in \<open>simp_all add: mem_words_def less_eq_div_iff_mult_less_eq\<close>)

text \<open>
  What \<open>dir_records\<close> leaves: the records of the entries from one on, as many as fit, after the words
  used already, and the memory outside the buffer as it was.
\<close>

definition page_of :: "nat \<times> nat \<Rightarrow> entry list \<Rightarrow> nat \<Rightarrow> nat \<Rightarrow> mfs \<Rightarrow> nat \<times> nat \<times> mfs \<Rightarrow> bool" where
  "page_of b es used k w r \<longleftrightarrow>
     (case r of (used', k', w') \<Rightarrow>
        k \<le> k' \<and> k' \<le> length es \<and> used' = used + length (records (take (k' - k) (drop k es))) \<and> 4 * used' \<le> snd b \<and>
        (k' < length es \<longrightarrow> snd b < 4 * (used' + length (dir_record (es ! k')))) \<and>
        w' = w\<lparr>mf_mem := mf_mem w'\<rparr> \<and> length (mf_mem w') = length (mf_mem w) \<and>
        qed_mem_read (mf_mem w') (fst b) used' = qed_mem_read (mf_mem w) (fst b) used @ records (take (k' - k) (drop k es)) \<and>
        (\<forall>j n. 5 * (j + n) \<le> length (mf_mem w) \<and> (j + n \<le> fst b \<or> fst b + (snd b + 3) div 4 \<le> j) \<longrightarrow>
           qed_mem_read (mf_mem w') j n = qed_mem_read (mf_mem w) j n))"

lemma page_step:
  assumes "k < length es" "4 * (used + length (dir_record (es ! k))) \<le> snd b" "5 * (fst b + (snd b + 3) div 4) \<le> length (mf_mem w)"
    and "page_of b es (used + length (dir_record (es ! k))) (k + 1)
           (w\<lparr>mf_mem := qed_mem_write (mf_mem w) (fst b + used) (dir_record (es ! k))\<rparr>) r"
  shows "page_of b es used k w r"
proof -
  let ?e = "dir_record (es ! k)" and ?W = "qed_mem_write (mf_mem w) (fst b + used) (dir_record (es ! k))"
  obtain u' k' w' where r: "r = (u', k', w')" by (metis prod_cases3)
  have t: "take (k' - k) (drop k es) = es ! k # take (k' - Suc k) (drop (Suc k) es)" if "Suc k \<le> k'"
    using that assms(1) by (metis Cons_nth_drop_Suc Suc_diff_Suc Suc_le_lessD take_Suc_Cons)
  have m: "qed_mem_read ?W (fst b) (used + length ?e) = qed_mem_read (mf_mem w) (fst b) used @ ?e"
    using assms(2,3) by (subst mem_read_append) (auto simp: mem_read_write mem_read_apart)
  have a: "qed_mem_read ?W j n = qed_mem_read (mf_mem w) j n"
    if "5 * (j + n) \<le> length (mf_mem w)" "j + n \<le> fst b \<or> fst b + (snd b + 3) div 4 \<le> j" for j n
    by (rule mem_read_apart) (use that assms(2,3) in auto)
  show ?thesis
    using assms(4) unfolding page_of_def r
    by (auto simp: t m a records_def)
qed

lemma dir_records_page:
  assumes "4 * used \<le> snd b" "5 * (fst b + (snd b + 3) div 4) \<le> length (mf_mem w)" "k \<le> length es"
  shows "page_of b es used k w (dir_records (mfs_host pid words) b es used k w)"
  using assms
proof (induction "mfs_host pid words" b es used k w rule: dir_records.induct)
  case (1 b es used k w)
  show ?case
  proof (cases "k < length es \<and> \<not> snd b < (used + length (dir_record (es ! k))) * 4")
    case True
    then have "page_of b es (used + length (dir_record (es ! k))) (k + 1)
        (w\<lparr>mf_mem := qed_mem_write (mf_mem w) (fst b + used) (dir_record (es ! k))\<rparr>)
        (dir_records (mfs_host pid words) b es (used + length (dir_record (es ! k))) (k + 1)
          (w\<lparr>mf_mem := qed_mem_write (mf_mem w) (fst b + used) (dir_record (es ! k))\<rparr>))"
      using 1 by (auto simp: Let_def)
    then have "page_of b es used k w (dir_records (mfs_host pid words) b es (used + length (dir_record (es ! k))) (k + 1)
          (w\<lparr>mf_mem := qed_mem_write (mf_mem w) (fst b + used) (dir_record (es ! k))\<rparr>))"
      by (rule page_step [rotated 3]) (use True 1 in auto)
    then show ?thesis using True by (subst dir_records.simps) (simp add: Let_def)
  next
    case False
    then have "dir_records (mfs_host pid words) b es used k w = (used, k, w)"
      by (subst dir_records.simps) (auto simp: Let_def)
    then show ?thesis using 1 False by (auto simp: page_of_def records_def)
  qed
qed

section \<open>Looking at the host\<close>

text \<open>Listing changes nothing and does not look at memory.\<close>

lemma looks [simp]:
  "m_lstat p (w\<lparr>mf_mem := M\<rparr>) = m_lstat p w" "m_realpath p (w\<lparr>mf_mem := M\<rparr>) = m_realpath p w" "m_list p (w\<lparr>mf_mem := M\<rparr>) = m_list p w"
  by (simp_all add: m_lstat_def m_realpath_def m_list_def node_at_def children_def mfs_stat_def cong: node.case_cong option.case_cong)

lemma stat_looks [simp]: "m_stat p (w\<lparr>mf_mem := M\<rparr>) = m_stat p w"
  by (simp add: m_stat_def split: sum.split)

lemma exact_case_looks [simp]:
  "snd (exact_case (mfs_host pid words) dir name st w) = w"
  "fst (exact_case (mfs_host pid words) dir name st (w\<lparr>mf_mem := M\<rparr>)) = fst (exact_case (mfs_host pid words) dir name st w)"
  by (auto simp: exact_case_def Let_def case_prod_unfold split: sum.split)

lemma resolve_link_looks [simp]:
  "snd (resolve_link (mfs_host pid words) root fl here st w) = w"
  "fst (resolve_link (mfs_host pid words) root fl here st (w\<lparr>mf_mem := M\<rparr>)) = fst (resolve_link (mfs_host pid words) root fl here st w)"
  by (auto simp: resolve_link_def case_prod_unfold split: sum.split)

lemma walk_looks [simp]:
  "snd (walk (mfs_host pid words) root fl cur cs w) = w"
  "fst (walk (mfs_host pid words) root fl cur cs (w\<lparr>mf_mem := M\<rparr>)) = fst (walk (mfs_host pid words) root fl cur cs w)"
  by (induction cs arbitrary: cur) (simp_all add: Let_def case_prod_unfold split: sum.split resolved.split)

lemma lookup_looks [simp]:
  "snd (lookup (mfs_host pid words) p fl w) = w"
  "fst (lookup (mfs_host pid words) p fl (w\<lparr>mf_mem := M\<rparr>)) = fst (lookup (mfs_host pid words) p fl w)"
  by (simp_all add: lookup_def case_prod_unfold split: sum.split option.split)

lemma list_names_looks [simp]:
  "snd (list_names (mfs_host pid words) dir root ro names w) = w"
  "fst (list_names (mfs_host pid words) dir root ro names (w\<lparr>mf_mem := M\<rparr>)) = fst (list_names (mfs_host pid words) dir root ro names w)"
  by (induction names) (auto simp: Let_def case_prod_unfold split: sum.split)

lemma list_folder_looks [simp]:
  "snd (list_folder (mfs_host pid words) dir root ro w) = w"
  "fst (list_folder (mfs_host pid words) dir root ro (w\<lparr>mf_mem := M\<rparr>)) = fst (list_folder (mfs_host pid words) dir root ro w)"
  by (simp_all add: list_folder_def case_prod_unfold split: sum.split option.split)

lemma list_mounts_looks [simp]:
  "snd (list_mounts (mfs_host pid words) ms w) = w"
  "fst (list_mounts (mfs_host pid words) ms (w\<lparr>mf_mem := M\<rparr>)) = fst (list_mounts (mfs_host pid words) ms w)"
  by (induction ms) (auto simp: case_prod_unfold split_paired_all split: sum.split)

lemma list_at_looks:
  "snd (list_at (mfs_host pid words) m cs w) = w"
  "fst (list_at (mfs_host pid words) m cs (w\<lparr>mf_mem := M\<rparr>)) = fst (list_at (mfs_host pid words) m cs w)"
  by (simp_all add: list_at_def Let_def case_prod_unfold split: sum.split option.split)

section \<open>What is listed\<close>

text \<open>Every name that is listed is one the machine may give, and they are in order.\<close>

lemma entry_of_name [simp]: "en_name (entry_of n st ro) = n"
  by (simp add: entry_of_def Let_def)

lemma list_names_valid: "e \<in> set (fst (list_names H dir root ro names w)) \<Longrightarrow> valid_component (en_name e)"
  by (induction names arbitrary: w) (auto simp: Let_def case_prod_unfold split: if_splits option.splits)

lemma set_entries_sort [simp]: "set (entries_sort es) = set es"
  by (simp add: entries_sort_def)

lemma sorted_entries_sort: "sorted (map en_name (entries_sort es))"
  by (simp add: entries_sort_def)

lemma list_folder_valid:
  "list_folder H dir root ro w = (Inr es, w') \<Longrightarrow> sorted (map en_name es) \<and> (\<forall>e \<in> set es. valid_component (en_name e))"
  by (auto simp: list_folder_def case_prod_unfold sorted_entries_sort dest: list_names_valid split: prod.splits sum.splits option.splits)

lemma list_mounts_valid:
  assumes "list_mounts H ms w = (Inr es, w')" "list_all (valid_component \<circ> fst) ms"
  shows "\<forall>e \<in> set es. valid_component (en_name e)"
  using assms by (induction ms arbitrary: w w' es) (auto split: prod.splits sum.splits)

lemma list_at_valid:
  assumes "list_at H m cs w = (Inr es, w')" "list_all (valid_component \<circ> fst) (mo_named m)"
  shows "sorted (map en_name es) \<and> list_all (\<lambda>e. valid_component (en_name e)) es"
proof -
  have "\<forall>e \<in> set es. valid_component (en_name e)"
    using assms
    by (auto simp: list_at_def Let_def dest!: list_folder_valid list_mounts_valid [OF _ assms(2)] split: prod.splits sum.splits option.splits if_splits)
  moreover have "sorted (map en_name es)"
    using assms(1)
    by (auto simp: list_at_def Let_def sorted_entries_sort dest!: list_folder_valid split: prod.splits sum.splits option.splits if_splits)
  ultimately show ?thesis by (simp add: list_all_iff)
qed

section \<open>A whole directory\<close>

text \<open>The machine's loop: a buffer at a time, from the entry the last answer named, until it names none.\<close>

fun directory_all :: "nat \<Rightarrow> 'w host \<Rightarrow> u32 list \<Rightarrow> qfd \<Rightarrow> 'w \<Rightarrow> shown list option" where
  "directory_all 0 H c d w = None"
| "directory_all (Suc n) H c d w =
     (case cmd_directory H c d w of
        (Inl _, _) \<Rightarrow> None
      | (Inr r, w) \<Rightarrow>
          (case w_load H (unat (c ! 4 AND 0x0FFFFFFF)) (unat (rp_count r) div 4) w of (ws, w) \<Rightarrow>
             if rp_w6 r = 0 then Some (read_records ws)
             else map_option ((@) (read_records ws)) (directory_all n H (c[6 := rp_w6 r]) d w)))"

text \<open>The command's two buffers: in memory, apart, and the second large enough for a record.\<close>

definition directory_call :: "nat \<Rightarrow> u32 list \<Rightarrow> nat \<times> nat \<Rightarrow> nat \<times> nat \<Rightarrow> mfs \<Rightarrow> bool" where
  "directory_call words c a b w \<longleftrightarrow>
     length c = 8 \<and> qfd_buffer (mfs_host 0 words) (c ! 2) (c ! 3) = Some a \<and> qfd_buffer (mfs_host 0 words) (c ! 4) (c ! 5) = Some b \<and>
     (fst a + (snd a + 3) div 4 \<le> fst b \<or> fst b + (snd b + 3) div 4 \<le> fst a) \<and> 272 \<le> snd b \<and> 5 * words \<le> length (mf_mem w)"

definition name_given :: "nat \<times> nat \<Rightarrow> mfs \<Rightarrow> u8 list" where
  "name_given a w = take (snd a) (bytes_of_words (qed_mem_read (mf_mem w) (fst a) ((snd a + 3) div 4)))"

lemma buffer_fits: "qfd_buffer (mfs_host pid words) x n = Some a \<Longrightarrow> fst a + (snd a + 3) div 4 \<le> words \<and> fst a = unat (x AND 0x0FFFFFFF) \<and> snd a \<le> 65536"
  by (auto simp: qfd_buffer_def Let_def split: if_splits)

lemma cmd_directory_page:
  assumes "directory_call words c a b w" "parse_name (name_given a w) = Inr cs"
    and "fst (list_at (mfs_host pid words) (qd_mounts d) cs w) = Inr es" "unat (c ! 6) \<le> length es"
  obtains used k w' where "page_of b es 0 (unat (c ! 6)) w (used, k, w')"
    "cmd_directory (mfs_host pid words) c d w = (Inr (no_reply\<lparr>rp_count := of_nat (4 * used), rp_w6 := if k < length es then of_nat k else 0\<rparr>), w')"
proof -
  let ?H = "mfs_host pid words"
  obtain used k w' where r: "dir_records ?H b es 0 (unat (c ! 6)) w = (used, k, w')" by (metis prod_cases3)
  have q: "qfd_buffer ?H x n = qfd_buffer (mfs_host 0 words) x n" for x n by (simp add: qfd_buffer_def)
  have c: "qfd_buffer ?H (c ! 2) (c ! 3) = Some a" "qfd_buffer ?H (c ! 4) (c ! 5) = Some b" "272 \<le> snd b" "5 * words \<le> length (mf_mem w)"
    using assms(1) by (simp_all add: directory_call_def q)
  have "page_of b es 0 (unat (c ! 6)) w (dir_records ?H b es 0 (unat (c ! 6)) w)"
    by (rule dir_records_page) (use assms(4) c(4) buffer_fits [OF c(2)] in auto)
  moreover have "bytes_of_buf ?H a w = (name_given a w, w)"
    by (simp add: bytes_of_buf_def name_given_def case_prod_unfold)
  moreover have "list_at ?H (qd_mounts d) cs w = (Inr es, w)"
    using assms(3) list_at_looks(1) [of pid words "qd_mounts d" cs w] by (metis prod.collapse)
  ultimately show ?thesis
    using that [of used k w'] c assms(2) r by (simp add: cmd_directory_def)
qed

lemma valid_short: "valid_component c \<Longrightarrow> length c \<le> 255"
  by (auto simp: valid_component_def split: if_splits)

text \<open>A buffer of the size the device asks for takes at least one record.\<close>

lemma page_advances:
  assumes "page_of b es 0 k w (used, k', w')" "272 \<le> snd b" "list_all (\<lambda>e. valid_component (en_name e)) es" "k < length es"
  shows "k < k'"
proof (rule ccontr)
  assume "\<not> k < k'"
  then have k: "k' = k" "used = 0" using assms(1) by (auto simp: page_of_def records_def)
  then have "snd b < 4 * length (dir_record (es ! k))" using assms(1,4) by (auto simp: page_of_def)
  moreover have "length (en_name (es ! k)) \<le> 255" using assms(3,4) valid_short by (auto simp: list_all_length)
  ultimately show False using assms(2) by (simp add: dir_record_words)
qed

lemma directory_pages:
  assumes "directory_call words c a b w" "parse_name (name_given a w) = Inr cs"
    and "fst (list_at (mfs_host pid words) (qd_mounts d) cs w) = Inr es" "list_all (\<lambda>e. valid_component (en_name e)) es"
    and "length es < 2 ^ 32" "unat (c ! 6) \<le> length es" "length es - unat (c ! 6) < n"
  shows "directory_all n (mfs_host pid words) c d w = Some (map shown_of (drop (unat (c ! 6)) es))"
  using assms
proof (induction n arbitrary: c w)
  case (Suc n)
  let ?H = "mfs_host pid words" and ?k = "unat (c ! 6)"
  obtain used k w' where p: "page_of b es 0 ?k w (used, k, w')"
    and r: "cmd_directory ?H c d w = (Inr (no_reply\<lparr>rp_count := of_nat (4 * used), rp_w6 := if k < length es then of_nat k else 0\<rparr>), w')"
    using cmd_directory_page [OF Suc.prems(1-3,6)] .
  have b: "qfd_buffer ?H (c ! 4) (c ! 5) = Some b" using Suc.prems(1) by (simp add: directory_call_def qfd_buffer_def)
  have u: "unat (of_nat (4 * used) :: u32) = 4 * used"
    using p buffer_fits [OF b] by (intro of_nat_inverse [OF refl]) (auto simp: page_of_def)
  have "qed_mem_read (mf_mem w') (fst b) used = records (take (k - ?k) (drop ?k es))"
    using p by (auto simp: page_of_def)
  moreover have "list_all (\<lambda>e. length (en_name e) \<le> 255) (take (k - ?k) (drop ?k es))"
    using Suc.prems(4) valid_short by (auto simp: list_all_iff dest!: in_set_takeD in_set_dropD)
  ultimately have rd: "read_records (qed_mem_read (mf_mem w') (fst b) used) = map shown_of (take (k - ?k) (drop ?k es))"
    by (simp add: read_records_of)
  show ?case
  proof (cases "k < length es")
    case False
    then have "k = length es" using p by (auto simp: page_of_def)
    then show ?thesis using r rd u buffer_fits [OF b] by (simp add: no_reply_def)
  next
    case True
    have k: "?k < k" using page_advances [OF p _ Suc.prems(4)] p True Suc.prems(1) by (auto simp: directory_call_def page_of_def)
    have kk: "unat (of_nat k :: u32) = k"
      using True Suc.prems(5) by (intro of_nat_inverse [OF refl]) simp
    then have k0: "of_nat k \<noteq> (0 :: u32)" using k by (metis less_nat_zero_code unsigned_0)
    have w': "w\<lparr>mf_mem := mf_mem w'\<rparr> = w'" using p unfolding page_of_def by simp
    have "directory_call words (c[6 := of_nat k]) a b w'"
      using Suc.prems(1) p by (auto simp: directory_call_def page_of_def)
    moreover have "name_given a w' = name_given a w"
      using Suc.prems(1) p buffer_fits [of 0 words "c ! 2" "c ! 3" a] by (auto simp: directory_call_def page_of_def name_given_def)
    moreover have "fst (list_at ?H (qd_mounts d) cs w') = Inr es"
      using Suc.prems(3) list_at_looks(2) [where w = w and M = "mf_mem w'"] w' by simp
    moreover have "c[6 := of_nat k] ! 6 = (of_nat k :: u32)" using Suc.prems(1) by (simp add: directory_call_def)
    ultimately have "directory_all n ?H (c[6 := of_nat k]) d w' = Some (map shown_of (drop k es))"
      using Suc.IH [of "c[6 := of_nat k]" w'] Suc.prems(2-5,7) k True by (simp only: kk)
    moreover have "take (k - ?k) (drop ?k es) @ drop k es = drop ?k es"
      using k append_take_drop_id [of "k - ?k" "drop ?k es"] by (simp add: drop_drop)
    ultimately show ?thesis
      using r rd u buffer_fits [OF b] k0 True by (simp add: no_reply_def flip: map_append)
  qed
qed simp

text \<open>
  C7. DIRECTORY gives a whole directory, however long it is, and comes to an end.  A machine that asks
  again from the entry each answer names until one names none, with a buffer of at least the 272
  bytes the device insists on, gets every entry of the directory once, with its name, kind,
  permission, length and date, in the order of the names, within one command more than there are
  entries: every buffer takes at least one record, so no answer leaves it where it was.\<close>

theorem directory_lists_all:
  assumes "directory_call words c a b w" "c ! 6 = 0" "parse_name (name_given a w) = Inr cs"
    and "fst (list_at (mfs_host pid words) (qd_mounts d) cs w) = Inr es"
    and "list_all (valid_component \<circ> fst) (mo_named (qd_mounts d))" "length es < 2 ^ 32"
  shows "directory_all (length es + 1) (mfs_host pid words) c d w = Some (map shown_of es) \<and> sorted (map en_name es)"
proof -
  have v: "sorted (map en_name es) \<and> list_all (\<lambda>e. valid_component (en_name e)) es"
    using list_at_valid [OF _ assms(5), of "mfs_host pid words" cs w es] assms(4) by (metis prod.collapse)
  then show ?thesis
    using directory_pages [OF assms(1,3,4) _ assms(6), of "length es + 1"] assms(2) by simp
qed

definition wit_listing :: mfs where
  "wit_listing = wit_host\<lparr>mf_tree := mf_tree wit_host @ [([0x2F, 0x71, 0x2F, 0x42], N_dir)], mf_mem := 0x2F # replicate 479 0\<rparr>"

theorem directory_lists_all_witness:
  "directory_all 3 (mfs_host 1 96) [3, 0, 0, 1, 8, 272, 0, 0] wit_device wit_listing =
     Some [\<lparr>sh_name = [0x42], sh_dir = True, sh_ro = False, sh_len = 0, sh_mtime = 0\<rparr>,
           \<lparr>sh_name = [0x61], sh_dir = False, sh_ro = False, sh_len = 0, sh_mtime = 0\<rparr>]"
proof -
  let ?es = "[entry_of [0x42] (mfs_stat wit_listing N_dir) False, entry_of [0x61] (mfs_stat wit_listing (N_file 0)) False]"
  have "directory_call 96 [3, 0, 0, 1, 8, 272, 0, 0] (0, 1) (8, 272) wit_listing"
    by (simp add: directory_call_def qfd_buffer_def wit_listing_def)
  moreover have "parse_name (name_given (0, 1) wit_listing) = Inr []" by code_simp
  moreover have "fst (list_at (mfs_host 1 96) (qd_mounts wit_device) [] wit_listing) = Inr ?es" by code_simp
  moreover have "list_all (valid_component \<circ> fst) (mo_named (qd_mounts wit_device))" by code_simp
  ultimately have "directory_all (length ?es + 1) (mfs_host 1 96) [3, 0, 0, 1, 8, 272, 0, 0] wit_device wit_listing = Some (map shown_of ?es)"
    using directory_lists_all [of 96 "[3, 0, 0, 1, 8, 272, 0, 0]" "(0, 1)" "(8, 272)" wit_listing "[]" 1 wit_device ?es] by simp
  moreover have "map shown_of ?es = [\<lparr>sh_name = [0x42], sh_dir = True, sh_ro = False, sh_len = 0, sh_mtime = 0\<rparr>,
           \<lparr>sh_name = [0x61], sh_dir = False, sh_ro = False, sh_len = 0, sh_mtime = 0\<rparr>]"
    by (simp add: shown_of_def entry_of_def mfs_stat_def r_len_def mtime_of_def wit_listing_def wit_host_def)
  ultimately show ?thesis by (simp add: numeral_3_eq_3)
qed

end
