(* ===== verification/Qfd_Write.thy ===== *)
theory Qfd_Write
  imports Qfd_Directory
begin

text \<open>
  A file written: OPEN, any number of WRITEs and CLOSE on the model's host.  The name keeps what it
  had until CLOSE, and then has everything that was written.
\<close>

unbundle bit_operations_syntax

definition content :: "mfs \<Rightarrow> cstr \<Rightarrow> u8 list option" where
  "content w p = (case node_at w p of Some (N_file i) \<Rightarrow> Some (mf_data w i) | _ \<Rightarrow> None)"

text \<open>Files are numbered below the next number; the name opened has a file or nothing, in a folder that is there.\<close>

definition files_numbered :: "mfs \<Rightarrow> bool" where
  "files_numbered w \<longleftrightarrow> list_all (\<lambda>(p, n). case n of N_file i \<Rightarrow> i < mf_next w | _ \<Rightarrow> True) (mf_tree w)"

definition settled :: "found \<Rightarrow> mfs \<Rightarrow> bool" where
  "settled f w \<longleftrightarrow> fo_path f \<noteq> [] \<and>
     (case node_at w (fo_path f) of None \<Rightarrow> fo_meta f = None | Some (N_file _) \<Rightarrow> fo_meta f \<noteq> None | Some _ \<Rightarrow> False) \<and>
     node_at w (folder_of (fo_path f)) = Some N_dir"

definition unused :: "cstr \<Rightarrow> cstr \<Rightarrow> mfs \<Rightarrow> bool" where
  "unused temp target w \<longleftrightarrow> \<not> under temp target \<and> list_all (\<lambda>(q, _). \<not> under temp q) (mf_tree w)"

text \<open>A WRITE's bytes are what memory has when the command is done.\<close>

definition chunk :: "u8 list \<times> u32 list \<Rightarrow> u8 list" where
  "chunk x = (case x of (mem, c) \<Rightarrow>
     take (unat (c ! 3)) (bytes_of_words (qed_mem_read mem (unat (c ! 2 AND 0x0FFFFFFF)) ((unat (c ! 3) + 3) div 4))))"

fun write_commands :: "mfs host \<Rightarrow> (u8 list \<times> u32 list) list \<Rightarrow> qfd \<Rightarrow> mfs \<Rightarrow> (qfd \<times> mfs) option" where
  "write_commands H [] d w = Some (d, w)"
| "write_commands H ((mem, c) # xs) d w =
     (case cmd_write H c d (w\<lparr>mf_mem := mem\<rparr>) of (Inl _, _) \<Rightarrow> None | (Inr _, d, w) \<Rightarrow> write_commands H xs d w)"

definition put_chunk :: "u8 list \<times> u32 list \<Rightarrow> u8 list \<Rightarrow> u8 list" where
  "put_chunk x bs = write_bytes (unat (snd x ! 6)) (chunk x) bs"

text \<open>Commands the device takes: the handle, a buffer in memory, no gap and no file of 4 GB or more.\<close>

fun writes_fit :: "nat \<Rightarrow> nat \<Rightarrow> (u8 list \<times> u32 list) list \<Rightarrow> u8 list \<Rightarrow> bool" where
  "writes_fit words k [] bs \<longleftrightarrow> True"
| "writes_fit words k ((mem, c) # xs) bs \<longleftrightarrow>
     c ! 1 = of_nat k + 1 \<and> qfd_buffer (mfs_host 0 words) (c ! 2) (c ! 3) \<noteq> None \<and> 5 * words \<le> length mem \<and>
     unat (c ! 6) \<le> length bs \<and> unat (c ! 6) + unat (c ! 3) \<le> 0xFFFFFFFF \<and> writes_fit words k xs (put_chunk (mem, c) bs)"

section \<open>A file being written\<close>

definition writing :: "mfs \<Rightarrow> nat \<Rightarrow> cstr \<Rightarrow> cstr \<Rightarrow> bool \<Rightarrow> u8 list \<Rightarrow> qfd \<Rightarrow> mfs \<Rightarrow> bool" where
  "writing b k temp target noreplace bs d w \<longleftrightarrow>
     (\<exists>fd i. k < 64 \<and> length (qd_h d) = 64 \<and> qd_h d ! k = H_write fd temp target noreplace (length bs) \<and>
        mf_fd w fd = Some (i, True) \<and> mf_next b \<le> i \<and> mf_tree w = (temp, N_file i) # mf_tree b \<and> mf_data w i = bs \<and>
        (\<forall>j < mf_next b. mf_data w j = mf_data b j))"

lemma handle_number: "k < 64 \<Longrightarrow> qd_h d ! k \<noteq> H_none \<Longrightarrow> handle_at d (of_nat k + 1) = Some k"
proof -
  assume k: "k < 64" "qd_h d ! k \<noteq> H_none"
  have "unat (of_nat (k + 1) :: u32) = k + 1" by (rule of_nat_inverse [OF refl]) (use k in simp)
  then have u: "unat (of_nat k + 1 :: u32) = k + 1" by (simp add: add.commute)
  have "\<not> (of_nat k + 1 :: u32) < 1" "\<not> (of_nat 64 :: u32) < of_nat k + 1"
    using k(1) u by (simp_all add: word_less_nat_alt)
  then show ?thesis using k(2) u by (simp add: handle_at_def)
qed

lemma pwrite_all_model:
  assumes "mf_fd w fd = Some (i, True)"
  shows "pwrite_all (mfs_host pid words) fd bs off w = (None, w\<lparr>mf_data := (mf_data w)(i := write_bytes off bs (mf_data w i))\<rparr>)"
proof (cases "bs = []")
  case True
  then show ?thesis by (subst pwrite_all.simps) (simp add: write_bytes_def)
next
  case False
  then show ?thesis
    using assms by (subst pwrite_all.simps, subst pwrite_all.simps) (simp add: m_pwrite_def)
qed

lemma write_step:
  assumes "writing b k temp target nr bs d w" "writes_fit words k ((mem, c) # xs) bs"
  shows "\<exists>r d' w'. cmd_write (mfs_host pid words) c d (w\<lparr>mf_mem := mem\<rparr>) = (Inr r, d', w') \<and>
    writing b k temp target nr (put_chunk (mem, c) bs) d' w'"
proof -
  let ?H = "mfs_host pid words"
  obtain fd i where h: "k < 64" "length (qd_h d) = 64" "qd_h d ! k = H_write fd temp target nr (length bs)"
    and f: "mf_fd w fd = Some (i, True)" "mf_next b \<le> i" "mf_tree w = (temp, N_file i) # mf_tree b" "mf_data w i = bs"
      "\<forall>j < mf_next b. mf_data w j = mf_data b j"
    using assms(1) unfolding writing_def by blast
  have q: "qfd_buffer ?H (c ! 2) (c ! 3) = Some (unat (c ! 2 AND 0x0FFFFFFF), unat (c ! 3))"
    and fits: "unat (c ! 2 AND 0x0FFFFFFF) + (unat (c ! 3) + 3) div 4 \<le> words"
    using assms(2) by (auto simp: qfd_buffer_def Let_def split: if_splits)
  have len: "length (chunk (mem, c)) = unat (c ! 3)"
    using fits assms(2) by (simp add: chunk_def qed_mem_read_eq)
  have b: "bytes_of_buf ?H (unat (c ! 2 AND 0x0FFFFFFF), unat (c ! 3)) (w\<lparr>mf_mem := mem\<rparr>) = (chunk (mem, c), w\<lparr>mf_mem := mem\<rparr>)"
    by (simp add: bytes_of_buf_def chunk_def)
  have p: "pwrite_all ?H fd (chunk (mem, c)) (unat (c ! 6)) (w\<lparr>mf_mem := mem\<rparr>) =
      (None, (w\<lparr>mf_mem := mem\<rparr>)\<lparr>mf_data := (mf_data w)(i := put_chunk (mem, c) bs)\<rparr>)"
    using f by (simp add: pwrite_all_model put_chunk_def)
  have l: "max (length bs) (unat (c ! 6) + unat (c ! 3)) = length (put_chunk (mem, c) bs)"
    using assms(2) len by (cases "chunk (mem, c)") (auto simp: put_chunk_def max_def)
  have "cmd_write ?H c d (w\<lparr>mf_mem := mem\<rparr>) =
      (Inr (no_reply\<lparr>rp_count := of_nat (unat (c ! 3))\<rparr>),
       d\<lparr>qd_h := (qd_h d)[k := H_write fd temp target nr (length (put_chunk (mem, c) bs))]\<rparr>,
       (w\<lparr>mf_mem := mem\<rparr>)\<lparr>mf_data := (mf_data w)(i := put_chunk (mem, c) bs)\<rparr>)"
    using assms(2) h handle_number [OF h(1), of d] by (simp add: cmd_write_def q b p l)
  moreover have "writing b k temp target nr (put_chunk (mem, c) bs)
      (d\<lparr>qd_h := (qd_h d)[k := H_write fd temp target nr (length (put_chunk (mem, c) bs))]\<rparr>)
      ((w\<lparr>mf_mem := mem\<rparr>)\<lparr>mf_data := (mf_data w)(i := put_chunk (mem, c) bs)\<rparr>)"
    unfolding writing_def using h f by auto
  ultimately show ?thesis by blast
qed

lemma writes_all:
  assumes "writing b k temp target nr bs d w" "writes_fit words k xs bs"
  shows "\<exists>d' w'. write_commands (mfs_host pid words) xs d w = Some (d', w') \<and> writing b k temp target nr (fold put_chunk xs bs) d' w'"
  using assms
proof (induction xs arbitrary: bs d w)
  case (Cons x xs)
  obtain mem c where x: "x = (mem, c)" by (cases x)
  obtain r d' w' where s: "cmd_write (mfs_host pid words) c d (w\<lparr>mf_mem := mem\<rparr>) = (Inr r, d', w')"
      "writing b k temp target nr (put_chunk (mem, c) bs) d' w'"
    using write_step [OF Cons.prems(1), of words mem c xs pid] Cons.prems(2) x by blast
  then show ?case using Cons.IH [OF s(2)] Cons.prems(2) x by simp
qed auto

section \<open>The file opened\<close>

definition kept_bytes :: "u32 \<Rightarrow> cstr \<Rightarrow> mfs \<Rightarrow> u8 list" where
  "kept_bytes if_exists target w = (if if_exists = 2 then case content w target of Some bs \<Rightarrow> bs | None \<Rightarrow> [] else [])"

lemma copy_file_model:
  assumes "mf_fd w fd = Some (i, True)" "mf_data w i = []" "node_at w p = Some (N_file j)" "i \<noteq> j" "fd < mf_next w"
  shows "copy_file (mfs_host pid words) p fd w =
    (Inr (length (mf_data w j)), w\<lparr>mf_data := (mf_data w)(i := mf_data w j), mf_fd := (mf_fd w)(mf_next w := None), mf_next := mf_next w + 1\<rparr>)"
proof -
  let ?H = "mfs_host pid words" and ?w = "w\<lparr>mf_fd := (mf_fd w)(mf_next w \<mapsto> (j, False)), mf_next := mf_next w + 1\<rparr>"
  have o: "m_open p w = (Inr (mf_next w), ?w)" using assms(3) by (simp add: m_open_def)
  have w: "write_all ?H fd bs ?w = (None, ?w\<lparr>mf_data := (mf_data w)(i := bs)\<rparr>)" for bs
  proof (cases "bs = []")
    case True
    then show ?thesis using assms(2) by (subst write_all.simps) (simp add: fun_upd_idem)
  next
    case False
    then show ?thesis
      using assms by (subst write_all.simps, subst write_all.simps) (simp add: m_write_def m_pwrite_def write_bytes_def)
  qed
  have r: "m_reads (mf_next w) ?w = (if mf_data w j = [] then [] else [mf_data w j], None)" by (simp add: m_reads_def)
  have "copy_chunks ?H fd (if mf_data w j = [] then [] else [mf_data w j]) ?w =
      (Inr (length (mf_data w j)), ?w\<lparr>mf_data := (mf_data w)(i := mf_data w j)\<rparr>)"
    using assms(2) w by (simp add: fun_upd_idem)
  then have "copy_file ?H p fd w = (Inr (length (mf_data w j)), ?w\<lparr>mf_data := (mf_data w)(i := mf_data w j), mf_fd := (mf_fd w)(mf_next w := None)\<rparr>)"
    unfolding copy_file_def mfs_calls o by (simp only: r prod.case sum.case option.case) simp
  then show ?thesis by simp
qed

lemma numbered: "files_numbered w \<Longrightarrow> node_at w p = Some (N_file i) \<Longrightarrow> i < mf_next w"
  by (drule node_at_in) (auto simp: files_numbered_def list_all_iff split: node.splits)

lemma open_temp_model:
  assumes "(if fo_meta f \<noteq> None \<and> ie = 2 then copy_file (mfs_host pid words) (fo_path f) fd w else (Inr 0, w)) = (Inr held, w')"
  shows "open_temp (mfs_host pid words) ie f k temp fd d w =
    (Inr (no_reply\<lparr>rp_handle := of_nat k + 1, rp_len := r_len held\<rparr>), d\<lparr>qd_h := (qd_h d)[k := H_write fd temp (fo_path f) (ie = 1) held]\<rparr>, w')"
proof -
  have "(case fo_meta f of Some m \<Rightarrow> w_chmod (mfs_host pid words) temp (fs_mode m AND 0xFFF) w | None \<Rightarrow> w) = w" by (simp split: option.split)
  then show ?thesis unfolding open_temp_def Let_def using assms by (simp only: prod.case sum.case)
qed

lemma open_temp_writing:
  assumes "files_numbered b" "settled f b" "k < 64" "length (qd_h d) = 64" "unused temp (fo_path f) b" "folder_of temp = folder_of (fo_path f)"
  obtains r d' w' where
    "(case m_create temp b of (Inl e, w) \<Rightarrow> (Inl (qfd_errno_status e), d, w) | (Inr fd, w) \<Rightarrow> open_temp (mfs_host pid words) ie f k temp fd d w) = (Inr r, d', w')"
    "rp_handle r = of_nat k + 1" "writing b k temp (fo_path f) (ie = 1) (kept_bytes ie (fo_path f) b) d' w'"
proof -
  let ?i = "mf_next b" and ?H = "mfs_host pid words"
  let ?w = "b\<lparr>mf_tree := (temp, N_file ?i) # mf_tree b, mf_data := (mf_data b)(?i := []), mf_fd := (mf_fd b)(?i \<mapsto> (?i, True)), mf_next := ?i + 1\<rparr>"
  have new: "m_new temp b = None"
  proof -
    have "node_at b temp = None"
    proof (rule ccontr)
      assume "node_at b temp \<noteq> None"
      then obtain n where "(temp, n) \<in> set (mf_tree b)" using node_at_in by blast
      then show False using assms(5) by (auto simp: unused_def list_all_iff under_def)
    qed
    then show ?thesis using assms(2,6) by (simp add: m_new_def settled_def)
  qed
  then have c: "m_create temp b = (Inr ?i, ?w)" by (simp add: m_create_def Let_def)
  have nt: "temp \<noteq> fo_path f" using assms(5) by (auto simp: unused_def under_def)
  show ?thesis
  proof (cases "fo_meta f \<noteq> None \<and> ie = 2")
    case True
    then obtain j where j: "node_at b (fo_path f) = Some (N_file j)" using assms(2) by (auto simp: settled_def split: option.splits node.splits)
    have lt: "j < ?i" by (rule numbered [OF assms(1) j])
    let ?w' = "?w\<lparr>mf_data := (mf_data ?w)(?i := mf_data b j), mf_fd := (mf_fd ?w)(?i + 1 := None), mf_next := ?i + 2\<rparr>"
    have "copy_file ?H (fo_path f) ?i ?w = (Inr (length (mf_data b j)), ?w')"
      by (subst copy_file_model [where i = ?i and j = j]) (use j lt nt in \<open>auto simp: node_at_def\<close>)
    moreover have "kept_bytes ie (fo_path f) b = mf_data b j" using True j by (simp add: kept_bytes_def content_def)
    ultimately show ?thesis
      using that assms(3,4) True lt unfolding c by (auto simp: open_temp_model [where w' = ?w' and held = "length (mf_data b j)"] writing_def)
  next
    case False
    have "kept_bytes ie (fo_path f) b = []"
      using False assms(2) by (auto simp: kept_bytes_def content_def settled_def split: option.splits node.splits)
    moreover have "(if fo_meta f \<noteq> None \<and> ie = 2 then copy_file ?H (fo_path f) ?i ?w else (Inr 0, ?w)) = (Inr 0, ?w)" using False by auto
    ultimately show ?thesis
      using that assms(3,4) open_temp_model [of f ie pid words ?i ?w 0 ?w k temp d] unfolding c by (auto simp: writing_def)
  qed
qed

section \<open>The file closed\<close>

lemma moved_unused: "unused temp target b \<Longrightarrow> map (\<lambda>(q, n). (moved temp target q, n)) (filter (\<lambda>(q, _). q \<noteq> target) (mf_tree b)) = filter (\<lambda>(q, _). q \<noteq> target) (mf_tree b)"
  by (rule map_idI) (auto simp: unused_def list_all_iff moved_def)

lemma close_commits:
  assumes "writing b k temp target nr bs d w" "unused temp target b" "files_numbered b" "node_at b (folder_of target) = Some N_dir"
    and "node_at b target \<noteq> Some N_dir" "nr \<Longrightarrow> node_at b target = None" "\<not> bit fl 0"
  obtains d' w' where "cmd_close (mfs_host pid words) (of_nat k + 1) fl date d w = (Inr (no_reply\<lparr>rp_len := r_len (length bs)\<rparr>), d', w')"
    "content w' target = Some bs" "\<And>q. q \<noteq> target \<Longrightarrow> content w' q = content b q"
proof -
  let ?H = "mfs_host pid words"
  obtain fd i where h: "k < 64" "length (qd_h d) = 64" "qd_h d ! k = H_write fd temp target nr (length bs)"
    and f: "mf_fd w fd = Some (i, True)" "mf_next b \<le> i" "mf_tree w = (temp, N_file i) # mf_tree b" "mf_data w i = bs"
      "\<forall>j < mf_next b. mf_data w j = mf_data b j"
    using assms(1) unfolding writing_def by blast
  have nu: "\<not> under temp target" using assms(2) by (simp add: unused_def)
  then have ne: "target \<noteq> temp" by (auto simp: under_def)
  let ?w = "w\<lparr>mf_tree := (target, N_file i) # filter (\<lambda>(q, _). q \<noteq> target) (mf_tree b)\<rparr>"
  have at: "node_at w q = (if q = temp then Some (N_file i) else node_at b q)" for q using f(3) by (simp add: node_at_def)
  have ft: "node_at w (folder_of target) = Some N_dir"
  proof -
    have "folder_of target \<noteq> temp" using assms(2,4) node_at_in [of b "folder_of target"] by (auto simp: unused_def list_all_iff under_def)
    then show ?thesis using at assms(4) by simp
  qed
  have "m_rename temp target w = (None, ?w)"
    using nu ne at ft assms(5) moved_unused [OF assms(2)] f(3) by (simp add: m_rename_def moved_def under_def)
  moreover have "m_renameat2 temp target w = (None, ?w)" if nr
    using calculation that ne at assms(6) by (simp add: m_renameat2_def)
  ultimately have p: "put_in_place ?H fl date fd temp target nr w = (None, ?w)"
    by (auto simp: put_in_place_def rename_noreplace_def)
  have st: "m_stat target (?w\<lparr>mf_fd := x\<rparr>) = Inr (mfs_stat (?w\<lparr>mf_fd := x\<rparr>) (N_file i))" for x
    by (simp add: m_stat_def m_realpath_def m_lstat_def node_at_def)
  let ?w' = "?w\<lparr>mf_fd := (mf_fd w)(fd := None)\<rparr>"
  have "cmd_close ?H (of_nat k + 1) fl date d w = (Inr (no_reply\<lparr>rp_len := r_len (length bs)\<rparr>), d\<lparr>qd_h := (qd_h d)[k := H_none]\<rparr>, ?w')"
    using h handle_number [OF h(1), of d] assms(7) p st f(4)
    by (simp add: cmd_close_def handle_close_def stat_reply_def mfs_stat_def mtime_of_def no_reply_def Let_def)
  moreover have "content ?w' target = Some bs" using f(4) by (simp add: content_def node_at_def)
  moreover have "content ?w' q = content b q" if "q \<noteq> target" for q
    using that f(5) numbered [OF assms(3), of q] by (auto simp: content_def node_at_def map_of_drop split: option.split node.split)
  ultimately show ?thesis using that by blast
qed

lemma close_aborts:
  assumes "writing b k temp target nr bs d w" "unused temp target b" "files_numbered b" "bit fl 0"
  obtains d' w' where "cmd_close (mfs_host pid words) (of_nat k + 1) fl date d w = (Inr no_reply, d', w')" "\<And>q. content w' q = content b q"
proof -
  let ?H = "mfs_host pid words"
  obtain fd i where h: "k < 64" "length (qd_h d) = 64" "qd_h d ! k = H_write fd temp target nr (length bs)"
    and f: "mf_fd w fd = Some (i, True)" "mf_next b \<le> i" "mf_tree w = (temp, N_file i) # mf_tree b" "mf_data w i = bs"
      "\<forall>j < mf_next b. mf_data w j = mf_data b j"
    using assms(1) unfolding writing_def by blast
  have no: "filter (\<lambda>(q, _). q \<noteq> temp) (mf_tree b) = mf_tree b"
    using assms(2) by (auto simp: filter_id_conv unused_def list_all_iff under_def)
  let ?w' = "w\<lparr>mf_fd := (mf_fd w)(fd := None), mf_tree := mf_tree b\<rparr>"
  have "m_unlink temp (w\<lparr>mf_fd := (mf_fd w)(fd := None)\<rparr>) = (None, ?w')"
    using f(3) no by (simp add: m_unlink_def node_at_def drop_name_def)
  then have "cmd_close ?H (of_nat k + 1) fl date d w = (Inr no_reply, d\<lparr>qd_h := (qd_h d)[k := H_none]\<rparr>, ?w')"
    using h handle_number [OF h(1), of d] assms(4) by (simp add: cmd_close_def handle_close_def Let_def)
  moreover have "content ?w' q = content b q" for q
    using f(5) numbered [OF assms(3), of q] by (auto simp: content_def node_at_def split: option.split node.split)
  ultimately show ?thesis using that by blast
qed

section \<open>From OPEN to CLOSE\<close>

text \<open>
  An OPEN to write that the device takes: the name leads to \<open>f\<close> in a folder that may be written, \<open>k\<close> is
  the first free handle and nothing has the temporary file's name.
\<close>

definition temp_of :: "nat \<Rightarrow> nat \<Rightarrow> found \<Rightarrow> qfd \<Rightarrow> cstr" where
  "temp_of pid words f d = path_join (folder_of (fo_path f)) (temp_name (mfs_host pid words) (qd_temps d))"

definition opens_to_write :: "nat \<Rightarrow> nat \<Rightarrow> u32 \<Rightarrow> u8 list \<Rightarrow> found \<Rightarrow> nat \<Rightarrow> qfd \<Rightarrow> mfs \<Rightarrow> bool" where
  "opens_to_write pid words flags name f k d w \<longleftrightarrow>
     flags AND 3 = 1 \<and> drop_bit 2 flags AND 3 \<noteq> 3 \<and>
     (case parse_name name of
        Inl _ \<Rightarrow> False
      | Inr cs \<Rightarrow>
          (let p = place_of (qd_mounts d) cs
           in \<not> pl_ro p \<and> pl_rel p \<noteq> [] \<and> fst (lookup (mfs_host pid words) p True w) = Inr f)) \<and>
     write_refusal (drop_bit 2 flags AND 3) (bit flags 4) f = QFD_OK \<and> free_handle d = Some k \<and> length (qd_h d) = 64 \<and>
     settled f w \<and> files_numbered w \<and> unused (temp_of pid words f d) (fo_path f) w"

lemma free_handle_below: "free_handle d = Some k \<Longrightarrow> k < 64"
  by (auto simp: free_handle_def find_Some_iff)

lemma bare_read_only: "pl_key (place_of m cs) = KEY_BARE \<Longrightarrow> pl_ro (place_of m cs)"
  by (auto simp: place_of_def split: option.splits if_splits prod.splits)

lemma open_writing:
  assumes "opens_to_write pid words flags name f k d w"
  obtains r d' w' where "cmd_open (mfs_host pid words) flags name d w = (Inr r, d', w')" "rp_handle r = of_nat k + 1"
    "writing w k (temp_of pid words f d) (fo_path f) (drop_bit 2 flags AND 3 = 1) (kept_bytes (drop_bit 2 flags AND 3) (fo_path f) w) d' w'"
proof -
  let ?H = "mfs_host pid words" and ?ie = "drop_bit 2 flags AND 3" and ?t = "temp_of pid words f d" and ?d = "d\<lparr>qd_temps := qd_temps d + 1\<rparr>"
  obtain cs where cs: "parse_name name = Inr cs" "\<not> pl_ro (place_of (qd_mounts d) cs)" "pl_rel (place_of (qd_mounts d) cs) \<noteq> []"
      "fst (lookup ?H (place_of (qd_mounts d) cs) True w) = Inr f"
    using assms by (auto simp: opens_to_write_def Let_def split: sum.splits)
  have l: "lookup ?H (place_of (qd_mounts d) cs) True w = (Inr f, w)"
    using cs(4) lookup_looks(1) [of pid words "place_of (qd_mounts d) cs" True w] by (metis prod.collapse)
  have o: "cmd_open ?H flags name d w =
      (case m_create ?t w of (Inl e, w) \<Rightarrow> (Inl (qfd_errno_status e), ?d, w) | (Inr fd, w) \<Rightarrow> open_temp ?H ?ie f k ?t fd ?d w)"
    unfolding temp_of_def
    using assms cs bare_read_only [of "qd_mounts d" cs] l by (auto simp: opens_to_write_def cmd_open_def open_write_def Let_def)
  have s: "settled f w" "files_numbered w" "unused ?t (fo_path f) w" "length (qd_h ?d) = 64" "k < 64"
    using assms free_handle_below [of d k] by (simp_all add: opens_to_write_def)
  have "folder_of (fo_path f) \<noteq> []"
    using s(1) by (auto simp: settled_def folder_of_def Let_def)
  then have "folder_of ?t = folder_of (fo_path f)"
    using folder_of_join [OF temp_plain(1) [of ?H "qd_temps d"], of "folder_of (fo_path f)"] by (simp add: temp_of_def)
  then show ?thesis
    using open_temp_writing [OF s(2,1,5,4,3), where ie = ?ie and pid = pid and words = words] that unfolding o by blast
qed

text \<open>
  C6. A file the machine writes is replaced as a whole or not at all.  An OPEN to write that is taken and
  any number of WRITEs without a gap all succeed, and until CLOSE every name but the temporary
  file's has the bytes it had before the OPEN, the name opened among them.  CLOSE then gives the name
  exactly what was written, over nothing or over what the OPEN said to keep, answers with that
  length, and changes no other name; CLOSE with the abort flag leaves every name with what it had
  and the temporary file is gone.\<close>

theorem write_all_or_nothing:
  assumes "opens_to_write pid words flags name f k d w"
    and "writes_fit words k xs (kept_bytes (drop_bit 2 flags AND 3) (fo_path f) w)" "\<not> bit commit 0" "bit abort 0"
  shows "\<exists>r d1 w1 d2 w2 d3 w3 d4 w4.
    cmd_open (mfs_host pid words) flags name d w = (Inr r, d1, w1) \<and>
    write_commands (mfs_host pid words) xs d1 w1 = Some (d2, w2) \<and>
    (\<forall>q. q \<noteq> temp_of pid words f d \<longrightarrow> content w2 q = content w q) \<and>
    cmd_close (mfs_host pid words) (rp_handle r) commit date d2 w2 =
      (Inr (no_reply\<lparr>rp_len := r_len (length (fold put_chunk xs (kept_bytes (drop_bit 2 flags AND 3) (fo_path f) w)))\<rparr>), d3, w3) \<and>
    content w3 (fo_path f) = Some (fold put_chunk xs (kept_bytes (drop_bit 2 flags AND 3) (fo_path f) w)) \<and>
    (\<forall>q. q \<noteq> fo_path f \<longrightarrow> content w3 q = content w q) \<and>
    cmd_close (mfs_host pid words) (rp_handle r) abort date d2 w2 = (Inr no_reply, d4, w4) \<and>
    (\<forall>q. content w4 q = content w q)"
proof -
  let ?H = "mfs_host pid words" and ?t = "temp_of pid words f d" and ?b = "kept_bytes (drop_bit 2 flags AND 3) (fo_path f) w"
  have s: "settled f w" "files_numbered w" "unused ?t (fo_path f) w" using assms(1) by (simp_all add: opens_to_write_def)
  obtain r d1 w1 where o: "cmd_open ?H flags name d w = (Inr r, d1, w1)" "rp_handle r = of_nat k + 1"
      "writing w k ?t (fo_path f) (drop_bit 2 flags AND 3 = 1) ?b d1 w1"
    using open_writing [OF assms(1)] .
  obtain d2 w2 where c: "write_commands ?H xs d1 w1 = Some (d2, w2)"
      "writing w k ?t (fo_path f) (drop_bit 2 flags AND 3 = 1) (fold put_chunk xs ?b) d2 w2"
    using writes_all [OF o(3) assms(2)] by blast
  have same: "content w2 q = content w q" if "q \<noteq> ?t" for q
    using that c(2) numbered [OF s(2), of q] by (auto simp: writing_def content_def node_at_def split: option.split node.split)
  have dir: "node_at w (folder_of (fo_path f)) = Some N_dir" "node_at w (fo_path f) \<noteq> Some N_dir"
    using s(1) by (auto simp: settled_def)
  have new: "node_at w (fo_path f) = None" if "drop_bit 2 flags AND 3 = 1"
    using assms(1) that s(1) by (auto simp: opens_to_write_def write_refusal_def settled_def split: option.splits if_splits node.splits)
  obtain d3 w3 where k: "cmd_close ?H (of_nat k + 1) commit date d2 w2 = (Inr (no_reply\<lparr>rp_len := r_len (length (fold put_chunk xs ?b))\<rparr>), d3, w3)"
      "content w3 (fo_path f) = Some (fold put_chunk xs ?b)" "\<And>q. q \<noteq> fo_path f \<Longrightarrow> content w3 q = content w q"
    using close_commits [OF c(2) s(3,2) dir new assms(3)] by blast
  obtain d4 w4 where a: "cmd_close ?H (of_nat k + 1) abort date d2 w2 = (Inr no_reply, d4, w4)" "\<And>q. content w4 q = content w q"
    using close_aborts [OF c(2) s(3,2) assms(4)] by blast
  show ?thesis
  proof (intro exI conjI allI impI)
    show "cmd_open ?H flags name d w = (Inr r, d1, w1)" by (rule o(1))
    show "write_commands ?H xs d1 w1 = Some (d2, w2)" by (rule c(1))
    show "cmd_close ?H (rp_handle r) commit date d2 w2 = (Inr (no_reply\<lparr>rp_len := r_len (length (fold put_chunk xs ?b))\<rparr>), d3, w3)"
      using k(1) o(2) by simp
    show "cmd_close ?H (rp_handle r) abort date d2 w2 = (Inr no_reply, d4, w4)" using a(1) o(2) by simp
  qed (use same k(2,3) a(2) in simp_all)
qed

text \<open>Two bytes and then one more, written to \<open>/a\<close> over what it had.\<close>

definition wit_writes :: "(u8 list \<times> u32 list) list" where
  "wit_writes = [([7, 9] @ replicate 78 0, [3, 1, 0, 2, 0, 0, 0, 0]), ([5] @ replicate 79 0, [3, 1, 0, 1, 0, 0, 2, 0])]"

theorem write_all_or_nothing_witness:
  "\<exists>r d1 w1 d2 w2 d3 w3. cmd_open (mfs_host 1 16) 1 [0x2F, 0x61] wit_device wit_host = (Inr r, d1, w1) \<and>
     write_commands (mfs_host 1 16) wit_writes d1 w1 = Some (d2, w2) \<and>
     cmd_close (mfs_host 1 16) (rp_handle r) 0 0 d2 w2 = (Inr (no_reply\<lparr>rp_len := 3\<rparr>), d3, w3) \<and>
     content w2 [0x2F, 0x71, 0x2F, 0x61] = Some [] \<and> content w3 [0x2F, 0x71, 0x2F, 0x61] = Some [7, 9, 5]"
proof -
  let ?f = "\<lparr>fo_parent = [0x2F, 0x71], fo_path = [0x2F, 0x71, 0x2F, 0x61], fo_meta = Some (mfs_stat wit_host (N_file 0))\<rparr>"
  have "opens_to_write 1 16 1 [0x2F, 0x61] ?f 0 wit_device wit_host" by code_simp
  moreover have "kept_bytes (drop_bit 2 1 AND 3) (fo_path ?f) wit_host = []" by code_simp
  moreover have "writes_fit 16 0 wit_writes []"
  proof -
    have "length (chunk ([7, 9] @ replicate 78 0, [3, 1, 0, 2, 0, 0, 0, 0])) = 2" by code_simp
    then show ?thesis by (auto simp: wit_writes_def put_chunk_def qfd_buffer_def)
  qed
  moreover have "fold put_chunk wit_writes [] = [7, 9, 5]" by code_simp
  moreover have "content wit_host [0x2F, 0x71, 0x2F, 0x61] = Some []" by code_simp
  moreover have "temp_of 1 16 ?f wit_device \<noteq> [0x2F, 0x71, 0x2F, 0x61]" by code_simp
  ultimately show ?thesis
    using write_all_or_nothing [of 1 16 1 "[0x2F, 0x61]" ?f 0 wit_device wit_host wit_writes 0 1 0] by (fastforce simp: r_len_def)
qed

end
