(* ===== verification/Qfd_Names.thy ===== *)
theory Qfd_Names
  imports Qfd_Confined "HOL-Library.Sublist"
begin

text \<open>
  What the file device makes of names: a name is read as exactly the components it is written of,
  and a completion is the longest that the names which begin so have in common.
\<close>

section \<open>Names\<close>

text \<open>A name of components, written out.\<close>

definition name_of :: "cstr list \<Rightarrow> u8 list" where
  "name_of cs = (if cs = [] then [SLASH] else concat (map ((#) SLASH) cs))"

lemma split_slash_concat:
  "cs \<noteq> [] \<Longrightarrow> \<forall>c \<in> set cs. SLASH \<notin> set c \<Longrightarrow> split_slash (tl (concat (map ((#) SLASH) cs))) = cs"
proof (induction cs)
  case (Cons c cs)
  show ?case
  proof (cases "cs = []")
    case True
    then show ?thesis using Cons by (simp add: split_slash_plain)
  next
    case False
    then have "concat (map ((#) SLASH) cs) = SLASH # tl (concat (map ((#) SLASH) cs))" by (cases cs) auto
    then have "split_slash (c @ concat (map ((#) SLASH) cs)) = split_slash c @ split_slash (tl (concat (map ((#) SLASH) cs)))"
      using split_slash_append by metis
    then show ?thesis using Cons False by (simp add: split_slash_plain)
  qed
qed simp

lemma concat_split_slash: "concat (map ((#) SLASH) (split_slash p)) = SLASH # p"
  by (induction p rule: split_slash.induct) (auto split: list.splits)

lemma last_component_plain: "cs \<noteq> [] \<Longrightarrow> \<forall>c \<in> set cs. c \<noteq> [] \<and> SLASH \<notin> set c \<Longrightarrow> last (concat (map ((#) SLASH) cs)) \<noteq> SLASH"
proof (induction cs rule: rev_induct)
  case (snoc c cs)
  then have "c \<noteq> []" "SLASH \<notin> set c" by auto
  then show ?case by (simp add: last_ConsR) (metis last_in_set)
qed simp

text \<open>
  A name is read as exactly the components it is written of: the device takes the bytes as a name
  of some components when they are those components each after a slash, with or without one slash
  more at the end, each component of 1 to 255 printing characters with no slash and neither \<^verbatim>\<open>.\<close> nor
  \<^verbatim>\<open>..\<close>, 1,024 bytes in all; and refuses everything else as a bad name.\<close>

theorem parse_name_exact:
  "(parse_name b = Inr cs \<longleftrightarrow>
     length b \<le> QFD_MAX_NAME \<and> list_all valid_component cs \<and> (b = name_of cs \<or> b = name_of cs @ [SLASH])) \<and>
   parse_name b \<in> insert (Inl QFD_IPS) (range Inr)"
proof
  show "parse_name b \<in> insert (Inl QFD_IPS) (range Inr)" by (simp add: parse_name_def Let_def)
  show "parse_name b = Inr cs \<longleftrightarrow>
     length b \<le> QFD_MAX_NAME \<and> list_all valid_component cs \<and> (b = name_of cs \<or> b = name_of cs @ [SLASH])"
  proof
    assume p: "parse_name b = Inr cs"
    then have h: "b \<noteq> []" "length b \<le> QFD_MAX_NAME" "hd b = SLASH" by (auto simp: parse_name_def split: if_splits)
    obtain t where t: "b = SLASH # t" using h by (cases b) auto
    define body where "body = (if t \<noteq> [] \<and> last t = SLASH then butlast t else t)"
    have eq: "t = body \<or> t = body @ [SLASH]" by (auto simp: body_def) (metis append_butlast_last_id)
    have "parse_name b = (if body = [] then Inr [] else if list_all valid_component (split_slash body) then Inr (split_slash body) else Inl QFD_IPS)"
      using h(2) unfolding t body_def by (simp add: parse_name_def)
    then have c: "body = [] \<and> cs = [] \<or> body \<noteq> [] \<and> list_all valid_component cs \<and> cs = split_slash body" using p by (auto split: if_splits)
    then have "name_of cs = SLASH # body" using concat_split_slash [of body] split_slash_nonempty [of body] by (auto simp: name_of_def)
    then show "length b \<le> QFD_MAX_NAME \<and> list_all valid_component cs \<and> (b = name_of cs \<or> b = name_of cs @ [SLASH])"
      using c eq h(2) t by auto
  next
    assume a: "length b \<le> QFD_MAX_NAME \<and> list_all valid_component cs \<and> (b = name_of cs \<or> b = name_of cs @ [SLASH])"
    show "parse_name b = Inr cs"
    proof (cases "cs = []")
      case True
      then show ?thesis using a by (auto simp: parse_name_def name_of_def)
    next
      case False
      define body where "body = tl (concat (map ((#) SLASH) cs))"
      have pl: "\<forall>c \<in> set cs. c \<noteq> [] \<and> SLASH \<notin> set c" using a valid_plain by (auto simp: list_all_iff)
      have n: "name_of cs = SLASH # body" using False by (cases cs) (auto simp: name_of_def body_def)
      have sp: "split_slash body = cs" using split_slash_concat [OF False] pl by (simp add: body_def)
      have "hd cs \<noteq> []" using pl False by simp
      then have b0: "body \<noteq> []" using False by (cases cs) (auto simp: body_def)
      have "last (name_of cs) \<noteq> SLASH" using last_component_plain [OF False pl] False by (simp add: name_of_def)
      then have "last body \<noteq> SLASH" using b0 n by simp
      then show ?thesis using a n sp b0 False by (auto simp: parse_name_def)
    qed
  qed
qed

section \<open>Completion\<close>

lemma common_prefix: "prefix ls (take (common a b) b) \<longleftrightarrow> prefix ls a \<and> prefix ls b"
proof (induction a b arbitrary: ls rule: common.induct)
  case (1 a as b bs)
  then show ?case by (cases ls) auto
qed auto

definition begins :: "cstr \<Rightarrow> entry list \<Rightarrow> cstr list" where
  "begins p es = filter (prefix p) (map en_name es)"

lemma take_prefix: "\<not> (length nm < length p \<or> take (length p) nm \<noteq> p) \<longleftrightarrow> prefix p nm"
  by (auto simp: prefix_def) (metis append_take_drop_id)

text \<open>
  C39. A completion is the longest text the names that begin with the given text have in common.  It
  counts the entries whose names begin so, and when there are any a text begins all of their names
  exactly when it begins the completion.\<close>

theorem complete_is_longest:
  "fst (complete_names p es) = length (begins p es) \<and>
   (begins p es = [] \<or> {ls. list_all (prefix ls) (begins p es)} = {ls. prefix ls (snd (complete_names p es))})"
proof -
  let ?f = "\<lambda>e (matches, lcp). let nm = en_name e
         in if length nm < length p \<or> take (length p) nm \<noteq> p then (matches, lcp)
            else if matches = 0 then (1, nm) else (matches + 1, take (common nm lcp) lcp)"
  have f: "?f e (k, l) = (if prefix p (en_name e) then (if k = 0 then (1, en_name e) else (k + 1, take (common (en_name e) l) l)) else (k, l))"
    for e and k :: nat and l using take_prefix [of "en_name e" p] by (auto simp: Let_def)
  define ok where "ok kl ns \<longleftrightarrow> fst kl = length ns \<and> (ns = [] \<or> {ls. list_all (prefix ls) ns} = {ls. prefix ls (snd kl)})"
    for kl :: "nat \<times> cstr" and ns :: "cstr list"
  have "ok kl ns \<Longrightarrow> ok (fold ?f es kl) (ns @ begins p es)" for kl ns
  proof (induction es arbitrary: kl ns)
    case Nil
    then show ?case by (simp add: begins_def)
  next
    case (Cons e es)
    obtain k l where kl: "kl = (k, l)" by (cases kl)
    show ?case
    proof (cases "prefix p (en_name e)")
      case True
      have "ok (?f e (k, l)) (ns @ [en_name e])"
        using Cons.prems True unfolding f kl ok_def by (auto simp: common_prefix)
      from Cons.IH [OF this] show ?thesis using True unfolding kl begins_def by simp
    next
      case False
      have "ok (?f e (k, l)) ns" using Cons.prems False unfolding f kl by simp
      from Cons.IH [OF this] show ?thesis using False unfolding kl begins_def by simp
    qed
  qed
  from this [of "(0, [])" "[]"] show ?thesis unfolding complete_names_def ok_def by simp
qed

end
