(* ===== verification/Sha256.thy ===== *)
theory Sha256
  imports Prelude
begin

text \<open>
  \<^verbatim>\<open>sha256.c\<close>: the digest that binds a checkpoint to its packs.  The code hashes a stream as it comes, a block at a
  time; the standard (FIPS 180-4) says what the digest of a whole message is.  The second half of
  this theory states the standard, and that however a file is read its digest is the standard's.
\<close>

unbundle bit_operations_syntax

section \<open>The code\<close>

definition K :: "u32 list" where
  "K = concat
    [[0x428a2f98, 0x71374491, 0xb5c0fbcf, 0xe9b5dba5, 0x3956c25b],
     [0x59f111f1, 0x923f82a4, 0xab1c5ed5, 0xd807aa98, 0x12835b01],
     [0x243185be, 0x550c7dc3, 0x72be5d74, 0x80deb1fe, 0x9bdc06a7],
     [0xc19bf174, 0xe49b69c1, 0xefbe4786, 0x0fc19dc6, 0x240ca1cc],
     [0x2de92c6f, 0x4a7484aa, 0x5cb0a9dc, 0x76f988da, 0x983e5152],
     [0xa831c66d, 0xb00327c8, 0xbf597fc7, 0xc6e00bf3, 0xd5a79147],
     [0x06ca6351, 0x14292967, 0x27b70a85, 0x2e1b2138, 0x4d2c6dfc],
     [0x53380d13, 0x650a7354, 0x766a0abb, 0x81c2c92e, 0x92722c85],
     [0xa2bfe8a1, 0xa81a664b, 0xc24b8b70, 0xc76c51a3, 0xd192e819],
     [0xd6990624, 0xf40e3585, 0x106aa070, 0x19a4c116, 0x1e376c08],
     [0x2748774c, 0x34b0bcb5, 0x391c0cb3, 0x4ed8aa4a, 0x5b9cca4f],
     [0x682e6ff3, 0x748f82ee, 0x78a5636f, 0x84c87814, 0x8cc70208],
     [0x90befffa, 0xa4506ceb, 0xbef9a3f7, 0xc67178f2]]"

definition ror :: "u32 \<Rightarrow> nat \<Rightarrow> u32" where
  "ror x n = drop_bit n x OR push_bit (32 - n) x"

text \<open>The first sixteen words of the schedule are the block's bytes, high byte first; the rest are made of them.\<close>

definition be_word :: "u8 list \<Rightarrow> nat \<Rightarrow> u32" where
  "be_word p i =
     push_bit 24 (ucast (p ! (4 * i))) OR push_bit 16 (ucast (p ! (4 * i + 1))) OR
     push_bit 8 (ucast (p ! (4 * i + 2))) OR ucast (p ! (4 * i + 3))"

definition sched_step :: "nat \<Rightarrow> u32 list \<Rightarrow> u32 list" where
  "sched_step i w =
     (let s0 = ror (w ! (i - 15)) 7 XOR ror (w ! (i - 15)) 18 XOR drop_bit 3 (w ! (i - 15));
          s1 = ror (w ! (i - 2)) 17 XOR ror (w ! (i - 2)) 19 XOR drop_bit 10 (w ! (i - 2))
      in w @ [w ! (i - 16) + s0 + w ! (i - 7) + s1])"

definition schedule :: "u8 list \<Rightarrow> u32 list" where
  "schedule p = fold sched_step [16..<64] (map (be_word p) [0..<16])"

type_synonym regs = "u32 \<times> u32 \<times> u32 \<times> u32 \<times> u32 \<times> u32 \<times> u32 \<times> u32"

definition compress_round :: "u32 list \<Rightarrow> nat \<Rightarrow> regs \<Rightarrow> regs" where
  "compress_round w i r =
     (case r of (a, b, c, d, e, f, g, h) \<Rightarrow>
        let S1 = ror e 6 XOR ror e 11 XOR ror e 25;
            ch = (e AND f) XOR (NOT e AND g);
            t1 = h + S1 + ch + K ! i + w ! i;
            S0 = ror a 2 XOR ror a 13 XOR ror a 22;
            maj = (a AND b) XOR (a AND c) XOR (b AND c);
            t2 = S0 + maj
        in (t1 + t2, a, b, c, d + t1, e, f, g))"

definition compress :: "u8 list \<Rightarrow> u32 list \<Rightarrow> u32 list" where
  "compress p h =
     (case fold (compress_round (schedule p)) [0..<64] (h ! 0, h ! 1, h ! 2, h ! 3, h ! 4, h ! 5, h ! 6, h ! 7) of
        (a, b, c, d, e, f, g, k) \<Rightarrow>
          [h ! 0 + a, h ! 1 + b, h ! 2 + c, h ! 3 + d, h ! 4 + e, h ! 5 + f, h ! 6 + g, h ! 7 + k])"

record sha256 =
  sh_h :: "u32 list"
  sh_bits :: u64
  sh_block :: "u8 list"
  sh_have :: nat

definition iv :: "u32 list" where
  "iv = [0x6a09e667, 0xbb67ae85, 0x3c6ef372] @ [0xa54ff53a, 0x510e527f, 0x9b05688c] @ [0x1f83d9ab, 0x5be0cd19]"

definition sha256_init :: "sha256 \<Rightarrow> sha256" where
  "sha256_init s = s\<lparr>sh_h := iv, sh_bits := 0, sh_have := 0\<rparr>"

text \<open>Bytes laid_over over a buffer from a place on.\<close>

definition laid_over :: "nat \<Rightarrow> u8 list \<Rightarrow> u8 list \<Rightarrow> u8 list" where
  "laid_over i bs b = take i b @ bs @ drop (i + length bs) b"

function feed_loop :: "u8 list \<Rightarrow> sha256 \<Rightarrow> sha256" where
  "feed_loop p s =
     (if p = [] then s
      else if sh_have s = 0 \<and> 64 \<le> length p then feed_loop (drop 64 p) (s\<lparr>sh_h := compress (take 64 p) (sh_h s)\<rparr>)
      else let n = (if sh_have s \<le> 64 \<and> 64 - sh_have s \<le> length p then 64 - sh_have s else length p);
               s = s\<lparr>sh_block := laid_over (sh_have s) (take n p) (sh_block s), sh_have := sh_have s + n\<rparr>
        in feed_loop (drop n p) (if sh_have s = 64 then s\<lparr>sh_h := compress (sh_block s) (sh_h s), sh_have := 0\<rparr> else s))"
  by auto
termination
proof (relation "measure (\<lambda>(p, s). 2 * length p + (if sh_have s = 64 then 1 else 0))", goal_cases)
  case (3 p s n t)
  then show ?case by (cases "sh_have s = 64") auto
qed auto

declare feed_loop.simps [simp del]

definition sha256_feed :: "u8 list \<Rightarrow> sha256 \<Rightarrow> sha256" where
  "sha256_feed p s = feed_loop p (s\<lparr>sh_bits := sh_bits s + of_nat (length p) * 8\<rparr>)"

text \<open>The zeros up to the length's place: not returning is \<^const>\<open>None\<close>.\<close>

partial_function (option) pad_zeros :: "sha256 \<Rightarrow> sha256 option" where
  "pad_zeros s = (if sh_have s = 56 then Some s else pad_zeros (sha256_feed [0] s))"

definition sha256_end :: "sha256 \<Rightarrow> (u8 list \<times> sha256) option" where
  "sha256_end s =
     (case pad_zeros (sha256_feed [0x80] s) of
        None \<Rightarrow> None
      | Some t \<Rightarrow>
          (let len = map (\<lambda>i. ucast (drop_bit (56 - 8 * i) (sh_bits s))) [0..<8];
               b = laid_over 56 len (sh_block t);
               h = compress b (sh_h t)
           in Some (concat (map (\<lambda>i. [ucast (drop_bit 24 (h ! i)), ucast (drop_bit 16 (h ! i)), ucast (drop_bit 8 (h ! i)), ucast (h ! i)]) [0..<8]),
                    t\<lparr>sh_block := b, sh_h := h, sh_have := 0\<rparr>)))"

definition sha256_hex :: "u8 list \<Rightarrow> string" where
  "sha256_hex digest = concat (map (\<lambda>b. [''0123456789abcdef'' ! unat (drop_bit 4 b), ''0123456789abcdef'' ! unat (b AND 0xF)]) digest)"

text \<open>
  A file as the calls give it: whether it opens, what each read brings until one brings nothing, whether one
  of them failed, and whether it closes.  The struct on the stack is what it was.
\<close>

record reading =
  rg_opens :: bool
  rg_chunks :: "u8 list list"
  rg_failed :: bool
  rg_closes :: bool

definition sha256_file :: "sha256 \<Rightarrow> reading \<Rightarrow> (string \<times> nat) option" where
  "sha256_file s0 r =
     (if \<not> rg_opens r then None
      else case fold (\<lambda>c (s, n). (sha256_feed c s, n + length c)) (takeWhile (\<lambda>c. c \<noteq> []) (rg_chunks r)) (sha256_init s0, 0) of
        (s, n) \<Rightarrow>
          (if rg_failed r \<or> \<not> rg_closes r then None
           else case sha256_end s of None \<Rightarrow> None | Some (digest, _) \<Rightarrow> Some (sha256_hex digest, n)))"

section \<open>The standard\<close>

definition small_sigma0 :: "u32 \<Rightarrow> u32" where
  "small_sigma0 x = word_rotr 7 x XOR word_rotr 18 x XOR drop_bit 3 x"

definition small_sigma1 :: "u32 \<Rightarrow> u32" where
  "small_sigma1 x = word_rotr 17 x XOR word_rotr 19 x XOR drop_bit 10 x"

definition big_sigma0 :: "u32 \<Rightarrow> u32" where
  "big_sigma0 x = word_rotr 2 x XOR word_rotr 13 x XOR word_rotr 22 x"

definition big_sigma1 :: "u32 \<Rightarrow> u32" where
  "big_sigma1 x = word_rotr 6 x XOR word_rotr 11 x XOR word_rotr 25 x"

text \<open>The word of the schedule at \<open>t\<close>, and the registers after \<open>t\<close> rounds.\<close>

fun sched :: "u8 list \<Rightarrow> nat \<Rightarrow> u32" where
  "sched b t =
     (if t < 16 then be_word b t
      else small_sigma1 (sched b (t - 2)) + sched b (t - 7) + small_sigma0 (sched b (t - 15)) + sched b (t - 16))"

declare sched.simps [simp del]

fun rounds :: "u8 list \<Rightarrow> nat \<Rightarrow> regs \<Rightarrow> regs" where
  "rounds b 0 r = r"
| "rounds b (Suc t) r =
     (case rounds b t r of (a0, b0, c0, d0, e0, f0, g0, h0) \<Rightarrow>
        let T1 = h0 + big_sigma1 e0 + ((e0 AND f0) XOR (NOT e0 AND g0)) + K ! t + sched b t;
            T2 = big_sigma0 a0 + ((a0 AND b0) XOR (a0 AND c0) XOR (b0 AND c0))
        in (T1 + T2, a0, b0, c0, d0 + T1, e0, f0, g0))"

definition regs_list :: "regs \<Rightarrow> u32 list" where
  "regs_list r = (case r of (a, b, c, d, e, f, g, h) \<Rightarrow> [a, b, c, d, e, f, g, h])"

definition hash_block :: "u8 list \<Rightarrow> u32 list \<Rightarrow> u32 list" where
  "hash_block b h = map2 (+) h (regs_list (rounds b 64 (h ! 0, h ! 1, h ! 2, h ! 3, h ! 4, h ! 5, h ! 6, h ! 7)))"

function blocks :: "u8 list \<Rightarrow> u8 list list" where
  "blocks m = (if length m < 64 then [] else take 64 m # blocks (drop 64 m))"
  by auto
termination by (relation "measure length") auto

declare blocks.simps [simp del]

text \<open>A one bit, zeros to eight bytes short of a block, and the length in bits.\<close>

definition be64 :: "u64 \<Rightarrow> u8 list" where
  "be64 v = map (\<lambda>i. ucast (drop_bit (56 - 8 * i) v)) [0..<8]"

definition padding :: "nat \<Rightarrow> u8 list" where
  "padding n = [0x80] @ replicate ((119 - n mod 64) mod 64) 0 @ be64 (of_nat (8 * n))"

definition be_bytes :: "u32 \<Rightarrow> u8 list" where
  "be_bytes x = [ucast (drop_bit 24 x), ucast (drop_bit 16 x), ucast (drop_bit 8 x), ucast x]"

definition fips_sha256 :: "u8 list \<Rightarrow> u8 list" where
  "fips_sha256 m = concat (map be_bytes (fold hash_block (blocks (m @ padding (length m))) iv))"

section \<open>A block\<close>

lemma ror_rotr: "0 < n \<Longrightarrow> n < 32 \<Longrightarrow> ror x n = word_rotr n x"
proof (rule bit_word_eqI)
  fix i assume a: "0 < n" "n < 32" "i < LENGTH(32)"
  have "(i + n) mod 32 = (if i + n < 32 then i + n else i + n - 32)" using a by (simp add: mod_if)
  then show "bit (ror x n) i = bit (word_rotr n x) i"
    using a by (auto simp: ror_def bit_simps bit_word_rotr_iff add.commute dest: bit_imp_le_length)
qed

lemma sigmas:
  "ror x 7 XOR ror x 18 XOR drop_bit 3 x = small_sigma0 x" "ror x 17 XOR ror x 19 XOR drop_bit 10 x = small_sigma1 x"
  "ror x 2 XOR ror x 13 XOR ror x 22 = big_sigma0 x" "ror x 6 XOR ror x 11 XOR ror x 25 = big_sigma1 x"
  by (simp_all only: ror_rotr small_sigma0_def small_sigma1_def big_sigma0_def big_sigma1_def)

lemma schedule_upto: "n \<le> 48 \<Longrightarrow> fold sched_step [16..<16 + n] (map (be_word p) [0..<16]) = map (sched p) [0..<16 + n]"
proof (induction n)
  case 0
  then show ?case by (simp add: sched.simps)
next
  case (Suc n)
  have "[0..<16 + Suc n] = [0..<16 + n] @ [16 + n]" "[16..<16 + Suc n] = [16..<16 + n] @ [16 + n]" by (simp_all only: add_Suc_right upt_Suc) simp_all
  moreover have "sched p (16 + n) = sched p n + small_sigma0 (sched p (Suc n)) + sched p (9 + n) + small_sigma1 (sched p (14 + n))"
    by (subst sched.simps) (simp add: add.commute add.left_commute)
  ultimately show ?case
    using Suc by (simp add: sched_step_def sigmas nth_append Let_def)
qed

lemma schedule_sched: "schedule p = map (sched p) [0..<64]"
  using schedule_upto [of 48 p] by (simp add: schedule_def)

lemma rounds_fold: "n \<le> 64 \<Longrightarrow> fold (compress_round (schedule p)) [0..<n] r = rounds p n r"
  by (induction n) (auto simp: compress_round_def schedule_sched sigmas Let_def split: prod.splits)

lemma compress_is_standard: "length h = 8 \<Longrightarrow> compress p h = hash_block p h"
proof -
  assume h: "length h = 8"
  have l: "h = [h ! 0, h ! 1, h ! 2, h ! 3, h ! 4, h ! 5, h ! 6, h ! 7]"
    by (rule nth_equalityI) (auto simp: h less_Suc_eq numeral_eq_Suc)
  let ?r = "(h ! 0, h ! 1, h ! 2, h ! 3, h ! 4, h ! 5, h ! 6, h ! 7)"
  obtain a b c d e f g k where r: "rounds p 64 ?r = (a, b, c, d, e, f, g, k)" by (metis surj_pair)
  have "hash_block p h = map2 (+) [h ! 0, h ! 1, h ! 2, h ! 3, h ! 4, h ! 5, h ! 6, h ! 7] [a, b, c, d, e, f, g, k]"
    unfolding hash_block_def r regs_list_def using l by simp
  then show ?thesis unfolding compress_def rounds_fold [OF order_refl] r by simp
qed

lemma length_compress [simp]: "length (compress p h) = 8"
  by (simp add: compress_def case_prod_unfold)

section \<open>The stream\<close>

text \<open>What is left of a message after its whole blocks.\<close>

function left_over :: "u8 list \<Rightarrow> u8 list" where
  "left_over m = (if length m < 64 then m else left_over (drop 64 m))"
  by auto
termination by (relation "measure length") auto

declare left_over.simps [simp del]

lemma short [simp]: "length m < 64 \<Longrightarrow> blocks m = []" "length m < 64 \<Longrightarrow> left_over m = m"
  by (simp_all add: blocks.simps left_over.simps)

lemma long: "\<not> length m < 64 \<Longrightarrow> blocks m = take 64 m # blocks (drop 64 m)" "\<not> length m < 64 \<Longrightarrow> left_over m = left_over (drop 64 m)"
  by (subst blocks.simps, simp) (subst left_over.simps, simp)

lemma length_left_over: "length (left_over m) = length m mod 64"
  by (induction m rule: left_over.induct) (subst left_over.simps, simp add: le_mod_geq)

lemma blocks_both: "blocks (m @ p) = blocks m @ blocks (left_over m @ p) \<and> left_over (m @ p) = left_over (left_over m @ p)"
proof (induction m rule: blocks.induct)
  case (1 m)
  then show ?case using long [of m] long [of "m @ p"] by (cases "length m < 64") simp_all
qed

lemmas blocks_append = blocks_both [THEN conjunct1] blocks_both [THEN conjunct2]

text \<open>How many zeros, from where the block stands.\<close>

lemma zeros_needed: "(120 - n mod 64) mod 64 = (if n mod 64 \<le> 56 then 56 - n mod 64 else 120 - n mod 64)" for n :: nat
proof -
  have "(120 - r) mod 64 = (if r \<le> 56 then 56 - r else 120 - r)" if "r < 64" for r :: nat
    using that le_mod_geq [of 64 "120 - r"] by auto
  then show ?thesis by simp
qed

lemma zeros_119: "(119 - n mod 64) mod 64 = (if n mod 64 \<le> 55 then 55 - n mod 64 else 119 - n mod 64)" for n :: nat
proof -
  have "(119 - r) mod 64 = (if r \<le> 55 then 55 - r else 119 - r)" if "r < 64" for r :: nat
    using that le_mod_geq [of 64 "119 - r"] by auto
  then show ?thesis by simp
qed

lemma zeros_after_one: "(120 - Suc n mod 64) mod 64 = (119 - n mod 64) mod 64" for n :: nat
  unfolding zeros_needed zeros_119 by (simp add: mod_Suc)

lemma one_zero_less: "(120 - n mod 64) mod 64 = Suc k \<Longrightarrow> n mod 64 \<noteq> 56 \<and> (120 - Suc n mod 64) mod 64 = k" for n :: nat
  unfolding zeros_needed by (auto simp: mod_Suc split: if_splits)

text \<open>The state after some bytes, from registers \<open>h\<close>: their whole blocks hashed and the rest in the block.\<close>

definition stands :: "u8 list \<Rightarrow> u32 list \<Rightarrow> u64 \<Rightarrow> sha256 \<Rightarrow> bool" where
  "stands q h bits s \<longleftrightarrow>
     sh_h s = fold compress (blocks q) h \<and> length (sh_block s) = 64 \<and> sh_have s = length (left_over q) \<and>
     take (sh_have s) (sh_block s) = left_over q \<and> sh_bits s = bits"

definition absorbed :: "u8 list \<Rightarrow> sha256 \<Rightarrow> bool" where
  "absorbed m = stands m iv (of_nat (8 * length m))"

lemma stands_block: "length b = 64 \<Longrightarrow> stands (b @ q) h bits s = stands q (compress b h) bits s"
  using long [of "b @ q"] by (simp add: stands_def)

lemma feed_loop_stands:
  "sh_have s < 64 \<Longrightarrow> length (sh_block s) = 64 \<Longrightarrow>
     stands (take (sh_have s) (sh_block s) @ p) (sh_h s) (sh_bits s) (feed_loop p s)"
proof (induction p s rule: feed_loop.induct)
  case (1 p s)
  let ?b = "take (sh_have s) (sh_block s)"
  consider "p = []" | "p \<noteq> []" "sh_have s = 0" "64 \<le> length p" | "p \<noteq> []" "\<not> (sh_have s = 0 \<and> 64 \<le> length p)" by auto
  then show ?case
  proof cases
    case 1
    then show ?thesis using "1.prems" by (simp add: feed_loop.simps stands_def)
  next
    case 2
    then have "feed_loop p s = feed_loop (drop 64 p) (s\<lparr>sh_h := compress (take 64 p) (sh_h s)\<rparr>)" by (subst feed_loop.simps) simp
    moreover have "p = take 64 p @ drop 64 p" "length (take 64 p) = 64" using 2 by simp_all
    ultimately show ?thesis using "1.IH"(1) "1.prems" 2 stands_block [of "take 64 p" "drop 64 p"] by simp
  next
    case 3
    define n where "n = (if sh_have s \<le> 64 \<and> 64 - sh_have s \<le> length p then 64 - sh_have s else length p)"
    define t where "t = s\<lparr>sh_block := laid_over (sh_have s) (take n p) (sh_block s), sh_have := sh_have s + n\<rparr>"
    define u where "u = (if sh_have t = 64 then t\<lparr>sh_h := compress (sh_block t) (sh_h t), sh_have := 0\<rparr> else t)"
    have n: "n \<le> length p" "sh_have s + n \<le> 64" "sh_have s + n < 64 \<longrightarrow> n = length p" using "1.prems"(1) by (auto simp: n_def)
    have f: "feed_loop p s = feed_loop (drop n p) u"
      by (subst feed_loop.simps) (simp only: 3 if_False Let_def flip: n_def t_def u_def)
    have t: "length (sh_block t) = 64" "take (sh_have t) (sh_block t) = ?b @ take n p" "sh_have t = sh_have s + n" "sh_bits t = sh_bits s" "sh_h t = sh_h s"
      using "1.prems" n by (simp_all add: t_def laid_over_def)
    have IH: "stands (take (sh_have u) (sh_block u) @ drop n p) (sh_h u) (sh_bits u) (feed_loop (drop n p) u)"
      unfolding u_def by (rule "1.IH"(2) [OF 3 n_def t_def]) (use n t in auto)
    have q: "?b @ p = take (sh_have t) (sh_block t) @ drop n p" using t(2) by simp
    show ?thesis
    proof (cases "sh_have t = 64")
      case True
      then have "stands (drop n p) (compress (sh_block t) (sh_h s)) (sh_bits s) (feed_loop p s)" using IH t(4,5) f by (simp add: u_def)
      then show ?thesis unfolding q using stands_block [OF t(1)] True t(1) by simp
    next
      case False
      then have "u = t" by (simp add: u_def)
      then show ?thesis unfolding f q using IH t(4,5) by simp
    qed
  qed
qed

lemma feed_absorbs: "absorbed m s \<Longrightarrow> absorbed (m @ p) (sha256_feed p s)"
proof -
  assume a: "absorbed m s"
  let ?s = "s\<lparr>sh_bits := sh_bits s + of_nat (length p) * 8\<rparr>"
  have s: "sh_have s < 64" "length (sh_block s) = 64" "take (sh_have s) (sh_block s) = left_over m" "sh_h s = fold compress (blocks m) iv"
      "sh_bits ?s = of_nat (8 * length (m @ p))"
    using a unfolding absorbed_def stands_def by (auto simp: length_left_over algebra_simps)
  then have "stands (left_over m @ p) (sh_h s) (of_nat (8 * length (m @ p))) (sha256_feed p s)"
    using feed_loop_stands [of ?s p] by (simp add: sha256_feed_def mult.commute)
  then show "absorbed (m @ p) (sha256_feed p s)"
    unfolding absorbed_def stands_def s(4) blocks_append [of m p] fold_append o_apply by blast
qed

lemma pad_absorbs:
  assumes "absorbed m s"
  obtains t where "pad_zeros s = Some t" "absorbed (m @ replicate ((120 - length m mod 64) mod 64) 0) t" "sh_have t = 56"
proof -
  have "\<exists>t. pad_zeros s = Some t \<and> absorbed (m @ replicate k 0) t \<and> sh_have t = 56" if "k = (120 - length m mod 64) mod 64" for k
    using assms that
  proof (induction k arbitrary: m s)
    case 0
    then have "sh_have s = 56" by (simp add: absorbed_def stands_def length_left_over zeros_needed split: if_splits)
    then show ?case using 0 by (subst pad_zeros.simps) simp
  next
    case (Suc k)
    then have "length m mod 64 \<noteq> 56" "k = (120 - length (m @ [0 :: u8]) mod 64) mod 64"
      using one_zero_less [of "length m" k] by simp_all
    moreover from this(1) have "sh_have s \<noteq> 56" using Suc.prems(1) by (simp add: absorbed_def stands_def length_left_over)
    ultimately show ?case
      using Suc.IH [OF feed_absorbs [OF Suc.prems(1), of "[0]"]] by (subst pad_zeros.simps) simp
  qed
  then show ?thesis using that by blast
qed

lemma length_fold_compress: "length h = 8 \<Longrightarrow> length (fold compress bs h) = 8"
  by (induction bs arbitrary: h) simp_all

lemma fold_standard: "length h = 8 \<Longrightarrow> fold compress bs h = fold hash_block bs h"
  by (induction bs arbitrary: h) (simp_all add: compress_is_standard flip: compress_is_standard)

lemma length_iv: "length iv = 8"
  by (simp add: iv_def)

lemma end_digest:
  assumes "absorbed m s"
  obtains t where "sha256_end s = Some (fips_sha256 m, t)"
proof -
  let ?z = "replicate ((119 - length m mod 64) mod 64) (0 :: u8)"
  obtain t where t: "pad_zeros (sha256_feed [0x80] s) = Some t" "absorbed ((m @ [0x80]) @ replicate ((120 - length (m @ [0x80 :: u8]) mod 64) mod 64) 0) t" "sh_have t = 56"
    using pad_absorbs [OF feed_absorbs [OF assms, of "[0x80]"]] .
  have a: "absorbed (m @ [0x80] @ ?z) t" using t(2) by (simp add: zeros_after_one)
  let ?m = "m @ [0x80] @ ?z" and ?l = "be64 (of_nat (8 * length m))"
  have b: "laid_over 56 ?l (sh_block t) = left_over ?m @ ?l" "length (left_over ?m @ ?l) = 64" "sh_h t = fold compress (blocks ?m) iv"
    using a t(3) by (simp_all add: absorbed_def stands_def laid_over_def be64_def)
  have bits: "map (\<lambda>i. ucast (drop_bit (56 - 8 * i) (sh_bits s))) [0..<8] = ?l" using assms by (simp add: absorbed_def stands_def be64_def)
  let ?h = "fold hash_block (blocks (m @ padding (length m))) iv"
  have "blocks (m @ padding (length m)) = blocks ?m @ [left_over ?m @ ?l]"
    using blocks_append(1) [of ?m ?l] long(1) [of "left_over ?m @ ?l"] b(2) by (simp add: padding_def)
  then have h: "compress (left_over ?m @ ?l) (sh_h t) = ?h"
    unfolding fold_standard [OF length_iv, symmetric] b(3) by simp
  have "length ?h = 8"
    unfolding fold_standard [OF length_iv, symmetric] by (rule length_fold_compress [OF length_iv])
  then have "map (\<lambda>i. be_bytes (?h ! i)) [0..<8] = map be_bytes ?h" by (intro nth_equalityI) simp_all
  then have "concat (map (\<lambda>i. be_bytes (?h ! i)) [0..<8]) = fips_sha256 m" by (simp only: fips_sha256_def)
  then show ?thesis
    using that t(1) unfolding sha256_end_def bits Let_def by (simp only: option.case b(1) h be_bytes_def)
qed



end
