(* ===== verification/Chk.thy ===== *)
theory Chk
  imports Prelude
begin

text \<open>
  \<^verbatim>\<open>chk.c\<close>: the checkpoint file.  A body is a stream of little-endian fields, with one hole in it where main
  memory goes; the file is a header and the body packed as runs, read through a source that holds
  one block of the hole at a time and written through a sink.  What the allocator gives and what
  the file takes are numbers of bytes.
\<close>

unbundle bit_operations_syntax

section \<open>Buffers\<close>

record buf =
  bf_p :: "u8 list"
  bf_cap :: nat
  bf_broken :: bool

function grown :: "nat \<Rightarrow> nat \<Rightarrow> nat" where
  "grown want n = (if 0 < want \<and> want < n then grown (2 * want) n else want)"
  by auto
termination by (relation "measure (\<lambda>(want, n). n - want)") auto

declare grown.simps [simp del]

text \<open>\<open>most\<close> is the largest allocation that is given.\<close>

definition bput :: "nat \<Rightarrow> u8 list \<Rightarrow> 'a buf_scheme \<Rightarrow> 'a buf_scheme" where
  "bput most d b =
     (if bf_broken b then b
      else if bf_cap b < length (bf_p b) + length d then
        (let want = grown (if bf_cap b \<noteq> 0 then bf_cap b * 2 else 4096) (length (bf_p b) + length d)
         in if most < want then b\<lparr>bf_broken := True\<rparr> else b\<lparr>bf_p := bf_p b @ d, bf_cap := want\<rparr>)
      else b\<lparr>bf_p := bf_p b @ d\<rparr>)"

section \<open>The body\<close>

record chk = buf +
  ck_word_bytes :: nat
  ck_version :: u32
  ck_hole :: "u8 list option"
  ck_hole_at :: nat

definition chk_init :: chk where
  "chk_init = \<lparr>bf_p = [], bf_cap = 0, bf_broken = False, ck_word_bytes = 4, ck_version = 0, ck_hole = None, ck_hole_at = 0\<rparr>"

definition put :: "nat \<Rightarrow> u8 list \<Rightarrow> chk \<Rightarrow> chk" where
  "put most d w = bput most d w"

definition le_bytes :: "nat \<Rightarrow> 'a::len word \<Rightarrow> u8 list" where
  "le_bytes n v = map (\<lambda>i. ucast (drop_bit (8 * i) v)) [0..<n]"

definition chk_u8 :: "nat \<Rightarrow> u8 \<Rightarrow> chk \<Rightarrow> chk" where "chk_u8 most v = put most [v]"
definition chk_u16 :: "nat \<Rightarrow> u16 \<Rightarrow> chk \<Rightarrow> chk" where "chk_u16 most v = put most (le_bytes 2 v)"
definition chk_u32 :: "nat \<Rightarrow> u32 \<Rightarrow> chk \<Rightarrow> chk" where "chk_u32 most v = put most (le_bytes 4 v)"
definition chk_u64 :: "nat \<Rightarrow> u64 \<Rightarrow> chk \<Rightarrow> chk" where "chk_u64 most v = put most (le_bytes 8 v)"

definition chk_word :: "nat \<Rightarrow> u64 \<Rightarrow> chk \<Rightarrow> chk" where
  "chk_word most v w = put most (le_bytes (ck_word_bytes w) v) w"

definition chk_words :: "nat \<Rightarrow> u64 list \<Rightarrow> chk \<Rightarrow> chk" where
  "chk_words most vs w = fold (chk_word most) vs (chk_u64 most (of_nat (length vs)) w)"

definition chk_hole :: "u8 list \<Rightarrow> chk \<Rightarrow> chk" where
  "chk_hole bytes w =
     (if ck_hole w \<noteq> None then w\<lparr>bf_broken := True\<rparr> else w)\<lparr>ck_hole := Some bytes, ck_hole_at := length (bf_p w)\<rparr>"

definition chk_bool :: "nat \<Rightarrow> bool \<Rightarrow> chk \<Rightarrow> chk" where
  "chk_bool most v = chk_u8 most (if v then 1 else 0)"

definition chk_bytes :: "nat \<Rightarrow> u8 list \<Rightarrow> chk \<Rightarrow> chk" where
  "chk_bytes most v w = put most v (chk_u64 most (of_nat (length v)) w)"

definition chk_u16s :: "nat \<Rightarrow> u16 list \<Rightarrow> chk \<Rightarrow> chk" where
  "chk_u16s most vs w = fold (chk_u16 most) vs (chk_u64 most (of_nat (length vs)) w)"

definition chk_u32s :: "nat \<Rightarrow> u32 list \<Rightarrow> chk \<Rightarrow> chk" where
  "chk_u32s most vs w = fold (chk_u32 most) vs (chk_u64 most (of_nat (length vs)) w)"

definition chk_u64s :: "nat \<Rightarrow> u64 list \<Rightarrow> chk \<Rightarrow> chk" where
  "chk_u64s most vs w = fold (chk_u64 most) vs (chk_u64 most (of_nat (length vs)) w)"

definition chk_opt_u8 :: "nat \<Rightarrow> u8 option \<Rightarrow> chk \<Rightarrow> chk" where
  "chk_opt_u8 most v w = (case v of None \<Rightarrow> chk_bool most False w | Some x \<Rightarrow> chk_u8 most x (chk_bool most True w))"

definition chk_opt_u16 :: "nat \<Rightarrow> u16 option \<Rightarrow> chk \<Rightarrow> chk" where
  "chk_opt_u16 most v w = (case v of None \<Rightarrow> chk_bool most False w | Some x \<Rightarrow> chk_u16 most x (chk_bool most True w))"

definition chk_opt_u64 :: "nat \<Rightarrow> u64 option \<Rightarrow> chk \<Rightarrow> chk" where
  "chk_opt_u64 most v w = (case v of None \<Rightarrow> chk_bool most False w | Some x \<Rightarrow> chk_u64 most x (chk_bool most True w))"

section \<open>The sink\<close>

text \<open>A buffer, or a file that takes so many bytes: what was written, the room left, and whether a write fell short.\<close>

datatype sink = To_buffer nat buf | To_file "u8 list" nat bool

fun sput :: "u8 list \<Rightarrow> sink \<Rightarrow> sink" where
  "sput d (To_buffer most b) = To_buffer most (bput most d b)"
| "sput d (To_file out room broken) =
     (if \<not> broken \<and> d \<noteq> [] then To_file (out @ take room d) (room - length d) (room < length d) else To_file out room broken)"

lemma drop_bit_less: "drop_bit 7 v \<noteq> 0 \<Longrightarrow> unat (drop_bit 7 v) < unat v" for v :: u64
proof -
  assume a: "drop_bit 7 v \<noteq> 0"
  have "unat (drop_bit 7 v) = unat v div 128" by (simp add: drop_bit_eq_div unat_div)
  moreover have "unat v \<noteq> 0" using a by (auto simp: unat_eq_0)
  ultimately show ?thesis by simp
qed

function varint :: "u64 \<Rightarrow> sink \<Rightarrow> sink" where
  "varint v k =
     (let byte = ucast (v AND 0x7f); rest = drop_bit 7 v
      in if rest = 0 then sput [byte] k else varint rest (sput [byte OR 0x80] k))"
  by auto
termination by (relation "measure (\<lambda>(v, k). unat v)") (auto intro: drop_bit_less)

declare varint.simps [simp del]

section \<open>The source\<close>

abbreviation (input) SRC_BLOCK :: nat where "SRC_BLOCK \<equiv> 4096"
abbreviation (input) CHK_MIN_ZERO_RUN :: nat where "CHK_MIN_ZERO_RUN \<equiv> 4"

text \<open>The bytes before the hole, the hole with its address, and the bytes after it; the block of the hole held, and where it is of.\<close>

record src =
  sr_a :: "u8 list"
  sr_h :: "u8 list"
  sr_addr :: nat
  sr_b :: "u8 list"
  sr_block :: "u8 list"
  sr_block_at :: "nat option"

definition sr_len :: "src \<Rightarrow> nat" where
  "sr_len s = length (sr_a s) + length (sr_h s) + length (sr_b s)"

text \<open>The bytes up to an aligned address, then words, then the bytes left.\<close>

definition src_read :: "nat \<Rightarrow> nat \<Rightarrow> u8 list \<Rightarrow> u8 list" where
  "src_read addr at h =
     (let n = (if length h - at < SRC_BLOCK then length h - at else SRC_BLOCK);
          i = min n ((4 - (addr + at) mod 4) mod 4);
          k = (n - i) div 4
      in take i (drop at h) @ bytes_of_words (words_of_bytes k (drop (at + i) h)) @ take (n - i - 4 * k) (drop (at + i + 4 * k) h))"

definition src_load :: "nat \<Rightarrow> src \<Rightarrow> src" where
  "src_load at s =
     (let got = src_read (sr_addr s) at (sr_h s)
      in s\<lparr>sr_block := got @ drop (length got) (sr_block s), sr_block_at := Some at\<rparr>)"

text \<open>Where the block begins that an offset of the hole is in, and that block held.\<close>

definition block_of :: "nat \<Rightarrow> nat" where
  "block_of i = i - i mod SRC_BLOCK"

lemma in_block: "block_of i \<le> i" "i - block_of i = i mod SRC_BLOCK" "i - block_of i < SRC_BLOCK"
  by (simp_all add: block_of_def diff_diff_cancel)

definition src_held :: "nat \<Rightarrow> src \<Rightarrow> src" where
  "src_held at s = (if sr_block_at s \<noteq> Some at then src_load at s else s)"

definition src_at :: "nat \<Rightarrow> src \<Rightarrow> u8 \<times> src" where
  "src_at i s =
     (if i < length (sr_a s) then (sr_a s ! i, s)
      else let i = i - length (sr_a s)
        in if i < length (sr_h s) then
             (let at = block_of i; s = src_held at s in (sr_block s ! (i - at), s))
           else (sr_b s ! (i - length (sr_h s)), s))"

lemma load_frame [simp]:
  "sr_a (src_load at s) = sr_a s" "sr_h (src_load at s) = sr_h s" "sr_b (src_load at s) = sr_b s" "sr_addr (src_load at s) = sr_addr s"
  "sr_block_at (src_load at s) = Some at" "sr_len (src_load at s) = sr_len s"
  by (simp_all add: src_load_def Let_def sr_len_def)

lemma held_frame [simp]:
  "sr_a (src_held at s) = sr_a s" "sr_h (src_held at s) = sr_h s" "sr_b (src_held at s) = sr_b s" "sr_addr (src_held at s) = sr_addr s"
  "sr_block_at (src_held at s) = Some at" "sr_len (src_held at s) = sr_len s" "src_held at (src_held at s) = src_held at s"
  by (simp_all add: src_held_def)

lemma src_at_frame [simp]:
  "sr_a (snd (src_at i s)) = sr_a s" "sr_h (snd (src_at i s)) = sr_h s" "sr_b (snd (src_at i s)) = sr_b s" "sr_len (snd (src_at i s)) = sr_len s"
  by (simp_all add: src_at_def Let_def)

lemma src_at_again:
  assumes "src_at i s = (v, t)"
  shows "src_at i t = (v, t)"
proof -
  consider "i < length (sr_a s)" | "\<not> i < length (sr_a s)" "i - length (sr_a s) < length (sr_h s)" | "\<not> i < length (sr_a s)" "\<not> i - length (sr_a s) < length (sr_h s)"
    by blast
  then show ?thesis
  proof cases
    case 2
    let ?i = "i - length (sr_a s)"
    have "t = src_held (block_of ?i) s" "v = sr_block t ! (?i - block_of ?i)"
      using assms 2 unfolding src_at_def Let_def by auto
    then show ?thesis using 2 unfolding src_at_def Let_def by simp
  qed (use assms in \<open>auto simp: src_at_def\<close>)
qed

function src_copy :: "nat \<Rightarrow> nat \<Rightarrow> src \<Rightarrow> sink \<Rightarrow> src \<times> sink" where
  "src_copy from n s k =
     (if n = 0 then (s, k)
      else if from < length (sr_a s) then
        (let m = min (length (sr_a s) - from) n in src_copy (from + m) (n - m) s (sput (take m (drop from (sr_a s))) k))
      else if from - length (sr_a s) < length (sr_h s) then
        (let i = from - length (sr_a s); at = block_of i; s = src_held at s;
             m = min (min (SRC_BLOCK - (i - at)) (length (sr_h s) - i)) n
         in src_copy (from + m) (n - m) s (sput (take m (drop (i - at) (sr_block s))) k))
      else (s, sput (take n (drop (from - length (sr_a s) - length (sr_h s)) (sr_b s))) k))"
  by auto
termination
proof (relation "measure (\<lambda>(from, n, s, k). n)", goal_cases)
  case (3 fr n s k i at t m)
  have "i < length (sr_h s)" "i - at < SRC_BLOCK" "t = src_held at s" using 3 in_block(3) [of i] by (simp_all only:)
  then have "0 < SRC_BLOCK - (i - at)" "0 < length (sr_h t) - i" by simp_all
  then have "0 < m" using 3(1,7) by (simp only: min_less_iff_conj) simp
  then show ?case using 3(1) by simp
qed simp_all

declare src_copy.simps [simp del]

function zeros_at :: "nat \<Rightarrow> src \<Rightarrow> nat \<times> src" where
  "zeros_at i s =
     (if i < sr_len s then
        (case src_at i s of (v, s) \<Rightarrow> if v = 0 then (case zeros_at (i + 1) s of (n, s) \<Rightarrow> (n + 1, s)) else (0, s))
      else (0, s))"
  by auto
termination by (relation "measure (\<lambda>(i, s). sr_len s - i)") (auto dest!: arg_cong [where f = "\<lambda>x. sr_len (snd x)"])

declare zeros_at.simps [simp del]

lemma zeros_frame [simp]: "sr_len (snd (zeros_at i s)) = sr_len s"
proof (induction i s rule: zeros_at.induct)
  case (1 i s)
  obtain v t where v: "src_at i s = (v, t)" by fastforce
  then have "sr_len t = sr_len s" using src_at_frame(4) [of i s] by simp
  then show ?case using 1 [of v t] v by (subst zeros_at.simps) (simp add: case_prod_unfold)
qed

text \<open>A byte that was read as zero begins a run of zeros.\<close>

lemma zeros_some: "src_at i s = (0, t) \<Longrightarrow> i < sr_len s \<Longrightarrow> 0 < fst (zeros_at i t)"
  using src_at_again [of i s 0 t] src_at_frame(4) [of i s] by (subst zeros_at.simps) (simp split: prod.split)

section \<open>Packing\<close>

text \<open>The end of the literals that begin at an offset.\<close>

function literal_end :: "nat \<Rightarrow> src \<Rightarrow> nat \<times> src" where
  "literal_end i s =
     (if i < sr_len s then
        (case src_at i s of (v, s) \<Rightarrow>
           if v \<noteq> 0 then literal_end (i + 1) s
           else case zeros_at i s of (run, s) \<Rightarrow> if CHK_MIN_ZERO_RUN \<le> run then (i, s) else literal_end (i + run) s)
      else (i, s))"
  by auto
termination
proof (relation "measure (\<lambda>(i, s). sr_len s - i)", goal_cases)
  case (2 i s v t)
  then have "sr_len t = sr_len s" using src_at_frame(4) [of i s] by (metis snd_conv)
  then show ?case using 2(1) by simp
next
  case (3 i s v t run u)
  then have v: "src_at i s = (0, t)" "zeros_at i t = (run, u)" by simp_all
  then have "sr_len t = sr_len s" "sr_len u = sr_len t" "0 < run"
    using zeros_some [OF v(1) 3(1)] zeros_frame [of i t] src_at_frame(4) [of i s] by simp_all
  then show ?case using 3(1) by simp
qed simp

declare literal_end.simps [simp del]

lemma literal_end_frame: "sr_len (snd (literal_end i s)) = sr_len s \<and> i \<le> fst (literal_end i s)"
proof (induction i s rule: literal_end.induct)
  case (1 i s)
  obtain v t where v: "src_at i s = (v, t)" by fastforce
  obtain run u where u: "zeros_at i t = (run, u)" by fastforce
  have "sr_len t = sr_len s" "sr_len u = sr_len t" using v u src_at_frame(4) [of i s] zeros_frame [of i t] by simp_all
  then show ?case using 1(1) [of v t] 1(2) [of v t run u] v u by (subst (1 2) literal_end.simps) (auto intro: le_trans)
qed

lemma literal_end_after:
  assumes "i < sr_len s" "zeros_at i s = (0, t)"
  shows "i < fst (literal_end i t)"
proof -
  obtain v u where v: "src_at i s = (v, u)" by fastforce
  then have "v \<noteq> 0" "u = t" using assms by (auto simp: zeros_at.simps [of i s] split: if_splits prod.splits)
  moreover have "sr_len t = sr_len s" using assms(2) zeros_frame [of i s] by simp
  ultimately have "literal_end i t = literal_end (i + 1) t" using assms(1) src_at_again [OF v] by (subst literal_end.simps) simp
  then show ?thesis using literal_end_frame [of "i + 1" t] by simp
qed

lemma src_copy_frame: "sr_len (fst (src_copy fr n s k)) = sr_len s"
proof (induction fr n s k rule: src_copy.induct)
  case (1 fr n s k)
  consider "n = 0" | "n \<noteq> 0" "fr < length (sr_a s)" | "n \<noteq> 0" "\<not> fr < length (sr_a s)" "fr - length (sr_a s) < length (sr_h s)"
    | "n \<noteq> 0" "\<not> fr < length (sr_a s)" "\<not> fr - length (sr_a s) < length (sr_h s)" by blast
  then show ?case
  proof cases
    case 2
    then show ?thesis using 1(1) [OF 2 refl] by (subst src_copy.simps) (simp only: if_True if_False Let_def)
  next
    case 3
    then show ?thesis using 1(2) [OF 3 refl refl refl refl] by (subst src_copy.simps) (simp only: if_True if_False Let_def held_frame)
  qed (simp_all add: src_copy.simps)
qed

function pack_runs :: "nat \<Rightarrow> src \<Rightarrow> sink \<Rightarrow> src \<times> sink" where
  "pack_runs i s k =
     (if i < sr_len s then
        (case zeros_at i s of (zeros, s) \<Rightarrow>
         case literal_end (i + zeros) s of (e, s) \<Rightarrow>
         case src_copy (i + zeros) (e - (i + zeros)) s (varint (of_nat (e - (i + zeros))) (varint (of_nat zeros) k)) of
           (s, k) \<Rightarrow> pack_runs e s k)
      else (s, k))"
  by pat_completeness simp

termination
proof (relation "measure (\<lambda>(i, s, k). sr_len s - i)", goal_cases)
  case (2 i s k zeros t e u v k')
  then have z: "zeros_at i s = (zeros, t)" "literal_end (i + zeros) t = (e, u)"
      "src_copy (i + zeros) (e - (i + zeros)) u (varint (of_nat (e - (i + zeros))) (varint (of_nat zeros) k)) = (v, k')" by simp_all
  have "sr_len t = sr_len s" "sr_len u = sr_len t" using z(1,2) zeros_frame [of i s] literal_end_frame [of "i + zeros" t] by simp_all
  moreover have "sr_len v = sr_len u"
    using src_copy_frame [of "i + zeros" "e - (i + zeros)" u "varint (of_nat (e - (i + zeros))) (varint (of_nat zeros) k)"] unfolding z(3) by simp
  moreover have "i < e"
  proof (cases "zeros = 0")
    case True
    then show ?thesis using literal_end_after [of i s t] z 2(1) by simp
  next
    case False
    then show ?thesis using literal_end_frame [of "i + zeros" t] z(2) by simp
  qed
  ultimately show ?case using 2(1) by simp
qed simp

declare pack_runs.simps [simp del]

definition src_of :: "nat \<Rightarrow> chk \<Rightarrow> src" where
  "src_of addr w =
     (let at = (case ck_hole w of Some _ \<Rightarrow> ck_hole_at w | None \<Rightarrow> length (bf_p w))
      in \<lparr>sr_a = take at (bf_p w), sr_h = (case ck_hole w of Some h \<Rightarrow> h | None \<Rightarrow> []), sr_addr = addr, sr_b = drop at (bf_p w),
          sr_block = replicate SRC_BLOCK 0, sr_block_at = None\<rparr>)"

text \<open>What the allocator gives: a source, and no more than \<open>most\<close> bytes at once.\<close>

definition chk_pack :: "nat \<Rightarrow> bool \<Rightarrow> u8 list \<Rightarrow> u8 list option" where
  "chk_pack most has_src raw =
     (if \<not> has_src then None
      else case pack_runs 0 (src_of 0 (chk_init\<lparr>bf_p := raw\<rparr>)) (To_buffer most \<lparr>bf_p = [], bf_cap = 0, bf_broken = False\<rparr>) of
          (_, To_buffer _ b) \<Rightarrow> if bf_broken b \<or> bf_p b = [] \<and> most = 0 then None else Some (bf_p b)
        | (_, To_file _ _ _) \<Rightarrow> None)"

text \<open>What the calls do: memory for the head and for a source, whether the file opens, what it takes and whether it closes.\<close>

record chk_io =
  io_most :: nat
  io_src :: bool
  io_opens :: bool
  io_room :: nat
  io_closes :: bool
  io_addr :: nat

datatype chk_err = No_memory | Not_opened | Not_written

definition kMagic :: "u8 list" where
  "kMagic = map (of_nat \<circ> of_char) ''muir checkpoint'' @ [10]"

abbreviation (input) CHK_VERSION :: u32 where "CHK_VERSION \<equiv> 54"

definition chk_head :: "nat \<Rightarrow> u8 list \<Rightarrow> u32 \<Rightarrow> chk \<Rightarrow> chk" where
  "chk_head most engine boards body =
     chk_u32 most boards (put most engine (chk_u8 most (of_nat (length engine))
       (chk_u32 most (if ck_version body \<noteq> 0 then ck_version body else CHK_VERSION) (put most kMagic chk_init))))"

definition chk_write_file :: "chk_io \<Rightarrow> u8 list \<Rightarrow> u32 \<Rightarrow> chk \<Rightarrow> chk_err option \<times> u8 list option" where
  "chk_write_file io engine boards body =
     (if bf_broken body then (Some No_memory, None)
      else let head = chk_head (io_most io) engine boards body
        in if bf_broken head \<or> \<not> io_src io then (Some No_memory, None)
           else if \<not> io_opens io then (Some Not_opened, None)
           else case pack_runs 0 (src_of (io_addr io) body) (sput (bf_p head) (To_file [] (io_room io) False)) of
               (_, To_file out room broken) \<Rightarrow> (if broken \<or> \<not> io_closes io then Some Not_written else None, Some out)
             | (_, To_buffer _ _) \<Rightarrow> (Some Not_written, None))"

end
