(* ===== verification/Chk_Props.thy ===== *)
theory Chk_Props
  imports Chk "HOL-Library.Sublist"
begin

text \<open>
  The checkpoint file read back: the source gives the bytes of the body in order, the packer writes one
  particular packing of them, and the reader of the checks takes it apart again.
\<close>

unbundle bit_operations_syntax

section \<open>The source\<close>

definition whole :: "src \<Rightarrow> u8 list" where
  "whole s = sr_a s @ sr_h s @ sr_b s"

definition held_ok :: "src \<Rightarrow> bool" where
  "held_ok s \<longleftrightarrow> (case sr_block_at s of None \<Rightarrow> True | Some at \<Rightarrow> prefix (take SRC_BLOCK (drop at (sr_h s))) (sr_block s))"

definition same :: "src \<Rightarrow> src \<Rightarrow> bool" where
  "same s t \<longleftrightarrow> sr_a t = sr_a s \<and> sr_h t = sr_h s \<and> sr_b t = sr_b s \<and> (held_ok s \<longrightarrow> held_ok t)"

lemma same_refl [simp]: "same s s"
  by (simp add: same_def)

lemma same_trans: "same s t \<Longrightarrow> same t u \<Longrightarrow> same s u"
  by (simp add: same_def)

lemma same_whole: "same s t \<Longrightarrow> whole t = whole s \<and> sr_len t = sr_len s"
  by (simp add: same_def whole_def sr_len_def)

lemma length_whole: "length (whole s) = sr_len s"
  by (simp add: whole_def sr_len_def)

lemma words_of_more: "4 * k \<le> length bs \<Longrightarrow> bytes_of_words (words_of_bytes k bs) = take (4 * k) bs"
proof -
  assume "4 * k \<le> length bs"
  then have "words_of_bytes k bs = words_of_bytes k (take (4 * k) bs)" "length (take (4 * k) bs) = 4 * k"
    by (auto simp: words_of_bytes_def intro!: map_cong)
  then show ?thesis by (simp only: bytes_of_words_of_bytes)
qed

lemma src_read_eq: "src_read addr at h = take SRC_BLOCK (drop at h)"
proof -
  define n where "n = (if length h - at < SRC_BLOCK then length h - at else SRC_BLOCK)"
  define i where "i = min n ((4 - (addr + at) mod 4) mod 4)"
  define k where "k = (n - i) div 4"
  have n: "n \<le> length (drop at h)" "take SRC_BLOCK (drop at h) = take n (drop at h)" by (auto simp: n_def)
  have i: "i \<le> n" by (simp add: i_def)
  then have k: "i + 4 * k \<le> n" using div_times_less_eq_dividend [of "n - i" 4] by (simp add: k_def)
  have w: "bytes_of_words (words_of_bytes k (drop (at + i) h)) = take (4 * k) (drop i (drop at h))"
    using n(1) k words_of_more [of k "drop (at + i) h"] by (simp add: add.commute)
  have "src_read addr at h = take i (drop at h) @ take (4 * k) (drop i (drop at h)) @ take (n - i - 4 * k) (drop (i + 4 * k) (drop at h))"
    unfolding src_read_def Let_def w [symmetric] by (simp add: n_def [symmetric] i_def [symmetric] k_def [symmetric] ac_simps)
  also have "\<dots> = take (i + (4 * k + (n - i - 4 * k))) (drop at h)" by (simp only: take_add drop_drop add.commute add.assoc add.left_commute)
  finally show ?thesis using n(2) k by simp
qed

lemma held_same: "same s (src_held at s)" "held_ok s \<Longrightarrow> prefix (take SRC_BLOCK (drop at (sr_h s))) (sr_block (src_held at s))"
  by (auto simp: same_def src_held_def held_ok_def src_load_def Let_def src_read_eq)

lemma prefix_nth: "prefix xs ys \<Longrightarrow> i < length xs \<Longrightarrow> ys ! i = xs ! i"
  by (auto simp: prefix_def nth_append)

lemma prefix_part: "prefix xs ys \<Longrightarrow> i + m \<le> length xs \<Longrightarrow> take m (drop i ys) = take m (drop i xs)"
  by (auto simp: prefix_def)

lemma src_at_same: "same s (snd (src_at i s))"
  by (simp add: src_at_def Let_def held_same(1))

lemma src_at_ok:
  assumes "held_ok s" "i < sr_len s"
  shows "fst (src_at i s) = whole s ! i"
proof -
  consider "i < length (sr_a s)" | "\<not> i < length (sr_a s)" "i - length (sr_a s) < length (sr_h s)" | "\<not> i < length (sr_a s)" "\<not> i - length (sr_a s) < length (sr_h s)"
    by blast
  then show ?thesis
  proof cases
    case 2
    define j where "j = i - length (sr_a s)"
    have j: "j < length (sr_h s)" "block_of j \<le> j" using 2(2) in_block(1) by (simp_all add: j_def)
    have "fst (src_at i s) = sr_block (src_held (block_of j) s) ! (j - block_of j)" using 2 by (simp add: src_at_def Let_def j_def)
    also have "\<dots> = take SRC_BLOCK (drop (block_of j) (sr_h s)) ! (j - block_of j)"
      by (rule prefix_nth [OF held_same(2) [OF assms(1)]]) (use j in_block [of j] in \<open>simp\<close>)
    also have "\<dots> = sr_h s ! j" using in_block(3) [of j] j by simp
    also have "\<dots> = whole s ! i" using 2 by (simp add: whole_def nth_append j_def)
    finally show ?thesis .
  qed (auto simp: src_at_def whole_def nth_append)
qed

text \<open>Runs of a list.\<close>

definition zrun :: "u8 list \<Rightarrow> nat" where
  "zrun xs = length (takeWhile (\<lambda>x. x = 0) xs)"

lemma zeros_at_ok:
  "held_ok s \<Longrightarrow> same s (snd (zeros_at i s)) \<and> fst (zeros_at i s) = zrun (drop i (whole s))"
proof (induction i s rule: zeros_at.induct)
  case (1 i s)
  obtain v t where v: "src_at i s = (v, t)" by fastforce
  have t: "same s t" "held_ok t" using src_at_same [of s i] 1(2) v by (auto simp: same_def)
  show ?case
  proof (cases "i < sr_len s")
    case True
    have "v = whole s ! i" using src_at_ok [OF 1(2) True] v by simp
    then have d: "drop i (whole s) = v # drop (i + 1) (whole t)"
      using True same_whole [OF t(1)] by (simp add: Cons_nth_drop_Suc length_whole)
    show ?thesis
      using 1(1) [OF True v [symmetric]] t same_trans [OF t(1)] v True d
      by (subst (1 2) zeros_at.simps) (simp add: zrun_def case_prod_unfold)
  next
    case False
    then show ?thesis by (simp add: zeros_at.simps zrun_def length_whole)
  qed
qed

lemma zrun_Cons: "zrun (x # xs) = (if x = 0 then Suc (zrun xs) else 0)"
  by (simp add: zrun_def)

text \<open>The literals at the head of a list: up to the first run of at least four zeros.\<close>

function lits :: "u8 list \<Rightarrow> nat" where
  "lits xs =
     (case xs of [] \<Rightarrow> 0
      | x # ys \<Rightarrow> if x \<noteq> 0 then Suc (lits ys) else if CHK_MIN_ZERO_RUN \<le> zrun xs then 0 else zrun xs + lits (drop (zrun xs) xs))"
  by auto
termination by (relation "measure length") (auto simp: zrun_Cons)

declare lits.simps [simp del]

lemma literal_end_ok:
  "held_ok s \<Longrightarrow> same s (snd (literal_end i s)) \<and> fst (literal_end i s) = i + lits (drop i (whole s))"
proof (induction i s rule: literal_end.induct)
  case (1 i s)
  obtain v t where v: "src_at i s = (v, t)" by fastforce
  obtain run u where u: "zeros_at i t = (run, u)" by fastforce
  have t: "same s t" "held_ok t" using src_at_same [of s i] 1(3) v by (auto simp: same_def)
  have r: "same t u" "held_ok u" "run = zrun (drop i (whole t))" using zeros_at_ok [OF t(2), of i] u t(2) by (auto simp: same_def)
  have w: "whole t = whole s" "whole u = whole s" "same s u" using same_whole t(1) r(1) same_trans by metis+
  show ?case
  proof (cases "i < sr_len s")
    case True
    have "v = whole s ! i" using src_at_ok [OF 1(3) True] v by simp
    then have d: "drop i (whole s) = v # drop (i + 1) (whole s)" using True by (simp add: Cons_nth_drop_Suc length_whole)
    consider "v \<noteq> 0" | "v = 0" "4 \<le> run" | "v = 0" "\<not> 4 \<le> run" by blast
    then show ?thesis
    proof cases
      case 1
      then have "literal_end i s = literal_end (i + 1) t" using True v by (subst literal_end.simps) simp
      moreover have "lits (drop i (whole s)) = Suc (lits (drop (i + 1) (whole s)))" using d 1 by (subst lits.simps) simp
      ultimately show ?thesis using "1.IH"(1) [OF True v [symmetric] 1 t(2)] same_trans [OF t(1)] w(1) by simp
    next
      case 2
      then have "literal_end i s = (i, u)" using True v u by (subst literal_end.simps) simp
      moreover have "lits (drop i (whole s)) = 0" using d 2 r(3) w(1) by (subst lits.simps) simp
      ultimately show ?thesis using w(3) by simp
    next
      case 3
      then have "literal_end i s = literal_end (i + run) u" using True v u by (subst literal_end.simps) simp
      moreover have "lits (drop i (whole s)) = run + lits (drop run (drop i (whole s)))" using d 3 r(3) w(1) by (subst lits.simps) simp
      then have "lits (drop i (whole s)) = run + lits (drop (i + run) (whole s))" by (simp only: drop_drop add.commute)
      ultimately show ?thesis using "1.IH"(2) [OF True v [symmetric] _ u [symmetric] 3(2) r(2)] 3(1) same_trans [OF w(3)] w(2) by simp
    qed
  next
    case False
    then show ?thesis by (simp add: literal_end.simps lits.simps length_whole)
  qed
qed

section \<open>The sink\<close>

fun sink_bytes :: "sink \<Rightarrow> u8 list" where
  "sink_bytes (To_buffer most b) = bf_p b"
| "sink_bytes (To_file out room broken) = out"

fun sink_broken :: "sink \<Rightarrow> bool" where
  "sink_broken (To_buffer most b) = bf_broken b"
| "sink_broken (To_file out room broken) = broken"

text \<open>A sink that is whole afterwards was whole and has taken the bytes; a file takes them when it has room for them and else not.\<close>

definition wrote :: "u8 list \<Rightarrow> sink \<Rightarrow> sink \<Rightarrow> bool" where
  "wrote d k l \<longleftrightarrow>
     (\<not> sink_broken l \<longrightarrow> \<not> sink_broken k \<and> sink_bytes l = sink_bytes k @ d) \<and>
     (\<forall>out room. k = To_file out room False \<longrightarrow>
        (if length d \<le> room then l = To_file (out @ d) (room - length d) False else sink_broken l))"

lemma wrote_none [simp]: "wrote [] k k"
  by (cases k) (auto simp: wrote_def)

lemma wrote_trans: "wrote d k l \<Longrightarrow> wrote e l m \<Longrightarrow> wrote (d @ e) k m"
proof -
  assume a: "wrote d k l" "wrote e l m"
  have w: "\<not> sink_broken m \<longrightarrow> \<not> sink_broken l" using a(2) by (simp add: wrote_def)
  have "if length (d @ e) \<le> room then m = To_file (out @ d @ e) (room - length (d @ e)) False else sink_broken m" if k: "k = To_file out room False" for out room
  proof (cases "length d \<le> room")
    case True
    then have "l = To_file (out @ d) (room - length d) False" using a(1) k by (simp add: wrote_def)
    then show ?thesis using a(2) True unfolding wrote_def by (cases "length e \<le> room - length d") (auto simp: add.commute)
  next
    case False
    then show ?thesis using a(1) k w by (auto simp: wrote_def)
  qed
  then show "wrote (d @ e) k m" using a unfolding wrote_def by simp
qed

lemma bput_whole: "\<not> bf_broken (bput most d b) \<Longrightarrow> \<not> bf_broken b \<and> bf_p (bput most d b) = bf_p b @ d"
  by (auto simp: bput_def Let_def split: if_splits)

lemma sput_wrote: "wrote d k (sput d k)"
  using bput_whole by (cases k) (auto simp: wrote_def)

function vbytes :: "u64 \<Rightarrow> u8 list" where
  "vbytes v = (if drop_bit 7 v = 0 then [ucast (v AND 0x7f)] else (ucast (v AND 0x7f) OR 0x80) # vbytes (drop_bit 7 v))"
  by auto
termination by (relation "measure unat") (auto intro: drop_bit_less)

declare vbytes.simps [simp del]

lemma varint_wrote: "wrote (vbytes v) k (varint v k)"
proof (induction v k rule: varint.induct)
  case (1 v k)
  show ?case
  proof (cases "drop_bit 7 v = 0")
    case True
    then show ?thesis using sput_wrote by (simp add: varint.simps vbytes.simps)
  next
    case False
    then show ?thesis
      using wrote_trans [OF sput_wrote 1 [OF refl refl False]] by (subst varint.simps, subst vbytes.simps) (simp add: Let_def)
  qed
qed

lemma part_whole:
  "fr + m \<le> length (sr_a s) \<Longrightarrow> take m (drop fr (whole s)) = take m (drop fr (sr_a s))"
  "i + m \<le> length (sr_h s) \<Longrightarrow> take m (drop (length (sr_a s) + i) (whole s)) = take m (drop i (sr_h s))"
  "take m (drop (length (sr_a s) + length (sr_h s) + j) (whole s)) = take m (drop j (sr_b s))"
  by (simp_all add: whole_def)

lemma part_of_part: "b \<le> i \<Longrightarrow> i - b + m \<le> n \<Longrightarrow> take m (drop (i - b) (take n (drop b h))) = take m (drop i h)"
  by (simp add: drop_take min_absorb1)

lemma src_copy_wrote:
  "held_ok s \<Longrightarrow> fr + n \<le> sr_len s \<Longrightarrow>
     same s (fst (src_copy fr n s k)) \<and> wrote (take n (drop fr (whole s))) k (snd (src_copy fr n s k))"
proof (induction fr n s k rule: src_copy.induct)
  case (1 fr n s k)
  have join: "take n (drop fr (whole s)) = take m (drop fr (whole s)) @ take (n - m) (drop (fr + m) (whole s))" if "m \<le> n" for m
    using that take_add [of m "n - m" "drop fr (whole s)"] by (simp add: add.commute)
  consider "n = 0" | "n \<noteq> 0" "fr < length (sr_a s)" | "n \<noteq> 0" "\<not> fr < length (sr_a s)" "fr - length (sr_a s) < length (sr_h s)"
    | "n \<noteq> 0" "\<not> fr < length (sr_a s)" "\<not> fr - length (sr_a s) < length (sr_h s)" by blast
  then show ?case
  proof cases
    case 1
    then show ?thesis by (simp add: src_copy.simps)
  next
    case 2
    define m where "m = min (length (sr_a s) - fr) n"
    have m: "m \<le> n" "fr + m \<le> length (sr_a s)" using 2(2) by (auto simp: m_def)
    have "src_copy fr n s k = src_copy (fr + m) (n - m) s (sput (take m (drop fr (sr_a s))) k)"
      using 2 by (subst src_copy.simps) (simp only: if_True if_False Let_def m_def)
    moreover have "wrote (take m (drop fr (whole s))) k (sput (take m (drop fr (sr_a s))) k)"
      using sput_wrote part_whole(1) [OF m(2)] by simp
    ultimately show ?thesis
      using "1.IH"(1) [OF 2 m_def "1.prems"(1)] "1.prems"(2) m(1) wrote_trans join [OF m(1)] by (simp only:)
  next
    case 3
    define i where "i = fr - length (sr_a s)"
    define t where "t = src_held (block_of i) s"
    define m where "m = min (min (SRC_BLOCK - (i - block_of i)) (length (sr_h t) - i)) n"
    have t: "same s t" "held_ok t" "prefix (take SRC_BLOCK (drop (block_of i) (sr_h s))) (sr_block t)" "sr_h t = sr_h s" "whole t = whole s" "sr_len t = sr_len s"
      using held_same [of s "block_of i"] "1.prems"(1) same_whole [of s t] by (auto simp: t_def same_def)
    have i: "block_of i \<le> i" "i - block_of i < SRC_BLOCK" "i < length (sr_h s)" "fr = length (sr_a s) + i"
      using in_block [of i] 3 by (simp_all add: i_def)
    have m: "m \<le> n" "i + m \<le> length (sr_h s)" "i - block_of i + m \<le> length (take SRC_BLOCK (drop (block_of i) (sr_h s)))"
      using i t(4) by (auto simp: m_def)
    have "src_copy fr n s k = src_copy (fr + m) (n - m) t (sput (take m (drop (i - block_of i) (sr_block t))) k)"
      using 3 by (subst src_copy.simps) (simp only: if_True if_False Let_def m_def i_def t_def)
    moreover have tk: "take m (drop (i - block_of i) (sr_block t)) = take m (drop fr (whole s))"
    proof -
      have "take m (drop (i - block_of i) (sr_block t)) = take m (drop (i - block_of i) (take SRC_BLOCK (drop (block_of i) (sr_h s))))"
        by (rule prefix_part [OF t(3) m(3)])
      also have "\<dots> = take m (drop i (sr_h s))" by (rule part_of_part) (use i(1) m(3) in simp_all)
      finally show ?thesis using part_whole(2) [OF m(2)] i(4) by simp
    qed
    moreover have "same t (fst (src_copy (fr + m) (n - m) t (sput (take m (drop fr (whole s))) k))) \<and>
        wrote (take (n - m) (drop (fr + m) (whole s))) (sput (take m (drop fr (whole s))) k) (snd (src_copy (fr + m) (n - m) t (sput (take m (drop fr (whole s))) k)))"
      using "1.IH"(2) [OF 3 i_def refl t_def m_def t(2)] "1.prems"(2) m(1) t(5,6) unfolding tk by simp
    ultimately show ?thesis
      using wrote_trans [OF sput_wrote] same_trans [OF t(1)] unfolding join [OF m(1)] by simp
  next
    case 4
    define j where "j = fr - length (sr_a s) - length (sr_h s)"
    have "fr = length (sr_a s) + length (sr_h s) + j" using 4 by (simp add: j_def)
    then have "take n (drop fr (whole s)) = take n (drop j (sr_b s))" using part_whole(3) by simp
    then show ?thesis using 4 sput_wrote by (simp add: src_copy.simps j_def)
  qed
qed

section \<open>The packing\<close>

lemma lits_some: "xs \<noteq> [] \<Longrightarrow> zrun xs = 0 \<Longrightarrow> 0 < lits xs"
  by (subst lits.simps) (auto simp: zrun_Cons split: list.split if_splits)

lemma run_lengths: "zrun xs \<le> length xs" "lits xs \<le> length xs"
proof -
  show "zrun xs \<le> length xs" by (simp add: zrun_def length_takeWhile_le)
  show "lits xs \<le> length xs"
  proof (induction xs rule: lits.induct)
    case (1 xs)
    have "zrun xs \<le> length xs" by (simp add: zrun_def length_takeWhile_le)
    then show ?case using 1 by (subst lits.simps) (auto split: list.split)
  qed
qed

function packed :: "u8 list \<Rightarrow> u8 list" where
  "packed xs =
     (if xs = [] then []
      else let ys = drop (zrun xs) xs
        in vbytes (of_nat (zrun xs)) @ vbytes (of_nat (lits ys)) @ take (lits ys) ys @ packed (drop (lits ys) ys))"
  by auto
termination
proof (relation "measure length", goal_cases)
  case (2 xs ys)
  have "0 < zrun xs \<or> 0 < lits ys" using 2 lits_some [of xs] by (cases "zrun xs = 0") simp_all
  then show ?case using 2 by auto
qed simp

declare packed.simps [simp del]

lemma pack_runs_wrote:
  "held_ok s \<Longrightarrow> wrote (packed (drop i (whole s))) k (snd (pack_runs i s k))"
proof (induction i s k rule: pack_runs.induct)
  case (1 i s k)
  show ?case
  proof (cases "i < sr_len s")
    case True
    obtain z t where z: "zeros_at i s = (z, t)" by fastforce
    have t: "same s t" "held_ok t" "z = zrun (drop i (whole s))" using zeros_at_ok [OF 1(2), of i] z 1(2) by (auto simp: same_def)
    obtain e u where e: "literal_end (i + z) t = (e, u)" by fastforce
    let ?ys = "drop z (drop i (whole s))"
    have u: "same t u" "held_ok u" "e = i + z + lits ?ys" "whole t = whole s"
      using literal_end_ok [OF t(2), of "i + z"] e t(2) same_whole [OF t(1)] by (auto simp: same_def add.commute)
    let ?k = "varint (of_nat (e - (i + z))) (varint (of_nat z) k)"
    obtain v l where c: "src_copy (i + z) (e - (i + z)) u ?k = (v, l)" by fastforce
    have w: "whole u = whole s" "sr_len u = sr_len s" using same_whole u(1,4) t(1) by metis+
    have "e \<le> sr_len s" using u(3) run_lengths(2) [of ?ys] run_lengths(1) [of "drop i (whole s)"] t(3) True by (simp add: length_whole)
    then have v: "same u v" "wrote (take (lits ?ys) ?ys) ?k l"
      using src_copy_wrote [OF u(2), of "i + z" "e - (i + z)" ?k] c u(3) w by (simp_all add: add.commute)
    have "held_ok v" "whole v = whole s" using v(1) u(2) w(1) same_whole [OF v(1)] by (simp_all add: same_def)
    then have r: "wrote (packed (drop e (whole s))) l (snd (pack_runs e v l))"
      using 1(1) [OF True z [symmetric] e [symmetric] c [symmetric]] by simp
    have n: "drop i (whole s) \<noteq> []" "drop (lits ?ys) ?ys = drop e (whole s)" "e - (i + z) = lits ?ys"
      using True u(3) by (simp_all add: length_whole add.commute add.left_commute)
    have "packed (drop i (whole s)) = vbytes (of_nat z) @ vbytes (of_nat (lits ?ys)) @ take (lits ?ys) ?ys @ packed (drop e (whole s))"
      using n t(3) by (subst packed.simps) (simp only: if_False Let_def)
    moreover have "pack_runs i s k = pack_runs e v l" using True z e c by (subst pack_runs.simps) simp
    moreover have "wrote (vbytes (of_nat z) @ vbytes (of_nat (lits ?ys)) @ take (lits ?ys) ?ys @ packed (drop e (whole s))) k (snd (pack_runs e v l))"
      using wrote_trans [OF varint_wrote wrote_trans [OF varint_wrote wrote_trans [OF v(2) r]]] n(3) by simp
    ultimately show ?thesis by simp
  next
    case False
    then show ?thesis by (simp add: pack_runs.simps packed.simps length_whole)
  qed
qed

section \<open>Reading back\<close>

text \<open>A count, as the check's reader takes it.\<close>

fun get_varint :: "u8 list \<Rightarrow> nat \<Rightarrow> u64 \<Rightarrow> u64 \<times> u8 list" where
  "get_varint [] shift v = (v, [])"
| "get_varint (b # bs) shift v =
     (let v = v OR push_bit shift (ucast (b AND 0x7f)) in if bit b 7 then get_varint bs (shift + 7) v else (v, bs))"

lemma get_varint_less: "length (snd (get_varint p n v)) \<le> length p - 1"
  by (induction p n v rule: get_varint.induct) (auto simp: Let_def)

text \<open>
  The check's reader of a packed body of a given length.  Counts are added as numbers, and literals that run past
  the end of the bytes, which the check never gives it, are refused.
\<close>

function unpack :: "nat \<Rightarrow> u8 list \<Rightarrow> u8 list \<Rightarrow> u8 list option" where
  "unpack len p out =
     (if p = [] then (if length out = len then Some out else None)
      else case get_varint p 0 0 of (zeros, q) \<Rightarrow>
        case get_varint q 0 0 of (lit, r) \<Rightarrow>
          if len < length out + unat zeros + unat lit \<or> length r < unat lit then None
          else unpack len (drop (unat lit) r) (out @ replicate (unat zeros) 0 @ take (unat lit) r))"
  by pat_completeness simp

termination
proof (relation "measure (\<lambda>(len, p, out). length p)", goal_cases)
  case (2 len p out z q l r)
  then have "length q \<le> length p - 1" "length r \<le> length q - 1" using get_varint_less [of p 0 0] get_varint_less [of q 0 0] by (auto dest: arg_cong [where f = snd])
  then show ?case using 2(1) by (cases p) auto
qed simp

declare unpack.simps [simp del]

lemma seven: "(0x7f :: 'a::len word) = mask 7" "(0x80 :: u8) = push_bit 7 1"
  by (simp_all add: mask_eq_exp_minus_1)

lemma seven_bits:
  fixes v :: u64
  shows "ucast (ucast (v AND 0x7f) :: u8) = v AND 0x7f" "(ucast (v AND 0x7f) OR 0x80 :: u8) AND 0x7f = ucast (v AND 0x7f)"
    "(ucast (v AND 0x7f) :: u8) AND 0x7f = ucast (v AND 0x7f)" "bit (ucast (v AND 0x7f) OR 0x80 :: u8) 7" "\<not> bit (ucast (v AND 0x7f) :: u8) 7"
    "v = (v AND 0x7f) OR push_bit 7 (drop_bit 7 v)"
  unfolding seven by (auto simp: bit_simps simp del: push_bit_of_1 push_bit_numeral intro!: bit_word_eqI)

lemma get_vbytes: "get_varint (vbytes v @ rest) n acc = (acc OR push_bit n v, rest)"
proof (induction v arbitrary: n acc rule: vbytes.induct)
  case (1 v)
  note b = seven_bits [of v]
  show ?case
  proof (cases "drop_bit 7 v = 0")
    case True
    then have "v AND 0x7f = v" using b(6) by simp
    then show ?thesis using True b(1,3,5) by (subst vbytes.simps) (simp add: Let_def)
  next
    case False
    have "acc OR push_bit n v = (acc OR push_bit n (v AND 0x7f)) OR push_bit (n + 7) (drop_bit 7 v)"
      by (subst b(6)) (simp add: push_bit_or or.assoc add.commute del: push_bit_and)
    then show ?thesis using 1 [OF False] False b(1,2,4) by (subst vbytes.simps) (simp add: Let_def)
  qed
qed

lemma zrun_split: "xs = replicate (zrun xs) 0 @ drop (zrun xs) xs"
  by (induction xs) (simp_all add: zrun_Cons zrun_def)

lemma unpack_packed:
  "length out + length xs = len \<Longrightarrow> len < 2 ^ 64 \<Longrightarrow> unpack len (packed xs) out = Some (out @ xs)"
proof (induction xs arbitrary: out rule: packed.induct)
  case (1 xs)
  show ?case
  proof (cases "xs = []")
    case True
    then show ?thesis using 1(2) by (simp add: packed.simps unpack.simps)
  next
    case False
    define ys where "ys = drop (zrun xs) xs"
    let ?z = "zrun xs" and ?l = "lits ys"
    have l: "?z \<le> length xs" "?l \<le> length ys" "length ys = length xs - ?z" using run_lengths(1) [of xs] run_lengths(2) [of ys] by (simp_all add: ys_def)
    have u: "unat (of_nat ?z :: u64) = ?z" "unat (of_nat ?l :: u64) = ?l"
      using l 1(2,3) by (simp_all add: unat_of_nat)
    have x: "xs = replicate ?z 0 @ ys" using zrun_split by (simp add: ys_def)
    have p: "packed xs = vbytes (of_nat ?z) @ vbytes (of_nat ?l) @ take ?l ys @ packed (drop ?l ys)"
      using False by (subst packed.simps) (simp only: if_False Let_def flip: ys_def)
    have ne: "packed xs \<noteq> []" unfolding p by (subst vbytes.simps) simp
    have g: "get_varint (packed xs) 0 0 = (of_nat ?z, vbytes (of_nat ?l) @ take ?l ys @ packed (drop ?l ys))"
        "get_varint (vbytes (of_nat ?l) @ take ?l ys @ packed (drop ?l ys)) 0 0 = (of_nat ?l, take ?l ys @ packed (drop ?l ys))"
      unfolding p by (simp_all add: get_vbytes)
    have "unpack len (packed xs) out = unpack len (packed (drop ?l ys)) (out @ replicate ?z 0 @ take ?l ys)"
    proof -
      have "\<not> len < length out + ?z + ?l" using l 1(2) by linarith
      then show ?thesis using ne g u l(2) by (subst unpack.simps) simp
    qed
    also have "\<dots> = Some ((out @ replicate ?z 0 @ take ?l ys) @ drop ?l ys)"
      by (rule 1(1) [OF False ys_def]) (use l 1(2,3) in simp_all)
    finally show ?thesis using x by (metis append.assoc append_take_drop_id)
  qed
qed

section \<open>The file\<close>

text \<open>The body's bytes, those of the hole in their place; the head's; and a reader of both.\<close>

definition body_bytes :: "chk \<Rightarrow> u8 list" where
  "body_bytes w =
     (case ck_hole w of None \<Rightarrow> bf_p w | Some h \<Rightarrow> take (ck_hole_at w) (bf_p w) @ h @ drop (ck_hole_at w) (bf_p w))"

definition body_version :: "chk \<Rightarrow> u32" where
  "body_version w = (if ck_version w = 0 then 54 else ck_version w)"

definition checkpoint_bytes :: "u8 list \<Rightarrow> u32 \<Rightarrow> chk \<Rightarrow> u8 list" where
  "checkpoint_bytes engine boards body =
     kMagic @ bytes_of_word (body_version body) @ of_nat (length engine) # engine @ bytes_of_word boards @ packed (body_bytes body)"

definition read_checkpoint :: "nat \<Rightarrow> u8 list \<Rightarrow> (u32 \<times> u8 list \<times> u32 \<times> u8 list) option" where
  "read_checkpoint len f =
     (let n = unat (f ! 20)
      in if length f < 25 + n \<or> take 16 f \<noteq> kMagic then None
         else case unpack len (drop (25 + n) f) [] of
             None \<Rightarrow> None
           | Some body \<Rightarrow> Some (hd (words_of_bytes 1 (drop 16 f)), take n (drop 21 f), hd (words_of_bytes 1 (drop (21 + n) f)), body))"

lemma length_magic [simp]: "length kMagic = 16"
  by (simp add: kMagic_def)

lemma le_bytes_word: "le_bytes 4 v = bytes_of_word v"
  by (simp add: le_bytes_def bytes_of_word_def byte_of_def)

lemma grown_enough: "n \<le> 4096 \<Longrightarrow> grown 4096 n = 4096"
  by (subst grown.simps) simp

text \<open>The head fits in the first buffer the allocator gives.\<close>

definition small :: "u8 list \<Rightarrow> chk \<Rightarrow> bool" where
  "small p w \<longleftrightarrow> \<not> bf_broken w \<and> bf_cap w \<in> {0, 4096} \<and> bf_p w = p"

lemma put_small: "small p w \<Longrightarrow> 4096 \<le> most \<Longrightarrow> length p + length d \<le> 4096 \<Longrightarrow> small (p @ d) (put most d w)"
  using grown_enough [of "length p + length d"] by (auto simp: small_def put_def bput_def Let_def)

lemma head_bytes:
  assumes "4096 \<le> most" "length engine < 256"
  shows "small (kMagic @ bytes_of_word (body_version body) @ of_nat (length engine) # engine @ bytes_of_word boards) (chk_head most engine boards body)"
proof -
  have "small [] chk_init" by (simp add: small_def chk_init_def)
  note 1 = put_small [OF this assms(1), of kMagic]
  note 2 = put_small [OF 1 assms(1), of "bytes_of_word (body_version body)"]
  note 3 = put_small [OF 2 assms(1), of "[of_nat (length engine)]"]
  note 4 = put_small [OF 3 assms(1), of engine]
  note 5 = put_small [OF 4 assms(1), of "bytes_of_word boards"]
  have "chk_head most engine boards body =
      put most (bytes_of_word boards) (put most engine (put most [of_nat (length engine)] (put most (bytes_of_word (body_version body)) (put most kMagic chk_init))))"
    by (simp add: chk_head_def chk_u32_def chk_u8_def le_bytes_word body_version_def)
  then show ?thesis using 5 assms(2) by simp
qed

lemma source_whole: "whole (src_of addr w) = body_bytes w" "held_ok (src_of addr w)"
  by (auto simp: whole_def src_of_def body_bytes_def held_ok_def Let_def split: option.split)

lemma read_written:
  assumes "length engine < 256" "length (body_bytes body) < 2 ^ 64"
  shows "read_checkpoint (length (body_bytes body)) (checkpoint_bytes engine boards body) = Some (body_version body, engine, boards, body_bytes body)"
proof -
  let ?f = "checkpoint_bytes engine boards body" and ?n = "length engine"
  have n: "unat (of_nat ?n :: u8) = ?n" using assms(1) by (simp add: unat_of_nat)
  have f: "?f ! 20 = of_nat ?n" "drop 21 ?f = engine @ bytes_of_word boards @ packed (body_bytes body)" "take 16 ?f = kMagic"
      "drop 16 ?f = bytes_of_word (body_version body) @ of_nat ?n # engine @ bytes_of_word boards @ packed (body_bytes body)"
    by (simp_all add: checkpoint_bytes_def nth_append)
  have d: "drop (21 + ?n) ?f = bytes_of_word boards @ packed (body_bytes body)" "drop (25 + ?n) ?f = packed (body_bytes body)"
  proof -
    show d: "drop (21 + ?n) ?f = bytes_of_word boards @ packed (body_bytes body)" using arg_cong [OF f(2), of "drop ?n"] by (simp add: add.commute)
    show "drop (25 + ?n) ?f = packed (body_bytes body)" using arg_cong [OF d, of "drop 4"] by (simp add: add.commute)
  qed
  have w: "hd (words_of_bytes 1 (bytes_of_word v @ r)) = v" for v r
    using le32_byte_of by (simp add: words_of_bytes_def bytes_of_word_def nth_append numeral_eq_Suc)
  have "25 + ?n \<le> length ?f" by (simp add: checkpoint_bytes_def)
  then show ?thesis
    using unpack_packed [of "[]" "body_bytes body"] assms(2) by (simp add: read_checkpoint_def Let_def f d n w [unfolded One_nat_def])
qed

text \<open>
  C18. A checkpoint written is read back.  With memory for its head, the file is written exactly when it opens, has
  room for all of it and closes; it is then the head and the one packing of the body, main memory
  read in its place block by block, and reading it gives the version, the engine, the number of
  boards and every byte of the body.\<close>

theorem checkpoint_reads_back:
  assumes "\<not> bf_broken body" "length engine < 256" "length (body_bytes body) < 2 ^ 64" "4096 \<le> io_most io"
  shows "(chk_write_file io engine boards body = (None, Some f) \<longleftrightarrow>
      io_src io \<and> io_opens io \<and> io_closes io \<and> length f \<le> io_room io \<and> f = checkpoint_bytes engine boards body) \<and>
    read_checkpoint (length (body_bytes body)) (checkpoint_bytes engine boards body) = Some (body_version body, engine, boards, body_bytes body)"
proof
  show "read_checkpoint (length (body_bytes body)) (checkpoint_bytes engine boards body) = Some (body_version body, engine, boards, body_bytes body)"
    using read_written assms(2,3) .
  let ?h = "chk_head (io_most io) engine boards body" and ?f = "checkpoint_bytes engine boards body" and ?room = "io_room io"
  have h: "\<not> bf_broken ?h" "bf_p ?h @ packed (body_bytes body) = ?f"
    using head_bytes [OF assms(4,2), of body boards] by (simp_all add: small_def checkpoint_bytes_def)
  obtain s k where k: "pack_runs 0 (src_of (io_addr io) body) (sput (bf_p ?h) (To_file [] ?room False)) = (s, k)" by fastforce
  have "wrote ?f (To_file [] ?room False) k"
    using wrote_trans [OF sput_wrote pack_runs_wrote [OF source_whole(2), of 0 "io_addr io" body]] h(2) source_whole(1) k by (metis drop_0 snd_conv)
  then have w: "if length ?f \<le> ?room then k = To_file ?f (?room - length ?f) False else sink_broken k" by (simp add: wrote_def)
  show "chk_write_file io engine boards body = (None, Some f) \<longleftrightarrow> io_src io \<and> io_opens io \<and> io_closes io \<and> length f \<le> ?room \<and> f = ?f"
    using assms(1) h(1) k w by (cases k) (auto simp: chk_write_file_def Let_def split: if_splits)
qed

definition wit_body :: chk where
  "wit_body = \<lparr>bf_p = [1, 0], bf_cap = 4096, bf_broken = False, ck_word_bytes = 4, ck_version = 0, ck_hole = Some [7, 0, 0, 0, 0, 0, 9], ck_hole_at = 2\<rparr>"

theorem checkpoint_reads_back_witness:
  "chk_write_file \<lparr>io_most = 4096, io_src = True, io_opens = True, io_room = 64, io_closes = True, io_addr = 0\<rparr> [0x72, 0x74, 0x6C] 1 wit_body =
     (None, Some (checkpoint_bytes [0x72, 0x74, 0x6C] 1 wit_body)) \<and>
   read_checkpoint 9 (checkpoint_bytes [0x72, 0x74, 0x6C] 1 wit_body) = Some (54, [0x72, 0x74, 0x6C], 1, [1, 0, 7, 0, 0, 0, 0, 0, 9])"
proof -
  have b: "body_bytes wit_body = [1, 0, 7, 0, 0, 0, 0, 0, 9]" "body_version wit_body = 54" "\<not> bf_broken wit_body"
    by (simp_all add: wit_body_def body_bytes_def body_version_def)
  have l: "length (body_bytes wit_body) = 9" by (simp add: b)
  have "packed [1, 0, 7, 0, 0, 0, 0, 0, 9] = [0, 3, 1, 0, 7, 5, 1, 9]" by code_simp
  then have "length (checkpoint_bytes [0x72, 0x74, 0x6C] 1 wit_body) \<le> 64" by (simp add: checkpoint_bytes_def b)
  then show ?thesis
    using checkpoint_reads_back [of wit_body "[0x72, 0x74, 0x6C]" "\<lparr>io_most = 4096, io_src = True, io_opens = True, io_room = 64, io_closes = True, io_addr = 0\<rparr>" 1
        "checkpoint_bytes [0x72, 0x74, 0x6C] 1 wit_body"] unfolding l by (simp add: b)
qed

end
