(* ===== verification/Spec2Isabelle.thy ===== *)
theory Spec2Isabelle
  imports Feeder_Contract Qed_Host_Props Qed_Device_Props Chaos_Start Input_Link_Props Qfd_Served Qfd_Write Qfd_Names
    Sha256 Chk_Props
begin

text \<open>
  The Linux side of the CADR and QUUX in the fabric: the programs that keep the machine's disk
  packs, its Ethernet, its Chaosnet and its file device, the checkpoint, and what they share.  The sources are under
  \<^verbatim>\<open>src/boards/arty-z7-20/linux/buildroot/package/\<close>; file names below are of \<^verbatim>\<open>cadr-disk-packs/src\<close>,
  \<^verbatim>\<open>quux-ethernet-device/src\<close>, \<^verbatim>\<open>cadr-chaosnet/src\<close>, \<^verbatim>\<open>quux-file-device/src\<close> and \<^verbatim>\<open>cadr-common/src\<close>
  there.

  \<^bold>\<open>The programs.\<close>  \<^verbatim>\<open>cadr-disk-packs\<close> keeps eight drives.  A pack is a file: a T-80 or a T-300
  image, or QUUX's disk as a raw, fixed or dynamic VHD file.  The fabric holds a few blocks in
  slots and asks for a block by a request; the program fetches it into a slot through a record in
  spare memory, and writes a slot the machine wrote back to its pack before the slot is used
  again.  \<^verbatim>\<open>quux-ethernet-device\<close> moves Ethernet frames between a network interface and two rings
  of QUUX's main memory, by a page of registers that it shares with the machine: a claim says it
  is at main memory, an epoch says which enabling of the device an index is of.
  \<^verbatim>\<open>cadr-chaosnet\<close> is the cable of the CADR's Chaosnet interface: it takes each frame the machine
  transmits, sends it in a UDP datagram to the boards that claim its destination, and offers what
  comes in to the machine's receive buffer, again if the machine has not emptied it.
  \<^verbatim>\<open>quux-file-device\<close> serves folders of the board to the machine: the machine posts commands in a
  ring, each is done on the host's files and answered in a second ring, by a page of registers like
  the Ethernet's, with the number of files the machine has open shown on it.
  \<^verbatim>\<open>cadr-common\<close> has what the programs share, among it the link by which a second program gives keys
  and mouse movement to the one that owns the machine's input.

  \<^bold>\<open>The disk packs, theory by theory.\<close>
  \<^item> \<open>Prelude\<close>: bytes and words.  \<open>Posix\<close>: files, inodes and descriptors, and the system calls the
    programs make of them, each of which may fail or do part of its work by a script.
  \<^item> \<open>Pack_Ecc\<close> (\<^verbatim>\<open>pack_ecc.h\<close>): the checkword; both loops agree, and it detects every burst of
    32 bits.
  \<^item> \<open>Quux_Disk\<close> (\<^verbatim>\<open>quux_disk.c\<close>), with its layout in \<open>Quux_Disk_Layout\<close> and its lemmas in
    \<open>Quux_Disk_Props\<close> and \<open>Quux_Disk_Open\<close>: a disk that opens is inside its bounds, writes read
    back, a write that fails part way harms no other block, and where nothing fails it completes.
  \<^item> \<open>Block_Store\<close>: the interface of a store of blocks as a locale, which QUUX's disk and a pack are
    both interpretations of.
  \<^item> \<open>Pack_File\<close>, \<open>Pack_File_Props\<close> and \<open>Pack_Contract\<close> (\<^verbatim>\<open>pack_file.c\<close>): geometry, the tables of
    what disagrees with the format, the record of a block and its write-back; an abstract pack,
    a function from blocks to records, that the file implements.
  \<^item> \<open>Pack_Side\<close> (\<^verbatim>\<open>pack_side.c\<close>), \<open>Pack_Bay\<close> (\<^verbatim>\<open>pack_bay.c\<close>), \<open>Pack_Feeder\<close> (\<^verbatim>\<open>pack_feeder.c\<close>) with
    \<open>Pack_Feeder_Table\<close> and \<open>Pack_Feeder_Props\<close>: the driver of the register face, the drives, and
    the slots between them, over any face.
  \<^item> \<open>Pack_Fabric\<close>, \<open>Fake_Face\<close> and \<open>Fake_Writeback\<close> (\<^verbatim>\<open>feeder_test.c\<close>): the interface of a
    register face that does what it is asked as a locale, and the tests' model of the fabric as
    its interpretation.
  \<^item> \<open>Run\<close>: reachable states, and the interface of an invariant.  \<open>Pack_Daemon\<close> and \<open>Daemon_Run\<close>
    (\<^verbatim>\<open>cadr-disk-packs.c\<close>): the start, the loop and the stop, and that in every state reached a
    claimed slot is a block of a pack in the bay, no block claimed twice.
  \<^item> \<open>Feeder_Contract\<close>: a block the machine wrote reaches its pack; a write-back touches no other
    block; a block served is the pack's; a pack that was read-only or taken away is not written.

  \<^bold>\<open>The Ethernet device, theory by theory.\<close>
  \<^item> \<open>Qed_Offload\<close> (\<^verbatim>\<open>qed_offload.c\<close>): the checksums and the type filter; what transmit fills in,
    receive accepts.
  \<^item> \<open>Qed_Mem\<close> (\<^verbatim>\<open>qed_mem.c\<close>): packed storage, five bytes a word, by aligned accesses; it is an
    interpretation of a memory of words (\<open>word_memory\<close>).
  \<^item> \<open>Qed_Host\<close> and \<open>Qed_Host_Props\<close> (\<^verbatim>\<open>qed_host.c\<close>): the flags' parsers; an address is parsed of
    exactly the text it prints as, and what the flags accept is a sound host.
  \<^item> \<open>Qed_Face\<close> (\<^verbatim>\<open>qed_face.h\<close>, \<^verbatim>\<open>qed_face_fabric.c\<close>) and \<open>Qed_Ring\<close> (\<^verbatim>\<open>qed_ring.c\<close>): the page,
    the face over it, and the ring's two directions over any face.
  \<^item> \<open>Qed_Page\<close> (\<^verbatim>\<open>qed_test.c\<close>): the tests' model of the page with the rules it watches the program
    by.  Where the tests disable the device at one chosen touch, the model runs any script of the
    machine's register writes, resets and changes of memory before each access of the program.
  \<^item> \<open>Qed_Watch\<close>: what one move of the machine may do to the device, as a step relation; the locale
    \<open>watched\<close> says what a program may rely on while the epoch stands.  \<open>Qed_Rules\<close>: the ring keeps
    the page's rules under any script.  \<open>Qed_Deliver\<close>: with the machine quiet, a delivered frame
    is what the machine reads and a transmit pass is its entries in order.
  \<^item> \<open>Qed_Device\<close> and \<open>Qed_Device_Props\<close> (\<^verbatim>\<open>quux-ethernet-device.c\<close>): the command line, the start,
    the loop and the log's limit, and the page's rules over whole runs.

  \<^bold>\<open>The Chaosnet, theory by theory.\<close>
  \<^item> \<open>Burst_Code\<close>: a check register that shifts and feeds back, as a locale; the packs' checkword and
    the Chaosnet's check word are interpretations, so both detect every burst as long as they are.
  \<^item> \<open>Chaos_Packet\<close> (\<^verbatim>\<open>chaos_packet.c\<close>): packets to frames and back.
  \<^item> \<open>Chaos_Face\<close> (\<^verbatim>\<open>chaos_face.c\<close>, \<^verbatim>\<open>chaos_test_model.c\<close>): the driver of the interface's registers over
    any face, and the tests' model of the interface; what the program is told of a frame is true.
  \<^item> \<open>Chaos_Count\<close>, \<open>Chaos_Inject\<close> and \<open>Chaos_Inject_Props\<close> (\<^verbatim>\<open>chaos_inject.c\<close>): the retry at the
    machine's end; its counts close, no frame waits for ever, and a burst arrives in order.
  \<^item> \<open>C_String\<close>: \<^verbatim>\<open>strtoul\<close> and its like.  \<open>Chaos_Udp\<close> and \<open>Chaos_Udp_Props\<close> (\<^verbatim>\<open>chaos_udp.c\<close>): datagrams,
    peers, sending and receiving over any network; a frame crosses as it was sent, and only frames
    for this cable are delivered.
  \<^item> \<open>Chaos_Daemon\<close>, \<open>Chaos_Daemon_Props\<close> and \<open>Chaos_Start\<close> (\<^verbatim>\<open>cadr-chaosnet.c\<close>): the turns of the loop,
    the command line and the start; a frame gets from one machine to the other, and everything is
    accounted for over whole runs.

  \<^bold>\<open>The file device, theory by theory.\<close>  The host's files are reached through a record of functions, one
  for each system call (\<open>host\<close>), over any state; what a call returns is any value.
  \<^item> \<open>Qfd_Host\<close>, \<open>Qfd\<close> and \<open>Qfd_Command\<close> (\<^verbatim>\<open>qfd.c\<close>, \<^verbatim>\<open>qfd.h\<close>): names, mounts and the lookup of a name; the
    handles and the commands that open, close, remove, rename and make; directories, completion, reading
    and writing, the command entry with its response, and the sweep of the start.
  \<^item> \<open>Qfd_Confined\<close>: the interface of what the device may do to its host as a locale \<open>confined\<close>, a law for
    each call, and that every command stays within it.  \<open>Qfd_Model\<close>: a host of directories, files,
    links and descriptors, which is an interpretation; nothing outside the folders given changes.
  \<^item> \<open>Qfd_Names\<close>: the names taken are exactly the ones the rules allow, and a completion is the longest
    common text.  \<open>Qfd_Directory\<close>: a directory is listed whole, page by page.  \<open>Qfd_Write\<close>: a file
    written is replaced at CLOSE as a whole or not at all.
  \<^item> \<open>Qfd_Ring\<close> (\<^verbatim>\<open>qfd_face_fabric.c\<close>, \<^verbatim>\<open>qfd_ring.c\<close>, \<^verbatim>\<open>quux-file-device.c\<close>): the face over any page, the step
    that serves one command, and the program.  \<open>Qfd_Page\<close> (\<^verbatim>\<open>qfd_test.c\<close>): the tests' model of the page
    with the rules it watches the program by, the machine moving before every access.
  \<^item> \<open>Qfd_Page_Props\<close>: what the machine may do between two moments, and what the step keeps of it.
    \<open>Qfd_Served\<close>: the page's rules over whole runs of the loop; a step serves the next command; a
    disable in the middle of a reading of the page stops the program for nothing.

  \<^bold>\<open>The checkpoint, theory by theory.\<close>  File names are of \<^verbatim>\<open>cadr-checkpoint/src\<close>.
  \<^item> \<open>Sha256\<close> (\<^verbatim>\<open>sha256.c\<close>): the digest of a stream and of a file, and the standard beside it; the digest
    of a file is the standard's however the system cuts its reading.
  \<^item> \<open>Chk\<close> (\<^verbatim>\<open>chk.c\<close>): a body that grows field by field with memory that may be refused, its packing in
    runs with main memory read in place, and the file.  \<open>Chk_Props\<close>: a file that is written reads
    back, by the inverse of the tests, as the body it was of.

  \<^bold>\<open>What the programs share.\<close>
  \<^item> \<open>Cadr_Common\<close> (\<^verbatim>\<open>cadr_mem.c\<close>, \<^verbatim>\<open>cadr_endpoint.c\<close>): numbers, the guard of the fabric, and where a
    program listens; an endpoint printed is read back as itself.
  \<^item> \<open>Input_Link\<close> and \<open>Input_Link_Props\<close> (\<^verbatim>\<open>cadr_input_link.c\<close>): both ends of the input link; however
    the bytes arrive nothing is lost, and a source that goes away leaves no key down.

  \<^bold>\<open>Bounds and fuel.\<close>  A wait for the register face polls at most 100,000 times, as the code does.
  The loops of the programs are recursions over what they go through; \<^verbatim>\<open>while (!stopping)\<close> is a
  list of passes or a step of a run.  The epoch of the Ethernet device has sixteen bits, so the
  rules are shown for passes in which the machine turns the device off fewer than 65,536 times;
  any number of other moves may be among them.  The file device's rules are shown for times round the
  loop with fewer than 32,768; the model counts the disables and shows their low sixteen bits.  The
  sweep of the start goes down folders to a depth given, since nothing but the host's limit on
  a path bounds it; confinement holds at every depth.  A directory of a host is read as one list, and
  a file being copied as one list of chunks; reading and writing retried after a signal are one
  call.  The machine moves before each run of words of main memory, not between two words of it:
  the program keeps nothing across such a boundary but the words.  Confinement is of the paths given to the
  calls: a host on which somebody else puts a link in the way between two calls is not excluded.

  \<^bold>\<open>Not modelled.\<close>  The lines the programs say are values, not text.  Signals, mappings of
  physical memory, \<^verbatim>\<open>poll\<close>, the interrupt line and the network interface are given by what they
  return.  Of the checkpoint the fields of the body, the
  sidecar that binds packs and the program are left.  The other daemons (the console, terminal, serial line, display and input),
  the testbenches under \<^verbatim>\<open>src/tb\<close> and the fabric under \<^verbatim>\<open>src/rtl\<close> are not modelled.
\<close>

end
